(* ===== verification/Prelude.thy ===== *)
theory Prelude
  imports Main "HOL-Library.AList"
begin

text \<open>
  Shared vocabulary of the development.

  A JavaScript computation over a state either returns a value or throws; in both cases the
  mutations performed so far stay in the state.  \<open>outcome\<close> records this.  Arrays are lists,
  a hole of a sparse array is \<open>None\<close>, a \<open>Map\<close> or a dictionary whose order is observable
  is an association list (\<open>AList.update\<close> overwrites in place or appends, which is the
  insertion order of \<open>Map.set\<close>), and \<open>Array.prototype.indexOf\<close> and
  \<open>splice(i, 1)\<close> are \<open>index_of\<close> and \<open>remove_at\<close>.

  The locale \<open>event_machine\<close> is the contract every event-driven component of the
  repository is verified against: an invariant that holds initially and that every handler
  keeps, and the facts about whole runs that follow from it.
\<close>

section \<open>Collections of rewrite rules\<close>

named_theorems js_defs \<open>definitions of the JavaScript library operations\<close>

section \<open>Outcomes of JavaScript computations\<close>

text \<open>
  What may be thrown, by its message: a failed \<open>invariant\<close>, a \<open>TypeError\<close> of the
  language, an \<open>Error\<close> the library throws itself, and whatever user code throws.
\<close>

datatype js_exn = InvariantViolation string | TypeError string | JsError string | UserExn string

datatype ('e, 's, 'a) outcome = Ret 'a 's | Throw 'e 's

fun out_state :: "('e, 's, 'a) outcome \<Rightarrow> 's" where
  "out_state (Ret _ s) = s"
| "out_state (Throw _ s) = s"

fun returns :: "('e, 's, 'a) outcome \<Rightarrow> bool" where
  "returns (Ret _ _) = True"
| "returns (Throw _ _) = False"

fun and_then :: "('e, 's, 'a) outcome \<Rightarrow> ('a \<Rightarrow> 's \<Rightarrow> ('e, 's, 'b) outcome) \<Rightarrow> ('e, 's, 'b) outcome" where
  "and_then (Ret a s) f = f a s"
| "and_then (Throw e s) f = Throw e s"

lemma and_then_Ret_iff:
  "and_then m f = Ret b t \<longleftrightarrow> (\<exists>a s. m = Ret a s \<and> f a s = Ret b t)"
  by (cases m) auto

lemma and_then_assoc: "and_then (and_then m f) g = and_then m (\<lambda>a s. and_then (f a s) g)"
  by (cases m) auto

lemma and_then_unit [simp]: "and_then m Ret = m"
  by (cases m) auto

lemma out_state_and_then:
  "out_state (and_then m f) = (case m of Ret a s \<Rightarrow> out_state (f a s) | Throw e s \<Rightarrow> s)"
  by (cases m) auto

text \<open>A loop whose body leaves a part of the state alone.\<close>

lemma fold_frame: "(\<And>x h. K (f x h) = K h) \<Longrightarrow> K (fold f xs h) = K h"
  by (induction xs arbitrary: h) simp_all

text \<open>A part of the state that both halves of a computation leave alone.\<close>

lemma and_then_frame:
  "v (out_state m) = x \<Longrightarrow> (\<And>a s. m = Ret a s \<Longrightarrow> v (out_state (f a s)) = v s) \<Longrightarrow> v (out_state (and_then m f)) = x"
  by (cases m) auto

section \<open>Arrays\<close>

fun index_of :: "'a list \<Rightarrow> 'a \<Rightarrow> nat option" where
  "index_of [] x = None"
| "index_of (y # ys) x = (if y = x then Some 0 else map_option Suc (index_of ys x))"

definition remove_at :: "nat \<Rightarrow> 'a list \<Rightarrow> 'a list" where
  "remove_at i xs = take i xs @ drop (Suc i) xs"

text \<open>\<open>const i = xs.indexOf(x); if (i !== -1) xs.splice(i, 1);\<close>\<close>

definition splice_out :: "'a \<Rightarrow> 'a list \<Rightarrow> 'a list" where
  "splice_out x xs = (case index_of xs x of None \<Rightarrow> xs | Some i \<Rightarrow> remove_at i xs)"

text \<open>A read \<open>xs[i]\<close> of an array: \<open>None\<close> is \<open>undefined\<close>.\<close>

definition array_get :: "'a list \<Rightarrow> nat \<Rightarrow> 'a option" where
  "array_get xs i = (if i < length xs then Some (xs ! i) else None)"

lemmas [js_defs] = array_get_def remove_at_def

lemma array_get_mem: "array_get xs k = Some x \<Longrightarrow> x \<in> set xs"
  by (auto simp: array_get_def in_set_conv_nth split: if_splits)

lemma set_remove_at: "set (remove_at k xs) \<subseteq> set xs"
  by (auto simp: remove_at_def dest: in_set_takeD in_set_dropD)

lemma array_get_split:
  assumes "array_get xs i = Some x"
  obtains ys zs where "xs = ys @ x # zs" "remove_at i xs = ys @ zs"
proof
  show "xs = take i xs @ x # drop (Suc i) xs"
    using assms id_take_nth_drop [of i xs] by (auto simp: array_get_def split: if_splits)
  show "remove_at i xs = take i xs @ drop (Suc i) xs" by (simp add: remove_at_def)
qed

lemma index_of_None_iff: "index_of xs x = None \<longleftrightarrow> x \<notin> set xs"
  by (induction xs) auto

lemma index_of_SomeD:
  "index_of xs x = Some i \<Longrightarrow> i < length xs \<and> xs ! i = x \<and> x \<notin> set (take i xs)"
proof (induction xs arbitrary: i)
  case Nil
  then show ?case by simp
next
  case (Cons y ys)
  then show ?case by (cases i) (auto split: if_splits)
qed

lemma index_of_Some_conv:
  "index_of xs x = Some i \<longleftrightarrow> i < length xs \<and> xs ! i = x \<and> x \<notin> set (take i xs)"
proof
  show "index_of xs x = Some i \<Longrightarrow> i < length xs \<and> xs ! i = x \<and> x \<notin> set (take i xs)"
    by (rule index_of_SomeD)
next
  assume h: "i < length xs \<and> xs ! i = x \<and> x \<notin> set (take i xs)"
  then have "x \<in> set xs" by auto
  then obtain j where j: "index_of xs x = Some j"
    by (cases "index_of xs x") (auto simp: index_of_None_iff)
  from index_of_SomeD [OF j] have j': "j < length xs" "xs ! j = x" "x \<notin> set (take j xs)"
    by auto
  have "\<not> i < j" using h j' by (auto simp: in_set_conv_nth)
  moreover have "\<not> j < i" using h j' by (auto simp: in_set_conv_nth)
  ultimately show "index_of xs x = Some i" using j by simp
qed

lemma splice_out_remove1: "splice_out x xs = remove1 x xs"
proof (cases "x \<in> set xs")
  case True
  then obtain i where i: "index_of xs x = Some i"
    by (cases "index_of xs x") (auto simp: index_of_None_iff)
  from index_of_SomeD [OF i] have "xs = take i xs @ x # drop (Suc i) xs"
    and "x \<notin> set (take i xs)"
    using id_take_nth_drop by auto
  then have "remove1 x xs = take i xs @ drop (Suc i) xs"
    by (metis remove1.simps(2) remove1_append)
  with i show ?thesis by (simp add: splice_out_def remove_at_def)
next
  case False
  then have "index_of xs x = None" by (simp add: index_of_None_iff)
  with False show ?thesis by (simp add: splice_out_def remove1_idem)
qed

lemma splice_out_notin [simp]: "x \<notin> set xs \<Longrightarrow> splice_out x xs = xs"
  by (simp add: splice_out_remove1 remove1_idem)

lemma set_splice_out_distinct: "distinct xs \<Longrightarrow> set (splice_out x xs) = set xs - {x}"
  by (simp add: splice_out_remove1)

lemma distinct_splice_out [simp]: "distinct xs \<Longrightarrow> distinct (splice_out x xs)"
  by (simp add: splice_out_remove1)

lemma set_splice_out_subset: "set (splice_out x xs) \<subseteq> set xs"
  by (simp add: splice_out_remove1 set_remove1_subset)

text \<open>Reading an array after a write that may be out of range.\<close>

lemma nth_update_if: "j < length xs \<Longrightarrow> xs[i := v] ! j = (if j = i then v else xs ! j)"
  by (cases "i < length xs") auto

section \<open>Sparse arrays\<close>

text \<open>The entries of a sparse array that exist, in index order.\<close>

fun present :: "'a option list \<Rightarrow> 'a list" where
  "present [] = []"
| "present (None # xs) = present xs"
| "present (Some x # xs) = x # present xs"

lemma present_append [simp]: "present (xs @ ys) = present xs @ present ys"
  by (induction xs rule: present.induct) auto

lemma set_present: "set (present xs) = {x. Some x \<in> set xs}"
  by (induction xs rule: present.induct) auto

lemma length_present: "length (present xs) = length (filter (\<lambda>x. x \<noteq> None) xs)"
  by (induction xs rule: present.induct) auto

lemma present_upd_None:
  "i < length xs \<Longrightarrow> present (xs[i := None]) = present (take i xs) @ present (drop (Suc i) xs)"
  by (simp add: upd_conv_take_nth_drop)

lemma present_split:
  "i < length xs \<Longrightarrow> xs ! i = Some x \<Longrightarrow>
   present xs = present (take i xs) @ x # present (drop (Suc i) xs)"
  using id_take_nth_drop [of i xs] by (metis present.simps(3) present_append)

lemma present_remove:
  assumes "i < length xs" and "xs ! i = Some x" and "distinct (present xs)"
  shows "present (xs[i := None]) = remove1 x (present xs)"
proof -
  from assms(2,3) present_split [OF assms(1,2)]
  have "x \<notin> set (present (take i xs))" by auto
  then show ?thesis
    using present_split [OF assms(1,2)] present_upd_None [OF assms(1)]
    by (simp add: remove1_append)
qed

section \<open>Dictionaries\<close>

lemma set_alist_update: "set (AList.update k v xs) \<subseteq> insert (k, v) (set xs)"
  by (induction xs) auto

section \<open>Event-driven components\<close>

text \<open>
  The contract of a component driven by events: \<open>step\<close> is its handler, \<open>inv\<close> the
  invariant its fields keep.
\<close>

locale event_machine =
  fixes step :: "'s \<Rightarrow> 'e \<Rightarrow> 's"
    and inv :: "'s \<Rightarrow> bool"
  assumes inv_step: "inv s \<Longrightarrow> inv (step s e)"
begin

lemma inv_run: "inv s \<Longrightarrow> inv (foldl step s es)"
  by (induction es arbitrary: s) (simp_all add: inv_step)

lemma inv_prefix: "inv s \<Longrightarrow> inv (foldl step s (take n es))"
  by (rule inv_run)

lemma run_stable:
  assumes "\<And>s e. P s \<Longrightarrow> e \<in> E \<Longrightarrow> P (step s e)" and "P s" and "set es \<subseteq> E"
  shows "P (foldl step s es)"
  using assms(2,3) by (induction es arbitrary: s) (simp_all add: assms(1))

end

end
