(* ===== verification/EventEmitter.thy ===== *)
theory EventEmitter
  imports Prelude
begin

text \<open>
  The event system: \<open>Libraries/vendor/emitter\<close> (\<open>EventSubscriptionVendor\<close>,
  \<open>EventSubscription\<close>, \<open>EmitterSubscription\<close>, \<open>EventEmitter\<close>) and the two emitters
  of \<open>Libraries/EventEmitter\<close> that share one vendor, \<open>RCTDeviceEventEmitter\<close> and
  \<open>NativeEventEmitter\<close>.

  The subscription arrays are mutable objects that an emitting loop keeps hold of while
  listeners run, so they live in a store (\<open>arrays\<close>, addressed by position) and the
  dictionary \<open>_subscriptionsForType\<close> maps an event type to an address.  A deleted entry
  is a hole, \<open>None\<close>.  Event types are assumed not to be names of properties of
  \<open>Object.prototype\<close>.  The user's listeners are a parameter \<open>call\<close>: any function
  from the listener, its context, the arguments and the whole state to an outcome.

  The emitters are numbered; \<open>emitter_kind\<close> says which class an emitter belongs to, which
  decides the dynamic dispatch of \<open>addListener\<close>, \<open>removeAllListeners\<close> and
  \<open>removeSubscription\<close>.
\<close>

section \<open>Data\<close>

text \<open>A listener is the user's function or the closure \<open>once\<close> builds around it.\<close>

datatype ('l, 'c) listener = Listener 'l | OnceWrapper nat 'l "'c option"

record ('l, 'c) subscription =
  sub_id :: nat
  sub_subscriber :: nat
  sub_emitter :: nat
  sub_listener :: "('l, 'c) listener"
  sub_context :: "'c option"
  sub_eventType :: string
  sub_key :: nat

record ('l, 'c) vendor =
  vendor_id :: nat
  arrays :: "('l, 'c) subscription option list list"
  types :: "string \<rightharpoonup> nat"

datatype emitter_class = PlainEmitter | DeviceEmitter | NativeEmitter bool

datatype native_call = NativeAddListener nat string | NativeRemoveListeners nat nat

record ('l, 'c, 'u) emitters =
  subscriber :: "('l, 'c) vendor"
  emitter_kind :: "nat \<Rightarrow> emitter_class"
  currentSubscription :: "nat \<Rightarrow> ('l, 'c) subscription option"
  nextSub :: nat
  dev :: bool
  nativeLog :: "native_call list"
  user :: 'u

text \<open>The \<open>?string\<close> argument of \<open>removeAllListeners\<close>.\<close>

datatype ev_arg = UndefinedType | NullType | EventType string

section \<open>EventSubscriptionVendor\<close>

definition new_vendor :: "nat \<Rightarrow> ('l, 'c) vendor" where
  "new_vendor i = \<lparr>vendor_id = i, arrays = [], types = Map.empty\<rparr>"

definition ensure_array :: "string \<Rightarrow> ('l, 'c) vendor \<Rightarrow> ('l, 'c) vendor \<times> nat" where
  "ensure_array ty v =
     (case types v ty of
        Some a \<Rightarrow> (v, a)
      | None \<Rightarrow> (v\<lparr>types := (types v)(ty \<mapsto> length (arrays v)), arrays := arrays v @ [[]]\<rparr>,
                 length (arrays v)))"

definition addSubscription ::
  "string \<Rightarrow> ('l, 'c) subscription \<Rightarrow> ('l, 'c) vendor \<Rightarrow>
   (js_exn, ('l, 'c) vendor, ('l, 'c) subscription) outcome" where
  "addSubscription ty sub v =
     (if sub_subscriber sub \<noteq> vendor_id v
      then Throw (InvariantViolation ''The subscriber of the subscription is incorrectly set.'') v
      else
        let (v1, a) = ensure_array ty v;
            key = length (arrays v1 ! a);
            sub' = sub\<lparr>sub_eventType := ty, sub_key := key\<rparr>
        in Ret sub' (v1\<lparr>arrays := (arrays v1)[a := arrays v1 ! a @ [Some sub']]\<rparr>))"

definition removeAllSubscriptions :: "ev_arg \<Rightarrow> ('l, 'c) vendor \<Rightarrow> ('l, 'c) vendor" where
  "removeAllSubscriptions arg v =
     (case arg of
        UndefinedType \<Rightarrow> v\<lparr>types := Map.empty\<rparr>
      | NullType \<Rightarrow> v\<lparr>types := (types v)(''null'' := None)\<rparr>
      | EventType ty \<Rightarrow> v\<lparr>types := (types v)(ty := None)\<rparr>)"

definition vendor_removeSubscription ::
  "('l, 'c) subscription \<Rightarrow> ('l, 'c) vendor \<Rightarrow> ('l, 'c) vendor" where
  "vendor_removeSubscription sub v =
     (case types v (sub_eventType sub) of
        None \<Rightarrow> v
      | Some a \<Rightarrow> v\<lparr>arrays := (arrays v)[a := (arrays v ! a)[sub_key sub := None]]\<rparr>)"

definition getSubscriptionsForType :: "string \<Rightarrow> ('l, 'c) vendor \<Rightarrow> nat option" where
  "getSubscriptionsForType ty v = types v ty"

section \<open>EventEmitter and EmitterSubscription\<close>

definition EventEmitter_addListener ::
  "nat \<Rightarrow> string \<Rightarrow> ('l, 'c) listener \<Rightarrow> 'c option \<Rightarrow> ('l, 'c, 'u) emitters \<Rightarrow>
   (js_exn, ('l, 'c, 'u) emitters, ('l, 'c) subscription) outcome" where
  "EventEmitter_addListener em ty l ctx st =
     (let sub = \<lparr>sub_id = nextSub st, sub_subscriber = vendor_id (subscriber st),
                 sub_emitter = em, sub_listener = l, sub_context = ctx,
                 sub_eventType = [], sub_key = 0\<rparr>;
          st1 = st\<lparr>nextSub := Suc (nextSub st)\<rparr>
      in case addSubscription ty sub (subscriber st1) of
           Ret sub' v \<Rightarrow> Ret sub' (st1\<lparr>subscriber := v\<rparr>)
         | Throw e v \<Rightarrow> Throw e (st1\<lparr>subscriber := v\<rparr>))"

definition EventEmitter_removeAllListeners ::
  "ev_arg \<Rightarrow> ('l, 'c, 'u) emitters \<Rightarrow> ('l, 'c, 'u) emitters" where
  "EventEmitter_removeAllListeners arg st =
     st\<lparr>subscriber := removeAllSubscriptions arg (subscriber st)\<rparr>"

definition EventEmitter_removeSubscription ::
  "nat \<Rightarrow> ('l, 'c) subscription \<Rightarrow> ('l, 'c, 'u) emitters \<Rightarrow>
   (js_exn, ('l, 'c, 'u) emitters, unit) outcome" where
  "EventEmitter_removeSubscription em sub st =
     (if sub_emitter sub \<noteq> em
      then Throw (InvariantViolation ''Subscription does not belong to this emitter.'') st
      else Ret () (st\<lparr>subscriber := vendor_removeSubscription sub (subscriber st)\<rparr>))"

definition listeners :: "string \<Rightarrow> ('l, 'c, 'u) emitters \<Rightarrow> ('l, 'c) listener list" where
  "listeners ty st =
     (case getSubscriptionsForType ty (subscriber st) of
        None \<Rightarrow> []
      | Some a \<Rightarrow> map sub_listener (present (arrays (subscriber st) ! a)))"

section \<open>NativeEventEmitter and RCTDeviceEventEmitter\<close>

text \<open>\<open>NativeEmitter b\<close>: \<open>b\<close> says whether \<open>_nativeModule\<close> is set (iOS and macOS).\<close>

fun log_native :: "bool \<Rightarrow> native_call \<Rightarrow> ('l, 'c, 'u) emitters \<Rightarrow> ('l, 'c, 'u) emitters" where
  "log_native b c st = (if b then st\<lparr>nativeLog := nativeLog st @ [c]\<rparr> else st)"

datatype platform = Ios | Macos | Android

definition NativeEventEmitter_constructor ::
  "platform \<Rightarrow> bool \<Rightarrow> nat \<Rightarrow> ('l, 'c, 'u) emitters \<Rightarrow>
   (js_exn, ('l, 'c, 'u) emitters, unit) outcome" where
  "NativeEventEmitter_constructor os has_module em st =
     (if os = Ios \<or> os = Macos
      then if has_module
           then Ret () (st\<lparr>emitter_kind := (emitter_kind st)(em := NativeEmitter True)\<rparr>)
           else Throw (InvariantViolation ''Native module cannot be null.'') st
      else Ret () (st\<lparr>emitter_kind := (emitter_kind st)(em := NativeEmitter False)\<rparr>))"

definition starts_with :: "string \<Rightarrow> string \<Rightarrow> bool" where
  "starts_with pre s \<longleftrightarrow> take (length pre) s = pre"

definition checkNativeEventModule :: "string \<Rightarrow> string option" where
  "checkNativeEventModule ty =
     (if ty \<noteq> []
      then if starts_with ''statusBar'' ty
           then Some (''`'' @ ty @ ''` event should be registered via the StatusBarIOS module'')
           else if starts_with ''keyboard'' ty
           then Some (''`'' @ ty @ ''` event should be registered via the Keyboard module'')
           else if ty = ''appStateDidChange'' \<or> ty = ''memoryWarning''
           then Some (''`'' @ ty @ ''` event should be registered via the AppState module'')
           else None
      else None)"

definition RCTDeviceEventEmitter_addListener ::
  "nat \<Rightarrow> string \<Rightarrow> ('l, 'c) listener \<Rightarrow> 'c option \<Rightarrow> ('l, 'c, 'u) emitters \<Rightarrow>
   (js_exn, ('l, 'c, 'u) emitters, ('l, 'c) subscription) outcome" where
  "RCTDeviceEventEmitter_addListener em ty l ctx st =
     (case (if dev st then checkNativeEventModule ty else None) of
        Some msg \<Rightarrow> Throw (JsError msg) st
      | None \<Rightarrow> EventEmitter_addListener em ty l ctx st)"

definition RCTDeviceEventEmitter_removeAllListeners ::
  "ev_arg \<Rightarrow> ('l, 'c, 'u) emitters \<Rightarrow> (js_exn, ('l, 'c, 'u) emitters, unit) outcome" where
  "RCTDeviceEventEmitter_removeAllListeners arg st =
     (case (case arg of EventType ty \<Rightarrow> if dev st then checkNativeEventModule ty else None
                      | _ \<Rightarrow> None) of
        Some msg \<Rightarrow> Throw (JsError msg) st
      | None \<Rightarrow> Ret () (EventEmitter_removeAllListeners arg st))"

definition NativeEventEmitter_addListener ::
  "bool \<Rightarrow> nat \<Rightarrow> string \<Rightarrow> ('l, 'c) listener \<Rightarrow> 'c option \<Rightarrow> ('l, 'c, 'u) emitters \<Rightarrow>
   (js_exn, ('l, 'c, 'u) emitters, ('l, 'c) subscription) outcome" where
  "NativeEventEmitter_addListener b em ty l ctx st =
     EventEmitter_addListener em ty l ctx (log_native b (NativeAddListener em ty) st)"

definition NativeEventEmitter_removeAllListeners ::
  "bool \<Rightarrow> nat \<Rightarrow> ev_arg \<Rightarrow> ('l, 'c, 'u) emitters \<Rightarrow>
   (js_exn, ('l, 'c, 'u) emitters, unit) outcome" where
  "NativeEventEmitter_removeAllListeners b em arg st =
     (case arg of
        EventType ty \<Rightarrow>
          if ty = [] then Throw (InvariantViolation ''eventType argument is required.'') st
          else
            let count = length (listeners ty st);
                st1 = log_native b (NativeRemoveListeners em count) st
            in Ret () (EventEmitter_removeAllListeners arg st1)
      | _ \<Rightarrow> Throw (InvariantViolation ''eventType argument is required.'') st)"

definition NativeEventEmitter_removeSubscription ::
  "bool \<Rightarrow> nat \<Rightarrow> ('l, 'c) subscription \<Rightarrow> ('l, 'c, 'u) emitters \<Rightarrow>
   (js_exn, ('l, 'c, 'u) emitters, unit) outcome" where
  "NativeEventEmitter_removeSubscription b em sub st =
     EventEmitter_removeSubscription em sub (log_native b (NativeRemoveListeners em 1) st)"

text \<open>
  \<open>RCTDeviceEventEmitter.removeSubscription\<close> hands a foreign subscription to its own
  emitter; there the subscription is never foreign, so the call ends after one hop.
\<close>

definition own_removeSubscription ::
  "('l, 'c) subscription \<Rightarrow> ('l, 'c, 'u) emitters \<Rightarrow> (js_exn, ('l, 'c, 'u) emitters, unit) outcome" where
  "own_removeSubscription sub st =
     (case emitter_kind st (sub_emitter sub) of
        NativeEmitter b \<Rightarrow> NativeEventEmitter_removeSubscription b (sub_emitter sub) sub st
      | _ \<Rightarrow> EventEmitter_removeSubscription (sub_emitter sub) sub st)"

definition RCTDeviceEventEmitter_removeSubscription ::
  "nat \<Rightarrow> ('l, 'c) subscription \<Rightarrow> ('l, 'c, 'u) emitters \<Rightarrow>
   (js_exn, ('l, 'c, 'u) emitters, unit) outcome" where
  "RCTDeviceEventEmitter_removeSubscription em sub st =
     (if sub_emitter sub \<noteq> em then own_removeSubscription sub st
      else EventEmitter_removeSubscription em sub st)"

section \<open>Dynamic dispatch and the operations built on it\<close>

definition addListener ::
  "nat \<Rightarrow> string \<Rightarrow> ('l, 'c) listener \<Rightarrow> 'c option \<Rightarrow> ('l, 'c, 'u) emitters \<Rightarrow>
   (js_exn, ('l, 'c, 'u) emitters, ('l, 'c) subscription) outcome" where
  "addListener em ty l ctx st =
     (case emitter_kind st em of
        PlainEmitter \<Rightarrow> EventEmitter_addListener em ty l ctx st
      | DeviceEmitter \<Rightarrow> RCTDeviceEventEmitter_addListener em ty l ctx st
      | NativeEmitter b \<Rightarrow> NativeEventEmitter_addListener b em ty l ctx st)"

definition removeAllListeners ::
  "nat \<Rightarrow> ev_arg \<Rightarrow> ('l, 'c, 'u) emitters \<Rightarrow> (js_exn, ('l, 'c, 'u) emitters, unit) outcome" where
  "removeAllListeners em arg st =
     (case emitter_kind st em of
        PlainEmitter \<Rightarrow> Ret () (EventEmitter_removeAllListeners arg st)
      | DeviceEmitter \<Rightarrow> RCTDeviceEventEmitter_removeAllListeners arg st
      | NativeEmitter b \<Rightarrow> NativeEventEmitter_removeAllListeners b em arg st)"

definition removeSubscription ::
  "nat \<Rightarrow> ('l, 'c) subscription \<Rightarrow> ('l, 'c, 'u) emitters \<Rightarrow>
   (js_exn, ('l, 'c, 'u) emitters, unit) outcome" where
  "removeSubscription em sub st =
     (case emitter_kind st em of
        PlainEmitter \<Rightarrow> EventEmitter_removeSubscription em sub st
      | DeviceEmitter \<Rightarrow> RCTDeviceEventEmitter_removeSubscription em sub st
      | NativeEmitter b \<Rightarrow> NativeEventEmitter_removeSubscription b em sub st)"

text \<open>\<open>EmitterSubscription.remove\<close>\<close>

definition subscription_remove ::
  "('l, 'c) subscription \<Rightarrow> ('l, 'c, 'u) emitters \<Rightarrow> (js_exn, ('l, 'c, 'u) emitters, unit) outcome" where
  "subscription_remove sub st = removeSubscription (sub_emitter sub) sub st"

definition once ::
  "nat \<Rightarrow> string \<Rightarrow> 'l \<Rightarrow> 'c option \<Rightarrow> ('l, 'c, 'u) emitters \<Rightarrow>
   (js_exn, ('l, 'c, 'u) emitters, ('l, 'c) subscription) outcome" where
  "once em ty l ctx st = addListener em ty (OnceWrapper em l ctx) None st"

definition removeCurrentListener ::
  "nat \<Rightarrow> ('l, 'c, 'u) emitters \<Rightarrow> (js_exn, ('l, 'c, 'u) emitters, unit) outcome" where
  "removeCurrentListener em st =
     (case currentSubscription st em of
        None \<Rightarrow> Throw (InvariantViolation ''Not in an emitting cycle; there is no current subscription'') st
      | Some sub \<Rightarrow> removeSubscription em sub st)"

type_synonym ('l, 'c, 'u, 'a) user_code =
  "'l \<Rightarrow> 'c option \<Rightarrow> 'a \<Rightarrow> ('l, 'c, 'u) emitters \<Rightarrow> (js_exn, ('l, 'c, 'u) emitters, unit) outcome"

fun apply_listener ::
  "('l, 'c, 'u, 'a) user_code \<Rightarrow> ('l, 'c) listener \<Rightarrow> 'c option \<Rightarrow> 'a \<Rightarrow> ('l, 'c, 'u) emitters \<Rightarrow>
   (js_exn, ('l, 'c, 'u) emitters, unit) outcome" where
  "apply_listener call (Listener l) ctx args st = call l ctx args st"
| "apply_listener call (OnceWrapper em l ctx') ctx args st =
     and_then (removeCurrentListener em st) (\<lambda>_ st'. call l ctx' args st')"

text \<open>
  The loop of \<open>emit\<close>: the bound \<open>l\<close> is read once, the array is read again at every
  iteration.
\<close>

function emit_loop ::
  "('l, 'c, 'u, 'a) user_code \<Rightarrow> nat \<Rightarrow> nat \<Rightarrow> 'a \<Rightarrow> nat \<Rightarrow> nat \<Rightarrow> ('l, 'c, 'u) emitters \<Rightarrow>
   (js_exn, ('l, 'c, 'u) emitters, unit) outcome" where
  "emit_loop call em a args i l st =
     (if i < l
      then (case array_get (arrays (subscriber st) ! a) i of
              Some (Some sub) \<Rightarrow>
                (case apply_listener call (sub_listener sub) (sub_context sub) args
                        (st\<lparr>currentSubscription := (currentSubscription st)(em := Some sub)\<rparr>) of
                   Ret _ st' \<Rightarrow> emit_loop call em a args (Suc i) l st'
                 | Throw e st' \<Rightarrow> Throw e st')
            | _ \<Rightarrow> emit_loop call em a args (Suc i) l st)
      else Ret () st)"
  by pat_completeness auto
termination
  by (relation "measure (\<lambda>(call, em, a, args, i, l, st). l - i)") auto

definition emit ::
  "('l, 'c, 'u, 'a) user_code \<Rightarrow> nat \<Rightarrow> string \<Rightarrow> 'a \<Rightarrow> ('l, 'c, 'u) emitters \<Rightarrow>
   (js_exn, ('l, 'c, 'u) emitters, unit) outcome" where
  "emit call em ty args st =
     (case getSubscriptionsForType ty (subscriber st) of
        None \<Rightarrow> Ret () st
      | Some a \<Rightarrow>
          and_then (emit_loop call em a args 0 (length (arrays (subscriber st) ! a)) st)
            (\<lambda>_ st'. Ret () (st'\<lparr>currentSubscription := (currentSubscription st')(em := None)\<rparr>)))"

function removeListener_loop ::
  "nat \<Rightarrow> ('l, 'c) listener \<Rightarrow> nat \<Rightarrow> nat \<Rightarrow> ('l, 'c, 'u) emitters \<Rightarrow>
   (js_exn, ('l, 'c, 'u) emitters, unit) outcome" where
  "removeListener_loop a lis i l st =
     (if i < l
      then (case array_get (arrays (subscriber st) ! a) i of
              Some (Some sub) \<Rightarrow>
                if sub_listener sub = lis
                then (case subscription_remove sub st of
                        Ret _ st' \<Rightarrow> removeListener_loop a lis (Suc i) l st'
                      | Throw e st' \<Rightarrow> Throw e st')
                else removeListener_loop a lis (Suc i) l st
            | _ \<Rightarrow> removeListener_loop a lis (Suc i) l st)
      else Ret () st)"
  by pat_completeness auto
termination
  by (relation "measure (\<lambda>(a, lis, i, l, st). l - i)") auto

definition removeListener ::
  "string \<Rightarrow> ('l, 'c) listener \<Rightarrow> ('l, 'c, 'u) emitters \<Rightarrow>
   (js_exn, ('l, 'c, 'u) emitters, unit) outcome" where
  "removeListener ty lis st =
     (case getSubscriptionsForType ty (subscriber st) of
        None \<Rightarrow> Ret () st
      | Some a \<Rightarrow> removeListener_loop a lis 0 (length (arrays (subscriber st) ! a)) st)"

declare emit_loop.simps [simp del] removeListener_loop.simps [simp del]

section \<open>The registry contract\<close>

text \<open>
  What the emitters rely on: the vendor keeps, for every event type, the list of live
  subscriptions in registration order.
\<close>

locale subscription_registry =
  fixes inv :: "'v \<Rightarrow> bool"
    and live :: "'v \<Rightarrow> string \<Rightarrow> 's list"
    and owned :: "'v \<Rightarrow> 's \<Rightarrow> bool"
    and type_of :: "'s \<Rightarrow> string"
    and add :: "string \<Rightarrow> 's \<Rightarrow> 'v \<Rightarrow> ('e, 'v, 's) outcome"
    and remove :: "'s \<Rightarrow> 'v \<Rightarrow> 'v"
    and remove_all :: "string \<Rightarrow> 'v \<Rightarrow> 'v"
  assumes add_returns: "owned v s \<Longrightarrow> \<exists>s' v'. add ty s v = Ret s' v'"
    and add_inv: "inv v \<Longrightarrow> add ty s v = Ret s' v' \<Longrightarrow> inv v'"
    and add_live: "inv v \<Longrightarrow> add ty s v = Ret s' v' \<Longrightarrow>
          live v' = (live v)(ty := live v ty @ [s']) \<and> type_of s' = ty"
    and remove_inv: "inv v \<Longrightarrow> inv (remove s v)"
    and remove_live: "inv v \<Longrightarrow> s \<in> set (live v (type_of s)) \<Longrightarrow>
          live (remove s v) = (live v)(type_of s := remove1 s (live v (type_of s)))"
    and remove_all_inv: "inv v \<Longrightarrow> inv (remove_all ty v)"
    and remove_all_live: "live (remove_all ty v) = (live v)(ty := [])"
    and live_distinct: "inv v \<Longrightarrow> distinct (live v ty)"
begin

lemma add_then_remove:
  assumes "inv v" and "add ty s v = Ret s' v'"
  shows "live (remove s' v') = live v"
proof -
  note l = add_live [OF assms]
  have "distinct (live v' ty)" using add_inv [OF assms] by (rule live_distinct)
  with l have "s' \<notin> set (live v ty)" by simp
  moreover have "s' \<in> set (live v' (type_of s'))" using l by simp
  ultimately show ?thesis
    using remove_live [OF add_inv [OF assms], of s'] l by (auto simp: remove1_append)
qed

lemma removed_not_live:
  assumes "inv v" and "s \<in> set (live v (type_of s))"
  shows "s \<notin> set (live (remove s v) (type_of s))"
  using remove_live [OF assms] live_distinct [OF assms(1)] by simp

lemma remove_keeps_others:
  assumes "inv v" and "s \<in> set (live v (type_of s))" and "t \<noteq> s"
  shows "t \<in> set (live (remove s v) ty) \<longleftrightarrow> t \<in> set (live v ty)"
  using remove_live [OF assms(1,2)] assms(3) by auto

end

section \<open>The vendor keeps the contract\<close>

definition vendor_ok :: "('l, 'c) vendor \<Rightarrow> bool" where
  "vendor_ok v \<longleftrightarrow>
     (\<forall>ty a. types v ty = Some a \<longrightarrow> a < length (arrays v)) \<and>
     (\<forall>ty ty' a. types v ty = Some a \<and> types v ty' = Some a \<longrightarrow> ty = ty') \<and>
     (\<forall>ty a i sub. types v ty = Some a \<and> i < length (arrays v ! a) \<and> arrays v ! a ! i = Some sub
        \<longrightarrow> sub_key sub = i \<and> sub_eventType sub = ty)"

definition live :: "('l, 'c) vendor \<Rightarrow> string \<Rightarrow> ('l, 'c) subscription list" where
  "live v ty = (case types v ty of None \<Rightarrow> [] | Some a \<Rightarrow> present (arrays v ! a))"

definition owned_by :: "('l, 'c) vendor \<Rightarrow> ('l, 'c) subscription \<Rightarrow> bool" where
  "owned_by v s \<longleftrightarrow> sub_subscriber s = vendor_id v"

definition slots_ok :: "string \<Rightarrow> ('l, 'c) subscription option list \<Rightarrow> bool" where
  "slots_ok ty xs \<longleftrightarrow>
     (\<forall>i s. i < length xs \<longrightarrow> xs ! i = Some s \<longrightarrow> sub_key s = i \<and> sub_eventType s = ty)"

lemma slots_ok_push: "slots_ok ty xs \<Longrightarrow> sub_key s = length xs \<Longrightarrow> sub_eventType s = ty \<Longrightarrow> slots_ok ty (xs @ [Some s])"
  by (auto simp: slots_ok_def nth_append less_Suc_eq)

lemma slots_ok_hole: "slots_ok ty xs \<Longrightarrow> slots_ok ty (xs[k := None])"
  unfolding slots_ok_def by (metis length_list_update nth_list_update_eq nth_list_update_neq option.distinct(1))

lemma vendor_okI:
  assumes "\<And>ty a. types v ty = Some a \<Longrightarrow> a < length (arrays v)"
    and "\<And>ty ty' a. types v ty = Some a \<Longrightarrow> types v ty' = Some a \<Longrightarrow> ty = ty'"
    and "\<And>ty a i sub. types v ty = Some a \<Longrightarrow> i < length (arrays v ! a) \<Longrightarrow>
           arrays v ! a ! i = Some sub \<Longrightarrow> sub_key sub = i \<and> sub_eventType sub = ty"
  shows "vendor_ok v"
  using assms unfolding vendor_ok_def by blast

lemma vendor_okD:
  assumes "vendor_ok v" and "types v ty = Some a"
  shows "a < length (arrays v)"
    and "types v ty' = Some a \<Longrightarrow> ty' = ty"
    and "i < length (arrays v ! a) \<Longrightarrow> arrays v ! a ! i = Some sub \<Longrightarrow> sub_key sub = i"
    and "i < length (arrays v ! a) \<Longrightarrow> arrays v ! a ! i = Some sub \<Longrightarrow> sub_eventType sub = ty"
  using assms unfolding vendor_ok_def by blast+

lemma new_vendor_ok: "vendor_ok (new_vendor i)"
  by (simp add: vendor_ok_def new_vendor_def)

lemma ensure_array_ok:
  assumes ok: "vendor_ok v" and e: "ensure_array ty v = (w, a)"
  shows "vendor_ok w" "types w ty = Some a" "live w = live v" "vendor_id w = vendor_id v"
proof -
  have "vendor_ok w \<and> types w ty = Some a \<and> live w = live v \<and> vendor_id w = vendor_id v"
  proof (cases "types v ty")
    case (Some b)
    with ok e show ?thesis by (simp add: ensure_array_def)
  next
    case None
    with e have w: "w = v\<lparr>types := (types v)(ty \<mapsto> length (arrays v)), arrays := arrays v @ [[]]\<rparr>"
      and a: "a = length (arrays v)" by (auto simp: ensure_array_def)
    have fresh: "types v ty' \<noteq> Some (length (arrays v))" for ty'
      using vendor_okD(1) [OF ok] by blast
    have "vendor_ok w"
    proof (rule vendor_okI)
      fix ty' b
      assume "types w ty' = Some b"
      then show "b < length (arrays w)"
        using vendor_okD(1) [OF ok, of ty' b] w by (auto split: if_splits)
    next
      fix t1 t2 b
      assume "types w t1 = Some b" "types w t2 = Some b"
      then show "t1 = t2" using vendor_okD(2) [OF ok, of t2 b t1] w fresh by (auto split: if_splits)
    next
      fix t1 b i sub
      assume h: "types w t1 = Some b" "i < length (arrays w ! b)" "arrays w ! b ! i = Some sub"
      then have t1: "types v t1 = Some b"
        using w by (auto simp: nth_append split: if_splits)
      with h w vendor_okD(1) [OF ok t1] have "i < length (arrays v ! b)" "arrays v ! b ! i = Some sub"
        by (auto simp: nth_append)
      then show "sub_key sub = i \<and> sub_eventType sub = t1"
        using vendor_okD(3,4) [OF ok t1] by simp
    qed
    moreover have "live w ty' = live v ty'" for ty'
      using w None vendor_okD(1) [OF ok, of ty']
      by (auto simp: live_def nth_append split: option.splits)
    ultimately show ?thesis using w a by (auto simp: fun_eq_iff)
  qed
  then show "vendor_ok w" "types w ty = Some a" "live w = live v" "vendor_id w = vendor_id v"
    by auto
qed

lemma vendor_ok_slots: "vendor_ok v \<Longrightarrow> types v ty = Some a \<Longrightarrow> slots_ok ty (arrays v ! a)"
  unfolding vendor_ok_def slots_ok_def by blast

text \<open>Both array updates of the vendor, a push and a deletion, only touch one address.\<close>

lemma array_update_ok:
  assumes ok: "vendor_ok w" and a: "types w ty = Some a"
    and xs: "slots_ok ty xs"
  shows "vendor_ok (w\<lparr>arrays := (arrays w)[a := xs]\<rparr>)"
    and "live (w\<lparr>arrays := (arrays w)[a := xs]\<rparr>) = (live w)(ty := present xs)"
proof -
  note d = vendor_okD [OF ok a]
  have other: "types w t = Some b \<Longrightarrow> t \<noteq> ty \<Longrightarrow> b \<noteq> a" for t b
    using vendor_okD(2) [OF ok a] by blast
  show "vendor_ok (w\<lparr>arrays := (arrays w)[a := xs]\<rparr>)"
  proof (rule vendor_okI)
    fix t b
    assume "types (w\<lparr>arrays := (arrays w)[a := xs]\<rparr>) t = Some b"
    then show "b < length (arrays (w\<lparr>arrays := (arrays w)[a := xs]\<rparr>))"
      using vendor_okD(1) [OF ok] by simp
  next
    fix t t' b
    assume "types (w\<lparr>arrays := (arrays w)[a := xs]\<rparr>) t = Some b"
      "types (w\<lparr>arrays := (arrays w)[a := xs]\<rparr>) t' = Some b"
    then show "t = t'" using vendor_okD(2) [OF ok, of t' b t] by simp
  next
    fix t b i s
    assume h: "types (w\<lparr>arrays := (arrays w)[a := xs]\<rparr>) t = Some b"
      "i < length (arrays (w\<lparr>arrays := (arrays w)[a := xs]\<rparr>) ! b)"
      "arrays (w\<lparr>arrays := (arrays w)[a := xs]\<rparr>) ! b ! i = Some s"
    show "sub_key s = i \<and> sub_eventType s = t"
    proof (cases "t = ty")
      case True
      with h a d(1) xs show ?thesis by (simp add: slots_ok_def)
    next
      case False
      with h other [of t b] vendor_okD(3,4) [OF ok, of t b i s] show ?thesis by simp
    qed
  qed
  show "live (w\<lparr>arrays := (arrays w)[a := xs]\<rparr>) = (live w)(ty := present xs)"
  proof
    fix t
    show "live (w\<lparr>arrays := (arrays w)[a := xs]\<rparr>) t = ((live w)(ty := present xs)) t"
      using a d(1) other [of t] by (cases "types w t") (auto simp: live_def)
  qed
qed

lemma append_sub_ok:
  assumes ok: "vendor_ok w" and a: "types w ty = Some a"
    and s: "sub_key s = length (arrays w ! a)" "sub_eventType s = ty"
  shows "vendor_ok (w\<lparr>arrays := (arrays w)[a := arrays w ! a @ [Some s]]\<rparr>)"
    and "live (w\<lparr>arrays := (arrays w)[a := arrays w ! a @ [Some s]]\<rparr>) = (live w)(ty := live w ty @ [s])"
proof -
  note xs = slots_ok_push [OF vendor_ok_slots [OF ok a] s]
  show "vendor_ok (w\<lparr>arrays := (arrays w)[a := arrays w ! a @ [Some s]]\<rparr>)"
    by (rule array_update_ok(1) [OF ok a xs])
  show "live (w\<lparr>arrays := (arrays w)[a := arrays w ! a @ [Some s]]\<rparr>) = (live w)(ty := live w ty @ [s])"
    using array_update_ok(2) [OF ok a xs] a by (simp add: live_def)
qed

lemma addSubscription_spec:
  assumes ok: "vendor_ok v" and add: "addSubscription ty s v = Ret s' v'"
  shows "vendor_ok v'" "live v' = (live v)(ty := live v ty @ [s'])" "sub_eventType s' = ty"
    "vendor_id v' = vendor_id v" "s' = s\<lparr>sub_eventType := ty, sub_key := sub_key s'\<rparr>"
proof -
  obtain w a where w: "ensure_array ty v = (w, a)" by (cases "ensure_array ty v") auto
  note e = ensure_array_ok [OF ok w]
  from add w have s': "s' = s\<lparr>sub_eventType := ty, sub_key := length (arrays w ! a)\<rparr>"
    and v': "v' = w\<lparr>arrays := (arrays w)[a := arrays w ! a @ [Some s']]\<rparr>"
    by (auto simp: addSubscription_def Let_def split: if_splits)
  then show "vendor_ok v'" "live v' = (live v)(ty := live v ty @ [s'])" "sub_eventType s' = ty"
    "vendor_id v' = vendor_id v" "s' = s\<lparr>sub_eventType := ty, sub_key := sub_key s'\<rparr>"
    using append_sub_ok [OF e(1,2), of s'] e by simp_all
qed

lemma addSubscription_returns:
  "owned_by v s \<Longrightarrow> \<exists>s' v'. addSubscription ty s v = Ret s' v'"
  by (cases "ensure_array ty v") (simp add: addSubscription_def owned_by_def Let_def)

lemma live_keys:
  assumes ok: "vendor_ok v" and s: "s \<in> set (live v ty)"
  obtains a where "types v ty = Some a" "sub_key s < length (arrays v ! a)"
    "arrays v ! a ! sub_key s = Some s" "sub_eventType s = ty"
proof -
  from s obtain a where a: "types v ty = Some a" and "Some s \<in> set (arrays v ! a)"
    by (cases "types v ty") (auto simp: live_def set_present)
  then obtain i where "i < length (arrays v ! a)" "arrays v ! a ! i = Some s"
    by (auto simp: in_set_conv_nth)
  with a vendor_okD(3,4) [OF ok a this] that show thesis by blast
qed

lemma distinct_present_keys:
  assumes "\<And>i s. i < length xs \<Longrightarrow> xs ! i = Some s \<Longrightarrow> k s = i"
  shows "distinct (present xs)"
  using assms
proof (induction xs rule: rev_induct)
  case Nil
  then show ?case by simp
next
  case (snoc x xs)
  have old: "k s = i" if "i < length xs" "xs ! i = Some s" for i s
    using snoc.prems [of i s] that by (simp add: nth_append)
  show ?case
  proof (cases x)
    case None
    with snoc.IH old show ?thesis by simp
  next
    case (Some s)
    then have "k s = length xs" using snoc.prems [of "length xs" s] by simp
    moreover have "k t < length xs" if "t \<in> set (present xs)" for t
      using that old by (auto simp: set_present in_set_conv_nth)
    ultimately have "s \<notin> set (present xs)" by force
    with snoc.IH old Some show ?thesis by simp
  qed
qed

lemma live_distinct: "vendor_ok v \<Longrightarrow> distinct (live v ty)"
proof (cases "types v ty")
  case (Some a)
  assume "vendor_ok v"
  then have "\<And>i s. i < length (arrays v ! a) \<Longrightarrow> arrays v ! a ! i = Some s \<Longrightarrow> sub_key s = i"
    using vendor_okD(3) [OF _ Some] by simp
  then have "distinct (present (arrays v ! a))" by (rule distinct_present_keys)
  with Some show ?thesis by (simp add: live_def)
qed (simp add: live_def)

lemma vendor_removeSubscription_ok:
  assumes "vendor_ok v"
  shows "vendor_ok (vendor_removeSubscription s v)"
proof (cases "types v (sub_eventType s)")
  case None
  with assms show ?thesis by (simp add: vendor_removeSubscription_def)
next
  case (Some a)
  from array_update_ok(1) [OF assms Some slots_ok_hole [OF vendor_ok_slots [OF assms Some]]] Some show ?thesis
    by (simp add: vendor_removeSubscription_def)
qed

lemma vendor_removeSubscription_live:
  assumes ok: "vendor_ok v" and s: "s \<in> set (live v (sub_eventType s))"
  shows "live (vendor_removeSubscription s v) =
         (live v)(sub_eventType s := remove1 s (live v (sub_eventType s)))"
proof -
  from live_keys [OF ok s] obtain a where a: "types v (sub_eventType s) = Some a"
    "sub_key s < length (arrays v ! a)" "arrays v ! a ! sub_key s = Some s" by blast
  have "distinct (present (arrays v ! a))"
    using live_distinct [OF ok, of "sub_eventType s"] a by (simp add: live_def)
  from present_remove [OF a(2,3) this] array_update_ok(2) [OF ok a(1) slots_ok_hole [OF vendor_ok_slots [OF ok a(1)]]] a(1)
  show ?thesis
    by (simp add: live_def vendor_removeSubscription_def)
qed

lemma removeAllSubscriptions_ok:
  assumes "vendor_ok v"
  shows "vendor_ok (removeAllSubscriptions arg v)"
  by (rule vendor_okI; cases arg)
    (auto simp: removeAllSubscriptions_def dest: vendor_okD [OF assms] split: if_splits)

lemma removeAllSubscriptions_live:
  "live (removeAllSubscriptions (EventType ty) v) = (live v)(ty := [])"
  by (auto simp: live_def removeAllSubscriptions_def fun_eq_iff split: option.splits)

interpretation esv: subscription_registry vendor_ok live owned_by sub_eventType addSubscription
  vendor_removeSubscription "\<lambda>ty. removeAllSubscriptions (EventType ty)"
  by unfold_locales
    (auto simp: addSubscription_returns addSubscription_spec vendor_removeSubscription_ok
      vendor_removeSubscription_live removeAllSubscriptions_ok removeAllSubscriptions_live
      live_distinct)

section \<open>Emitting\<close>

text \<open>
  User code that only touches its own data: \<open>f\<close> is the effect of one call.  Listeners
  that use the emitter themselves are covered by the lemmas about single operations.
\<close>

definition pure_code :: "('l \<Rightarrow> 'c option \<Rightarrow> 'a \<Rightarrow> 'u \<Rightarrow> 'u) \<Rightarrow> ('l, 'c, 'u, 'a) user_code" where
  "pure_code f l ctx args st = Ret () (st\<lparr>user := f l ctx args (user st)\<rparr>)"

definition is_once :: "('l, 'c) subscription \<Rightarrow> bool" where
  "is_once s \<longleftrightarrow> (case sub_listener s of Listener _ \<Rightarrow> False | OnceWrapper _ _ _ \<Rightarrow> True)"

fun deliver :: "('l \<Rightarrow> 'c option \<Rightarrow> 'a \<Rightarrow> 'u \<Rightarrow> 'u) \<Rightarrow> 'a \<Rightarrow> ('l, 'c) subscription \<Rightarrow> 'u \<Rightarrow> 'u" where
  "deliver f args s u =
     (case sub_listener s of
        Listener l \<Rightarrow> f l (sub_context s) args u
      | OnceWrapper _ l ctx \<Rightarrow> f l ctx args u)"

text \<open>A \<open>once\<close> subscription that belongs to the emitter that built its wrapper.\<close>

definition once_of :: "nat \<Rightarrow> ('l, 'c) subscription \<Rightarrow> bool" where
  "once_of em s \<longleftrightarrow>
     (case sub_listener s of Listener _ \<Rightarrow> True | OnceWrapper em' _ _ \<Rightarrow> em' = em \<and> sub_emitter s = em)"

definition spend :: "('l, 'c) subscription option \<Rightarrow> ('l, 'c) subscription option" where
  "spend x = (case x of None \<Rightarrow> None | Some s \<Rightarrow> if is_once s then None else Some s)"

lemma present_spend: "present (map spend xs) = filter (\<lambda>s. \<not> is_once s) (present xs)"
  by (induction xs rule: present.induct) (auto simp: spend_def)

definition removal_log :: "nat \<Rightarrow> ('l, 'c, 'u) emitters \<Rightarrow> native_call list" where
  "removal_log em st = nativeLog st @
     (if emitter_kind st em = NativeEmitter True then [NativeRemoveListeners em 1] else [])"

lemma removeCurrentListener_own:
  assumes "currentSubscription st em = Some s" and "sub_emitter s = em"
  shows "removeCurrentListener em st =
           Ret () (st\<lparr>subscriber := vendor_removeSubscription s (subscriber st),
                      nativeLog := removal_log em st\<rparr>)"
  using assms
  by (cases st; cases "emitter_kind st em")
    (auto simp: removeCurrentListener_def removeSubscription_def removal_log_def
      NativeEventEmitter_removeSubscription_def EventEmitter_removeSubscription_def
      RCTDeviceEventEmitter_removeSubscription_def)

text \<open>One turn of the loop on an existing subscription.\<close>

lemma apply_listener_pure:
  assumes ok: "vendor_ok (subscriber st)" and a: "types (subscriber st) ty = Some a"
    and i: "i < length (arrays (subscriber st) ! a)" "arrays (subscriber st) ! a ! i = Some s"
    and o: "once_of em s"
  shows "\<exists>st'. apply_listener (pure_code f) (sub_listener s) (sub_context s) args
            (st\<lparr>currentSubscription := (currentSubscription st)(em := Some s)\<rparr>) = Ret () st' \<and>
          user st' = deliver f args s (user st) \<and>
          subscriber st' = (subscriber st)\<lparr>arrays := (arrays (subscriber st))
             [a := (arrays (subscriber st) ! a)[i := spend (Some s)]]\<rparr>"
proof (cases "sub_listener s")
  case (Listener l)
  moreover have "(arrays (subscriber st) ! a)[i := Some s] = arrays (subscriber st) ! a"
    using i by (metis list_update_id)
  ultimately show ?thesis by (simp add: pure_code_def spend_def is_once_def)
next
  case (OnceWrapper em' l c)
  let ?st = "st\<lparr>currentSubscription := (currentSubscription st)(em := Some s)\<rparr>"
  from o OnceWrapper have em: "em' = em" "sub_emitter s = em" by (auto simp: once_of_def)
  have "vendor_removeSubscription s (subscriber st) =
      (subscriber st)\<lparr>arrays := (arrays (subscriber st))[a := (arrays (subscriber st) ! a)[i := None]]\<rparr>"
    using vendor_okD(3,4) [OF ok a i] a by (simp add: vendor_removeSubscription_def)
  with OnceWrapper em show ?thesis
    by (simp add: removeCurrentListener_own pure_code_def spend_def is_once_def)
qed

lemma spend_step:
  assumes "i < length xs"
  shows "take (Suc i) (xs[i := spend (xs ! i)]) @ map spend (drop (Suc i) (xs[i := spend (xs ! i)]))
       = take i xs @ map spend (drop i xs)"
proof -
  have "drop i xs = xs ! i # drop (Suc i) xs" using assms by (simp add: Cons_nth_drop_Suc)
  with assms show ?thesis by (simp add: take_Suc_conv_app_nth)
qed

lemma emit_loop_pure:
  assumes "vendor_ok (subscriber st)" and "types (subscriber st) ty = Some a"
    and "\<forall>s \<in> set (present (drop i (arrays (subscriber st) ! a))). once_of em s"
    and "l = length (arrays (subscriber st) ! a)" and "i \<le> l"
  shows "\<exists>st'. emit_loop (pure_code f) em a args i l st = Ret () st' \<and>
           user st' = fold (deliver f args) (present (drop i (arrays (subscriber st) ! a))) (user st) \<and>
           subscriber st' = (subscriber st)\<lparr>arrays := (arrays (subscriber st))
             [a := take i (arrays (subscriber st) ! a) @ map spend (drop i (arrays (subscriber st) ! a))]\<rparr>"
  using assms
proof (induction "l - i" arbitrary: i st)
  case 0
  then show ?case by (simp add: emit_loop.simps)
next
  case (Suc n)
  let ?xs = "arrays (subscriber st) ! a"
  from Suc have i: "i < length ?xs" and n: "n = l - Suc i" by auto
  have dr: "drop i ?xs = ?xs ! i # drop (Suc i) ?xs" using i by (simp add: Cons_nth_drop_Suc)
  have al: "a < length (arrays (subscriber st))" using vendor_okD(1) [OF Suc.prems(1,2)] .
  show ?case
  proof (cases "?xs ! i")
    case None
    have "map spend (drop i ?xs) = None # map spend (drop (Suc i) ?xs)"
      using dr None by (simp add: spend_def)
    moreover have "take (Suc i) ?xs = take i ?xs @ [None]" using None i by (simp add: take_Suc_conv_app_nth)
    moreover have "emit_loop (pure_code f) em a args i l st =
        emit_loop (pure_code f) em a args (Suc i) l st"
      using i None Suc.prems(4) by (subst emit_loop.simps) (simp add: array_get_def)
    ultimately show ?thesis
      using Suc.hyps(1) [OF n Suc.prems(1,2)] Suc.prems(3,4) i dr None by simp
  next
    case (Some s)
    have o: "once_of em s" using Suc.prems(3) dr Some by simp
    from apply_listener_pure [OF Suc.prems(1,2) i Some o, of f args]
    obtain st1 where s1: "apply_listener (pure_code f) (sub_listener s) (sub_context s) args
          (st\<lparr>currentSubscription := (currentSubscription st)(em := Some s)\<rparr>) = Ret () st1"
      "user st1 = deliver f args s (user st)"
      "subscriber st1 = (subscriber st)\<lparr>arrays := (arrays (subscriber st))[a := ?xs[i := spend (?xs ! i)]]\<rparr>"
      using Some by auto
    let ?ys = "?xs[i := spend (?xs ! i)]"
    have ys: "arrays (subscriber st1) ! a = ?ys" using s1 al by simp
    have sl: "slots_ok ty ?ys"
      using vendor_ok_slots [OF Suc.prems(1,2)] slots_ok_hole Some
      by (auto simp: spend_def) (metis Some list_update_id)
    have ok1: "vendor_ok (subscriber st1)"
      using array_update_ok(1) [OF Suc.prems(1,2) sl] s1 by simp
    have d1: "drop (Suc i) ?ys = drop (Suc i) ?xs" by simp
    have ih: "types (subscriber st1) ty = Some a" "l = length (arrays (subscriber st1) ! a)" "Suc i \<le> l"
      "\<forall>s \<in> set (present (drop (Suc i) (arrays (subscriber st1) ! a))). once_of em s"
      using Suc.prems(2,3,4) s1(3) ys d1 dr Some i by simp_all
    obtain st' where st': "emit_loop (pure_code f) em a args (Suc i) l st1 = Ret () st'"
      "user st' = fold (deliver f args) (present (drop (Suc i) ?ys)) (user st1)"
      "subscriber st' = (subscriber st1)\<lparr>arrays := (arrays (subscriber st1))
         [a := take (Suc i) ?ys @ map spend (drop (Suc i) ?ys)]\<rparr>"
      using Suc.hyps(1) [OF n ok1 ih(1,4,2,3)] unfolding ys by blast
    have "emit_loop (pure_code f) em a args i l st = Ret () st'"
      using s1(1) st'(1) Some i Suc.prems(4) by (subst emit_loop.simps) (simp add: array_get_def)
    then show ?thesis
      using st'(2,3) s1(2,3) d1 dr Some spend_step [OF i] by (intro exI [of _ st']) simp
  qed
qed


text \<open>
  A subscription that is added and then removed leaves the registry as it was, for
  every event type, whatever else is registered.
\<close>

theorem add_then_remove_restores:
  assumes "vendor_ok v" and "addSubscription ty s v = Ret s' v'"
  shows "live (vendor_removeSubscription s' v') = live v"
  using assms by (rule esv.add_then_remove)

text \<open>
  Subscription keys are positions, so after \<open>removeAllListeners\<close> a stale subscription
  shares its key with the next one registered: calling \<open>remove()\<close> on the stale
  subscription silently unregisters the other listener.
\<close>

theorem stale_remove_drops_other:
  assumes "vendor_ok v" and "types v ty = None"
    and "addSubscription ty s1 v = Ret s1' v1"
    and "addSubscription ty s2 (removeAllSubscriptions (EventType ty) v1) = Ret s2' v2"
  shows "live v2 ty = [s2'] \<and> live (vendor_removeSubscription s1' v2) ty = []"
proof -
  have k1: "sub_key s1' = 0 \<and> sub_eventType s1' = ty"
    using assms(2,3) by (auto simp: addSubscription_def ensure_array_def Let_def split: if_splits)
  have t: "types (removeAllSubscriptions (EventType ty) v1) ty = None"
    by (simp add: removeAllSubscriptions_def)
  with assms(4) have k2: "sub_key s2' = 0 \<and> sub_eventType s2' = ty"
    by (auto simp: addSubscription_def ensure_array_def Let_def split: if_splits)
  have ok1: "vendor_ok (removeAllSubscriptions (EventType ty) v1)"
    using addSubscription_spec(1) [OF assms(1,3)] by (rule removeAllSubscriptions_ok)
  have l2: "live v2 ty = [s2']"
    using addSubscription_spec(2) [OF ok1 assms(4)] t by (simp add: live_def)
  moreover have "vendor_removeSubscription s1' v2 = vendor_removeSubscription s2' v2"
    using k1 k2 by (simp add: vendor_removeSubscription_def split: option.splits)
  ultimately show ?thesis
    using vendor_removeSubscription_live [OF addSubscription_spec(1) [OF ok1 assms(4)], of s2'] k2
    by simp
qed

text \<open>
  \<open>_currentSubscription\<close> belongs to the emitting emitter, while the wrapper that
  \<open>NativeEventEmitter.once\<close> builds asks its own emitter for it.  When the event is emitted
  by \<open>RCTDeviceEventEmitter\<close>, as all native events are, the wrapper throws before the
  listener is called.
\<close>

theorem native_once_throws:
  assumes "dvc \<noteq> nem" and "emitter_kind st nem = NativeEmitter b"
    and "currentSubscription st nem = None" and "types (subscriber st) ty = None"
    and "once nem ty l ctx st = Ret sub st1"
  shows "\<exists>st2. emit call dvc ty args st1 =
           Throw (InvariantViolation ''Not in an emitting cycle; there is no current subscription'') st2"
proof -
  from assms(2,4,5) have "types (subscriber st1) ty = Some (length (arrays (subscriber st)))"
    "arrays (subscriber st1) ! length (arrays (subscriber st)) = [Some sub]"
    "sub_listener sub = OnceWrapper nem l ctx"
    "currentSubscription st1 = currentSubscription st"
    by (cases b; auto simp: once_def addListener_def NativeEventEmitter_addListener_def
        EventEmitter_addListener_def addSubscription_def ensure_array_def Let_def nth_append
        split: if_splits outcome.splits)+
  with assms(1,3) show ?thesis
    by (simp add: emit_def getSubscriptionsForType_def emit_loop.simps [of _ dvc _ args 0]
        array_get_def removeCurrentListener_def)
qed

section \<open>Examples\<close>

definition ex_emitters :: "(nat, unit, nat list) emitters" where
  "ex_emitters = \<lparr>subscriber = new_vendor 0,
     emitter_kind = (\<lambda>i. if i = 0 then DeviceEmitter else NativeEmitter True),
     currentSubscription = (\<lambda>_. None), nextSub = 0, dev = True, nativeLog = [], user = []\<rparr>"

definition ex_sub :: "nat \<Rightarrow> (nat, unit) subscription" where
  "ex_sub i = \<lparr>sub_id = i, sub_subscriber = 0, sub_emitter = 0, sub_listener = Listener i,
     sub_context = None, sub_eventType = [], sub_key = 0\<rparr>"

definition ex_vendor :: "(nat, unit) vendor" where
  "ex_vendor = \<lparr>vendor_id = 0, arrays = [[Some (ex_sub 7\<lparr>sub_eventType := ''change'', sub_key := 0\<rparr>), None,
      Some (ex_sub 8\<lparr>sub_eventType := ''change'', sub_key := 2,
            sub_listener := OnceWrapper 0 8 None\<rparr>)]],
     types = [''change'' \<mapsto> 0]\<rparr>"

lemma ex_vendor_ok: "vendor_ok ex_vendor"
  by (auto simp: vendor_ok_def ex_vendor_def ex_sub_def less_Suc_eq split: if_splits)


theorem add_then_remove_restores_witness:
  "live (vendor_removeSubscription (ex_sub 9\<lparr>sub_eventType := ''change'', sub_key := 3\<rparr>)
      (ex_vendor\<lparr>arrays := [arrays ex_vendor ! 0 @
         [Some (ex_sub 9\<lparr>sub_eventType := ''change'', sub_key := 3\<rparr>)]]\<rparr>)) = live ex_vendor"
  by (rule add_then_remove_restores [OF ex_vendor_ok, of "''change''" "ex_sub 9"])
    (simp add: addSubscription_def ensure_array_def ex_vendor_def ex_sub_def Let_def)

theorem stale_remove_drops_other_witness:
  "\<exists>s1' v1 s2' v2. addSubscription ''e'' (ex_sub 1) (new_vendor 0) = Ret s1' v1 \<and>
     addSubscription ''e'' (ex_sub 2) (removeAllSubscriptions (EventType ''e'') v1) = Ret s2' v2 \<and>
     live v2 ''e'' = [s2'] \<and> live (vendor_removeSubscription s1' v2) ''e'' = []"
proof -
  obtain s1' v1 where 1: "addSubscription ''e'' (ex_sub 1) (new_vendor 0) = Ret s1' v1"
    using addSubscription_returns [of "new_vendor 0" "ex_sub 1" "''e''"]
    by (auto simp: owned_by_def new_vendor_def ex_sub_def)
  have "vendor_id v1 = 0"
    using addSubscription_spec(4) [OF new_vendor_ok 1] by (simp add: new_vendor_def)
  then obtain s2' v2 where 2:
    "addSubscription ''e'' (ex_sub 2) (removeAllSubscriptions (EventType ''e'') v1) = Ret s2' v2"
    using addSubscription_returns [of "removeAllSubscriptions (EventType ''e'') v1" "ex_sub 2" "''e''"]
    by (auto simp: owned_by_def removeAllSubscriptions_def ex_sub_def)
  from stale_remove_drops_other [OF new_vendor_ok _ 1 2] 1 2 show ?thesis
    by (auto simp: new_vendor_def)
qed

theorem native_once_throws_witness:
  "\<exists>sub st1 st2. once 1 ''battery'' 5 None ex_emitters = Ret sub st1 \<and>
     emit (pure_code (\<lambda>l c (args :: nat) u. u @ [l])) 0 ''battery'' 0 st1 =
       Throw (InvariantViolation ''Not in an emitting cycle; there is no current subscription'') st2"
proof -
  obtain sub st1 where "once 1 ''battery'' 5 None ex_emitters = Ret sub st1"
    by (simp add: ex_emitters_def new_vendor_def once_def addListener_def
        NativeEventEmitter_addListener_def EventEmitter_addListener_def addSubscription_def
        ensure_array_def Let_def)
  with native_once_throws [of 0 1 ex_emitters True "''battery''" 5 None sub st1] show ?thesis
    by (fastforce simp: ex_emitters_def new_vendor_def)
qed

end
