(* ===== verification/JSValue.thy ===== *)
theory JSValue
  imports Prelude Complex_Main
begin

text \<open>
  The JavaScript values that cross the bridge or are compared by the differs.  Numbers are
  finite reals, \<open>NaN\<close> or an infinity (rounding is not modelled).  Arrays and objects carry
  an address, which is what \<open>===\<close> compares; an object also carries the name of its
  constructor and its enumerable properties in enumeration order.
\<close>

datatype js_number = Finite real | NaN | Infinity | NegInfinity

datatype js_fun = UserFun nat string | ResolveFun nat | RejectFun nat

datatype jsval =
    JUndefined
  | JNull
  | JBool bool
  | JNumber js_number
  | JString string
  | JFunction js_fun
  | JArray nat "jsval list"
  | JObject nat string "(string \<times> jsval) list"

fun js_typeof :: "jsval \<Rightarrow> string" where
  "js_typeof JUndefined = ''undefined''"
| "js_typeof JNull = ''object''"
| "js_typeof (JBool _) = ''boolean''"
| "js_typeof (JNumber _) = ''number''"
| "js_typeof (JString _) = ''string''"
| "js_typeof (JFunction _) = ''function''"
| "js_typeof (JArray _ _) = ''object''"
| "js_typeof (JObject _ _ _) = ''object''"

fun js_isFinite :: "js_number \<Rightarrow> bool" where
  "js_isFinite (Finite _) = True"
| "js_isFinite _ = False"

text \<open>The operator \<open>===\<close>.\<close>

fun strict_eq :: "jsval \<Rightarrow> jsval \<Rightarrow> bool" where
  "strict_eq JUndefined JUndefined = True"
| "strict_eq JNull JNull = True"
| "strict_eq (JBool a) (JBool b) = (a = b)"
| "strict_eq (JNumber a) (JNumber b) = (a = b \<and> a \<noteq> NaN)"
| "strict_eq (JString a) (JString b) = (a = b)"
| "strict_eq (JFunction a) (JFunction b) = (a = b)"
| "strict_eq (JArray a _) (JArray b _) = (a = b)"
| "strict_eq (JObject a _ _) (JObject b _ _) = (a = b)"
| "strict_eq _ _ = False"

fun is_function :: "jsval \<Rightarrow> bool" where
  "is_function (JFunction _) = True"
| "is_function _ = False"

lemma is_function_typeof: "is_function v \<longleftrightarrow> js_typeof v = ''function''"
  by (cases v) auto

lemma strict_eq_sym: "strict_eq a b \<longleftrightarrow> strict_eq b a"
  by (cases a; cases b) auto

text \<open>Size of a nested value, the measure of recursive traversals.\<close>

lemma size_property [termination_simp]: "(k, v) \<in> set kvs \<Longrightarrow> size v < Suc (size_list (size_prod (\<lambda>_. 0) size) kvs)"
  by (induction kvs) auto

lemma size_property' [termination_simp]: "kv \<in> set kvs \<Longrightarrow> size (snd kv) < Suc (size_list (size_prod (\<lambda>_. 0) size) kvs)"
  by (induction kvs) auto

end
