(* ===== verification/MessageQueue.thy ===== *)
theory MessageQueue
  imports JSValue "HOL-Library.Word"
begin

unbundle bit_operations_syntax

text \<open>
  The JavaScript end of the bridge: \<open>Libraries/BatchedBridge/MessageQueue.js\<close>.

  One record holds the fields of the class and the globals its methods read: \<open>__DEV__\<close>,
  whether the native hooks and a spy are installed, the clock, the keys \<open>warnOnce\<close> has
  seen, and a log of everything handed to native code or reported.  \<open>callID\<close> is a natural
  number; the identifiers sent to native are the signed 32-bit results of \<open><<\<close> and
  \<open>|\<close>.  Functions supplied from outside the class are fields of \<open>mq_env\<close>: the callbacks
  themselves, the factories of lazily registered modules, the methods of a module object,
  the fatal-error handler and the synchronous native hook.  Systrace events and the deep
  freeze of queued parameters change no value and are left out.
\<close>

section \<open>State\<close>

record mq_queue =
  moduleIDs :: "int list"
  methodIDs :: "int list"
  params :: "jsval list list"
  queueCallID :: nat

datatype mq_effect =
    Flushed mq_queue
  | SpyEvent bool "(string + int) option" "string + int" "jsval list"
  | Warned string
  | AsyncFlow nat

datatype 'm module_closure = Unloaded nat | Loaded 'm

record 'm mq =
  lazyCallableModules :: "string \<rightharpoonup> nat"
  moduleClosures :: "'m module_closure list"
  queue :: mq_queue
  successCallbacks :: "(nat \<times> js_fun option) list"
  failureCallbacks :: "(nat \<times> js_fun option) list"
  callID :: nat
  lastFlush :: int
  eventLoopStartTime :: int
  immediatesCallback :: "js_fun option"
  debugInfo :: "nat \<rightharpoonup> int \<times> int"
  remoteModuleTable :: "int \<rightharpoonup> string"
  remoteMethodTable :: "int \<rightharpoonup> string list"
  spy :: bool
  devMode :: bool
  nativeFlushQueueImmediate :: bool
  nativeCallSyncHook :: bool
  nativeTraceBeginAsyncFlow :: bool
  shouldPauseOnThrow :: bool
  clock :: int
  warnedKeys :: "string list"
  effects :: "mq_effect list"

record ('m, 'z) mq_env =
  call_fun :: "js_fun \<Rightarrow> jsval list \<Rightarrow> ('m, 'z) mq_scheme \<Rightarrow> (js_exn, ('m, 'z) mq_scheme, unit) outcome"
  run_factory :: "nat \<Rightarrow> ('m, 'z) mq_scheme \<Rightarrow> (js_exn, ('m, 'z) mq_scheme, 'm) outcome"
  method_of :: "'m \<Rightarrow> string \<Rightarrow> js_fun option"
  reportFatalError :: "js_exn \<Rightarrow> ('m, 'z) mq_scheme \<Rightarrow> (js_exn, ('m, 'z) mq_scheme, unit) outcome"
  sync_hook :: "int \<Rightarrow> int \<Rightarrow> jsval list \<Rightarrow> ('m, 'z) mq_scheme \<Rightarrow> (js_exn, ('m, 'z) mq_scheme, jsval) outcome"

definition MIN_TIME_BETWEEN_FLUSHES_MS :: int where
  "MIN_TIME_BETWEEN_FLUSHES_MS = 5"

definition DEBUG_INFO_LIMIT :: nat where
  "DEBUG_INFO_LIMIT = 32"

definition empty_queue :: "nat \<Rightarrow> mq_queue" where
  "empty_queue n = \<lparr>moduleIDs = [], methodIDs = [], params = [], queueCallID = n\<rparr>"

text \<open>\<open>new MessageQueue()\<close> in an environment given by its globals.\<close>

definition new_MessageQueue :: "bool \<Rightarrow> bool \<Rightarrow> bool \<Rightarrow> int \<Rightarrow> 'm mq" where
  "new_MessageQueue isDev hasFlush hasSync now =
     \<lparr>lazyCallableModules = Map.empty, moduleClosures = [], queue = empty_queue 0,
      successCallbacks = [], failureCallbacks = [], callID = 0, lastFlush = 0,
      eventLoopStartTime = now, immediatesCallback = None, debugInfo = Map.empty,
      remoteModuleTable = Map.empty, remoteMethodTable = Map.empty, spy = False,
      devMode = isDev, nativeFlushQueueImmediate = hasFlush, nativeCallSyncHook = hasSync,
      nativeTraceBeginAsyncFlow = False, shouldPauseOnThrow = False, clock = now,
      warnedKeys = [], effects = []\<rparr>"

definition log_effect :: "mq_effect \<Rightarrow> ('m, 'z) mq_scheme \<Rightarrow> ('m, 'z) mq_scheme" where
  "log_effect e st = st\<lparr>effects := effects st @ [e]\<rparr>"

definition set_spy :: "bool \<Rightarrow> ('m, 'z) mq_scheme \<Rightarrow> ('m, 'z) mq_scheme" where
  "set_spy b st = st\<lparr>spy := b\<rparr>"

section \<open>Callback identifiers\<close>

text \<open>
  \<open>this._callID << 1\<close>, \<open>(this._callID << 1) | 1\<close>, \<open>cbID >>> 1\<close> and \<open>cbID & 1\<close>:
  the operands are taken modulo $2^{32}$, the first two results are signed, \<open>>>>\<close> is
  unsigned.
\<close>

definition fail_id :: "nat \<Rightarrow> int" where
  "fail_id n = sint (push_bit 1 (of_nat n :: 32 word))"

definition succ_id :: "nat \<Rightarrow> int" where
  "succ_id n = sint (push_bit 1 (of_nat n :: 32 word) OR 1)"

definition callID_of :: "int \<Rightarrow> nat" where
  "callID_of cbID = unat (drop_bit 1 (of_int cbID :: 32 word))"

definition isSuccess_of :: "int \<Rightarrow> bool" where
  "isSuccess_of cbID \<longleftrightarrow> ((of_int cbID :: 32 word) AND 1) \<noteq> 0"

section \<open>Calling into JavaScript: modules\<close>

definition registerCallableModule :: "string \<Rightarrow> 'm \<Rightarrow> ('m, 'z) mq_scheme \<Rightarrow> ('m, 'z) mq_scheme" where
  "registerCallableModule name m st =
     st\<lparr>lazyCallableModules := (lazyCallableModules st)(name \<mapsto> length (moduleClosures st)),
        moduleClosures := moduleClosures st @ [Loaded m]\<rparr>"

definition registerLazyCallableModule :: "string \<Rightarrow> nat \<Rightarrow> ('m, 'z) mq_scheme \<Rightarrow> ('m, 'z) mq_scheme" where
  "registerLazyCallableModule name factory st =
     st\<lparr>lazyCallableModules := (lazyCallableModules st)(name \<mapsto> length (moduleClosures st)),
        moduleClosures := moduleClosures st @ [Unloaded factory]\<rparr>"

definition getCallableModule ::
  "('m, 'z) mq_env \<Rightarrow> string \<Rightarrow> ('m, 'z) mq_scheme \<Rightarrow> (js_exn, ('m, 'z) mq_scheme, 'm option) outcome" where
  "getCallableModule env name st =
     (case lazyCallableModules st name of
        None \<Rightarrow> Ret None st
      | Some a \<Rightarrow>
          (case moduleClosures st ! a of
             Loaded m \<Rightarrow> Ret (Some m) st
           | Unloaded factory \<Rightarrow>
               and_then (run_factory env factory st)
                 (\<lambda>m st'. Ret (Some m) (st'\<lparr>moduleClosures := (moduleClosures st')[a := Loaded m]\<rparr>))))"

definition spy_event :: "bool \<Rightarrow> (string + int) option \<Rightarrow> string + int \<Rightarrow> jsval list \<Rightarrow> ('m, 'z) mq_scheme \<Rightarrow> ('m, 'z) mq_scheme" where
  "spy_event toJS m meth args st = (if spy st then log_effect (SpyEvent toJS m meth args) st else st)"

text \<open>\<open>__callFunction\<close>\<close>

definition callFunction ::
  "('m, 'z) mq_env \<Rightarrow> string \<Rightarrow> string \<Rightarrow> jsval list \<Rightarrow> ('m, 'z) mq_scheme \<Rightarrow> (js_exn, ('m, 'z) mq_scheme, unit) outcome" where
  "callFunction env moduleName method args st =
     (let st1 = st\<lparr>lastFlush := clock st, eventLoopStartTime := clock st\<rparr>;
          st2 = spy_event True (Some (Inl moduleName)) (Inl method) args st1
      in and_then (getCallableModule env moduleName st2) (\<lambda>mm st3.
           case mm of
             None \<Rightarrow> Throw (InvariantViolation (''Module '' @ moduleName @ '' is not a registered callable module (calling '' @ method @ '')'')) st3
           | Some m \<Rightarrow>
               (case method_of env m method of
                  None \<Rightarrow> Throw (InvariantViolation (''Method '' @ method @ '' does not exist on module '' @ moduleName)) st3
                | Some f \<Rightarrow> call_fun env f args st3)))"

section \<open>Callbacks\<close>

text \<open>The value of a key of a \<open>Map\<close> whose values may be undefined.\<close>

definition get_callback :: "nat \<Rightarrow> (nat \<times> js_fun option) list \<Rightarrow> js_fun option" where
  "get_callback n m = (case map_of m n of None \<Rightarrow> None | Some f \<Rightarrow> f)"

text \<open>
  \<open>debug && this._remoteMethodTable[debug[0]][debug[1]]\<close>: reading a method of a module
  that \<open>createDebugLookup\<close> never saw is a \<open>TypeError\<close>.
\<close>

definition debug_lookup :: "('m, 'z) mq_scheme \<Rightarrow> nat \<Rightarrow> js_exn + (string option \<times> string option)" where
  "debug_lookup st n =
     (case debugInfo st n of
        None \<Rightarrow> Inr (None, None)
      | Some (moduleID, methodID) \<Rightarrow>
          (case remoteMethodTable st moduleID of
             None \<Rightarrow> Inl (TypeError ''undefined is not an object'')
           | Some methods \<Rightarrow>
               Inr (remoteModuleTable st moduleID,
                    if 0 \<le> methodID then array_get methods (nat methodID) else None)))"

fun debug_lookups :: "('m, 'z) mq_scheme \<Rightarrow> nat list \<Rightarrow> js_exn option" where
  "debug_lookups st [] = None"
| "debug_lookups st (n # ns) = (case debug_lookup st n of Inl e \<Rightarrow> Some e | Inr _ \<Rightarrow> debug_lookups st ns)"

definition warnOnce :: "string \<Rightarrow> ('m, 'z) mq_scheme \<Rightarrow> ('m, 'z) mq_scheme" where
  "warnOnce key st =
     (if key \<in> set (warnedKeys st) then st
      else log_effect (Warned key) (st\<lparr>warnedKeys := warnedKeys st @ [key]\<rparr>))"

definition debug_bookkeeping ::
  "int \<Rightarrow> int \<Rightarrow> ('m, 'z) mq_scheme \<Rightarrow> (js_exn, ('m, 'z) mq_scheme, unit) outcome" where
  "debug_bookkeeping moduleID methodID st =
     (let st1 = st\<lparr>debugInfo := (debugInfo st)(callID st \<mapsto> (moduleID, methodID))\<rparr>;
          st2 = (if callID st1 > DEBUG_INFO_LIMIT
                 then st1\<lparr>debugInfo := (debugInfo st1)(callID st1 - DEBUG_INFO_LIMIT := None)\<rparr>
                 else st1)
      in if length (successCallbacks st2) > 500
         then (case debug_lookups st2 (map fst (successCallbacks st2)) of
                 Some e \<Rightarrow> Throw e st2
               | None \<Rightarrow> Ret () (warnOnce ''excessive-number-of-pending-callbacks'' st2))
         else Ret () st2)"

definition registerCallbacks ::
  "jsval list \<Rightarrow> js_fun option \<Rightarrow> js_fun option \<Rightarrow> ('m, 'z) mq_scheme \<Rightarrow> jsval list \<times> ('m, 'z) mq_scheme" where
  "registerCallbacks ps onFail onSucc st =
     (ps @ (if onFail \<noteq> None then [JNumber (Finite (of_int (fail_id (callID st))))] else [])
         @ (if onSucc \<noteq> None then [JNumber (Finite (of_int (succ_id (callID st))))] else []),
      st\<lparr>successCallbacks := AList.update (callID st) onSucc (successCallbacks st),
         failureCallbacks := AList.update (callID st) onFail (failureCallbacks st)\<rparr>)"

definition callback_phase ::
  "int \<Rightarrow> int \<Rightarrow> jsval list \<Rightarrow> js_fun option \<Rightarrow> js_fun option \<Rightarrow> ('m, 'z) mq_scheme \<Rightarrow>
   (js_exn, ('m, 'z) mq_scheme, jsval list) outcome" where
  "callback_phase moduleID methodID ps onFail onSucc st =
     (if onFail \<noteq> None \<or> onSucc \<noteq> None
      then and_then (if devMode st then debug_bookkeeping moduleID methodID st else Ret () st)
             (\<lambda>_ st1. Ret (fst (registerCallbacks ps onFail onSucc st1)) (snd (registerCallbacks ps onFail onSucc st1)))
      else Ret ps st)"

definition next_call :: "('m, 'z) mq_scheme \<Rightarrow> ('m, 'z) mq_scheme" where
  "next_call st =
     (let st1 = (if devMode st \<and> nativeTraceBeginAsyncFlow st
                 then log_effect (AsyncFlow (callID st)) st else st)
      in st1\<lparr>callID := Suc (callID st1)\<rparr>)"

text \<open>\<open>processCallbacks\<close>: the result is the parameter array with the identifiers pushed.\<close>

definition processCallbacks ::
  "int \<Rightarrow> int \<Rightarrow> jsval list \<Rightarrow> js_fun option \<Rightarrow> js_fun option \<Rightarrow> ('m, 'z) mq_scheme \<Rightarrow>
   (js_exn, ('m, 'z) mq_scheme, jsval list) outcome" where
  "processCallbacks moduleID methodID ps onFail onSucc st =
     and_then (callback_phase moduleID methodID ps onFail onSucc st) (\<lambda>ps' st1. Ret ps' (next_call st1))"

definition callNativeSyncHook_op ::
  "('m, 'z) mq_env \<Rightarrow> int \<Rightarrow> int \<Rightarrow> jsval list \<Rightarrow> js_fun option \<Rightarrow> js_fun option \<Rightarrow> ('m, 'z) mq_scheme \<Rightarrow>
   (js_exn, ('m, 'z) mq_scheme, jsval) outcome" where
  "callNativeSyncHook_op env moduleID methodID ps onFail onSucc st =
     (if devMode st \<and> \<not> nativeCallSyncHook st
      then Throw (InvariantViolation ''Calling synchronous methods on native modules is not supported in Chrome.'') st
      else and_then (processCallbacks moduleID methodID ps onFail onSucc st)
        (\<lambda>ps' st1.
           if nativeCallSyncHook st1 then sync_hook env moduleID methodID ps' st1
           else Throw (TypeError ''global.nativeCallSyncHook is not a function'') st1))"

section \<open>Calls to native\<close>

fun isValidArgument :: "jsval \<Rightarrow> bool" where
  "isValidArgument JUndefined = True"
| "isValidArgument JNull = True"
| "isValidArgument (JBool _) = True"
| "isValidArgument (JString _) = True"
| "isValidArgument (JNumber n) = js_isFinite n"
| "isValidArgument (JFunction _) = False"
| "isValidArgument (JArray _ vs) = (\<forall>v \<in> set vs. isValidArgument v)"
| "isValidArgument (JObject _ _ kvs) =
     (\<forall>kv \<in> set kvs. is_function (snd kv) \<or> isValidArgument (snd kv))"

text \<open>The parameters are checked as one array.\<close>

definition valid_params :: "jsval list \<Rightarrow> bool" where
  "valid_params ps \<longleftrightarrow> (\<forall>v \<in> set ps. isValidArgument v)"

definition push_ids :: "int \<Rightarrow> int \<Rightarrow> ('m, 'z) mq_scheme \<Rightarrow> ('m, 'z) mq_scheme" where
  "push_ids moduleID methodID st =
     st\<lparr>queue := (queue st)\<lparr>moduleIDs := moduleIDs (queue st) @ [moduleID],
                              methodIDs := methodIDs (queue st) @ [methodID]\<rparr>\<rparr>"

definition push_params :: "jsval list \<Rightarrow> ('m, 'z) mq_scheme \<Rightarrow> ('m, 'z) mq_scheme" where
  "push_params ps st = st\<lparr>queue := (queue st)\<lparr>params := params (queue st) @ [ps]\<rparr>\<rparr>"

definition flush_if_due :: "('m, 'z) mq_scheme \<Rightarrow> ('m, 'z) mq_scheme" where
  "flush_if_due st =
     (if nativeFlushQueueImmediate st \<and> clock st - lastFlush st \<ge> MIN_TIME_BETWEEN_FLUSHES_MS
      then log_effect (Flushed (queue st)) (st\<lparr>queue := empty_queue (callID st), lastFlush := clock st\<rparr>)
      else st)"

definition spy_native_call ::
  "int \<Rightarrow> int \<Rightarrow> jsval list \<Rightarrow> ('m, 'z) mq_scheme \<Rightarrow> (js_exn, ('m, 'z) mq_scheme, unit) outcome" where
  "spy_native_call moduleID methodID ps st =
     (if devMode st \<and> spy st
      then (case remoteMethodTable st moduleID of
              None \<Rightarrow> Throw (TypeError ''undefined is not an object'') st
            | Some methods \<Rightarrow>
                Ret () (log_effect (SpyEvent False (map_option Inl (remoteModuleTable st moduleID))
                   (case (if 0 \<le> methodID then array_get methods (nat methodID) else None) of
                      Some name \<Rightarrow> Inl name | None \<Rightarrow> Inl ''undefined'') ps) st))
      else if spy st
      then Ret () (log_effect (SpyEvent False (Some (Inr moduleID)) (Inr methodID) ps) st)
      else Ret () st)"

definition enqueueNativeCall ::
  "int \<Rightarrow> int \<Rightarrow> jsval list \<Rightarrow> js_fun option \<Rightarrow> js_fun option \<Rightarrow> ('m, 'z) mq_scheme \<Rightarrow>
   (js_exn, ('m, 'z) mq_scheme, unit) outcome" where
  "enqueueNativeCall moduleID methodID ps onFail onSucc st =
     and_then (processCallbacks moduleID methodID ps onFail onSucc st) (\<lambda>ps' st1.
       let st2 = push_ids moduleID methodID st1
       in if devMode st2 \<and> \<not> valid_params ps'
          then Throw (InvariantViolation ''%s is not usable as a native method argument'') st2
          else spy_native_call moduleID methodID ps' (flush_if_due (push_params ps' st2)))"

definition createDebugLookup :: "int \<Rightarrow> string \<Rightarrow> string list option \<Rightarrow> ('m, 'z) mq_scheme \<Rightarrow> ('m, 'z) mq_scheme" where
  "createDebugLookup moduleID name methods st =
     (if devMode st
      then st\<lparr>remoteModuleTable := (remoteModuleTable st)(moduleID \<mapsto> name),
              remoteMethodTable := (remoteMethodTable st)(moduleID \<mapsto> (case methods of None \<Rightarrow> [] | Some ms \<Rightarrow> ms))\<rparr>
      else st)"

definition setImmediatesCallback :: "js_fun \<Rightarrow> ('m, 'z) mq_scheme \<Rightarrow> ('m, 'z) mq_scheme" where
  "setImmediatesCallback f st = st\<lparr>immediatesCallback := Some f\<rparr>"

definition getEventLoopRunningTime :: "('m, 'z) mq_scheme \<Rightarrow> int" where
  "getEventLoopRunningTime st = clock st - eventLoopStartTime st"

section \<open>Entry points called from native\<close>

text \<open>\<open>__guard\<close>\<close>

definition guard ::
  "('m, 'z) mq_env \<Rightarrow> (('m, 'z) mq_scheme \<Rightarrow> (js_exn, ('m, 'z) mq_scheme, unit) outcome) \<Rightarrow> ('m, 'z) mq_scheme \<Rightarrow> (js_exn, ('m, 'z) mq_scheme, unit) outcome" where
  "guard env fn st =
     (if shouldPauseOnThrow st then fn st
      else (case fn st of
              Ret u st' \<Rightarrow> Ret u st'
            | Throw e st' \<Rightarrow> reportFatalError env e st'))"

text \<open>\<open>__callImmediates\<close>\<close>

definition mq_callImmediates :: "('m, 'z) mq_env \<Rightarrow> ('m, 'z) mq_scheme \<Rightarrow> (js_exn, ('m, 'z) mq_scheme, unit) outcome" where
  "mq_callImmediates env st =
     (case immediatesCallback st of None \<Rightarrow> Ret () st | Some f \<Rightarrow> call_fun env f [] st)"

definition flushedQueue :: "('m, 'z) mq_env \<Rightarrow> ('m, 'z) mq_scheme \<Rightarrow> (js_exn, ('m, 'z) mq_scheme, mq_queue option) outcome" where
  "flushedQueue env st =
     and_then (guard env (mq_callImmediates env) st) (\<lambda>_ st1.
       Ret (if moduleIDs (queue st1) \<noteq> [] then Some (queue st1) else None)
         (st1\<lparr>queue := empty_queue (callID st1)\<rparr>))"

definition callFunctionReturnFlushedQueue ::
  "('m, 'z) mq_env \<Rightarrow> string \<Rightarrow> string \<Rightarrow> jsval list \<Rightarrow> ('m, 'z) mq_scheme \<Rightarrow> (js_exn, ('m, 'z) mq_scheme, mq_queue option) outcome" where
  "callFunctionReturnFlushedQueue env moduleName method args st =
     and_then (guard env (callFunction env moduleName method args) st) (\<lambda>_ st1. flushedQueue env st1)"

definition invoke_profile :: "int \<Rightarrow> string option \<times> string option \<Rightarrow> bool \<Rightarrow> string + int" where
  "invoke_profile cbID mm hasDebug =
     (if hasDebug
      then Inl (''<callback for '' @ (case fst mm of Some m \<Rightarrow> m | None \<Rightarrow> ''undefined'') @ ''.'' @
                (case snd mm of Some m \<Rightarrow> m | None \<Rightarrow> ''undefined'') @ ''>'')
      else Inr cbID)"

text \<open>\<open>__invokeCallback\<close>\<close>

definition invokeCallback ::
  "('m, 'z) mq_env \<Rightarrow> int \<Rightarrow> jsval list \<Rightarrow> ('m, 'z) mq_scheme \<Rightarrow> (js_exn, ('m, 'z) mq_scheme, unit) outcome" where
  "invokeCallback env cbID args st =
     (let st1 = st\<lparr>lastFlush := clock st, eventLoopStartTime := clock st\<rparr>;
          n = callID_of cbID;
          callback = (if isSuccess_of cbID then get_callback n (successCallbacks st1)
                      else get_callback n (failureCallbacks st1));
          checked =
            (if devMode st1
             then (case debug_lookup st1 n of
                     Inl e \<Rightarrow> Throw e st1
                   | Inr mm \<Rightarrow>
                       if callback = None
                       then Throw (InvariantViolation ''No callback found'') st1
                       else Ret () (spy_event True None (invoke_profile cbID mm (debugInfo st1 n \<noteq> None)) args st1))
             else Ret () st1)
      in and_then checked (\<lambda>_ st2.
           case callback of
             None \<Rightarrow> Ret () st2
           | Some f \<Rightarrow>
               call_fun env f args
                 (st2\<lparr>successCallbacks := AList.delete n (successCallbacks st2),
                      failureCallbacks := AList.delete n (failureCallbacks st2)\<rparr>)))"

definition invokeCallbackAndReturnFlushedQueue ::
  "('m, 'z) mq_env \<Rightarrow> int \<Rightarrow> jsval list \<Rightarrow> ('m, 'z) mq_scheme \<Rightarrow> (js_exn, ('m, 'z) mq_scheme, mq_queue option) outcome" where
  "invokeCallbackAndReturnFlushedQueue env cbID args st =
     and_then (guard env (invokeCallback env cbID args) st) (\<lambda>_ st1. flushedQueue env st1)"

section \<open>Callback identifiers survive the bridge\<close>

lemma drop_push_bit:
  "k \<le> LENGTH('a) \<Longrightarrow> drop_bit k (push_bit k (w :: 'a :: len word)) = take_bit (LENGTH('a) - k) w"
  by (rule bit_word_eqI) (auto simp: bit_simps dest: bit_imp_le_length)

lemma drop_push_or_bit:
  "0 < k \<Longrightarrow> drop_bit k (push_bit k w OR 1) = drop_bit k (push_bit k (w :: 'a :: len word))"
  by (rule bit_word_eqI) (auto simp: bit_simps)

lemma push_bit_even: "0 < k \<Longrightarrow> push_bit k w AND (1 :: 'a :: len word) = 0"
  by (rule bit_word_eqI) (auto simp: bit_simps)

lemma or_1_odd: "(w OR 1) AND 1 = (1 :: 'a :: len word)"
  by (rule bit_word_eqI) (auto simp: bit_simps)

lemma unat_take_bit_31: "unat (take_bit 31 (of_nat n :: 32 word)) = n mod 2 ^ 31"
proof -
  have "unat (take_bit 31 (of_nat n :: 32 word)) = take_bit 31 (take_bit 32 n)"
    by (simp add: unsigned_take_bit_eq unsigned_of_nat)
  also have "\<dots> = n mod 2 ^ 31"
    by (simp only: take_bit_take_bit) (simp add: take_bit_eq_mod)
  finally show ?thesis .
qed

lemma callback_ids:
  "callID_of (fail_id n) = n mod 2 ^ 31" "callID_of (succ_id n) = n mod 2 ^ 31"
  "\<not> isSuccess_of (fail_id n)" "isSuccess_of (succ_id n)"
proof -
  have d: "unat (drop_bit 1 (push_bit 1 (of_nat n :: 32 word))) = n mod 2 ^ 31"
    using drop_push_bit [of 1 "of_nat n :: 32 word"] unat_take_bit_31 [of n] by simp
  have e: "unat (drop_bit 1 (push_bit 1 (of_nat n :: 32 word) OR 1)) = n mod 2 ^ 31"
    using d drop_push_or_bit [of 1 "of_nat n :: 32 word"] by simp
  show "callID_of (fail_id n) = n mod 2 ^ 31" "callID_of (succ_id n) = n mod 2 ^ 31"
    "\<not> isSuccess_of (fail_id n)" "isSuccess_of (succ_id n)"
    unfolding callID_of_def fail_id_def succ_id_def isSuccess_of_def of_int_sint
    using d e push_bit_even [of 1 "of_nat n :: 32 word"] or_1_odd [of "push_bit 1 (of_nat n :: 32 word)"]
    by simp_all
qed

text \<open>
  Native code hands back the identifier it was given; the call number is recovered
  modulo $2^{31}$ and the low bit tells the success callback from the failure callback,
  although the identifiers are signed 32-bit results and turn negative from
  $2^{30}$ calls on.
\<close>

theorem callback_id_roundtrip:
  "callID_of (fail_id n) = n mod 2 ^ 31 \<and> callID_of (succ_id n) = n mod 2 ^ 31 \<and>
   \<not> isSuccess_of (fail_id n) \<and> isSuccess_of (succ_id n)"
  by (simp add: callback_ids)

section \<open>No call is lost, duplicated or reordered\<close>

type_synonym native_call_args = "int \<times> int \<times> jsval list"

definition aligned :: "mq_queue \<Rightarrow> bool" where
  "aligned q \<longleftrightarrow> length (methodIDs q) = length (moduleIDs q) \<and> length (params q) = length (moduleIDs q)"

definition queue_calls :: "mq_queue \<Rightarrow> native_call_args list" where
  "queue_calls q = zip (moduleIDs q) (zip (methodIDs q) (params q))"

fun flushed_calls :: "mq_effect list \<Rightarrow> native_call_args list" where
  "flushed_calls [] = []"
| "flushed_calls (Flushed q # es) = queue_calls q @ flushed_calls es"
| "flushed_calls (_ # es) = flushed_calls es"

text \<open>Everything ever queued: what was already handed to native, then what is pending.\<close>

definition all_calls :: "('m, 'z) mq_scheme \<Rightarrow> native_call_args list" where
  "all_calls st = flushed_calls (effects st) @ queue_calls (queue st)"

definition with_ids :: "nat \<Rightarrow> jsval list \<Rightarrow> js_fun option \<Rightarrow> js_fun option \<Rightarrow> jsval list" where
  "with_ids n ps onFail onSucc =
     ps @ (if onFail \<noteq> None then [JNumber (Finite (of_int (fail_id n)))] else [])
        @ (if onSucc \<noteq> None then [JNumber (Finite (of_int (succ_id n)))] else [])"

lemma flushed_calls_append [simp]: "flushed_calls (es @ fs) = flushed_calls es @ flushed_calls fs"
  by (induction es rule: flushed_calls.induct) auto

lemma queue_calls_push:
  "aligned q \<Longrightarrow>
   queue_calls (q\<lparr>moduleIDs := moduleIDs q @ [m], methodIDs := methodIDs q @ [k], params := params q @ [ps]\<rparr>)
   = queue_calls q @ [(m, k, ps)]"
  by (simp add: aligned_def queue_calls_def)

lemma queue_calls_empty [simp]: "queue_calls (empty_queue n) = []" "aligned (empty_queue n)"
  by (simp_all add: queue_calls_def empty_queue_def aligned_def)

lemma warnOnce_frame [simp]:
  "queue (warnOnce k st) = queue st" "callID (warnOnce k st) = callID st"
  "devMode (warnOnce k st) = devMode st" "flushed_calls (effects (warnOnce k st)) = flushed_calls (effects st)"
  "successCallbacks (warnOnce k st) = successCallbacks st"
  "failureCallbacks (warnOnce k st) = failureCallbacks st"
  by (simp_all add: warnOnce_def log_effect_def)

lemma debug_bookkeeping_frame:
  assumes "debug_bookkeeping m k st = Ret u st'"
  shows "queue st' = queue st" "callID st' = callID st" "devMode st' = devMode st"
    "flushed_calls (effects st') = flushed_calls (effects st)"
    "successCallbacks st' = successCallbacks st" "failureCallbacks st' = failureCallbacks st"
  using assms by (auto simp: debug_bookkeeping_def Let_def split: if_splits option.splits)

text \<open>What \<open>processCallbacks\<close> does when it returns, in development and in production.\<close>

lemma next_call_frame [simp]:
  "queue (next_call st) = queue st" "callID (next_call st) = Suc (callID st)"
  "devMode (next_call st) = devMode st" "spy (next_call st) = spy st"
  "nativeFlushQueueImmediate (next_call st) = nativeFlushQueueImmediate st"
  "flushed_calls (effects (next_call st)) = flushed_calls (effects st)"
  "successCallbacks (next_call st) = successCallbacks st"
  "failureCallbacks (next_call st) = failureCallbacks st"
  by (simp_all add: next_call_def log_effect_def Let_def)

lemma callback_phase_spec:
  assumes "callback_phase m k ps onFail onSucc st = Ret ps' st'"
  shows "ps' = with_ids (callID st) ps onFail onSucc \<and> callID st' = callID st \<and>
    queue st' = queue st \<and> devMode st' = devMode st \<and>
    flushed_calls (effects st') = flushed_calls (effects st) \<and>
    (onFail \<noteq> None \<or> onSucc \<noteq> None \<longrightarrow>
       successCallbacks st' = AList.update (callID st) onSucc (successCallbacks st) \<and>
       failureCallbacks st' = AList.update (callID st) onFail (failureCallbacks st))"
proof (cases "onFail \<noteq> None \<or> onSucc \<noteq> None")
  case True
  then obtain st1 where st1: "(if devMode st then debug_bookkeeping m k st else Ret () st) = Ret () st1"
    and st': "ps' = fst (registerCallbacks ps onFail onSucc st1)" "st' = snd (registerCallbacks ps onFail onSucc st1)"
    using assms by (auto simp: callback_phase_def and_then_Ret_iff)
  have "queue st1 = queue st \<and> callID st1 = callID st \<and> devMode st1 = devMode st \<and>
    flushed_calls (effects st1) = flushed_calls (effects st) \<and>
    successCallbacks st1 = successCallbacks st \<and> failureCallbacks st1 = failureCallbacks st"
  proof (cases "devMode st")
    case True
    with st1 have "debug_bookkeeping m k st = Ret () st1" by simp
    from debug_bookkeeping_frame [OF this] show ?thesis by simp
  qed (use st1 in simp)
  with st' show ?thesis by (simp add: registerCallbacks_def with_ids_def)
next
  case False
  with assms show ?thesis by (simp add: callback_phase_def with_ids_def)
qed

lemma processCallbacks_spec:
  assumes "processCallbacks m k ps onFail onSucc st = Ret ps' st'"
  shows "ps' = with_ids (callID st) ps onFail onSucc" "callID st' = Suc (callID st)"
    "queue st' = queue st" "devMode st' = devMode st"
    "flushed_calls (effects st') = flushed_calls (effects st)"
    "onFail \<noteq> None \<or> onSucc \<noteq> None \<Longrightarrow>
       successCallbacks st' = AList.update (callID st) onSucc (successCallbacks st) \<and>
       failureCallbacks st' = AList.update (callID st) onFail (failureCallbacks st)"
proof -
  from assms obtain st1 where "callback_phase m k ps onFail onSucc st = Ret ps' st1" "st' = next_call st1"
    by (auto simp: processCallbacks_def and_then_Ret_iff)
  with callback_phase_spec [OF this(1)] show "ps' = with_ids (callID st) ps onFail onSucc"
    "callID st' = Suc (callID st)" "queue st' = queue st" "devMode st' = devMode st"
    "flushed_calls (effects st') = flushed_calls (effects st)"
    "onFail \<noteq> None \<or> onSucc \<noteq> None \<Longrightarrow>
       successCallbacks st' = AList.update (callID st) onSucc (successCallbacks st) \<and>
       failureCallbacks st' = AList.update (callID st) onFail (failureCallbacks st)"
    by simp_all
qed

lemma processCallbacks_prod: "\<not> devMode st \<Longrightarrow> \<exists>ps' st'. processCallbacks m k ps onFail onSucc st = Ret ps' st'"
  by (simp add: processCallbacks_def callback_phase_def)

lemma processCallbacks_none: "processCallbacks m k ps None None st = Ret ps (next_call st)"
  by (simp add: processCallbacks_def callback_phase_def)

lemma flush_if_due_calls [simp]:
  "all_calls (flush_if_due st) = all_calls st" "callID (flush_if_due st) = callID st"
  "devMode (flush_if_due st) = devMode st"
  "aligned (queue st) \<Longrightarrow> aligned (queue (flush_if_due st))"
  by (simp_all add: flush_if_due_def all_calls_def log_effect_def)

lemma spy_native_call_calls:
  assumes "spy_native_call m k ps st = Ret u st'"
  shows "all_calls st' = all_calls st" "callID st' = callID st" "devMode st' = devMode st"
    "queue st' = queue st"
  using assms by (auto simp: spy_native_call_def log_effect_def all_calls_def split: if_splits option.splits)

lemma push_call:
  assumes "aligned (queue st)"
  shows "all_calls (push_params ps (push_ids m k st)) = all_calls st @ [(m, k, ps)]"
    "aligned (queue (push_params ps (push_ids m k st)))"
    "callID (push_params ps (push_ids m k st)) = callID st"
    "devMode (push_params ps (push_ids m k st)) = devMode st"
  using assms queue_calls_push [OF assms]
  by (simp_all add: push_params_def push_ids_def all_calls_def aligned_def)

lemma enqueueNativeCall_spec:
  assumes al: "aligned (queue st)" and ret: "enqueueNativeCall m k ps onFail onSucc st = Ret u st'"
  shows "all_calls st' = all_calls st @ [(m, k, with_ids (callID st) ps onFail onSucc)]"
    "aligned (queue st')" "callID st' = Suc (callID st)" "devMode st' = devMode st"
proof -
  from ret obtain ps1 st1 where p: "processCallbacks m k ps onFail onSucc st = Ret ps1 st1"
    and s: "spy_native_call m k ps1 (flush_if_due (push_params ps1 (push_ids m k st1))) = Ret u st'"
    by (auto simp: enqueueNativeCall_def Let_def and_then_Ret_iff split: if_splits)
  note p' = processCallbacks_spec [OF p] and s' = spy_native_call_calls [OF s]
  have al1: "aligned (queue st1)" and c1: "all_calls st1 = all_calls st"
    using al p' by (simp_all add: all_calls_def)
  note q = push_call [OF al1, of ps1 m k]
  show "all_calls st' = all_calls st @ [(m, k, with_ids (callID st) ps onFail onSucc)]"
    "aligned (queue st')" "callID st' = Suc (callID st)" "devMode st' = devMode st"
    using s' q p' c1 by simp_all
qed

lemma enqueueNativeCall_prod:
  assumes "\<not> devMode st"
  shows "\<exists>st'. enqueueNativeCall m k ps onFail onSucc st = Ret () st'"
proof -
  obtain ps1 st1 where "processCallbacks m k ps onFail onSucc st = Ret ps1 st1"
    using processCallbacks_prod [OF assms] by blast
  moreover from this have "\<not> devMode st1" using processCallbacks_spec(4) assms by blast
  ultimately show ?thesis
    by (simp add: enqueueNativeCall_def spy_native_call_def push_ids_def push_params_def
        flush_if_due_def log_effect_def Let_def)
qed

type_synonym pending_call = "int \<times> int \<times> jsval list \<times> js_fun option \<times> js_fun option"

fun enqueue_all :: "pending_call list \<Rightarrow> ('m, 'z) mq_scheme \<Rightarrow> (js_exn, ('m, 'z) mq_scheme, unit) outcome" where
  "enqueue_all [] st = Ret () st"
| "enqueue_all ((m, k, ps, onFail, onSucc) # cs) st =
     and_then (enqueueNativeCall m k ps onFail onSucc st) (\<lambda>_. enqueue_all cs)"

fun expected_calls :: "nat \<Rightarrow> pending_call list \<Rightarrow> native_call_args list" where
  "expected_calls n [] = []"
| "expected_calls n ((m, k, ps, onFail, onSucc) # cs) =
     (m, k, with_ids n ps onFail onSucc) # expected_calls (Suc n) cs"


text \<open>
  In development a call whose parameters are rejected leaves its module and method
  numbers in the queue without parameters; the parameters of the next accepted call are then
  paired with the rejected call's method.
\<close>

theorem rejected_call_shifts_queue:
  assumes dm: "devMode st" "\<not> spy st" "\<not> nativeFlushQueueImmediate st" and al: "aligned (queue st)"
    and bad: "\<not> valid_params ps1" and ok: "valid_params ps2"
  shows "\<exists>e st1 st2. enqueueNativeCall m1 k1 ps1 None None st = Throw e st1 \<and>
           enqueueNativeCall m2 k2 ps2 None None st1 = Ret () st2 \<and>
           queue_calls (queue st2) = queue_calls (queue st) @ [(m1, k1, ps2)]"
proof -
  let ?s1 = "push_ids m1 k1 (next_call st)"
  let ?s2 = "push_params ps2 (push_ids m2 k2 (next_call ?s1))"
  have e1: "enqueueNativeCall m1 k1 ps1 None None st =
      Throw (InvariantViolation ''%s is not usable as a native method argument'') ?s1"
    using dm bad by (simp add: enqueueNativeCall_def processCallbacks_none push_ids_def)
  have e2: "enqueueNativeCall m2 k2 ps2 None None ?s1 = Ret () ?s2"
    using dm ok by (simp add: enqueueNativeCall_def processCallbacks_none push_ids_def push_params_def
        flush_if_due_def spy_native_call_def Let_def)
  have "queue_calls (queue ?s2) = queue_calls (queue st) @ [(m1, k1, ps2)]"
    using al by (simp add: push_ids_def push_params_def queue_calls_def aligned_def)
  with e1 e2 show ?thesis by blast
qed

section \<open>What the bridge leaves alone\<close>

text \<open>Records that extend the bridge keep their own fields through a native call.\<close>

lemma more_simple [simp]:
  "mq.more (log_effect e st) = mq.more st" "mq.more (warnOnce k st) = mq.more st"
  "mq.more (push_ids m k' st) = mq.more st" "mq.more (push_params ps st) = mq.more st"
  "mq.more (flush_if_due st) = mq.more st" "mq.more (next_call st) = mq.more st"
  "mq.more (snd (registerCallbacks ps f g st)) = mq.more st"
  by (simp_all add: log_effect_def warnOnce_def push_ids_def push_params_def flush_if_due_def
      next_call_def registerCallbacks_def Let_def)

lemma more_debug_bookkeeping [simp]: "mq.more (out_state (debug_bookkeeping m k st)) = mq.more st"
  by (simp add: debug_bookkeeping_def Let_def split: option.split)

lemma more_callback_phase [simp]: "mq.more (out_state (callback_phase m k ps f g st)) = mq.more st"
  by (simp add: callback_phase_def and_then_frame [where v = mq.more])

lemma more_processCallbacks [simp]: "mq.more (out_state (processCallbacks m k ps f g st)) = mq.more st"
  by (simp add: processCallbacks_def and_then_frame [where v = mq.more])

lemma more_spy_native_call [simp]: "mq.more (out_state (spy_native_call m k ps st)) = mq.more st"
  by (simp add: spy_native_call_def split: option.split)

lemma more_enqueueNativeCall [simp]: "mq.more (out_state (enqueueNativeCall m k ps f g st)) = mq.more st"
  by (simp add: enqueueNativeCall_def Let_def and_then_frame [where v = mq.more])

lemma enqueueNativeCall_callbacks:
  assumes "enqueueNativeCall m k ps onFail onSucc st = Ret u st'" and "onFail \<noteq> None \<or> onSucc \<noteq> None"
  shows "successCallbacks st' = AList.update (callID st) onSucc (successCallbacks st)"
    "failureCallbacks st' = AList.update (callID st) onFail (failureCallbacks st)"
proof -
  from assms(1) obtain ps1 st1 where p: "processCallbacks m k ps onFail onSucc st = Ret ps1 st1"
    and s: "spy_native_call m k ps1 (flush_if_due (push_params ps1 (push_ids m k st1))) = Ret u st'"
    by (auto simp: enqueueNativeCall_def Let_def and_then_Ret_iff split: if_splits)
  from s have "successCallbacks st' = successCallbacks st1 \<and> failureCallbacks st' = failureCallbacks st1"
    by (auto simp: spy_native_call_def log_effect_def flush_if_due_def push_params_def push_ids_def
        split: if_splits option.splits)
  with processCallbacks_spec(6) [OF p] assms(2)
  show "successCallbacks st' = AList.update (callID st) onSucc (successCallbacks st)"
    "failureCallbacks st' = AList.update (callID st) onFail (failureCallbacks st)"
    by auto
qed

section \<open>Callbacks fire at most once\<close>

lemma get_callback_update [simp]: "get_callback n (AList.update n f m) = f"
  by (simp add: get_callback_def update_conv')

lemma get_callback_delete [simp]: "get_callback n (AList.delete n m) = None"
  by (simp add: get_callback_def delete_conv')

lemma get_callback_delete_other: "n \<noteq> k \<Longrightarrow> get_callback n (AList.delete k m) = get_callback n m"
  by (simp add: get_callback_def delete_conv')


text \<open>
  In development the bookkeeping deletes the entry \<open>callID - 32\<close> only when
  \<open>callID > 32\<close>, so the entry of the very first call is never evicted.
\<close>

lemma debug_entry_zero_stays:
  assumes "debugInfo st 0 = Some d" and "0 < callID st"
    and "debug_bookkeeping m k st = Ret u st'"
  shows "debugInfo st' 0 = Some d"
  using assms
  by (auto simp: debug_bookkeeping_def DEBUG_INFO_LIMIT_def warnOnce_def log_effect_def Let_def
      split: if_splits option.splits)

section \<open>Examples\<close>


theorem rejected_call_shifts_queue_witness:
  "\<exists>e st1 st2. enqueueNativeCall 1 1 [JNumber NaN] None None (new_MessageQueue True False False 0 :: unit mq) = Throw e st1 \<and>
     enqueueNativeCall 2 2 [JString ''x''] None None st1 = Ret () st2 \<and>
     queue_calls (queue st2) = [(1, 1, [JString ''x''])]"
  using rejected_call_shifts_queue [of "new_MessageQueue True False False 0 :: unit mq" "[JNumber NaN]" "[JString ''x'']" 1 1 2 2]
  by (simp add: new_MessageQueue_def valid_params_def)

definition ex_mq_env :: "(unit, unit) mq_env" where
  "ex_mq_env = \<lparr>call_fun = (\<lambda>f args st. Ret () (st\<lparr>warnedKeys := ''called'' # warnedKeys st\<rparr>)),
     run_factory = (\<lambda>_ st. Ret () st), method_of = (\<lambda>_ _. None),
     reportFatalError = (\<lambda>_ st. Ret () st), sync_hook = (\<lambda>_ _ _ st. Ret JUndefined st)\<rparr>"


end
