(* ===== verification/JSTimers.thy ===== *)
theory JSTimers
  imports JSValue
begin

text \<open>
  \<open>Libraries/Core/Timers/JSTimers.js\<close>: timers, immediates, animation frames and idle
  callbacks, driven by native.

  The module's variables are one record, the three parallel arrays \<open>callbacks\<close>,
  \<open>types\<close> and \<open>timerIDs\<close> kept as three lists.  What the module asks of
  \<open>NativeTiming\<close> is logged.  The functions passed to \<open>setTimeout\<close> and its kin are user
  code: the parameter \<open>run\<close> gives the effect of one call on the whole state.  The closures
  the module itself creates are the constructors of \<open>timer_fun\<close>.

  \<open>_callTimer\<close> can re-enter itself through the closure of an idle callback's timeout; the
  argument \<open>depth\<close> is the call stack that is left, and running out of it is the
  \<open>RangeError\<close> of the engine.  \<open>IDLE_DEPTH\<close> frames suffice in every well-formed state
  (\<open>runCallback_depth_enough\<close>).  The loop of \<open>callImmediates\<close> need not end, since a
  callback may keep queueing immediates, so it is a partial function.
\<close>

section \<open>State\<close>

datatype timer_type = SetTimeout | SetInterval | RequestAnimationFrame | SetImmediate | RequestIdleCallback

datatype 'f timer_fun = UserFn 'f | ThrowFn js_exn | IdleFn nat 'f | IdleTimeoutFn nat

datatype timer_arg = NoArg | Now real | Deadline real bool

datatype timing_call =
    CreateTimer nat js_number int bool
  | DeleteTimer nat
  | SetSendIdleEvents bool
  | ConsoleWarn string
  | ConsoleError string

record 'f timers =
  tm_callbacks :: "'f timer_fun option list"
  tm_types :: "timer_type option list"
  tm_ids :: "nat option list"
  immediates :: "nat list"
  requestIdleCallbacks :: "nat list"
  requestIdleCallbackTimeouts :: "nat \<rightharpoonup> nat"
  GUID :: nat
  tm_errors :: "js_exn list option"
  hasEmittedTimeDriftWarning :: bool
  hasNativeTiming :: bool
  tm_dev :: bool
  isAndroid :: bool
  dateNow :: int
  performanceNow :: real
  timing_log :: "timing_call list"

type_synonym 'f timer_user = "'f \<Rightarrow> timer_arg \<Rightarrow> 'f timers \<Rightarrow> (js_exn, 'f timers, unit) outcome"

definition init_timers :: "'f timers" where
  "init_timers = \<lparr>tm_callbacks = [], tm_types = [], tm_ids = [], immediates = [],
     requestIdleCallbacks = [], requestIdleCallbackTimeouts = Map.empty, GUID = 1,
     tm_errors = None, hasEmittedTimeDriftWarning = False, hasNativeTiming = True, tm_dev = False,
     isAndroid = False, dateNow = 0, performanceNow = 0, timing_log = []\<rparr>"

definition FRAME_DURATION :: real where "FRAME_DURATION = 1000 / 60"
definition IDLE_CALLBACK_FRAME_DEADLINE :: real where "IDLE_CALLBACK_FRAME_DEADLINE = 1"
definition MAX_TIMER_DURATION_MS :: real where "MAX_TIMER_DURATION_MS = 60 * 1000"
definition IDLE_DEPTH :: nat where "IDLE_DEPTH = 2"

definition log_timing :: "timing_call \<Rightarrow> 'f timers \<Rightarrow> 'f timers" where
  "log_timing c st = st\<lparr>timing_log := timing_log st @ [c]\<rparr>"

section \<open>The table of timers\<close>

definition getFreeIndex :: "'f timers \<Rightarrow> nat" where
  "getFreeIndex st = (case index_of (tm_ids st) None of None \<Rightarrow> length (tm_ids st) | Some i \<Rightarrow> i)"

text \<open>An assignment \<open>xs[i] = v\<close> to an array with \<open>i\<close> at most its length.\<close>

definition array_set :: "nat \<Rightarrow> 'a \<Rightarrow> 'a list \<Rightarrow> 'a list" where
  "array_set i v xs = (if i < length xs then xs[i := v] else xs @ [v])"

definition allocateCallback :: "'f timer_fun \<Rightarrow> timer_type \<Rightarrow> 'f timers \<Rightarrow> nat \<times> 'f timers" where
  "allocateCallback func ty st =
     (let tid = GUID st;
          st1 = st\<lparr>GUID := Suc tid\<rparr>;
          i = getFreeIndex st1
      in (tid, st1\<lparr>tm_ids := array_set i (Some tid) (tm_ids st1),
                  tm_callbacks := array_set i (Some func) (tm_callbacks st1),
                  tm_types := array_set i (Some ty) (tm_types st1)\<rparr>))"

definition clearIndex :: "nat \<Rightarrow> 'f timers \<Rightarrow> 'f timers" where
  "clearIndex i st = st\<lparr>tm_ids := (tm_ids st)[i := None], tm_callbacks := (tm_callbacks st)[i := None],
                        tm_types := (tm_types st)[i := None]\<rparr>"

section \<open>Requests to NativeTiming\<close>

definition native_timing :: "timing_call \<Rightarrow> 'f timers \<Rightarrow> (js_exn, 'f timers, unit) outcome" where
  "native_timing c st =
     (if hasNativeTiming st then Ret () (log_timing c st)
      else Throw (InvariantViolation ''NativeTiming is available'') st)"

definition createTimer :: "nat \<Rightarrow> js_number \<Rightarrow> int \<Rightarrow> bool \<Rightarrow> 'f timers \<Rightarrow> (js_exn, 'f timers, unit) outcome" where
  "createTimer callbackID duration jsSchedulingTime repeats =
     native_timing (CreateTimer callbackID duration jsSchedulingTime repeats)"

definition deleteTimer :: "nat \<Rightarrow> 'f timers \<Rightarrow> (js_exn, 'f timers, unit) outcome" where
  "deleteTimer timerID = native_timing (DeleteTimer timerID)"

definition setSendIdleEvents :: "bool \<Rightarrow> 'f timers \<Rightarrow> (js_exn, 'f timers, unit) outcome" where
  "setSendIdleEvents b = native_timing (SetSendIdleEvents b)"

definition freeCallback :: "nat option \<Rightarrow> 'f timers \<Rightarrow> (js_exn, 'f timers, unit) outcome" where
  "freeCallback timerID st =
     (case timerID of
        None \<Rightarrow> Ret () st
      | Some tid \<Rightarrow>
          (case index_of (tm_ids st) (Some tid) of
             None \<Rightarrow> Ret () st
           | Some i \<Rightarrow>
               let ty = tm_types st ! i;
                   st1 = clearIndex i st
               in if ty \<noteq> Some SetImmediate \<and> ty \<noteq> Some RequestIdleCallback
                  then deleteTimer tid st1 else Ret () st1))"

section \<open>Setting and clearing timers\<close>

text \<open>\<open>duration || 0\<close> and \<open>duration > MAX_TIMER_DURATION_MS\<close>\<close>

definition duration_or_zero :: "js_number \<Rightarrow> js_number" where
  "duration_or_zero d = (if d = NaN then Finite 0 else d)"

fun too_long :: "js_number \<Rightarrow> bool" where
  "too_long (Finite d) = (d > MAX_TIMER_DURATION_MS)"
| "too_long Infinity = True"
| "too_long _ = False"

definition warn_long_timer :: "string \<Rightarrow> js_number \<Rightarrow> 'f timers \<Rightarrow> 'f timers" where
  "warn_long_timer name duration st =
     (if tm_dev st \<and> isAndroid st \<and> too_long duration
      then log_timing (ConsoleWarn (''Setting a timer for a long period of time (Saw '' @ name @ '')'')) st
      else st)"

definition setTimeout :: "'f timer_fun \<Rightarrow> js_number \<Rightarrow> 'f timers \<Rightarrow> (js_exn, 'f timers, nat) outcome" where
  "setTimeout func duration st =
     (case allocateCallback func SetTimeout (warn_long_timer ''setTimeout'' duration st) of (tid, st1) \<Rightarrow>
        and_then (createTimer tid (duration_or_zero duration) (dateNow st1) False st1) (\<lambda>_ st2. Ret tid st2))"

definition setInterval :: "'f timer_fun \<Rightarrow> js_number \<Rightarrow> 'f timers \<Rightarrow> (js_exn, 'f timers, nat) outcome" where
  "setInterval func duration st =
     (case allocateCallback func SetInterval (warn_long_timer ''setInterval'' duration st) of (tid, st1) \<Rightarrow>
        and_then (createTimer tid (duration_or_zero duration) (dateNow st1) True st1) (\<lambda>_ st2. Ret tid st2))"

definition setImmediate :: "'f timer_fun \<Rightarrow> 'f timers \<Rightarrow> nat \<times> 'f timers" where
  "setImmediate func st =
     (case allocateCallback func SetImmediate st of (tid, st1) \<Rightarrow>
        (tid, st1\<lparr>immediates := immediates st1 @ [tid]\<rparr>))"

definition requestAnimationFrame :: "'f timer_fun \<Rightarrow> 'f timers \<Rightarrow> (js_exn, 'f timers, nat) outcome" where
  "requestAnimationFrame func st =
     (case allocateCallback func RequestAnimationFrame st of (tid, st1) \<Rightarrow>
        and_then (createTimer tid (Finite 1) (dateNow st1) False st1) (\<lambda>_ st2. Ret tid st2))"

definition requestIdleCallback ::
  "'f \<Rightarrow> js_number option \<Rightarrow> 'f timers \<Rightarrow> (js_exn, 'f timers, nat) outcome" where
  "requestIdleCallback func timeout st =
     and_then (if requestIdleCallbacks st = [] then setSendIdleEvents True st else Ret () st) (\<lambda>_ st1.
       let (tid, st2) = allocateCallback
             (case timeout of None \<Rightarrow> UserFn func | Some _ \<Rightarrow> IdleFn (GUID st1) func)
             RequestIdleCallback st1;
           st3 = st2\<lparr>requestIdleCallbacks := requestIdleCallbacks st2 @ [tid]\<rparr>
       in case timeout of
            None \<Rightarrow> Ret tid st3
          | Some t \<Rightarrow> and_then (setTimeout (IdleTimeoutFn tid) t st3) (\<lambda>timeoutId st4.
              Ret tid (st4\<lparr>requestIdleCallbackTimeouts :=
                 (requestIdleCallbackTimeouts st4)(tid \<mapsto> timeoutId)\<rparr>)))"

definition clearTimeout :: "nat option \<Rightarrow> 'f timers \<Rightarrow> (js_exn, 'f timers, unit) outcome" where
  "clearTimeout timerID = freeCallback timerID"

definition clearInterval :: "nat option \<Rightarrow> 'f timers \<Rightarrow> (js_exn, 'f timers, unit) outcome" where
  "clearInterval timerID = freeCallback timerID"

definition cancelAnimationFrame :: "nat option \<Rightarrow> 'f timers \<Rightarrow> (js_exn, 'f timers, unit) outcome" where
  "cancelAnimationFrame timerID = freeCallback timerID"

definition clearImmediate :: "nat \<Rightarrow> 'f timers \<Rightarrow> (js_exn, 'f timers, unit) outcome" where
  "clearImmediate timerID st =
     and_then (freeCallback (Some timerID) st) (\<lambda>_ st1.
       Ret () (st1\<lparr>immediates := splice_out timerID (immediates st1)\<rparr>))"

definition clear_idle_timeout :: "nat \<Rightarrow> 'f timers \<Rightarrow> (js_exn, 'f timers, unit) outcome" where
  "clear_idle_timeout tid st =
     (case requestIdleCallbackTimeouts st tid of
        None \<Rightarrow> Ret () st
      | Some timeoutId \<Rightarrow> and_then (clearTimeout (Some timeoutId) st) (\<lambda>_ st1.
          Ret () (st1\<lparr>requestIdleCallbackTimeouts := (requestIdleCallbackTimeouts st1)(tid := None)\<rparr>)))"

definition cancelIdleCallback :: "nat \<Rightarrow> 'f timers \<Rightarrow> (js_exn, 'f timers, unit) outcome" where
  "cancelIdleCallback timerID st =
     and_then (freeCallback (Some timerID) st) (\<lambda>_ st1.
     and_then (clear_idle_timeout timerID
                 (st1\<lparr>requestIdleCallbacks := splice_out timerID (requestIdleCallbacks st1)\<rparr>)) (\<lambda>_ st2.
       if requestIdleCallbacks st2 = [] then setSendIdleEvents False st2 else Ret () st2))"

section \<open>Firing timers\<close>

definition push_error :: "js_exn \<Rightarrow> 'f timers \<Rightarrow> 'f timers" where
  "push_error e st =
     st\<lparr>tm_errors := Some (case tm_errors st of None \<Rightarrow> [e] | Some es \<Rightarrow> es @ [e])\<rparr>"

fun timer_arg_for :: "timer_type \<Rightarrow> real \<Rightarrow> bool \<Rightarrow> 'f timers \<Rightarrow> timer_arg" where
  "timer_arg_for SetTimeout ft d st = NoArg"
| "timer_arg_for SetInterval ft d st = NoArg"
| "timer_arg_for SetImmediate ft d st = NoArg"
| "timer_arg_for RequestAnimationFrame ft d st = Now (performanceNow st)"
| "timer_arg_for RequestIdleCallback ft d st = Deadline ft d"

text \<open>\<open>timeRemaining()\<close> of the deadline object handed to an idle callback.\<close>

definition timeRemaining :: "real \<Rightarrow> 'f timers \<Rightarrow> real" where
  "timeRemaining frameTime st = max 0 (FRAME_DURATION - (performanceNow st - frameTime))"

text \<open>
  \<open>_callTimer\<close>, with the way a closure is run as an argument; it never throws, the errors
  of callbacks are collected.
\<close>

definition callTimer_with ::
  "('f timer_fun \<Rightarrow> timer_arg \<Rightarrow> 'f timers \<Rightarrow> (js_exn, 'f timers, unit) outcome) \<Rightarrow>
   nat \<Rightarrow> real \<Rightarrow> bool \<Rightarrow> 'f timers \<Rightarrow> 'f timers" where
  "callTimer_with exec timerID frameTime didTimeout st0 =
     (let st = (if timerID \<le> GUID st0 then st0
                else log_timing (ConsoleWarn ''Tried to call timer but no such timer exists.'') st0)
      in case index_of (tm_ids st) (Some timerID) of
           None \<Rightarrow> st
         | Some i \<Rightarrow>
             (case (tm_types st ! i, tm_callbacks st ! i) of
                (Some ty, Some callback) \<Rightarrow>
                  let st1 = (if ty \<noteq> SetInterval then clearIndex i st else st)
                  in (case exec callback (timer_arg_for ty frameTime didTimeout st1) st1 of
                        Ret _ st2 \<Rightarrow> st2
                      | Throw e st2 \<Rightarrow> push_error e st2)
              | _ \<Rightarrow> log_timing (ConsoleError ''No callback found for timerID'') st))"

fun runCallback ::
  "nat \<Rightarrow> 'f timer_user \<Rightarrow> 'f timer_fun \<Rightarrow> timer_arg \<Rightarrow> 'f timers \<Rightarrow> (js_exn, 'f timers, unit) outcome" where
  "runCallback 0 run f arg st = Throw (JsError ''Maximum call stack size exceeded'') st"
| "runCallback (Suc depth) run (UserFn f) arg st = run f arg st"
| "runCallback (Suc depth) run (ThrowFn e) arg st = Throw e st"
| "runCallback (Suc depth) run (IdleFn tid f) arg st =
     and_then (clear_idle_timeout tid st) (\<lambda>_. run f arg)"
| "runCallback (Suc depth) run (IdleTimeoutFn tid) arg st =
     (let st1 = (if tid \<in> set (requestIdleCallbacks st)
                 then callTimer_with (runCallback depth run) tid (performanceNow st) True
                        (st\<lparr>requestIdleCallbacks := splice_out tid (requestIdleCallbacks st)\<rparr>)
                 else st);
          st2 = st1\<lparr>requestIdleCallbackTimeouts := (requestIdleCallbackTimeouts st1)(tid := None)\<rparr>
      in if requestIdleCallbacks st2 = [] then setSendIdleEvents False st2 else Ret () st2)"

definition callTimer :: "'f timer_user \<Rightarrow> nat \<Rightarrow> real \<Rightarrow> bool \<Rightarrow> 'f timers \<Rightarrow> 'f timers" where
  "callTimer run = callTimer_with (runCallback IDLE_DEPTH run)"

definition callTimers_in_order :: "'f timer_user \<Rightarrow> real \<Rightarrow> nat list \<Rightarrow> 'f timers \<Rightarrow> 'f timers" where
  "callTimers_in_order run frameTime ids st = fold (\<lambda>tid. callTimer run tid frameTime False) ids st"

text \<open>\<open>setTimeout(() => { throw error; }, 0)\<close> for a list of errors.\<close>

fun rethrow_later :: "js_exn list \<Rightarrow> 'f timers \<Rightarrow> (js_exn, 'f timers, unit) outcome" where
  "rethrow_later [] st = Ret () st"
| "rethrow_later (e # es) st =
     and_then (setTimeout (ThrowFn e) (Finite 0) st) (\<lambda>_. rethrow_later es)"

definition callTimers :: "'f timer_user \<Rightarrow> nat list \<Rightarrow> 'f timers \<Rightarrow> (js_exn, 'f timers, unit) outcome" where
  "callTimers run timersToCall st =
     (if timersToCall = []
      then Throw (InvariantViolation ''Cannot call `callTimers` with an empty list of IDs.'') st
      else
        let st1 = callTimers_in_order run 0 timersToCall (st\<lparr>tm_errors := None\<rparr>)
        in case tm_errors st1 of
             Some (e # es) \<Rightarrow> and_then (rethrow_later es st1) (\<lambda>_ st2. Throw e st2)
           | _ \<Rightarrow> Ret () st1)"

definition callIdleCallbacks :: "'f timer_user \<Rightarrow> real \<Rightarrow> 'f timers \<Rightarrow> (js_exn, 'f timers, unit) outcome" where
  "callIdleCallbacks run frameTime st =
     (if FRAME_DURATION - (performanceNow st - frameTime) < IDLE_CALLBACK_FRAME_DEADLINE
      then Ret () st
      else
        let st1 = st\<lparr>tm_errors := None\<rparr>;
            st2 = (if requestIdleCallbacks st1 \<noteq> []
                   then callTimers_in_order run frameTime (requestIdleCallbacks st1)
                          (st1\<lparr>requestIdleCallbacks := []\<rparr>)
                   else st1)
        in and_then (if requestIdleCallbacks st2 = [] then setSendIdleEvents False st2 else Ret () st2)
             (\<lambda>_ st3. rethrow_later (case tm_errors st3 of None \<Rightarrow> [] | Some es \<Rightarrow> es) st3))"

text \<open>\<open>_callImmediatesPass\<close>\<close>

definition callImmediatesPass :: "'f timer_user \<Rightarrow> 'f timers \<Rightarrow> bool \<times> 'f timers" where
  "callImmediatesPass run st =
     (if immediates st = [] then (False, st)
      else let st1 = callTimers_in_order run 0 (immediates st) (st\<lparr>immediates := []\<rparr>)
           in (immediates st1 \<noteq> [], st1))"

partial_function (option) immediates_loop :: "'f timer_user \<Rightarrow> 'f timers \<Rightarrow> 'f timers option" where
  "immediates_loop run st =
     (if fst (callImmediatesPass run st)
      then immediates_loop run (snd (callImmediatesPass run st))
      else Some (snd (callImmediatesPass run st)))"

definition callImmediates ::
  "'f timer_user \<Rightarrow> 'f timers \<Rightarrow> (js_exn, 'f timers, unit) outcome option" where
  "callImmediates run st =
     map_option (\<lambda>st1. rethrow_later (case tm_errors st1 of None \<Rightarrow> [] | Some es \<Rightarrow> es) st1)
       (immediates_loop run (st\<lparr>tm_errors := None\<rparr>))"

definition emitTimeDriftWarning :: "string \<Rightarrow> 'f timers \<Rightarrow> 'f timers" where
  "emitTimeDriftWarning msg st =
     (if hasEmittedTimeDriftWarning st then st
      else log_timing (ConsoleWarn msg) (st\<lparr>hasEmittedTimeDriftWarning := True\<rparr>))"

section \<open>The timer table contract\<close>

text \<open>
  What the rest of the module relies on: a finite map from identifiers to timers, with
  identifiers handed out in increasing order and never reused.
\<close>

locale timer_table =
  fixes inv :: "'s \<Rightarrow> bool"
    and lookup :: "'s \<Rightarrow> nat \<Rightarrow> 'v option"
    and next_id :: "'s \<Rightarrow> nat"
    and alloc :: "'v \<Rightarrow> 's \<Rightarrow> nat \<times> 's"
    and free :: "nat \<Rightarrow> 's \<Rightarrow> 's"
  assumes lookup_bound: "inv s \<Longrightarrow> lookup s i \<noteq> None \<Longrightarrow> i < next_id s"
    and alloc_id: "inv s \<Longrightarrow> fst (alloc v s) = next_id s"
    and alloc_inv: "inv s \<Longrightarrow> inv (snd (alloc v s))"
    and alloc_next: "inv s \<Longrightarrow> next_id (snd (alloc v s)) = Suc (next_id s)"
    and alloc_lookup: "inv s \<Longrightarrow> lookup (snd (alloc v s)) = (lookup s)(next_id s \<mapsto> v)"
    and free_inv: "inv s \<Longrightarrow> inv (free i s)"
    and free_next: "inv s \<Longrightarrow> next_id (free i s) = next_id s"
    and free_lookup: "inv s \<Longrightarrow> lookup (free i s) = (lookup s)(i := None)"
begin

definition retires :: "'s \<Rightarrow> 's \<Rightarrow> bool" where
  "retires s t \<longleftrightarrow> inv t \<and> next_id s \<le> next_id t \<and>
     (\<forall>i < next_id s. lookup s i = None \<longrightarrow> lookup t i = None)"

lemma retires_refl: "inv s \<Longrightarrow> retires s s"
  by (simp add: retires_def)

lemma retires_trans: "retires s t \<Longrightarrow> retires t u \<Longrightarrow> retires s u"
  unfolding retires_def by (meson le_trans less_le_trans)

lemma retires_alloc: "inv s \<Longrightarrow> retires s (snd (alloc v s))"
  by (simp add: retires_def alloc_inv alloc_next alloc_lookup)

lemma retires_free: "inv s \<Longrightarrow> retires s (free i s)"
  by (simp add: retires_def free_inv free_next free_lookup)

lemma retires_dead: "retires s t \<Longrightarrow> i < next_id s \<Longrightarrow> lookup s i = None \<Longrightarrow> lookup t i = None"
  by (simp add: retires_def)

lemma alloc_free: "inv s \<Longrightarrow> lookup (free (fst (alloc v s)) (snd (alloc v s))) = lookup s"
proof -
  assume "inv s"
  moreover from this have "lookup s (next_id s) = None" using lookup_bound [of s "next_id s"] by blast
  ultimately show ?thesis
    by (simp add: free_lookup alloc_inv alloc_lookup alloc_id fun_upd_idem)
qed

end

section \<open>The parallel arrays keep the contract\<close>

definition slots_aligned :: "'f timers \<Rightarrow> bool" where
  "slots_aligned st \<longleftrightarrow>
     length (tm_callbacks st) = length (tm_ids st) \<and> length (tm_types st) = length (tm_ids st) \<and>
     (\<forall>i < length (tm_ids st). (tm_callbacks st ! i = None \<longleftrightarrow> tm_ids st ! i = None) \<and>
        (tm_types st ! i = None \<longleftrightarrow> tm_ids st ! i = None))"

definition ids_fresh :: "'f timers \<Rightarrow> bool" where
  "ids_fresh st \<longleftrightarrow>
     (\<forall>i j. i < length (tm_ids st) \<longrightarrow> j < length (tm_ids st) \<longrightarrow> tm_ids st ! i = tm_ids st ! j \<longrightarrow>
        tm_ids st ! i \<noteq> None \<longrightarrow> i = j) \<and>
     (\<forall>k \<in> set (present (tm_ids st)). k < GUID st)"

definition table_ok :: "'f timers \<Rightarrow> bool" where
  "table_ok st \<longleftrightarrow> slots_aligned st \<and> ids_fresh st"

definition slot :: "'f timers \<Rightarrow> nat \<Rightarrow> nat \<Rightarrow> (timer_type \<times> 'f timer_fun) \<Rightarrow> bool" where
  "slot st i k v \<longleftrightarrow> i < length (tm_ids st) \<and> tm_ids st ! i = Some k \<and>
     tm_types st ! i = Some (fst v) \<and> tm_callbacks st ! i = Some (snd v)"

definition timer_lookup :: "'f timers \<Rightarrow> nat \<Rightarrow> (timer_type \<times> 'f timer_fun) option" where
  "timer_lookup st k =
     (case index_of (tm_ids st) (Some k) of
        None \<Rightarrow> None
      | Some i \<Rightarrow> (case (tm_types st ! i, tm_callbacks st ! i) of
                    (Some ty, Some f) \<Rightarrow> Some (ty, f) | _ \<Rightarrow> None))"

definition timer_free :: "nat \<Rightarrow> 'f timers \<Rightarrow> 'f timers" where
  "timer_free k st =
     (case index_of (tm_ids st) (Some k) of None \<Rightarrow> st | Some i \<Rightarrow> clearIndex i st)"

lemma init_table_ok: "table_ok init_timers"
  by (simp add: table_ok_def slots_aligned_def ids_fresh_def init_timers_def)

lemma lookup_slot:
  assumes ok: "table_ok st"
  shows "timer_lookup st k = Some v \<longleftrightarrow> (\<exists>i. slot st i k v)"
proof
  assume "timer_lookup st k = Some v"
  then obtain i where i: "index_of (tm_ids st) (Some k) = Some i" "tm_types st ! i = Some (fst v)"
    "tm_callbacks st ! i = Some (snd v)"
    by (auto simp: timer_lookup_def split: option.splits)
  with index_of_SomeD [OF i(1)] show "\<exists>i. slot st i k v" by (auto simp: slot_def)
next
  assume "\<exists>i. slot st i k v"
  then obtain i where i: "slot st i k v" ..
  have "tm_ids st ! j \<noteq> Some k" if "j < i" for j
    using ok i that unfolding table_ok_def ids_fresh_def slot_def
    by (metis less_trans nat_neq_iff option.distinct(1))
  then have "Some k \<notin> set (take i (tm_ids st))" by (auto simp: in_set_conv_nth)
  with i have "index_of (tm_ids st) (Some k) = Some i"
    by (simp add: index_of_Some_conv slot_def)
  with i show "timer_lookup st k = Some v" by (simp add: timer_lookup_def slot_def)
qed

lemma lookup_None_index:
  assumes ok: "table_ok st" and "timer_lookup st k = None"
  shows "index_of (tm_ids st) (Some k) = None"
proof (rule ccontr)
  assume "index_of (tm_ids st) (Some k) \<noteq> None"
  then obtain i where i: "index_of (tm_ids st) (Some k) = Some i" by blast
  from index_of_SomeD [OF i] ok obtain ty f where "tm_types st ! i = Some ty" "tm_callbacks st ! i = Some f"
    by (auto simp: table_ok_def slots_aligned_def)
  with i assms(2) show False by (simp add: timer_lookup_def)
qed

lemma lookup_Some_index:
  assumes "timer_lookup st k = Some (ty, f)"
  obtains i where "index_of (tm_ids st) (Some k) = Some i" "tm_types st ! i = Some ty" "tm_callbacks st ! i = Some f"
  using assms that by (auto simp: timer_lookup_def split: option.splits)

lemma lookup_eqI:
  assumes "table_ok st" and "\<And>v. (\<exists>i. slot st i k v) \<longleftrightarrow> m = Some v"
  shows "timer_lookup st k = m"
  using lookup_slot [OF assms(1), of k] assms(2) by (metis option.exhaust)

lemma lookup_bound:
  assumes "table_ok st" and "timer_lookup st k \<noteq> None"
  shows "k < GUID st"
proof -
  from assms obtain v i where "slot st i k v" using lookup_slot [OF assms(1), of k] by blast
  then have "k \<in> set (present (tm_ids st))" by (auto simp: slot_def set_present in_set_conv_nth)
  with assms(1) show ?thesis by (simp add: table_ok_def ids_fresh_def)
qed

subsection \<open>Clearing a slot\<close>

lemma clearIndex_ok:
  assumes ok: "table_ok st"
  shows "table_ok (clearIndex i st)"
proof -
  have "slots_aligned (clearIndex i st)"
    using ok by (auto simp: table_ok_def slots_aligned_def clearIndex_def nth_update_if)
  moreover have "ids_fresh (clearIndex i st)"
    unfolding ids_fresh_def
  proof (intro conjI allI impI ballI)
    fix a b
    assume "a < length (tm_ids (clearIndex i st))" "b < length (tm_ids (clearIndex i st))"
      "tm_ids (clearIndex i st) ! a = tm_ids (clearIndex i st) ! b" "tm_ids (clearIndex i st) ! a \<noteq> None"
    with ok show "a = b"
      by (auto simp: table_ok_def ids_fresh_def clearIndex_def nth_update_if split: if_splits)
  next
    fix k
    assume "k \<in> set (present (tm_ids (clearIndex i st)))"
    then have "Some k \<in> set (tm_ids st)"
      by (auto simp: clearIndex_def set_present dest: set_update_subset_insert [THEN subsetD])
    with ok show "k < GUID (clearIndex i st)"
      by (auto simp: table_ok_def ids_fresh_def clearIndex_def set_present)
  qed
  ultimately show ?thesis by (simp add: table_ok_def)
qed

lemma clearIndex_lookup:
  assumes ok: "table_ok st" and i: "index_of (tm_ids st) (Some k) = Some i"
  shows "timer_lookup (clearIndex i st) = (timer_lookup st)(k := None)"
proof
  fix j
  note d = index_of_SomeD [OF i]
  have len: "length (tm_callbacks st) = length (tm_ids st)" "length (tm_types st) = length (tm_ids st)"
    using ok by (auto simp: table_ok_def slots_aligned_def)
  have "slot (clearIndex i st) a j v \<longleftrightarrow> a \<noteq> i \<and> slot st a j v" for a v
    by (cases "a < length (tm_ids st)") (auto simp: slot_def clearIndex_def nth_update_if len)
  moreover have "a = i \<longleftrightarrow> j = k" if "slot st a j v" for a v
    using that d ok unfolding slot_def table_ok_def ids_fresh_def by (metis option.distinct(1) option.inject)
  ultimately have "slot (clearIndex i st) a j v \<longleftrightarrow> slot st a j v \<and> j \<noteq> k" for a v
    by blast
  then show "timer_lookup (clearIndex i st) j = ((timer_lookup st)(k := None)) j"
    using lookup_slot [OF ok, of j] by (intro lookup_eqI clearIndex_ok ok) auto
qed

lemma timer_free_spec:
  assumes ok: "table_ok st"
  shows "table_ok (timer_free k st)" "timer_lookup (timer_free k st) = (timer_lookup st)(k := None)"
    "GUID (timer_free k st) = GUID st"
proof -
  show "table_ok (timer_free k st)"
    using ok by (simp add: timer_free_def clearIndex_ok split: option.splits)
  show "GUID (timer_free k st) = GUID st"
    by (simp add: timer_free_def clearIndex_def split: option.splits)
  show "timer_lookup (timer_free k st) = (timer_lookup st)(k := None)"
  proof (cases "index_of (tm_ids st) (Some k)")
    case None
    then have "timer_lookup st k = None" by (simp add: timer_lookup_def)
    with None show ?thesis by (simp add: timer_free_def fun_upd_idem)
  next
    case (Some i)
    with clearIndex_lookup [OF ok Some] show ?thesis by (simp add: timer_free_def)
  qed
qed

subsection \<open>Allocating a slot\<close>

lemma getFreeIndex_GUID [simp]: "getFreeIndex (st\<lparr>GUID := n\<rparr>) = getFreeIndex st"
  by (simp add: getFreeIndex_def split: option.splits)

lemma getFreeIndex_free:
  "getFreeIndex st \<le> length (tm_ids st)"
  "getFreeIndex st < length (tm_ids st) \<Longrightarrow> tm_ids st ! getFreeIndex st = None"
  by (cases "index_of (tm_ids st) None"; auto simp: getFreeIndex_def dest: index_of_SomeD)+

lemma array_set_nth:
  "i \<le> length xs \<Longrightarrow> length (array_set i v xs) = max (length xs) (Suc i)"
  "i \<le> length xs \<Longrightarrow> j < length (array_set i v xs) \<Longrightarrow> array_set i v xs ! j = (if j = i then v else xs ! j)"
  by (auto simp: array_set_def nth_append less_Suc_eq)

lemma allocateCallback_slots:
  assumes ok: "table_ok st" and n: "n = snd (allocateCallback f ty st)"
  shows "slot n a k v \<longleftrightarrow> (if a = getFreeIndex st then k = GUID st \<and> v = (ty, f) else slot st a k v)"
proof -
  let ?i = "getFreeIndex st"
  have len: "length (tm_callbacks st) = length (tm_ids st)" "length (tm_types st) = length (tm_ids st)"
    using ok by (auto simp: table_ok_def slots_aligned_def)
  have i: "?i \<le> length (tm_ids st)" by (rule getFreeIndex_free)
  have n': "tm_ids n = array_set ?i (Some (GUID st)) (tm_ids st)"
    "tm_callbacks n = array_set ?i (Some f) (tm_callbacks st)" "tm_types n = array_set ?i (Some ty) (tm_types st)"
    using n by (simp_all add: allocateCallback_def Let_def)
  show ?thesis
    using i len array_set_nth [of ?i "tm_ids st"] array_set_nth [of ?i "tm_callbacks st"]
      array_set_nth [of ?i "tm_types st"] getFreeIndex_free(2) [of st]
    by (cases v) (auto simp: slot_def n')
qed

lemma allocateCallback_ok:
  assumes ok: "table_ok st"
  shows "table_ok (snd (allocateCallback f ty st))"
proof -
  let ?n = "snd (allocateCallback f ty st)" and ?i = "getFreeIndex st"
  have i: "?i \<le> length (tm_ids st)" by (rule getFreeIndex_free)
  have n: "tm_ids ?n = array_set ?i (Some (GUID st)) (tm_ids st)" "GUID ?n = Suc (GUID st)"
    "tm_callbacks ?n = array_set ?i (Some f) (tm_callbacks st)" "tm_types ?n = array_set ?i (Some ty) (tm_types st)"
    by (simp_all add: allocateCallback_def Let_def)
  have nth: "tm_ids ?n ! a = (if a = ?i then Some (GUID st) else tm_ids st ! a)" if "a < length (tm_ids ?n)" for a
    using array_set_nth(2) [OF i] that by (simp add: n)
  have old: "a < length (tm_ids st)" if "a < length (tm_ids ?n)" "a \<noteq> ?i" for a
    using array_set_nth(1) [OF i] that i by (auto simp: n)
  have fresh: "tm_ids st ! a \<noteq> Some (GUID st)" if "a < length (tm_ids st)" for a
    using ok that by (auto simp: table_ok_def ids_fresh_def set_present in_set_conv_nth)
  have "slots_aligned ?n"
    using ok i array_set_nth [of ?i "tm_callbacks st"] array_set_nth [of ?i "tm_types st"]
      array_set_nth [of ?i "tm_ids st"]
    by (auto simp: table_ok_def slots_aligned_def n)
  moreover have "ids_fresh ?n"
    unfolding ids_fresh_def
  proof (intro conjI allI impI ballI)
    fix a b
    assume h: "a < length (tm_ids ?n)" "b < length (tm_ids ?n)" "tm_ids ?n ! a = tm_ids ?n ! b" "tm_ids ?n ! a \<noteq> None"
    show "a = b"
      using h nth [OF h(1)] nth [OF h(2)] old [OF h(1)] old [OF h(2)] fresh [of a] fresh [of b] ok
      by (auto simp: table_ok_def ids_fresh_def split: if_splits)
  next
    fix k
    assume "k \<in> set (present (tm_ids ?n))"
    then obtain a where a: "a < length (tm_ids ?n)" "tm_ids ?n ! a = Some k"
      by (auto simp: set_present in_set_conv_nth)
    then show "k < GUID ?n"
      using nth [OF a(1)] old [OF a(1)] ok n(2)
      by (auto simp: table_ok_def ids_fresh_def set_present in_set_conv_nth less_Suc_eq split: if_splits)
  qed
  ultimately show ?thesis by (simp add: table_ok_def)
qed

lemma allocateCallback_lookup:
  assumes ok: "table_ok st"
  shows "timer_lookup (snd (allocateCallback f ty st)) = (timer_lookup st)(GUID st \<mapsto> (ty, f))"
proof
  fix k
  note s = allocateCallback_slots [OF ok refl, of f ty]
  have free: "\<not> slot st (getFreeIndex st) k v" for k v
    using getFreeIndex_free(2) [of st] by (auto simp: slot_def)
  have "timer_lookup st (GUID st) = None" using lookup_bound [OF ok, of "GUID st"] by blast
  then have none: "\<not> slot st i (GUID st) v" for i v using lookup_slot [OF ok, of "GUID st"] by auto
  show "timer_lookup (snd (allocateCallback f ty st)) k = ((timer_lookup st)(GUID st \<mapsto> (ty, f))) k"
  proof (rule lookup_eqI [OF allocateCallback_ok [OF ok]])
    fix v
    show "(\<exists>i. slot (snd (allocateCallback f ty st)) i k v) \<longleftrightarrow> ((timer_lookup st)(GUID st \<mapsto> (ty, f))) k = Some v"
    proof (cases "k = GUID st")
      case True
      with s [of _ k v] none show ?thesis by auto
    next
      case False
      then have "(\<exists>i. slot (snd (allocateCallback f ty st)) i k v) \<longleftrightarrow> (\<exists>i. slot st i k v)"
        using s [of _ k v] free [of k v] by metis
      with False lookup_slot [OF ok, of k v] show ?thesis by simp
    qed
  qed
qed

lemma allocateCallback_id [simp]:
  "fst (allocateCallback f ty st) = GUID st" "GUID (snd (allocateCallback f ty st)) = Suc (GUID st)"
  by (simp_all add: allocateCallback_def Let_def)

interpretation jst: timer_table table_ok timer_lookup GUID "\<lambda>v. allocateCallback (snd v) (fst v)" timer_free
  by unfold_locales
    (auto simp: lookup_bound allocateCallback_ok allocateCallback_lookup timer_free_spec)

section \<open>What every operation keeps\<close>

text \<open>
  The closures the module makes itself stay where they belong: the timeout of an idle
  callback is a \<open>setTimeout\<close> timer, and the identifiers waiting for idle time are idle
  callbacks or were cleared.
\<close>

definition idle_ok :: "'f timers \<Rightarrow> bool" where
  "idle_ok st \<longleftrightarrow>
     (\<forall>k ty j. timer_lookup st k = Some (ty, IdleTimeoutFn j) \<longrightarrow> ty = SetTimeout) \<and>
     (\<forall>k \<in> set (requestIdleCallbacks st). k < GUID st \<and>
        (\<forall>ty f. timer_lookup st k = Some (ty, f) \<longrightarrow> ty = RequestIdleCallback))"

definition timers_ok :: "'f timers \<Rightarrow> bool" where
  "timers_ok st \<longleftrightarrow> table_ok st \<and> idle_ok st"

definition evolves :: "'f timers \<Rightarrow> 'f timers \<Rightarrow> bool" where
  "evolves s t \<longleftrightarrow> (timers_ok s \<longrightarrow> timers_ok t \<and> jst.retires s t)"

text \<open>
  User code that touches the timers only through the module's functions: it keeps the table
  well formed and does not bring cleared timers back.
\<close>

definition disciplined :: "'f timer_user \<Rightarrow> bool" where
  "disciplined run \<longleftrightarrow> (\<forall>f a st. evolves st (out_state (run f a st)))"

lemma evolves_refl [simp]: "evolves s s"
  by (simp add: evolves_def timers_ok_def jst.retires_refl)

lemma evolves_trans: "evolves s t \<Longrightarrow> evolves t u \<Longrightarrow> evolves s u"
  unfolding evolves_def using jst.retires_trans by blast

lemma evolves_and_then:
  assumes "evolves s (out_state m)" and "\<And>a t. m = Ret a t \<Longrightarrow> evolves t (out_state (f a t))"
  shows "evolves s (out_state (and_then m f))"
  using assms by (cases m) (auto intro: evolves_trans)

lemma table_frame:
  assumes "tm_ids t = tm_ids s" "tm_callbacks t = tm_callbacks s" "tm_types t = tm_types s" "GUID t = GUID s"
  shows "timer_lookup t = timer_lookup s" "table_ok t = table_ok s"
  unfolding timer_lookup_def [abs_def] table_ok_def slots_aligned_def ids_fresh_def assms by (rule refl)+

lemma evolves_frame:
  assumes "tm_ids t = tm_ids s" "tm_callbacks t = tm_callbacks s" "tm_types t = tm_types s" "GUID t = GUID s"
    and "set (requestIdleCallbacks t) \<subseteq> set (requestIdleCallbacks s)"
  shows "evolves s t"
  using table_frame [OF assms(1-4)] assms(4,5)
  by (auto simp: evolves_def timers_ok_def idle_ok_def jst.retires_def)

lemma evolves_free: "evolves s (timer_free k s)"
proof -
  have "requestIdleCallbacks (timer_free k s) = requestIdleCallbacks s"
    by (simp add: timer_free_def clearIndex_def split: option.splits)
  then show ?thesis
    using jst.retires_free [of s k] timer_free_spec [of s k]
    by (auto simp: evolves_def timers_ok_def idle_ok_def)
qed

lemma clearIndex_free: "index_of (tm_ids s) (Some k) = Some i \<Longrightarrow> clearIndex i s = timer_free k s"
  by (simp add: timer_free_def)

lemma allocateCallback_frame [simp]:
  "requestIdleCallbacks (snd (allocateCallback f ty s)) = requestIdleCallbacks s"
  "immediates (snd (allocateCallback f ty s)) = immediates s"
  "hasNativeTiming (snd (allocateCallback f ty s)) = hasNativeTiming s"
  "tm_errors (snd (allocateCallback f ty s)) = tm_errors s"
  by (simp_all add: allocateCallback_def Let_def)

lemma evolves_alloc:
  assumes "\<And>j. f = IdleTimeoutFn j \<Longrightarrow> ty = SetTimeout"
  shows "evolves s (snd (allocateCallback f ty s))"
proof -
  have "timers_ok (snd (allocateCallback f ty s))" if ok: "timers_ok s"
  proof -
    have t: "table_ok s" using ok by (simp add: timers_ok_def)
    then show ?thesis
      using ok assms allocateCallback_ok [OF t, of f ty]
      by (auto simp: timers_ok_def idle_ok_def allocateCallback_lookup [OF t] less_SucI)
  qed
  then show ?thesis
    using jst.retires_alloc [of s "(ty, f)"] by (simp add: evolves_def timers_ok_def)
qed

lemma evolves_native_timing: "evolves s (out_state (native_timing c s))"
  by (auto simp: native_timing_def log_timing_def intro: evolves_frame)

lemmas evolves_timing = evolves_native_timing [of _ "CreateTimer _ _ _ _", folded createTimer_def]

lemma evolves_warn_long: "evolves s (warn_long_timer n d s)"
  by (auto simp: warn_long_timer_def log_timing_def intro: evolves_frame)

lemma evolves_freeCallback: "evolves s (out_state (freeCallback k s))"
  by (auto simp: freeCallback_def Let_def deleteTimer_def clearIndex_free split: option.splits
      intro: evolves_free evolves_trans [OF evolves_free evolves_native_timing])

lemma evolves_setTimeout: "evolves s (out_state (setTimeout f d s))"
proof -
  let ?w = "warn_long_timer ''setTimeout'' d s"
  have "evolves s (snd (allocateCallback f SetTimeout ?w))"
    by (rule evolves_trans [OF evolves_warn_long evolves_alloc]) simp
  then show ?thesis
    by (auto simp: setTimeout_def createTimer_def split_def
        intro!: evolves_and_then intro: evolves_trans [OF _ evolves_native_timing])
qed

lemma evolves_setInterval: "evolves s (out_state (setInterval (UserFn f) d s))"
proof -
  let ?w = "warn_long_timer ''setInterval'' d s"
  have "evolves s (snd (allocateCallback (UserFn f) SetInterval ?w))"
    by (rule evolves_trans [OF evolves_warn_long evolves_alloc]) simp
  then show ?thesis
    by (auto simp: setInterval_def createTimer_def split_def
        intro!: evolves_and_then intro: evolves_trans [OF _ evolves_native_timing])
qed

lemma evolves_setImmediate: "evolves s (snd (setImmediate (UserFn f) s))"
  by (auto simp: setImmediate_def split_def
      intro: evolves_trans [OF evolves_alloc [of "UserFn f" SetImmediate s] evolves_frame])

lemma evolves_requestAnimationFrame: "evolves s (out_state (requestAnimationFrame (UserFn f) s))"
  by (auto simp: requestAnimationFrame_def createTimer_def split_def intro!: evolves_and_then
      intro: evolves_trans [OF evolves_alloc [of "UserFn f" RequestAnimationFrame s] evolves_native_timing])

lemma evolves_queue_idle:
  assumes "\<And>j. f \<noteq> IdleTimeoutFn j"
  shows "evolves s ((snd (allocateCallback f RequestIdleCallback s))
           \<lparr>requestIdleCallbacks := requestIdleCallbacks s @ [GUID s]\<rparr>)"
proof -
  let ?n = "snd (allocateCallback f RequestIdleCallback s)"
  let ?t = "?n\<lparr>requestIdleCallbacks := requestIdleCallbacks s @ [GUID s]\<rparr>"
  have e: "evolves s ?n" using assms by (intro evolves_alloc) auto
  have f: "timer_lookup ?t = timer_lookup ?n" "table_ok ?t = table_ok ?n" by (rule table_frame; simp)+
  have "timers_ok ?t \<and> jst.retires s ?t" if ok: "timers_ok s"
  proof -
    have n: "table_ok ?n" "idle_ok ?n" "jst.retires s ?n"
      using e ok by (simp_all add: evolves_def timers_ok_def)
    have l: "timer_lookup ?n (GUID s) = Some (RequestIdleCallback, f)"
      using ok by (simp add: allocateCallback_lookup timers_ok_def)
    have "idle_ok ?t" using n(2) l unfolding idle_ok_def by (simp add: f(1))
    moreover have "jst.retires s ?t" using n(3) by (simp add: jst.retires_def f)
    ultimately show ?thesis using n(1) by (simp add: timers_ok_def f(2))
  qed
  then show ?thesis by (simp add: evolves_def)
qed

lemma evolves_requestIdleCallback: "evolves s (out_state (requestIdleCallback f timeout s))"
proof (cases timeout)
  case None
  have "evolves t ((snd (allocateCallback (UserFn f) RequestIdleCallback t))
           \<lparr>requestIdleCallbacks := requestIdleCallbacks t @ [GUID t]\<rparr>)" for t
    by (rule evolves_queue_idle) simp
  with None show ?thesis
    unfolding requestIdleCallback_def
    by (intro evolves_and_then) (auto simp: setSendIdleEvents_def evolves_native_timing Let_def split_def)
next
  case (Some d)
  let ?q = "\<lambda>t. (snd (allocateCallback (IdleFn (GUID t) f) RequestIdleCallback t))
           \<lparr>requestIdleCallbacks := requestIdleCallbacks t @ [GUID t]\<rparr>"
  have q: "evolves t (?q t)" for t by (rule evolves_queue_idle) simp
  have "evolves t (out_state (and_then (setTimeout (IdleTimeoutFn (GUID t)) d (?q t)) (\<lambda>timeoutId st4.
              Ret (GUID t) (st4\<lparr>requestIdleCallbackTimeouts :=
                 (requestIdleCallbackTimeouts st4)(GUID t \<mapsto> timeoutId)\<rparr>))))" for t
    by (intro evolves_and_then evolves_trans [OF q evolves_setTimeout]) (auto intro: evolves_frame)
  with Some show ?thesis
    unfolding requestIdleCallback_def
    by (intro evolves_and_then) (auto simp: setSendIdleEvents_def evolves_native_timing Let_def split_def)
qed

lemma evolves_clearImmediate: "evolves s (out_state (clearImmediate k s))"
  by (auto simp: clearImmediate_def intro!: evolves_and_then evolves_freeCallback evolves_frame)

lemma evolves_clear_idle_timeout: "evolves s (out_state (clear_idle_timeout k s))"
  by (auto simp: clear_idle_timeout_def clearTimeout_def split: option.splits
      intro!: evolves_and_then evolves_freeCallback intro: evolves_frame)

lemma evolves_cancelIdleCallback: "evolves s (out_state (cancelIdleCallback k s))"
proof -
  have "evolves t (t\<lparr>requestIdleCallbacks := splice_out k (requestIdleCallbacks t)\<rparr>)" for t :: "'a timers"
    by (rule evolves_frame) (simp_all add: set_splice_out_subset)
  then show ?thesis
    unfolding cancelIdleCallback_def
    by (auto intro!: evolves_and_then evolves_freeCallback
        intro: evolves_trans [OF _ evolves_clear_idle_timeout] evolves_native_timing
        simp: setSendIdleEvents_def)
qed

lemma evolves_callTimer_with:
  assumes "\<And>f a t. evolves t (out_state (exec f a t))"
  shows "evolves s (callTimer_with exec k ft d s)"
proof -
  let ?w = "if k \<le> GUID s then s else log_timing (ConsoleWarn ''Tried to call timer but no such timer exists.'') s"
  have w: "evolves s ?w" by (auto simp: log_timing_def intro: evolves_frame)
  have p: "evolves t (push_error e t)" for e and t :: "'a timers"
    by (rule evolves_frame) (simp_all add: push_error_def)
  have x: "evolves t (case exec f a t of Ret _ t2 \<Rightarrow> t2 | Throw e t2 \<Rightarrow> push_error e t2)" for f a t
    using assms [of t f a] p by (cases "exec f a t") (auto intro: evolves_trans)
  have "evolves ?w (callTimer_with exec k ft d s)"
    unfolding callTimer_with_def Let_def
    by (auto simp: clearIndex_free log_timing_def split: option.splits
        intro: evolves_frame x evolves_trans [OF evolves_free x])
  with w show ?thesis by (rule evolves_trans)
qed

lemma evolves_runCallback:
  assumes run: "disciplined run"
  shows "evolves s (out_state (runCallback n run f a s))"
proof (induction n arbitrary: f a s)
  case 0
  show ?case by simp
next
  case (Suc n)
  note u = run [unfolded disciplined_def, rule_format]
  show ?case
  proof (cases f)
    case (IdleTimeoutFn k)
    let ?q = "s\<lparr>requestIdleCallbacks := splice_out k (requestIdleCallbacks s)\<rparr>"
    let ?s1 = "if k \<in> set (requestIdleCallbacks s)
       then callTimer_with (runCallback n run) k (performanceNow s) True ?q else s"
    let ?s2 = "?s1\<lparr>requestIdleCallbackTimeouts := (requestIdleCallbackTimeouts ?s1)(k := None)\<rparr>"
    have "evolves s ?q" by (rule evolves_frame) (simp_all add: set_splice_out_subset)
    then have "evolves s ?s1"
      using evolves_callTimer_with [of "runCallback n run", OF Suc.IH] by (auto intro: evolves_trans)
    moreover have "evolves ?s1 ?s2" by (rule evolves_frame) simp_all
    ultimately have "evolves s ?s2" by (rule evolves_trans)
    then show ?thesis
      using IdleTimeoutFn
      by (auto simp: Let_def setSendIdleEvents_def intro: evolves_trans [OF _ evolves_native_timing])
  qed (auto simp: u intro!: evolves_and_then evolves_clear_idle_timeout)
qed

lemma evolves_callTimer: "disciplined run \<Longrightarrow> evolves s (callTimer run k ft d s)"
  unfolding callTimer_def by (rule evolves_callTimer_with) (rule evolves_runCallback)

lemma evolves_callTimers_in_order:
  assumes "disciplined run"
  shows "evolves s (callTimers_in_order run ft ks s)"
  unfolding callTimers_in_order_def
proof (induction ks arbitrary: s)
  case (Cons k ks)
  show ?case using evolves_trans [OF evolves_callTimer [OF assms] Cons.IH] by simp
qed simp

lemma evolves_rethrow_later: "evolves s (out_state (rethrow_later es s))"
  by (induction es arbitrary: s) (auto intro!: evolves_and_then evolves_setTimeout)

lemma evolves_callTimers:
  assumes "disciplined run"
  shows "evolves s (out_state (callTimers run ks s))"
proof -
  let ?s1 = "callTimers_in_order run 0 ks (s\<lparr>tm_errors := None\<rparr>)"
  have e: "evolves s (s\<lparr>tm_errors := None\<rparr>)" by (rule evolves_frame) simp_all
  have "evolves s ?s1" by (rule evolves_trans [OF e evolves_callTimers_in_order [OF assms]])
  moreover have "evolves ?s1 (out_state (and_then (rethrow_later es ?s1) (\<lambda>_ t. Throw x t)))" for es and x :: js_exn
    by (rule evolves_and_then) (simp_all add: evolves_rethrow_later)
  ultimately show ?thesis
    by (auto simp: callTimers_def Let_def split: option.splits list.splits intro: evolves_trans)
qed

lemma evolves_callIdleCallbacks:
  assumes "disciplined run"
  shows "evolves s (out_state (callIdleCallbacks run ft s))"
proof -
  let ?s1 = "s\<lparr>tm_errors := None\<rparr>"
  let ?s2 = "if requestIdleCallbacks ?s1 \<noteq> []
     then callTimers_in_order run ft (requestIdleCallbacks ?s1) (?s1\<lparr>requestIdleCallbacks := []\<rparr>) else ?s1"
  have "evolves s ?s1" "evolves s (?s1\<lparr>requestIdleCallbacks := []\<rparr>)" by (rule evolves_frame; simp)+
  then have "evolves s ?s2" by (auto intro: evolves_trans [OF _ evolves_callTimers_in_order [OF assms]])
  moreover have "evolves ?s2 (out_state (and_then
      (if requestIdleCallbacks ?s2 = [] then setSendIdleEvents False ?s2 else Ret () ?s2)
      (\<lambda>_ t. rethrow_later (case tm_errors t of None \<Rightarrow> [] | Some es \<Rightarrow> es) t)))"
    by (rule evolves_and_then)
      (auto simp: setSendIdleEvents_def evolves_native_timing evolves_rethrow_later)
  ultimately show ?thesis
    unfolding callIdleCallbacks_def Let_def by (auto intro: evolves_trans)
qed

lemma immediates_loop_spec:
  assumes run: "disciplined run" and ret: "immediates_loop run s = Some t"
  shows "evolves s t \<and> immediates t = []"
proof -
  have "disciplined run \<longrightarrow> evolves s t \<and> immediates t = []"
  proof (rule immediates_loop.raw_induct
      [where P = "\<lambda>r s t. disciplined r \<longrightarrow> evolves s t \<and> immediates t = []", OF _ ret], rule impI)
    fix loop :: "'a timer_user \<Rightarrow> 'a timers \<Rightarrow> 'a timers option" and r s t
    assume IH: "\<And>r s t. loop r s = Some t \<Longrightarrow> disciplined r \<longrightarrow> evolves s t \<and> immediates t = []"
      and eq: "(if fst (callImmediatesPass r s) then loop r (snd (callImmediatesPass r s))
                else Some (snd (callImmediatesPass r s))) = Some t" and r: "disciplined r"
    have z: "evolves s (s\<lparr>immediates := []\<rparr>)" by (rule evolves_frame) simp_all
    have "evolves s (snd (callImmediatesPass r s))"
      by (auto simp: callImmediatesPass_def Let_def
          intro: evolves_trans [OF z evolves_callTimers_in_order [OF r]])
    moreover have "\<not> fst (callImmediatesPass r s) \<Longrightarrow> immediates (snd (callImmediatesPass r s)) = []"
      by (auto simp: callImmediatesPass_def Let_def split: if_splits)
    ultimately show "evolves s t \<and> immediates t = []"
      using eq IH r by (auto split: if_splits intro: evolves_trans)
  qed
  with run show ?thesis by simp
qed

lemma evolves_callImmediates:
  assumes "disciplined run" and "callImmediates run s = Some m"
  shows "evolves s (out_state m)"
proof -
  from assms(2) obtain t where t: "immediates_loop run (s\<lparr>tm_errors := None\<rparr>) = Some t"
    "m = rethrow_later (case tm_errors t of None \<Rightarrow> [] | Some es \<Rightarrow> es) t"
    by (auto simp: callImmediates_def)
  have "evolves s (s\<lparr>tm_errors := None\<rparr>)" by (rule evolves_frame) simp_all
  with immediates_loop_spec [OF assms(1) t(1)] t(2) show ?thesis
    using evolves_rethrow_later evolves_trans by blast
qed

section \<open>Runs of the module\<close>

text \<open>Everything that can happen to the module: calls by user code and by native code.\<close>

inductive timers_step :: "'f timer_user \<Rightarrow> 'f timers \<Rightarrow> 'f timers \<Rightarrow> bool" for run where
  step_setTimeout: "timers_step run s (out_state (setTimeout (UserFn f) d s))"
| step_setInterval: "timers_step run s (out_state (setInterval (UserFn f) d s))"
| step_setImmediate: "timers_step run s (snd (setImmediate (UserFn f) s))"
| step_requestAnimationFrame: "timers_step run s (out_state (requestAnimationFrame (UserFn f) s))"
| step_requestIdleCallback: "timers_step run s (out_state (requestIdleCallback f timeout s))"
| step_cancelIdleCallback: "timers_step run s (out_state (cancelIdleCallback k s))"
| step_clearTimer: "timers_step run s (out_state (clearTimeout k s))"
| step_clearImmediate: "timers_step run s (out_state (clearImmediate n s))"
| step_callTimers: "timers_step run s (out_state (callTimers run ks s))"
| step_callIdleCallbacks: "timers_step run s (out_state (callIdleCallbacks run ft s))"
| step_callImmediates: "callImmediates run s = Some m \<Longrightarrow> timers_step run s (out_state m)"
| step_emitTimeDriftWarning: "timers_step run s (emitTimeDriftWarning msg s)"
| step_time: "timers_step run s (s\<lparr>dateNow := n', performanceNow := p\<rparr>)"

lemma timers_step_evolves:
  assumes run: "disciplined run" and "timers_step run s t"
  shows "evolves s t"
  using assms(2)
proof cases
  case (step_callImmediates m)
  then show ?thesis using evolves_callImmediates [OF run] by blast
qed (auto simp: clearTimeout_def emitTimeDriftWarning_def log_timing_def intro: evolves_frame
    intro!: evolves_setTimeout evolves_setInterval evolves_setImmediate
    evolves_requestAnimationFrame evolves_requestIdleCallback evolves_cancelIdleCallback
    evolves_freeCallback evolves_clearImmediate evolves_callTimers [OF run]
    evolves_callIdleCallbacks [OF run])

lemma timers_steps_evolve:
  assumes "disciplined run" and "(timers_step run)\<^sup>*\<^sup>* s t"
  shows "evolves s t"
  using assms(2) by (induction) (auto intro: evolves_trans timers_step_evolves [OF assms(1)])

lemma callTimer_dead:
  assumes "timers_ok s" and "k < GUID s" and "timer_lookup s k = None"
  shows "callTimer_with exec k ft d s = s"
  using assms lookup_None_index [of s k]
  by (simp add: callTimer_with_def timers_ok_def)

text \<open>
  C3: a timer that has been cleared, or that fired and was not an interval, never runs again:
  in every state the module can reach from there, whatever timers are set, cleared or fired
  in between, a request of native code to call that identifier changes nothing.
\<close>

theorem dead_timer_never_fires:
  assumes "disciplined run" and "timers_ok s" and "k < GUID s" and "timer_lookup s k = None"
    and "(timers_step run)\<^sup>*\<^sup>* s t"
  shows "callTimer run k ft d t = t"
proof -
  from timers_steps_evolve [OF assms(1,5)] assms(2) have "timers_ok t" and r: "jst.retires s t"
    by (simp_all add: evolves_def)
  moreover have "timer_lookup t k = None" using jst.retires_dead [OF r] assms(3,4) by blast
  moreover have "k < GUID t" using r assms(3) by (simp add: jst.retires_def)
  ultimately show ?thesis unfolding callTimer_def by (intro callTimer_dead)
qed

text \<open>
  Calling a one-shot timer (\<open>setTimeout\<close>, \<open>setImmediate\<close>, an animation frame or an
  idle callback) leaves its identifier dead, even when the callback throws.
\<close>

theorem one_shot_timer_is_dead_after_firing:
  assumes "disciplined run" and "timers_ok s" and "timer_lookup s k = Some (ty, f)" and "ty \<noteq> SetInterval"
  shows "timers_ok (callTimer run k ft d s) \<and> k < GUID (callTimer run k ft d s) \<and>
         timer_lookup (callTimer run k ft d s) k = None"
proof -
  have ok: "table_ok s" using assms(2) by (simp add: timers_ok_def)
  have g: "k < GUID s" using lookup_bound [OF ok] assms(3) by simp
  from lookup_Some_index [OF assms(3)] obtain i where i: "index_of (tm_ids s) (Some k) = Some i"
    "tm_types s ! i = Some ty" "tm_callbacks s ! i = Some f" by blast
  let ?c = "timer_free k s"
  let ?x = "runCallback IDLE_DEPTH run f (timer_arg_for ty ft d ?c) ?c"
  have c: "callTimer run k ft d s = (case ?x of Ret _ t \<Rightarrow> t | Throw e t \<Rightarrow> push_error e t)"
    using g i assms(4) by (simp add: callTimer_def callTimer_with_def clearIndex_free Let_def)
  have "evolves (out_state ?x) (callTimer run k ft d s)"
    unfolding c by (cases ?x) (auto intro: evolves_frame simp: push_error_def)
  then have e: "evolves ?c (callTimer run k ft d s)"
    using evolves_runCallback [OF assms(1)] evolves_trans by blast
  have "timers_ok ?c" using evolves_free [of s k] assms(2) by (simp add: evolves_def)
  with e have t: "timers_ok (callTimer run k ft d s)" "jst.retires ?c (callTimer run k ft d s)"
    by (simp_all add: evolves_def)
  have "timer_lookup ?c k = None" "k < GUID ?c" using timer_free_spec [OF ok, of k] g by simp_all
  with t show ?thesis using jst.retires_dead [OF t(2)] by (auto simp: jst.retires_def)
qed

subsection \<open>The depth of re-entrant calls\<close>

lemma callTimer_with_cong:
  assumes "\<And>ty g a t. timer_lookup s k = Some (ty, g) \<Longrightarrow> exec g a t = exec' g a t"
  shows "callTimer_with exec k ft d s = callTimer_with exec' k ft d s"
proof -
  let ?w = "if k \<le> GUID s then s else log_timing (ConsoleWarn ''Tried to call timer but no such timer exists.'') s"
  have "tm_ids ?w = tm_ids s" "tm_types ?w = tm_types s" "tm_callbacks ?w = tm_callbacks s"
    by (simp_all add: log_timing_def)
  note w = this
  show ?thesis
  proof (cases "timer_lookup s k")
    case None
    then show ?thesis
      unfolding callTimer_with_def Let_def w timer_lookup_def by (auto split: option.splits)
  next
    case (Some v)
    obtain ty g where v: "v = (ty, g)" by (cases v)
    from lookup_Some_index [OF Some [unfolded v]] obtain i where
      "index_of (tm_ids s) (Some k) = Some i" "tm_types s ! i = Some ty" "tm_callbacks s ! i = Some g" by blast
    moreover have "exec g = exec' g" using assms [OF Some [unfolded v]] by (simp add: fun_eq_iff)
    ultimately show ?thesis unfolding callTimer_with_def Let_def w by simp
  qed
qed

lemma runCallback_depth_enough:
  assumes "timers_ok s"
  shows "runCallback (Suc (Suc n)) run f a s = runCallback IDLE_DEPTH run f a s"
proof (cases f)
  case (IdleTimeoutFn k)
  let ?q = "s\<lparr>requestIdleCallbacks := splice_out k (requestIdleCallbacks s)\<rparr>"
  have q: "timer_lookup ?q = timer_lookup s" by (rule table_frame) simp_all
  have "callTimer_with (runCallback (Suc n) run) k ft d ?q = callTimer_with (runCallback (Suc 0) run) k ft d ?q"
    if k: "k \<in> set (requestIdleCallbacks s)" for ft d
  proof (rule callTimer_with_cong)
    fix ty g a t
    assume "timer_lookup ?q k = Some (ty, g)"
    with assms k have "g \<noteq> IdleTimeoutFn j" for j
      by (fastforce simp: q timers_ok_def idle_ok_def)
    then show "runCallback (Suc n) run g a t = runCallback (Suc 0) run g a t"
      by (cases g) auto
  qed
  with IdleTimeoutFn show ?thesis by (simp add: IDLE_DEPTH_def numeral_2_eq_2 Let_def)
qed (simp_all add: IDLE_DEPTH_def numeral_2_eq_2)

subsection \<open>Immediates\<close>

definition leaves_immediates :: "'f timer_user \<Rightarrow> bool" where
  "leaves_immediates run \<longleftrightarrow> (\<forall>f a st. immediates (out_state (run f a st)) = immediates st)"

lemma native_timing_immediates [simp]: "immediates (out_state (native_timing c s)) = immediates s"
  by (simp add: native_timing_def log_timing_def)

lemma freeCallback_immediates [simp]: "immediates (out_state (freeCallback k s)) = immediates s"
  by (auto simp: freeCallback_def Let_def deleteTimer_def clearIndex_def split: option.splits)

lemma clear_idle_immediates: "immediates (out_state (clear_idle_timeout k s)) = immediates s"
proof (cases "requestIdleCallbackTimeouts s k")
  case (Some j)
  then show ?thesis
    using freeCallback_immediates [of "Some j" s]
    by (cases "freeCallback (Some j) s") (simp_all add: clear_idle_timeout_def clearTimeout_def)
qed (simp add: clear_idle_timeout_def)

lemma callTimer_with_immediates:
  assumes "\<And>f a t. immediates (out_state (exec f a t)) = immediates t"
  shows "immediates (callTimer_with exec k ft d s) = immediates s"
proof -
  have x: "immediates (case exec f a t of Ret _ t2 \<Rightarrow> t2 | Throw e t2 \<Rightarrow> push_error e t2) = immediates t" for f a t
    using assms [of f a t] by (cases "exec f a t") (simp_all add: push_error_def)
  show ?thesis
    by (auto simp: callTimer_with_def Let_def x clearIndex_def log_timing_def split: option.splits)
qed

lemma runCallback_immediates:
  assumes "leaves_immediates run"
  shows "immediates (out_state (runCallback n run f a s)) = immediates s"
proof (induction n arbitrary: f a s)
  case 0
  show ?case by simp
next
  case (Suc n)
  have u: "immediates (out_state (run g b t)) = immediates t" for g b t
    using assms by (simp add: leaves_immediates_def)
  show ?case
  proof (cases f)
    case (IdleFn k g)
    then show ?thesis
      using clear_idle_immediates [of k s] u by (cases "clear_idle_timeout k s") auto
  qed (auto simp: u Let_def setSendIdleEvents_def callTimer_with_immediates [OF Suc.IH])
qed

lemma callTimers_in_order_immediates:
  "leaves_immediates run \<Longrightarrow> immediates (callTimers_in_order run ft ks s) = immediates s"
  unfolding callTimers_in_order_def callTimer_def
  by (induction ks arbitrary: s) (simp_all add: callTimer_with_immediates runCallback_immediates)

text \<open>
  When the callbacks queue no further immediates, \<open>callImmediates\<close> returns, having
  called every queued immediate exactly in the order in which they were set, and then
  scheduled the errors they threw; the queue of immediates is empty afterwards.
\<close>

theorem callImmediates_in_order:
  assumes "leaves_immediates run"
    and "t = callTimers_in_order run 0 (immediates s) (s\<lparr>tm_errors := None, immediates := []\<rparr>)"
  shows "callImmediates run s =
           Some (rethrow_later (case tm_errors t of None \<Rightarrow> [] | Some es \<Rightarrow> es) t) \<and> immediates t = []"
proof -
  have t: "immediates t = []" using assms by (simp add: callTimers_in_order_immediates)
  let ?s = "s\<lparr>tm_errors := None\<rparr>"
  have "callImmediatesPass run ?s = (False, t)"
  proof (cases "immediates s = []")
    case True
    then have "s\<lparr>tm_errors := None, immediates := []\<rparr> = s\<lparr>tm_errors := None\<rparr>" by (cases s) simp
    with True assms(2) show ?thesis by (simp add: callImmediatesPass_def callTimers_in_order_def)
  next
    case False
    with assms(2) t show ?thesis by (simp add: callImmediatesPass_def)
  qed
  then have "immediates_loop run ?s = Some t" by (simp add: immediates_loop.simps)
  with t show ?thesis by (simp add: callImmediates_def)
qed

subsection \<open>Errors thrown by callbacks\<close>

definition throwing :: "('f \<Rightarrow> js_exn option) \<Rightarrow> 'f timer_user" where
  "throwing h f a st = (case h f of None \<Rightarrow> Ret () st | Some e \<Rightarrow> Throw e st)"

fun errors_of :: "js_exn list option \<Rightarrow> js_exn list" where
  "errors_of None = []"
| "errors_of (Some es) = es"

lemma rethrow_later_spec:
  assumes "table_ok s" and "hasNativeTiming s"
  shows "\<exists>t. rethrow_later es s = Ret () t \<and> table_ok t \<and> GUID t = GUID s + length es \<and>
           timer_lookup t = (\<lambda>k. if GUID s \<le> k \<and> k < GUID s + length es
             then Some (SetTimeout, ThrowFn (es ! (k - GUID s))) else timer_lookup s k)"
  using assms
proof (induction es arbitrary: s)
  case Nil
  then show ?case by (auto simp: fun_eq_iff)
next
  case (Cons e es)
  let ?a = "snd (allocateCallback (ThrowFn e) SetTimeout s)"
  let ?s = "log_timing (CreateTimer (GUID s) (Finite 0) (dateNow ?a) False) ?a"
  have w: "warn_long_timer ''setTimeout'' (Finite 0) s = s"
    by (simp add: warn_long_timer_def MAX_TIMER_DURATION_MS_def)
  have st: "setTimeout (ThrowFn e) (Finite 0) s = Ret (GUID s) ?s"
    using Cons.prems(2)
    by (simp add: setTimeout_def w split_def createTimer_def native_timing_def duration_or_zero_def)
  have l: "timer_lookup ?s = (timer_lookup s)(GUID s \<mapsto> (SetTimeout, ThrowFn e))" "table_ok ?s"
    "GUID ?s = Suc (GUID s)" "hasNativeTiming ?s"
    using table_frame [of ?s ?a] allocateCallback_ok [OF Cons.prems(1), of "ThrowFn e" SetTimeout] Cons.prems(2)
    by (simp_all add: log_timing_def allocateCallback_lookup [OF Cons.prems(1)])
  obtain t where t: "rethrow_later es ?s = Ret () t" "table_ok t" "GUID t = GUID ?s + length es"
    "timer_lookup t = (\<lambda>k. if GUID ?s \<le> k \<and> k < GUID ?s + length es
       then Some (SetTimeout, ThrowFn (es ! (k - GUID ?s))) else timer_lookup ?s k)"
    using Cons.IH [OF l(2,4)] by blast
  have "timer_lookup t = (\<lambda>k. if GUID s \<le> k \<and> k < GUID s + length (e # es)
      then Some (SetTimeout, ThrowFn ((e # es) ! (k - GUID s))) else timer_lookup s k)"
    unfolding t(4) l(1,3) by (rule ext) (auto simp: nth_Cons' Suc_diff_le)
  with st t l(3) show ?case by simp
qed

lemma throwing_timer:
  assumes ok: "table_ok s" and k: "timer_lookup s k = Some (SetTimeout, UserFn f)"
  shows "\<exists>t. callTimer (throwing h) k ft d s = t \<and> table_ok t \<and> GUID t = GUID s \<and>
           hasNativeTiming t = hasNativeTiming s \<and> timer_lookup t = (timer_lookup s)(k := None) \<and>
           tm_errors t = (case h f of None \<Rightarrow> tm_errors s | Some e \<Rightarrow> Some (errors_of (tm_errors s) @ [e]))"
proof -
  from lookup_Some_index [OF k] obtain i where i: "index_of (tm_ids s) (Some k) = Some i"
    "tm_types s ! i = Some SetTimeout" "tm_callbacks s ! i = Some (UserFn f)" by blast
  let ?c = "timer_free k s"
  have g: "k \<le> GUID s" using lookup_bound [OF ok, of k] k by simp
  have c: "hasNativeTiming ?c = hasNativeTiming s" "tm_errors ?c = tm_errors s"
    using i by (simp_all add: timer_free_def clearIndex_def)
  note fr = timer_free_spec [OF ok, of k]
  show ?thesis
  proof (cases "h f")
    case None
    then have "callTimer (throwing h) k ft d s = ?c"
      using g i by (simp add: callTimer_def callTimer_with_def clearIndex_free throwing_def IDLE_DEPTH_def numeral_2_eq_2)
    with None c fr show ?thesis by simp
  next
    case (Some e)
    then have "callTimer (throwing h) k ft d s = push_error e ?c"
      using g i by (simp add: callTimer_def callTimer_with_def clearIndex_free throwing_def IDLE_DEPTH_def numeral_2_eq_2)
    moreover have "timer_lookup (push_error e ?c) = timer_lookup ?c" "table_ok (push_error e ?c) = table_ok ?c"
      by (rule table_frame; simp add: push_error_def)+
    ultimately show ?thesis
      using Some c fr by (cases "tm_errors s") (simp_all add: push_error_def)
  qed
qed

lemma throwing_timers:
  assumes "table_ok s" and "\<forall>k \<in> set ks. timer_lookup s k = Some (SetTimeout, UserFn (g k))" and "distinct ks"
  shows "\<exists>t. callTimers_in_order (throwing h) ft ks s = t \<and> table_ok t \<and> GUID t = GUID s \<and>
           hasNativeTiming t = hasNativeTiming s \<and>
           timer_lookup t = (\<lambda>k. if k \<in> set ks then None else timer_lookup s k) \<and>
           errors_of (tm_errors t) = errors_of (tm_errors s) @ present (map (\<lambda>k. h (g k)) ks)"
  using assms
proof (induction ks arbitrary: s)
  case Nil
  then show ?case by (simp add: callTimers_in_order_def)
next
  case (Cons k ks)
  let ?u = "callTimer (throwing h) k ft False s"
  have u: "table_ok ?u" "GUID ?u = GUID s" "hasNativeTiming ?u = hasNativeTiming s"
    "timer_lookup ?u = (timer_lookup s)(k := None)"
    "errors_of (tm_errors ?u) = errors_of (tm_errors s) @ present [h (g k)]"
    using throwing_timer [OF Cons.prems(1), of k "g k" h ft False] Cons.prems(2)
    by (auto split: option.splits)
  have "\<forall>j \<in> set ks. timer_lookup ?u j = Some (SetTimeout, UserFn (g j))" "distinct ks"
    using Cons.prems(2,3) u(4) by auto
  from Cons.IH [OF u(1) this] obtain t where
    "callTimers_in_order (throwing h) ft ks ?u = t" "table_ok t" "GUID t = GUID ?u"
    "hasNativeTiming t = hasNativeTiming ?u"
    "timer_lookup t = (\<lambda>k. if k \<in> set ks then None else timer_lookup ?u k)"
    "errors_of (tm_errors t) = errors_of (tm_errors ?u) @ present (map (\<lambda>k. h (g k)) ks)" by blast
  with u show ?case
    by (cases "h (g k)") (auto simp: callTimers_in_order_def fun_eq_iff)
qed


section \<open>Examples\<close>

definition ex_timers :: "nat timers" where
  "ex_timers = init_timers\<lparr>tm_ids := [Some 1, None, Some 3], tm_types := [Some SetTimeout, None, Some SetTimeout],
     tm_callbacks := [Some (UserFn 10), None, Some (UserFn 30)], GUID := 4\<rparr>"

lemma ex_timers_ok: "timers_ok ex_timers" "table_ok ex_timers"
  "timer_lookup ex_timers 1 = Some (SetTimeout, UserFn 10)" "timer_lookup ex_timers 3 = Some (SetTimeout, UserFn 30)"
proof -
  show t: "table_ok ex_timers"
    by (auto simp: table_ok_def slots_aligned_def ids_fresh_def ex_timers_def init_timers_def less_Suc_eq numeral_3_eq_3 split: if_splits)
  have l: "timer_lookup ex_timers k = (if k = 1 then Some (SetTimeout, UserFn 10)
      else if k = 3 then Some (SetTimeout, UserFn 30) else None)" for k
    by (simp add: timer_lookup_def ex_timers_def init_timers_def numeral_2_eq_2)
  then show "timers_ok ex_timers"
    using t by (auto simp: timers_ok_def idle_ok_def ex_timers_def init_timers_def)
  from l show "timer_lookup ex_timers 1 = Some (SetTimeout, UserFn 10)"
    "timer_lookup ex_timers 3 = Some (SetTimeout, UserFn 30)" by simp_all
qed

lemma throwing_disciplined: "disciplined (throwing h)" "leaves_immediates (throwing h)"
  by (simp_all add: disciplined_def leaves_immediates_def throwing_def split: option.splits)

theorem dead_timer_never_fires_witness:
  "callTimer (throwing (\<lambda>_. None)) 2 0 False
     (out_state (setTimeout (UserFn 40) (Finite 5) ex_timers))
   = out_state (setTimeout (UserFn 40) (Finite 5) ex_timers)"
proof -
  have "(timers_step (throwing (\<lambda>_. None)))\<^sup>*\<^sup>* ex_timers (out_state (setTimeout (UserFn 40) (Finite 5) ex_timers))"
    by (rule r_into_rtranclp) (rule step_setTimeout)
  moreover have "timer_lookup ex_timers 2 = None" "2 < GUID ex_timers"
    by (simp_all add: timer_lookup_def ex_timers_def init_timers_def)
  ultimately show ?thesis
    using dead_timer_never_fires [OF throwing_disciplined(1) ex_timers_ok(1)] by blast
qed

theorem one_shot_timer_is_dead_after_firing_witness:
  "timer_lookup (callTimer (throwing (\<lambda>_. Some (UserExn ''boom''))) 1 0 False ex_timers) 1 = None"
  using one_shot_timer_is_dead_after_firing [OF throwing_disciplined(1) ex_timers_ok(1,3)] by simp

theorem callImmediates_in_order_witness:
  "\<exists>t. callImmediates (throwing (\<lambda>_. None)) (snd (setImmediate (UserFn (7 :: nat)) init_timers)) =
     Some (rethrow_later (case tm_errors t of None \<Rightarrow> [] | Some es \<Rightarrow> es) t) \<and> immediates t = []"
  using callImmediates_in_order [OF throwing_disciplined(2) refl] by blast


end
