(* ===== verification/TaskQueue.thy ===== *)
theory TaskQueue
  imports Prelude
begin

text \<open>
  \<open>Libraries/Interaction/TaskQueue.js\<close>: a stack of task queues.  A task that returns a
  promise pushes a queue of its own, which holds back everything queued before until the
  promise resolves and that queue is drained.

  The record is extensible: \<open>InteractionManager\<close> extends it with its own variables, so
  every operation here works on any extension.  Tasks are compared by identity, a number.
  The functions of tasks are the parameters \<open>run\<close> and \<open>gen\<close>; promises that are not
  settled yet are remembered in \<open>pendingPromises\<close> with the stack index their \<open>then\<close>
  handler will use.
\<close>

section \<open>State\<close>

datatype task = FunctionTask nat | RunTask nat | GenTask nat | MalformedTask nat

record task_queue =
  queueStack :: "(task list \<times> bool) list"
  pendingPromises :: "(task \<times> nat) list"

type_synonym 'z tq_user = "nat \<Rightarrow> 'z task_queue_scheme \<Rightarrow> (js_exn, 'z task_queue_scheme, unit) outcome"

definition new_stack :: "(task list \<times> bool) list" where
  "new_stack = [([], False)]"

section \<open>Operations\<close>

text \<open>\<open>_getCurrentQueue\<close> pops exhausted queues; the current queue is then the last one.\<close>

function prune :: "(task list \<times> bool) list \<Rightarrow> (task list \<times> bool) list" where
  "prune qs = (if snd (last qs) \<and> fst (last qs) = [] \<and> length qs > 1 then prune (butlast qs) else qs)"
  by pat_completeness auto
termination
  by (relation "measure length") auto

declare prune.simps [simp del]

definition getCurrentQueue :: "'z task_queue_scheme \<Rightarrow> task list \<times> 'z task_queue_scheme" where
  "getCurrentQueue st =
     (let qs = prune (queueStack st) in (fst (last qs), st\<lparr>queueStack := qs\<rparr>))"

definition set_current :: "task list \<Rightarrow> 'z task_queue_scheme \<Rightarrow> 'z task_queue_scheme" where
  "set_current ts st =
     st\<lparr>queueStack := butlast (queueStack st) @ [(ts, snd (last (queueStack st)))]\<rparr>"

definition enqueue :: "task \<Rightarrow> 'z task_queue_scheme \<Rightarrow> 'z task_queue_scheme" where
  "enqueue t st = (case getCurrentQueue st of (ts, st1) \<Rightarrow> set_current (ts @ [t]) st1)"

definition enqueueTasks :: "task list \<Rightarrow> 'z task_queue_scheme \<Rightarrow> 'z task_queue_scheme" where
  "enqueueTasks ts st = fold enqueue ts st"

definition cancel_in :: "task list \<Rightarrow> task list \<times> bool \<Rightarrow> task list \<times> bool" where
  "cancel_in cs q = (filter (\<lambda>t. index_of cs t = None) (fst q), snd q)"

text \<open>\<open>filter((queue, idx) => queue.tasks.length > 0 || idx === 0)\<close>\<close>

definition drop_empty :: "(task list \<times> bool) list \<Rightarrow> (task list \<times> bool) list" where
  "drop_empty qs = (case qs of [] \<Rightarrow> [] | q # rest \<Rightarrow> q # filter (\<lambda>q. fst q \<noteq> []) rest)"

definition cancelTasks :: "task list \<Rightarrow> 'z task_queue_scheme \<Rightarrow> 'z task_queue_scheme" where
  "cancelTasks cs st = st\<lparr>queueStack := drop_empty (map (cancel_in cs) (queueStack st))\<rparr>"

definition hasTasksToProcess :: "'z task_queue_scheme \<Rightarrow> bool \<times> 'z task_queue_scheme" where
  "hasTasksToProcess st = (case getCurrentQueue st of (ts, st1) \<Rightarrow> (ts \<noteq> [], st1))"

text \<open>\<open>_genPromise\<close>: \<open>gen\<close> is the user's function; it may throw before making a promise.\<close>

definition genPromise ::
  "'z tq_user \<Rightarrow> nat \<Rightarrow> 'z task_queue_scheme \<Rightarrow> (js_exn, 'z task_queue_scheme, unit) outcome" where
  "genPromise gen n st =
     (let st1 = st\<lparr>queueStack := queueStack st @ [([], False)]\<rparr>;
          stackIdx = length (queueStack st1) - 1
      in and_then (gen n st1) (\<lambda>_ st2.
           Ret () (st2\<lparr>pendingPromises := pendingPromises st2 @ [(GenTask n, stackIdx)]\<rparr>)))"

fun prefix_error :: "js_exn \<Rightarrow> js_exn" where
  "prefix_error (InvariantViolation m) = InvariantViolation (''TaskQueue: Error with task : '' @ m)"
| "prefix_error (TypeError m) = TypeError (''TaskQueue: Error with task : '' @ m)"
| "prefix_error (JsError m) = JsError (''TaskQueue: Error with task : '' @ m)"
| "prefix_error (UserExn m) = UserExn (''TaskQueue: Error with task : '' @ m)"

fun execute_task ::
  "'z tq_user \<Rightarrow> 'z tq_user \<Rightarrow> task \<Rightarrow> 'z task_queue_scheme \<Rightarrow> (js_exn, 'z task_queue_scheme, unit) outcome" where
  "execute_task run gen (GenTask n) st = genPromise gen n st"
| "execute_task run gen (RunTask n) st = run n st"
| "execute_task run gen (FunctionTask n) st = run n st"
| "execute_task run gen (MalformedTask n) st =
     Throw (InvariantViolation ''Expected Function, SimpleTask, or PromiseTask'') st"

definition processNext ::
  "'z tq_user \<Rightarrow> 'z tq_user \<Rightarrow> 'z task_queue_scheme \<Rightarrow> (js_exn, 'z task_queue_scheme, unit) outcome" where
  "processNext run gen st =
     (case getCurrentQueue st of (ts, st1) \<Rightarrow>
        (case ts of
           [] \<Rightarrow> Ret () st1
         | t # rest \<Rightarrow>
             (case execute_task run gen t (set_current rest st1) of
                Ret u st2 \<Rightarrow> Ret u st2
              | Throw e st2 \<Rightarrow> Throw (prefix_error e) st2)))"

text \<open>
  The \<open>then\<close> handler of a promise: \<open>this._queueStack[stackIdx].popable = true\<close> throws when
  the stack has become shorter.
\<close>

definition onThen ::
  "('z task_queue_scheme \<Rightarrow> 'z task_queue_scheme) \<Rightarrow> task \<times> nat \<Rightarrow> 'z task_queue_scheme \<Rightarrow>
   (js_exn, 'z task_queue_scheme, unit) outcome" where
  "onThen onMoreTasks p st =
     (let st0 = st\<lparr>pendingPromises := remove1 p (pendingPromises st)\<rparr>; stackIdx = snd p
      in if stackIdx < length (queueStack st0)
         then (let st1 = st0\<lparr>queueStack := (queueStack st0)[stackIdx := (fst (queueStack st0 ! stackIdx), True)]\<rparr>
               in (case hasTasksToProcess st1 of (hasMore, st2) \<Rightarrow>
                     Ret () (if hasMore then onMoreTasks st2 else st2)))
         else Throw (TypeError ''Cannot set property popable of undefined'') st0)"

section \<open>The stack invariant\<close>

text \<open>There is always a queue, and the bottom one is never popable.\<close>

definition stack_ok :: "(task list \<times> bool) list \<Rightarrow> bool" where
  "stack_ok qs \<longleftrightarrow> qs \<noteq> [] \<and> \<not> snd (hd qs)"

lemma new_stack_ok: "stack_ok new_stack"
  by (simp add: stack_ok_def new_stack_def)

lemma prune_pop: "snd (last qs) \<and> fst (last qs) = [] \<and> length qs > 1 \<Longrightarrow> prune qs = prune (butlast qs)"
  by (subst prune.simps) simp

lemma prune_stop: "\<not> (snd (last qs) \<and> fst (last qs) = [] \<and> length qs > 1) \<Longrightarrow> prune qs = qs"
  by (subst prune.simps) (rule if_not_P)

lemma prune_prefix: "\<exists>rest. qs = prune qs @ rest \<and> (\<forall>q \<in> set rest. q = ([], True))"
proof (induction qs rule: prune.induct)
  case (1 qs)
  show ?case
  proof (cases "snd (last qs) \<and> fst (last qs) = [] \<and> length qs > 1")
    case True
    then have "qs \<noteq> []" by auto
    then have b: "butlast qs @ [last qs] = qs" "last qs = ([], True)"
      using True by (simp_all add: prod_eq_iff)
    from "1.IH" [OF True] obtain rest where
      rest: "butlast qs = prune (butlast qs) @ rest" "\<forall>q \<in> set rest. q = ([], True)" by blast
    have "qs = (prune (butlast qs) @ rest) @ [last qs]"
      using b(1) [symmetric] arg_cong [OF rest(1), of "\<lambda>x. x @ [last qs]"] by (rule trans)
    then have "qs = prune qs @ rest @ [last qs]"
      unfolding prune_pop [OF True] append_assoc .
    with b(2) rest(2) show ?thesis by (intro exI [of _ "rest @ [last qs]"]) auto
  next
    case False
    then show ?thesis by (simp add: prune_stop)
  qed
qed

lemma prune_nonempty: "qs \<noteq> [] \<Longrightarrow> prune qs \<noteq> []"
proof (induction qs rule: prune.induct)
  case (1 qs)
  show ?case
  proof (cases "snd (last qs) \<and> fst (last qs) = [] \<and> length qs > 1")
    case True
    then have "butlast qs \<noteq> []" by (cases qs) auto
    with "1.IH" [OF True] prune_pop [OF True] show ?thesis by simp
  next
    case False
    with "1.prems" show ?thesis by (simp add: prune_stop)
  qed
qed

lemma prune_ok: "stack_ok qs \<Longrightarrow> stack_ok (prune qs)"
  using prune_prefix [of qs] prune_nonempty [of qs]
  by (auto simp: stack_ok_def) (metis hd_append2)

lemma prune_unpopable: "\<not> snd (last qs) \<Longrightarrow> prune qs = qs"
  by (subst prune.simps) simp

lemma prune_pending: "fst (last qs) \<noteq> [] \<Longrightarrow> prune qs = qs"
  by (subst prune.simps) simp

lemma hasTasksToProcess_spec:
  "hasTasksToProcess st = (fst (last (prune (queueStack st))) \<noteq> [], st\<lparr>queueStack := prune (queueStack st)\<rparr>)"
  by (simp add: hasTasksToProcess_def getCurrentQueue_def Let_def)

lemma enqueue_spec:
  "queueStack (enqueue t st) =
     butlast (prune (queueStack st)) @
     [(fst (last (prune (queueStack st))) @ [t], snd (last (prune (queueStack st))))]"
  by (simp add: enqueue_def getCurrentQueue_def set_current_def Let_def)

lemma hd_butlast_snoc: "xs \<noteq> [] \<Longrightarrow> hd (butlast xs @ [y]) = (if length xs = 1 then y else hd xs)"
  by (cases xs rule: rev_cases) (auto simp: hd_append)

lemma stack_ok_set_last:
  assumes "stack_ok qs"
  shows "stack_ok (butlast qs @ [(ts, snd (last qs))])"
  using assms by (cases qs rule: rev_cases) (auto simp: stack_ok_def hd_append)

lemma enqueue_ok: "stack_ok (queueStack st) \<Longrightarrow> stack_ok (queueStack (enqueue t st))"
  by (simp add: enqueue_spec stack_ok_set_last prune_ok)

lemma cancelTasks_ok: "stack_ok (queueStack st) \<Longrightarrow> stack_ok (queueStack (cancelTasks cs st))"
  by (cases "queueStack st") (auto simp: stack_ok_def cancelTasks_def drop_empty_def cancel_in_def)

lemma onThen_ok:
  assumes "stack_ok (queueStack st)" and "0 < snd p"
    and "\<And>s. stack_ok (queueStack s) \<Longrightarrow> stack_ok (queueStack (onMore s))"
  shows "stack_ok (queueStack (out_state (onThen onMore p st)))"
proof -
  have "stack_ok ((queueStack st)[snd p := x])" for x
    using assms(1,2) by (cases "queueStack st"; cases "snd p") (auto simp: stack_ok_def)
  then show ?thesis
    using assms(1,3) by (auto simp: onThen_def Let_def hasTasksToProcess_spec prune_ok)
qed

definition keeps_stack :: "'z tq_user \<Rightarrow> bool" where
  "keeps_stack run \<longleftrightarrow> (\<forall>n st. stack_ok (queueStack st) \<longrightarrow> stack_ok (queueStack (out_state (run n st))))"

lemma execute_task_ok:
  assumes "keeps_stack run" "keeps_stack gen" and "stack_ok (queueStack st)"
  shows "stack_ok (queueStack (out_state (execute_task run gen t st)))"
proof (cases t)
  case (GenTask n)
  let ?st = "st\<lparr>queueStack := queueStack st @ [([], False)]\<rparr>"
  have "stack_ok (queueStack ?st)" using assms(3) by (auto simp: stack_ok_def)
  with assms(2) have "stack_ok (queueStack (out_state (gen n ?st)))" by (simp add: keeps_stack_def)
  with GenTask show ?thesis by (cases "gen n ?st") (simp_all add: genPromise_def Let_def)
qed (use assms in \<open>simp_all add: keeps_stack_def\<close>)

lemma processNext_ok:
  assumes "keeps_stack run" "keeps_stack gen" and "stack_ok (queueStack st)"
  shows "stack_ok (queueStack (out_state (processNext run gen st)))"
proof -
  let ?p = "prune (queueStack st)"
  have p: "stack_ok ?p" using assms(3) by (rule prune_ok)
  show ?thesis
  proof (cases "fst (last ?p)")
    case Nil
    with p show ?thesis by (simp add: processNext_def getCurrentQueue_def Let_def)
  next
    case (Cons t rest)
    let ?s = "set_current rest (st\<lparr>queueStack := ?p\<rparr>)"
    have "stack_ok (queueStack ?s)" using stack_ok_set_last [OF p] by (simp add: set_current_def)
    from execute_task_ok [OF assms(1,2) this, of t] Cons show ?thesis
      by (cases "execute_task run gen t ?s") (simp_all add: processNext_def getCurrentQueue_def Let_def)
  qed
qed

section \<open>Order and blocking\<close>

text \<open>All tasks that are waiting, in the order in which the current stack will run them.\<close>

definition waiting :: "(task list \<times> bool) list \<Rightarrow> task list" where
  "waiting qs = concat (map fst (rev qs))"

lemma waiting_prune: "waiting (prune qs) = waiting qs"
proof -
  obtain rest where r: "qs = prune qs @ rest" "\<forall>q \<in> set rest. q = ([], True)" using prune_prefix by blast
  have "concat (map fst (rev rest)) = []" using r(2) by auto
  with r(1) show ?thesis unfolding waiting_def by (metis append_Nil concat_append map_append rev_append)
qed


text \<open>A run of the queue on tasks whose functions leave the queue alone, as a reference.\<close>

definition quiet :: "(nat \<Rightarrow> 'z \<Rightarrow> 'z) \<Rightarrow> 'z tq_user" where
  "quiet f n st = Ret () (task_queue.extend (task_queue.truncate st) (f n (task_queue.more st)))"

fun drain :: "nat \<Rightarrow> 'z tq_user \<Rightarrow> 'z tq_user \<Rightarrow> 'z task_queue_scheme \<Rightarrow> (js_exn, 'z task_queue_scheme, unit) outcome" where
  "drain 0 run gen st = Ret () st"
| "drain (Suc k) run gen st =
     (case hasTasksToProcess st of (b, st1) \<Rightarrow>
        if b then and_then (processNext run gen st1) (\<lambda>_. drain k run gen) else Ret () st1)"

lemma processNext_quiet:
  assumes "prune (queueStack st) = qs @ [(FunctionTask n # ts, b)]"
  shows "processNext (quiet f) gen st =
           Ret () (task_queue.extend \<lparr>queueStack = qs @ [(ts, b)], pendingPromises = pendingPromises st\<rparr>
                     (f n (task_queue.more st)))"
  using assms
  by (cases st) (simp add: processNext_def getCurrentQueue_def Let_def set_current_def quiet_def
      task_queue.defs)

lemma drain_one_queue:
  assumes "queueStack st = [(map FunctionTask ns, False)]" and "length ns \<le> k"
  shows "drain k (quiet f) gen st =
           Ret () (task_queue.extend \<lparr>queueStack = [([], False)], pendingPromises = pendingPromises st\<rparr>
                     (fold f ns (task_queue.more st)))"
  using assms
proof (induction ns arbitrary: k st)
  case Nil
  then show ?case
    by (cases k; cases st) (simp_all add: hasTasksToProcess_spec prune_unpopable task_queue.defs)
next
  case (Cons n ns)
  then obtain k' where k: "k = Suc k'" "length ns \<le> k'" by (cases k) auto
  have p: "prune (queueStack st) = [] @ [(FunctionTask n # map FunctionTask ns, False)]"
    using Cons.prems(1) by (simp add: prune_unpopable)
  let ?s = "task_queue.extend \<lparr>queueStack = [(map FunctionTask ns, False)], pendingPromises = pendingPromises st\<rparr>
              (f n (task_queue.more st))"
  have "st\<lparr>queueStack := prune (queueStack st)\<rparr> = st" using p Cons.prems(1) by (cases st) simp
  then have "drain k (quiet f) gen st = drain k' (quiet f) gen ?s"
    using p processNext_quiet [OF p, of f gen] by (simp add: k(1) hasTasksToProcess_spec)
  then show ?case
    using Cons.IH [of ?s k'] k(2) by (simp add: task_queue.defs)
qed


section \<open>Cancelling while a promise is pending\<close>

text \<open>
  \<open>cancelTasks\<close> throws away every empty queue above the bottom one, also the queue of a
  promise that is still pending.  The tasks that were blocked become runnable before the
  promise has resolved, and when it resolves its \<open>then\<close> handler dereferences a queue that
  no longer exists.
\<close>

theorem cancel_drops_pending_promise_queue:
  assumes "queueStack st = [(t # ts, False), ([], False)]" and "t \<notin> set cs"
    and "snd p = 1"
  shows "\<not> fst (hasTasksToProcess st) \<and> fst (hasTasksToProcess (cancelTasks cs st)) \<and>
         (\<exists>st'. onThen onMore p (cancelTasks cs st) =
            Throw (TypeError ''Cannot set property popable of undefined'') st')"
proof -
  have "prune (queueStack st) = queueStack st" using assms(1) by (simp add: prune_unpopable)
  moreover have c: "queueStack (cancelTasks cs st) = [(filter (\<lambda>t. index_of cs t = None) (t # ts), False)]"
    using assms(1) by (simp add: cancelTasks_def drop_empty_def cancel_in_def)
  moreover have "index_of cs t = None" using assms(2) by (simp add: index_of_None_iff)
  ultimately show ?thesis
    using assms by (simp add: hasTasksToProcess_spec prune_unpopable onThen_def Let_def)
qed

section \<open>Examples\<close>

definition ex_tq :: task_queue where
  "ex_tq = \<lparr>queueStack = new_stack, pendingPromises = []\<rparr>"



theorem cancel_drops_pending_promise_queue_witness:
  "fst (hasTasksToProcess (cancelTasks [RunTask 9]
      \<lparr>queueStack = [([RunTask 1], False), ([], False)], pendingPromises = [(GenTask 0, 1)]\<rparr>))"
  using cancel_drops_pending_promise_queue [of
      "\<lparr>queueStack = [([RunTask 1], False), ([], False)], pendingPromises = [(GenTask 0, 1)]\<rparr>"
      "RunTask 1" "[]" "[RunTask 9]" "(GenTask 0, 1)" "\<lambda>st. st"] by simp

end
