(* ===== verification/InteractionManager.thy ===== *)
theory InteractionManager
  imports TaskQueue
begin

text \<open>
  \<open>Libraries/Interaction/InteractionManager.js\<close>.

  The manager's variables extend the record of its task queue.  Updates scheduled with
  \<open>setImmediate\<close> or \<open>setTimeout\<close> are kept in \<open>pendingUpdates\<close> by the handle the timer
  function returned (a positive number); the running time of the event loop is the field
  \<open>elapsed\<close>, which user code may change.  The listeners of the manager's emitter are the
  parameter \<open>emit\<close>.  The loop over the task queue ends only if the tasks stop queueing new
  ones, so it is a partial function.
\<close>

section \<open>State\<close>

datatype im_event = InteractionStart | InteractionComplete

datatype update_timer = ViaTimeout nat | ViaImmediate nat

record interaction_manager = task_queue +
  interactionSet :: "nat set"
  addInteractionSet :: "nat set"
  deleteInteractionSet :: "nat set"
  nextUpdateHandle :: nat
  inc :: nat
  im_deadline :: int
  pendingUpdates :: "update_timer list"
  timerHandle :: nat
  elapsed :: int

type_synonym im_user = "nat \<Rightarrow> interaction_manager \<Rightarrow> (js_exn, interaction_manager, unit) outcome"
type_synonym im_listeners = "im_event \<Rightarrow> interaction_manager \<Rightarrow> (js_exn, interaction_manager, unit) outcome"

definition init_im :: interaction_manager where
  "init_im = \<lparr>queueStack = new_stack, pendingPromises = [], interactionSet = {},
     addInteractionSet = {}, deleteInteractionSet = {}, nextUpdateHandle = 0, inc = 0,
     im_deadline = -1, pendingUpdates = [], timerHandle = 1, elapsed = 0\<rparr>"

section \<open>Operations\<close>

text \<open>\<open>_scheduleUpdate\<close>\<close>

definition scheduleUpdate :: "interaction_manager \<Rightarrow> interaction_manager" where
  "scheduleUpdate st =
     (if nextUpdateHandle st = 0
      then st\<lparr>nextUpdateHandle := timerHandle st, timerHandle := Suc (timerHandle st),
              pendingUpdates := pendingUpdates st @
                [if im_deadline st > 0 then ViaTimeout (timerHandle st) else ViaImmediate (timerHandle st)]\<rparr>
      else st)"

text \<open>\<open>resolve\<close> is the task made from the promise's resolve function; the tasks are returned for \<open>cancel\<close>.\<close>

definition runAfterInteractions :: "task option \<Rightarrow> task \<Rightarrow> interaction_manager \<Rightarrow> task list \<times> interaction_manager" where
  "runAfterInteractions t resolve st =
     (let tasks = (case t of None \<Rightarrow> [] | Some x \<Rightarrow> [x]) @ [resolve]
      in (tasks, enqueueTasks tasks (scheduleUpdate st)))"

definition createInteractionHandle :: "interaction_manager \<Rightarrow> nat \<times> interaction_manager" where
  "createInteractionHandle st =
     (let st1 = scheduleUpdate st; handle = Suc (inc st1)
      in (handle, st1\<lparr>inc := handle, addInteractionSet := insert handle (addInteractionSet st1)\<rparr>))"

definition clearInteractionHandle ::
  "nat \<Rightarrow> interaction_manager \<Rightarrow> (js_exn, interaction_manager, unit) outcome" where
  "clearInteractionHandle handle st =
     (if handle = 0 then Throw (InvariantViolation ''InteractionManager: Must provide a handle to clear.'') st
      else
        let st1 = scheduleUpdate st
        in Ret () (st1\<lparr>addInteractionSet := addInteractionSet st1 - {handle},
                       deleteInteractionSet := insert handle (deleteInteractionSet st1)\<rparr>))"

definition setDeadline :: "int \<Rightarrow> interaction_manager \<Rightarrow> interaction_manager" where
  "setDeadline d st = st\<lparr>im_deadline := d\<rparr>"

partial_function (option) process_loop ::
  "im_user \<Rightarrow> im_user \<Rightarrow> interaction_manager \<Rightarrow> (js_exn, interaction_manager, unit) outcome option" where
  "process_loop run gen st =
     (if fst (hasTasksToProcess st)
      then (if returns (processNext run gen (snd (hasTasksToProcess st)))
            then (if im_deadline (out_state (processNext run gen (snd (hasTasksToProcess st)))) > 0 \<and>
                     elapsed (out_state (processNext run gen (snd (hasTasksToProcess st)))) \<ge>
                     im_deadline (out_state (processNext run gen (snd (hasTasksToProcess st))))
                  then Some (Ret () (scheduleUpdate (out_state (processNext run gen (snd (hasTasksToProcess st))))))
                  else process_loop run gen (out_state (processNext run gen (snd (hasTasksToProcess st)))))
            else Some (processNext run gen (snd (hasTasksToProcess st))))
      else Some (Ret () (snd (hasTasksToProcess st))))"

definition merge_handles :: "interaction_manager \<Rightarrow> interaction_manager" where
  "merge_handles st =
     st\<lparr>nextUpdateHandle := 0,
        interactionSet := (interactionSet st \<union> addInteractionSet st) - deleteInteractionSet st\<rparr>"

definition notify :: "im_listeners \<Rightarrow> interaction_manager \<Rightarrow> interaction_manager \<Rightarrow> (js_exn, interaction_manager, unit) outcome" where
  "notify emit old st =
     (if interactionSet old \<noteq> {} \<and> interactionSet st = {} then emit InteractionComplete st
      else if interactionSet old = {} \<and> interactionSet st \<noteq> {} then emit InteractionStart st
      else Ret () st)"

definition clear_handles :: "interaction_manager \<Rightarrow> interaction_manager" where
  "clear_handles st = st\<lparr>addInteractionSet := {}, deleteInteractionSet := {}\<rparr>"

text \<open>\<open>_processUpdate\<close>; \<open>None\<close>: the loop over the tasks does not end.\<close>

definition processUpdate ::
  "im_user \<Rightarrow> im_user \<Rightarrow> im_listeners \<Rightarrow> interaction_manager \<Rightarrow>
   (js_exn, interaction_manager, unit) outcome option" where
  "processUpdate run gen emit st =
     (let merged = merge_handles st
      in case notify emit st merged of
           Throw e st1 \<Rightarrow> Some (Throw e st1)
         | Ret _ st1 \<Rightarrow>
             map_option (\<lambda>m. and_then m (\<lambda>_ st2. Ret () (clear_handles st2)))
               (if interactionSet merged = {} then process_loop run gen st1 else Some (Ret () st1)))"

text \<open>A pending update is run by the timers.\<close>

definition fire_update ::
  "im_user \<Rightarrow> im_user \<Rightarrow> im_listeners \<Rightarrow> update_timer \<Rightarrow> interaction_manager \<Rightarrow>
   (js_exn, interaction_manager, unit) outcome option" where
  "fire_update run gen emit u st =
     processUpdate run gen emit (st\<lparr>pendingUpdates := remove1 u (pendingUpdates st)\<rparr>)"

section \<open>Handles\<close>

text \<open>
  The interactions that count as running once the pending changes are merged, and that every
  handle comes from the counter.
\<close>

definition active_handles :: "interaction_manager \<Rightarrow> nat set" where
  "active_handles im = (interactionSet im \<union> addInteractionSet im) - deleteInteractionSet im"

definition handles_bounded :: "interaction_manager \<Rightarrow> bool" where
  "handles_bounded im \<longleftrightarrow> (\<forall>h \<in> interactionSet im \<union> addInteractionSet im \<union> deleteInteractionSet im. h \<le> inc im)"

lemma schedule_sets [simp]:
  "interactionSet (scheduleUpdate im) = interactionSet im" "addInteractionSet (scheduleUpdate im) = addInteractionSet im"
  "deleteInteractionSet (scheduleUpdate im) = deleteInteractionSet im" "inc (scheduleUpdate im) = inc im"
  by (simp_all add: scheduleUpdate_def)

lemma create_handle:
  assumes "handles_bounded im" and "createInteractionHandle im = (h, im')"
  shows "h = Suc (inc im)" "inc im' = h" "active_handles im' = insert h (active_handles im)" "handles_bounded im'"
  using assms by (force simp: createInteractionHandle_def Let_def active_handles_def handles_bounded_def)+

lemma clear_handle:
  assumes "handles_bounded im" and "0 < h" and "h \<le> inc im"
  shows "\<exists>im'. clearInteractionHandle h im = Ret () im' \<and> inc im' = inc im \<and>
    active_handles im' = active_handles im - {h} \<and> handles_bounded im'"
  using assms by (auto simp: clearInteractionHandle_def Let_def active_handles_def handles_bounded_def)

section \<open>At most one update is pending\<close>

definition update_handle :: "update_timer \<Rightarrow> nat" where
  "update_handle u = (case u of ViaTimeout h \<Rightarrow> h | ViaImmediate h \<Rightarrow> h)"

definition im_ok :: "interaction_manager \<Rightarrow> bool" where
  "im_ok st \<longleftrightarrow> 0 < timerHandle st \<and>
     map update_handle (pendingUpdates st) = (if nextUpdateHandle st = 0 then [] else [nextUpdateHandle st])"

definition keeps_im :: "im_user \<Rightarrow> bool" where
  "keeps_im run \<longleftrightarrow> (\<forall>n st. im_ok st \<longrightarrow> im_ok (out_state (run n st)))"

definition listeners_keep_im :: "im_listeners \<Rightarrow> bool" where
  "listeners_keep_im emit \<longleftrightarrow> (\<forall>e st. im_ok st \<longrightarrow> im_ok (out_state (emit e st)))"

lemma init_im_ok: "im_ok init_im"
  by (simp add: im_ok_def init_im_def)

lemma scheduleUpdate_ok: "im_ok st \<Longrightarrow> im_ok (scheduleUpdate st)"
  by (simp add: im_ok_def scheduleUpdate_def update_handle_def)

lemma im_ok_updates [simp]:
  "im_ok (st\<lparr>inc := n\<rparr>) = im_ok st" "im_ok (st\<lparr>addInteractionSet := A\<rparr>) = im_ok st"
  "im_ok (st\<lparr>deleteInteractionSet := A\<rparr>) = im_ok st" "im_ok (st\<lparr>im_deadline := d\<rparr>) = im_ok st"
  by (simp_all add: im_ok_def)

lemma scheduleUpdate_pending: "im_ok st \<Longrightarrow> length (pendingUpdates (scheduleUpdate st)) = 1"
  using scheduleUpdate_ok [of st]
  by (cases "nextUpdateHandle (scheduleUpdate st) = 0")
    (auto simp: im_ok_def scheduleUpdate_def split: if_splits dest: arg_cong [of _ _ length])

lemma im_ok_frame:
  "pendingUpdates t = pendingUpdates s \<Longrightarrow> nextUpdateHandle t = nextUpdateHandle s \<Longrightarrow>
   timerHandle t = timerHandle s \<Longrightarrow> im_ok t = im_ok s"
  by (simp add: im_ok_def)

lemma queue_ops_frame [simp]:
  fixes st :: interaction_manager
  shows "pendingUpdates (enqueue t st) = pendingUpdates st" "nextUpdateHandle (enqueue t st) = nextUpdateHandle st"
    "timerHandle (enqueue t st) = timerHandle st" "im_ok (st\<lparr>queueStack := qs\<rparr>) = im_ok st"
    "im_ok (set_current ts st) = im_ok st" "im_ok (st\<lparr>pendingPromises := ps\<rparr>) = im_ok st"
  by (simp_all add: enqueue_def getCurrentQueue_def set_current_def Let_def im_ok_def)

lemma enqueueTasks_im_ok [simp]: "im_ok (enqueueTasks ts st) = im_ok st"
  unfolding enqueueTasks_def
  by (induction ts arbitrary: st) (simp_all add: im_ok_def)

lemma processNext_im_ok:
  assumes run: "keeps_im run" and gen: "keeps_im gen" and ok: "im_ok st"
  shows "im_ok (out_state (processNext run gen st))"
proof -
  have x: "im_ok (out_state (execute_task run gen t s))" if "im_ok s" for t s
  proof (cases t)
    case (GenTask n)
    let ?s = "s\<lparr>queueStack := queueStack s @ [([], False)]\<rparr>"
    have "im_ok (out_state (gen n ?s))" using gen that by (simp add: keeps_im_def)
    with GenTask show ?thesis by (cases "gen n ?s") (simp_all add: genPromise_def Let_def)
  qed (use run that in \<open>simp_all add: keeps_im_def\<close>)
  show ?thesis
  proof (cases "fst (last (prune (queueStack st)))")
    case Nil
    with ok show ?thesis by (simp add: processNext_def getCurrentQueue_def Let_def)
  next
    case (Cons t rest)
    let ?s = "set_current rest (st\<lparr>queueStack := prune (queueStack st)\<rparr>)"
    from x [of ?s t] ok Cons show ?thesis
      by (cases "execute_task run gen t ?s") (simp_all add: processNext_def getCurrentQueue_def Let_def)
  qed
qed

lemma process_loop_im_ok:
  assumes run: "keeps_im run" and gen: "keeps_im gen" and ret: "process_loop run gen st = Some m" and ok: "im_ok st"
  shows "im_ok (out_state m)"
proof -
  have "keeps_im run \<longrightarrow> keeps_im gen \<longrightarrow> im_ok st \<longrightarrow> im_ok (out_state m)"
  proof (rule process_loop.raw_induct
      [where P = "\<lambda>r g s m. keeps_im r \<longrightarrow> keeps_im g \<longrightarrow> im_ok s \<longrightarrow> im_ok (out_state m)", OF _ ret], intro impI)
    fix loop :: "im_user \<Rightarrow> im_user \<Rightarrow> interaction_manager \<Rightarrow> (js_exn, interaction_manager, unit) outcome option"
      and r g :: im_user and s :: interaction_manager and m
    let ?n = "processNext r g (snd (hasTasksToProcess s))"
    assume IH: "\<And>r g s m. loop r g s = Some m \<Longrightarrow> keeps_im r \<longrightarrow> keeps_im g \<longrightarrow> im_ok s \<longrightarrow> im_ok (out_state m)"
      and eq: "(if fst (hasTasksToProcess s)
         then (if returns ?n
               then (if im_deadline (out_state ?n) > 0 \<and> elapsed (out_state ?n) \<ge> im_deadline (out_state ?n)
                     then Some (Ret () (scheduleUpdate (out_state ?n))) else loop r g (out_state ?n))
               else Some ?n)
         else Some (Ret () (snd (hasTasksToProcess s)))) = Some m"
      and k: "keeps_im r" "keeps_im g" "im_ok s"
    have h: "im_ok (snd (hasTasksToProcess s))" using k(3) by (simp add: hasTasksToProcess_spec)
    have n: "im_ok (out_state ?n)" by (rule processNext_im_ok [OF k(1,2) h])
    show "im_ok (out_state m)"
      using eq IH k h n by (auto simp: scheduleUpdate_ok split: if_splits)
  qed
  with run gen ok show ?thesis by simp
qed

lemma processUpdate_im_ok:
  assumes k: "keeps_im run" "keeps_im gen" "listeners_keep_im emit"
    and ok: "0 < timerHandle st" "pendingUpdates st = []" and ret: "processUpdate run gen emit st = Some m"
  shows "im_ok (out_state m)"
proof -
  have m: "im_ok (merge_handles st)" using ok by (simp add: im_ok_def merge_handles_def)
  then have n: "im_ok (out_state (notify emit st (merge_handles st)))"
    using k(3) by (simp add: notify_def listeners_keep_im_def)
  have c: "im_ok (out_state x) \<Longrightarrow> im_ok (out_state (and_then x (\<lambda>_ s. Ret () (clear_handles s))))" for x :: "(js_exn, interaction_manager, unit) outcome"
    by (cases x) (simp_all add: clear_handles_def im_ok_def)
  show ?thesis
  proof (cases "notify emit st (merge_handles st)")
    case (Ret u s)
    with n have s: "im_ok s" by simp
    from ret Ret obtain x where x: "m = and_then x (\<lambda>_ s. Ret () (clear_handles s))"
      and "process_loop run gen s = Some x \<or> x = Ret () s"
      by (cases "interactionSet (merge_handles st) = {}") (force simp: processUpdate_def Let_def)+
    then have "im_ok (out_state x)" using process_loop_im_ok [OF k(1,2) _ s] s by auto
    with c x show ?thesis by simp
  next
    case (Throw e s)
    with ret n show ?thesis by (auto simp: processUpdate_def Let_def)
  qed
qed

text \<open>Everything that happens to the manager.\<close>

inductive im_step :: "im_user \<Rightarrow> im_user \<Rightarrow> im_listeners \<Rightarrow> interaction_manager \<Rightarrow> interaction_manager \<Rightarrow> bool"
  for run gen emit where
  im_run: "im_step run gen emit s (snd (runAfterInteractions t r s))"
| im_create: "im_step run gen emit s (snd (createInteractionHandle s))"
| im_clear: "im_step run gen emit s (out_state (clearInteractionHandle h s))"
| im_cancel: "im_step run gen emit s (cancelTasks ts s)"
| im_set_deadline: "im_step run gen emit s (setDeadline d s)"
| im_promise: "im_step run gen emit s (out_state (onThen scheduleUpdate p s))"
| im_fire: "u \<in> set (pendingUpdates s) \<Longrightarrow> fire_update run gen emit u s = Some m \<Longrightarrow> im_step run gen emit s (out_state m)"

lemma im_step_ok:
  assumes k: "keeps_im run" "keeps_im gen" "listeners_keep_im emit" and "im_step run gen emit s t" and ok: "im_ok s"
  shows "im_ok t"
  using assms(4)
proof cases
  case (im_fire u m)
  then have "pendingUpdates s = [u]"
    using ok by (auto simp: im_ok_def split: if_splits)
  with im_fire ok show ?thesis
    using processUpdate_im_ok [OF k, of "s\<lparr>pendingUpdates := remove1 u (pendingUpdates s)\<rparr>" m]
    by (simp add: fire_update_def im_ok_def)
qed (use ok scheduleUpdate_ok in
    \<open>simp_all add: runAfterInteractions_def createInteractionHandle_def clearInteractionHandle_def
      cancelTasks_def setDeadline_def onThen_def Let_def hasTasksToProcess_spec\<close>)

text \<open>
  Whatever is scheduled, created, cleared, cancelled or resolved, the manager never has
  more than one update pending, and \<open>_nextUpdateHandle\<close> is its handle.
\<close>

theorem at_most_one_pending_update:
  assumes "keeps_im run" "keeps_im gen" "listeners_keep_im emit" and "(im_step run gen emit)\<^sup>*\<^sup>* init_im st"
  shows "length (pendingUpdates st) \<le> 1 \<and> (pendingUpdates st = [] \<longleftrightarrow> nextUpdateHandle st = 0)"
proof -
  from assms(4) have "im_ok st"
    by induction (auto simp: init_im_ok intro: im_step_ok [OF assms(1-3)])
  then have m: "map update_handle (pendingUpdates st) = (if nextUpdateHandle st = 0 then [] else [nextUpdateHandle st])"
    by (simp add: im_ok_def)
  from arg_cong [OF m, of length] show ?thesis by (auto split: if_splits)
qed

lemma keeps_im_trivial: "keeps_im (\<lambda>_ s. Ret () s)" "listeners_keep_im (\<lambda>_ s. Ret () s)"
  by (simp_all add: keeps_im_def listeners_keep_im_def)

theorem at_most_one_pending_update_witness:
  "let st = snd (createInteractionHandle (snd (runAfterInteractions None (RunTask 7) init_im)))
   in length (pendingUpdates st) \<le> 1 \<and> (pendingUpdates st = [] \<longleftrightarrow> nextUpdateHandle st = 0)"
  unfolding Let_def
proof (rule at_most_one_pending_update [OF keeps_im_trivial(1) keeps_im_trivial(1) keeps_im_trivial(2)])
  show "(im_step (\<lambda>_ s. Ret () s) (\<lambda>_ s. Ret () s) (\<lambda>_ s. Ret () s))\<^sup>*\<^sup>* init_im
     (snd (createInteractionHandle (snd (runAfterInteractions None (RunTask 7) init_im))))"
    by (rule rtranclp.rtrancl_into_rtrancl, rule r_into_rtranclp, rule im_run, rule im_create)
qed

section \<open>Tasks wait for interactions\<close>

text \<open>
  C37: while an interaction is active an update executes no task, whatever the tasks would do:
  its result does not depend on the tasks' functions, and if no listener interferes the
  queue is unchanged.
\<close>

theorem no_task_during_interaction:
  assumes "(interactionSet st \<union> addInteractionSet st) - deleteInteractionSet st \<noteq> {}"
  shows "processUpdate run gen emit st = processUpdate run' gen' emit st \<and>
         (\<forall>m. processUpdate run gen (\<lambda>_ s. Ret () s) st = Some m \<longrightarrow> queueStack (out_state m) = queueStack st)"
  using assms
  by (auto simp: processUpdate_def merge_handles_def notify_def clear_handles_def Let_def split: outcome.splits)

theorem no_task_during_interaction_witness:
  "let st = snd (createInteractionHandle (enqueue (FunctionTask 3) init_im))
   in processUpdate (\<lambda>_ s. Ret () s) (\<lambda>_ s. Ret () s) (\<lambda>_ s. Ret () s) st =
      processUpdate (\<lambda>_ s. Throw (UserExn ''no'') s) (\<lambda>_ s. Ret () s) (\<lambda>_ s. Ret () s) st"
  using no_task_during_interaction [of "snd (createInteractionHandle (enqueue (FunctionTask 3) init_im))"
      "\<lambda>_ s. Ret () s" "\<lambda>_ s. Ret () s" "\<lambda>_ s. Ret () s" "\<lambda>_ s. Throw (UserExn ''no'') s" "\<lambda>_ s. Ret () s"]
  by (simp add: createInteractionHandle_def enqueue_def init_im_def scheduleUpdate_def getCurrentQueue_def
      set_current_def Let_def)

text \<open>
  \<open>_addInteractionSet\<close> is cleared after the tasks have run, so an interaction that a
  task starts while the update is running is forgotten: its handle is in no set afterwards,
  and the next update does not wait for it.
\<close>

theorem handle_created_by_task_is_lost:
  assumes "queueStack st = [([FunctionTask n], False)]" and "im_deadline st \<le> 0"
    and "interactionSet st = {}" and "addInteractionSet st = {}"
    and "\<And>s. run n s = Ret () (snd (createInteractionHandle s))"
  shows "\<exists>st'. processUpdate run gen emit st = Some (Ret () st') \<and>
           inc st' = Suc (inc st) \<and> interactionSet st' = {} \<and> addInteractionSet st' = {}"
proof -
  let ?s = "merge_handles st"
  have q: "prune (queueStack ?s) = [([FunctionTask n], False)]" "?s\<lparr>queueStack := [([FunctionTask n], False)]\<rparr> = ?s"
    using assms(1) by (cases st, simp_all add: merge_handles_def prune_unpopable)
  let ?t = "snd (createInteractionHandle (set_current [] ?s))"
  have n: "processNext run gen ?s = Ret () ?t"
    using q assms(5) by (simp add: processNext_def getCurrentQueue_def Let_def)
  have t: "queueStack ?t = [([], False)]" "im_deadline ?t \<le> 0" "inc ?t = Suc (inc st)" "interactionSet ?t = {}"
    using assms q by (simp_all add: createInteractionHandle_def scheduleUpdate_def set_current_def merge_handles_def Let_def)
  have h: "hasTasksToProcess ?s = (True, ?s)" "hasTasksToProcess ?t = (False, ?t)"
    using q t(1) by (simp_all add: hasTasksToProcess_spec prune_unpopable)
  have "process_loop run gen ?t = Some (Ret () ?t)"
    by (subst process_loop.simps) (simp add: h)
  moreover have "process_loop run gen ?s = process_loop run gen ?t"
    using n t(2) by (subst process_loop.simps) (simp add: h)
  moreover have "notify emit st ?s = Ret () ?s" "interactionSet ?s = {}"
    using assms(3,4) by (simp_all add: notify_def merge_handles_def)
  ultimately have "processUpdate run gen emit st = Some (Ret () (clear_handles ?t))"
    by (simp add: processUpdate_def)
  with t show ?thesis by (simp add: clear_handles_def)
qed

theorem handle_created_by_task_is_lost_witness:
  "\<exists>st'. processUpdate (\<lambda>_ s. Ret () (snd (createInteractionHandle s))) (\<lambda>_ s. Ret () s) (\<lambda>_ s. Ret () s)
       (init_im\<lparr>queueStack := [([FunctionTask 1], False)]\<rparr>) = Some (Ret () st') \<and>
     inc st' = 1 \<and> interactionSet st' = {} \<and> addInteractionSet st' = {}"
  using handle_created_by_task_is_lost [of "init_im\<lparr>queueStack := [([FunctionTask 1], False)]\<rparr>" 1
      "\<lambda>_ s. Ret () (snd (createInteractionHandle s))" "\<lambda>_ s. Ret () s" "\<lambda>_ s. Ret () s"]
  by (simp add: init_im_def)

end
