(* ===== verification/Batchinator.thy ===== *)
theory Batchinator
  imports Prelude
begin

text \<open>
  \<open>Libraries/Interaction/Batchinator.js\<close>, a machine driven by its clients, by the timer
  it starts and by the task it queues with \<open>InteractionManager.runAfterInteractions\<close>.

  The timers and tasks that can still fire are in the state; \<open>cancel\<close> of a handle removes
  its own.  \<open>_callback\<close> is user code: what it does to this object when it is called, in
  order, is the event's \<open>user_act list\<close> (schedule again, or throw, which ends it).
\<close>

section \<open>State\<close>

datatype bat_handle = TimeoutHandle nat | InteractionTask nat

datatype user_act = UserSchedule | UserThrow string

record batchinator =
  bat_taskHandle :: "bat_handle option"
  bat_live :: "bat_handle list"
  bat_next :: nat
  bat_calls :: nat

definition new_Batchinator :: batchinator where
  "new_Batchinator = \<lparr>bat_taskHandle = None, bat_live = [], bat_next = 1, bat_calls = 0\<rparr>"

section \<open>Operations\<close>

definition schedule :: "batchinator \<Rightarrow> batchinator" where
  "schedule st =
     (case bat_taskHandle st of
        Some _ \<Rightarrow> st
      | None \<Rightarrow> st\<lparr>bat_taskHandle := Some (TimeoutHandle (bat_next st)),
                    bat_live := bat_live st @ [TimeoutHandle (bat_next st)],
                    bat_next := Suc (bat_next st)\<rparr>)"

text \<open>What user code does to the object, and a call of \<open>this._callback()\<close>.\<close>

fun user_acts :: "user_act list \<Rightarrow> batchinator \<Rightarrow> (js_exn, batchinator, unit) outcome" where
  "user_acts [] st = Ret () st"
| "user_acts (UserSchedule # as) st = user_acts as (schedule st)"
| "user_acts (UserThrow e # as) st = Throw (UserExn e) st"

definition bat_callback :: "user_act list \<Rightarrow> batchinator \<Rightarrow> (js_exn, batchinator, unit) outcome" where
  "bat_callback as st = user_acts as (st\<lparr>bat_calls := Suc (bat_calls st)\<rparr>)"

definition dispose :: "bool \<Rightarrow> user_act list \<Rightarrow> batchinator \<Rightarrow> (js_exn, batchinator, unit) outcome" where
  "dispose abort as st =
     (case bat_taskHandle st of
        None \<Rightarrow> Ret () st
      | Some h \<Rightarrow>
          let st1 = st\<lparr>bat_live := filter (\<lambda>x. x \<noteq> h) (bat_live st)\<rparr>
          in and_then (if abort then Ret () st1 else bat_callback as st1)
               (\<lambda>_ st2. Ret () (st2\<lparr>bat_taskHandle := None\<rparr>)))"

text \<open>The function given to \<open>setTimeout\<close>, and the task.\<close>

definition on_timeout :: "batchinator \<Rightarrow> batchinator" where
  "on_timeout st = st\<lparr>bat_taskHandle := Some (InteractionTask (bat_next st)),
     bat_live := bat_live st @ [InteractionTask (bat_next st)], bat_next := Suc (bat_next st)\<rparr>"

definition on_task :: "user_act list \<Rightarrow> batchinator \<Rightarrow> (js_exn, batchinator, unit) outcome" where
  "on_task as st = bat_callback as (st\<lparr>bat_taskHandle := None\<rparr>)"

section \<open>The machine\<close>

datatype bat_event = Schedule | Dispose bool "user_act list" | Fire nat "user_act list"

text \<open>\<open>Fire k\<close>: the \<open>k\<close>-th live timer or task is run, if there is one.\<close>

definition bat_step :: "batchinator \<Rightarrow> bat_event \<Rightarrow> batchinator" where
  "bat_step st e =
     (case e of
        Schedule \<Rightarrow> schedule st
      | Dispose abort as \<Rightarrow> out_state (dispose abort as st)
      | Fire k as \<Rightarrow>
          (case array_get (bat_live st) k of
             None \<Rightarrow> st
           | Some h \<Rightarrow>
               let st1 = st\<lparr>bat_live := remove_at k (bat_live st)\<rparr>
               in (case h of TimeoutHandle _ \<Rightarrow> on_timeout st1 | InteractionTask _ \<Rightarrow> out_state (on_task as st1))))"

text \<open>Everything that is live belongs to the handle that is kept.\<close>

definition bat_ok :: "batchinator \<Rightarrow> bool" where
  "bat_ok st \<longleftrightarrow> bat_live st = [] \<or> (\<exists>h. bat_live st = [h] \<and> bat_taskHandle st = Some h)"

lemma bat_ok_calls [simp]: "bat_ok (st\<lparr>bat_calls := n\<rparr>) = bat_ok st"
  by (simp add: bat_ok_def)

lemma bat_ok_empty: "bat_live st = [] \<Longrightarrow> bat_ok st"
  by (simp add: bat_ok_def)

lemma bat_ok_single: "bat_live st = [h] \<Longrightarrow> bat_taskHandle st = Some h \<Longrightarrow> bat_ok st"
  by (simp add: bat_ok_def)

lemma schedule_ok: "bat_ok st \<Longrightarrow> bat_ok (schedule st)"
  by (auto simp: bat_ok_def schedule_def split: option.splits)

lemma user_acts_ok: "bat_ok st \<Longrightarrow> bat_ok (out_state (user_acts as st))"
  by (induction as st rule: user_acts.induct) (simp_all add: schedule_ok)

lemma bat_callback_ok: "bat_ok st \<Longrightarrow> bat_ok (out_state (bat_callback as st))"
  by (simp add: bat_callback_def user_acts_ok)

text \<open>While a handle is kept, the callback cannot schedule.\<close>

lemma user_acts_busy: "bat_taskHandle st \<noteq> None \<Longrightarrow> out_state (user_acts as st) = st"
  by (induction as st rule: user_acts.induct) (auto simp: schedule_def)

lemma bat_callback_calls: "bat_calls (out_state (bat_callback as st)) = Suc (bat_calls st)"
proof -
  have "bat_calls (out_state (user_acts as s)) = bat_calls s" for s
    by (induction as s rule: user_acts.induct) (auto simp: schedule_def split: option.splits)
  then show ?thesis by (simp add: bat_callback_def)
qed

lemma dispose_live:
  assumes "bat_ok st"
  shows "bat_live (out_state (dispose abort as st)) = []"
proof (cases "bat_taskHandle st")
  case None
  with assms show ?thesis by (auto simp: dispose_def bat_ok_def)
next
  case (Some h)
  let ?s = "st\<lparr>bat_live := filter (\<lambda>x. x \<noteq> h) (bat_live st)\<rparr>"
  have e: "bat_live ?s = []" using assms Some by (auto simp: bat_ok_def)
  have b: "out_state (bat_callback as ?s) = ?s\<lparr>bat_calls := Suc (bat_calls st)\<rparr>"
    using Some by (simp add: bat_callback_def user_acts_busy)
  with e Some show ?thesis
    by (cases "bat_callback as ?s") (simp_all add: dispose_def Let_def)
qed

lemma bat_step_ok:
  assumes "bat_ok st"
  shows "bat_ok (bat_step st e)"
proof (cases e)
  case (Fire k as)
  show ?thesis
  proof (cases "array_get (bat_live st) k")
    case (Some h)
    with assms have "k = 0" "bat_live st = [h]" by (auto simp: bat_ok_def js_defs split: if_splits)
    with Fire Some show ?thesis
      by (cases h) (simp_all add: bat_step_def remove_at_def on_timeout_def on_task_def bat_callback_ok
          bat_ok_empty bat_ok_single)
  qed (use Fire assms in \<open>simp add: bat_step_def\<close>)
qed (use assms in \<open>simp_all add: bat_step_def schedule_ok bat_ok_empty dispose_live\<close>)

interpretation bat: event_machine bat_step bat_ok
  by unfold_locales (rule bat_step_ok)

lemma new_Batchinator_ok: "bat_ok new_Batchinator"
  by (simp add: bat_ok_def new_Batchinator_def)

lemma bat_run_ok: "bat_ok (foldl bat_step new_Batchinator es)"
  by (rule bat.inv_run [OF new_Batchinator_ok])

text \<open>
  Whatever the clients and the callback do, at most one timer or task of the object is
  live, it is the one \<open>dispose\<close> cancels, and after \<open>dispose\<close> nothing is live: the
  callback runs no more until the next \<open>schedule\<close>.
\<close>

theorem batchinator_disposed_is_quiet:
  "let st = foldl bat_step new_Batchinator es
   in length (bat_live st) \<le> 1 \<and> bat_live (out_state (dispose abort as st)) = [] \<and>
      bat_calls (foldl bat_step (out_state (dispose abort as st)) (map (\<lambda>k. Fire k bs) ks)) =
      bat_calls (out_state (dispose abort as st))"
proof -
  let ?st = "foldl bat_step new_Batchinator es"
  let ?d = "out_state (dispose abort as ?st)"
  have l: "bat_live ?d = []" by (rule dispose_live [OF bat_run_ok])
  have "foldl bat_step ?d (map (\<lambda>k. Fire k bs) ks) = ?d"
    using l by (induction ks) (simp_all add: bat_step_def array_get_def)
  moreover have "length (bat_live ?st) \<le> 1" using bat_run_ok [of es] by (auto simp: bat_ok_def)
  ultimately show ?thesis using l by (simp add: Let_def)
qed

text \<open>
  However often it is scheduled, the batch runs the callback exactly once, when its timer
  and then its task fire, and a callback that schedules again gets a new batch.
\<close>

theorem batch_runs_callback_once:
  assumes "bat_live st = []" and "bat_taskHandle st = None"
  shows "let st1 = foldl bat_step st (replicate (Suc n) Schedule @ [Fire 0 bs] @ replicate m Schedule);
             st2 = bat_step st1 (Fire 0 as)
         in bat_calls st1 = bat_calls st \<and> bat_calls st2 = Suc (bat_calls st) \<and>
            (as = [UserSchedule] \<longrightarrow> length (bat_live st2) = 1) \<and> (as = [] \<longrightarrow> bat_live st2 = [])"
proof -
  have busy: "foldl bat_step s (replicate k Schedule) = s" if "bat_taskHandle s \<noteq> None" for s k
    using that by (induction k) (auto simp: bat_step_def schedule_def)
  let ?t = "bat_next st"
  let ?s1 = "st\<lparr>bat_taskHandle := Some (TimeoutHandle ?t), bat_live := [TimeoutHandle ?t], bat_next := Suc ?t\<rparr>"
  let ?s2 = "st\<lparr>bat_taskHandle := Some (InteractionTask (Suc ?t)), bat_live := [InteractionTask (Suc ?t)], bat_next := Suc (Suc ?t)\<rparr>"
  have 1: "foldl bat_step st (replicate (Suc n) Schedule) = ?s1"
    using assms busy [of ?s1 n] by (simp add: bat_step_def [of st] schedule_def)
  have 2: "bat_step ?s1 (Fire 0 bs) = ?s2"
    by (simp add: bat_step_def js_defs on_timeout_def)
  have 3: "foldl bat_step st (replicate (Suc n) Schedule @ [Fire 0 bs] @ replicate m Schedule) = ?s2"
    using 1 2 busy [of ?s2 m] by simp
  have 4: "bat_step ?s2 (Fire 0 as) = out_state (bat_callback as (?s2\<lparr>bat_live := [], bat_taskHandle := None\<rparr>))"
    by (simp add: bat_step_def js_defs on_task_def)
  show ?thesis
    unfolding 3 Let_def 4
    by (simp add: bat_callback_calls) (auto simp: bat_callback_def schedule_def)
qed

theorem batch_runs_callback_once_witness:
  "bat_calls (foldl bat_step new_Batchinator [Schedule, Schedule, Schedule, Fire 0 [], Schedule, Fire 0 [UserSchedule]]) = 1"
  using batch_runs_callback_once [of new_Batchinator 2 "[]" 1 "[UserSchedule]"]
  by (simp add: new_Batchinator_def Let_def numeral_2_eq_2)

end
