(* ===== verification/VirtualizeUtils.thy ===== *)
theory VirtualizeUtils
  imports Prelude Complex_Main
begin

text \<open>
  \<open>Libraries/Lists/VirtualizeUtils.js\<close>: which items of a virtualized list are rendered.

  Offsets and lengths are reals, indices are natural numbers or integers; the metrics of a
  frame are a function of its index.  An array with missing entries is a list of options.
\<close>

section \<open>Data\<close>

record frame =
  frame_offset :: real
  frame_length :: real

record range =
  first :: int
  last :: int

record window_props =
  itemCount :: nat
  maxToRenderPerBatch :: int
  windowSize :: real

record scroll_metrics =
  sm_offset :: real
  sm_velocity :: real
  sm_visibleLength :: real

datatype fill_preference = FillAfter | FillBefore | FillNone

section \<open>Finding the items at given offsets\<close>

text \<open>The inner loop: \<open>Inr (done, out)\<close>, where \<open>done\<close> says that the function returned.\<close>

fun overlap_inner ::
  "real list \<Rightarrow> nat \<Rightarrow> real \<Rightarrow> nat \<Rightarrow> nat \<Rightarrow> nat option list \<times> nat \<Rightarrow> js_exn + (bool \<times> nat option list \<times> nat)" where
  "overlap_inner offsets ii trailing 0 kk st = Inr (False, st)"
| "overlap_inner offsets ii trailing (Suc left) kk (out, outLength) =
     (if out ! kk = None \<and> trailing \<ge> offsets ! kk
      then (let out' = out[kk := Some ii]; n = Suc outLength
            in if Suc kk = length offsets
               then (if n = length offsets then Inr (True, out', n)
                     else Inl (InvariantViolation ''bad offsets input, should be in increasing order''))
               else overlap_inner offsets ii trailing left (Suc kk) (out', n))
      else overlap_inner offsets ii trailing left (Suc kk) (out, outLength))"

fun overlap_outer ::
  "real list \<Rightarrow> (nat \<Rightarrow> frame) \<Rightarrow> nat \<Rightarrow> nat \<Rightarrow> nat option list \<times> nat \<Rightarrow> js_exn + nat option list" where
  "overlap_outer offsets metrics 0 ii st = Inr (fst st)"
| "overlap_outer offsets metrics (Suc left) ii st =
     (let trailingOffset = frame_offset (metrics ii) + frame_length (metrics ii)
      in case overlap_inner offsets ii trailingOffset (length offsets) 0 st of
           Inl e \<Rightarrow> Inl e
         | Inr (True, st') \<Rightarrow> Inr (fst st')
         | Inr (False, st') \<Rightarrow> overlap_outer offsets metrics left (Suc ii) st')"

definition elementsThatOverlapOffsets :: "real list \<Rightarrow> nat \<Rightarrow> (nat \<Rightarrow> frame) \<Rightarrow> js_exn + nat option list" where
  "elementsThatOverlapOffsets offsets itemCnt getFrameMetrics =
     overlap_outer offsets getFrameMetrics itemCnt 0 (replicate (length offsets) None, 0)"

section \<open>The render window\<close>

definition newRangeCount :: "range \<Rightarrow> range \<Rightarrow> int" where
  "newRangeCount prev nxt =
     last nxt - first nxt + 1 -
     max 0 (1 + min (last nxt) (last prev) - max (first nxt) (first prev))"

record window_state = range +
  newCellCount :: int

definition maxNewCells :: "int \<Rightarrow> window_state \<Rightarrow> bool" where
  "maxNewCells maxBatch w \<longleftrightarrow> newCellCount w \<ge> maxBatch"

definition firstWillAddMore :: "range \<Rightarrow> window_state \<Rightarrow> bool" where
  "firstWillAddMore prev w \<longleftrightarrow> first w \<le> first prev \<or> first w > last prev"

definition lastWillAddMore :: "range \<Rightarrow> window_state \<Rightarrow> bool" where
  "lastWillAddMore prev w \<longleftrightarrow> last w \<ge> last prev \<or> last w < first prev"

definition firstShouldIncrement :: "int \<Rightarrow> range \<Rightarrow> int \<Rightarrow> window_state \<Rightarrow> bool" where
  "firstShouldIncrement maxBatch prev overscanFirst w \<longleftrightarrow>
     first w > overscanFirst \<and> (\<not> maxNewCells maxBatch w \<or> \<not> firstWillAddMore prev w)"

definition lastShouldIncrement :: "int \<Rightarrow> range \<Rightarrow> int \<Rightarrow> window_state \<Rightarrow> bool" where
  "lastShouldIncrement maxBatch prev overscanLast w \<longleftrightarrow>
     last w < overscanLast \<and> (\<not> maxNewCells maxBatch w \<or> \<not> lastWillAddMore prev w)"

text \<open>
  One iteration after the two tests that leave the loop.  The four flags are computed before
  \<open>first\<close> and \<open>last\<close> change.
\<close>

definition grow_first :: "bool \<Rightarrow> bool \<Rightarrow> window_state \<Rightarrow> window_state" where
  "grow_first doit addMore w =
     (if doit then w\<lparr>first := first w - 1, newCellCount := newCellCount w + (if addMore then 1 else 0)\<rparr> else w)"

definition grow_last :: "bool \<Rightarrow> bool \<Rightarrow> window_state \<Rightarrow> window_state" where
  "grow_last doit addMore w =
     (if doit then w\<lparr>last := last w + 1, newCellCount := newCellCount w + (if addMore then 1 else 0)\<rparr> else w)"

definition window_step :: "fill_preference \<Rightarrow> int \<Rightarrow> range \<Rightarrow> int \<Rightarrow> int \<Rightarrow> window_state \<Rightarrow> window_state" where
  "window_step fillPreference maxBatch prev overscanFirst overscanLast w =
     (let fAdd = firstWillAddMore prev w; lAdd = lastWillAddMore prev w;
          fInc = firstShouldIncrement maxBatch prev overscanFirst w;
          lInc = lastShouldIncrement maxBatch prev overscanLast w
      in grow_last (lInc \<and> \<not> (fillPreference = FillBefore \<and> fInc \<and> fAdd)) lAdd
           (grow_first (fInc \<and> \<not> (fillPreference = FillAfter \<and> lInc \<and> lAdd)) fAdd w))"

definition window_done :: "int \<Rightarrow> range \<Rightarrow> int \<Rightarrow> int \<Rightarrow> window_state \<Rightarrow> bool" where
  "window_done maxBatch prev overscanFirst overscanLast w \<longleftrightarrow>
     (first w \<le> overscanFirst \<and> last w \<ge> overscanLast) \<or>
     (maxNewCells maxBatch w \<and> \<not> firstShouldIncrement maxBatch prev overscanFirst w \<and>
      \<not> lastShouldIncrement maxBatch prev overscanLast w)"

definition window_measure :: "int \<Rightarrow> int \<Rightarrow> window_state \<Rightarrow> nat" where
  "window_measure overscanFirst overscanLast w = nat (first w - overscanFirst) + nat (overscanLast - last w)"

lemma window_step_progress:
  assumes "\<not> window_done maxBatch prev oF oL w"
  shows "window_measure oF oL (window_step fp maxBatch prev oF oL w) < window_measure oF oL w"
  using assms
  by (cases fp)
    (auto simp: window_measure_def window_done_def window_step_def grow_first_def grow_last_def Let_def
      firstShouldIncrement_def lastShouldIncrement_def)

function window_loop ::
  "fill_preference \<Rightarrow> int \<Rightarrow> range \<Rightarrow> int \<Rightarrow> int \<Rightarrow> window_state \<Rightarrow> window_state" where
  "window_loop fp maxBatch prev oF oL w =
     (if window_done maxBatch prev oF oL w then w
      else window_loop fp maxBatch prev oF oL (window_step fp maxBatch prev oF oL w))"
  by pat_completeness auto
termination
  by (relation "measure (\<lambda>(fp, maxBatch, prev, oF, oL, w). window_measure oF oL w)")
    (auto simp: window_step_progress)

declare window_loop.simps [simp del]

text \<open>\<open>[overscanFirst, first, last, overscanLast]\<close> with their defaults.\<close>

definition or_else :: "nat option \<Rightarrow> int \<Rightarrow> int" where
  "or_else x d = (case x of None \<Rightarrow> d | Some i \<Rightarrow> int i)"

definition boundaries :: "nat \<Rightarrow> int \<Rightarrow> nat option list \<Rightarrow> int \<times> int \<times> int \<times> int" where
  "boundaries itemCnt maxBatch out =
     (let overscanFirst = or_else (out ! 0) 0;
          fst' = or_else (out ! 1) (max 0 overscanFirst);
          overscanLast = or_else (out ! 3) (int itemCnt - 1);
          lst = or_else (out ! 2) (min overscanLast (fst' + maxBatch - 1))
      in (overscanFirst, fst', lst, overscanLast))"

definition good_window :: "nat \<Rightarrow> int \<Rightarrow> int \<Rightarrow> int \<Rightarrow> int \<Rightarrow> range \<Rightarrow> bool" where
  "good_window itemCnt oF oL visFirst visLast r \<longleftrightarrow>
     last r \<ge> first r \<and> first r \<ge> 0 \<and> last r < int itemCnt \<and> first r \<ge> oF \<and> last r \<le> oL \<and>
     first r \<le> visFirst \<and> last r \<ge> visLast"

definition fillPreference_of :: "real \<Rightarrow> fill_preference" where
  "fillPreference_of velocity = (if velocity > 1 then FillAfter else if velocity < -1 then FillBefore else FillNone)"

definition leadFactor :: real where "leadFactor = 1 / 2"

text \<open>\<open>visibleBegin\<close>, \<open>visibleEnd\<close>, \<open>overscanBegin\<close>, \<open>overscanEnd\<close> in increasing order.\<close>

definition window_offsets :: "window_props \<Rightarrow> scroll_metrics \<Rightarrow> real list" where
  "window_offsets props sm =
     (let visibleBegin = max 0 (sm_offset sm);
          visibleEnd = visibleBegin + sm_visibleLength sm;
          overscanLength = (windowSize props - 1) * sm_visibleLength sm
      in [max 0 (visibleBegin - (1 - leadFactor) * overscanLength), visibleBegin, visibleEnd,
          max 0 (visibleEnd + leadFactor * overscanLength)])"

definition computeWindowedRenderLimits ::
  "window_props \<Rightarrow> range \<Rightarrow> (nat \<Rightarrow> frame) \<Rightarrow> scroll_metrics \<Rightarrow> js_exn + range" where
  "computeWindowedRenderLimits props prev getFrameMetricsApprox sm =
     (if itemCount props = 0 then Inr prev
      else
        let n = itemCount props; maxBatch = maxToRenderPerBatch props; offsets = window_offsets props sm
        in if frame_offset (getFrameMetricsApprox (n - 1)) < offsets ! 0
           then Inr \<lparr>first = max 0 (int n - 1 - maxBatch), last = int n - 1\<rparr>
           else case elementsThatOverlapOffsets offsets n getFrameMetricsApprox of
                  Inl e \<Rightarrow> Inl e
                | Inr out \<Rightarrow>
                    (case boundaries n maxBatch out of (oF, f, l, oL) \<Rightarrow>
                       let w = window_loop (fillPreference_of (sm_velocity sm)) maxBatch prev oF oL
                             \<lparr>first = f, last = l, newCellCount = newRangeCount prev \<lparr>first = f, last = l\<rparr>\<rparr>;
                           res = \<lparr>first = first w, last = last w\<rparr>
                       in if good_window n oF oL f l res then Inr res
                          else Inl (JsError ''Bad window calculation'')))"

section \<open>The items at sorted offsets\<close>

text \<open>The specification: the first item that ends at or after the offset.\<close>

definition trailing :: "(nat \<Rightarrow> frame) \<Rightarrow> nat \<Rightarrow> real" where
  "trailing metrics i = frame_offset (metrics i) + frame_length (metrics i)"

fun first_reaching :: "(nat \<Rightarrow> frame) \<Rightarrow> real \<Rightarrow> nat \<Rightarrow> nat option" where
  "first_reaching metrics x 0 = None"
| "first_reaching metrics x (Suc n) =
     (case first_reaching metrics x n of Some i \<Rightarrow> Some i
      | None \<Rightarrow> if trailing metrics n \<ge> x then Some n else None)"

lemma first_reaching_SomeD:
  "first_reaching metrics x n = Some i \<Longrightarrow>
   i < n \<and> trailing metrics i \<ge> x \<and> (\<forall>j<i. trailing metrics j < x)"
proof -
  have "(case first_reaching metrics x n of None \<Rightarrow> \<forall>j<n. trailing metrics j < x
     | Some i \<Rightarrow> i < n \<and> trailing metrics i \<ge> x \<and> (\<forall>j<i. trailing metrics j < x))"
    by (induction n) (auto simp: less_Suc_eq split: option.splits if_splits)
  then show "first_reaching metrics x n = Some i \<Longrightarrow> ?thesis" by simp
qed

lemma first_reaching_None_iff: "first_reaching metrics x n = None \<longleftrightarrow> (\<forall>j<n. trailing metrics j < x)"
  by (induction n) (auto simp: less_Suc_eq split: option.splits)

lemma first_reaching_mono:
  assumes "x \<le> y" and "first_reaching metrics y n = Some j"
  shows "\<exists>i\<le>j. first_reaching metrics x n = Some i"
proof -
  from first_reaching_SomeD [OF assms(2)] have j: "j < n" "trailing metrics j \<ge> y" by auto
  then obtain i where i: "first_reaching metrics x n = Some i"
    using assms(1) first_reaching_None_iff [of metrics x n] by (cases "first_reaching metrics x n") force+
  from first_reaching_SomeD [OF i] j assms(1) have "\<not> j < i" by force
  with i show ?thesis by auto
qed

text \<open>The state of the loops after \<open>ii\<close> items.\<close>

definition found :: "real list \<Rightarrow> (nat \<Rightarrow> frame) \<Rightarrow> nat \<Rightarrow> nat option list" where
  "found offsets metrics n = map (\<lambda>x. first_reaching metrics x n) offsets"

definition count_found :: "nat option list \<Rightarrow> nat" where
  "count_found out = length (filter (\<lambda>x. x \<noteq> None) out)"

lemma count_found_full: "count_found out = length out \<longleftrightarrow> None \<notin> set out"
proof
  assume "count_found out = length out"
  then show "None \<notin> set out"
    using length_filter_less [of _ out "\<lambda>x. x \<noteq> None"] by (auto simp: count_found_def)
next
  assume "None \<notin> set out"
  then have "filter (\<lambda>x. x \<noteq> None) out = out" by (intro filter_True ballI) (rule notI, simp)
  then show "count_found out = length out" by (simp add: count_found_def)
qed

lemma count_found_set:
  "kk < length out \<Longrightarrow> out ! kk = None \<Longrightarrow> count_found (out[kk := Some i]) = Suc (count_found out)"
  unfolding count_found_def by (induction out arbitrary: kk) (auto split: nat.splits)

text \<open>With sorted offsets, if the last one is reached, all are.\<close>

lemma found_full:
  assumes "sorted offsets" and "offsets \<noteq> []" and "List.last (found offsets metrics n) \<noteq> None"
  shows "None \<notin> set (found offsets metrics n)"
proof -
  from assms obtain j where j: "first_reaching metrics (List.last offsets) n = Some j"
    by (auto simp: found_def last_map)
  have "x \<le> List.last offsets" if "x \<in> set offsets" for x
    using that assms(1) by (metis in_set_conv_nth last_conv_nth less_Suc_eq_le One_nat_def Suc_pred diff_less length_greater_0_conv length_pos_if_in_set less_numeral_extra(1) sorted_nth_mono)
  with j show ?thesis
    using first_reaching_mono [of _ "List.last offsets" metrics n j] by (force simp: found_def)
qed

text \<open>The inner loop at position \<open>kk\<close>: the entries before \<open>kk\<close> are those of the next round.\<close>

lemma overlap_inner_spec:
  assumes "sorted offsets" and "length offsets = kk + left"
    and "out = take kk (found offsets metrics (Suc ii)) @ drop kk (found offsets metrics ii)"
    and "found offsets metrics ii \<noteq> [] \<longrightarrow> List.last (found offsets metrics ii) = None"
  shows "overlap_inner offsets ii (trailing metrics ii) left kk (out, count_found out) =
     Inr (left \<noteq> 0 \<and> List.last (found offsets metrics (Suc ii)) \<noteq> None,
          found offsets metrics (Suc ii), count_found (found offsets metrics (Suc ii)))"
  using assms(2,3)
proof (induction left arbitrary: kk out)
  case 0
  then show ?case by (simp add: found_def)
next
  case (Suc left)
  let ?old = "found offsets metrics ii" and ?new = "found offsets metrics (Suc ii)"
  have len: "length ?old = length offsets" "length ?new = length offsets" "kk < length offsets"
    using Suc.prems by (simp_all add: found_def)
  have at: "out ! kk = ?old ! kk" using Suc.prems(2) len by (simp add: nth_append)
  have step: "take (Suc kk) ?new @ drop (Suc kk) ?old = out[kk := ?new ! kk]"
    using Suc.prems(2) len by (simp add: list_update_append take_Suc_conv_app_nth Cons_nth_drop_Suc [symmetric])
  have new: "?new ! kk = (case ?old ! kk of Some i \<Rightarrow> Some i | None \<Rightarrow> if trailing metrics ii \<ge> offsets ! kk then Some ii else None)"
    using len by (simp add: found_def)
  have nochange: "out[kk := ?new ! kk] = out" if "\<not> (out ! kk = None \<and> trailing metrics ii \<ge> offsets ! kk)"
    using that at new len Suc.prems(2) by (auto simp: list_update_id split: option.splits) (metis list_update_id)+
  have IH: "overlap_inner offsets ii (trailing metrics ii) left (Suc kk) (out[kk := ?new ! kk], count_found (out[kk := ?new ! kk])) =
     Inr (left \<noteq> 0 \<and> List.last ?new \<noteq> None, ?new, count_found ?new)"
    using Suc.IH [of "Suc kk" "out[kk := ?new ! kk]"] Suc.prems(1) step by simp
  have last: "List.last ?new = ?new ! kk" "List.last ?old = ?old ! kk" "out[kk := ?new ! kk] = ?new" if "left = 0"
    using that Suc.prems len step by (simp_all add: last_conv_nth flip: length_greater_0_conv)
  show ?case
  proof (cases "out ! kk = None \<and> trailing metrics ii \<ge> offsets ! kk")
    case True
    then have n: "?new ! kk = Some ii" using at new by simp
    have c: "count_found (out[kk := Some ii]) = Suc (count_found out)"
      using True len Suc.prems(2) by (intro count_found_set) auto
    have "count_found ?new = length offsets" if "left = 0"
      using found_full [OF assms(1), of metrics "Suc ii"] last(1) [OF that] n len count_found_full [of ?new]
      by (cases offsets) auto
    with True n c IH last Suc.prems(1) show ?thesis by (cases "left = 0") (auto simp: Let_def)
  next
    case False
    have "left = 0 \<Longrightarrow> List.last ?new = None"
      using False last at new assms(4) len by (cases offsets) auto
    with False nochange [OF False] IH show ?thesis by (cases "left = 0") auto
  qed
qed

lemma overlap_outer_spec:
  assumes "sorted offsets"
    and "offsets \<noteq> [] \<longrightarrow> List.last (found offsets metrics ii) = None"
  shows "\<exists>m. ii \<le> m \<and> m \<le> ii + left \<and>
     overlap_outer offsets metrics left ii (found offsets metrics ii, count_found (found offsets metrics ii)) =
       Inr (found offsets metrics m) \<and>
     (m = ii + left \<or> None \<notin> set (found offsets metrics m))"
  using assms(2)
proof (induction left arbitrary: ii)
  case 0
  then show ?case by auto
next
  case (Suc left)
  let ?new = "found offsets metrics (Suc ii)"
  have i: "overlap_inner offsets ii (trailing metrics ii) (length offsets) 0
      (found offsets metrics ii, count_found (found offsets metrics ii)) =
     Inr (length offsets \<noteq> 0 \<and> List.last ?new \<noteq> None, ?new, count_found ?new)"
    by (rule overlap_inner_spec [OF assms(1)]) (use Suc.prems in \<open>auto simp: found_def\<close>)
  show ?case
  proof (cases "length offsets \<noteq> 0 \<and> List.last ?new \<noteq> None")
    case True
    then have "None \<notin> set ?new" by (intro found_full [OF assms(1)]) auto
    with True i show ?thesis
      by (intro exI [of _ "Suc ii"]) (simp add: Let_def flip: trailing_def)
  next
    case False
    then have "offsets \<noteq> [] \<longrightarrow> List.last ?new = None" by auto
    from Suc.IH [OF this] obtain m where m: "Suc ii \<le> m" "m \<le> Suc ii + left"
      "overlap_outer offsets metrics left (Suc ii) (?new, count_found ?new) = Inr (found offsets metrics m)"
      "m = Suc ii + left \<or> None \<notin> set (found offsets metrics m)" by auto
    have "(length offsets \<noteq> 0 \<and> List.last ?new \<noteq> None) = False" using False by blast
    from i [unfolded this] m show ?thesis
      by (intro exI [of _ m]) (simp add: Let_def flip: trailing_def)
  qed
qed

text \<open>Once an item is found, later items do not change it.\<close>

lemma first_reaching_stable:
  "m \<le> n \<Longrightarrow> first_reaching metrics x m \<noteq> None \<Longrightarrow> first_reaching metrics x n = first_reaching metrics x m"
  by (induction n rule: dec_induct) auto

lemma elementsThatOverlapOffsets_found:
  assumes "sorted offsets"
  shows "elementsThatOverlapOffsets offsets n metrics = Inr (found offsets metrics n)"
proof -
  have 0: "(replicate (length offsets) None, 0) = (found offsets metrics 0, count_found (found offsets metrics 0))"
    by (simp add: found_def map_replicate_const count_found_def)
  have "offsets \<noteq> [] \<longrightarrow> List.last (found offsets metrics 0) = None"
    by (simp add: found_def last_map)
  from overlap_outer_spec [OF assms this, of n] obtain m where m: "m \<le> n"
    "overlap_outer offsets metrics n 0 (found offsets metrics 0, count_found (found offsets metrics 0)) =
       Inr (found offsets metrics m)" "m = n \<or> None \<notin> set (found offsets metrics m)"
    by auto
  have "found offsets metrics n = found offsets metrics m"
  proof (cases "m = n")
    case False
    with m(3) have "x \<in> set offsets \<Longrightarrow> first_reaching metrics x m \<noteq> None" for x
      by (force simp: found_def)
    with first_reaching_stable [OF m(1)] show ?thesis unfolding found_def by (intro map_cong) simp_all
  qed simp
  with m show ?thesis by (simp add: elementsThatOverlapOffsets_def 0)
qed

text \<open>
  For offsets in increasing order \<open>elementsThatOverlapOffsets\<close> never fails, and the
  entry of each offset is the first item that ends at or after it (none, if no item does).
\<close>

theorem elementsThatOverlapOffsets_first:
  assumes "sorted offsets"
  shows "\<exists>out. elementsThatOverlapOffsets offsets n metrics = Inr out \<and> length out = length offsets \<and>
    (\<forall>k<length offsets.
       (case out ! k of
          None \<Rightarrow> \<forall>i<n. frame_offset (metrics i) + frame_length (metrics i) < offsets ! k
        | Some i \<Rightarrow> i < n \<and> offsets ! k \<le> frame_offset (metrics i) + frame_length (metrics i) \<and>
            (\<forall>j<i. frame_offset (metrics j) + frame_length (metrics j) < offsets ! k)))"
proof -
  have "(case first_reaching metrics x n of None \<Rightarrow> \<forall>i<n. trailing metrics i < x
      | Some i \<Rightarrow> i < n \<and> x \<le> trailing metrics i \<and> (\<forall>j<i. trailing metrics j < x))" for x
    using first_reaching_SomeD [of metrics x n] first_reaching_None_iff [of metrics x n]
    by (cases "first_reaching metrics x n") auto
  note spec = this [unfolded trailing_def]
  show ?thesis
    by (intro exI [of _ "found offsets metrics n"] conjI elementsThatOverlapOffsets_found [OF assms])
      (simp_all add: found_def spec)
qed

theorem elementsThatOverlapOffsets_first_witness:
  "\<exists>out. elementsThatOverlapOffsets [0, 5] 3 (\<lambda>i. \<lparr>frame_offset = real i * 2, frame_length = 2\<rparr>) = Inr out \<and> length out = 2"
  using elementsThatOverlapOffsets_first [of "[0, 5]" 3 "\<lambda>i. \<lparr>frame_offset = real i * 2, frame_length = 2\<rparr>"]
  by auto

section \<open>The window is always good\<close>

text \<open>Growing keeps the window inside the overscan range and around the visible one.\<close>

definition window_in :: "int \<Rightarrow> int \<Rightarrow> int \<Rightarrow> int \<Rightarrow> window_state \<Rightarrow> bool" where
  "window_in oF oL vF vL w \<longleftrightarrow> oF \<le> first w \<and> first w \<le> vF \<and> vL \<le> last w \<and> last w \<le> oL"

lemma window_step_in:
  assumes "window_in oF oL vF vL w"
  shows "window_in oF oL vF vL (window_step fp maxBatch prev oF oL w)"
  using assms
  by (auto simp: window_in_def window_step_def grow_first_def grow_last_def Let_def
      firstShouldIncrement_def lastShouldIncrement_def)

lemma window_loop_in:
  "window_in oF oL vF vL w \<Longrightarrow> window_in oF oL vF vL (window_loop fp maxBatch prev oF oL w)"
proof (induction fp maxBatch prev oF oL w rule: window_loop.induct)
  case (1 fp maxBatch prev oF oL w)
  then show ?case
    by (subst window_loop.simps) (simp add: window_step_in)
qed

text \<open>The count kept by the loop bounds the number of new items.\<close>

lemma newRangeCount_grow_first:
  "f \<le> l \<Longrightarrow> newRangeCount prev \<lparr>first = f - 1, last = l\<rparr> \<le>
     newRangeCount prev \<lparr>first = f, last = l\<rparr> + (if f \<le> first prev \<or> f > last prev then 1 else 0)"
  by (auto simp: newRangeCount_def max_def min_def)

lemma newRangeCount_grow_last:
  "f \<le> l \<Longrightarrow> newRangeCount prev \<lparr>first = f, last = l + 1\<rparr> \<le>
     newRangeCount prev \<lparr>first = f, last = l\<rparr> + (if l \<ge> last prev \<or> l < first prev then 1 else 0)"
  by (auto simp: newRangeCount_def max_def min_def)

definition count_ok :: "range \<Rightarrow> int \<Rightarrow> window_state \<Rightarrow> bool" where
  "count_ok prev bound w \<longleftrightarrow> first w \<le> last w \<and>
     newRangeCount prev \<lparr>first = first w, last = last w\<rparr> \<le> newCellCount w \<and> newCellCount w \<le> bound"

lemma window_step_count:
  assumes "count_ok prev bound w" and "maxBatch + 1 \<le> bound"
  shows "count_ok prev bound (window_step fp maxBatch prev oF oL w)"
  using assms newRangeCount_grow_first [of "first w" "last w" prev]
    newRangeCount_grow_last [of "first w" "last w" prev]
    newRangeCount_grow_last [of "first w - 1" "last w" prev]
  by (auto simp: count_ok_def window_step_def grow_first_def grow_last_def Let_def maxNewCells_def
      firstShouldIncrement_def lastShouldIncrement_def firstWillAddMore_def lastWillAddMore_def)

lemma window_loop_count:
  "count_ok prev bound w \<Longrightarrow> maxBatch + 1 \<le> bound \<Longrightarrow> count_ok prev bound (window_loop fp maxBatch prev oF oL w)"
proof (induction fp maxBatch prev oF oL w rule: window_loop.induct)
  case (1 fp maxBatch prev oF oL w)
  then show ?case
    by (subst window_loop.simps) (simp add: window_step_count)
qed

text \<open>The four boundaries are in order.\<close>

lemma window_offsets_sorted:
  assumes "0 \<le> sm_visibleLength sm" and "1 \<le> windowSize props"
  shows "sorted (window_offsets props sm)"
proof -
  have 0: "0 \<le> (windowSize props - 1) * sm_visibleLength sm" using assms by simp
  then have "- ((windowSize props - 1) * sm_visibleLength sm / 2) \<le> sm_visibleLength sm"
    using assms(1) by linarith
  with 0 assms show ?thesis
    by (simp add: window_offsets_def Let_def leadFactor_def max_def)
qed

lemma boundaries_ordered:
  assumes "x0 \<le> x1" "x1 \<le> x2" "x2 \<le> x3" and "0 < n" and "1 \<le> maxBatch"
    and "boundaries n maxBatch (found [x0, x1, x2, x3] metrics n) = (oF, f, l, oL)"
  shows "0 \<le> oF" "oF \<le> f" "f \<le> l" "l \<le> oL" "oL < int n"
proof -
  let ?r = "\<lambda>x. first_reaching metrics x n"
  have mono: "\<exists>i\<le>j. ?r x = Some i" if "x \<le> y" "?r y = Some j" for x y j
    by (rule first_reaching_mono [OF that])
  have lt: "?r x = Some i \<Longrightarrow> i < n" for x i using first_reaching_SomeD by blast
  have b: "oF = or_else (?r x0) 0" "f = or_else (?r x1) (max 0 oF)" "oL = or_else (?r x3) (int n - 1)"
    "l = or_else (?r x2) (min oL (f + maxBatch - 1))"
    using assms(6) by (auto simp: boundaries_def found_def Let_def)
  show "0 \<le> oF" using b(1) by (simp add: or_else_def split: option.splits)
  show of: "oF \<le> f"
    using b(1,2) mono [OF assms(1)] by (cases "?r x1") (force simp: or_else_def)+
  show ol: "oL < int n" using b(3) lt [of x3] assms(4) by (cases "?r x3") (auto simp: or_else_def)
  have fl: "f < int n" using b(1,2) lt [of x0] lt [of x1] assms(4)
    by (cases "?r x1"; cases "?r x0") (auto simp: or_else_def)
  have f3: "f \<le> oL"
    using b(2,3) fl mono [OF order_trans [OF assms(2,3)]] by (cases "?r x3") (force simp: or_else_def)+
  show "l \<le> oL"
    using b(3,4) mono [OF assms(3)] lt [of x2]
    by (cases "?r x2"; cases "?r x3") (force simp: or_else_def)+
  show "f \<le> l"
    using b(2,4) f3 assms(5) mono [OF assms(2)] by (cases "?r x2") (force simp: or_else_def)+
qed

lemma windowed_limits_in_range:
  assumes "0 < itemCount props" and "1 \<le> maxToRenderPerBatch props" and "1 \<le> windowSize props"
    and "0 \<le> sm_visibleLength sm"
  shows "\<exists>r. computeWindowedRenderLimits props prev metrics sm = Inr r \<and>
           0 \<le> first r \<and> first r \<le> last r \<and> last r < int (itemCount props)"
proof -
  let ?n = "itemCount props" and ?m = "maxToRenderPerBatch props" and ?os = "window_offsets props sm"
  obtain x0 x1 x2 x3 where os: "?os = [x0, x1, x2, x3]" by (simp add: window_offsets_def Let_def)
  have so: "sorted ?os" by (rule window_offsets_sorted [OF assms(4,3)])
  then have x: "x0 \<le> x1" "x1 \<le> x2" "x2 \<le> x3" using os by auto
  obtain oF f l oL where b: "boundaries ?n ?m (found ?os metrics ?n) = (oF, f, l, oL)" by (metis prod_cases4)
  note bo = boundaries_ordered [OF x assms(1,2) b [unfolded os]]
  let ?w0 = "\<lparr>first = f, last = l, newCellCount = newRangeCount prev \<lparr>first = f, last = l\<rparr>\<rparr>"
  let ?w = "window_loop (fillPreference_of (sm_velocity sm)) ?m prev oF oL ?w0"
  have "window_in oF oL f l ?w" by (rule window_loop_in) (use bo in \<open>simp add: window_in_def\<close>)
  then have g: "good_window ?n oF oL f l \<lparr>first = first ?w, last = last ?w\<rparr>"
    using bo by (simp add: window_in_def good_window_def)
  show ?thesis
  proof (cases "frame_offset (metrics (?n - 1)) < ?os ! 0")
    case True
    with assms show ?thesis by (simp add: computeWindowedRenderLimits_def Let_def)
  next
    case False
    with assms g b show ?thesis
      by (simp add: computeWindowedRenderLimits_def Let_def elementsThatOverlapOffsets_found [OF so])
        (simp add: good_window_def)
  qed
qed

text \<open>
  C24: for a list with items, a non-negative visible length, a window of at least one screen and
  batches of at least one item, \<open>computeWindowedRenderLimits\<close> terminates without its error
  \<open>Bad window calculation\<close>, and returns a non-empty range of existing items.
\<close>

theorem computeWindowedRenderLimits_valid:
  assumes "0 < itemCount props" and "1 \<le> maxToRenderPerBatch props" and "1 \<le> windowSize props"
    and "0 \<le> sm_visibleLength sm"
  shows "\<exists>r. computeWindowedRenderLimits props prev metrics sm = Inr r \<and>
           0 \<le> first r \<and> first r \<le> last r \<and> last r < int (itemCount props)"
  using windowed_limits_in_range [OF assms] .

theorem computeWindowedRenderLimits_valid_witness:
  "\<exists>r. computeWindowedRenderLimits \<lparr>itemCount = 100, maxToRenderPerBatch = 10, windowSize = 21\<rparr>
     \<lparr>first = 0, last = 9\<rparr> (\<lambda>i. \<lparr>frame_offset = real i * 20, frame_length = 20\<rparr>)
     \<lparr>sm_offset = 300, sm_velocity = 2, sm_visibleLength = 200\<rparr> = Inr r \<and> 0 \<le> first r \<and> last r < 100"
  using computeWindowedRenderLimits_valid [of "\<lparr>itemCount = 100, maxToRenderPerBatch = 10, windowSize = 21\<rparr>"
      "\<lparr>sm_offset = 300, sm_velocity = 2, sm_visibleLength = 200\<rparr>" "\<lparr>first = 0, last = 9\<rparr>"
      "\<lambda>i. \<lparr>frame_offset = real i * 20, frame_length = 20\<rparr>"]
  by auto

text \<open>
  From the visible range the loop grows the window until the overscan range is filled or
  the batch is full: the result contains the visible range, lies in the overscan range, and
  adds at most one item more than \<open>maxToRenderPerBatch\<close> to the items already rendered,
  unless the visible range alone adds more.
\<close>

theorem window_batch_bound:
  assumes "oF \<le> f" and "f \<le> l" and "l \<le> oL"
  shows "let w = window_loop fp maxBatch prev oF oL
             \<lparr>first = f, last = l, newCellCount = newRangeCount prev \<lparr>first = f, last = l\<rparr>\<rparr>
         in oF \<le> first w \<and> first w \<le> f \<and> l \<le> last w \<and> last w \<le> oL \<and>
            newRangeCount prev \<lparr>first = first w, last = last w\<rparr> \<le>
            max (newRangeCount prev \<lparr>first = f, last = l\<rparr>) (maxBatch + 1)"
proof -
  let ?w0 = "\<lparr>first = f, last = l, newCellCount = newRangeCount prev \<lparr>first = f, last = l\<rparr>\<rparr>"
  let ?bound = "max (newRangeCount prev \<lparr>first = f, last = l\<rparr>) (maxBatch + 1)"
  have "window_in oF oL f l (window_loop fp maxBatch prev oF oL ?w0)"
    by (rule window_loop_in) (use assms in \<open>simp add: window_in_def\<close>)
  moreover have "count_ok prev ?bound (window_loop fp maxBatch prev oF oL ?w0)"
    by (rule window_loop_count) (use assms in \<open>simp_all add: count_ok_def\<close>)
  ultimately show ?thesis by (simp add: Let_def window_in_def count_ok_def)
qed

theorem window_batch_bound_witness:
  "let w = window_loop FillAfter 4 \<lparr>first = 0, last = 9\<rparr> 5 40
       \<lparr>first = 12, last = 14, newCellCount = newRangeCount \<lparr>first = 0, last = 9\<rparr> \<lparr>first = 12, last = 14\<rparr>\<rparr>
   in newRangeCount \<lparr>first = 0, last = 9\<rparr> \<lparr>first = first w, last = last w\<rparr> \<le> 5"
proof -
  have "newRangeCount \<lparr>first = 0, last = 9\<rparr> \<lparr>first = 12, last = 14\<rparr> = 3"
    by (simp add: newRangeCount_def)
  then show ?thesis
    using window_batch_bound [of 5 12 14 40 FillAfter 4 "\<lparr>first = 0, last = 9\<rparr>"] by (simp add: Let_def)
qed

end
