(* ===== verification/ViewabilityHelper.thy ===== *)
theory ViewabilityHelper
  imports VirtualizeUtils
begin

text \<open>
  \<open>Libraries/Lists/ViewabilityHelper.js\<close>: which items of a list the user can see, and the
  notifications of changes.

  The \<open>Map\<close> of viewable items is an association list in insertion order.  Timers that can
  still fire are in \<open>vh_live\<close> with the indices and the token function their closure holds;
  \<open>vh_timers\<close> is the \<open>Set\<close> of handles the object keeps.  Calls of
  \<open>onViewableItemsChanged\<close> are appended to \<open>vh_notified\<close>.  A quotient by zero is
  \<open>Infinity\<close> or \<open>NaN\<close> in the code; \<open>percent_reaches\<close> writes the comparison out.
\<close>

section \<open>Data\<close>

record view_token =
  vt_key :: string
  vt_index :: int
  vt_isViewable :: bool

record viewability_config =
  minimumViewTime :: "real option"
  viewAreaCoveragePercentThreshold :: "real option"
  itemVisiblePercentThreshold :: "real option"
  waitForInteraction :: bool

type_synonym token_fun = "int \<Rightarrow> bool \<Rightarrow> view_token"

record notification =
  ni_viewableItems :: "view_token list"
  ni_changed :: "view_token list"

record viewability_helper =
  vh_config :: viewability_config
  vh_hasInteracted :: bool
  vh_timers :: "nat set"
  vh_viewableIndices :: "int list"
  vh_viewableItems :: "(string \<times> view_token) list"
  vh_live :: "(nat \<times> int list \<times> token_fun) list"
  vh_nextTimer :: nat
  vh_notified :: "notification list"

definition new_ViewabilityHelper :: "viewability_config \<Rightarrow> viewability_helper" where
  "new_ViewabilityHelper config = \<lparr>vh_config = config, vh_hasInteracted = False, vh_timers = {},
     vh_viewableIndices = [], vh_viewableItems = [], vh_live = [], vh_nextTimer = 1, vh_notified = []\<rparr>"

section \<open>What is visible\<close>

definition isEntirelyVisible :: "real \<Rightarrow> real \<Rightarrow> real \<Rightarrow> bool" where
  "isEntirelyVisible topY bottom viewportHeight \<longleftrightarrow> topY \<ge> 0 \<and> bottom \<le> viewportHeight \<and> bottom > topY"

definition getPixelsVisible :: "real \<Rightarrow> real \<Rightarrow> real \<Rightarrow> real" where
  "getPixelsVisible topY bottom viewportHeight =
     (let visibleHeight = min bottom viewportHeight - max topY 0 in max 0 visibleHeight)"

definition percent_reaches :: "real \<Rightarrow> real \<Rightarrow> real \<Rightarrow> bool" where
  "percent_reaches pixels whole threshold =
     (if whole = 0 then pixels > 0 else 100 * (pixels / whole) \<ge> threshold)"

definition isViewable :: "bool \<Rightarrow> real \<Rightarrow> real \<Rightarrow> real \<Rightarrow> real \<Rightarrow> real \<Rightarrow> bool" where
  "isViewable viewAreaMode threshold topY bottom viewportHeight itemLength =
     (if isEntirelyVisible topY bottom viewportHeight then True
      else percent_reaches (getPixelsVisible topY bottom viewportHeight)
             (if viewAreaMode then viewportHeight else itemLength) threshold)"

section \<open>Operations\<close>

definition vh_dispose :: "viewability_helper \<Rightarrow> viewability_helper" where
  "vh_dispose st = st\<lparr>vh_live := filter (\<lambda>t. fst t \<notin> vh_timers st) (vh_live st)\<rparr>"

text \<open>The scan over the render range; a frame without metrics is not measured yet.\<close>

definition on_screen :: "real \<Rightarrow> real \<Rightarrow> frame \<Rightarrow> bool" where
  "on_screen scrollOffset viewportHeight m \<longleftrightarrow>
     frame_offset m - scrollOffset < viewportHeight \<and> frame_offset m - scrollOffset + frame_length m > 0"

definition frame_viewable :: "bool \<Rightarrow> real \<Rightarrow> real \<Rightarrow> real \<Rightarrow> frame \<Rightarrow> bool" where
  "frame_viewable areaMode threshold scrollOffset viewportHeight m =
     (let topY = frame_offset m - scrollOffset; bottom = topY + frame_length m
      in isViewable areaMode threshold topY bottom viewportHeight (frame_length m))"

fun viewable_scan ::
  "bool \<Rightarrow> real \<Rightarrow> real \<Rightarrow> real \<Rightarrow> (int \<Rightarrow> frame option) \<Rightarrow> int \<Rightarrow> int list \<Rightarrow> int list" where
  "viewable_scan areaMode threshold so vh metrics firstVisible [] = []"
| "viewable_scan areaMode threshold so vh metrics firstVisible (idx # rest) =
     (case metrics idx of
        None \<Rightarrow> viewable_scan areaMode threshold so vh metrics firstVisible rest
      | Some m \<Rightarrow>
          if on_screen so vh m
          then (if frame_viewable areaMode threshold so vh m then [idx] else []) @
               viewable_scan areaMode threshold so vh metrics idx rest
          else if firstVisible \<ge> 0 then []
          else viewable_scan areaMode threshold so vh metrics firstVisible rest)"

definition computeViewableItems ::
  "viewability_config \<Rightarrow> nat \<Rightarrow> real \<Rightarrow> real \<Rightarrow> (int \<Rightarrow> frame option) \<Rightarrow> range option \<Rightarrow> js_exn + int list" where
  "computeViewableItems config itemCnt scrollOffset viewportHeight getFrameMetrics renderRange =
     (let area = viewAreaCoveragePercentThreshold config; item = itemVisiblePercentThreshold config;
          viewAreaMode = (area \<noteq> None)
      in case (if viewAreaMode then area else item) of
           None \<Rightarrow> Inl (InvariantViolation ''Must set exactly one of itemVisiblePercentThreshold or viewAreaCoveragePercentThreshold'')
         | Some threshold \<Rightarrow>
             if (item \<noteq> None) = (area \<noteq> None)
             then Inl (InvariantViolation ''Must set exactly one of itemVisiblePercentThreshold or viewAreaCoveragePercentThreshold'')
             else if itemCnt = 0 then Inr []
             else
               let r = (case renderRange of Some r \<Rightarrow> r | None \<Rightarrow> \<lparr>first = 0, last = int itemCnt - 1\<rparr>)
               in if last r \<ge> int itemCnt then Inr []
                  else Inr (viewable_scan viewAreaMode threshold scrollOffset viewportHeight getFrameMetrics (-1)
                         [first r..last r]))"

text \<open>\<open>new Map(indices.map(...))\<close>: a later token with the same key replaces the earlier one in place.\<close>

definition tokens_of :: "token_fun \<Rightarrow> int list \<Rightarrow> (string \<times> view_token) list" where
  "tokens_of createViewToken ixs =
     fold (\<lambda>i. let v = createViewToken i True in AList.update (vt_key v) v) ixs []"

definition has_key :: "(string \<times> view_token) list \<Rightarrow> string \<Rightarrow> bool" where
  "has_key m k \<longleftrightarrow> k \<in> fst ` set m"

definition changed_items :: "(string \<times> view_token) list \<Rightarrow> (string \<times> view_token) list \<Rightarrow> view_token list" where
  "changed_items prevItems nextItems =
     map snd (filter (\<lambda>(k, v). \<not> has_key prevItems k) nextItems) @
     map (\<lambda>(k, v). v\<lparr>vt_isViewable := False\<rparr>) (filter (\<lambda>(k, v). \<not> has_key nextItems k) prevItems)"

definition onUpdateSync :: "int list \<Rightarrow> token_fun \<Rightarrow> viewability_helper \<Rightarrow> viewability_helper" where
  "onUpdateSync toCheck createViewToken st =
     (let ixs = filter (\<lambda>i. i \<in> set (vh_viewableIndices st)) toCheck;
          prevItems = vh_viewableItems st;
          nextItems = tokens_of createViewToken ixs;
          changed = changed_items prevItems nextItems
      in if changed = [] then st
         else st\<lparr>vh_viewableItems := nextItems,
                 vh_notified := vh_notified st @ [\<lparr>ni_viewableItems = map snd nextItems, ni_changed = changed\<rparr>]\<rparr>)"

definition onUpdate ::
  "nat \<Rightarrow> real \<Rightarrow> real \<Rightarrow> (int \<Rightarrow> frame option) \<Rightarrow> token_fun \<Rightarrow> range option \<Rightarrow> viewability_helper \<Rightarrow>
   (js_exn, viewability_helper, unit) outcome" where
  "onUpdate itemCnt scrollOffset viewportHeight getFrameMetrics createViewToken renderRange st =
     (if (waitForInteraction (vh_config st) \<and> \<not> vh_hasInteracted st) \<or> itemCnt = 0 \<or> getFrameMetrics 0 = None
      then Ret () st
      else case computeViewableItems (vh_config st) itemCnt scrollOffset viewportHeight getFrameMetrics renderRange of
             Inl e \<Rightarrow> Throw e st
           | Inr viewable \<Rightarrow>
               if vh_viewableIndices st = viewable then Ret () st
               else
                 let st1 = st\<lparr>vh_viewableIndices := viewable\<rparr>; handle = vh_nextTimer st1
                 in case minimumViewTime (vh_config st) of
                      None \<Rightarrow> Ret () (onUpdateSync viewable createViewToken st1)
                    | Some t \<Rightarrow>
                        if t = 0 then Ret () (onUpdateSync viewable createViewToken st1)
                        else Ret () (st1\<lparr>vh_live := vh_live st1 @ [(handle, viewable, createViewToken)],
                                vh_nextTimer := Suc handle, vh_timers := insert handle (vh_timers st1)\<rparr>))"

text \<open>The function given to \<open>setTimeout\<close>.\<close>

definition vh_timeout :: "nat \<times> int list \<times> token_fun \<Rightarrow> viewability_helper \<Rightarrow> viewability_helper" where
  "vh_timeout t st =
     (case t of (handle, viewable, createViewToken) \<Rightarrow>
        onUpdateSync viewable createViewToken (st\<lparr>vh_timers := vh_timers st - {handle}\<rparr>))"

definition resetViewableIndices :: "viewability_helper \<Rightarrow> viewability_helper" where
  "resetViewableIndices st = st\<lparr>vh_viewableIndices := []\<rparr>"

definition recordInteraction :: "viewability_helper \<Rightarrow> viewability_helper" where
  "recordInteraction st = st\<lparr>vh_hasInteracted := True\<rparr>"

section \<open>The scan stops early without missing an item\<close>

text \<open>Frames in list order: both edges increase with the index.\<close>

definition frames_in_order :: "(int \<Rightarrow> frame option) \<Rightarrow> int list \<Rightarrow> bool" where
  "frames_in_order metrics ixs \<longleftrightarrow>
     sorted_wrt (\<lambda>i j. case (metrics i, metrics j) of
        (Some a, Some b) \<Rightarrow> frame_offset a \<le> frame_offset b \<and>
           frame_offset a + frame_length a \<le> frame_offset b + frame_length b
      | _ \<Rightarrow> True) ixs"

definition shown :: "bool \<Rightarrow> real \<Rightarrow> real \<Rightarrow> real \<Rightarrow> (int \<Rightarrow> frame option) \<Rightarrow> int \<Rightarrow> bool" where
  "shown areaMode threshold so vh metrics i =
     (case metrics i of None \<Rightarrow> False | Some m \<Rightarrow> on_screen so vh m \<and> frame_viewable areaMode threshold so vh m)"

lemma shown_simps:
  "metrics i = None \<Longrightarrow> \<not> shown areaMode threshold so vh metrics i"
  "metrics i = Some m \<Longrightarrow> shown areaMode threshold so vh metrics i =
     (on_screen so vh m \<and> frame_viewable areaMode threshold so vh m)"
  by (simp_all add: shown_def)

lemma frames_in_order_Cons:
  "frames_in_order metrics (i # ixs) \<longleftrightarrow>
     (\<forall>j\<in>set ixs. case (metrics i, metrics j) of
        (Some a, Some b) \<Rightarrow> frame_offset a \<le> frame_offset b \<and>
           frame_offset a + frame_length a \<le> frame_offset b + frame_length b
      | _ \<Rightarrow> True) \<and> frames_in_order metrics ixs"
  by (simp add: frames_in_order_def)

text \<open>Below the viewport nothing is shown any more.\<close>

lemma none_shown_below:
  assumes "frames_in_order metrics (i # ixs)" and "metrics i = Some m" and "vh \<le> frame_offset m - so"
  shows "filter (shown areaMode threshold so vh metrics) ixs = []"
proof -
  have "\<not> shown areaMode threshold so vh metrics j" if "j \<in> set ixs" for j
    using assms that
    by (cases "metrics j") (force simp: frames_in_order_Cons shown_def on_screen_def)+
  then show ?thesis by (simp add: filter_empty_conv)
qed

lemma viewable_scan_filter:
  assumes "frames_in_order metrics ixs"
    and "firstVisible \<ge> 0 \<longrightarrow> (\<forall>j\<in>set ixs. \<forall>b. metrics j = Some b \<longrightarrow> frame_offset b - so + frame_length b > 0)"
    and "\<forall>j\<in>set ixs. j \<ge> 0"
  shows "viewable_scan areaMode threshold so vh metrics firstVisible ixs =
         filter (shown areaMode threshold so vh metrics) ixs"
  using assms
proof (induction ixs arbitrary: firstVisible)
  case (Cons i ixs)
  then have fr: "frames_in_order metrics ixs" by (simp add: frames_in_order_Cons)
  show ?case
  proof (cases "metrics i")
    case None
    with Cons fr show ?thesis by (simp add: shown_simps)
  next
    case (Some m)
    show ?thesis
    proof (cases "on_screen so vh m")
      case True
      have "\<forall>j\<in>set ixs. \<forall>b. metrics j = Some b \<longrightarrow> frame_offset b - so + frame_length b > 0"
        using Cons.prems(1) Some True by (fastforce simp: frames_in_order_Cons on_screen_def)
      with Cons.IH [OF fr, of i] Cons.prems(3) Some True show ?thesis by (simp add: shown_simps)
    next
      case False
      show ?thesis
      proof (cases "firstVisible \<ge> 0")
        case True
        with Cons.prems(2) Some False have "vh \<le> frame_offset m - so" by (auto simp: on_screen_def)
        with none_shown_below [OF Cons.prems(1) Some] Some False True show ?thesis by (simp add: shown_simps)
      next
        case neg: False
        with Cons.IH [OF fr, of firstVisible] Cons.prems(2,3) Some False show ?thesis by (simp add: shown_simps)
      qed
    qed
  qed
qed simp

text \<open>
  For frames in list order the scan, which stops at the first frame off screen after a
  visible one, finds exactly the measured items of the render range that are on screen and
  reach the threshold, in order.
\<close>

theorem computeViewableItems_complete:
  assumes "viewAreaCoveragePercentThreshold config = Some threshold" and "itemVisiblePercentThreshold config = None"
    and "0 \<le> first r" and "last r < int n" and "frames_in_order metrics [first r..last r]"
  shows "computeViewableItems config n so vh metrics (Some r) =
         Inr (filter (\<lambda>i. case metrics i of None \<Rightarrow> False
                | Some m \<Rightarrow> on_screen so vh m \<and> frame_viewable True threshold so vh m) [first r..last r])"
proof -
  have "viewable_scan True threshold so vh metrics (-1) [first r..last r] =
        filter (shown True threshold so vh metrics) [first r..last r]"
    by (rule viewable_scan_filter [OF assms(5)]) (use assms(3) in auto)
  then show ?thesis
    using assms(1-4) by (cases "n = 0") (simp_all add: computeViewableItems_def Let_def shown_def [abs_def])
qed

section \<open>Notifications\<close>

text \<open>A client that applies each notification to the set of keys it knows as viewable.\<close>

definition apply_notification :: "notification \<Rightarrow> string set \<Rightarrow> string set" where
  "apply_notification ni known =
     (known \<union> vt_key ` {v \<in> set (ni_changed ni). vt_isViewable v}) -
     vt_key ` {v \<in> set (ni_changed ni). \<not> vt_isViewable v}"

definition client_view :: "notification list \<Rightarrow> string set" where
  "client_view nis = fold apply_notification nis {}"

text \<open>The tokens are stored under their own key and are viewable.\<close>

definition tokens_ok :: "(string \<times> view_token) list \<Rightarrow> bool" where
  "tokens_ok m \<longleftrightarrow> (\<forall>(k, v) \<in> set m. vt_key v = k \<and> vt_isViewable v)"

definition honest :: "token_fun \<Rightarrow> bool" where
  "honest f \<longleftrightarrow> (\<forall>i. vt_isViewable (f i True))"

lemma tokens_ok_update:
  "tokens_ok m \<Longrightarrow> vt_isViewable v \<Longrightarrow> tokens_ok (AList.update (vt_key v) v m)"
  by (induction m) (auto simp: tokens_ok_def)

lemma tokens_of_ok:
  assumes "honest f"
  shows "tokens_ok (tokens_of f ixs)"
proof -
  have "tokens_ok m \<Longrightarrow> tokens_ok (fold (\<lambda>i. let v = f i True in AList.update (vt_key v) v) ixs m)" for m
    using assms by (induction ixs arbitrary: m) (simp_all add: tokens_ok_update honest_def Let_def)
  moreover have "tokens_ok []" by (simp add: tokens_ok_def)
  ultimately show ?thesis unfolding tokens_of_def by blast
qed

text \<open>The tokens of a map with distinct roles, and the keys they stand for.\<close>

lemma tokens_ok_image: "tokens_ok m \<Longrightarrow> vt_key ` snd ` {kv \<in> set m. P (fst kv)} = {k \<in> fst ` set m. P k}"
  by (force simp: tokens_ok_def)

lemma changed_viewable:
  assumes "tokens_ok nxt"
  shows "{v \<in> set (changed_items prv nxt). vt_isViewable v} = snd ` {kv \<in> set nxt. \<not> has_key prv (fst kv)}"
  using assms by (auto simp: changed_items_def tokens_ok_def image_iff split: prod.splits)

lemma changed_hidden:
  assumes "tokens_ok nxt"
  shows "{v \<in> set (changed_items prv nxt). \<not> vt_isViewable v} =
         (\<lambda>kv. (snd kv)\<lparr>vt_isViewable := False\<rparr>) ` {kv \<in> set prv. \<not> has_key nxt (fst kv)}"
proof -
  have "set (changed_items prv nxt) = snd ` {kv \<in> set nxt. \<not> has_key prv (fst kv)} \<union>
     (\<lambda>kv. (snd kv)\<lparr>vt_isViewable := False\<rparr>) ` {kv \<in> set prv. \<not> has_key nxt (fst kv)}"
    by (simp add: changed_items_def case_prod_beta)
  moreover have "vt_isViewable v" if "v \<in> snd ` {kv \<in> set nxt. \<not> has_key prv (fst kv)}" for v
    using that assms by (auto simp: tokens_ok_def)
  ultimately show ?thesis by auto
qed

lemma apply_changed:
  assumes "tokens_ok prv" and "tokens_ok nxt"
  shows "apply_notification \<lparr>ni_viewableItems = vs, ni_changed = changed_items prv nxt\<rparr> (fst ` set prv) = fst ` set nxt"
proof -
  have "vt_key ` (\<lambda>kv. (snd kv)\<lparr>vt_isViewable := False\<rparr>) ` {kv \<in> set prv. \<not> has_key nxt (fst kv)} =
        vt_key ` snd ` {kv \<in> set prv. \<not> has_key nxt (fst kv)}"
    by (simp add: image_image)
  then show ?thesis
    using tokens_ok_image [OF assms(1), of "\<lambda>k. \<not> has_key nxt k"] tokens_ok_image [OF assms(2), of "\<lambda>k. \<not> has_key prv k"]
    by (auto simp: apply_notification_def changed_viewable [OF assms(2)] changed_hidden [OF assms(2)] has_key_def)
qed

lemma changed_empty: "changed_items prv nxt = [] \<Longrightarrow> fst ` set prv = fst ` set nxt"
  by (fastforce simp: changed_items_def filter_empty_conv has_key_def)

definition client_in_sync :: "viewability_helper \<Rightarrow> bool" where
  "client_in_sync st \<longleftrightarrow> tokens_ok (vh_viewableItems st) \<and> (\<forall>t\<in>set (vh_live st). honest (snd (snd t))) \<and>
     client_view (vh_notified st) = fst ` set (vh_viewableItems st)"

lemma client_in_sync_frame [simp]:
  "client_in_sync (st\<lparr>vh_viewableIndices := ixs\<rparr>) = client_in_sync st"
  "client_in_sync (st\<lparr>vh_timers := ts\<rparr>) = client_in_sync st"
  "client_in_sync (st\<lparr>vh_hasInteracted := b\<rparr>) = client_in_sync st"
  by (simp_all add: client_in_sync_def)

lemma client_in_sync_add_timer [simp]:
  "client_in_sync (st\<lparr>vh_live := vh_live st @ [(h, ixs, f)], vh_nextTimer := n\<rparr>) \<longleftrightarrow> client_in_sync st \<and> honest f"
  "client_in_sync (st\<lparr>vh_viewableIndices := js, vh_live := vh_live st @ [(h, ixs, f)], vh_nextTimer := n\<rparr>) \<longleftrightarrow>
     client_in_sync st \<and> honest f"
  by (auto simp: client_in_sync_def)

lemma onUpdateSync_in_sync:
  assumes "honest f" and "client_in_sync st"
  shows "client_in_sync (onUpdateSync ixs f st)"
  using assms apply_changed [OF _ tokens_of_ok [OF assms(1)]] tokens_of_ok [OF assms(1)]
  by (simp add: onUpdateSync_def client_in_sync_def client_view_def Let_def)

datatype vh_event =
    Update nat real real "int \<Rightarrow> frame option" token_fun "range option"
  | Timeout nat
  | Reset
  | Interaction
  | DisposeHelper

definition vh_step :: "viewability_helper \<Rightarrow> vh_event \<Rightarrow> viewability_helper" where
  "vh_step st e =
     (case e of
        Update n so h metrics f r \<Rightarrow> out_state (onUpdate n so h metrics (\<lambda>i b. (f i b)\<lparr>vt_isViewable := b\<rparr>) r st)
      | Timeout k \<Rightarrow>
          (case array_get (vh_live st) k of
             None \<Rightarrow> st
           | Some t \<Rightarrow> vh_timeout t (st\<lparr>vh_live := remove_at k (vh_live st)\<rparr>))
      | Reset \<Rightarrow> resetViewableIndices st
      | Interaction \<Rightarrow> recordInteraction st
      | DisposeHelper \<Rightarrow> vh_dispose st)"

lemma onUpdate_in_sync:
  assumes "honest f" and "client_in_sync st"
  shows "client_in_sync (out_state (onUpdate n so h metrics f r st))"
  using assms onUpdateSync_in_sync [OF assms(1)]
  by (simp add: onUpdate_def Let_def split: sum.splits option.splits)

definition timers_known :: "viewability_helper \<Rightarrow> bool" where
  "timers_known st \<longleftrightarrow> fst ` set (vh_live st) \<subseteq> vh_timers st \<and> distinct (map fst (vh_live st)) \<and>
     (\<forall>h\<in>fst ` set (vh_live st). h < vh_nextTimer st)"

definition vh_ok :: "viewability_helper \<Rightarrow> bool" where
  "vh_ok st \<longleftrightarrow> client_in_sync st \<and> timers_known st"

lemma vh_dispose_in_sync: "client_in_sync st \<Longrightarrow> client_in_sync (vh_dispose st)"
  by (auto simp: client_in_sync_def vh_dispose_def)

lemma remove_at_in_sync: "client_in_sync st \<Longrightarrow> client_in_sync (st\<lparr>vh_live := remove_at k (vh_live st)\<rparr>)"
  using set_remove_at [of k "vh_live st"] by (auto simp: client_in_sync_def)

lemma vh_step_in_sync:
  assumes "client_in_sync st"
  shows "client_in_sync (vh_step st e)"
proof (cases e)
  case (Update n so h metrics f r)
  have "honest (\<lambda>i b. (f i b)\<lparr>vt_isViewable := b\<rparr>)" by (simp add: honest_def)
  with Update assms show ?thesis by (simp add: vh_step_def onUpdate_in_sync)
next
  case (Timeout k)
  show ?thesis
  proof (cases "array_get (vh_live st) k")
    case (Some t)
    then have "t \<in> set (vh_live st)" by (auto simp: js_defs split: if_splits)
    with assms have "honest (snd (snd t))" by (simp add: client_in_sync_def)
    with Timeout Some remove_at_in_sync [OF assms] show ?thesis
      by (cases t) (simp add: vh_step_def vh_timeout_def onUpdateSync_in_sync)
  qed (use Timeout assms in \<open>simp add: vh_step_def\<close>)
qed (use assms vh_dispose_in_sync in
    \<open>simp_all add: vh_step_def resetViewableIndices_def recordInteraction_def\<close>)

lemma onUpdateSync_timers [simp]:
  "vh_live (onUpdateSync ixs f st) = vh_live st" "vh_timers (onUpdateSync ixs f st) = vh_timers st"
  "vh_nextTimer (onUpdateSync ixs f st) = vh_nextTimer st"
  by (simp_all add: onUpdateSync_def Let_def)

lemma onUpdate_timers_known:
  assumes "timers_known st"
  shows "timers_known (out_state (onUpdate n so h metrics f r st))"
  using assms
  by (auto simp: onUpdate_def Let_def timers_known_def split: sum.splits option.splits)

lemma remove_at_timers_known:
  assumes "timers_known st" and "array_get (vh_live st) k = Some t"
  shows "timers_known (st\<lparr>vh_live := remove_at k (vh_live st), vh_timers := vh_timers st - {fst t}\<rparr>)"
proof -
  let ?l = "vh_live st"
  have k: "k < length ?l" "t = ?l ! k" using assms(2) by (auto simp: js_defs split: if_splits)
  have "distinct (map fst ?l)" using assms(1) by (simp add: timers_known_def)
  then have "distinct (map fst (take k ?l @ t # drop (Suc k) ?l))"
    using id_take_nth_drop [OF k(1)] k(2) by simp
  then have "fst t \<notin> fst ` set (remove_at k ?l)" "distinct (map fst (remove_at k ?l))"
    by (auto simp: remove_at_def)
  moreover have "fst ` set (remove_at k ?l) \<subseteq> fst ` set ?l" using set_remove_at [of k ?l] by (rule image_mono)
  moreover have "fst ` set ?l \<subseteq> vh_timers st" "\<forall>h\<in>fst ` set ?l. h < vh_nextTimer st"
    using assms(1) by (simp_all add: timers_known_def)
  ultimately have "fst ` set (remove_at k ?l) \<subseteq> vh_timers st - {fst t}" "distinct (map fst (remove_at k ?l))"
    "\<forall>h\<in>fst ` set (remove_at k ?l). h < vh_nextTimer st" by blast+
  then show ?thesis unfolding timers_known_def by simp
qed

lemma vh_step_timers_known:
  assumes "timers_known st"
  shows "timers_known (vh_step st e)"
proof (cases e)
  case (Timeout k)
  show ?thesis
  proof (cases "array_get (vh_live st) k")
    case (Some t)
    with Timeout remove_at_timers_known [OF assms Some] show ?thesis
      by (cases t) (simp add: vh_step_def vh_timeout_def timers_known_def)
  qed (use Timeout assms in \<open>simp add: vh_step_def\<close>)
next
  case DisposeHelper
  with assms show ?thesis
    by (auto simp: vh_step_def vh_dispose_def timers_known_def distinct_map_filter)
next
  case (Update n so h metrics f r)
  with assms show ?thesis by (simp add: vh_step_def onUpdate_timers_known)
qed (use assms in \<open>simp_all add: vh_step_def resetViewableIndices_def recordInteraction_def timers_known_def\<close>)

interpretation vhm: event_machine vh_step vh_ok
  by unfold_locales (simp add: vh_ok_def vh_step_in_sync vh_step_timers_known)

lemma vh_run_ok: "vh_ok (foldl vh_step (new_ViewabilityHelper config) es)"
  by (rule vhm.inv_run)
    (simp add: vh_ok_def client_in_sync_def timers_known_def new_ViewabilityHelper_def tokens_ok_def client_view_def)

text \<open>
  C34: through any sequence of updates, timeouts, resets, interactions and disposals, a client
  that adds the items reported as viewable and removes those reported as not viewable knows
  exactly the keys of the helper's viewable items.
\<close>

theorem notifications_track_viewable_items:
  "let st = foldl vh_step (new_ViewabilityHelper config) es
   in client_view (vh_notified st) = fst ` set (vh_viewableItems st)"
  using vh_run_ok [of config es] by (simp add: vh_ok_def client_in_sync_def Let_def)

text \<open>
  \<open>dispose\<close> leaves no timer of the helper pending, so no notification comes from a
  timer afterwards.
\<close>

theorem dispose_stops_notifications:
  "let st = foldl vh_step (new_ViewabilityHelper config) es
   in vh_live (vh_dispose st) = [] \<and>
      vh_notified (foldl vh_step (vh_dispose st) (map Timeout ks)) = vh_notified st"
proof -
  let ?st = "foldl vh_step (new_ViewabilityHelper config) es"
  have l: "vh_live (vh_dispose ?st) = []"
    using vh_run_ok [of config es] by (auto simp: vh_ok_def timers_known_def vh_dispose_def filter_empty_conv)
  then have "foldl vh_step (vh_dispose ?st) (map Timeout ks) = vh_dispose ?st"
    by (induction ks) (simp_all add: vh_step_def array_get_def)
  with l show ?thesis by (simp add: Let_def vh_dispose_def)
qed

theorem computeViewableItems_complete_witness:
  "computeViewableItems \<lparr>minimumViewTime = None, viewAreaCoveragePercentThreshold = Some 0,
       itemVisiblePercentThreshold = None, waitForInteraction = False\<rparr>
     3 15 10 (\<lambda>i. Some \<lparr>frame_offset = real_of_int i * 10, frame_length = 10\<rparr>) (Some \<lparr>first = 0, last = 2\<rparr>) = Inr [1, 2]"
proof -
  let ?c = "\<lparr>minimumViewTime = None, viewAreaCoveragePercentThreshold = Some 0,
       itemVisiblePercentThreshold = None, waitForInteraction = False\<rparr>"
  let ?m = "\<lambda>i. Some \<lparr>frame_offset = real_of_int i * 10, frame_length = 10\<rparr>"
  have u: "[0..2] = [0, 1, 2 :: int]" by (simp add: upto.simps)
  have "frames_in_order ?m [0..2]" unfolding u by (simp add: frames_in_order_def)
  then show ?thesis
    using computeViewableItems_complete [of ?c 0 "\<lparr>first = 0, last = 2\<rparr>" 3 ?m 15 10, simplified, unfolded u]
    unfolding u
    by (simp add: on_screen_def frame_viewable_def isViewable_def isEntirelyVisible_def getPixelsVisible_def
        percent_reaches_def Let_def)
qed

end
