(* ===== verification/Pressability.thy ===== *)
theory Pressability
  imports Prelude Complex_Main
begin

text \<open>
  \<open>Libraries/Pressability/Pressability.js\<close>: the state machine of press gestures.

  The five timer fields hold handles, as in the code; the timers that can still fire are in
  \<open>pr_live\<close> with what their closure holds.  A callback of the configuration is a flag (is it
  set?) and its calls are logged, as are the requests to measure the responder; a callback
  that throws or that calls back into the object is not modelled.  The platform, the hover
  state and the clock are the environment of an event.
\<close>

section \<open>Data\<close>

datatype touch_state =
    NOT_RESPONDER
  | RESPONDER_INACTIVE_PRESS_IN
  | RESPONDER_INACTIVE_PRESS_OUT
  | RESPONDER_ACTIVE_PRESS_IN
  | RESPONDER_ACTIVE_PRESS_OUT
  | RESPONDER_ACTIVE_LONG_PRESS_IN
  | RESPONDER_ACTIVE_LONG_PRESS_OUT
  | ERROR

datatype touch_signal =
    DELAY
  | RESPONDER_GRANT
  | RESPONDER_RELEASE
  | RESPONDER_TERMINATED
  | ENTER_PRESS_RECT
  | LEAVE_PRESS_RECT
  | LONG_PRESS_DETECTED

type_synonym point = "real \<times> real"

record press_event =
  ev_touches :: "point list"
  ev_changedTouches :: "point list"
  ev_page :: point

record edges =
  e_bottom :: "real option"
  e_left :: "real option"
  e_right :: "real option"
  e_top :: "real option"

datatype rect_or_size = RectOf edges | SizeOf real

record region =
  r_bottom :: real
  r_left :: real
  r_right :: real
  r_top :: real

record press_config =
  cancelable :: "bool option"
  disabled :: "bool option"
  hitSlop :: "rect_or_size option"
  pressRectOffset :: "rect_or_size option"
  android_disableSound :: "bool option"
  delayHoverIn :: "real option"
  delayHoverOut :: "real option"
  delayLongPress :: "real option"
  delayPressIn :: "real option"
  delayPressOut :: "real option"
  minPressDuration :: "real option"
  onBlur :: bool
  onFocus :: bool
  onKeyDown :: bool
  onKeyUp :: bool
  onHoverIn :: bool
  onHoverOut :: bool
  onLongPress :: bool
  onPress :: bool
  onPressIn :: bool
  onPressMove :: bool
  onPressOut :: bool
  onLongPressShouldCancelPress :: "bool option"
  onResponderTerminationRequest_DEPRECATED :: "bool option"
  onStartShouldSetResponder_DEPRECATED :: "bool option"

datatype press_effect =
    OnBlur | OnFocus | OnKeyDown | OnKeyUp | OnHoverIn | OnHoverOut | OnLongPress | OnPress
  | OnPressIn | OnPressMove | OnPressOut | PlayTouchSound | MeasureResponder

datatype press_timer =
    DelayTimer press_event
  | LongPressTimer press_event
  | PressOutTimer
  | HoverInTimer
  | HoverOutTimer

record pressability =
  pr_config :: press_config
  pr_hoverInDelayTimeout :: "nat option"
  pr_hoverOutDelayTimeout :: "nat option"
  pr_isHovered :: bool
  pr_longPressDelayTimeout :: "nat option"
  pr_pressDelayTimeout :: "nat option"
  pr_pressOutDelayTimeout :: "nat option"
  pr_responderID :: "nat option"
  pr_responderRegion :: "region option"
  pr_touchActivatePosition :: "point option"
  pr_touchActivateTime :: "real option"
  pr_touchState :: touch_state
  pr_live :: "(nat \<times> real \<times> press_timer) list"
  pr_nextTimer :: nat
  pr_log :: "press_effect list"

record press_env =
  pe_platform :: string
  pe_hoverEnabled :: bool
  pe_now :: real

type_synonym press_result = "(js_exn, pressability, unit) outcome"

definition new_Pressability :: "press_config \<Rightarrow> pressability" where
  "new_Pressability config = \<lparr>pr_config = config, pr_hoverInDelayTimeout = None,
     pr_hoverOutDelayTimeout = None, pr_isHovered = False, pr_longPressDelayTimeout = None,
     pr_pressDelayTimeout = None, pr_pressOutDelayTimeout = None, pr_responderID = None,
     pr_responderRegion = None, pr_touchActivatePosition = None, pr_touchActivateTime = None,
     pr_touchState = NOT_RESPONDER, pr_live = [], pr_nextTimer = 1, pr_log = []\<rparr>"

definition configure :: "press_config \<Rightarrow> pressability \<Rightarrow> pressability" where
  "configure config st = st\<lparr>pr_config := config\<rparr>"

section \<open>The transition table\<close>

fun Transitions :: "touch_state \<Rightarrow> touch_signal \<Rightarrow> touch_state" where
  "Transitions NOT_RESPONDER s =
     (case s of RESPONDER_GRANT \<Rightarrow> RESPONDER_INACTIVE_PRESS_IN | _ \<Rightarrow> ERROR)"
| "Transitions RESPONDER_INACTIVE_PRESS_IN s =
     (case s of
        DELAY \<Rightarrow> RESPONDER_ACTIVE_PRESS_IN | RESPONDER_GRANT \<Rightarrow> ERROR
      | RESPONDER_RELEASE \<Rightarrow> NOT_RESPONDER | RESPONDER_TERMINATED \<Rightarrow> NOT_RESPONDER
      | ENTER_PRESS_RECT \<Rightarrow> RESPONDER_INACTIVE_PRESS_IN | LEAVE_PRESS_RECT \<Rightarrow> RESPONDER_INACTIVE_PRESS_OUT
      | LONG_PRESS_DETECTED \<Rightarrow> ERROR)"
| "Transitions RESPONDER_INACTIVE_PRESS_OUT s =
     (case s of
        DELAY \<Rightarrow> RESPONDER_ACTIVE_PRESS_OUT | RESPONDER_GRANT \<Rightarrow> ERROR
      | RESPONDER_RELEASE \<Rightarrow> NOT_RESPONDER | RESPONDER_TERMINATED \<Rightarrow> NOT_RESPONDER
      | ENTER_PRESS_RECT \<Rightarrow> RESPONDER_INACTIVE_PRESS_IN | LEAVE_PRESS_RECT \<Rightarrow> RESPONDER_INACTIVE_PRESS_OUT
      | LONG_PRESS_DETECTED \<Rightarrow> ERROR)"
| "Transitions RESPONDER_ACTIVE_PRESS_IN s =
     (case s of
        DELAY \<Rightarrow> ERROR | RESPONDER_GRANT \<Rightarrow> ERROR
      | RESPONDER_RELEASE \<Rightarrow> NOT_RESPONDER | RESPONDER_TERMINATED \<Rightarrow> NOT_RESPONDER
      | ENTER_PRESS_RECT \<Rightarrow> RESPONDER_ACTIVE_PRESS_IN | LEAVE_PRESS_RECT \<Rightarrow> RESPONDER_ACTIVE_PRESS_OUT
      | LONG_PRESS_DETECTED \<Rightarrow> RESPONDER_ACTIVE_LONG_PRESS_IN)"
| "Transitions RESPONDER_ACTIVE_PRESS_OUT s =
     (case s of
        DELAY \<Rightarrow> ERROR | RESPONDER_GRANT \<Rightarrow> ERROR
      | RESPONDER_RELEASE \<Rightarrow> NOT_RESPONDER | RESPONDER_TERMINATED \<Rightarrow> NOT_RESPONDER
      | ENTER_PRESS_RECT \<Rightarrow> RESPONDER_ACTIVE_PRESS_IN | LEAVE_PRESS_RECT \<Rightarrow> RESPONDER_ACTIVE_PRESS_OUT
      | LONG_PRESS_DETECTED \<Rightarrow> ERROR)"
| "Transitions RESPONDER_ACTIVE_LONG_PRESS_IN s =
     (case s of
        DELAY \<Rightarrow> ERROR | RESPONDER_GRANT \<Rightarrow> ERROR
      | RESPONDER_RELEASE \<Rightarrow> NOT_RESPONDER | RESPONDER_TERMINATED \<Rightarrow> NOT_RESPONDER
      | ENTER_PRESS_RECT \<Rightarrow> RESPONDER_ACTIVE_LONG_PRESS_IN | LEAVE_PRESS_RECT \<Rightarrow> RESPONDER_ACTIVE_LONG_PRESS_OUT
      | LONG_PRESS_DETECTED \<Rightarrow> RESPONDER_ACTIVE_LONG_PRESS_IN)"
| "Transitions RESPONDER_ACTIVE_LONG_PRESS_OUT s =
     (case s of
        DELAY \<Rightarrow> ERROR | RESPONDER_GRANT \<Rightarrow> ERROR
      | RESPONDER_RELEASE \<Rightarrow> NOT_RESPONDER | RESPONDER_TERMINATED \<Rightarrow> NOT_RESPONDER
      | ENTER_PRESS_RECT \<Rightarrow> RESPONDER_ACTIVE_LONG_PRESS_IN | LEAVE_PRESS_RECT \<Rightarrow> RESPONDER_ACTIVE_LONG_PRESS_OUT
      | LONG_PRESS_DETECTED \<Rightarrow> ERROR)"
| "Transitions ERROR s =
     (case s of RESPONDER_GRANT \<Rightarrow> RESPONDER_INACTIVE_PRESS_IN | _ \<Rightarrow> NOT_RESPONDER)"

definition isActiveSignal :: "touch_state \<Rightarrow> bool" where
  "isActiveSignal s \<longleftrightarrow> s = RESPONDER_ACTIVE_PRESS_IN \<or> s = RESPONDER_ACTIVE_LONG_PRESS_IN"

definition isActivationSignal :: "touch_state \<Rightarrow> bool" where
  "isActivationSignal s \<longleftrightarrow> s = RESPONDER_ACTIVE_PRESS_OUT \<or> s = RESPONDER_ACTIVE_PRESS_IN"

definition isPressInSignal :: "touch_state \<Rightarrow> bool" where
  "isPressInSignal s \<longleftrightarrow> s = RESPONDER_INACTIVE_PRESS_IN \<or> s = RESPONDER_ACTIVE_PRESS_IN \<or>
     s = RESPONDER_ACTIVE_LONG_PRESS_IN"

definition isTerminalSignal :: "touch_signal \<Rightarrow> bool" where
  "isTerminalSignal s \<longleftrightarrow> s = RESPONDER_TERMINATED \<or> s = RESPONDER_RELEASE"

definition DEFAULT_LONG_PRESS_DELAY_MS :: real where "DEFAULT_LONG_PRESS_DELAY_MS = 500"
definition DEFAULT_PRESS_RECT_OFFSETS :: region where
  "DEFAULT_PRESS_RECT_OFFSETS = \<lparr>r_bottom = 30, r_left = 20, r_right = 20, r_top = 20\<rparr>"
definition DEFAULT_MIN_PRESS_DURATION :: real where "DEFAULT_MIN_PRESS_DURATION = 130"

section \<open>Timers\<close>

definition clear_timer :: "nat option \<Rightarrow> pressability \<Rightarrow> pressability" where
  "clear_timer h st = st\<lparr>pr_live := filter (\<lambda>t. Some (fst t) \<noteq> h) (pr_live st)\<rparr>"

definition set_timer :: "real \<Rightarrow> press_timer \<Rightarrow> pressability \<Rightarrow> nat \<times> pressability" where
  "set_timer d k st = (pr_nextTimer st,
     st\<lparr>pr_live := pr_live st @ [(pr_nextTimer st, d, k)], pr_nextTimer := Suc (pr_nextTimer st)\<rparr>)"

definition cancelHoverInDelayTimeout :: "pressability \<Rightarrow> pressability" where
  "cancelHoverInDelayTimeout st = (clear_timer (pr_hoverInDelayTimeout st) st)\<lparr>pr_hoverInDelayTimeout := None\<rparr>"

definition cancelHoverOutDelayTimeout :: "pressability \<Rightarrow> pressability" where
  "cancelHoverOutDelayTimeout st = (clear_timer (pr_hoverOutDelayTimeout st) st)\<lparr>pr_hoverOutDelayTimeout := None\<rparr>"

definition cancelLongPressDelayTimeout :: "pressability \<Rightarrow> pressability" where
  "cancelLongPressDelayTimeout st = (clear_timer (pr_longPressDelayTimeout st) st)\<lparr>pr_longPressDelayTimeout := None\<rparr>"

definition cancelPressDelayTimeout :: "pressability \<Rightarrow> pressability" where
  "cancelPressDelayTimeout st = (clear_timer (pr_pressDelayTimeout st) st)\<lparr>pr_pressDelayTimeout := None\<rparr>"

definition cancelPressOutDelayTimeout :: "pressability \<Rightarrow> pressability" where
  "cancelPressOutDelayTimeout st = (clear_timer (pr_pressOutDelayTimeout st) st)\<lparr>pr_pressOutDelayTimeout := None\<rparr>"

text \<open>\<open>reset\<close>\<close>

definition press_reset :: "pressability \<Rightarrow> pressability" where
  "press_reset st =
     cancelPressOutDelayTimeout (cancelPressDelayTimeout (cancelLongPressDelayTimeout
       (cancelHoverOutDelayTimeout (cancelHoverInDelayTimeout st))))"

definition normalizeDelay :: "real option \<Rightarrow> real \<Rightarrow> real \<Rightarrow> real" where
  "normalizeDelay delay mn fallback = max mn (case delay of None \<Rightarrow> fallback | Some d \<Rightarrow> d)"

section \<open>Geometry\<close>

definition getTouchFromPressEvent :: "press_event \<Rightarrow> point" where
  "getTouchFromPressEvent event =
     (if ev_touches event \<noteq> [] then hd (ev_touches event)
      else if ev_changedTouches event \<noteq> [] then hd (ev_changedTouches event)
      else ev_page event)"

definition createSquare :: "real \<Rightarrow> edges" where
  "createSquare sz = \<lparr>e_bottom = Some sz, e_left = Some sz, e_right = Some sz, e_top = Some sz\<rparr>"

definition normalizeRect :: "rect_or_size option \<Rightarrow> edges option" where
  "normalizeRect r = (case r of None \<Rightarrow> None | Some (SizeOf s) \<Rightarrow> Some (createSquare s) | Some (RectOf e) \<Rightarrow> Some e)"

definition edge_or :: "edges option \<Rightarrow> (edges \<Rightarrow> real option) \<Rightarrow> real \<Rightarrow> real" where
  "edge_or r f d = (case r of None \<Rightarrow> d | Some e \<Rightarrow> (case f e of None \<Rightarrow> d | Some x \<Rightarrow> x))"

definition isTouchWithinResponderRegion :: "press_config \<Rightarrow> point \<Rightarrow> region \<Rightarrow> bool" where
  "isTouchWithinResponderRegion config touch reg =
     (let hs = normalizeRect (hitSlop config); po = normalizeRect (pressRectOffset config);
          regionBottom = r_bottom reg + edge_or hs e_bottom 0 + edge_or po e_bottom (r_bottom DEFAULT_PRESS_RECT_OFFSETS);
          regionLeft = r_left reg - edge_or hs e_left 0 - edge_or po e_left (r_left DEFAULT_PRESS_RECT_OFFSETS);
          regionRight = r_right reg + edge_or hs e_right 0 + edge_or po e_right (r_right DEFAULT_PRESS_RECT_OFFSETS);
          regionTop = r_top reg - edge_or hs e_top 0 - edge_or po e_top (r_top DEFAULT_PRESS_RECT_OFFSETS)
      in fst touch > regionLeft \<and> fst touch < regionRight \<and> snd touch > regionTop \<and> snd touch < regionBottom)"

definition measureCallback :: "real \<Rightarrow> real \<Rightarrow> real \<Rightarrow> real \<Rightarrow> real \<Rightarrow> real \<Rightarrow> pressability \<Rightarrow> pressability" where
  "measureCallback left topY width height pageX pageY st =
     (if left = 0 \<and> topY = 0 \<and> width = 0 \<and> height = 0 \<and> pageX = 0 \<and> pageY = 0 then st
      else st\<lparr>pr_responderRegion :=
        Some \<lparr>r_bottom = pageY + height, r_left = pageX, r_right = pageX + width, r_top = pageY\<rparr>\<rparr>)"

section \<open>Transitions and their effects\<close>

definition press_log :: "press_effect \<Rightarrow> pressability \<Rightarrow> pressability" where
  "press_log e st = st\<lparr>pr_log := pr_log st @ [e]\<rparr>"

definition log_if :: "bool \<Rightarrow> press_effect \<Rightarrow> pressability \<Rightarrow> pressability" where
  "log_if b e st = (if b then press_log e st else st)"

definition activate :: "press_env \<Rightarrow> press_event \<Rightarrow> pressability \<Rightarrow> pressability" where
  "activate env event st =
     log_if (onPressIn (pr_config st)) OnPressIn
       (st\<lparr>pr_touchActivatePosition := Some (getTouchFromPressEvent event),
           pr_touchActivateTime := Some (pe_now env)\<rparr>)"

definition press_out_delay :: "press_env \<Rightarrow> pressability \<Rightarrow> real" where
  "press_out_delay env st =
     (let minDuration = normalizeDelay (minPressDuration (pr_config st)) 0 DEFAULT_MIN_PRESS_DURATION;
          pressDuration = pe_now env - (case pr_touchActivateTime st of None \<Rightarrow> 0 | Some t \<Rightarrow> t)
      in max (minDuration - pressDuration) (normalizeDelay (delayPressOut (pr_config st)) 0 0))"

definition deactivate :: "press_env \<Rightarrow> pressability \<Rightarrow> pressability" where
  "deactivate env st =
     (if onPressOut (pr_config st)
      then (let d = press_out_delay env st
            in if d > 0
               then (case set_timer d PressOutTimer st of (h, st1) \<Rightarrow> st1\<lparr>pr_pressOutDelayTimeout := Some h\<rparr>)
               else press_log OnPressOut st)
      else st)\<lparr>pr_touchActivateTime := None\<rparr>"

definition measureResponderRegion :: "pressability \<Rightarrow> pressability" where
  "measureResponderRegion st = (if pr_responderID st = None then st else press_log MeasureResponder st)"

definition shouldLongPressCancelPress :: "press_config \<Rightarrow> bool" where
  "shouldLongPressCancelPress config =
     (case onLongPressShouldCancelPress config of None \<Rightarrow> True | Some b \<Rightarrow> b)"

text \<open>\<open>_performTransitionSideEffects\<close>, its five parts in order.\<close>

definition terminal_effects :: "touch_signal \<Rightarrow> pressability \<Rightarrow> pressability" where
  "terminal_effects signal st =
     (if isTerminalSignal signal
      then cancelLongPressDelayTimeout (st\<lparr>pr_touchActivatePosition := None\<rparr>) else st)"

definition measure_effects :: "touch_state \<Rightarrow> touch_state \<Rightarrow> pressability \<Rightarrow> pressability" where
  "measure_effects prev nxt st =
     (let isInitialTransition = (prev = NOT_RESPONDER \<and> nxt = RESPONDER_INACTIVE_PRESS_IN);
          isActivationTransition = (\<not> isActivationSignal prev \<and> isActivationSignal nxt)
      in if isInitialTransition \<or> isActivationTransition then measureResponderRegion st else st)"

definition activation_effects ::
  "press_env \<Rightarrow> touch_state \<Rightarrow> touch_state \<Rightarrow> press_event \<Rightarrow> pressability \<Rightarrow> pressability" where
  "activation_effects env prev nxt event st =
     (if \<not> isActiveSignal prev \<and> isActiveSignal nxt then activate env event st
      else if isActiveSignal prev \<and> \<not> isActiveSignal nxt then deactivate env st
      else st)"

definition press_effects ::
  "press_env \<Rightarrow> touch_state \<Rightarrow> touch_state \<Rightarrow> touch_signal \<Rightarrow> press_event \<Rightarrow> pressability \<Rightarrow> pressability" where
  "press_effects env prev nxt signal event st =
     (let config = pr_config st;
          canceledByLongPress = (onLongPress config \<and> prev = RESPONDER_ACTIVE_LONG_PRESS_IN \<and>
            shouldLongPressCancelPress config)
      in if isPressInSignal prev \<and> signal = RESPONDER_RELEASE \<and> onPress config \<and> \<not> canceledByLongPress
         then press_log OnPress
                (log_if (pe_platform env = ''android'' \<and> android_disableSound config \<noteq> Some True) PlayTouchSound
                  (if \<not> isActiveSignal nxt \<and> \<not> isActiveSignal prev then deactivate env (activate env event st) else st))
         else st)"

definition performTransitionSideEffects ::
  "press_env \<Rightarrow> touch_state \<Rightarrow> touch_state \<Rightarrow> touch_signal \<Rightarrow> press_event \<Rightarrow> pressability \<Rightarrow> pressability" where
  "performTransitionSideEffects env prev nxt signal event st =
     cancelPressDelayTimeout
       (press_effects env prev nxt signal event
         (activation_effects env prev nxt event
           (log_if (isPressInSignal prev \<and> signal = LONG_PRESS_DETECTED \<and> onLongPress (pr_config st)) OnLongPress
             (measure_effects prev nxt (terminal_effects signal st)))))"

definition receiveSignal :: "press_env \<Rightarrow> touch_signal \<Rightarrow> press_event \<Rightarrow> pressability \<Rightarrow> press_result" where
  "receiveSignal env signal event st =
     (let prev = pr_touchState st; nxt = Transitions prev signal
      in if pr_responderID st = None \<and> signal = RESPONDER_RELEASE then Ret () st
         else if nxt = ERROR then Throw (InvariantViolation ''Pressability: Invalid signal for state on responder'') st
         else if prev \<noteq> nxt
         then Ret () ((performTransitionSideEffects env prev nxt signal event st)\<lparr>pr_touchState := nxt\<rparr>)
         else Ret () st)"

definition handleLongPress :: "press_env \<Rightarrow> press_event \<Rightarrow> pressability \<Rightarrow> press_result" where
  "handleLongPress env event st =
     (if pr_touchState st = RESPONDER_ACTIVE_PRESS_IN \<or> pr_touchState st = RESPONDER_ACTIVE_LONG_PRESS_IN
      then receiveSignal env LONG_PRESS_DETECTED event st else Ret () st)"

section \<open>Event handlers\<close>

definition onStartShouldSetResponder :: "press_config \<Rightarrow> bool" where
  "onStartShouldSetResponder config =
     (case disabled config of
        None \<Rightarrow> (case onStartShouldSetResponder_DEPRECATED config of None \<Rightarrow> True | Some b \<Rightarrow> b)
      | Some d \<Rightarrow> \<not> d)"

definition onResponderTerminationRequest :: "press_config \<Rightarrow> bool" where
  "onResponderTerminationRequest config =
     (case cancelable config of
        None \<Rightarrow> (case onResponderTerminationRequest_DEPRECATED config of None \<Rightarrow> True | Some b \<Rightarrow> b)
      | Some c \<Rightarrow> c)"

definition arm_long_press :: "press_event \<Rightarrow> real \<Rightarrow> pressability \<Rightarrow> pressability" where
  "arm_long_press event pressInDelay st =
     (let d = normalizeDelay (delayLongPress (pr_config st)) 10 (DEFAULT_LONG_PRESS_DELAY_MS - pressInDelay)
      in case set_timer (d + pressInDelay) (LongPressTimer event) st of
           (h, st1) \<Rightarrow> st1\<lparr>pr_longPressDelayTimeout := Some h\<rparr>)"

definition onResponderGrant :: "press_env \<Rightarrow> nat \<Rightarrow> press_event \<Rightarrow> pressability \<Rightarrow> press_result" where
  "onResponderGrant env currentTarget event st =
     (let st1 = (cancelPressOutDelayTimeout st)\<lparr>pr_responderID := Some currentTarget, pr_touchState := NOT_RESPONDER\<rparr>
      in and_then (receiveSignal env RESPONDER_GRANT event st1) (\<lambda>_ st2.
           let pressInDelay = normalizeDelay (delayPressIn (pr_config st2)) 0 0
           in and_then
                (if pressInDelay > 0
                 then (case set_timer pressInDelay (DelayTimer event) st2 of
                         (h, st3) \<Rightarrow> Ret () (st3\<lparr>pr_pressDelayTimeout := Some h\<rparr>))
                 else receiveSignal env DELAY event st2)
                (\<lambda>_ st4. Ret () (arm_long_press event pressInDelay st4))))"

definition hypot :: "real \<Rightarrow> real \<Rightarrow> real" where
  "hypot x y = sqrt (x * x + y * y)"

definition moved_far :: "point option \<Rightarrow> point \<Rightarrow> bool" where
  "moved_far position touch =
     (case position of None \<Rightarrow> False | Some p \<Rightarrow> hypot (fst p - fst touch) (snd p - snd touch) > 10)"

definition onResponderMove :: "press_env \<Rightarrow> press_event \<Rightarrow> pressability \<Rightarrow> press_result" where
  "onResponderMove env event st =
     (let st1 = log_if (onPressMove (pr_config st)) OnPressMove st
      in case pr_responderRegion st1 of
           None \<Rightarrow> Ret () st1
         | Some reg \<Rightarrow>
             let touch = getTouchFromPressEvent event;
                 st2 = (if moved_far (pr_touchActivatePosition st1) touch then cancelLongPressDelayTimeout st1 else st1)
             in if isTouchWithinResponderRegion (pr_config st2) touch reg
                then receiveSignal env ENTER_PRESS_RECT event st2
                else receiveSignal env LEAVE_PRESS_RECT event (cancelLongPressDelayTimeout st2))"

definition onResponderRelease :: "press_env \<Rightarrow> press_event \<Rightarrow> pressability \<Rightarrow> press_result" where
  "onResponderRelease env event st = receiveSignal env RESPONDER_RELEASE event st"

definition onResponderTerminate :: "press_env \<Rightarrow> press_event \<Rightarrow> pressability \<Rightarrow> press_result" where
  "onResponderTerminate env event st = receiveSignal env RESPONDER_TERMINATED event st"

definition onClick :: "pressability \<Rightarrow> pressability" where
  "onClick st = log_if (onPress (pr_config st)) OnPress st"

definition handle_onBlur :: "pressability \<Rightarrow> pressability" where
  "handle_onBlur st = log_if (onBlur (pr_config st)) OnBlur st"

definition handle_onFocus :: "pressability \<Rightarrow> pressability" where
  "handle_onFocus st = log_if (onFocus (pr_config st)) OnFocus st"

definition handle_onKeyDown :: "pressability \<Rightarrow> pressability" where
  "handle_onKeyDown st = log_if (onKeyDown (pr_config st)) OnKeyDown st"

definition handle_onKeyUp :: "pressability \<Rightarrow> pressability" where
  "handle_onKeyUp st = log_if (onKeyUp (pr_config st)) OnKeyUp st"

definition mouse_handlers :: "press_env \<Rightarrow> bool" where
  "mouse_handlers env \<longleftrightarrow> \<not> (pe_platform env = ''ios'' \<or> pe_platform env = ''android'')"

definition onMouseEnter :: "press_env \<Rightarrow> pressability \<Rightarrow> pressability" where
  "onMouseEnter env st =
     (if pe_hoverEnabled env
      then (let st1 = cancelHoverOutDelayTimeout (st\<lparr>pr_isHovered := True\<rparr>)
            in if onHoverIn (pr_config st1)
               then (let d = normalizeDelay (delayHoverIn (pr_config st1)) 0 0
                     in if d > 0
                        then (case set_timer d HoverInTimer st1 of (h, st2) \<Rightarrow> st2\<lparr>pr_hoverInDelayTimeout := Some h\<rparr>)
                        else press_log OnHoverIn st1)
               else st1)
      else st)"

definition onMouseLeave :: "press_env \<Rightarrow> pressability \<Rightarrow> pressability" where
  "onMouseLeave env st =
     (if pr_isHovered st
      then (let st1 = cancelHoverInDelayTimeout (st\<lparr>pr_isHovered := False\<rparr>)
            in if onHoverOut (pr_config st1)
               then (let d = normalizeDelay (delayHoverOut (pr_config st1)) 0 0
                     in if d > 0
                        then (case set_timer d HoverOutTimer st1 of (h, st2) \<Rightarrow> st2\<lparr>pr_hoverInDelayTimeout := Some h\<rparr>)
                        else press_log OnHoverOut st1)
               else st1)
      else st)"

text \<open>A timer fires.\<close>

definition fire_timer :: "press_env \<Rightarrow> nat \<Rightarrow> pressability \<Rightarrow> press_result" where
  "fire_timer env k st =
     (case array_get (pr_live st) k of
        None \<Rightarrow> Ret () st
      | Some (h, d, timer) \<Rightarrow>
          let st1 = st\<lparr>pr_live := remove_at k (pr_live st)\<rparr>
          in case timer of
               DelayTimer event \<Rightarrow> receiveSignal env DELAY event st1
             | LongPressTimer event \<Rightarrow> handleLongPress env event st1
             | PressOutTimer \<Rightarrow> Ret () (press_log OnPressOut st1)
             | HoverInTimer \<Rightarrow> Ret () (press_log OnHoverIn st1)
             | HoverOutTimer \<Rightarrow> Ret () (press_log OnHoverOut st1))"

section \<open>The machine\<close>

datatype press_input =
    Grant nat press_event
  | Move press_event
  | Release press_event
  | Terminate press_event
  | Fire nat
  | Measured real real real real real real
  | MouseEnter
  | MouseLeave
  | Configure press_config
  | ResetTimers

definition press_step :: "press_env \<times> press_input \<Rightarrow> pressability \<Rightarrow> press_result" where
  "press_step i st =
     (case i of (env, ev) \<Rightarrow>
       (case ev of
          Grant target e \<Rightarrow> onResponderGrant env target e st
        | Move e \<Rightarrow> onResponderMove env e st
        | Release e \<Rightarrow> onResponderRelease env e st
        | Terminate e \<Rightarrow> onResponderTerminate env e st
        | Fire k \<Rightarrow> fire_timer env k st
        | Measured l t w h x y \<Rightarrow> Ret () (measureCallback l t w h x y st)
        | MouseEnter \<Rightarrow> Ret () (if mouse_handlers env then onMouseEnter env st else st)
        | MouseLeave \<Rightarrow> Ret () (if mouse_handlers env then onMouseLeave env st else st)
        | Configure c \<Rightarrow> Ret () (configure c st)
        | ResetTimers \<Rightarrow> Ret () (press_reset st)))"

fun press_run :: "(press_env \<times> press_input) list \<Rightarrow> pressability \<Rightarrow> press_result" where
  "press_run [] st = Ret () st"
| "press_run (i # rest) st = and_then (press_step i st) (\<lambda>_. press_run rest)"

text \<open>
  The responder system grants before it moves, releases or terminates; everything else may
  happen at any time.
\<close>

fun obeys_protocol :: "bool \<Rightarrow> press_input list \<Rightarrow> bool" where
  "obeys_protocol granted [] = True"
| "obeys_protocol granted (Grant t e # rest) = obeys_protocol True rest"
| "obeys_protocol granted (Move e # rest) = (granted \<and> obeys_protocol True rest)"
| "obeys_protocol granted (Release e # rest) = (granted \<and> obeys_protocol False rest)"
| "obeys_protocol granted (Terminate e # rest) = (granted \<and> obeys_protocol False rest)"
| "obeys_protocol granted (_ # rest) = obeys_protocol granted rest"

lemma press_run_append: "press_run (xs @ ys) s = and_then (press_run xs s) (\<lambda>_. press_run ys)"
proof (induction xs arbitrary: s)
  case (Cons a xs)
  then show ?case by (cases "press_step a s") simp_all
qed simp

section \<open>What the effects of a transition leave alone\<close>

definition delays :: "pressability \<Rightarrow> nat set" where
  "delays st = {h. \<exists>d e. (h, d, DelayTimer e) \<in> set (pr_live st)}"

lemma delays_clear [simp]: "delays (clear_timer h st) = delays st - set_option h"
  by (cases h) (auto simp: delays_def clear_timer_def)

lemma delays_set_timer: "(\<And>e. k \<noteq> DelayTimer e) \<Longrightarrow> delays (snd (set_timer d k st)) = delays st"
  by (auto simp: delays_def set_timer_def)

lemma delays_fields [simp]:
  "delays (st\<lparr>pr_pressDelayTimeout := h\<rparr>) = delays st" "delays (st\<lparr>pr_touchState := s\<rparr>) = delays st"
  "delays (st\<lparr>pr_responderID := r\<rparr>) = delays st" "delays (st\<lparr>pr_config := c\<rparr>) = delays st"
  "delays (st\<lparr>pr_responderRegion := g\<rparr>) = delays st"
  by (simp_all add: delays_def)

lemma clear_timer_fields [simp]:
  "pr_pressDelayTimeout (clear_timer h st) = pr_pressDelayTimeout st" "pr_touchState (clear_timer h st) = pr_touchState st"
  "pr_responderID (clear_timer h st) = pr_responderID st" "pr_config (clear_timer h st) = pr_config st"
  "pr_responderRegion (clear_timer h st) = pr_responderRegion st" "pr_log (clear_timer h st) = pr_log st"
  by (simp_all add: clear_timer_def)

lemma set_timer_fields [simp]:
  "pr_pressDelayTimeout (snd (set_timer d k st)) = pr_pressDelayTimeout st"
  "pr_touchState (snd (set_timer d k st)) = pr_touchState st"
  "pr_responderID (snd (set_timer d k st)) = pr_responderID st" "pr_config (snd (set_timer d k st)) = pr_config st"
  "pr_responderRegion (snd (set_timer d k st)) = pr_responderRegion st" "pr_log (snd (set_timer d k st)) = pr_log st"
  by (simp_all add: set_timer_def)

definition calls :: "press_effect \<Rightarrow> pressability \<Rightarrow> nat" where
  "calls x st = count_list (pr_log st) x"

abbreviation presses :: "pressability \<Rightarrow> nat" where
  "presses \<equiv> calls OnPress"

definition calm :: "pressability \<Rightarrow> pressability \<Rightarrow> bool" where
  "calm st st' \<longleftrightarrow> delays st' \<subseteq> delays st \<and> pr_pressDelayTimeout st' = pr_pressDelayTimeout st \<and>
     pr_touchState st' = pr_touchState st \<and> pr_responderID st' = pr_responderID st \<and>
     pr_config st' = pr_config st \<and> pr_responderRegion st' = pr_responderRegion st"

lemma calm_refl [simp]: "calm st st"
  by (simp add: calm_def)

lemma calm_trans: "calm a b \<Longrightarrow> calm b c \<Longrightarrow> calm a c"
  by (auto simp: calm_def)

lemma calm_log [simp]: "calm a (press_log e st) = calm a st" "calm a (log_if b e st) = calm a st"
  by (simp_all add: calm_def delays_def press_log_def log_if_def)

lemma calm_fields [simp]:
  "calm a (st\<lparr>pr_touchActivatePosition := p\<rparr>) = calm a st" "calm a (st\<lparr>pr_touchActivateTime := t\<rparr>) = calm a st"
  "calm a (st\<lparr>pr_longPressDelayTimeout := h\<rparr>) = calm a st" "calm a (st\<lparr>pr_pressOutDelayTimeout := h\<rparr>) = calm a st"
  "calm a (st\<lparr>pr_hoverInDelayTimeout := h\<rparr>) = calm a st" "calm a (st\<lparr>pr_hoverOutDelayTimeout := h\<rparr>) = calm a st"
  "calm a (st\<lparr>pr_isHovered := b\<rparr>) = calm a st"
  by (simp_all add: calm_def delays_def)

lemma calm_clear: "calm a st \<Longrightarrow> calm a (clear_timer h st)"
  by (auto simp: calm_def)

lemma calm_set_timer: "calm a st \<Longrightarrow> (\<And>e. k \<noteq> DelayTimer e) \<Longrightarrow> calm a (snd (set_timer d k st))"
  using delays_set_timer [of k d st] by (simp add: calm_def)

lemma calm_activate [simp]: "calm a (activate env e st) = calm a st"
  by (simp add: activate_def)

lemma calm_deactivate: "calm a st \<Longrightarrow> calm a (deactivate env st)"
  using calm_set_timer [of a st PressOutTimer]
  by (simp add: deactivate_def Let_def case_prod_beta)

lemma calm_effects:
  "calm a st \<Longrightarrow> calm a (terminal_effects s st)"
  "calm a st \<Longrightarrow> calm a (measure_effects p n st)"
  "calm a st \<Longrightarrow> calm a (activation_effects env p n e st)"
  "calm a st \<Longrightarrow> calm a (press_effects env p n s e st)"
  by (simp_all add: terminal_effects_def cancelLongPressDelayTimeout_def measure_effects_def
      measureResponderRegion_def activation_effects_def press_effects_def Let_def calm_clear calm_deactivate)

lemma performTransition_calm:
  "calm (st\<lparr>pr_pressDelayTimeout := None\<rparr>) (performTransitionSideEffects env p n s e st)"
  "delays (performTransitionSideEffects env p n s e st) \<subseteq> delays st - set_option (pr_pressDelayTimeout st)"
proof -
  define u where "u = press_effects env p n s e
         (activation_effects env p n e
           (log_if (isPressInSignal p \<and> s = LONG_PRESS_DETECTED \<and> onLongPress (pr_config st)) OnLongPress
             (measure_effects p n (terminal_effects s st))))"
  have c: "calm st u" unfolding u_def by (simp add: calm_effects)
  have t: "performTransitionSideEffects env p n s e st = cancelPressDelayTimeout u"
    by (simp add: performTransitionSideEffects_def u_def)
  show "calm (st\<lparr>pr_pressDelayTimeout := None\<rparr>) (performTransitionSideEffects env p n s e st)"
    using c unfolding t by (auto simp: calm_def cancelPressDelayTimeout_def)
  show "delays (performTransitionSideEffects env p n s e st) \<subseteq> delays st - set_option (pr_pressDelayTimeout st)"
    using c unfolding t by (auto simp: calm_def cancelPressDelayTimeout_def)
qed

text \<open>The state after a signal that the table allows.\<close>

definition after_signal :: "press_env \<Rightarrow> touch_signal \<Rightarrow> press_event \<Rightarrow> pressability \<Rightarrow> pressability" where
  "after_signal env s e st =
     (if Transitions (pr_touchState st) s = pr_touchState st then st
      else (performTransitionSideEffects env (pr_touchState st) (Transitions (pr_touchState st) s) s e st)
             \<lparr>pr_touchState := Transitions (pr_touchState st) s\<rparr>)"

lemma receiveSignal_returns:
  "pr_responderID st \<noteq> None \<Longrightarrow> Transitions (pr_touchState st) s \<noteq> ERROR \<Longrightarrow>
   receiveSignal env s e st = Ret () (after_signal env s e st)"
  by (auto simp: receiveSignal_def after_signal_def Let_def)

lemma after_signal_fields [simp]:
  "pr_touchState (after_signal env s e st) = Transitions (pr_touchState st) s"
  "pr_responderID (after_signal env s e st) = pr_responderID st"
  "pr_config (after_signal env s e st) = pr_config st"
  "pr_responderRegion (after_signal env s e st) = pr_responderRegion st"
  using performTransition_calm(1) [of st env "pr_touchState st" "Transitions (pr_touchState st) s" s e]
  by (simp_all add: after_signal_def calm_def)

lemma after_signal_delays:
  "delays st \<subseteq> set_option (pr_pressDelayTimeout st) \<Longrightarrow> Transitions (pr_touchState st) s \<noteq> pr_touchState st \<Longrightarrow>
   delays (after_signal env s e st) = {}"
  using performTransition_calm(2) [of env "pr_touchState st" "Transitions (pr_touchState st) s" s e st]
  by (auto simp: after_signal_def)

section \<open>The invariant\<close>

text \<open>The timer of \<open>delayPressIn\<close> is pending only while the press is inactive and inside.\<close>

definition press_ok :: "pressability \<Rightarrow> bool" where
  "press_ok st \<longleftrightarrow> delays st \<subseteq> set_option (pr_pressDelayTimeout st) \<and>
     (delays st \<noteq> {} \<longrightarrow> pr_touchState st = RESPONDER_INACTIVE_PRESS_IN) \<and>
     pr_touchState st \<noteq> ERROR \<and> (pr_touchState st \<noteq> NOT_RESPONDER \<longrightarrow> pr_responderID st \<noteq> None)"

lemma calm_press_ok: "calm st st' \<Longrightarrow> press_ok st \<Longrightarrow> press_ok st'"
  by (auto simp: calm_def press_ok_def)

definition granted :: "pressability \<Rightarrow> bool" where
  "granted st \<longleftrightarrow> pr_touchState st \<noteq> NOT_RESPONDER"

lemma calm_cancels:
  "calm a st \<Longrightarrow> calm a (cancelLongPressDelayTimeout st)" "calm a st \<Longrightarrow> calm a (cancelPressOutDelayTimeout st)"
  "calm a st \<Longrightarrow> calm a (cancelHoverInDelayTimeout st)" "calm a st \<Longrightarrow> calm a (cancelHoverOutDelayTimeout st)"
  "calm a st \<Longrightarrow> calm a (arm_long_press e d st)"
  using calm_set_timer [of a st "LongPressTimer e"]
  by (simp_all add: cancelLongPressDelayTimeout_def cancelPressOutDelayTimeout_def cancelHoverInDelayTimeout_def
      cancelHoverOutDelayTimeout_def calm_clear arm_long_press_def Let_def case_prod_beta)

text \<open>A signal within a gesture.\<close>

lemma after_signal_ok:
  assumes "press_ok st" and "granted st" and "Transitions (pr_touchState st) s \<noteq> ERROR"
  shows "receiveSignal env s e st = Ret () (after_signal env s e st)" "press_ok (after_signal env s e st)"
proof -
  have r: "pr_responderID st \<noteq> None" "delays st \<subseteq> set_option (pr_pressDelayTimeout st)"
    using assms(1,2) by (auto simp: press_ok_def granted_def)
  then show "receiveSignal env s e st = Ret () (after_signal env s e st)"
    using assms(3) by (intro receiveSignal_returns) auto
  show "press_ok (after_signal env s e st)"
  proof (cases "Transitions (pr_touchState st) s = pr_touchState st")
    case True
    with assms(1) show ?thesis by (simp add: after_signal_def)
  next
    case False
    with r assms(3) show ?thesis using after_signal_delays [OF r(2) False]
      by (simp add: press_ok_def)
  qed
qed

text \<open>The end of \<open>onResponderGrant\<close>.\<close>

definition after_grant :: "press_env \<Rightarrow> nat \<Rightarrow> press_event \<Rightarrow> pressability \<Rightarrow> pressability" where
  "after_grant env t e st =
     (let st2 = after_signal env RESPONDER_GRANT e
            ((cancelPressOutDelayTimeout st)\<lparr>pr_responderID := Some t, pr_touchState := NOT_RESPONDER\<rparr>);
          d = normalizeDelay (delayPressIn (pr_config st2)) 0 0
      in arm_long_press e d
           (if d > 0 then (snd (set_timer d (DelayTimer e) st2))\<lparr>pr_pressDelayTimeout := Some (fst (set_timer d (DelayTimer e) st2))\<rparr>
            else after_signal env DELAY e st2))"

lemma onResponderGrant_returns:
  "onResponderGrant env t e st = Ret () (after_grant env t e st)"
  by (simp add: onResponderGrant_def after_grant_def receiveSignal_returns Let_def case_prod_beta)

lemma after_grant_ok:
  assumes "press_ok st"
  shows "press_ok (after_grant env t e st)"
    "pr_touchState (after_grant env t e st) \<in> {RESPONDER_INACTIVE_PRESS_IN, RESPONDER_ACTIVE_PRESS_IN}"
    "pr_config (after_grant env t e st) = pr_config st"
    "pr_responderRegion (after_grant env t e st) = pr_responderRegion st"
proof -
  let ?s1 = "(cancelPressOutDelayTimeout st)\<lparr>pr_responderID := Some t, pr_touchState := NOT_RESPONDER\<rparr>"
  define s2 where "s2 = after_signal env RESPONDER_GRANT e ?s1"
  define d where "d = normalizeDelay (delayPressIn (pr_config s2)) 0 0"
  define s3 where "s3 = (if d > 0 then (snd (set_timer d (DelayTimer e) s2))\<lparr>pr_pressDelayTimeout := Some (fst (set_timer d (DelayTimer e) s2))\<rparr>
            else after_signal env DELAY e s2)"
  have c: "calm st (cancelPressOutDelayTimeout st)" by (simp add: calm_cancels)
  have "delays ?s1 \<subseteq> set_option (pr_pressDelayTimeout ?s1)" using assms c by (auto simp: press_ok_def calm_def)
  then have d2: "delays s2 = {}" unfolding s2_def by (rule after_signal_delays) simp
  have f2: "pr_touchState s2 = RESPONDER_INACTIVE_PRESS_IN" "pr_responderID s2 = Some t"
    "pr_config s2 = pr_config st" "pr_responderRegion s2 = pr_responderRegion st"
    using c by (simp_all add: s2_def calm_def)
  then have ok2: "press_ok s2" using d2 by (simp add: press_ok_def)
  have ok3: "press_ok s3 \<and> pr_touchState s3 \<in> {RESPONDER_INACTIVE_PRESS_IN, RESPONDER_ACTIVE_PRESS_IN} \<and>
      pr_config s3 = pr_config st \<and> pr_responderRegion s3 = pr_responderRegion st"
  proof (cases "d > 0")
    case True
    have "delays (snd (set_timer d (DelayTimer e) s2)) \<subseteq> {fst (set_timer d (DelayTimer e) s2)}"
      using d2 by (auto simp: delays_def set_timer_def)
    with True f2 show ?thesis by (simp add: s3_def press_ok_def)
  next
    case False
    with f2 after_signal_ok [OF ok2, of DELAY env e] show ?thesis by (simp add: s3_def granted_def)
  qed
  have g: "after_grant env t e st = arm_long_press e d s3"
    by (simp add: after_grant_def s2_def s3_def d_def Let_def)
  have "calm s3 (after_grant env t e st)" unfolding g by (simp add: calm_cancels)
  with ok3 show "press_ok (after_grant env t e st)"
    "pr_touchState (after_grant env t e st) \<in> {RESPONDER_INACTIVE_PRESS_IN, RESPONDER_ACTIVE_PRESS_IN}"
    "pr_config (after_grant env t e st) = pr_config st"
    "pr_responderRegion (after_grant env t e st) = pr_responderRegion st"
    using calm_press_ok [of s3] by (auto simp: calm_def)
qed

section \<open>Gestures never fail\<close>

definition press_in :: "pressability \<Rightarrow> bool" where
  "press_in st \<longleftrightarrow> isPressInSignal (pr_touchState st)"

definition same_gesture :: "pressability \<Rightarrow> pressability \<Rightarrow> bool" where
  "same_gesture st st' \<longleftrightarrow> press_ok st' \<and> granted st' = granted st \<and> pr_config st' = pr_config st \<and>
     pr_responderRegion st' = pr_responderRegion st \<and> press_in st' = press_in st"

lemma calm_same_gesture: "calm st st' \<Longrightarrow> press_ok st \<Longrightarrow> same_gesture st st'"
  using calm_press_ok [of st st'] by (simp add: same_gesture_def calm_def granted_def press_in_def)

lemma rect_signals:
  assumes "t \<noteq> NOT_RESPONDER" and "t \<noteq> ERROR" and "s = ENTER_PRESS_RECT \<or> s = LEAVE_PRESS_RECT"
  shows "Transitions t s \<noteq> ERROR" "Transitions t s \<noteq> NOT_RESPONDER"
    "isPressInSignal (Transitions t s) = (s = ENTER_PRESS_RECT)"
  using assms by (cases t; auto simp: isPressInSignal_def)+

lemma onResponderMove_ok:
  assumes "press_ok st" and "granted st"
  shows "\<exists>st'. onResponderMove env e st = Ret () st' \<and> press_ok st' \<and> granted st' \<and> pr_config st' = pr_config st \<and>
     pr_responderRegion st' = pr_responderRegion st \<and>
     press_in st' = (case pr_responderRegion st of None \<Rightarrow> press_in st
        | Some reg \<Rightarrow> isTouchWithinResponderRegion (pr_config st) (getTouchFromPressEvent e) reg)"
proof -
  let ?touch = "getTouchFromPressEvent e"
  define s1 where "s1 = log_if (onPressMove (pr_config st)) OnPressMove st"
  have c1: "calm st s1" by (simp add: s1_def)
  then have f1: "press_ok s1" "pr_config s1 = pr_config st" "pr_responderRegion s1 = pr_responderRegion st"
    "pr_touchState s1 = pr_touchState st"
    using calm_press_ok [OF c1 assms(1)] by (simp_all add: calm_def)
  show ?thesis
  proof (cases "pr_responderRegion st")
    case None
    with f1 assms show ?thesis
      by (simp add: onResponderMove_def flip: s1_def) (simp add: granted_def press_in_def)
  next
    case (Some reg)
    define s2 where "s2 = (if moved_far (pr_touchActivatePosition s1) ?touch then cancelLongPressDelayTimeout s1 else s1)"
    define b where "b = isTouchWithinResponderRegion (pr_config st) ?touch reg"
    define s3 where "s3 = (if b then s2 else cancelLongPressDelayTimeout s2)"
    define sg where "sg = (if b then ENTER_PRESS_RECT else LEAVE_PRESS_RECT)"
    have "calm s1 s2" by (simp add: s2_def calm_cancels)
    then have c3: "calm st s3"
      using c1 calm_cancels(1) [of s1 s2] calm_trans [of st s1 s3] by (auto simp: s3_def)
    then have f3: "press_ok s3" "granted s3" "pr_config s3 = pr_config st"
      "pr_responderRegion s3 = pr_responderRegion st" "pr_config s2 = pr_config st"
      using calm_press_ok [OF c3 assms(1)] assms(2) \<open>calm s1 s2\<close> f1(2) by (simp_all add: calm_def granted_def)
    have t: "pr_touchState s3 \<noteq> NOT_RESPONDER" "pr_touchState s3 \<noteq> ERROR"
      using f3 by (simp_all add: granted_def press_ok_def)
    note r = rect_signals [OF t, of sg]
    have sg: "sg = ENTER_PRESS_RECT \<or> sg = LEAVE_PRESS_RECT" "(sg = ENTER_PRESS_RECT) = b" by (simp_all add: sg_def)
    have m: "onResponderMove env e st = receiveSignal env sg e s3"
      using Some f1(3) f3(5)
      by (simp add: onResponderMove_def Let_def sg_def s3_def b_def flip: s1_def s2_def)
    note o = after_signal_ok [OF f3(1,2) r(1) [OF sg(1)], of env e]
    show ?thesis
      using m o r [OF sg(1)] sg(2) f3 Some
      by (intro exI [of _ "after_signal env sg e s3"]) (simp add: granted_def press_in_def b_def)
  qed
qed

lemma fire_timer_ok:
  assumes "press_ok st"
  shows "\<exists>st'. fire_timer env k st = Ret () st' \<and> same_gesture st st'"
proof (cases "array_get (pr_live st) k")
  case None
  with assms show ?thesis by (simp add: fire_timer_def same_gesture_def)
next
  case (Some t)
  obtain h d k' where t: "t = (h, d, k')" by (cases t)
  let ?s1 = "st\<lparr>pr_live := remove_at k (pr_live st)\<rparr>"
  have mem: "(h, d, k') \<in> set (pr_live st)" using array_get_mem [OF Some] t by simp
  have c: "calm st ?s1" using set_remove_at [of k "pr_live st"] by (fastforce simp: calm_def delays_def)
  then have ok1: "press_ok ?s1" by (rule calm_press_ok [OF _ assms])
  show ?thesis
  proof (cases k')
    case (DelayTimer e)
    with mem have "delays st \<noteq> {}" by (auto simp: delays_def)
    with assms have s: "pr_touchState st = RESPONDER_INACTIVE_PRESS_IN" by (simp add: press_ok_def)
    with after_signal_ok [OF ok1, of DELAY env e] Some t DelayTimer show ?thesis
      by (simp add: fire_timer_def same_gesture_def granted_def press_in_def isPressInSignal_def)
  next
    case (LongPressTimer e)
    show ?thesis
    proof (cases "pr_touchState st = RESPONDER_ACTIVE_PRESS_IN \<or> pr_touchState st = RESPONDER_ACTIVE_LONG_PRESS_IN")
      case True
      with after_signal_ok [OF ok1, of LONG_PRESS_DETECTED env e] Some t LongPressTimer show ?thesis
        by (auto simp: fire_timer_def handleLongPress_def same_gesture_def granted_def press_in_def isPressInSignal_def)
    next
      case False
      with Some t LongPressTimer calm_same_gesture [OF c assms] show ?thesis
        by (simp add: fire_timer_def handleLongPress_def)
    qed
  qed (use Some t c assms in \<open>simp_all add: fire_timer_def calm_same_gesture\<close>)
qed

text \<open>Ending a gesture.\<close>

lemma terminal_ok:
  assumes "press_ok st" and "granted st" and "isTerminalSignal s"
  shows "\<exists>st'. receiveSignal env s e st = Ret () st' \<and> press_ok st' \<and> \<not> granted st'"
proof -
  have "Transitions (pr_touchState st) s = NOT_RESPONDER"
    using assms by (cases "pr_touchState st") (auto simp: isTerminalSignal_def granted_def press_ok_def)
  with after_signal_ok [OF assms(1,2), of s env e] show ?thesis by (simp add: granted_def)
qed

lemma calm_hover:
  "calm st (onMouseEnter env st)" "calm st (onMouseLeave env st)" 
proof -
  have e: "calm st (cancelHoverOutDelayTimeout (st\<lparr>pr_isHovered := b\<rparr>))"
    and l: "calm st (cancelHoverInDelayTimeout (st\<lparr>pr_isHovered := b\<rparr>))" for b
    by (simp_all add: calm_cancels)
  show "calm st (onMouseEnter env st)"
    using e calm_set_timer [OF e, of HoverInTimer] by (simp add: onMouseEnter_def Let_def case_prod_beta)
  show "calm st (onMouseLeave env st)"
    using l calm_set_timer [OF l, of HoverOutTimer] by (simp add: onMouseLeave_def Let_def case_prod_beta)
qed

lemma press_reset_ok:
  assumes "press_ok st"
  shows "press_ok (press_reset st) \<and> granted (press_reset st) = granted st"
proof -
  let ?u = "cancelLongPressDelayTimeout (cancelHoverOutDelayTimeout (cancelHoverInDelayTimeout st))"
  have "calm st ?u" by (simp add: calm_cancels)
  then have u: "press_ok ?u" "granted ?u = granted st"
    using calm_press_ok [OF _ assms] by (simp_all add: calm_def granted_def)
  have p: "press_ok (cancelPressDelayTimeout ?u) \<and> granted (cancelPressDelayTimeout ?u) = granted ?u"
    using u(1) by (auto simp: press_ok_def cancelPressDelayTimeout_def granted_def)
  have "calm (cancelPressDelayTimeout ?u) (press_reset st)" by (simp add: press_reset_def calm_cancels)
  with p u show ?thesis using calm_press_ok [of "cancelPressDelayTimeout ?u"] by (simp add: calm_def granted_def)
qed

lemma press_step_ok:
  assumes "press_ok st" and "obeys_protocol (granted st) [i]"
  shows "\<exists>st'. press_step (env, i) st = Ret () st' \<and> press_ok st' \<and>
     (\<forall>rest. obeys_protocol (granted st) (i # rest) \<longrightarrow> obeys_protocol (granted st') rest)"
proof (cases i)
  case (Grant t e)
  with after_grant_ok [OF assms(1), of env t e] show ?thesis
    by (auto simp: press_step_def onResponderGrant_returns granted_def)
next
  case (Move e)
  with onResponderMove_ok [OF assms(1), of env e] assms(2) show ?thesis by (auto simp: press_step_def)
next
  case (Release e)
  with terminal_ok [OF assms(1), of RESPONDER_RELEASE env e] assms(2) show ?thesis
    by (auto simp: press_step_def onResponderRelease_def isTerminalSignal_def)
next
  case (Terminate e)
  with terminal_ok [OF assms(1), of RESPONDER_TERMINATED env e] assms(2) show ?thesis
    by (auto simp: press_step_def onResponderTerminate_def isTerminalSignal_def)
next
  case (Fire k)
  with fire_timer_ok [OF assms(1), of env k] show ?thesis by (auto simp: press_step_def same_gesture_def)
next
  case MouseEnter
  with calm_same_gesture [OF calm_hover(1) assms(1)] assms(1) show ?thesis
    by (simp add: press_step_def same_gesture_def)
next
  case MouseLeave
  with calm_same_gesture [OF calm_hover(2) assms(1)] assms(1) show ?thesis
    by (simp add: press_step_def same_gesture_def)
next
  case ResetTimers
  with press_reset_ok [OF assms(1)] show ?thesis by (simp add: press_step_def)
qed (use assms in \<open>simp_all add: press_step_def measureCallback_def configure_def press_ok_def granted_def\<close>)

lemma press_run_ok:
  "press_ok st \<Longrightarrow> obeys_protocol (granted st) (map snd evs) \<Longrightarrow> \<exists>st'. press_run evs st = Ret () st' \<and> press_ok st'"
proof (induction evs arbitrary: st)
  case (Cons i evs)
  obtain env ev where i: "i = (env, ev)" by (cases i)
  have "obeys_protocol (granted st) [ev]" using Cons.prems(2) i by (cases ev) auto
  from press_step_ok [OF Cons.prems(1) this, of env] obtain st1 where
    "press_step i st = Ret () st1" "press_ok st1" "obeys_protocol (granted st1) (map snd evs)"
    using Cons.prems(2) i by auto
  with Cons.IH [of st1] show ?case by simp
qed simp

lemma new_Pressability_ok: "press_ok (new_Pressability config)" "\<not> granted (new_Pressability config)"
  by (simp_all add: press_ok_def granted_def new_Pressability_def delays_def)

text \<open>
  C6: as long as the responder system grants before it moves, releases or terminates, no
  sequence of touches, measurements, hovers, reconfigurations and timers firing at any moment
  makes \<open>_receiveSignal\<close> fail its invariant: the handlers always return.
\<close>

theorem press_protocol_safe:
  assumes "obeys_protocol False (map snd evs)"
  shows "\<exists>st. press_run evs (new_Pressability config) = Ret () st"
  using press_run_ok [of "new_Pressability config" evs] new_Pressability_ok [of config] assms by auto

section \<open>When a press counts\<close>

lemma calls_log [simp]:
  "calls x (press_log e st) = calls x st + (if e = x then 1 else 0)"
  "calls x (log_if b e st) = calls x st + (if b \<and> e = x then 1 else 0)"
  by (simp_all add: calls_def press_log_def log_if_def)

lemma calls_fields [simp]:
  "calls x (clear_timer h st) = calls x st" "calls x (snd (set_timer d k st)) = calls x st"
  "calls x (st\<lparr>pr_touchActivatePosition := p\<rparr>) = calls x st" "calls x (st\<lparr>pr_touchActivateTime := t\<rparr>) = calls x st"
  "calls x (st\<lparr>pr_longPressDelayTimeout := h'\<rparr>) = calls x st" "calls x (st\<lparr>pr_pressOutDelayTimeout := h'\<rparr>) = calls x st"
  "calls x (st\<lparr>pr_hoverInDelayTimeout := h'\<rparr>) = calls x st" "calls x (st\<lparr>pr_hoverOutDelayTimeout := h'\<rparr>) = calls x st"
  "calls x (st\<lparr>pr_pressDelayTimeout := h'\<rparr>) = calls x st" "calls x (st\<lparr>pr_isHovered := b\<rparr>) = calls x st"
  "calls x (st\<lparr>pr_touchState := s\<rparr>) = calls x st" "calls x (st\<lparr>pr_responderID := r\<rparr>) = calls x st"
  "calls x (st\<lparr>pr_responderRegion := g\<rparr>) = calls x st" "calls x (st\<lparr>pr_live := l\<rparr>) = calls x st"
  by (simp_all add: calls_def)

lemma presses_cancels [simp]:
  "presses (cancelLongPressDelayTimeout st) = presses st" "presses (cancelPressOutDelayTimeout st) = presses st"
  "presses (cancelPressDelayTimeout st) = presses st" "presses (arm_long_press e d st) = presses st"
  "presses (activate env e st) = presses st" "presses (deactivate env st) = presses st"
  "presses (measure_effects p n st) = presses st" "presses (terminal_effects s st) = presses st"
  "presses (activation_effects env p n e st) = presses st"
  by (simp_all add: cancelLongPressDelayTimeout_def cancelPressOutDelayTimeout_def cancelPressDelayTimeout_def
      arm_long_press_def activate_def deactivate_def measure_effects_def measureResponderRegion_def terminal_effects_def
      activation_effects_def Let_def case_prod_beta)

lemma presses_performTransition:
  "presses (performTransitionSideEffects env p n s e st) = presses st +
     (if isPressInSignal p \<and> s = RESPONDER_RELEASE \<and> onPress (pr_config st) \<and>
         \<not> (onLongPress (pr_config st) \<and> p = RESPONDER_ACTIVE_LONG_PRESS_IN \<and> shouldLongPressCancelPress (pr_config st))
      then 1 else 0)"
proof -
  let ?u = "activation_effects env p n e
           (log_if (isPressInSignal p \<and> s = LONG_PRESS_DETECTED \<and> onLongPress (pr_config st)) OnLongPress
             (measure_effects p n (terminal_effects s st)))"
  have "calm st ?u" by (simp add: calm_effects)
  then have "pr_config ?u = pr_config st" by (simp add: calm_def)
  then show ?thesis by (simp add: performTransitionSideEffects_def press_effects_def Let_def)
qed

lemma presses_after_signal [simp]:
  "s \<noteq> RESPONDER_RELEASE \<Longrightarrow> presses (after_signal env s e st) = presses st"
  by (simp add: after_signal_def presses_performTransition)

lemma presses_after_grant [simp]: "presses (after_grant env t e st) = presses st"
  by (simp add: after_grant_def Let_def)

text \<open>Inputs within a gesture, and the specification they refine: the region known so far and whether the last touch compared with it was inside.\<close>

fun in_gesture :: "press_input \<Rightarrow> bool" where
  "in_gesture (Move e) = True"
| "in_gesture (Fire k) = True"
| "in_gesture (Measured l t w h x y) = True"
| "in_gesture _ = False"

fun track :: "press_config \<Rightarrow> press_input \<Rightarrow> region option \<times> bool \<Rightarrow> region option \<times> bool" where
  "track c (Move e) (r, b) =
     (r, case r of None \<Rightarrow> b | Some reg \<Rightarrow> isTouchWithinResponderRegion c (getTouchFromPressEvent e) reg)"
| "track c (Measured l t w h x y) (r, b) =
     (if l = 0 \<and> t = 0 \<and> w = 0 \<and> h = 0 \<and> x = 0 \<and> y = 0 then r
      else Some \<lparr>r_bottom = y + h, r_left = x, r_right = x + w, r_top = y\<rparr>, b)"
| "track c _ (r, b) = (r, b)"

definition tracked :: "pressability \<Rightarrow> region option \<times> bool" where
  "tracked st = (pr_responderRegion st, press_in st)"

lemma presses_move: "press_ok st \<Longrightarrow> granted st \<Longrightarrow> presses (out_state (onResponderMove env e st)) = presses st"
proof -
  have r: "presses (out_state (receiveSignal env s e' st')) = presses st'" if "s \<noteq> RESPONDER_RELEASE" for s e' st'
    using that by (simp add: receiveSignal_def Let_def presses_performTransition)
  show ?thesis by (simp add: onResponderMove_def Let_def r split: option.splits)
qed

lemma presses_fire: "presses (out_state (fire_timer env k st)) = presses st"
proof -
  have r: "presses (out_state (receiveSignal env s e' st')) = presses st'" if "s \<noteq> RESPONDER_RELEASE" for s e' st'
    using that by (simp add: receiveSignal_def Let_def presses_performTransition)
  show ?thesis
    by (simp add: fire_timer_def handleLongPress_def Let_def r split: option.splits prod.splits press_timer.splits)
qed

lemma gesture_step:
  assumes "press_ok st" and "granted st" and "in_gesture i"
  shows "\<exists>st'. press_step (env, i) st = Ret () st' \<and> press_ok st' \<and> granted st' \<and> pr_config st' = pr_config st \<and>
     presses st' = presses st \<and> tracked st' = track (pr_config st) i (tracked st)"
proof (cases i)
  case (Move e)
  with onResponderMove_ok [OF assms(1,2), of env e] presses_move [OF assms(1,2), of env e] show ?thesis
    by (auto simp: press_step_def tracked_def)
next
  case (Fire k)
  with fire_timer_ok [OF assms(1), of env k] presses_fire [of env k st] assms(2) show ?thesis
    by (auto simp: press_step_def tracked_def same_gesture_def)
next
  case (Measured l t w h x y)
  with assms show ?thesis
    by (auto simp: press_step_def tracked_def measureCallback_def press_ok_def granted_def press_in_def)
qed (use assms(3) in simp_all)

lemma gesture_run:
  "press_ok st \<Longrightarrow> granted st \<Longrightarrow> list_all in_gesture (map snd evs) \<Longrightarrow>
   \<exists>st'. press_run evs st = Ret () st' \<and> press_ok st' \<and> granted st' \<and> pr_config st' = pr_config st \<and>
     presses st' = presses st \<and> tracked st' = fold (track (pr_config st)) (map snd evs) (tracked st)"
proof (induction evs arbitrary: st)
  case (Cons i evs)
  obtain env ev where i: "i = (env, ev)" by (cases i)
  from gesture_step [OF Cons.prems(1,2), of ev env] Cons.prems(3) i obtain st1 where s1:
    "press_step i st = Ret () st1" "press_ok st1" "granted st1" "pr_config st1 = pr_config st"
    "presses st1 = presses st" "tracked st1 = track (pr_config st) ev (tracked st)" by auto
  from Cons.IH [OF s1(2,3)] Cons.prems(3) s1 i show ?case by simp
qed simp


section \<open>Leaving before the delay\<close>

text \<open>An inactive press without its delay timer stays inactive.\<close>

definition dormant :: "pressability \<Rightarrow> bool" where
  "dormant st \<longleftrightarrow> press_ok st \<and> delays st = {} \<and>
     pr_touchState st \<in> {RESPONDER_INACTIVE_PRESS_IN, RESPONDER_INACTIVE_PRESS_OUT}"

lemma calls_inactive:
  assumes "\<not> isActiveSignal p" and "\<not> isActiveSignal n" and "s \<noteq> RESPONDER_RELEASE"
  shows "calls OnPressIn (performTransitionSideEffects env p n s e st) = calls OnPressIn st"
proof -
  have "activation_effects env p n e x = x" "press_effects env p n s e x = x" for x
    using assms by (simp_all add: activation_effects_def press_effects_def Let_def)
  then show ?thesis
    by (simp add: performTransitionSideEffects_def measure_effects_def measureResponderRegion_def
        terminal_effects_def cancelLongPressDelayTimeout_def cancelPressDelayTimeout_def Let_def)
qed

lemma dormant_signal:
  assumes "dormant st" and "s = ENTER_PRESS_RECT \<or> s = LEAVE_PRESS_RECT"
  shows "dormant (out_state (receiveSignal env s e st))" "returns (receiveSignal env s e st)"
    "calls OnPressIn (out_state (receiveSignal env s e st)) = calls OnPressIn st"
proof -
  have st: "pr_touchState st \<in> {RESPONDER_INACTIVE_PRESS_IN, RESPONDER_INACTIVE_PRESS_OUT}" "granted st" "press_ok st"
    "delays st \<subseteq> set_option (pr_pressDelayTimeout st)"
    using assms(1) by (auto simp: dormant_def granted_def press_ok_def)
  then have t: "Transitions (pr_touchState st) s \<in> {RESPONDER_INACTIVE_PRESS_IN, RESPONDER_INACTIVE_PRESS_OUT}"
    using assms(2) by auto
  then have o: "receiveSignal env s e st = Ret () (after_signal env s e st)" "press_ok (after_signal env s e st)"
    using after_signal_ok [OF st(3,2), of s env e] by auto
  have "delays (after_signal env s e st) = {}"
    using assms(1) after_signal_delays [OF st(4), of s env e]
    by (cases "Transitions (pr_touchState st) s = pr_touchState st") (simp_all add: after_signal_def dormant_def)
  with o t show "dormant (out_state (receiveSignal env s e st))" "returns (receiveSignal env s e st)"
    by (simp_all add: dormant_def)
  have "calls OnPressIn (performTransitionSideEffects env (pr_touchState st) n s e st) = calls OnPressIn st"
    if "n \<in> {RESPONDER_INACTIVE_PRESS_IN, RESPONDER_INACTIVE_PRESS_OUT}" for n
    by (rule calls_inactive) (use that st(1) assms(2) in \<open>auto simp: isActiveSignal_def\<close>)
  with o t show "calls OnPressIn (out_state (receiveSignal env s e st)) = calls OnPressIn st"
    by (simp add: after_signal_def)
qed

lemma dormant_calm: "calm st st' \<Longrightarrow> dormant st \<Longrightarrow> dormant st'"
  using calm_press_ok [of st st'] by (auto simp: dormant_def calm_def)

lemma calls_cancelLongPress [simp]: "calls x (cancelLongPressDelayTimeout st) = calls x st"
  by (simp add: cancelLongPressDelayTimeout_def)

lemma dormant_move:
  assumes "dormant st"
  shows "returns (onResponderMove env e st) \<and> dormant (out_state (onResponderMove env e st)) \<and>
     calls OnPressIn (out_state (onResponderMove env e st)) = calls OnPressIn st"
proof -
  let ?s1 = "log_if (onPressMove (pr_config st)) OnPressMove st"
  have c: "calm st ?s1" "calm st (cancelLongPressDelayTimeout ?s1)"
    "calm st (cancelLongPressDelayTimeout (cancelLongPressDelayTimeout ?s1))" by (simp_all add: calm_cancels)
  have d: "dormant ?s1" "dormant (cancelLongPressDelayTimeout ?s1)"
    "dormant (cancelLongPressDelayTimeout (cancelLongPressDelayTimeout ?s1))"
    using c [THEN dormant_calm, OF assms] by simp_all
  show ?thesis
    using d d [THEN dormant_signal(1)] d [THEN dormant_signal(2)] d [THEN dormant_signal(3)]
    by (simp add: onResponderMove_def Let_def split: option.splits)
qed

lemma dormant_fire:
  assumes "dormant st"
  shows "returns (fire_timer env k st) \<and> dormant (out_state (fire_timer env k st)) \<and>
     calls OnPressIn (out_state (fire_timer env k st)) = calls OnPressIn st"
proof (cases "array_get (pr_live st) k")
  case None
  with assms show ?thesis by (simp add: fire_timer_def)
next
  case (Some t)
  obtain h d k' where t: "t = (h, d, k')" by (cases t)
  let ?s1 = "st\<lparr>pr_live := remove_at k (pr_live st)\<rparr>"
  have "calm st ?s1" using set_remove_at [of k "pr_live st"] by (fastforce simp: calm_def delays_def)
  then have d1: "dormant ?s1" "\<And>e. dormant (press_log e ?s1)"
    using dormant_calm [OF _ assms] by simp_all
  have n: "k' \<noteq> DelayTimer e" for e
    using assms array_get_mem [OF Some] t by (auto simp: dormant_def delays_def)
  have i: "pr_touchState st \<noteq> RESPONDER_ACTIVE_PRESS_IN" "pr_touchState st \<noteq> RESPONDER_ACTIVE_LONG_PRESS_IN"
    using assms by (auto simp: dormant_def)
  show ?thesis
  proof (cases k')
    case (DelayTimer e)
    with n [of e] show ?thesis by simp
  qed (use Some t d1 i in \<open>simp_all add: fire_timer_def handleLongPress_def\<close>)
qed

lemma dormant_run:
  "dormant st \<Longrightarrow> list_all in_gesture (map snd evs) \<Longrightarrow>
   \<exists>st'. press_run evs st = Ret () st' \<and> dormant st' \<and> calls OnPressIn st' = calls OnPressIn st"
proof (induction evs arbitrary: st)
  case (Cons i evs)
  obtain env ev where i: "i = (env, ev)" by (cases i)
  have "\<exists>st1. press_step i st = Ret () st1 \<and> dormant st1 \<and> calls OnPressIn st1 = calls OnPressIn st"
  proof (cases ev)
    case (Move e)
    with dormant_move [OF Cons.prems(1), of env e] i show ?thesis
      by (cases "onResponderMove env e st") (simp_all add: press_step_def)
  next
    case (Fire k)
    with dormant_fire [OF Cons.prems(1), of env k] i show ?thesis
      by (cases "fire_timer env k st") (simp_all add: press_step_def)
  next
    case (Measured l t w h x y)
    with Cons.prems(1) i show ?thesis by (simp add: press_step_def measureCallback_def dormant_def press_ok_def)
  qed (use Cons.prems(2) i in simp_all)
  then obtain st1 where "press_step i st = Ret () st1" "dormant st1" "calls OnPressIn st1 = calls OnPressIn st" by blast
  with Cons.IH [of st1] Cons.prems(2) show ?case by simp
qed simp

text \<open>
  Every transition cancels the timer of \<open>delayPressIn\<close>.  A press that leaves the press
  rect before that delay is therefore never activated, although it comes back: however it
  moves and whatever timers fire until it ends, \<open>DELAY\<close> is not signalled again and
  \<open>onPressIn\<close> is not called.
\<close>

theorem leaving_before_delay_disarms:
  assumes "press_ok st" and "pr_touchState st = RESPONDER_INACTIVE_PRESS_OUT"
    and "list_all in_gesture (map snd evs)"
  shows "\<exists>st'. press_run evs st = Ret () st' \<and>
     pr_touchState st' \<in> {RESPONDER_INACTIVE_PRESS_IN, RESPONDER_INACTIVE_PRESS_OUT} \<and>
     count_list (pr_log st') OnPressIn = count_list (pr_log st) OnPressIn"
proof -
  have "dormant st" using assms(1,2) by (auto simp: dormant_def press_ok_def)
  from dormant_run [OF this assms(3)] show ?thesis by (auto simp: dormant_def calls_def)
qed

section \<open>Hovering\<close>

text \<open>
  The timer of a delayed \<open>onHoverOut\<close> is stored in \<open>_hoverInDelayTimeout\<close>, so
  entering again before it fires does not cancel it: \<open>onHoverOut\<close> is called while the
  mouse is over the element.
\<close>

theorem hover_out_fires_while_hovered:
  assumes "pr_isHovered st" and "pr_live st = []" and "pr_hoverOutDelayTimeout st = None"
    and "onHoverOut (pr_config st)" and "delayHoverOut (pr_config st) = Some d" and "d > 0"
    and "delayHoverIn (pr_config st) = None"
    and "pe_platform env = ''macos''" and "pe_hoverEnabled env"
  shows "\<exists>st'. press_run [(env, MouseLeave), (env, MouseEnter), (env, Fire 0)] st = Ret () st' \<and>
           pr_isHovered st' \<and> last (pr_log st') = OnHoverOut"
  using assms
  by (simp add: press_step_def mouse_handlers_def onMouseLeave_def onMouseEnter_def normalizeDelay_def set_timer_def
      cancelHoverInDelayTimeout_def cancelHoverOutDelayTimeout_def clear_timer_def press_log_def fire_timer_def
      array_get_def Let_def)

section \<open>Examples\<close>

definition ex_config :: press_config where
  "ex_config = \<lparr>cancelable = None, disabled = None, hitSlop = None, pressRectOffset = None,
     android_disableSound = None, delayHoverIn = None, delayHoverOut = Some 100, delayLongPress = None,
     delayPressIn = Some 50, delayPressOut = None, minPressDuration = None, onBlur = False, onFocus = False,
     onKeyDown = False, onKeyUp = False, onHoverIn = True, onHoverOut = True, onLongPress = False,
     onPress = True, onPressIn = True, onPressMove = False, onPressOut = True,
     onLongPressShouldCancelPress = None, onResponderTerminationRequest_DEPRECATED = None,
     onStartShouldSetResponder_DEPRECATED = None\<rparr>"

definition ex_env :: press_env where
  "ex_env = \<lparr>pe_platform = ''macos'', pe_hoverEnabled = True, pe_now = 0\<rparr>"

definition ex_touch :: "real \<Rightarrow> press_event" where
  "ex_touch x = \<lparr>ev_touches = [(x, 5)], ev_changedTouches = [], ev_page = (x, 5)\<rparr>"

theorem press_protocol_safe_witness:
  "\<exists>st. press_run [(ex_env, Grant 7 (ex_touch 5)), (ex_env, Measured 0 0 10 10 0 0), (ex_env, Move (ex_touch 99)),
      (ex_env, Fire 0), (ex_env, Release (ex_touch 5))] (new_Pressability ex_config) = Ret () st"
  using press_protocol_safe [of "[(ex_env, Grant 7 (ex_touch 5)), (ex_env, Measured 0 0 10 10 0 0),
      (ex_env, Move (ex_touch 99)), (ex_env, Fire 0), (ex_env, Release (ex_touch 5))]" ex_config]
  by simp


theorem leaving_before_delay_disarms_witness:
  "\<exists>st'. press_run [(ex_env, Fire 0), (ex_env, Measured 0 0 10 10 0 0), (ex_env, Move (ex_touch 5)), (ex_env, Fire 0)]
      ((new_Pressability ex_config)\<lparr>pr_responderID := Some 7, pr_touchState := RESPONDER_INACTIVE_PRESS_OUT\<rparr>) = Ret () st' \<and>
     count_list (pr_log st') OnPressIn = 0"
  using leaving_before_delay_disarms [of "(new_Pressability ex_config)\<lparr>pr_responderID := Some 7,
      pr_touchState := RESPONDER_INACTIVE_PRESS_OUT\<rparr>"
      "[(ex_env, Fire 0), (ex_env, Measured 0 0 10 10 0 0), (ex_env, Move (ex_touch 5)), (ex_env, Fire 0)]"]
  by (fastforce simp: press_ok_def delays_def new_Pressability_def)

theorem hover_out_fires_while_hovered_witness:
  "\<exists>st'. press_run [(ex_env, MouseLeave), (ex_env, MouseEnter), (ex_env, Fire 0)]
      ((new_Pressability ex_config)\<lparr>pr_isHovered := True\<rparr>) = Ret () st' \<and> pr_isHovered st' \<and> last (pr_log st') = OnHoverOut"
  using hover_out_fires_while_hovered [of "(new_Pressability ex_config)\<lparr>pr_isHovered := True\<rparr>" 100 ex_env]
  by (simp add: new_Pressability_def ex_config_def ex_env_def)

end
