(* ===== verification/Touchable.thy ===== *)
theory Touchable
  imports Pressability
begin

text \<open>
  \<open>Libraries/Components/Touchable/Touchable.js\<close>: the mixin that \<open>Pressability\<close> replaces,
  with the same states and signals.

  What the mixing component implements (the \<open>touchable*\<close> methods and the props it is
  given) is the record \<open>touch_mixer\<close>; a call of one of its handlers is logged.  The state of
  the machine is undefined until the first grant.  The pools of \<open>Position\<close> and
  \<open>BoundingDimensions\<close> objects only recycle memory and are not modelled.
\<close>

section \<open>Data\<close>

text \<open>A delay method: absent, or returning \<open>NaN\<close> (\<open>Some None\<close>) or a number.\<close>

type_synonym delay_method = "real option option"

record touch_mixer =
  touchableHandlePress :: bool
  touchableHandleActivePressIn :: bool
  touchableHandleActivePressOut :: bool
  touchableHandleLongPress :: bool
  touchableGetHighlightDelayMS :: delay_method
  touchableGetLongPressDelayMS :: delay_method
  touchableGetPressOutDelayMS :: "real option"
  touchableGetPressRectOffset :: "region option"
  touchableGetHitSlop :: "edges option"
  touchableLongPressCancelsPress :: bool
  props_disabled :: bool
  props_rejectResponderTermination :: bool
  props_onLongPress :: bool
  props_onFocus :: bool
  props_onBlur :: bool
  props_touchSoundDisabled :: bool

datatype touch_effect =
    HandlePress | HandleActivePressIn | HandleActivePressOut | HandleLongPress
  | HandleFocus | HandleBlur | TouchSound | Remeasure

datatype touch_timer = TouchDelay press_event | TouchLongDelay press_event | TouchPressOut

record touchable =
  tb_mixer :: touch_mixer
  tb_touchState :: "touch_state option"
  tb_responderID :: "nat option"
  tb_positionOnActivate :: "point option"
  tb_dimensionsOnActivate :: "point option"
  tb_pressInLocation :: "point option"
  touchableDelayTimeout :: "nat option"
  longPressDelayTimeout :: "nat option"
  pressOutDelayTimeout :: "nat option"
  tb_live :: "(nat \<times> real \<times> touch_timer) list"
  tb_nextTimer :: nat
  tb_log :: "touch_effect list"

type_synonym touch_result = "(js_exn, touchable, unit) outcome"

definition touchableGetInitialState :: "touch_mixer \<Rightarrow> touchable" where
  "touchableGetInitialState mixer = \<lparr>tb_mixer = mixer, tb_touchState = None, tb_responderID = None,
     tb_positionOnActivate = None, tb_dimensionsOnActivate = None, tb_pressInLocation = None,
     touchableDelayTimeout = None, longPressDelayTimeout = None, pressOutDelayTimeout = None,
     tb_live = [], tb_nextTimer = 1, tb_log = []\<rparr>"

section \<open>Tables\<close>

definition IsActive :: "touch_state \<Rightarrow> bool" where
  "IsActive s \<longleftrightarrow> s \<in> {RESPONDER_ACTIVE_PRESS_OUT, RESPONDER_ACTIVE_PRESS_IN}"

definition IsPressingIn :: "touch_state \<Rightarrow> bool" where
  "IsPressingIn s \<longleftrightarrow>
     s \<in> {RESPONDER_INACTIVE_PRESS_IN, RESPONDER_ACTIVE_PRESS_IN, RESPONDER_ACTIVE_LONG_PRESS_IN}"

definition IsLongPressingIn :: "touch_state \<Rightarrow> bool" where
  "IsLongPressingIn s \<longleftrightarrow> s = RESPONDER_ACTIVE_LONG_PRESS_IN"

text \<open>
  The row of the error state is stored under the key \<open>error\<close>, which is not the name of
  the state, so \<open>Transitions[States.ERROR]\<close> is undefined, as is the row of the undefined state.
\<close>

fun touch_Transitions :: "touch_state option \<Rightarrow> touch_signal \<Rightarrow> touch_state option" where
  "touch_Transitions None s = None"
| "touch_Transitions (Some NOT_RESPONDER) s =
     Some (case s of RESPONDER_GRANT \<Rightarrow> RESPONDER_INACTIVE_PRESS_IN | _ \<Rightarrow> ERROR)"
| "touch_Transitions (Some RESPONDER_INACTIVE_PRESS_IN) s =
     Some (case s of
        DELAY \<Rightarrow> RESPONDER_ACTIVE_PRESS_IN | RESPONDER_GRANT \<Rightarrow> ERROR
      | RESPONDER_RELEASE \<Rightarrow> NOT_RESPONDER | RESPONDER_TERMINATED \<Rightarrow> NOT_RESPONDER
      | ENTER_PRESS_RECT \<Rightarrow> RESPONDER_INACTIVE_PRESS_IN | LEAVE_PRESS_RECT \<Rightarrow> RESPONDER_INACTIVE_PRESS_OUT
      | LONG_PRESS_DETECTED \<Rightarrow> ERROR)"
| "touch_Transitions (Some RESPONDER_INACTIVE_PRESS_OUT) s =
     Some (case s of
        DELAY \<Rightarrow> RESPONDER_ACTIVE_PRESS_OUT | RESPONDER_GRANT \<Rightarrow> ERROR
      | RESPONDER_RELEASE \<Rightarrow> NOT_RESPONDER | RESPONDER_TERMINATED \<Rightarrow> NOT_RESPONDER
      | ENTER_PRESS_RECT \<Rightarrow> RESPONDER_INACTIVE_PRESS_IN | LEAVE_PRESS_RECT \<Rightarrow> RESPONDER_INACTIVE_PRESS_OUT
      | LONG_PRESS_DETECTED \<Rightarrow> ERROR)"
| "touch_Transitions (Some RESPONDER_ACTIVE_PRESS_IN) s =
     Some (case s of
        DELAY \<Rightarrow> ERROR | RESPONDER_GRANT \<Rightarrow> ERROR
      | RESPONDER_RELEASE \<Rightarrow> NOT_RESPONDER | RESPONDER_TERMINATED \<Rightarrow> NOT_RESPONDER
      | ENTER_PRESS_RECT \<Rightarrow> RESPONDER_ACTIVE_PRESS_IN | LEAVE_PRESS_RECT \<Rightarrow> RESPONDER_ACTIVE_PRESS_OUT
      | LONG_PRESS_DETECTED \<Rightarrow> RESPONDER_ACTIVE_LONG_PRESS_IN)"
| "touch_Transitions (Some RESPONDER_ACTIVE_PRESS_OUT) s =
     Some (case s of
        DELAY \<Rightarrow> ERROR | RESPONDER_GRANT \<Rightarrow> ERROR
      | RESPONDER_RELEASE \<Rightarrow> NOT_RESPONDER | RESPONDER_TERMINATED \<Rightarrow> NOT_RESPONDER
      | ENTER_PRESS_RECT \<Rightarrow> RESPONDER_ACTIVE_PRESS_IN | LEAVE_PRESS_RECT \<Rightarrow> RESPONDER_ACTIVE_PRESS_OUT
      | LONG_PRESS_DETECTED \<Rightarrow> ERROR)"
| "touch_Transitions (Some RESPONDER_ACTIVE_LONG_PRESS_IN) s =
     Some (case s of
        DELAY \<Rightarrow> ERROR | RESPONDER_GRANT \<Rightarrow> ERROR
      | RESPONDER_RELEASE \<Rightarrow> NOT_RESPONDER | RESPONDER_TERMINATED \<Rightarrow> NOT_RESPONDER
      | ENTER_PRESS_RECT \<Rightarrow> RESPONDER_ACTIVE_LONG_PRESS_IN | LEAVE_PRESS_RECT \<Rightarrow> RESPONDER_ACTIVE_LONG_PRESS_OUT
      | LONG_PRESS_DETECTED \<Rightarrow> RESPONDER_ACTIVE_LONG_PRESS_IN)"
| "touch_Transitions (Some RESPONDER_ACTIVE_LONG_PRESS_OUT) s =
     Some (case s of
        DELAY \<Rightarrow> ERROR | RESPONDER_GRANT \<Rightarrow> ERROR
      | RESPONDER_RELEASE \<Rightarrow> NOT_RESPONDER | RESPONDER_TERMINATED \<Rightarrow> NOT_RESPONDER
      | ENTER_PRESS_RECT \<Rightarrow> RESPONDER_ACTIVE_LONG_PRESS_IN | LEAVE_PRESS_RECT \<Rightarrow> RESPONDER_ACTIVE_LONG_PRESS_OUT
      | LONG_PRESS_DETECTED \<Rightarrow> ERROR)"
| "touch_Transitions (Some ERROR) s = None"

definition HIGHLIGHT_DELAY_MS :: real where "HIGHLIGHT_DELAY_MS = 130"
definition PRESS_EXPAND_PX :: real where "PRESS_EXPAND_PX = 20"
definition LONG_PRESS_THRESHOLD :: real where "LONG_PRESS_THRESHOLD = 500"
definition LONG_PRESS_DELAY_MS :: real where "LONG_PRESS_DELAY_MS = LONG_PRESS_THRESHOLD - HIGHLIGHT_DELAY_MS"
definition LONG_PRESS_ALLOWED_MOVEMENT :: real where "LONG_PRESS_ALLOWED_MOVEMENT = 10"

section \<open>Timers and handlers of the component\<close>

definition tb_clear :: "nat option \<Rightarrow> touchable \<Rightarrow> touchable" where
  "tb_clear h st = st\<lparr>tb_live := filter (\<lambda>t. Some (fst t) \<noteq> h) (tb_live st)\<rparr>"

definition tb_set_timer :: "real \<Rightarrow> touch_timer \<Rightarrow> touchable \<Rightarrow> nat \<times> touchable" where
  "tb_set_timer d k st = (tb_nextTimer st,
     st\<lparr>tb_live := tb_live st @ [(tb_nextTimer st, d, k)], tb_nextTimer := Suc (tb_nextTimer st)\<rparr>)"

definition tb_call :: "bool \<Rightarrow> touch_effect \<Rightarrow> touchable \<Rightarrow> touchable" where
  "tb_call b e st = (if b then st\<lparr>tb_log := tb_log st @ [e]\<rparr> else st)"

definition touchable_componentWillUnmount :: "touchable \<Rightarrow> touchable" where
  "touchable_componentWillUnmount st =
     tb_clear (pressOutDelayTimeout st) (tb_clear (longPressDelayTimeout st) (tb_clear (touchableDelayTimeout st) st))"

definition tb_cancelLongPress :: "touchable \<Rightarrow> touchable" where
  "tb_cancelLongPress st = (tb_clear (longPressDelayTimeout st) st)\<lparr>longPressDelayTimeout := None\<rparr>"

definition touchableHandleResponderTerminationRequest :: "touch_mixer \<Rightarrow> bool" where
  "touchableHandleResponderTerminationRequest m = (\<not> props_rejectResponderTermination m)"

definition touchableHandleStartShouldSetResponder :: "touch_mixer \<Rightarrow> bool" where
  "touchableHandleStartShouldSetResponder m = (\<not> props_disabled m)"

definition touchableHandleFocus :: "touchable \<Rightarrow> touchable" where
  "touchableHandleFocus st = tb_call (props_onFocus (tb_mixer st)) HandleFocus st"

definition touchableHandleBlur :: "touchable \<Rightarrow> touchable" where
  "touchableHandleBlur st = tb_call (props_onBlur (tb_mixer st)) HandleBlur st"

text \<open>The function given to the TV event handler, for an event of this component's node.\<close>

definition tv_event :: "string \<Rightarrow> string \<Rightarrow> touchable \<Rightarrow> touchable" where
  "tv_event os eventType st =
     (if eventType = ''focus'' then touchableHandleFocus st
      else if eventType = ''blur'' then touchableHandleBlur st
      else if eventType = ''select'' \<and> os \<noteq> ''android''
      then tb_call (touchableHandlePress (tb_mixer st) \<and> \<not> props_disabled (tb_mixer st)) HandlePress st
      else st)"

section \<open>Transitions and their effects\<close>

definition isHighlight :: "touch_state option \<Rightarrow> bool" where
  "isHighlight s \<longleftrightarrow> s = Some RESPONDER_ACTIVE_PRESS_IN \<or> s = Some RESPONDER_ACTIVE_LONG_PRESS_IN"

definition extractSingleTouch :: "press_event \<Rightarrow> point" where
  "extractSingleTouch e =
     (let hasTouches = ev_touches e \<noteq> []; hasChangedTouches = ev_changedTouches e \<noteq> []
      in if \<not> hasTouches \<and> hasChangedTouches then hd (ev_changedTouches e)
         else if hasTouches then hd (ev_touches e) else ev_page e)"

definition startHighlight :: "press_event \<Rightarrow> touchable \<Rightarrow> touchable" where
  "startHighlight e st =
     tb_call (touchableHandleActivePressIn (tb_mixer st)) HandleActivePressIn
       (st\<lparr>tb_pressInLocation := Some (extractSingleTouch e)\<rparr>)"

definition endHighlight :: "touchable \<Rightarrow> touchable" where
  "endHighlight st =
     (if touchableHandleActivePressOut (tb_mixer st)
      then (case touchableGetPressOutDelayMS (tb_mixer st) of
              None \<Rightarrow> tb_call True HandleActivePressOut st
            | Some d \<Rightarrow>
                if d = 0 then tb_call True HandleActivePressOut st
                else (case tb_set_timer d TouchPressOut st of (h, st1) \<Rightarrow> st1\<lparr>pressOutDelayTimeout := Some h\<rparr>))
      else st)"

definition remeasureMetricsOnActivation :: "touchable \<Rightarrow> touchable" where
  "remeasureMetricsOnActivation st = tb_call (tb_responderID st \<noteq> None) Remeasure st"

definition handleQueryLayout :: "real \<Rightarrow> real \<Rightarrow> real \<Rightarrow> real \<Rightarrow> real \<Rightarrow> real \<Rightarrow> touchable \<Rightarrow> touchable" where
  "handleQueryLayout l t w h globalX globalY st =
     (if l = 0 \<and> t = 0 \<and> w = 0 \<and> h = 0 \<and> globalX = 0 \<and> globalY = 0 then st
      else st\<lparr>tb_positionOnActivate := Some (globalX, globalY), tb_dimensionsOnActivate := Some (w, h)\<rparr>)"

definition highlight_effects :: "touch_state \<Rightarrow> touch_state \<Rightarrow> press_event \<Rightarrow> touchable \<Rightarrow> touchable" where
  "highlight_effects cur nxt e st =
     (if isHighlight (Some nxt) \<and> \<not> isHighlight (Some cur) then startHighlight e st
      else if \<not> isHighlight (Some nxt) \<and> isHighlight (Some cur) then endHighlight st
      else st)"

definition shouldInvokePress :: "touch_mixer \<Rightarrow> touch_state \<Rightarrow> bool" where
  "shouldInvokePress m cur \<longleftrightarrow>
     \<not> IsLongPressingIn cur \<or>
     (IsLongPressingIn cur \<and> (\<not> props_onLongPress m \<or> \<not> touchableLongPressCancelsPress m))"

definition release_effects ::
  "string \<Rightarrow> touch_state \<Rightarrow> touch_state \<Rightarrow> touch_signal \<Rightarrow> press_event \<Rightarrow> touchable \<Rightarrow> touchable" where
  "release_effects os cur nxt signal e st =
     (if IsPressingIn cur \<and> signal = RESPONDER_RELEASE \<and> shouldInvokePress (tb_mixer st) cur \<and>
         touchableHandlePress (tb_mixer st)
      then tb_call True HandlePress
             (tb_call (os = ''android'' \<and> \<not> props_touchSoundDisabled (tb_mixer st)) TouchSound
               (if \<not> isHighlight (Some nxt) \<and> \<not> isHighlight (Some cur) then endHighlight (startHighlight e st) else st))
      else st)"

definition performSideEffectsForTransition ::
  "string \<Rightarrow> touch_state \<Rightarrow> touch_state \<Rightarrow> touch_signal \<Rightarrow> press_event \<Rightarrow> touchable \<Rightarrow> touchable" where
  "performSideEffectsForTransition os cur nxt signal e st =
     (let st1 = (if signal = RESPONDER_TERMINATED \<or> signal = RESPONDER_RELEASE then tb_cancelLongPress st else st);
          isInitialTransition = (cur = NOT_RESPONDER \<and> nxt = RESPONDER_INACTIVE_PRESS_IN);
          isActiveTransition = (\<not> IsActive cur \<and> IsActive nxt);
          st2 = (if isInitialTransition \<or> isActiveTransition then remeasureMetricsOnActivation st1 else st1);
          st3 = tb_call (IsPressingIn cur \<and> signal = LONG_PRESS_DETECTED \<and> touchableHandleLongPress (tb_mixer st2))
                  HandleLongPress st2;
          st4 = release_effects os cur nxt signal e (highlight_effects cur nxt e st3)
      in (tb_clear (touchableDelayTimeout st4) st4)\<lparr>touchableDelayTimeout := None\<rparr>)"

text \<open>
  Both error messages are a conditional whose test compares the whole concatenation with
  \<open>'number'\<close>, so only its second alternative is ever thrown.
\<close>

definition tb_receiveSignal :: "string \<Rightarrow> touch_signal \<Rightarrow> press_event \<Rightarrow> touchable \<Rightarrow> touch_result" where
  "tb_receiveSignal os signal e st =
     (if tb_responderID st = None \<and> signal = RESPONDER_RELEASE then Ret () st
      else case tb_touchState st of
             None \<Rightarrow> Throw (JsError ''host component`'') st
           | Some cur \<Rightarrow>
               (case touch_Transitions (Some cur) signal of
                  None \<Rightarrow> Throw (JsError ''host component`'') st
                | Some nxt \<Rightarrow>
                    if nxt = ERROR then Throw (JsError ''<<host component>>`'') st
                    else if cur \<noteq> nxt
                    then Ret () ((performSideEffectsForTransition os cur nxt signal e st)\<lparr>tb_touchState := Some nxt\<rparr>)
                    else Ret () st))"

section \<open>Responder handlers\<close>

definition delay_or :: "delay_method \<Rightarrow> real \<Rightarrow> real \<Rightarrow> real" where
  "delay_or method mn fallback =
     (case method of None \<Rightarrow> fallback | Some None \<Rightarrow> fallback | Some (Some d) \<Rightarrow> max d mn)"

definition handleDelay :: "string \<Rightarrow> press_event \<Rightarrow> touchable \<Rightarrow> touch_result" where
  "handleDelay os e st = tb_receiveSignal os DELAY e (st\<lparr>touchableDelayTimeout := None\<rparr>)"

definition handleLongDelay :: "string \<Rightarrow> press_event \<Rightarrow> touchable \<Rightarrow> touch_result" where
  "handleLongDelay os e st =
     (let st1 = st\<lparr>longPressDelayTimeout := None\<rparr>
      in if tb_touchState st1 = Some RESPONDER_ACTIVE_PRESS_IN \<or> tb_touchState st1 = Some RESPONDER_ACTIVE_LONG_PRESS_IN
         then tb_receiveSignal os LONG_PRESS_DETECTED e st1 else Ret () st1)"

definition arm_long_delay :: "press_event \<Rightarrow> real \<Rightarrow> touchable \<Rightarrow> touchable" where
  "arm_long_delay e delayMS st =
     (let longDelayMS = delay_or (touchableGetLongPressDelayMS (tb_mixer st)) 10 LONG_PRESS_DELAY_MS
      in case tb_set_timer (longDelayMS + delayMS) (TouchLongDelay e) st of
           (h, st1) \<Rightarrow> st1\<lparr>longPressDelayTimeout := Some h\<rparr>)"

definition touchableHandleResponderGrant :: "string \<Rightarrow> nat \<Rightarrow> press_event \<Rightarrow> touchable \<Rightarrow> touch_result" where
  "touchableHandleResponderGrant os dispatchID e st =
     (let st1 = (tb_clear (pressOutDelayTimeout st) st)\<lparr>pressOutDelayTimeout := None,
            tb_touchState := Some NOT_RESPONDER, tb_responderID := Some dispatchID\<rparr>
      in and_then (tb_receiveSignal os RESPONDER_GRANT e st1) (\<lambda>_ st2.
           let delayMS = delay_or (touchableGetHighlightDelayMS (tb_mixer st2)) 0 HIGHLIGHT_DELAY_MS
           in and_then
                (if delayMS \<noteq> 0
                 then (case tb_set_timer delayMS (TouchDelay e) st2 of
                         (h, st3) \<Rightarrow> Ret () (st3\<lparr>touchableDelayTimeout := Some h\<rparr>))
                 else handleDelay os e st2)
                (\<lambda>_ st4. Ret () (arm_long_delay e delayMS st4))))"

definition touchableHandleResponderRelease :: "string \<Rightarrow> press_event \<Rightarrow> touchable \<Rightarrow> touch_result" where
  "touchableHandleResponderRelease os e st = tb_receiveSignal os RESPONDER_RELEASE e (st\<lparr>tb_pressInLocation := None\<rparr>)"

definition touchableHandleResponderTerminate :: "string \<Rightarrow> press_event \<Rightarrow> touchable \<Rightarrow> touch_result" where
  "touchableHandleResponderTerminate os e st = tb_receiveSignal os RESPONDER_TERMINATED e (st\<lparr>tb_pressInLocation := None\<rparr>)"

definition getDistanceBetweenPoints :: "real \<Rightarrow> real \<Rightarrow> real \<Rightarrow> real \<Rightarrow> real" where
  "getDistanceBetweenPoints aX aY bX bY =
     (let deltaX = aX - bX; deltaY = aY - bY in sqrt (deltaX * deltaX + deltaY * deltaY))"

definition press_expand :: "touch_mixer \<Rightarrow> region" where
  "press_expand m =
     (let off = (case touchableGetPressRectOffset m of Some r \<Rightarrow> r
            | None \<Rightarrow> \<lparr>r_bottom = PRESS_EXPAND_PX, r_left = PRESS_EXPAND_PX, r_right = PRESS_EXPAND_PX, r_top = PRESS_EXPAND_PX\<rparr>);
          slop = touchableGetHitSlop m
      in \<lparr>r_bottom = r_bottom off + edge_or slop e_bottom 0, r_left = r_left off + edge_or slop e_left 0,
          r_right = r_right off + edge_or slop e_right 0, r_top = r_top off + edge_or slop e_top 0\<rparr>)"

definition isTouchWithinActive :: "touch_mixer \<Rightarrow> point \<Rightarrow> point \<Rightarrow> point \<Rightarrow> bool" where
  "isTouchWithinActive m pos dims touch =
     (let x = press_expand m; pageX = fst touch; pageY = snd touch
      in pageX > fst pos - r_left x \<and> pageY > snd pos - r_top x \<and>
         pageX < fst pos + fst dims + r_right x \<and> pageY < snd pos + snd dims + r_bottom x)"

definition moved_beyond :: "point option \<Rightarrow> point \<Rightarrow> bool" where
  "moved_beyond loc touch =
     (case loc of None \<Rightarrow> False
      | Some p \<Rightarrow> getDistanceBetweenPoints (fst touch) (snd touch) (fst p) (snd p) > LONG_PRESS_ALLOWED_MOVEMENT)"

text \<open>Position and dimensions are always set together, by \<open>_handleQueryLayout\<close>.\<close>

definition touchableHandleResponderMove :: "string \<Rightarrow> press_event \<Rightarrow> touchable \<Rightarrow> touch_result" where
  "touchableHandleResponderMove os e st =
     (case (tb_positionOnActivate st, tb_dimensionsOnActivate st) of
        (Some pos, Some dims) \<Rightarrow>
          (let touch = extractSingleTouch e;
               st1 = (if moved_beyond (tb_pressInLocation st) touch then tb_cancelLongPress st else st)
           in if isTouchWithinActive (tb_mixer st1) pos dims touch
              then (let prevState = tb_touchState st1
                    in and_then (tb_receiveSignal os ENTER_PRESS_RECT e st1) (\<lambda>_ st2.
                         Ret () (if tb_touchState st2 = Some RESPONDER_INACTIVE_PRESS_IN \<and>
                                    prevState \<noteq> Some RESPONDER_INACTIVE_PRESS_IN
                                 then tb_cancelLongPress st2 else st2)))
              else tb_receiveSignal os LEAVE_PRESS_RECT e (tb_cancelLongPress st1))
      | _ \<Rightarrow> Ret () st)"

definition tb_fire :: "string \<Rightarrow> nat \<Rightarrow> touchable \<Rightarrow> touch_result" where
  "tb_fire os k st =
     (case array_get (tb_live st) k of
        None \<Rightarrow> Ret () st
      | Some (h, d, timer) \<Rightarrow>
          let st1 = st\<lparr>tb_live := remove_at k (tb_live st)\<rparr>
          in case timer of
               TouchDelay e \<Rightarrow> handleDelay os e st1
             | TouchLongDelay e \<Rightarrow> handleLongDelay os e st1
             | TouchPressOut \<Rightarrow> Ret () (tb_call True HandleActivePressOut st1))"

section \<open>The machine\<close>

datatype touch_input =
    TGrant nat press_event
  | TMove press_event
  | TRelease press_event
  | TTerminate press_event
  | TFire nat
  | TMeasured real real real real real real
  | TvEvent string
  | TUnmount

definition tb_granted :: "touchable \<Rightarrow> bool" where
  "tb_granted st \<longleftrightarrow> tb_touchState st \<noteq> None \<and> tb_touchState st \<noteq> Some NOT_RESPONDER"

text \<open>The responder system grants a node that is not the responder, and moves, releases and terminates the responder.\<close>

definition touch_allowed :: "touchable \<Rightarrow> touch_input \<Rightarrow> bool" where
  "touch_allowed st i =
     (case i of TGrant _ _ \<Rightarrow> \<not> tb_granted st | TMove _ \<Rightarrow> tb_granted st | TRelease _ \<Rightarrow> tb_granted st
      | TTerminate _ \<Rightarrow> tb_granted st | _ \<Rightarrow> True)"

definition touch_handle :: "string \<Rightarrow> touchable \<Rightarrow> touch_input \<Rightarrow> touch_result" where
  "touch_handle os st i =
     (case i of
        TGrant n e \<Rightarrow> touchableHandleResponderGrant os n e st
      | TMove e \<Rightarrow> touchableHandleResponderMove os e st
      | TRelease e \<Rightarrow> touchableHandleResponderRelease os e st
      | TTerminate e \<Rightarrow> touchableHandleResponderTerminate os e st
      | TFire k \<Rightarrow> tb_fire os k st
      | TMeasured l t w h x y \<Rightarrow> Ret () (handleQueryLayout l t w h x y st)
      | TvEvent ty \<Rightarrow> Ret () (tv_event os ty st)
      | TUnmount \<Rightarrow> Ret () (touchable_componentWillUnmount st))"

text \<open>Inputs that the responder system does not produce are left out of a run.\<close>

definition touch_step :: "touchable \<Rightarrow> string \<times> touch_input \<Rightarrow> touchable" where
  "touch_step st i = (if touch_allowed st (snd i) then out_state (touch_handle (fst i) st (snd i)) else st)"

section \<open>The invariant\<close>

definition tb_delays :: "touchable \<Rightarrow> nat set" where
  "tb_delays st = {h. \<exists>d e. (h, d, TouchDelay e) \<in> set (tb_live st)}"

definition handles_ok :: "touchable \<Rightarrow> bool" where
  "handles_ok st \<longleftrightarrow> distinct (map fst (tb_live st)) \<and> (\<forall>t\<in>set (tb_live st). fst t < tb_nextTimer st)"

definition no_press_out :: "touchable \<Rightarrow> bool" where
  "no_press_out st \<longleftrightarrow> (\<forall>t\<in>set (tb_live st). snd (snd t) \<noteq> TouchPressOut)"

text \<open>A component with both highlight handlers and without a delay of the second.\<close>

definition highlights_at_once :: "touch_mixer \<Rightarrow> bool" where
  "highlights_at_once m \<longleftrightarrow> touchableHandleActivePressIn m \<and> touchableHandleActivePressOut m \<and>
     touchableGetPressOutDelayMS m \<in> {None, Some 0}"

definition highlight_balance :: "touchable \<Rightarrow> int" where
  "highlight_balance st =
     int (count_list (tb_log st) HandleActivePressIn) - int (count_list (tb_log st) HandleActivePressOut)"

definition hl :: "touch_state option \<Rightarrow> int" where
  "hl s = (if isHighlight s then 1 else 0)"

definition tb_ok :: "touchable \<Rightarrow> bool" where
  "tb_ok st \<longleftrightarrow> handles_ok st \<and> tb_delays st \<subseteq> set_option (touchableDelayTimeout st) \<and>
     (tb_delays st \<noteq> {} \<longrightarrow> tb_touchState st = Some RESPONDER_INACTIVE_PRESS_IN) \<and>
     tb_touchState st \<noteq> Some ERROR \<and> (tb_granted st \<longrightarrow> tb_responderID st \<noteq> None) \<and>
     (highlights_at_once (tb_mixer st) \<longrightarrow> no_press_out st \<and> highlight_balance st = hl (tb_touchState st))"

text \<open>The views of the state the invariant is made of.\<close>

lemmas touch_views = tb_delays_def handles_ok_def no_press_out_def highlight_balance_def

text \<open>What the small operations keep; \<open>n\<close> is what they add to the balance.\<close>

definition tb_frame :: "int \<Rightarrow> touchable \<Rightarrow> touchable \<Rightarrow> bool" where
  "tb_frame n a st \<longleftrightarrow> tb_mixer st = tb_mixer a \<and> tb_touchState st = tb_touchState a \<and>
     tb_responderID st = tb_responderID a \<and> touchableDelayTimeout st = touchableDelayTimeout a \<and>
     tb_delays st \<subseteq> tb_delays a \<and> (handles_ok a \<longrightarrow> handles_ok st) \<and>
     (highlights_at_once (tb_mixer a) \<longrightarrow>
        (no_press_out a \<longrightarrow> no_press_out st) \<and> highlight_balance st = highlight_balance a + n)"

lemma tb_frame_refl [simp]: "tb_frame 0 st st"
  by (simp add: tb_frame_def)

lemma tb_frame_trans: "tb_frame m a b \<Longrightarrow> tb_frame n b c \<Longrightarrow> tb_frame (m + n) a c"
  by (auto simp: tb_frame_def)

lemma tb_frame_fields [simp]:
  "tb_frame n a (st\<lparr>tb_pressInLocation := p\<rparr>) = tb_frame n a st"
  "tb_frame n a (st\<lparr>longPressDelayTimeout := h\<rparr>) = tb_frame n a st"
  "tb_frame n a (st\<lparr>pressOutDelayTimeout := h\<rparr>) = tb_frame n a st"
  "tb_frame n a (st\<lparr>tb_positionOnActivate := q\<rparr>) = tb_frame n a st"
  "tb_frame n a (st\<lparr>tb_dimensionsOnActivate := q\<rparr>) = tb_frame n a st"
  by (simp_all add: tb_frame_def touch_views)

lemma tb_frame_clear: "tb_frame 0 st (tb_clear h st)"
  by (auto simp: tb_frame_def touch_views tb_clear_def
      distinct_map_filter)

lemma tb_frame_set_timer:
  assumes "\<And>e. k \<noteq> TouchDelay e" and "k = TouchPressOut \<Longrightarrow> \<not> highlights_at_once (tb_mixer st)"
  shows "tb_frame 0 st (snd (tb_set_timer d k st))"
  using assms
  by (auto simp: tb_frame_def touch_views tb_set_timer_def)

lemma tb_frame_call:
  "tb_frame (if b \<and> e = HandleActivePressIn then 1 else if b \<and> e = HandleActivePressOut then -1 else 0) st (tb_call b e st)"
  by (simp add: tb_frame_def touch_views tb_call_def)

lemma tb_frame_quiet_call:
  "e \<noteq> HandleActivePressIn \<Longrightarrow> e \<noteq> HandleActivePressOut \<Longrightarrow> tb_frame 0 st (tb_call b e st)"
  using tb_frame_call [of b e st] by simp

lemma tb_frame_cancelLongPress: "tb_frame 0 st (tb_cancelLongPress st)"
  by (simp add: tb_cancelLongPress_def tb_frame_clear)

lemma tb_frame_startHighlight: "tb_frame 1 st (startHighlight e st)"
  by (auto simp: startHighlight_def tb_frame_def touch_views tb_call_def highlights_at_once_def)

lemma tb_frame_endHighlight: "tb_frame (-1) st (endHighlight st)"
  by (auto simp: endHighlight_def tb_frame_def touch_views
      tb_call_def tb_set_timer_def highlights_at_once_def split: option.splits)

lemma tb_frame_highlight:
  "tb_frame (hl (Some nxt) - hl (Some cur)) st (highlight_effects cur nxt e st)"
  using tb_frame_startHighlight [of st e] tb_frame_endHighlight [of st]
  by (simp add: highlight_effects_def hl_def)

lemma tb_frame_release: "tb_frame 0 st (release_effects os cur nxt s e st)"
proof -
  have q: "tb_frame 0 x (tb_call True HandlePress (tb_call b TouchSound x))" for b x
    using tb_frame_trans [OF tb_frame_quiet_call [of TouchSound x b] tb_frame_quiet_call [of HandlePress]] by simp
  have se: "tb_frame 0 st (endHighlight (startHighlight e st))"
    using tb_frame_trans [OF tb_frame_startHighlight tb_frame_endHighlight, of st e] by simp
  have "tb_frame 0 st (tb_call True HandlePress (tb_call b TouchSound
      (if c then endHighlight (startHighlight e st) else st)))" for b c
    using tb_frame_trans [OF se q] q [of st b] by (cases c) simp_all
  then show ?thesis by (simp add: release_effects_def)
qed

text \<open>A whole transition.\<close>

lemma performSideEffects_frame:
  fixes st os cur nxt s e
  defines "p \<equiv> performSideEffectsForTransition os cur nxt s e st"
  shows "tb_mixer p = tb_mixer st" "tb_responderID p = tb_responderID st" "touchableDelayTimeout p = None"
    "handles_ok st \<Longrightarrow> handles_ok p"
    "tb_delays st \<subseteq> set_option (touchableDelayTimeout st) \<Longrightarrow> tb_delays p = {}"
    "highlights_at_once (tb_mixer st) \<Longrightarrow> no_press_out st \<Longrightarrow> no_press_out p"
    "highlights_at_once (tb_mixer st) \<Longrightarrow> highlight_balance p = highlight_balance st + hl (Some nxt) - hl (Some cur)"
proof -
  define s1 where "s1 = (if s = RESPONDER_TERMINATED \<or> s = RESPONDER_RELEASE then tb_cancelLongPress st else st)"
  define s2 where "s2 = (if (cur = NOT_RESPONDER \<and> nxt = RESPONDER_INACTIVE_PRESS_IN) \<or> (\<not> IsActive cur \<and> IsActive nxt)
     then remeasureMetricsOnActivation s1 else s1)"
  define s3 where "s3 = tb_call (IsPressingIn cur \<and> s = LONG_PRESS_DETECTED \<and> touchableHandleLongPress (tb_mixer s2)) HandleLongPress s2"
  define s4 where "s4 = release_effects os cur nxt s e (highlight_effects cur nxt e s3)"
  have p: "p = (tb_clear (touchableDelayTimeout s4) s4)\<lparr>touchableDelayTimeout := None\<rparr>"
    by (simp add: p_def performSideEffectsForTransition_def s1_def s2_def s3_def s4_def Let_def)
  have "tb_frame 0 st s1" by (simp add: s1_def tb_frame_cancelLongPress)
  moreover have "tb_frame 0 s1 s2" by (simp add: s2_def remeasureMetricsOnActivation_def tb_frame_quiet_call)
  moreover have "tb_frame 0 s2 s3" by (simp add: s3_def tb_frame_quiet_call)
  moreover have "tb_frame (hl (Some nxt) - hl (Some cur)) s3 s4"
    using tb_frame_trans [OF tb_frame_highlight tb_frame_release] by (simp add: s4_def)
  ultimately have f: "tb_frame (hl (Some nxt) - hl (Some cur)) st s4"
    using tb_frame_trans [of 0 st s1 0 s2] tb_frame_trans [of 0 st s2 0 s3] tb_frame_trans [of 0 st s3 _ s4] by simp
  have c: "tb_frame 0 s4 (tb_clear (touchableDelayTimeout s4) s4)" by (rule tb_frame_clear)
  have u: "tb_delays (x\<lparr>touchableDelayTimeout := h\<rparr>) = tb_delays x" "handles_ok (x\<lparr>touchableDelayTimeout := h\<rparr>) = handles_ok x"
    "no_press_out (x\<lparr>touchableDelayTimeout := h\<rparr>) = no_press_out x"
    "highlight_balance (x\<lparr>touchableDelayTimeout := h\<rparr>) = highlight_balance x" for x h
    by (simp_all add: touch_views)
  have d: "tb_delays (tb_clear h x) = tb_delays x - set_option h" for h x
    by (cases h) (auto simp: tb_delays_def tb_clear_def)
  show "tb_mixer p = tb_mixer st" "tb_responderID p = tb_responderID st" "touchableDelayTimeout p = None"
    "handles_ok st \<Longrightarrow> handles_ok p"
    "highlights_at_once (tb_mixer st) \<Longrightarrow> no_press_out st \<Longrightarrow> no_press_out p"
    "highlights_at_once (tb_mixer st) \<Longrightarrow> highlight_balance p = highlight_balance st + hl (Some nxt) - hl (Some cur)"
    using f c by (simp_all add: p tb_frame_def u)
  show "tb_delays st \<subseteq> set_option (touchableDelayTimeout st) \<Longrightarrow> tb_delays p = {}"
    using f by (auto simp: p u d tb_frame_def)
qed

definition tb_pre :: "touchable \<Rightarrow> bool" where
  "tb_pre st \<longleftrightarrow> handles_ok st \<and> tb_delays st \<subseteq> set_option (touchableDelayTimeout st) \<and> tb_responderID st \<noteq> None \<and>
     (highlights_at_once (tb_mixer st) \<longrightarrow> no_press_out st \<and> highlight_balance st = hl (tb_touchState st))"

lemma tb_signal_ok:
  assumes pre: "tb_pre st" and t: "tb_touchState st = Some cur" "touch_Transitions (Some cur) s = Some nxt" "nxt \<noteq> ERROR"
    and same: "cur = nxt \<Longrightarrow> tb_ok st"
  shows "\<exists>st'. tb_receiveSignal os s e st = Ret () st' \<and> tb_ok st' \<and> tb_touchState st' = Some nxt \<and>
     tb_mixer st' = tb_mixer st \<and> tb_responderID st' = tb_responderID st \<and> (cur \<noteq> nxt \<longrightarrow> tb_delays st' = {})"
proof (cases "cur = nxt")
  case True
  with assms show ?thesis by (intro exI [of _ st]) (auto simp: tb_receiveSignal_def tb_pre_def)
next
  case False
  let ?p = "performSideEffectsForTransition os cur nxt s e st"
  have u: "tb_delays (x\<lparr>tb_touchState := q\<rparr>) = tb_delays x" "handles_ok (x\<lparr>tb_touchState := q\<rparr>) = handles_ok x"
    "no_press_out (x\<lparr>tb_touchState := q\<rparr>) = no_press_out x"
    "highlight_balance (x\<lparr>tb_touchState := q\<rparr>) = highlight_balance x" for x q
    by (simp_all add: touch_views)
  note f = performSideEffects_frame [where st = st and os = os and cur = cur and nxt = nxt and s = s and e = e]
  have "tb_ok (?p\<lparr>tb_touchState := Some nxt\<rparr>)"
    using pre t f by (simp add: tb_ok_def tb_pre_def u)
  with False pre t f show ?thesis
    by (intro exI [of _ "?p\<lparr>tb_touchState := Some nxt\<rparr>"]) (auto simp: tb_receiveSignal_def tb_pre_def u)
qed

lemma tb_frame_ok: "tb_frame 0 st st' \<Longrightarrow> tb_ok st \<Longrightarrow> tb_ok st'"
  by (auto simp: tb_frame_def tb_ok_def tb_granted_def)

lemma tb_ok_pre: "tb_ok st \<Longrightarrow> tb_granted st \<Longrightarrow> tb_pre st"
  by (simp add: tb_ok_def tb_pre_def)

text \<open>A signal to a granted machine that the table allows.\<close>

lemma granted_signal:
  assumes "tb_ok st" and "tb_granted st"
    and "s \<in> {RESPONDER_RELEASE, RESPONDER_TERMINATED, ENTER_PRESS_RECT, LEAVE_PRESS_RECT}"
  shows "\<exists>st'. tb_receiveSignal os s e st = Ret () st' \<and> tb_ok st'"
proof -
  obtain cur where c: "tb_touchState st = Some cur" "cur \<noteq> NOT_RESPONDER" "cur \<noteq> ERROR"
    using assms(1,2) by (auto simp: tb_granted_def tb_ok_def)
  then obtain nxt where "touch_Transitions (Some cur) s = Some nxt" "nxt \<noteq> ERROR"
    using assms(3) by (cases cur) auto
  from tb_signal_ok [OF tb_ok_pre [OF assms(1,2)] c(1) this] assms(1) show ?thesis by blast
qed

lemma touch_grant_ok:
  assumes ok: "tb_ok st" and ng: "\<not> tb_granted st"
  shows "\<exists>st'. touchableHandleResponderGrant os n e st = Ret () st' \<and> tb_ok st'"
proof -
  let ?s0 = "(tb_clear (pressOutDelayTimeout st) st)\<lparr>pressOutDelayTimeout := None\<rparr>"
  let ?s1 = "?s0\<lparr>tb_touchState := Some NOT_RESPONDER, tb_responderID := Some n\<rparr>"
  have "tb_frame 0 st ?s0" by (simp add: tb_frame_clear)
  with ok have ok0: "tb_ok ?s0" "tb_touchState ?s0 = tb_touchState st" "tb_delays ?s0 \<subseteq> tb_delays st"
    using tb_frame_ok [of st ?s0] by (simp_all add: tb_frame_def)
  have h: "hl (tb_touchState st) = hl (Some NOT_RESPONDER)"
    using ng by (auto simp: hl_def isHighlight_def tb_granted_def)
  have "tb_pre ?s1"
    using ok0 h by (simp add: tb_ok_def tb_pre_def touch_views)
  from tb_signal_ok [OF this, of NOT_RESPONDER RESPONDER_GRANT RESPONDER_INACTIVE_PRESS_IN os e]
  obtain s2 where s2: "tb_receiveSignal os RESPONDER_GRANT e ?s1 = Ret () s2" "tb_ok s2"
    "tb_touchState s2 = Some RESPONDER_INACTIVE_PRESS_IN" "tb_delays s2 = {}" "tb_responderID s2 \<noteq> None" by auto
  define d where "d = delay_or (touchableGetHighlightDelayMS (tb_mixer s2)) 0 HIGHLIGHT_DELAY_MS"
  have "\<exists>s4. (if d \<noteq> 0 then (case tb_set_timer d (TouchDelay e) s2 of (h, st3) \<Rightarrow> Ret () (st3\<lparr>touchableDelayTimeout := Some h\<rparr>))
       else handleDelay os e s2) = Ret () s4 \<and> tb_ok s4"
  proof (cases "d = 0")
    case False
    have "tb_ok ((snd (tb_set_timer d (TouchDelay e) s2))\<lparr>touchableDelayTimeout := Some (fst (tb_set_timer d (TouchDelay e) s2))\<rparr>)"
      using s2 by (auto simp: tb_ok_def tb_set_timer_def touch_views tb_granted_def)
    with False show ?thesis by (simp add: case_prod_beta)
  next
    case True
    have "tb_pre (s2\<lparr>touchableDelayTimeout := None\<rparr>)"
      using s2 by (simp add: tb_ok_def tb_pre_def touch_views)
    from tb_signal_ok [OF this, of RESPONDER_INACTIVE_PRESS_IN DELAY RESPONDER_ACTIVE_PRESS_IN os e] True s2(3)
    show ?thesis by (auto simp: handleDelay_def)
  qed
  then obtain s4 where s4: "(if d \<noteq> 0 then (case tb_set_timer d (TouchDelay e) s2 of (h, st3) \<Rightarrow> Ret () (st3\<lparr>touchableDelayTimeout := Some h\<rparr>))
       else handleDelay os e s2) = Ret () s4" "tb_ok s4" by blast
  have "tb_frame 0 s4 (arm_long_delay e d s4)"
    using tb_frame_set_timer [of "TouchLongDelay e" s4] by (simp add: arm_long_delay_def Let_def case_prod_beta)
  from tb_frame_ok [OF this s4(2)] show ?thesis
    unfolding touchableHandleResponderGrant_def Let_def s2(1) and_then.simps d_def [symmetric] s4(1) by simp
qed

lemma touch_move_ok:
  assumes ok: "tb_ok st" and g: "tb_granted st"
  shows "\<exists>st'. touchableHandleResponderMove os e st = Ret () st' \<and> tb_ok st'"
proof (cases "tb_positionOnActivate st = None \<or> tb_dimensionsOnActivate st = None")
  case True
  with ok show ?thesis by (auto simp: touchableHandleResponderMove_def split: option.splits)
next
  case False
  then obtain pos dims where pd: "tb_positionOnActivate st = Some pos" "tb_dimensionsOnActivate st = Some dims" by auto
  define s1 where "s1 = (if moved_beyond (tb_pressInLocation st) (extractSingleTouch e) then tb_cancelLongPress st else st)"
  have f1: "tb_frame 0 st s1" by (simp add: s1_def tb_frame_cancelLongPress)
  have f2: "tb_frame 0 s1 (tb_cancelLongPress s1)" by (rule tb_frame_cancelLongPress)
  have o: "tb_ok s1" "tb_ok (tb_cancelLongPress s1)" "tb_granted s1" "tb_granted (tb_cancelLongPress s1)"
    using tb_frame_ok [OF f1 ok] tb_frame_ok [OF f2] f1 f2 g by (simp_all add: tb_frame_def tb_granted_def)
  from granted_signal [OF o(1,3), of ENTER_PRESS_RECT os e] obtain s2 where
    s2: "tb_receiveSignal os ENTER_PRESS_RECT e s1 = Ret () s2" "tb_ok s2" by auto
  have "tb_ok (tb_cancelLongPress s2)" by (rule tb_frame_ok [OF tb_frame_cancelLongPress s2(2)])
  moreover from granted_signal [OF o(2,4), of LEAVE_PRESS_RECT os e] obtain s3 where
    "tb_receiveSignal os LEAVE_PRESS_RECT e (tb_cancelLongPress s1) = Ret () s3" "tb_ok s3" by auto
  ultimately show ?thesis
    using pd s2 by (simp add: touchableHandleResponderMove_def Let_def flip: s1_def)
qed

lemma tb_fire_ok:
  assumes ok: "tb_ok st"
  shows "\<exists>st'. tb_fire os k st = Ret () st' \<and> tb_ok st'"
proof (cases "array_get (tb_live st) k")
  case None
  with ok show ?thesis by (simp add: tb_fire_def)
next
  case (Some t)
  obtain h d k' where t: "t = (h, d, k')" by (cases t)
  let ?l = "tb_live st" and ?s1 = "st\<lparr>tb_live := remove_at k (tb_live st)\<rparr>"
  have k: "k < length ?l" "?l ! k = t" using Some by (auto simp: js_defs split: if_splits)
  have dis: "distinct (map fst (take k ?l @ t # drop (Suc k) ?l))"
    using ok id_take_nth_drop [OF k(1)] k(2) by (simp add: tb_ok_def handles_ok_def)
  then have h: "h \<notin> fst ` set (remove_at k ?l)" "distinct (map fst (remove_at k ?l))"
    using t by (auto simp: remove_at_def)
  have mem: "(h, d, k') \<in> set ?l" using array_get_mem [OF Some] t by simp
  have f: "tb_frame 0 st ?s1"
    using h(2) set_remove_at [of k ?l]
    by (auto simp: tb_frame_def touch_views)
  have ok1: "tb_ok ?s1" by (rule tb_frame_ok [OF f ok])
  show ?thesis
  proof (cases k')
    case (TouchDelay e)
    have hd: "h \<in> tb_delays st" using mem TouchDelay by (auto simp: tb_delays_def)
    then have st: "tb_touchState st = Some RESPONDER_INACTIVE_PRESS_IN" "touchableDelayTimeout st = Some h"
      using ok by (auto simp: tb_ok_def)
    have "tb_delays ?s1 = {}"
      using f ok st(2) h(1) by (force simp: tb_frame_def tb_ok_def tb_delays_def)
    then have "tb_pre (?s1\<lparr>touchableDelayTimeout := None\<rparr>)"
      using ok1 st by (simp add: tb_ok_def tb_pre_def touch_views tb_granted_def)
    from tb_signal_ok [OF this, of RESPONDER_INACTIVE_PRESS_IN DELAY RESPONDER_ACTIVE_PRESS_IN os e] st
    show ?thesis using Some t TouchDelay by (auto simp: tb_fire_def handleDelay_def)
  next
    case (TouchLongDelay e)
    let ?s2 = "?s1\<lparr>longPressDelayTimeout := None\<rparr>"
    have ok2: "tb_ok ?s2" by (rule tb_frame_ok [OF _ ok1]) simp
    show ?thesis
    proof (cases "tb_touchState st = Some RESPONDER_ACTIVE_PRESS_IN \<or> tb_touchState st = Some RESPONDER_ACTIVE_LONG_PRESS_IN")
      case True
      then obtain cur where "tb_touchState ?s2 = Some cur" "touch_Transitions (Some cur) LONG_PRESS_DETECTED = Some RESPONDER_ACTIVE_LONG_PRESS_IN"
        by auto
      from tb_signal_ok [OF tb_ok_pre [OF ok2] this, of os e] ok2 True Some t TouchLongDelay
      show ?thesis by (auto simp: tb_fire_def handleLongDelay_def Let_def tb_granted_def)
    next
      case False
      with ok2 Some t TouchLongDelay show ?thesis by (simp add: tb_fire_def handleLongDelay_def Let_def)
    qed
  next
    case TouchPressOut
    have "\<not> highlights_at_once (tb_mixer st)" using ok mem TouchPressOut by (force simp: tb_ok_def no_press_out_def)
    then have "tb_ok (tb_call True HandleActivePressOut ?s1)"
      using ok1 by (simp add: tb_ok_def tb_call_def tb_delays_def handles_ok_def tb_granted_def)
    with Some t TouchPressOut show ?thesis by (simp add: tb_fire_def)
  qed
qed

lemma touch_handle_ok:
  assumes ok: "tb_ok st" and allowed: "touch_allowed st i"
  shows "\<exists>st'. touch_handle os st i = Ret () st' \<and> tb_ok st'"
proof (cases i)
  case (TRelease e)
  have "tb_ok (st\<lparr>tb_pressInLocation := None\<rparr>)" by (rule tb_frame_ok [OF _ ok]) simp
  from granted_signal [OF this, of RESPONDER_RELEASE os e] TRelease allowed show ?thesis
    by (simp add: touch_handle_def touch_allowed_def touchableHandleResponderRelease_def tb_granted_def)
next
  case (TTerminate e)
  have "tb_ok (st\<lparr>tb_pressInLocation := None\<rparr>)" by (rule tb_frame_ok [OF _ ok]) simp
  from granted_signal [OF this, of RESPONDER_TERMINATED os e] TTerminate allowed show ?thesis
    by (simp add: touch_handle_def touch_allowed_def touchableHandleResponderTerminate_def tb_granted_def)
next
  case (TMeasured l t w h x y)
  have "tb_frame 0 st (handleQueryLayout l t w h x y st)" by (simp add: handleQueryLayout_def)
  with TMeasured tb_frame_ok [OF _ ok] show ?thesis by (simp add: touch_handle_def)
next
  case (TvEvent ty)
  have "tb_frame 0 st (tv_event os ty st)"
    by (simp add: tv_event_def touchableHandleFocus_def touchableHandleBlur_def tb_frame_quiet_call)
  with TvEvent tb_frame_ok [OF _ ok] show ?thesis by (simp add: touch_handle_def)
next
  case TUnmount
  have "tb_frame 0 st (touchable_componentWillUnmount st)"
    using tb_frame_trans [OF tb_frame_trans [OF tb_frame_clear tb_frame_clear] tb_frame_clear]
    by (simp add: touchable_componentWillUnmount_def)
  with TUnmount tb_frame_ok [OF _ ok] show ?thesis by (simp add: touch_handle_def)
qed (use ok allowed touch_grant_ok touch_move_ok tb_fire_ok in \<open>auto simp: touch_handle_def touch_allowed_def\<close>)

interpretation tbm: event_machine touch_step tb_ok
proof
  fix s :: touchable and e
  assume "tb_ok s"
  then show "tb_ok (touch_step s e)"
    using touch_handle_ok [of s "snd e" "fst e"] by (auto simp: touch_step_def)
qed

lemma touch_run_ok: "tb_ok (foldl touch_step (touchableGetInitialState m) es)"
  by (rule tbm.inv_run) (simp add: tb_ok_def touchableGetInitialState_def handles_ok_def tb_delays_def tb_granted_def
      no_press_out_def highlight_balance_def hl_def isHighlight_def)

text \<open>The component stays the same.\<close>

lemma mixer_signal:
  "tb_receiveSignal os s e st = Ret u st' \<Longrightarrow> tb_mixer st' = tb_mixer st"
  "tb_receiveSignal os s e st = Throw x st' \<Longrightarrow> tb_mixer st' = tb_mixer st"
  by (auto simp: tb_receiveSignal_def performSideEffects_frame(1) split: if_splits option.splits)

lemma mixer_fields [simp]:
  "tb_mixer (tb_clear h st) = tb_mixer st" "tb_mixer (snd (tb_set_timer d k st)) = tb_mixer st"
  "tb_mixer (tb_call b x st) = tb_mixer st" "tb_mixer (tb_cancelLongPress st) = tb_mixer st"
  "tb_mixer (arm_long_delay e d' st) = tb_mixer st"
  by (simp_all add: tb_clear_def tb_set_timer_def tb_call_def tb_cancelLongPress_def arm_long_delay_def Let_def)

lemma mixer_out [simp]: "tb_mixer (out_state (tb_receiveSignal os s e st)) = tb_mixer st"
proof (cases "tb_receiveSignal os s e st")
  case (Ret u st')
  with mixer_signal(1) [OF Ret] show ?thesis by simp
next
  case (Throw x st')
  with mixer_signal(2) [OF Throw] show ?thesis by simp
qed

lemma mixer_and_then:
  "tb_mixer (out_state m) = x \<Longrightarrow> (\<And>a st. tb_mixer st = x \<Longrightarrow> tb_mixer (out_state (f a st)) = x) \<Longrightarrow>
   tb_mixer (out_state (and_then m f)) = x"
  by (cases m) auto

lemma mixer_handle: "tb_mixer (out_state (touch_handle os st i)) = tb_mixer st"
proof (cases i)
  case (TGrant n e)
  have "tb_mixer (out_state (touchableHandleResponderGrant os n e st)) = tb_mixer st"
    unfolding touchableHandleResponderGrant_def Let_def
    by (rule mixer_and_then, simp, rule mixer_and_then) (simp_all add: handleDelay_def case_prod_beta)
  with TGrant show ?thesis by (simp add: touch_handle_def)
next
  case (TMove e)
  then show ?thesis
    by (auto intro!: mixer_and_then simp: touch_handle_def touchableHandleResponderMove_def Let_def split: option.splits)
qed (auto simp: touch_handle_def touchableHandleResponderRelease_def touchableHandleResponderTerminate_def
    tb_fire_def handleDelay_def handleLongDelay_def handleQueryLayout_def tv_event_def touchableHandleFocus_def
    touchableHandleBlur_def touchable_componentWillUnmount_def Let_def split: option.splits prod.splits touch_timer.splits)

lemma mixer_run: "tb_mixer (foldl touch_step st es) = tb_mixer st"
  by (induction es arbitrary: st) (simp_all add: touch_step_def mixer_handle)

text \<open>
  In every state a run of allowed inputs reaches, every input that the responder system
  may produce next, and every timer that may fire, is handled without an error.
\<close>

theorem touchable_never_throws:
  assumes "touch_allowed (foldl touch_step (touchableGetInitialState m) es) i"
  shows "\<exists>st'. touch_handle os (foldl touch_step (touchableGetInitialState m) es) i = Ret () st'"
  using touch_handle_ok [OF touch_run_ok assms] by blast

text \<open>
  For a component with both highlight handlers and no press-out delay, highlights and
  unhighlights alternate through every run: there has been exactly one more of the former
  while the machine is in a highlighted state, and equally many otherwise, in particular
  after every gesture.
\<close>

theorem highlights_are_undone:
  assumes "highlights_at_once m"
  shows "let st = foldl touch_step (touchableGetInitialState m) es
         in int (count_list (tb_log st) HandleActivePressIn) =
            int (count_list (tb_log st) HandleActivePressOut) + (if isHighlight (tb_touchState st) then 1 else 0)"
proof -
  have m: "tb_mixer (foldl touch_step (touchableGetInitialState m) es) = m"
    by (simp add: mixer_run) (simp add: touchableGetInitialState_def)
  show ?thesis
    using touch_run_ok [of m es] m assms by (simp add: tb_ok_def highlight_balance_def hl_def Let_def)
qed

text \<open>On every state but the error state the table is the one of \<open>Pressability\<close>, and so are the derived classes of states.\<close>

lemma same_table: "s \<noteq> ERROR \<Longrightarrow> touch_Transitions (Some s) sig = Some (Transitions s sig)"
  by (cases s) simp_all

lemma same_classes:
  "isHighlight (Some s) = isActiveSignal s" "IsPressingIn s = isPressInSignal s" "IsActive s = isActivationSignal s"
  "extractSingleTouch e = getTouchFromPressEvent e"
  by (auto simp: isHighlight_def isActiveSignal_def IsPressingIn_def isPressInSignal_def IsActive_def
      isActivationSignal_def extractSingleTouch_def getTouchFromPressEvent_def)

section \<open>Examples\<close>

definition ex_mixer :: touch_mixer where
  "ex_mixer = \<lparr>touchableHandlePress = True, touchableHandleActivePressIn = True, touchableHandleActivePressOut = True,
     touchableHandleLongPress = False, touchableGetHighlightDelayMS = Some (Some 0), touchableGetLongPressDelayMS = None,
     touchableGetPressOutDelayMS = None, touchableGetPressRectOffset = None, touchableGetHitSlop = None,
     touchableLongPressCancelsPress = True, props_disabled = False, props_rejectResponderTermination = False,
     props_onLongPress = False, props_onFocus = False, props_onBlur = False, props_touchSoundDisabled = False\<rparr>"

theorem touchable_never_throws_witness:
  "\<exists>st'. touch_handle ''ios'' (foldl touch_step (touchableGetInitialState ex_mixer) [(''ios'', TvEvent ''focus'')])
     (TGrant 3 (ex_touch 5)) = Ret () st'"
  by (rule touchable_never_throws)
    (simp add: touch_step_def touch_allowed_def touch_handle_def tv_event_def touchableHandleFocus_def tb_call_def
      tb_granted_def touchableGetInitialState_def ex_mixer_def)

theorem highlights_are_undone_witness:
  "let st = foldl touch_step (touchableGetInitialState ex_mixer) [(''ios'', TGrant 3 (ex_touch 5)), (''ios'', TRelease (ex_touch 5))]
   in int (count_list (tb_log st) HandleActivePressIn) =
      int (count_list (tb_log st) HandleActivePressOut) + (if isHighlight (tb_touchState st) then 1 else 0)"
  by (rule highlights_are_undone) (simp add: highlights_at_once_def ex_mixer_def)

end
