(* ===== verification/Differ.thy ===== *)
theory Differ
  imports JSValue
begin

text \<open>
  \<open>Libraries/Utilities/differ/\<close>: the functions that decide whether a property value changed.

  \<open>deepDiffer\<close> returns whether its arguments differ, with the calls it made to the log
  listener of ignored functions (\<open>listening\<close>: one is installed).  Only own properties are
  modelled: \<open>two[key]\<close> of a key that \<open>two\<close> does not have is \<open>undefined\<close>.
\<close>

section \<open>deepDiffer\<close>

datatype dd_options = NoOptions | EmptyOptions | UnsafelyIgnoreFunctions "bool option"

datatype depth_or_options = MaxDepth int | DepthOptions dd_options

type_synonym dd_log = "(js_fun \<times> js_fun) list"

fun get_prop :: "string \<Rightarrow> (string \<times> jsval) list \<Rightarrow> jsval" where
  "get_prop k [] = JUndefined"
| "get_prop k ((k', v) # kvs) = (if k = k' then v else get_prop k kvs)"

text \<open>A loop that returns at the first difference.\<close>

fun any_diff :: "('a \<Rightarrow> bool \<times> dd_log) \<Rightarrow> 'a list \<Rightarrow> bool \<times> dd_log" where
  "any_diff f [] = (False, [])"
| "any_diff f (x # xs) =
     (if fst (f x) then f x else (fst (any_diff f xs), snd (f x) @ snd (any_diff f xs)))"

lemma any_diff_cong [fundef_cong]:
  "xs = ys \<Longrightarrow> (\<And>x. x \<in> set ys \<Longrightarrow> f x = g x) \<Longrightarrow> any_diff f xs = any_diff g ys"
  by (induction xs arbitrary: ys) auto

lemma fst_any_diff [simp]: "fst (any_diff f xs) \<longleftrightarrow> (\<exists>x\<in>set xs. fst (f x))"
  by (induction xs) auto

text \<open>Two functions: equal unless configured otherwise.\<close>

definition functions_differ :: "bool \<Rightarrow> dd_options \<Rightarrow> js_fun \<Rightarrow> js_fun \<Rightarrow> bool \<times> dd_log" where
  "functions_differ listening options f g =
     (case options of
        UnsafelyIgnoreFunctions (Some b) \<Rightarrow> (\<not> b, [])
      | UnsafelyIgnoreFunctions None \<Rightarrow> (False, [])
      | _ \<Rightarrow> (False, if listening then [(f, g)] else []))"

lemma size_element: "i < length xs \<Longrightarrow> size (xs ! i) < Suc (size_list size xs)"
  using size_list_estimation' [OF nth_mem, of i xs "size (xs ! i)" size] by simp

function deepDiffer :: "bool \<Rightarrow> dd_options \<Rightarrow> int \<Rightarrow> jsval \<Rightarrow> jsval \<Rightarrow> bool \<times> dd_log" where
  "deepDiffer listening options maxDepth one two =
     (if maxDepth = 0 then (True, [])
      else if strict_eq one two then (False, [])
      else case (one, two) of
             (JFunction f, JFunction g) \<Rightarrow> functions_differ listening options f g
           | (JArray _ xs, JArray _ ys) \<Rightarrow>
               if length ys \<noteq> length xs then (True, [])
               else any_diff (\<lambda>ii. deepDiffer listening options (maxDepth - 1) (xs ! ii) (ys ! ii)) [0..<length xs]
           | (JObject _ c kvs, JObject _ c' kvs') \<Rightarrow>
               if c \<noteq> c' then (True, [])
               else let r = any_diff (\<lambda>kv. deepDiffer listening options (maxDepth - 1) (snd kv) (get_prop (fst kv) kvs')) kvs
                    in if fst r then r
                       else ((\<exists>kv\<in>set kvs'. get_prop (fst kv) kvs = JUndefined \<and> snd kv \<noteq> JUndefined), snd r)
           | _ \<Rightarrow> (True, []))"
  by pat_completeness auto
termination
  by (relation "measure (\<lambda>(_, _, _, one, _). size one)")
    (auto simp: size_property size_property' size_element)

declare deepDiffer.simps [simp del]

text \<open>The overloaded third argument.\<close>

definition deepDiffer_call :: "bool \<Rightarrow> jsval \<Rightarrow> jsval \<Rightarrow> depth_or_options \<Rightarrow> dd_options \<Rightarrow> bool \<times> dd_log" where
  "deepDiffer_call listening one two maxDepthOrOptions maybeOptions =
     (case maxDepthOrOptions of
        MaxDepth d \<Rightarrow> deepDiffer listening maybeOptions d one two
      | DepthOptions opts \<Rightarrow> deepDiffer listening opts (-1) one two)"

section \<open>The differs of structured properties\<close>

record inset =
  in_top :: "js_number option"
  in_left :: "js_number option"
  in_right :: "js_number option"
  in_bottom :: "js_number option"

definition num_neq :: "js_number option \<Rightarrow> js_number option \<Rightarrow> bool" where
  "num_neq a b \<longleftrightarrow> \<not> (a = b \<and> a \<noteq> Some NaN)"

text \<open>
  An argument is missing, or an object with its address; \<open>one !== two\<close> compares addresses
  (the dummy has none).
\<close>

definition insetsDiffer :: "(nat \<times> inset) option \<Rightarrow> (nat \<times> inset) option \<Rightarrow> bool" where
  "insetsDiffer one two =
     (let dummy = \<lparr>in_top = None, in_left = None, in_right = None, in_bottom = None\<rparr>;
          o1 = (case one of None \<Rightarrow> dummy | Some (_, i) \<Rightarrow> i); o2 = (case two of None \<Rightarrow> dummy | Some (_, i) \<Rightarrow> i)
      in map_option fst one \<noteq> map_option fst two \<and>
         (num_neq (in_top o1) (in_top o2) \<or> num_neq (in_left o1) (in_left o2) \<or>
          num_neq (in_right o1) (in_right o2) \<or> num_neq (in_bottom o1) (in_bottom o2)))"

text \<open>\<open>pointsDiffer\<close> and \<open>sizesDiffer\<close>: a pair of coordinates, or of width and height.\<close>

type_synonym num_pair = "js_number option \<times> js_number option"

definition pointsDiffer :: "(nat \<times> num_pair) option \<Rightarrow> (nat \<times> num_pair) option \<Rightarrow> bool" where
  "pointsDiffer one two =
     (let o1 = (case one of None \<Rightarrow> (None, None) | Some (_, p) \<Rightarrow> p); o2 = (case two of None \<Rightarrow> (None, None) | Some (_, p) \<Rightarrow> p)
      in map_option fst one \<noteq> map_option fst two \<and> (num_neq (fst o1) (fst o2) \<or> num_neq (snd o1) (snd o2)))"

definition sizesDiffer :: "(nat \<times> num_pair) option \<Rightarrow> (nat \<times> num_pair) option \<Rightarrow> bool" where
  "sizesDiffer one two =
     (let o1 = (case one of None \<Rightarrow> (None, None) | Some (_, p) \<Rightarrow> p); o2 = (case two of None \<Rightarrow> (None, None) | Some (_, p) \<Rightarrow> p)
      in map_option fst one \<noteq> map_option fst two \<and> (num_neq (fst o1) (fst o2) \<or> num_neq (snd o1) (snd o2)))"

definition matrix_at :: "js_number list \<Rightarrow> nat \<Rightarrow> js_number option" where
  "matrix_at m i = array_get m i"

definition matrix_order :: "nat list" where
  "matrix_order = [12, 13, 14, 5, 10, 0, 1, 2, 3, 4, 6, 7, 8, 9, 11, 15]"

definition matricesDiffer :: "(nat \<times> js_number list) option \<Rightarrow> (nat \<times> js_number list) option \<Rightarrow> bool" where
  "matricesDiffer one two =
     (if map_option fst one = map_option fst two then False
      else case (one, two) of
             (Some (_, m), Some (_, n)) \<Rightarrow> list_ex (\<lambda>i. num_neq (matrix_at m i) (matrix_at n i)) matrix_order
           | _ \<Rightarrow> True)"

section \<open>What deepDiffer computes\<close>

definition differ :: "bool \<Rightarrow> dd_options \<Rightarrow> int \<Rightarrow> jsval \<Rightarrow> jsval \<Rightarrow> bool" where
  "differ listening options d one two = fst (deepDiffer listening options d one two)"

lemma differ_array:
  "differ l opts d (JArray a xs) (JArray b ys) \<longleftrightarrow>
     d = 0 \<or> (a \<noteq> b \<and> (length xs \<noteq> length ys \<or> (\<exists>i<length xs. differ l opts (d - 1) (xs ! i) (ys ! i))))"
  unfolding differ_def by (subst deepDiffer.simps) auto

lemma differ_object:
  "differ l opts d (JObject a c kvs) (JObject b c' kvs') \<longleftrightarrow>
     d = 0 \<or> (a \<noteq> b \<and> (c \<noteq> c' \<or> (\<exists>kv\<in>set kvs. differ l opts (d - 1) (snd kv) (get_prop (fst kv) kvs')) \<or>
       (\<exists>kv\<in>set kvs'. get_prop (fst kv) kvs = JUndefined \<and> snd kv \<noteq> JUndefined)))"
  unfolding differ_def by (subst deepDiffer.simps) (auto simp: Let_def)

text \<open>Values of which not both are arrays or both objects.\<close>

definition same_shape :: "jsval \<Rightarrow> jsval \<Rightarrow> bool" where
  "same_shape a b \<longleftrightarrow>
     (case (a, b) of (JArray _ _, JArray _ _) \<Rightarrow> True | (JObject _ _ _, JObject _ _ _) \<Rightarrow> True | _ \<Rightarrow> False)"

lemma shape_cases [case_names arr obj flat]:
  obtains a xs b ys where "x = JArray a xs" "y = JArray b ys"
    | a c kvs b c' kvs' where "x = JObject a c kvs" "y = JObject b c' kvs'"
    | "\<not> same_shape x y"
  by (cases x; cases y) (auto simp: same_shape_def)

definition ignores_functions :: "dd_options \<Rightarrow> bool" where
  "ignores_functions opts \<longleftrightarrow> opts \<noteq> UnsafelyIgnoreFunctions (Some False)"

lemma functions_differ_fst: "fst (functions_differ l opts f g) \<longleftrightarrow> \<not> ignores_functions opts"
  by (auto simp: functions_differ_def ignores_functions_def split: dd_options.splits option.splits)

lemma differ_flat:
  "\<not> same_shape a b \<Longrightarrow>
   differ l opts d a b \<longleftrightarrow> d = 0 \<or>
     (\<not> strict_eq a b \<and> \<not> (is_function a \<and> is_function b \<and> ignores_functions opts))"
  unfolding differ_def
  by (subst deepDiffer.simps) (auto simp: same_shape_def functions_differ_fst split: jsval.splits)

lemma differ_undefined:
  "d \<noteq> 0 \<Longrightarrow> differ l opts d v JUndefined \<longleftrightarrow> v \<noteq> JUndefined"
  "d \<noteq> 0 \<Longrightarrow> differ l opts d JUndefined v \<longleftrightarrow> v \<noteq> JUndefined"
  by (cases v; simp add: differ_flat same_shape_def)+

section \<open>Symmetry\<close>

text \<open>Objects with distinct keys, all the way down.\<close>

fun wf_value :: "jsval \<Rightarrow> bool" where
  "wf_value (JArray _ xs) = (\<forall>x\<in>set xs. wf_value x)"
| "wf_value (JObject _ _ kvs) = (distinct (map fst kvs) \<and> (\<forall>kv\<in>set kvs. wf_value (snd kv)))"
| "wf_value _ = True"

lemma get_prop_mem: "distinct (map fst kvs) \<Longrightarrow> kv \<in> set kvs \<Longrightarrow> get_prop (fst kv) kvs = snd kv"
  by (induction kvs) (force simp: image_iff)+

lemma get_prop_notin: "k \<notin> fst ` set kvs \<Longrightarrow> get_prop k kvs = JUndefined"
  by (induction kvs) auto

text \<open>The two loops over the keys, as one statement over all keys.\<close>

lemma differ_object_keys:
  assumes "d < 0" and "distinct (map fst kvs)" and "distinct (map fst kvs')"
  shows "differ l opts d (JObject a c kvs) (JObject b c' kvs') \<longleftrightarrow>
     a \<noteq> b \<and> (c \<noteq> c' \<or> (\<exists>k. differ l opts (d - 1) (get_prop k kvs) (get_prop k kvs')))"
proof -
  have d: "d \<noteq> 0" "d - 1 \<noteq> 0" using assms(1) by auto
  let ?D = "\<lambda>k. differ l opts (d - 1) (get_prop k kvs) (get_prop k kvs')"
  have 1: "(\<exists>kv\<in>set kvs. differ l opts (d - 1) (snd kv) (get_prop (fst kv) kvs')) \<longleftrightarrow> (\<exists>k\<in>fst ` set kvs. ?D k)"
    by (simp add: get_prop_mem [OF assms(2)] cong: bex_cong_simp)
  have 2: "(\<exists>kv\<in>set kvs'. get_prop (fst kv) kvs = JUndefined \<and> snd kv \<noteq> JUndefined) \<longleftrightarrow>
      (\<exists>k\<in>fst ` set kvs'. get_prop k kvs = JUndefined \<and> get_prop k kvs' \<noteq> JUndefined)"
    by (simp add: get_prop_mem [OF assms(3)] cong: bex_cong_simp)
  have u: "get_prop k kvs = JUndefined \<Longrightarrow> ?D k \<longleftrightarrow> get_prop k kvs' \<noteq> JUndefined" for k
    using d(2) by (simp add: differ_undefined)
  have "(\<exists>k. ?D k) \<longleftrightarrow> (\<exists>k\<in>fst ` set kvs. ?D k) \<or>
      (\<exists>k\<in>fst ` set kvs'. get_prop k kvs = JUndefined \<and> get_prop k kvs' \<noteq> JUndefined)"
    using u get_prop_notin by metis
  with 1 2 d(1) show ?thesis by (simp add: differ_object)
qed

lemma wf_get_prop: "(\<forall>kv\<in>set kvs. wf_value (snd kv)) \<Longrightarrow> wf_value (get_prop k kvs)"
  by (induction kvs) auto

lemma size_get_prop: "size (get_prop k kvs) < size (JObject a c kvs)"
  by (induction kvs) auto

lemma differ_sym:
  assumes "d < 0" and "wf_value x" and "wf_value y"
  shows "differ l opts d x y = differ l opts d y x"
  using assms
proof (induction "size x" arbitrary: x y d rule: less_induct)
  case less
  show ?case
  proof (cases x y rule: shape_cases)
    case (arr a xs b ys)
    have "differ l opts (d - 1) (xs ! i) (ys ! i) = differ l opts (d - 1) (ys ! i) (xs ! i)"
      if "i < length xs" "length xs = length ys" for i
    proof (rule less.hyps)
      show "size (xs ! i) < size x" using size_element [OF that(1)] arr(1) by simp
    qed (use that arr less.prems in auto)
    then have "(\<exists>i<length xs. differ l opts (d - 1) (xs ! i) (ys ! i)) = (\<exists>i<length ys. differ l opts (d - 1) (ys ! i) (xs ! i))"
      if "length xs = length ys" using that by metis
    then show ?thesis unfolding arr differ_array by metis
  next
    case (obj a c kvs b c' kvs')
    have "differ l opts (d - 1) (get_prop k kvs) (get_prop k kvs') = differ l opts (d - 1) (get_prop k kvs') (get_prop k kvs)" for k
      by (rule less.hyps) (use obj less.prems size_get_prop [of k kvs a c] wf_get_prop in auto)
    then show ?thesis using obj less.prems by (auto simp: differ_object_keys)
  next
    case flat
    then have "\<not> same_shape y x" by (auto simp: same_shape_def split: jsval.splits)
    with flat show ?thesis using strict_eq_sym [of x y] by (auto simp: differ_flat)
  qed
qed

text \<open>
  Without a depth limit \<open>deepDiffer\<close> is symmetric, although it enumerates the keys of its
  first argument and only tests the second for additional ones.
\<close>

theorem deepDiffer_symmetric:
  assumes "wf_value x" and "wf_value y"
  shows "fst (deepDiffer listening opts (-1) x y) = fst (deepDiffer listening opts (-1) y x)"
  using differ_sym [of "-1" x y listening opts] assms by (simp add: differ_def)

section \<open>The depth limit\<close>

lemma differ_depth:
  "d < 0 \<Longrightarrow> differ l opts d x y \<Longrightarrow> differ l opts e x y"
proof (induction "size x" arbitrary: x y d e rule: less_induct)
  case less
  show ?case
  proof (cases x y rule: shape_cases)
    case (arr a xs b ys)
    have "differ l opts (e - 1) (xs ! i) (ys ! i)" if "i < length xs" "differ l opts (d - 1) (xs ! i) (ys ! i)" for i
    proof (rule less.hyps [OF _ _ that(2)])
      show "size (xs ! i) < size x" using size_element [OF that(1)] arr(1) by simp
    qed (use less.prems in simp)
    then show ?thesis using arr less.prems by (auto simp: differ_array)
  next
    case (obj a c kvs b c' kvs')
    have "differ l opts (e - 1) (snd kv) w" if "kv \<in> set kvs" "differ l opts (d - 1) (snd kv) w" for kv w
      by (rule less.hyps [OF _ _ that(2)]) (use obj that(1) less.prems in \<open>simp_all add: size_property'\<close>)
    then show ?thesis using obj less.prems by (auto simp: differ_object)
  next
    case flat
    with less.prems show ?thesis by (auto simp: differ_flat)
  qed
qed

text \<open>
  A depth limit is conservative: it may report a difference where there is none, but
  values that it reports as equal are equal without the limit.
\<close>

theorem deepDiffer_depth_conservative:
  assumes "\<not> fst (deepDiffer listening opts maxDepth x y)"
  shows "\<not> fst (deepDiffer listening opts (-1) x y)"
  using differ_depth [of "-1" listening opts x y maxDepth] assms by (auto simp: differ_def)

section \<open>Matrices\<close>

text \<open>The unrolled comparison looks at every entry once.\<close>

lemma matrix_order_all: "set matrix_order = {0..<16}"
  unfolding atLeastLessThan_upt by code_simp

lemma matricesDiffer_iff:
  assumes "length m = 16" and "length n = 16" and "NaN \<notin> set m" and "a \<noteq> b"
  shows "matricesDiffer (Some (a, m)) (Some (b, n)) \<longleftrightarrow> m \<noteq> n"
proof -
  have "matricesDiffer (Some (a, m)) (Some (b, n)) \<longleftrightarrow> (\<exists>i<16. num_neq (Some (m ! i)) (Some (n ! i)))"
    using assms(1,2,4) by (auto simp: matricesDiffer_def list_ex_iff matrix_order_all matrix_at_def array_get_def)
  also have "\<dots> \<longleftrightarrow> (\<exists>i<16. m ! i \<noteq> n ! i)"
    using assms(1,3) by (auto simp: num_neq_def in_set_conv_nth)
  also have "\<dots> \<longleftrightarrow> m \<noteq> n" using assms(1,2) by (auto simp: list_eq_iff_nth_eq)
  finally show ?thesis .
qed

section \<open>Examples\<close>

theorem deepDiffer_symmetric_witness:
  "fst (deepDiffer False NoOptions (-1) (JObject 1 ''Object'' [(''a'', JNumber (Finite 1))])
      (JObject 2 ''Object'' [(''a'', JNumber (Finite 1)), (''b'', JNull)])) =
   fst (deepDiffer False NoOptions (-1) (JObject 2 ''Object'' [(''a'', JNumber (Finite 1)), (''b'', JNull)])
      (JObject 1 ''Object'' [(''a'', JNumber (Finite 1))]))"
  by (rule deepDiffer_symmetric) simp_all

theorem deepDiffer_depth_conservative_witness:
  "\<not> fst (deepDiffer False NoOptions (-1) (JArray 1 [JNumber (Finite 1)]) (JArray 2 [JNumber (Finite 1)]))"
proof (rule deepDiffer_depth_conservative)
  have "\<not> differ False NoOptions 2 (JArray 1 [JNumber (Finite 1)]) (JArray 2 [JNumber (Finite 1)])"
    by (simp add: differ_array differ_flat same_shape_def)
  then show "\<not> fst (deepDiffer False NoOptions 2 (JArray 1 [JNumber (Finite 1)]) (JArray 2 [JNumber (Finite 1)]))"
    by (simp add: differ_def)
qed

end
