(* ===== verification/WebSocket.thy ===== *)
theory WebSocket
  imports JSValue
begin

text \<open>
  \<open>Libraries/WebSocket/WebSocket.js\<close>, a machine driven by its user and by native events.

  The calls of the native module and of the blob manager and the events dispatched to the
  user are logged.  \<open>_subscriptions\<close> is the list of native events the socket listens to; an
  event reaches the socket only while it is in the list.  The encoding of binary data
  (\<open>base64\<close>) is a parameter of the operations that use it.
\<close>

section \<open>Data\<close>

datatype ready_state = CONNECTING | OPEN | CLOSING | CLOSED

datatype binary_type = BlobType | ArrayBufferType

datatype ws_data = TextData string | BufferData "nat list" | BlobData nat | OtherData

datatype ws_native =
    WsConnect string "string list option" "(string \<times> string) list" nat
  | WsClose int string nat
  | WsSend string nat
  | WsSendBinary string nat
  | WsPing nat
  | BlobAddHandler nat
  | BlobRemoveHandler nat
  | BlobSend nat nat

datatype ws_event =
    MessageEvent ws_data
  | OpenEvent
  | CloseEvent "int option" "string option"
  | ErrorEvent string

record websocket =
  ws_socketId :: nat
  ws_subscriptions :: "string list"
  ws_binaryType :: "binary_type option"
  ws_protocol :: "string option"
  ws_readyState :: ready_state
  ws_native :: "ws_native list"
  ws_dispatched :: "ws_event list"

type_synonym ws_result = "(js_exn, websocket, unit) outcome"

definition WEBSOCKET_EVENTS :: "string list" where
  "WEBSOCKET_EVENTS = [''close'', ''error'', ''message'', ''open'']"

definition CLOSE_NORMAL :: int where "CLOSE_NORMAL = 1000"

section \<open>Construction\<close>

datatype protocols_arg = NoProtocols | OneProtocol string | Protocols "string list"

definition normalize_protocols :: "protocols_arg \<Rightarrow> string list option" where
  "normalize_protocols p = (case p of NoProtocols \<Rightarrow> None | OneProtocol s \<Rightarrow> Some [s] | Protocols ss \<Rightarrow> Some ss)"

text \<open>
  The options: the headers to send, the options left over, and whether the deprecated
  \<open>origin\<close> was used.
\<close>

definition ws_options ::
  "(string \<times> string) list option \<Rightarrow> (string \<times> jsval) list \<Rightarrow> (string \<times> string) list \<times> (string \<times> jsval) list \<times> bool" where
  "ws_options headers unrecognized =
     (let hs = (case headers of None \<Rightarrow> [] | Some h \<Rightarrow> h)
      in case map_of unrecognized ''origin'' of
           Some (JString origin) \<Rightarrow>
             (AList.update ''origin'' origin hs, filter (\<lambda>kv. fst kv \<noteq> ''origin'') unrecognized, True)
         | _ \<Rightarrow> (hs, unrecognized, False))"

definition ws_warnings :: "(string \<times> string) list option \<Rightarrow> (string \<times> jsval) list \<Rightarrow> string list" where
  "ws_warnings headers unrecognized =
     (case ws_options headers unrecognized of (_, rest, deprecated) \<Rightarrow>
        (if deprecated then [''Specifying `origin` as a WebSocket connection option is deprecated. Include it under `headers` instead.''] else []) @
        (if rest = [] then [] else [''Unrecognized WebSocket connection option(s)'']))"

definition registerEvents :: "websocket \<Rightarrow> websocket" where
  "registerEvents st =
     st\<lparr>ws_subscriptions := [''websocketMessage'', ''websocketOpen'', ''websocketClosed'', ''websocketFailed'']\<rparr>"

definition ws_call :: "ws_native \<Rightarrow> websocket \<Rightarrow> websocket" where
  "ws_call c st = st\<lparr>ws_native := ws_native st @ [c]\<rparr>"

text \<open>\<open>nextWebSocketId\<close> is the module's counter: the new value is returned.\<close>

definition new_WebSocket ::
  "string \<Rightarrow> protocols_arg \<Rightarrow> (string \<times> string) list option \<Rightarrow> (string \<times> jsval) list \<Rightarrow> nat \<Rightarrow> nat \<times> websocket" where
  "new_WebSocket url protocols headers unrecognized nextWebSocketId =
     (let st = registerEvents \<lparr>ws_socketId = nextWebSocketId, ws_subscriptions = [], ws_binaryType = None,
            ws_protocol = None, ws_readyState = CONNECTING, ws_native = [], ws_dispatched = []\<rparr>
      in (Suc nextWebSocketId,
          ws_call (WsConnect url (normalize_protocols protocols) (fst (ws_options headers unrecognized)) nextWebSocketId) st))"

section \<open>Operations of the user\<close>

definition set_binaryType :: "bool \<Rightarrow> binary_type \<Rightarrow> websocket \<Rightarrow> ws_result" where
  "set_binaryType blobAvailable ty st =
     (if ws_binaryType st = Some BlobType \<or> ty = BlobType
      then (if \<not> blobAvailable then Throw (InvariantViolation ''Native module BlobModule is required for blob support'') st
            else Ret () ((ws_call (if ty = BlobType then BlobAddHandler (ws_socketId st)
                     else BlobRemoveHandler (ws_socketId st)) st)\<lparr>ws_binaryType := Some ty\<rparr>))
      else Ret () (st\<lparr>ws_binaryType := Some ty\<rparr>))"

text \<open>\<open>_close\<close>\<close>

definition native_close :: "bool \<Rightarrow> int option \<Rightarrow> string option \<Rightarrow> websocket \<Rightarrow> websocket" where
  "native_close blobAvailable code reason st =
     (let st1 = ws_call (WsClose (case code of Some c \<Rightarrow> c | None \<Rightarrow> CLOSE_NORMAL)
            (case reason of Some r \<Rightarrow> r | None \<Rightarrow> []) (ws_socketId st)) st
      in if blobAvailable \<and> ws_binaryType st1 = Some BlobType then ws_call (BlobRemoveHandler (ws_socketId st1)) st1 else st1)"

definition ws_close :: "bool \<Rightarrow> int option \<Rightarrow> string option \<Rightarrow> websocket \<Rightarrow> websocket" where
  "ws_close blobAvailable code reason st =
     (if ws_readyState st = CLOSING \<or> ws_readyState st = CLOSED then st
      else native_close blobAvailable code reason (st\<lparr>ws_readyState := CLOSING\<rparr>))"

definition ws_send :: "bool \<Rightarrow> (nat list \<Rightarrow> string) \<Rightarrow> ws_data \<Rightarrow> websocket \<Rightarrow> ws_result" where
  "ws_send blobAvailable binaryToBase64 data st =
     (if ws_readyState st = CONNECTING then Throw (JsError ''INVALID_STATE_ERR'') st
      else case data of
             BlobData b \<Rightarrow>
               if blobAvailable then Ret () (ws_call (BlobSend b (ws_socketId st)) st)
               else Throw (InvariantViolation ''Native module BlobModule is required for blob support'') st
           | TextData s \<Rightarrow> Ret () (ws_call (WsSend s (ws_socketId st)) st)
           | BufferData bs \<Rightarrow> Ret () (ws_call (WsSendBinary (binaryToBase64 bs) (ws_socketId st)) st)
           | OtherData \<Rightarrow> Throw (JsError ''Unsupported data type'') st)"

definition ws_ping :: "websocket \<Rightarrow> ws_result" where
  "ws_ping st =
     (if ws_readyState st = CONNECTING then Throw (JsError ''INVALID_STATE_ERR'') st
      else Ret () (ws_call (WsPing (ws_socketId st)) st))"

section \<open>Native events\<close>

definition dispatchEvent :: "ws_event \<Rightarrow> websocket \<Rightarrow> websocket" where
  "dispatchEvent e st = st\<lparr>ws_dispatched := ws_dispatched st @ [e]\<rparr>"

definition unregisterEvents :: "websocket \<Rightarrow> websocket" where
  "unregisterEvents st = st\<lparr>ws_subscriptions := []\<rparr>"

definition on_message :: "nat \<Rightarrow> ws_data \<Rightarrow> websocket \<Rightarrow> websocket" where
  "on_message evId data st =
     (if evId \<noteq> ws_socketId st then st else dispatchEvent (MessageEvent data) st)"

definition on_open :: "nat \<Rightarrow> string \<Rightarrow> websocket \<Rightarrow> websocket" where
  "on_open evId prot st =
     (if evId \<noteq> ws_socketId st then st
      else dispatchEvent OpenEvent (st\<lparr>ws_readyState := OPEN, ws_protocol := Some prot\<rparr>))"

definition on_closed :: "bool \<Rightarrow> nat \<Rightarrow> int \<Rightarrow> string \<Rightarrow> websocket \<Rightarrow> websocket" where
  "on_closed blobAvailable evId code reason st =
     (if evId \<noteq> ws_socketId st then st
      else ws_close blobAvailable None None
             (unregisterEvents (dispatchEvent (CloseEvent (Some code) (Some reason)) (st\<lparr>ws_readyState := CLOSED\<rparr>))))"

definition on_failed :: "bool \<Rightarrow> nat \<Rightarrow> string \<Rightarrow> websocket \<Rightarrow> websocket" where
  "on_failed blobAvailable evId message st =
     (if evId \<noteq> ws_socketId st then st
      else ws_close blobAvailable None None
             (unregisterEvents (dispatchEvent (CloseEvent None None)
               (dispatchEvent (ErrorEvent message) (st\<lparr>ws_readyState := CLOSED\<rparr>)))))"

section \<open>The machine\<close>

datatype ws_input =
    UserClose "int option" "string option"
  | UserSend ws_data
  | UserPing
  | UserBinaryType binary_type
  | NativeMessage nat ws_data
  | NativeOpen nat string
  | NativeClosed nat int string
  | NativeFailed nat string

definition ws_step :: "bool \<Rightarrow> (nat list \<Rightarrow> string) \<Rightarrow> websocket \<Rightarrow> ws_input \<Rightarrow> websocket" where
  "ws_step blob b64 st i =
     (case i of
        UserClose c r \<Rightarrow> ws_close blob c r st
      | UserSend d \<Rightarrow> out_state (ws_send blob b64 d st)
      | UserPing \<Rightarrow> out_state (ws_ping st)
      | UserBinaryType t \<Rightarrow> out_state (set_binaryType blob t st)
      | NativeMessage n d \<Rightarrow> if ''websocketMessage'' \<in> set (ws_subscriptions st) then on_message n d st else st
      | NativeOpen n p \<Rightarrow> if ''websocketOpen'' \<in> set (ws_subscriptions st) then on_open n p st else st
      | NativeClosed n c r \<Rightarrow> if ''websocketClosed'' \<in> set (ws_subscriptions st) then on_closed blob n c r st else st
      | NativeFailed n m \<Rightarrow> if ''websocketFailed'' \<in> set (ws_subscriptions st) then on_failed blob n m st else st)"

fun is_close :: "ws_event \<Rightarrow> bool" where
  "is_close (CloseEvent _ _) = True"
| "is_close _ = False"

text \<open>The socket listens until it is closed, and has told its user of the closing exactly then, last of all.\<close>

definition ws_ok :: "websocket \<Rightarrow> bool" where
  "ws_ok st \<longleftrightarrow> (if ws_readyState st = CLOSED
     then ws_subscriptions st = [] \<and> (\<exists>es e. ws_dispatched st = es @ [e] \<and> is_close e \<and> (\<forall>x\<in>set es. \<not> is_close x))
     else \<forall>x\<in>set (ws_dispatched st). \<not> is_close x)"

lemma ws_call_frame [simp]:
  "ws_ok (ws_call c st) = ws_ok st" "ws_ok (st\<lparr>ws_binaryType := t\<rparr>) = ws_ok st"
  "ws_readyState (ws_call c st) = ws_readyState st" "ws_dispatched (ws_call c st) = ws_dispatched st"
  "ws_binaryType (ws_call c st) = ws_binaryType st" "ws_socketId (ws_call c st) = ws_socketId st"
  by (simp_all add: ws_ok_def ws_call_def)

lemma ws_close_ok: "ws_ok st \<Longrightarrow> ws_ok (ws_close b c r st)"
proof -
  assume ok: "ws_ok st"
  show ?thesis
  proof (cases "ws_readyState st = CLOSING \<or> ws_readyState st = CLOSED")
    case False
    with ok have "ws_ok (st\<lparr>ws_readyState := CLOSING\<rparr>)" by (simp add: ws_ok_def)
    with False show ?thesis by (simp add: ws_close_def native_close_def Let_def)
  qed (use ok in \<open>auto simp: ws_close_def\<close>)
qed

text \<open>After the closing events \<open>close\<close> does nothing: the state is already \<open>CLOSED\<close>.\<close>

lemma ws_close_closed: "ws_readyState st = CLOSED \<Longrightarrow> ws_close b c r st = st"
  by (simp add: ws_close_def)

lemma closing_events [simp]:
  "ws_close b c r (unregisterEvents (dispatchEvent e (st\<lparr>ws_readyState := CLOSED\<rparr>))) =
     unregisterEvents (dispatchEvent e (st\<lparr>ws_readyState := CLOSED\<rparr>))"
  "ws_close b c r (unregisterEvents (dispatchEvent e (dispatchEvent e' (st\<lparr>ws_readyState := CLOSED\<rparr>)))) =
     unregisterEvents (dispatchEvent e (dispatchEvent e' (st\<lparr>ws_readyState := CLOSED\<rparr>)))"
  by (simp_all add: ws_close_closed unregisterEvents_def dispatchEvent_def)

lemma ws_step_ok:
  assumes "ws_ok st"
  shows "ws_ok (ws_step blob b64 st i)"
proof (cases i)
  case (NativeMessage n d)
  with assms show ?thesis by (auto simp: ws_step_def on_message_def dispatchEvent_def ws_ok_def)
next
  case (NativeOpen n p)
  with assms show ?thesis by (auto simp: ws_step_def on_open_def dispatchEvent_def ws_ok_def split: if_splits)
next
  case (NativeClosed n c r)
  with assms show ?thesis
    by (auto simp: ws_step_def on_closed_def dispatchEvent_def unregisterEvents_def ws_ok_def ws_close_def split: if_splits)
next
  case (NativeFailed n m)
  with assms show ?thesis
    by (auto simp: ws_step_def on_failed_def dispatchEvent_def unregisterEvents_def ws_ok_def ws_close_def split: if_splits)
qed (use assms in \<open>auto simp: ws_step_def ws_close_ok ws_send_def ws_ping_def set_binaryType_def split: ws_data.splits\<close>)

interpretation wsm: event_machine "ws_step blob b64" ws_ok
  by unfold_locales (rule ws_step_ok)

lemma new_WebSocket_ok: "ws_ok (snd (new_WebSocket url p h u n))"
  by (simp add: new_WebSocket_def Let_def) (simp add: ws_ok_def registerEvents_def)

text \<open>
  C38: through every interleaving of user calls and native events, at most one close event is
  dispatched, it is the last event the user ever gets, and a socket that is closed stays
  closed and listens to nothing.
\<close>

theorem websocket_closes_once:
  assumes "st = foldl (ws_step blob b64) (snd (new_WebSocket url p h u n)) es" and "ws_readyState st = CLOSED"
  shows "length (filter is_close (ws_dispatched st)) = 1 \<and> is_close (last (ws_dispatched st)) \<and>
         ws_dispatched (foldl (ws_step blob b64) st es') = ws_dispatched st \<and>
         ws_readyState (foldl (ws_step blob b64) st es') = CLOSED"
proof -
  have ok: "ws_ok st" unfolding assms(1) by (rule wsm.inv_run [OF new_WebSocket_ok])
  let ?P = "\<lambda>s. ws_readyState s = CLOSED \<and> ws_subscriptions s = [] \<and> ws_dispatched s = ws_dispatched st"
  have step: "?P (ws_step blob b64 s i)" if "?P s" for s i
    using that
    by (cases i) (auto simp: ws_step_def ws_close_def ws_send_def ws_ping_def set_binaryType_def ws_call_def split: ws_data.splits)
  have "?P (foldl (ws_step blob b64) st es')"
    by (rule wsm.run_stable [where E = UNIV and P = ?P]) (use step ok assms(2) in \<open>auto simp: ws_ok_def\<close>)
  moreover obtain xs e where d: "ws_dispatched st = xs @ [e]" "is_close e" "\<forall>x\<in>set xs. \<not> is_close x"
    using ok assms(2) by (auto simp: ws_ok_def)
  ultimately show ?thesis by (auto simp: filter_empty_conv)
qed

text \<open>
  \<open>websocketOpen\<close> sets \<open>readyState\<close> unconditionally.  A socket that is closed
  while it connects goes back from \<open>CLOSING\<close> to \<open>OPEN\<close> when the open event arrives,
  and its user can send again.
\<close>

theorem open_after_close_reopens:
  assumes "ws_readyState st = CONNECTING" and "''websocketOpen'' \<in> set (ws_subscriptions st)"
  shows "ws_readyState (ws_step blob b64 st (UserClose c r)) = CLOSING \<and>
         ws_readyState (foldl (ws_step blob b64) st [UserClose c r, NativeOpen (ws_socketId st) prot]) = OPEN"
  using assms
  by (simp add: ws_step_def ws_close_def native_close_def ws_call_def on_open_def dispatchEvent_def Let_def)

text \<open>
  When the connection is closed or fails by itself, the final \<open>this.close()\<close> has no
  effect, because \<open>readyState\<close> is already \<open>CLOSED\<close>: the handler that a socket with
  binary type \<open>blob\<close> registered with the blob manager is never removed.
\<close>

theorem remote_close_leaks_blob_handler:
  assumes "ws_readyState st = OPEN" and "''websocketClosed'' \<in> set (ws_subscriptions st)"
  shows "let st1 = ws_step True b64 st (UserBinaryType BlobType);
             st2 = ws_step True b64 st1 (NativeClosed (ws_socketId st) code reason)
         in ws_native st2 = ws_native st @ [BlobAddHandler (ws_socketId st)] \<and>
            ws_native (foldl (ws_step True b64) st2 [UserClose c r]) = ws_native st2"
  using assms
  by (simp add: ws_step_def set_binaryType_def on_closed_def Let_def)
    (simp add: ws_call_def dispatchEvent_def unregisterEvents_def ws_close_def)

section \<open>Examples\<close>

definition ex_ws :: websocket where
  "ex_ws = snd (new_WebSocket ''wss://host'' NoProtocols None [] 0)"

theorem websocket_closes_once_witness:
  "ws_readyState (foldl (ws_step False (\<lambda>_. [])) (foldl (ws_step False (\<lambda>_. [])) ex_ws [NativeFailed 0 ''refused'']) [UserClose None None]) = CLOSED"
proof -
  have c: "ws_readyState (foldl (ws_step False (\<lambda>_. [])) (snd (new_WebSocket ''wss://host'' NoProtocols None [] 0))
      [NativeFailed 0 ''refused'']) = CLOSED"
    by (simp add: new_WebSocket_def ws_step_def on_failed_def registerEvents_def ws_call_def
        unregisterEvents_def dispatchEvent_def ws_close_def Let_def)
  show ?thesis
    unfolding ex_ws_def using websocket_closes_once [OF refl c, of "[UserClose None None]"] by blast
qed

theorem open_after_close_reopens_witness:
  "ws_readyState (foldl (ws_step False (\<lambda>_. [])) ex_ws [UserClose None None, NativeOpen 0 []]) = OPEN"
  using open_after_close_reopens [of ex_ws False "\<lambda>_. []" None None "[]"]
  by (simp add: ex_ws_def new_WebSocket_def registerEvents_def ws_call_def Let_def)

theorem remote_close_leaks_blob_handler_witness:
  "ws_native (foldl (ws_step True (\<lambda>_. [])) (ex_ws\<lparr>ws_readyState := OPEN\<rparr>) [UserBinaryType BlobType, NativeClosed 0 1000 ''bye'']) =
   ws_native ex_ws @ [BlobAddHandler 0]"
  using remote_close_leaks_blob_handler [of "ex_ws\<lparr>ws_readyState := OPEN\<rparr>" "\<lambda>_. []" 1000 "''bye''" None None]
  by (simp add: ex_ws_def new_WebSocket_def registerEvents_def ws_call_def Let_def)

end
