(* ===== verification/XMLHttpRequest.thy ===== *)
theory XMLHttpRequest
  imports JSValue
begin

text \<open>
  \<open>Libraries/Network/XMLHttpRequest.js\<close>, a machine driven by its user and by the native
  networking module.

  Dispatched events and calls of other modules (\<open>RCTNetworking\<close>, the interceptor, the
  performance logger) are logged; a handler that calls back into the object is not modelled,
  but the user's next call may come at any moment between native events.  \<open>JSON.parse\<close>,
  the base64 decoder and the blob manager are parameters of the getter that uses them.
\<close>

section \<open>Strings\<close>

text \<open>\<open>toLowerCase\<close> and \<open>toUpperCase\<close> of the ASCII letters.\<close>

definition lower_char :: "char \<Rightarrow> char" where
  "lower_char c = (if 65 \<le> (of_char c :: nat) \<and> (of_char c :: nat) \<le> 90 then char_of ((of_char c :: nat) + 32) else c)"

definition upper_char :: "char \<Rightarrow> char" where
  "upper_char c = (if 97 \<le> (of_char c :: nat) \<and> (of_char c :: nat) \<le> 122 then char_of ((of_char c :: nat) - 32) else c)"

abbreviation toLowerCase :: "string \<Rightarrow> string" where "toLowerCase \<equiv> map lower_char"
abbreviation toUpperCase :: "string \<Rightarrow> string" where "toUpperCase \<equiv> map upper_char"

section \<open>Data\<close>

datatype xhr_state = UNSENT | OPENED | HEADERS_RECEIVED | LOADING | DONE

datatype body = TextBody string | ObjectBody nat

datatype xhr_response = RText body | RNull | RBuffer "nat list" | RBlob nat | RJson jsval

datatype xhr_event =
    ReadyStateChange | AbortEvent | TimeoutEvent | ErrorEvent | LoadEvent | LoadEnd
  | ProgressEvent bool int int | UploadProgress int int

type_synonym headers = "(string \<times> string) list"

datatype xhr_effect =
    SendRequest string string string headers string bool real bool
  | AbortRequest nat
  | RequestSent nat string string headers
  | ResponseReceived nat string int headers
  | DataReceived nat body
  | LoadingFailed nat string
  | LoadingFinished nat "nat option"
  | StartTimespan string
  | StopTimespan string

record xhr =
  readyState :: xhr_state
  responseHeaders :: "headers option"
  status :: int
  timeout :: real
  responseURL :: "string option"
  withCredentials :: bool
  requestId :: "nat option"
  subscriptions :: "string list"
  aborted :: bool
  cachedResponse :: "xhr_response option"
  hasError :: bool
  reqHeaders :: headers
  lowerCaseResponseHeaders :: headers
  meth :: "string option"
  perfKey :: "string option"
  responseType :: string
  resp :: body
  sent :: bool
  reqUrl :: "string option"
  timedOut :: bool
  trackingName :: string
  incrementalEvents :: bool
  events :: "xhr_event list"
  effects :: "xhr_effect list"

record xhr_env =
  hasInterceptor :: bool
  hasArrayBuffer :: bool
  hasBlob :: bool
  blobManagerAvailable :: bool

type_synonym xhr_result = "(js_exn, xhr, unit) outcome"

definition SUPPORTED_RESPONSE_TYPES :: "xhr_env \<Rightarrow> string \<Rightarrow> bool option" where
  "SUPPORTED_RESPONSE_TYPES env ty =
     (if ty = ''arraybuffer'' then Some (hasArrayBuffer env)
      else if ty = ''blob'' then Some (hasBlob env)
      else if ty = ''document'' then Some False
      else if ty = ''json'' \<or> ty = ''text'' \<or> ty = [] then Some True
      else None)"

section \<open>State and events\<close>

definition xhr_do :: "xhr_effect \<Rightarrow> xhr \<Rightarrow> xhr" where
  "xhr_do e st = st\<lparr>effects := effects st @ [e]\<rparr>"

definition xhr_dispatch :: "xhr_event \<Rightarrow> xhr \<Rightarrow> xhr" where
  "xhr_dispatch e st = st\<lparr>events := events st @ [e]\<rparr>"

definition clearSubscriptions :: "xhr \<Rightarrow> xhr" where
  "clearSubscriptions st = st\<lparr>subscriptions := []\<rparr>"

definition xhr_reset :: "xhr \<Rightarrow> xhr" where
  "xhr_reset st =
     (clearSubscriptions (st\<lparr>readyState := UNSENT, responseHeaders := None, status := 0, responseURL := None,
        requestId := None, cachedResponse := None, hasError := False, reqHeaders := [], resp := TextBody [],
        responseType := [], sent := False, lowerCaseResponseHeaders := []\<rparr>))\<lparr>timedOut := False\<rparr>"

definition new_XMLHttpRequest :: xhr where
  "new_XMLHttpRequest = xhr_reset \<lparr>readyState = UNSENT, responseHeaders = None, status = 0, timeout = 0,
     responseURL = None, withCredentials = True, requestId = None, subscriptions = [], aborted = False,
     cachedResponse = None, hasError = False, reqHeaders = [], lowerCaseResponseHeaders = [], meth = None,
     perfKey = None, responseType = [], resp = TextBody [], sent = False, reqUrl = None, timedOut = False,
     trackingName = ''unknown'', incrementalEvents = False, events = [], effects = []\<rparr>"

definition done_event :: "xhr \<Rightarrow> xhr_event" where
  "done_event st =
     (if aborted st then AbortEvent else if hasError st then (if timedOut st then TimeoutEvent else ErrorEvent) else LoadEvent)"

definition setReadyState :: "xhr_state \<Rightarrow> xhr \<Rightarrow> xhr" where
  "setReadyState newState st =
     (let st1 = xhr_dispatch ReadyStateChange (st\<lparr>readyState := newState\<rparr>)
      in if newState = DONE then xhr_dispatch LoadEnd (xhr_dispatch (done_event st1) st1) else st1)"

definition xhr_addEventListener :: "string \<Rightarrow> xhr \<Rightarrow> xhr" where
  "xhr_addEventListener ty st =
     (if ty = ''readystatechange'' \<or> ty = ''progress'' then st\<lparr>incrementalEvents := True\<rparr> else st)"

section \<open>Properties of the response\<close>

definition set_responseType :: "xhr_env \<Rightarrow> string \<Rightarrow> xhr \<Rightarrow> xhr_result" where
  "set_responseType env ty st =
     (if sent st then Throw (JsError ''The response type cannot be set after the request has been sent.'') st
      else case SUPPORTED_RESPONSE_TYPES env ty of
             None \<Rightarrow> Ret () st
           | Some supported \<Rightarrow>
               if \<not> (supported \<or> ty = ''document'')
               then Throw (InvariantViolation ''The provided value is unsupported in this environment.'') st
               else if ty = ''blob'' \<and> \<not> blobManagerAvailable env
               then Throw (InvariantViolation ''Native module BlobModule is required for blob support'') st
               else Ret () (st\<lparr>responseType := ty\<rparr>))"

definition state_num :: "xhr_state \<Rightarrow> nat" where
  "state_num s = (case s of UNSENT \<Rightarrow> 0 | OPENED \<Rightarrow> 1 | HEADERS_RECEIVED \<Rightarrow> 2 | LOADING \<Rightarrow> 3 | DONE \<Rightarrow> 4)"

definition get_responseText :: "xhr \<Rightarrow> js_exn + body" where
  "get_responseText st =
     (if responseType st \<noteq> [] \<and> responseType st \<noteq> ''text''
      then Inl (JsError ''The responseText property is only available if responseType is empty or text'')
      else if state_num (readyState st) < state_num LOADING then Inr (TextBody [])
      else Inr (resp st))"

text \<open>The parameters: the base64 decoder, \<open>JSON.parse\<close> and the two constructors of blobs.\<close>

record xhr_decoders =
  toByteArray :: "body \<Rightarrow> nat list"
  json_parse :: "body \<Rightarrow> jsval option"
  createFromOptions :: "nat \<Rightarrow> nat"
  createFromParts :: nat

definition compute_response :: "xhr_decoders \<Rightarrow> xhr \<Rightarrow> js_exn + xhr_response" where
  "compute_response dec st =
     (if responseType st = ''document'' then Inr RNull
      else if responseType st = ''arraybuffer'' then Inr (RBuffer (toByteArray dec (resp st)))
      else if responseType st = ''blob''
      then (case resp st of
              ObjectBody b \<Rightarrow> Inr (RBlob (createFromOptions dec b))
            | TextBody s \<Rightarrow> if s = [] then Inr (RBlob (createFromParts dec)) else Inl (JsError ''Invalid response for blob''))
      else if responseType st = ''json''
      then Inr (case json_parse dec (resp st) of Some v \<Rightarrow> RJson v | None \<Rightarrow> RNull)
      else Inr RNull)"

definition get_response :: "xhr_decoders \<Rightarrow> xhr \<Rightarrow> (js_exn, xhr, xhr_response) outcome" where
  "get_response dec st =
     (if responseType st = [] \<or> responseType st = ''text''
      then Ret (if state_num (readyState st) < state_num LOADING \<or> hasError st then RText (TextBody []) else RText (resp st)) st
      else if readyState st \<noteq> DONE then Ret RNull st
      else case cachedResponse st of
             Some r \<Rightarrow> Ret r st
           | None \<Rightarrow>
               (case compute_response dec st of
                  Inl e \<Rightarrow> Throw e st
                | Inr r \<Rightarrow> Ret r (st\<lparr>cachedResponse := Some r\<rparr>)))"

definition getAllResponseHeaders :: "xhr \<Rightarrow> string option" where
  "getAllResponseHeaders st =
     (case responseHeaders st of
        None \<Rightarrow> None
      | Some hs \<Rightarrow> Some (concat (case map (\<lambda>(n, v). n @ '': '' @ v) hs of
           [] \<Rightarrow> [] | l # ls \<Rightarrow> l # map (\<lambda>x. [char_of (13 :: nat), char_of (10 :: nat)] @ x) ls)))"

definition getResponseHeader :: "string \<Rightarrow> xhr \<Rightarrow> string option" where
  "getResponseHeader header st = map_of (lowerCaseResponseHeaders st) (toLowerCase header)"

definition setResponseHeaders :: "headers option \<Rightarrow> xhr \<Rightarrow> xhr" where
  "setResponseHeaders hs st =
     st\<lparr>responseHeaders := hs,
        lowerCaseResponseHeaders :=
          fold (\<lambda>(n, v). AList.update (toLowerCase n) v) (case hs of None \<Rightarrow> [] | Some h \<Rightarrow> h) []\<rparr>"

section \<open>Operations of the user\<close>

definition setRequestHeader :: "string \<Rightarrow> string \<Rightarrow> xhr \<Rightarrow> xhr_result" where
  "setRequestHeader header val st =
     (if readyState st \<noteq> OPENED then Throw (JsError ''Request has not been opened'') st
      else Ret () (st\<lparr>reqHeaders := AList.update (toLowerCase header) val (reqHeaders st)\<rparr>))"

definition setTrackingName :: "string \<Rightarrow> xhr \<Rightarrow> xhr" where
  "setTrackingName n st = st\<lparr>trackingName := n\<rparr>"

text \<open>\<open>Some False\<close> is an \<open>async\<close> that is \<open>false\<close> or \<open>null\<close>.\<close>

definition xhr_open :: "string \<Rightarrow> string \<Rightarrow> bool option \<Rightarrow> xhr \<Rightarrow> xhr_result" where
  "xhr_open method url async st =
     (if readyState st \<noteq> UNSENT then Throw (JsError ''Cannot open, already sending'') st
      else if async = Some False then Throw (JsError ''Synchronous http requests are not supported'') st
      else if url = [] then Throw (JsError ''Cannot load an empty url'') st
      else Ret () (setReadyState OPENED (st\<lparr>meth := Some (toUpperCase method), reqUrl := Some url, aborted := False\<rparr>)))"

definition NETWORK_EVENTS :: "string list" where
  "NETWORK_EVENTS = [''didSendNetworkData'', ''didReceiveNetworkResponse'', ''didReceiveNetworkData'',
     ''didReceiveNetworkIncrementalData'', ''didReceiveNetworkDataProgress'', ''didCompleteNetworkResponse'']"

definition nativeResponseType :: "string \<Rightarrow> string" where
  "nativeResponseType ty = (if ty = ''arraybuffer'' then ''base64'' else if ty = ''blob'' then ''blob'' else ''text'')"

definition doSend :: "bool \<Rightarrow> xhr \<Rightarrow> xhr_result" where
  "doSend incremental st =
     (let friendlyName = (if trackingName st \<noteq> ''unknown'' then trackingName st
            else (case reqUrl st of Some u \<Rightarrow> u | None \<Rightarrow> ''null''));
          key = ''network_XMLHttpRequest_'' @ friendlyName;
          st1 = xhr_do (StartTimespan key) (st\<lparr>perfKey := Some key\<rparr>)
      in case (meth st1, reqUrl st1) of
           (Some m, Some u) \<Rightarrow>
             if m = [] then Throw (InvariantViolation ''XMLHttpRequest method needs to be defined'') st1
             else if u = [] then Throw (InvariantViolation ''XMLHttpRequest URL needs to be defined'') st1
             else Ret () (xhr_do (SendRequest m (trackingName st1) u (reqHeaders st1)
                    (nativeResponseType (responseType st1)) incremental (timeout st1) (withCredentials st1)) st1)
         | (None, _) \<Rightarrow> Throw (InvariantViolation ''XMLHttpRequest method needs to be defined'') st1
         | (_, None) \<Rightarrow> Throw (InvariantViolation ''XMLHttpRequest URL needs to be defined'') st1)"

text \<open>\<open>hasHandler\<close>: \<open>onreadystatechange\<close> or \<open>onprogress\<close> is set.\<close>

definition xhr_send :: "bool \<Rightarrow> xhr \<Rightarrow> xhr_result" where
  "xhr_send hasHandler st =
     (if readyState st \<noteq> OPENED then Throw (JsError ''Request has not been opened'') st
      else if sent st then Throw (JsError ''Request has already been sent'') st
      else doSend (incrementalEvents st \<or> hasHandler)
             (st\<lparr>sent := True, subscriptions := subscriptions st @ NETWORK_EVENTS\<rparr>))"

definition abort :: "xhr \<Rightarrow> xhr" where
  "abort st =
     (let st1 = st\<lparr>aborted := True\<rparr>;
          st2 = (case requestId st1 of Some i \<Rightarrow> if i = 0 then st1 else xhr_do (AbortRequest i) st1 | None \<Rightarrow> st1);
          st3 = (if \<not> (readyState st2 = UNSENT \<or> (readyState st2 = OPENED \<and> \<not> sent st2) \<or> readyState st2 = DONE)
                 then setReadyState DONE (xhr_reset st2) else st2)
      in xhr_reset st3)"

section \<open>Native events\<close>

definition intercept :: "xhr_env \<Rightarrow> xhr_effect \<Rightarrow> xhr \<Rightarrow> xhr" where
  "intercept env e st = (if hasInterceptor env then xhr_do e st else st)"

definition or_empty :: "string option \<Rightarrow> string" where
  "or_empty s = (case s of None \<Rightarrow> [] | Some x \<Rightarrow> x)"

definition didCreateRequest :: "xhr_env \<Rightarrow> nat \<Rightarrow> xhr \<Rightarrow> xhr" where
  "didCreateRequest env i st =
     (let st1 = st\<lparr>requestId := Some i\<rparr>
      in intercept env (RequestSent i (or_empty (reqUrl st1))
           (if or_empty (meth st1) = [] then ''GET'' else or_empty (meth st1)) (reqHeaders st1)) st1)"

definition didUploadProgress :: "nat \<Rightarrow> int \<Rightarrow> int \<Rightarrow> xhr \<Rightarrow> xhr" where
  "didUploadProgress i progress totalBytes st =
     (if Some i = requestId st then xhr_dispatch (UploadProgress progress totalBytes) st else st)"

definition didReceiveResponse :: "xhr_env \<Rightarrow> nat \<Rightarrow> int \<Rightarrow> headers option \<Rightarrow> string option \<Rightarrow> xhr \<Rightarrow> xhr" where
  "didReceiveResponse env i stat hs url st =
     (if Some i = requestId st
      then (let st1 = (case perfKey st of Some k \<Rightarrow> xhr_do (StopTimespan k) st | None \<Rightarrow> st);
                st2 = (setReadyState HEADERS_RECEIVED (setResponseHeaders hs (st1\<lparr>status := stat\<rparr>)))\<lparr>responseURL := url\<rparr>
            in intercept env (ResponseReceived i (if or_empty url = [] then or_empty (reqUrl st2) else or_empty url) stat
                 (case hs of None \<Rightarrow> [] | Some h \<Rightarrow> h)) st2)
      else st)"

definition didReceiveData :: "xhr_env \<Rightarrow> nat \<Rightarrow> body \<Rightarrow> xhr \<Rightarrow> xhr" where
  "didReceiveData env i response st =
     (if Some i \<noteq> requestId st then st
      else intercept env (DataReceived i response) (setReadyState LOADING (st\<lparr>resp := response, cachedResponse := None\<rparr>)))"

definition didReceiveDataProgress :: "nat \<Rightarrow> int \<Rightarrow> int \<Rightarrow> xhr \<Rightarrow> xhr" where
  "didReceiveDataProgress i loaded totalBytes st =
     (if Some i \<noteq> requestId st then st else xhr_dispatch (ProgressEvent (totalBytes \<ge> 0) loaded totalBytes) st)"

definition append_text :: "body \<Rightarrow> string \<Rightarrow> body" where
  "append_text b t = (case b of TextBody s \<Rightarrow> TextBody (s @ t) | ObjectBody _ \<Rightarrow> TextBody (''[object Object]'' @ t))"

definition didReceiveIncrementalData :: "xhr_env \<Rightarrow> nat \<Rightarrow> string \<Rightarrow> int \<Rightarrow> int \<Rightarrow> xhr \<Rightarrow> xhr" where
  "didReceiveIncrementalData env i text progress totalBytes st =
     (if Some i \<noteq> requestId st then st
      else didReceiveDataProgress i progress totalBytes
             (setReadyState LOADING
               (intercept env (DataReceived i (TextBody text))
                 (st\<lparr>resp := (if resp st = TextBody [] then TextBody text else append_text (resp st) text)\<rparr>))))"

definition didCompleteResponse :: "xhr_env \<Rightarrow> nat \<Rightarrow> string \<Rightarrow> bool \<Rightarrow> xhr \<Rightarrow> xhr" where
  "didCompleteResponse env i err timeOutError st =
     (if Some i = requestId st
      then (let st1 = (if err = [] then st
                  else st\<lparr>resp := (if responseType st = [] \<or> responseType st = ''text'' then TextBody err else resp st),
                          hasError := True, timedOut := (timedOut st \<or> timeOutError)\<rparr>);
                st2 = setReadyState DONE ((clearSubscriptions st1)\<lparr>requestId := None\<rparr>)
            in intercept env (if err \<noteq> [] then LoadingFailed i err
                 else LoadingFinished i (case resp st2 of TextBody s \<Rightarrow> Some (length s) | ObjectBody _ \<Rightarrow> None)) st2)
      else st)"

section \<open>The machine\<close>

datatype xhr_input =
    Open string string "bool option"
  | Send bool
  | Abort
  | SetHeader string string
  | SetType string
  | Listen string
  | Track string
  | Created nat
  | UploadProgressed nat int int
  | Response nat int "headers option" "string option"
  | Data nat body
  | IncrementalData nat string int int
  | DataProgress nat int int
  | Complete nat string bool

text \<open>The callback of \<open>sendRequest\<close> always arrives; the other native events only while the object is subscribed.\<close>

definition xhr_step :: "xhr_env \<Rightarrow> xhr \<Rightarrow> xhr_input \<Rightarrow> xhr" where
  "xhr_step env st i =
     (case i of
        Open m u a \<Rightarrow> out_state (xhr_open m u a st)
      | Send h \<Rightarrow> out_state (xhr_send h st)
      | Abort \<Rightarrow> abort st
      | SetHeader h v \<Rightarrow> out_state (setRequestHeader h v st)
      | SetType t \<Rightarrow> out_state (set_responseType env t st)
      | Listen t \<Rightarrow> xhr_addEventListener t st
      | Track t \<Rightarrow> setTrackingName t st
      | Created n \<Rightarrow> didCreateRequest env n st
      | UploadProgressed n p t \<Rightarrow> if ''didSendNetworkData'' \<in> set (subscriptions st) then didUploadProgress n p t st else st
      | Response n s hs u \<Rightarrow> if ''didReceiveNetworkResponse'' \<in> set (subscriptions st) then didReceiveResponse env n s hs u st else st
      | Data n d \<Rightarrow> if ''didReceiveNetworkData'' \<in> set (subscriptions st) then didReceiveData env n d st else st
      | IncrementalData n d p t \<Rightarrow>
          if ''didReceiveNetworkIncrementalData'' \<in> set (subscriptions st) then didReceiveIncrementalData env n d p t st else st
      | DataProgress n p t \<Rightarrow> if ''didReceiveNetworkDataProgress'' \<in> set (subscriptions st) then didReceiveDataProgress n p t st else st
      | Complete n e t \<Rightarrow> if ''didCompleteNetworkResponse'' \<in> set (subscriptions st) then didCompleteResponse env n e t st else st)"

section \<open>Every request ends once\<close>

fun is_start :: "xhr_effect \<Rightarrow> bool" where
  "is_start (StartTimespan _) = True"
| "is_start _ = False"

definition starts :: "xhr \<Rightarrow> nat" where
  "starts st = length (filter is_start (effects st))"

definition ends :: "xhr \<Rightarrow> nat" where
  "ends st = count_list (events st) LoadEnd"

definition in_flight :: "xhr \<Rightarrow> bool" where
  "in_flight st \<longleftrightarrow> sent st \<and> readyState st \<noteq> UNSENT \<and> readyState st \<noteq> DONE"

definition xhr_ok :: "xhr \<Rightarrow> bool" where
  "xhr_ok st \<longleftrightarrow> ends st + (if in_flight st then 1 else 0) = starts st \<and>
     (readyState st = HEADERS_RECEIVED \<or> readyState st = LOADING \<longrightarrow> sent st) \<and>
     (subscriptions st \<noteq> [] \<longrightarrow> in_flight st) \<and> (readyState st = UNSENT \<longrightarrow> \<not> sent st)"

text \<open>What the operations on other fields keep.\<close>

definition same_phase :: "xhr \<Rightarrow> xhr \<Rightarrow> bool" where
  "same_phase a st \<longleftrightarrow> ends st = ends a \<and> starts st = starts a \<and> readyState st = readyState a \<and>
     sent st = sent a \<and> subscriptions st = subscriptions a"

lemma same_phase_ok: "same_phase a st \<Longrightarrow> xhr_ok a \<Longrightarrow> xhr_ok st"
  by (simp add: same_phase_def xhr_ok_def in_flight_def)

lemma phase_simps [simp]:
  "ends (xhr_do e st) = ends st" "starts (xhr_do e st) = starts st + (if is_start e then 1 else 0)"
  "ends (xhr_dispatch x st) = ends st + (if x = LoadEnd then 1 else 0)" "starts (xhr_dispatch x st) = starts st"
  "readyState (xhr_do e st) = readyState st" "sent (xhr_do e st) = sent st" "subscriptions (xhr_do e st) = subscriptions st"
  "readyState (xhr_dispatch x st) = readyState st" "sent (xhr_dispatch x st) = sent st"
  "subscriptions (xhr_dispatch x st) = subscriptions st"
  by (simp_all add: ends_def starts_def xhr_do_def xhr_dispatch_def)

lemma done_event_not_LoadEnd [simp]: "done_event st \<noteq> LoadEnd"
  by (simp add: done_event_def)

lemma setReadyState_simps [simp]:
  "readyState (setReadyState s st) = s" "sent (setReadyState s st) = sent st"
  "subscriptions (setReadyState s st) = subscriptions st" "starts (setReadyState s st) = starts st"
  "ends (setReadyState s st) = ends st + (if s = DONE then 1 else 0)"
  by (simp_all add: setReadyState_def Let_def) (simp_all add: starts_def ends_def)

lemma field_simps' [simp]:
  "ends (st\<lparr>requestId := r\<rparr>) = ends st" "starts (st\<lparr>requestId := r\<rparr>) = starts st"
  "ends (st\<lparr>perfKey := k\<rparr>) = ends st" "starts (st\<lparr>perfKey := k\<rparr>) = starts st"
  "ends (st\<lparr>aborted := b\<rparr>) = ends st" "starts (st\<lparr>aborted := b\<rparr>) = starts st"
  "ends (st\<lparr>status := n\<rparr>) = ends st" "starts (st\<lparr>status := n\<rparr>) = starts st"
  "ends (st\<lparr>responseURL := u\<rparr>) = ends st" "starts (st\<lparr>responseURL := u\<rparr>) = starts st"
  "ends (st\<lparr>resp := d\<rparr>) = ends st" "starts (st\<lparr>resp := d\<rparr>) = starts st"
  by (simp_all add: ends_def starts_def)

lemma more_field_simps [simp]:
  "ends (st\<lparr>resp := d, cachedResponse := c\<rparr>) = ends st" "starts (st\<lparr>resp := d, cachedResponse := c\<rparr>) = starts st"
  "ends (setResponseHeaders hs st) = ends st" "starts (setResponseHeaders hs st) = starts st"
  "readyState (setResponseHeaders hs st) = readyState st" "sent (setResponseHeaders hs st) = sent st"
  "subscriptions (setResponseHeaders hs st) = subscriptions st"
  by (simp_all add: ends_def starts_def setResponseHeaders_def)

lemma intercept_phase [simp]:
  "\<not> is_start e \<Longrightarrow> same_phase a (intercept env e st) = same_phase a st"
  by (simp add: intercept_def same_phase_def)

lemma xhr_reset_simps [simp]:
  "readyState (xhr_reset st) = UNSENT" "sent (xhr_reset st) = False" "subscriptions (xhr_reset st) = []"
  "ends (xhr_reset st) = ends st" "starts (xhr_reset st) = starts st"
  by (simp_all add: xhr_reset_def clearSubscriptions_def ends_def starts_def)

lemma abort_ok:
  assumes "xhr_ok st"
  shows "xhr_ok (abort st)"
proof -
  define s2 where "s2 = (case requestId (st\<lparr>aborted := True\<rparr>) of
     Some i \<Rightarrow> if i = 0 then st\<lparr>aborted := True\<rparr> else xhr_do (AbortRequest i) (st\<lparr>aborted := True\<rparr>) | None \<Rightarrow> st\<lparr>aborted := True\<rparr>)"
  have p: "same_phase st s2" by (simp add: s2_def same_phase_def split: option.splits)
  then have ok: "xhr_ok s2" by (rule same_phase_ok [OF _ assms])
  have a: "abort st = xhr_reset (if \<not> (readyState s2 = UNSENT \<or> (readyState s2 = OPENED \<and> \<not> sent s2) \<or> readyState s2 = DONE)
      then setReadyState DONE (xhr_reset s2) else s2)"
    by (simp add: abort_def s2_def Let_def)
  have "in_flight s2 \<longleftrightarrow> \<not> (readyState s2 = UNSENT \<or> (readyState s2 = OPENED \<and> \<not> sent s2) \<or> readyState s2 = DONE)"
    using ok by (cases "readyState s2") (auto simp: xhr_ok_def in_flight_def)
  with ok show ?thesis unfolding a by (auto simp: xhr_ok_def in_flight_def [of "xhr_reset _"])
qed

text \<open>Native events come only in flight.\<close>

lemma loading_ok:
  assumes "xhr_ok st" and "in_flight st" and "same_phase (setReadyState s st) st'"
    and "s = HEADERS_RECEIVED \<or> s = LOADING"
  shows "xhr_ok st'"
proof (rule same_phase_ok [OF assms(3)])
  show "xhr_ok (setReadyState s st)" using assms(1,2,4) by (auto simp: xhr_ok_def in_flight_def)
qed

lemma same_phase_refl [simp]: "same_phase st st"
  by (simp add: same_phase_def)

lemma native_ok:
  assumes ok: "xhr_ok st" and sub: "subscriptions st \<noteq> []"
  shows "xhr_ok (didUploadProgress i p t st)" "xhr_ok (didReceiveDataProgress i p t st)"
    "xhr_ok (didReceiveResponse env i s hs u st)" "xhr_ok (didReceiveData env i d st)"
    "xhr_ok (didReceiveIncrementalData env i txt p t st)" "xhr_ok (didCompleteResponse env i e b st)"
proof -
  have f: "in_flight st" using ok sub by (simp add: xhr_ok_def)
  show "xhr_ok (didUploadProgress i p t st)" "xhr_ok (didReceiveDataProgress i p t st)"
    by (rule same_phase_ok [OF _ ok]; simp add: same_phase_def didUploadProgress_def didReceiveDataProgress_def)+
  show "xhr_ok (didReceiveResponse env i s hs u st)"
  proof (cases "Some i = requestId st")
    case True
    have "same_phase (setReadyState HEADERS_RECEIVED st) (didReceiveResponse env i s hs u st)"
      using True by (simp add: didReceiveResponse_def Let_def) (simp add: same_phase_def split: option.splits)
    from loading_ok [OF ok f this] show ?thesis by simp
  qed (use ok in \<open>simp add: didReceiveResponse_def\<close>)
  show "xhr_ok (didReceiveData env i d st)"
  proof (cases "Some i = requestId st")
    case True
    have "same_phase (setReadyState LOADING st) (didReceiveData env i d st)"
      using True by (simp add: didReceiveData_def) (simp add: same_phase_def)
    from loading_ok [OF ok f this] show ?thesis by simp
  qed (use ok in \<open>simp add: didReceiveData_def\<close>)
  show "xhr_ok (didReceiveIncrementalData env i txt p t st)"
  proof (cases "Some i = requestId st")
    case True
    have "same_phase (setReadyState LOADING st) (didReceiveIncrementalData env i txt p t st)"
      using True by (simp add: didReceiveIncrementalData_def didReceiveDataProgress_def same_phase_def intercept_def)
    from loading_ok [OF ok f this] show ?thesis by simp
  qed (use ok in \<open>simp add: didReceiveIncrementalData_def\<close>)
  show "xhr_ok (didCompleteResponse env i e b st)"
  proof (cases "Some i = requestId st")
    case True
    define s1 where "s1 = (if e = [] then st
        else st\<lparr>resp := (if responseType st = [] \<or> responseType st = ''text'' then TextBody e else resp st),
                hasError := True, timedOut := (timedOut st \<or> b)\<rparr>)"
    define s2 where "s2 = setReadyState DONE ((clearSubscriptions s1)\<lparr>requestId := None\<rparr>)"
    have "same_phase s2 (didCompleteResponse env i e b st)"
      using True by (simp add: didCompleteResponse_def Let_def s2_def s1_def)
    moreover have "xhr_ok s2"
      using ok f by (simp add: s2_def s1_def xhr_ok_def in_flight_def clearSubscriptions_def)
        (simp add: ends_def starts_def)
    ultimately show ?thesis by (rule same_phase_ok)
  qed (use ok in \<open>simp add: didCompleteResponse_def\<close>)
qed

lemma doSend_phase:
  "ends (out_state (doSend b st)) = ends st" "starts (out_state (doSend b st)) = Suc (starts st)"
  "readyState (out_state (doSend b st)) = readyState st" "sent (out_state (doSend b st)) = sent st"
  by (simp_all add: doSend_def Let_def split: option.splits)

lemma send_ok:
  assumes "xhr_ok st"
  shows "xhr_ok (out_state (xhr_send h st))"
proof (cases "readyState st = OPENED \<and> \<not> sent st")
  case True
  let ?s = "st\<lparr>sent := True, subscriptions := subscriptions st @ NETWORK_EVENTS\<rparr>"
  have "ends ?s = ends st" "starts ?s = starts st" by (simp_all add: ends_def starts_def)
  with True assms show ?thesis by (simp add: xhr_send_def xhr_ok_def in_flight_def doSend_phase)
next
  case False
  with assms show ?thesis by (auto simp: xhr_send_def)
qed

lemma opened_ok: "xhr_ok st \<Longrightarrow> readyState st = UNSENT \<Longrightarrow> xhr_ok (setReadyState OPENED st)"
  by (simp add: xhr_ok_def in_flight_def)

lemma open_ok:
  assumes "xhr_ok st"
  shows "xhr_ok (out_state (xhr_open m u a st))"
proof (cases "readyState st \<noteq> UNSENT \<or> a = Some False \<or> u = []")
  case True
  with assms show ?thesis by (auto simp: xhr_open_def)
next
  case False
  let ?s = "st\<lparr>meth := Some (toUpperCase m), reqUrl := Some u, aborted := False\<rparr>"
  have "same_phase st ?s" by (simp add: same_phase_def ends_def starts_def)
  then have "xhr_ok ?s" by (rule same_phase_ok [OF _ assms])
  with False opened_ok [of ?s] show ?thesis by (simp add: xhr_open_def)
qed

lemma xhr_step_ok:
  assumes "xhr_ok st"
  shows "xhr_ok (xhr_step env st i)"
proof -
  have "same_phase st (out_state (setRequestHeader h v st))" "same_phase st (xhr_addEventListener t st)"
    "same_phase st (setTrackingName t st)" "same_phase st (out_state (set_responseType env t st))"
    "same_phase st (didCreateRequest env n st)" for h v t n
    by (simp_all add: setRequestHeader_def xhr_addEventListener_def setTrackingName_def set_responseType_def
        didCreateRequest_def Let_def split: option.splits) (simp_all add: same_phase_def ends_def starts_def)
  note q = this [THEN same_phase_ok, OF assms]
  have m: "x \<in> set (subscriptions st) \<Longrightarrow> subscriptions st \<noteq> []" for x by auto
  show ?thesis
    using q abort_ok [OF assms] send_ok [OF assms] open_ok [OF assms] native_ok [OF assms m] assms
    by (cases i) (simp_all add: xhr_step_def)
qed

interpretation xhrm: event_machine "xhr_step env" xhr_ok
  by unfold_locales (rule xhr_step_ok)

lemma new_XMLHttpRequest_ok: "xhr_ok new_XMLHttpRequest"
  by (simp add: new_XMLHttpRequest_def xhr_ok_def in_flight_def) (simp add: ends_def starts_def)

text \<open>
  C25: through every interleaving of user calls and native events, each request that is sent
  ends with exactly one \<open>loadend\<close> event: the number of such events is the number of
  requests sent, less one while a request is in flight.
\<close>

theorem every_request_ends_once:
  "let st = foldl (xhr_step env) new_XMLHttpRequest es
   in count_list (events st) LoadEnd + (if in_flight st then 1 else 0) = length (filter is_start (effects st))"
  using xhrm.inv_run [OF new_XMLHttpRequest_ok, of env es] by (simp add: xhr_ok_def ends_def starts_def Let_def)

section \<open>Response headers\<close>

lemma map_of_update: "map_of (AList.update k v xs) k' = (if k' = k then Some v else map_of xs k')"
  by (simp add: update_conv')

text \<open>The last header of a name, in any case, is the one that is found.\<close>

lemma getResponseHeader_last:
  "getResponseHeader h (setResponseHeaders (Some (hs @ [(n, v)])) st) =
     (if toLowerCase h = toLowerCase n then Some v else getResponseHeader h (setResponseHeaders (Some hs) st))"
  by (simp add: getResponseHeader_def setResponseHeaders_def map_of_update)

lemma getResponseHeader_none: "getResponseHeader h (setResponseHeaders None st) = None"
  by (simp add: getResponseHeader_def setResponseHeaders_def)

section \<open>A response that belongs to an aborted request\<close>

text \<open>
  The id of a request arrives asynchronously.  If the request is aborted before, the late
  callback stores the id in an object that may already have sent its next request: the
  response of the aborted request is then taken for the response of the new one.
\<close>

theorem aborted_request_answers_next:
  assumes "m \<noteq> []" and "u \<noteq> []" and "u' \<noteq> []"
  shows "let st = foldl (xhr_step env) new_XMLHttpRequest
             [Open m u None, Send False, Abort, Open m u' None, Send False, Created 1,
              Response 1 200 None (Some u), Complete 1 [] False]
         in readyState st = DONE \<and> status st = 200 \<and> responseURL st = Some u \<and> reqUrl st = Some u' \<and>
            last (events st) = LoadEnd \<and> LoadEvent \<in> set (events st) \<and> AbortRequest 1 \<notin> set (effects st)"
  using assms
  by (simp add: xhr_step_def new_XMLHttpRequest_def xhr_open_def xhr_send_def doSend_def abort_def xhr_reset_def
      clearSubscriptions_def setReadyState_def xhr_dispatch_def xhr_do_def done_event_def NETWORK_EVENTS_def
      didCreateRequest_def didReceiveResponse_def didCompleteResponse_def intercept_def setResponseHeaders_def Let_def)

theorem aborted_request_answers_next_witness:
  "responseURL (foldl (xhr_step \<lparr>hasInterceptor = False, hasArrayBuffer = True, hasBlob = False, blobManagerAvailable = False\<rparr>)
      new_XMLHttpRequest
      [Open ''get'' ''/a'' None, Send False, Abort, Open ''get'' ''/b'' None, Send False, Created 1,
       Response 1 200 None (Some ''/a''), Complete 1 [] False]) = Some ''/a''"
  using aborted_request_answers_next [of "''get''" "''/a''" "''/b''"
      "\<lparr>hasInterceptor = False, hasArrayBuffer = True, hasBlob = False, blobManagerAvailable = False\<rparr>"]
  unfolding Let_def by blast

end
