(* ===== verification/NativeModules.thy ===== *)
theory NativeModules
  imports MessageQueue
begin

text \<open>
  \<open>Libraries/BatchedBridge/NativeModules.js\<close> and \<open>Utilities/defineLazyObjectProperty.js\<close>:
  the JavaScript objects that stand for native modules.

  The state extends the record of the bridge by the table of modules and by the promises the
  methods have handed out.  The closures of \<open>genMethod\<close> are values of \<open>native_method\<close>; the
  resolving functions of the promise \<open>p\<close> are \<open>ResolveFun p\<close> and \<open>RejectFun p\<close>.
  \<open>global.nativeRequireModuleConfig\<close> is a parameter, \<open>None\<close> where the global is not set.
  Native code answers with plain data, so a value a promise is resolved with is never itself
  a promise.
\<close>

section \<open>Data\<close>

datatype method_type = Async | Promise | Sync

datatype native_method = NativeMethod int int method_type

text \<open>The properties of a module object; \<open>ConstantsGetter\<close> is the generated \<open>getConstants\<close>.\<close>

datatype module_value =
    Method native_method
  | Constant jsval
  | ConstantsGetter "(string \<times> jsval) list option"

type_synonym native_module = "(string \<times> module_value) list"

record module_config =
  cf_name :: string
  cf_constants :: "(string \<times> jsval) list option"
  cf_methods :: "string list option"
  cf_promiseMethods :: "nat list option"
  cf_syncMethods :: "nat list option"

type_synonym js_error = "(string \<times> jsval) list"

text \<open>A promise is rejected with an \<open>Error\<close> object, given by its properties, or with an
  exception that its executor threw.\<close>

datatype promise = Pending js_error | Resolved jsval | Rejected js_error | RejectedWith js_exn

text \<open>
  A property of \<open>NativeModules\<close>: a value (\<open>None\<close> is \<open>undefined\<close> or \<open>null\<close>), or the
  accessor of \<open>defineLazyObjectProperty\<close> with its variable \<open>valueSet\<close>.
\<close>

datatype module_property = Value "native_module option" | LazyGetter int bool

record 'm native_modules = "'m mq" +
  promises :: "promise list"
  moduleTable :: "(string \<times> module_property) list"
  nm_warnings :: nat

type_synonym require_config = "(string \<Rightarrow> module_config option) option"

definition new_NativeModules :: "bool \<Rightarrow> bool \<Rightarrow> bool \<Rightarrow> int \<Rightarrow> 'm native_modules" where
  "new_NativeModules isDev hasFlush hasSync now =
     mq.extend (new_MessageQueue isDev hasFlush hasSync now) (native_modules.fields [] [] 0)"

section \<open>Generating modules\<close>

definition arrayContains :: "'a list \<Rightarrow> 'a \<Rightarrow> bool" where
  "arrayContains xs x \<longleftrightarrow> index_of xs x \<noteq> None"

definition genMethod :: "int \<Rightarrow> int \<Rightarrow> method_type \<Rightarrow> native_method" where
  "genMethod moduleID methodID ty = NativeMethod moduleID methodID ty"

definition listed :: "nat list option \<Rightarrow> nat \<Rightarrow> bool" where
  "listed ms i \<longleftrightarrow> (case ms of None \<Rightarrow> False | Some xs \<Rightarrow> arrayContains xs i)"

definition method_type_of :: "module_config \<Rightarrow> nat \<Rightarrow> js_exn + method_type" where
  "method_type_of config i =
     (let isPromise = listed (cf_promiseMethods config) i;
          isSync = listed (cf_syncMethods config) i
      in if isPromise \<and> isSync
         then Inl (InvariantViolation ''Cannot have a method that is both async and a sync hook'')
         else Inr (if isPromise then Promise else if isSync then Sync else Async))"

text \<open>The loop over the methods, from index \<open>i\<close>; \<open>module[name] = ...\<close> is \<open>AList.update\<close>.\<close>

fun gen_methods :: "module_config \<Rightarrow> int \<Rightarrow> nat \<Rightarrow> string list \<Rightarrow> native_module \<Rightarrow> js_exn + native_module" where
  "gen_methods config moduleID i [] m = Inr m"
| "gen_methods config moduleID i (name # names) m =
     (case method_type_of config i of
        Inl e \<Rightarrow> Inl e
      | Inr ty \<Rightarrow>
          gen_methods config moduleID (Suc i) names
            (AList.update name (Method (genMethod moduleID (int i) ty)) m))"

definition assign_constants :: "(string \<times> jsval) list \<Rightarrow> native_module \<Rightarrow> native_module" where
  "assign_constants cs m = fold (\<lambda>(k, v). AList.update k (Constant v)) cs m"

fun is_nullish :: "module_value option \<Rightarrow> bool" where
  "is_nullish (Some (Constant v)) \<longleftrightarrow> v = JUndefined \<or> v = JNull"
| "is_nullish (Some _) \<longleftrightarrow> False"
| "is_nullish None \<longleftrightarrow> True"

definition has_prefix :: "string \<Rightarrow> string \<Rightarrow> bool" where
  "has_prefix p s \<longleftrightarrow> take (length p) s = p"

definition add_getConstants :: "module_config \<Rightarrow> native_module \<Rightarrow> native_module" where
  "add_getConstants config m = AList.update ''getConstants'' (ConstantsGetter (cf_constants config)) m"

text \<open>\<open>genModule\<close>: no configuration, a name whose module is filled in later, or the module.\<close>

definition genModule ::
  "module_config option \<Rightarrow> int \<Rightarrow> ('m, 'z) native_modules_scheme \<Rightarrow>
   (js_exn, ('m, 'z) native_modules_scheme, (string \<times> native_module option) option) outcome" where
  "genModule cfg moduleID st =
     (case cfg of
        None \<Rightarrow> Ret None st
      | Some config \<Rightarrow>
          if has_prefix ''RCT'' (cf_name config) \<or> has_prefix ''RK'' (cf_name config)
          then Throw (InvariantViolation (''Module name prefixes should've been stripped by the native side but wasn't for '' @ cf_name config)) st
          else if cf_constants config = None \<and> cf_methods config = None
          then Ret (Some (cf_name config, None)) st
          else
            (case gen_methods config moduleID 0 (case cf_methods config of None \<Rightarrow> [] | Some ms \<Rightarrow> ms) [] of
               Inl e \<Rightarrow> Throw e st
             | Inr m0 \<Rightarrow>
                 let m1 = assign_constants (case cf_constants config of None \<Rightarrow> [] | Some cs \<Rightarrow> cs) m0;
                     absent = is_nullish (map_of m1 ''getConstants'');
                     m2 = (if absent then add_getConstants config m1 else m1);
                     st1 = (if absent then st else st\<lparr>nm_warnings := Suc (nm_warnings st)\<rparr>)
                 in Ret (Some (cf_name config, Some m2))
                      (createDebugLookup moduleID (cf_name config) (cf_methods config) st1)))"

definition loadModule ::
  "require_config \<Rightarrow> string \<Rightarrow> int \<Rightarrow> ('m, 'z) native_modules_scheme \<Rightarrow>
   (js_exn, ('m, 'z) native_modules_scheme, native_module option) outcome" where
  "loadModule require name moduleID st =
     (case require of
        None \<Rightarrow> Throw (InvariantViolation ''Can't lazily create module without nativeRequireModuleConfig'') st
      | Some req \<Rightarrow>
          and_then (genModule (req name) moduleID st) (\<lambda>info st'.
            Ret (case info of None \<Rightarrow> None | Some (_, m) \<Rightarrow> m) st'))"

section \<open>The table of modules\<close>

text \<open>The loop over \<open>remoteModuleConfig\<close> when the module is first required.\<close>

fun install_modules ::
  "nat \<Rightarrow> module_config option list \<Rightarrow> ('m, 'z) native_modules_scheme \<Rightarrow>
   (js_exn, ('m, 'z) native_modules_scheme, unit) outcome" where
  "install_modules i [] st = Ret () st"
| "install_modules i (config # configs) st =
     and_then (genModule config (int i) st) (\<lambda>info st1.
       install_modules (Suc i) configs
         (case info of
            None \<Rightarrow> st1
          | Some (name, Some m) \<Rightarrow> st1\<lparr>moduleTable := AList.update name (Value (Some m)) (moduleTable st1)\<rparr>
          | Some (name, None) \<Rightarrow> st1\<lparr>moduleTable := AList.update name (LazyGetter (int i) False) (moduleTable st1)\<rparr>))"

text \<open>
  The body of the module: the host may provide the object or install the modules by itself;
  otherwise the bridge must be configured, \<open>remoteModuleConfig\<close> being optional.
\<close>

definition init_NativeModules ::
  "(string \<times> module_property) list option \<Rightarrow> bool \<Rightarrow> module_config option list option option \<Rightarrow>
   ('m, 'z) native_modules_scheme \<Rightarrow> (js_exn, ('m, 'z) native_modules_scheme, unit) outcome" where
  "init_NativeModules nativeModuleProxy nativeExtensions bridgeConfig st =
     (case nativeModuleProxy of
        Some proxy \<Rightarrow> Ret () (st\<lparr>moduleTable := proxy\<rparr>)
      | None \<Rightarrow>
          if nativeExtensions then Ret () st
          else
            (case bridgeConfig of
               None \<Rightarrow> Throw (InvariantViolation ''__fbBatchedBridgeConfig is not set, cannot invoke native modules'') st
             | Some remoteModuleConfig \<Rightarrow>
                 install_modules 0 (case remoteModuleConfig of None \<Rightarrow> [] | Some cs \<Rightarrow> cs) st))"

text \<open>
  Reading \<open>NativeModules[name]\<close>.  The accessor marks itself as evaluated, calls
  \<open>loadModule\<close> and redefines the property; if the call throws, the mark stays.
\<close>

definition get_module ::
  "require_config \<Rightarrow> string \<Rightarrow> ('m, 'z) native_modules_scheme \<Rightarrow>
   (js_exn, ('m, 'z) native_modules_scheme, native_module option) outcome" where
  "get_module require name st =
     (case map_of (moduleTable st) name of
        None \<Rightarrow> Ret None st
      | Some (Value v) \<Rightarrow> Ret v st
      | Some (LazyGetter moduleID valueSet) \<Rightarrow>
          if valueSet then Ret None st
          else
            and_then (loadModule require name moduleID
                (st\<lparr>moduleTable := AList.update name (LazyGetter moduleID True) (moduleTable st)\<rparr>))
              (\<lambda>v st'. Ret v (st'\<lparr>moduleTable := AList.update name (Value v) (moduleTable st')\<rparr>)))"

section \<open>Calling methods\<close>

definition new_promise :: "js_error \<Rightarrow> ('m, 'z) native_modules_scheme \<Rightarrow> nat \<times> ('m, 'z) native_modules_scheme" where
  "new_promise frame st = (length (promises st), st\<lparr>promises := promises st @ [Pending frame]\<rparr>)"

text \<open>Only the first call of a resolving function has an effect.\<close>

definition settle :: "nat \<Rightarrow> (js_error \<Rightarrow> promise) \<Rightarrow> ('m, 'z) native_modules_scheme \<Rightarrow> ('m, 'z) native_modules_scheme" where
  "settle p f st =
     (case array_get (promises st) p of
        Some (Pending frame) \<Rightarrow> st\<lparr>promises := (promises st)[p := f frame]\<rparr>
      | _ \<Rightarrow> st)"

text \<open>\<open>enqueueingFrameError\<close> is the error created for the stack trace, with its own properties.\<close>

definition promiseMethodWrapper ::
  "int \<Rightarrow> int \<Rightarrow> js_error \<Rightarrow> jsval list \<Rightarrow> ('m, 'z) native_modules_scheme \<Rightarrow>
   (js_exn, ('m, 'z) native_modules_scheme, nat) outcome" where
  "promiseMethodWrapper moduleID methodID frame args st =
     (case new_promise frame st of
        (p, st1) \<Rightarrow>
          (case enqueueNativeCall moduleID methodID args (Some (ResolveFun p)) (Some (RejectFun p)) st1 of
             Ret _ st2 \<Rightarrow> Ret p st2
           | Throw e st2 \<Rightarrow> Ret p (settle p (\<lambda>_. RejectedWith e) st2)))"

definition last_arg :: "jsval list \<Rightarrow> jsval" where
  "last_arg args = (if args \<noteq> [] then last args else JNull)"

definition second_last_arg :: "jsval list \<Rightarrow> jsval" where
  "second_last_arg args = (if length args > 1 then args ! (length args - 2) else JNull)"

definition callback_of :: "jsval \<Rightarrow> js_fun option" where
  "callback_of v = (case v of JFunction f \<Rightarrow> Some f | _ \<Rightarrow> None)"

definition count_some :: "'a option \<Rightarrow> nat" where
  "count_some x = (if x = None then 0 else 1)"

text \<open>The result of an asynchronous method is \<open>undefined\<close>.\<close>

definition nonPromiseMethodWrapper ::
  "('m, 'z native_modules_ext) mq_env \<Rightarrow> int \<Rightarrow> int \<Rightarrow> method_type \<Rightarrow> jsval list \<Rightarrow>
   ('m, 'z) native_modules_scheme \<Rightarrow> (js_exn, ('m, 'z) native_modules_scheme, jsval) outcome" where
  "nonPromiseMethodWrapper env moduleID methodID ty args st =
     (let onSuccess = callback_of (last_arg args);
          onFail = callback_of (second_last_arg args)
      in if onFail \<noteq> None \<and> onSuccess = None
         then Throw (InvariantViolation ''Cannot have a non-function arg after a function arg.'') st
         else
           let ps = take (length args - (count_some onSuccess + count_some onFail)) args
           in if ty = Sync
              then callNativeSyncHook_op env moduleID methodID ps onFail onSuccess st
              else and_then (enqueueNativeCall moduleID methodID ps onFail onSuccess st)
                     (\<lambda>_. Ret JUndefined))"

text \<open>A call of a generated method: a value, or the promise it returns.\<close>

definition call_method ::
  "('m, 'z native_modules_ext) mq_env \<Rightarrow> native_method \<Rightarrow> js_error \<Rightarrow> jsval list \<Rightarrow>
   ('m, 'z) native_modules_scheme \<Rightarrow> (js_exn, ('m, 'z) native_modules_scheme, jsval + nat) outcome" where
  "call_method env meth frame args st =
     (case meth of
        NativeMethod moduleID methodID ty \<Rightarrow>
          if ty = Promise
          then and_then (promiseMethodWrapper moduleID methodID frame args st) (\<lambda>p. Ret (Inr p))
          else and_then (nonPromiseMethodWrapper env moduleID methodID ty args st) (\<lambda>v. Ret (Inl v)))"

section \<open>Answers of native code\<close>

definition first_arg :: "jsval list \<Rightarrow> jsval" where
  "first_arg args = (case args of [] \<Rightarrow> JUndefined | v # _ \<Rightarrow> v)"

fun decimal :: "nat \<Rightarrow> string" where
  "decimal n = (if n < 10 then [char_of (48 + n)] else decimal (n div 10) @ [char_of (48 + n mod 10)])"

text \<open>The own enumerable properties that \<open>Object.assign\<close> copies from a value.\<close>

fun own_properties :: "jsval \<Rightarrow> (string \<times> jsval) list" where
  "own_properties (JObject _ _ kvs) = kvs"
| "own_properties (JArray _ vs) = zip (map decimal [0..<length vs]) vs"
| "own_properties (JString s) = zip (map decimal [0..<length s]) (map (\<lambda>c. JString [c]) s)"
| "own_properties _ = []"

text \<open>The falsy values, for which \<open>errorData || {}\<close> is the empty object, have no properties.\<close>

definition updateErrorWithErrorData :: "jsval \<Rightarrow> js_error \<Rightarrow> js_error" where
  "updateErrorWithErrorData errorData err = fold (\<lambda>(k, v). AList.update k v) (own_properties errorData) err"

text \<open>
  The callbacks of the bridge, with the closures \<open>data => resolve(data)\<close> and
  \<open>errorData => reject(...)\<close> of the promises; any other function is user code.
\<close>

definition run_callback ::
  "(js_fun \<Rightarrow> jsval list \<Rightarrow> ('m, 'z) native_modules_scheme \<Rightarrow> (js_exn, ('m, 'z) native_modules_scheme, unit) outcome) \<Rightarrow>
   js_fun \<Rightarrow> jsval list \<Rightarrow> ('m, 'z) native_modules_scheme \<Rightarrow> (js_exn, ('m, 'z) native_modules_scheme, unit) outcome" where
  "run_callback user f args st =
     (case f of
        ResolveFun p \<Rightarrow> Ret () (settle p (\<lambda>_. Resolved (first_arg args)) st)
      | RejectFun p \<Rightarrow> Ret () (settle p (\<lambda>frame. Rejected (updateErrorWithErrorData (first_arg args) frame)) st)
      | UserFun _ _ \<Rightarrow> user f args st)"

definition promise_env :: "('m, 'z native_modules_ext) mq_env \<Rightarrow> ('m, 'z native_modules_ext) mq_env" where
  "promise_env env = env\<lparr>call_fun := run_callback (call_fun env)\<rparr>"

section \<open>Promises settle once\<close>

lemma promises_more: "mq.more a = mq.more b \<Longrightarrow> promises a = promises b"
  by (cases a; cases b) (simp add: native_modules.defs)

lemma promises_enqueue: "promises (out_state (enqueueNativeCall m k ps f g st)) = promises st"
  by (rule promises_more) simp

lemma promises_mq_update [simp]:
  "promises (st\<lparr>lastFlush := a, eventLoopStartTime := b\<rparr>) = promises st"
  "promises (st\<lparr>successCallbacks := c, failureCallbacks := d\<rparr>) = promises st"
  by (rule promises_more; simp)+

lemma promises_settle [simp]:
  "p < length (promises st) \<Longrightarrow> promises st ! p = Pending frame \<Longrightarrow>
   promises (settle p f st) = (promises st)[p := f frame]"
  by (simp add: settle_def array_get_def)

text \<open>An identifier handed out for a call runs its function, with both callbacks removed.\<close>

lemma invoke_registered:
  assumes "\<not> devMode st" and "n < 2 ^ 31"
  shows "get_callback n (failureCallbacks st) = Some f \<Longrightarrow>
           \<exists>st'. invokeCallback env (fail_id n) args st = call_fun env f args st' \<and> mq.more st' = mq.more st"
    and "get_callback n (successCallbacks st) = Some g \<Longrightarrow>
           \<exists>st'. invokeCallback env (succ_id n) args st = call_fun env g args st' \<and> mq.more st' = mq.more st"
  using assms by (auto simp: invokeCallback_def Let_def callback_ids)

text \<open>
  C22: in production a promise method always returns its promise.  The call it queues carries
  two identifiers after the arguments; native code settles the promise through them, the
  first resolves it with the data that native passes, the second rejects it with the error
  created at the call, updated by what native passes.
\<close>

theorem promise_answered:
  assumes "\<not> devMode st" and "aligned (queue st)" and "callID st < 2 ^ 31"
  shows "\<exists>st1. promiseMethodWrapper m k frame args st = Ret (length (promises st)) st1 \<and>
     all_calls st1 = all_calls st @ [(m, k, args @
       [JNumber (Finite (of_int (fail_id (callID st)))), JNumber (Finite (of_int (succ_id (callID st))))])] \<and>
     promises st1 = promises st @ [Pending frame] \<and>
     (\<exists>st2. invokeCallback (promise_env env) (fail_id (callID st)) [v] st1 = Ret () st2 \<and>
            promises st2 = promises st @ [Resolved v]) \<and>
     (\<exists>st2. invokeCallback (promise_env env) (succ_id (callID st)) [v] st1 = Ret () st2 \<and>
            promises st2 = promises st @ [Rejected (updateErrorWithErrorData v frame)])"
proof -
  let ?p = "length (promises st)" and ?st = "st\<lparr>promises := promises st @ [Pending frame]\<rparr>"
  have s: "\<not> devMode ?st" "aligned (queue ?st)" "callID ?st = callID st" "all_calls ?st = all_calls st"
    using assms by (simp_all add: all_calls_def)
  obtain st1 where e: "enqueueNativeCall m k args (Some (ResolveFun ?p)) (Some (RejectFun ?p)) ?st = Ret () st1"
    using enqueueNativeCall_prod [OF s(1)] by blast
  note q = enqueueNativeCall_spec [OF s(2) e] and c = enqueueNativeCall_callbacks [OF e]
  have w: "promiseMethodWrapper m k frame args st = Ret ?p st1"
    using e by (simp add: promiseMethodWrapper_def new_promise_def)
  have pr: "promises st1 = promises st @ [Pending frame]"
    using promises_enqueue [of m k args "Some (ResolveFun ?p)" "Some (RejectFun ?p)" ?st] e by simp
  have d: "\<not> devMode st1" using q s by simp
  have reg: "get_callback (callID st) (failureCallbacks st1) = Some (ResolveFun ?p)"
    "get_callback (callID st) (successCallbacks st1) = Some (RejectFun ?p)"
    using c s by simp_all
  have fail: "\<exists>st2. invokeCallback (promise_env env) (fail_id (callID st)) [v] st1 = Ret () st2 \<and>
            promises st2 = promises st @ [Resolved v]"
    using invoke_registered(1) [OF d assms(3) reg(1), of "promise_env env" "[v]"] pr
    by (auto simp: promise_env_def run_callback_def first_arg_def dest!: promises_more)
  have succ: "\<exists>st2. invokeCallback (promise_env env) (succ_id (callID st)) [v] st1 = Ret () st2 \<and>
            promises st2 = promises st @ [Rejected (updateErrorWithErrorData v frame)]"
    using invoke_registered(2) [OF d assms(3) reg(2), of "promise_env env" "[v]"] pr
    by (auto simp: promise_env_def run_callback_def first_arg_def dest!: promises_more)
  show ?thesis using w q(1) s pr fail succ by (auto simp: with_ids_def)
qed

text \<open>The bridge at work: calls of generated methods and answers of native code.\<close>

datatype nm_event = CallMethod native_method js_error "jsval list" | Answer int "jsval list"

definition nm_step ::
  "('m, 'z native_modules_ext) mq_env \<Rightarrow> ('m, 'z) native_modules_scheme \<Rightarrow> nm_event \<Rightarrow> ('m, 'z) native_modules_scheme" where
  "nm_step env st ev =
     (case ev of
        CallMethod meth frame args \<Rightarrow> out_state (call_method env meth frame args st)
      | Answer cbID args \<Rightarrow> out_state (invokeCallback (promise_env env) cbID args st))"

definition settled :: "nat \<Rightarrow> promise \<Rightarrow> ('m, 'z) native_modules_scheme \<Rightarrow> bool" where
  "settled p v st \<longleftrightarrow> array_get (promises st) p = Some v \<and> (\<forall>frame. v \<noteq> Pending frame)"

text \<open>User code and synchronous native methods cannot reach into a promise.\<close>

definition cannot_unsettle :: "('m, 'z native_modules_ext) mq_env \<Rightarrow> bool" where
  "cannot_unsettle env \<longleftrightarrow>
     (\<forall>f args st p v. settled p v st \<longrightarrow> settled p v (out_state (call_fun env f args st))) \<and>
     (\<forall>m k ps st p v. settled p v st \<longrightarrow> settled p v (out_state (sync_hook env m k ps st)))"

lemma settled_cong: "promises a = promises b \<Longrightarrow> settled p v a = settled p v b"
  by (simp add: settled_def)

lemma settled_more: "mq.more a = mq.more b \<Longrightarrow> settled p v a = settled p v b"
  by (rule settled_cong, rule promises_more)

lemma settled_settle: "settled p v st \<Longrightarrow> settled p v (settle q f st)"
  by (auto simp: settled_def settle_def js_defs nth_list_update split: option.split promise.split if_splits)

lemma settled_new: "settled p v st \<Longrightarrow> settled p v (st\<lparr>promises := promises st @ [w]\<rparr>)"
  by (auto simp: settled_def js_defs nth_append split: if_splits)

lemma settled_enqueue:
  "settled p v st \<Longrightarrow> settled p v (out_state (enqueueNativeCall m k ps f g st))"
  using settled_more [OF more_enqueueNativeCall] by blast

lemma settled_promise_method:
  assumes "settled p v st"
  shows "settled p v (out_state (promiseMethodWrapper m k frame args st))"
proof -
  let ?p = "length (promises st)" and ?st = "st\<lparr>promises := promises st @ [Pending frame]\<rparr>"
  have "settled p v (out_state (enqueueNativeCall m k args (Some (ResolveFun ?p)) (Some (RejectFun ?p)) ?st))"
    using assms by (intro settled_enqueue settled_new)
  then show ?thesis
    by (auto simp: promiseMethodWrapper_def new_promise_def settled_settle split: outcome.splits)
qed

lemma settled_sync:
  assumes "cannot_unsettle env" and "settled p v st"
  shows "settled p v (out_state (callNativeSyncHook_op env m k ps f g st))"
proof (cases "processCallbacks m k ps f g st")
  case (Ret ps' st1)
  then have "settled p v st1"
    using assms(2) more_processCallbacks [of m k ps f g st] settled_more [of st1 st] by simp
  with assms(1) Ret assms(2) show ?thesis by (simp add: callNativeSyncHook_op_def cannot_unsettle_def)
next
  case (Throw e st1)
  then have "settled p v st1"
    using assms(2) more_processCallbacks [of m k ps f g st] settled_more [of st1 st] by simp
  with Throw assms(2) show ?thesis by (simp add: callNativeSyncHook_op_def)
qed

lemma settled_and_then_Ret:
  "settled p v (out_state m) \<Longrightarrow> settled p v (out_state (and_then m (\<lambda>a. Ret (f a))))"
  by (cases m) simp_all

lemma settled_call_method:
  assumes "cannot_unsettle env" and "settled p v st"
  shows "settled p v (out_state (call_method env meth frame args st))"
proof (cases meth)
  case (NativeMethod m k ty)
  have "settled p v (out_state (nonPromiseMethodWrapper env m k ty args st))"
    using settled_sync [OF assms] assms(2)
    by (auto simp: nonPromiseMethodWrapper_def Let_def intro: settled_and_then_Ret settled_enqueue)
  then show ?thesis
    using settled_promise_method [OF assms(2), of m k frame args] NativeMethod
    by (simp add: call_method_def settled_and_then_Ret)
qed

lemma settled_run_callback:
  assumes "cannot_unsettle env" and "settled p v st"
  shows "settled p v (out_state (run_callback (call_fun env) f args st))"
  using assms by (cases f) (simp_all add: run_callback_def settled_settle cannot_unsettle_def)

lemma settled_spy_event [simp]: "settled p v (spy_event a b c d st) = settled p v st"
  by (rule settled_more) (simp add: spy_event_def)

lemma settled_mq_update [simp]:
  "settled p v (st\<lparr>lastFlush := a, eventLoopStartTime := b\<rparr>) = settled p v st"
  "settled p v (st\<lparr>successCallbacks := c, failureCallbacks := d\<rparr>) = settled p v st"
  by (rule settled_cong; simp)+

lemma settled_answer:
  assumes "cannot_unsettle env" and "settled p v st"
  shows "settled p v (out_state (invokeCallback (promise_env env) cb args st))"
  using settled_run_callback [OF assms(1)] assms(2)
  by (simp add: invokeCallback_def Let_def promise_env_def split: sum.split option.split)

text \<open>
  A promise that is resolved or rejected keeps its result, whatever methods are called and
  whatever identifiers native code invokes afterwards, its own ones included.
\<close>

theorem promise_settles_once:
  assumes "cannot_unsettle env" and "settled p v st"
  shows "settled p v (foldl (nm_step env) st evs)"
  using assms(2)
proof (induction evs arbitrary: st)
  case (Cons ev evs)
  then have "settled p v (nm_step env st ev)"
    using settled_call_method [OF assms(1)] settled_answer [OF assms(1)]
    by (simp add: nm_step_def split: nm_event.split)
  with Cons.IH show ?case by simp
qed simp

section \<open>Generated modules\<close>

lemma moduleTable_more: "mq.more a = mq.more b \<Longrightarrow> moduleTable a = moduleTable b"
  by (cases a; cases b) (simp add: native_modules.defs)

lemma moduleTable_debug [simp]: "moduleTable (createDebugLookup i n ms st) = moduleTable st"
  by (rule moduleTable_more) (simp add: createDebugLookup_def)

lemma moduleTable_genModule [simp]: "moduleTable (out_state (genModule cfg i st)) = moduleTable st"
  by (simp add: genModule_def Let_def split: option.split sum.split)

lemma moduleTable_loadModule [simp]: "moduleTable (out_state (loadModule req n i st)) = moduleTable st"
  by (simp add: loadModule_def and_then_frame [where v = moduleTable] split: option.split)

text \<open>
  When a lazy module has been read without an exception, further reads return the same
  module and change nothing; but if loading it throws, the accessor has already marked itself
  as evaluated, and from then on the module silently reads as \<open>undefined\<close>.
\<close>

theorem lazy_module_loads_once:
  assumes "map_of (moduleTable st) name = Some (LazyGetter i False)"
  shows "case get_module require name st of
           Ret v st' \<Rightarrow> get_module require' name st' = Ret v st'
         | Throw e st' \<Rightarrow> get_module require' name st' = Ret None st'"
proof -
  let ?st = "st\<lparr>moduleTable := AList.update name (LazyGetter i True) (moduleTable st)\<rparr>"
  have "moduleTable (out_state (loadModule require name i ?st)) = AList.update name (LazyGetter i True) (moduleTable st)"
    by simp
  then show ?thesis
    using assms by (cases "loadModule require name i ?st") (simp_all add: get_module_def update_conv')
qed

text \<open>A method is reached under its name with its index and its type.\<close>

lemma gen_methods_other:
  "gen_methods config i j names m = Inr m' \<Longrightarrow> n \<notin> set names \<Longrightarrow> map_of m' n = map_of m n"
  by (induction names arbitrary: j m) (auto simp: update_conv' split: sum.splits)

lemma gen_methods_lookup:
  assumes "gen_methods config i j names m = Inr m'" and "distinct names" and "k < length names"
  shows "\<exists>ty. method_type_of config (j + k) = Inr ty \<and>
           map_of m' (names ! k) = Some (Method (NativeMethod i (int (j + k)) ty))"
  using assms
proof (induction names arbitrary: j k m)
  case (Cons n names)
  from Cons.prems(1) obtain ty where ty: "method_type_of config j = Inr ty"
    and rest: "gen_methods config i (Suc j) names (AList.update n (Method (genMethod i (int j) ty)) m) = Inr m'"
    by (auto split: sum.splits)
  show ?case
  proof (cases k)
    case 0
    with ty gen_methods_other [OF rest, of n] Cons.prems(2) show ?thesis
      by (simp add: update_conv' genMethod_def)
  next
    case (Suc k')
    with Cons.IH [OF rest, of k'] Cons.prems(2,3) show ?thesis by simp
  qed
qed simp

lemma map_of_assign_constants:
  "map_of (assign_constants cs m) n =
     (case map_of (rev cs) n of Some v \<Rightarrow> Some (Constant v) | None \<Rightarrow> map_of m n)"
  unfolding assign_constants_def
  by (induction cs arbitrary: m) (auto simp: update_conv' map_add_def split: option.splits)

text \<open>
  When \<open>genModule\<close> generates a module, every method is a property of it, bound to its
  index and its type, unless a constant of the same name hides it; and no method is both
  a promise method and a synchronous one.
\<close>

theorem genModule_binds_methods:
  assumes "genModule (Some config) i st = Ret (Some (name, Some m)) st'"
    and "cf_methods config = Some ms" and "distinct ms" and "k < length ms"
    and "ms ! k \<notin> fst ` set (case cf_constants config of None \<Rightarrow> [] | Some cs \<Rightarrow> cs)"
  shows "map_of m (ms ! k) = Some (Method (NativeMethod i (int k)
           (if listed (cf_promiseMethods config) k then Promise
            else if listed (cf_syncMethods config) k then Sync else Async))) \<and>
         \<not> (listed (cf_promiseMethods config) k \<and> listed (cf_syncMethods config) k)"
proof -
  let ?cs = "case cf_constants config of None \<Rightarrow> [] | Some cs \<Rightarrow> cs"
  from assms(1,2) obtain m0 where g: "gen_methods config i 0 ms [] = Inr m0"
    and m: "m = (if is_nullish (map_of (assign_constants ?cs m0) ''getConstants'')
                 then add_getConstants config (assign_constants ?cs m0) else assign_constants ?cs m0)"
    by (auto simp: genModule_def Let_def split: if_splits sum.splits)
  from gen_methods_lookup [OF g assms(3,4)] obtain ty where ty: "method_type_of config k = Inr ty"
    and look: "map_of m0 (ms ! k) = Some (Method (NativeMethod i (int k) ty))" by auto
  have "map_of (rev ?cs) (ms ! k) = None" using assms(5) by (simp add: map_of_eq_None_iff)
  then have a: "map_of (assign_constants ?cs m0) (ms ! k) = Some (Method (NativeMethod i (int k) ty))"
    using look by (simp add: map_of_assign_constants)
  then have "map_of m (ms ! k) = Some (Method (NativeMethod i (int k) ty))"
    using m by (cases "ms ! k = ''getConstants''") (auto simp: add_getConstants_def update_conv')
  with ty show ?thesis by (auto simp: method_type_of_def Let_def split: if_splits)
qed

section \<open>Witnesses\<close>

definition ex_nm :: "unit native_modules" where
  "ex_nm = new_NativeModules False True True 100"

definition ex_nm_env :: "(unit, unit native_modules_ext) mq_env" where
  "ex_nm_env = \<lparr>call_fun = \<lambda>f args st. Ret () st, run_factory = \<lambda>i st. Ret () st, method_of = \<lambda>m n. None,
     reportFatalError = \<lambda>e st. Throw e st, sync_hook = \<lambda>m k ps st. Ret JNull st\<rparr>"

definition ex_module_config :: module_config where
  "ex_module_config = \<lparr>cf_name = ''Timing'', cf_constants = Some [(''unit'', JString ''ms'')],
     cf_methods = Some [''create'', ''delete'', ''now''], cf_promiseMethods = Some [1], cf_syncMethods = Some [2]\<rparr>"

lemma ex_nm_simps [simp]:
  "\<not> devMode ex_nm" "aligned (queue ex_nm)" "callID ex_nm = 0" "promises ex_nm = []" "moduleTable ex_nm = []"
  "all_calls ex_nm = []"
  by (simp_all add: ex_nm_def new_NativeModules_def new_MessageQueue_def mq.defs native_modules.defs all_calls_def)

theorem promise_answered_witness:
  "\<exists>st1. promiseMethodWrapper 3 1 [] [JNull] ex_nm = Ret 0 st1 \<and>
     (\<exists>st2. invokeCallback (promise_env ex_nm_env) (fail_id 0) [JBool True] st1 = Ret () st2 \<and>
            promises st2 = [Resolved (JBool True)])"
  using promise_answered [of ex_nm 3 1 "[]" "[JNull]" ex_nm_env "JBool True"] by auto

lemma ex_nm_env_ok: "cannot_unsettle ex_nm_env"
  by (simp add: cannot_unsettle_def ex_nm_env_def)

theorem promise_settles_once_witness:
  "settled 0 (Resolved JNull) (foldl (nm_step ex_nm_env) (ex_nm\<lparr>promises := [Resolved JNull]\<rparr>)
     [Answer 0 [], CallMethod (NativeMethod 1 1 Promise) [] [], Answer 1 []])"
  by (rule promise_settles_once [OF ex_nm_env_ok]) (simp add: settled_def js_defs)

theorem lazy_module_loads_once_witness:
  "map_of (moduleTable (ex_nm\<lparr>moduleTable := [(''A'', LazyGetter 4 False)]\<rparr>)) ''A'' = Some (LazyGetter 4 False) \<and>
   (case get_module None ''A'' (ex_nm\<lparr>moduleTable := [(''A'', LazyGetter 4 False)]\<rparr>) of
      Ret v st' \<Rightarrow> get_module (Some (\<lambda>n. Some ex_module_config)) ''A'' st' = Ret v st'
    | Throw e st' \<Rightarrow> get_module (Some (\<lambda>n. Some ex_module_config)) ''A'' st' = Ret None st')"
  using lazy_module_loads_once [of "ex_nm\<lparr>moduleTable := [(''A'', LazyGetter 4 False)]\<rparr>" "''A''" 4
    "Some (\<lambda>n. Some ex_module_config)" None] by simp

theorem genModule_binds_methods_witness:
  "\<exists>m st'. genModule (Some ex_module_config) 7 ex_nm = Ret (Some (''Timing'', Some m)) st' \<and>
     map_of m ''delete'' = Some (Method (NativeMethod 7 1 Promise))"
proof -
  obtain m st' where g: "genModule (Some ex_module_config) 7 ex_nm = Ret (Some (''Timing'', Some m)) st'"
    by (simp add: genModule_def ex_module_config_def has_prefix_def method_type_of_def listed_def arrayContains_def
        Let_def assign_constants_def)
  show ?thesis
    using genModule_binds_methods [OF g, of "[''create'', ''delete'', ''now'']" 1] g
    by (simp add: ex_module_config_def listed_def arrayContains_def)
qed

end
