(* ===== verification/Responder.thy ===== *)
theory Responder
  imports JSValue
begin

text \<open>
  The responder system of the renderer
  (\<open>Libraries/Renderer/implementations/ReactNativeRenderer-dev.js\<close>): the host tree, the
  dispatch of synthetic events, the store of touch histories, the negotiation of the one
  responder, and the entry point for the touches native code reports.

  A fiber is a value that carries its chain of \<open>return\<close> pointers.  A fiber and its
  \<open>alternate\<close> have the same key; React never moves an instance to another parent, so the
  keys along the chain do not change.  The handlers of the views are parameters of each event
  (\<open>responder_env\<close>): which views listen, what the listeners answer, and whether they stop
  the propagation.  Every call of a listener is logged; listeners do not throw.  Pooling of
  event objects is not modelled.
\<close>

section \<open>The host tree\<close>

datatype fiber =
  Fiber (fiber_key: nat) (is_alternate: bool) (isHostComponent: bool) (fiber_return: "fiber option")

fun getParent :: "fiber \<Rightarrow> fiber option" where
  "getParent (Fiber k a h r) =
     (case r of None \<Rightarrow> None | Some p \<Rightarrow> if isHostComponent p then Some p else getParent p)"

lemma getParent_size: "getParent f = Some p \<Longrightarrow> size p < size f"
proof (induction f rule: getParent.induct)
  case (1 k a h r)
  then show ?case by (cases r) (auto split: if_splits)
qed

text \<open>\<open>instA === instB || instA === instB.alternate\<close>\<close>

definition same_instance :: "fiber \<Rightarrow> fiber \<Rightarrow> bool" where
  "same_instance a b \<longleftrightarrow> fiber_key a = fiber_key b"

text \<open>The loop that counts how deep an instance is.\<close>

function depth_of :: "fiber \<Rightarrow> nat" where
  "depth_of f = Suc (case getParent f of None \<Rightarrow> 0 | Some p \<Rightarrow> depth_of p)"
  by pat_completeness auto
termination by (relation "measure size") (auto simp: getParent_size)

fun climb :: "nat \<Rightarrow> fiber option \<Rightarrow> fiber option" where
  "climb 0 x = x"
| "climb (Suc n) x = climb n (case x of None \<Rightarrow> None | Some f \<Rightarrow> getParent f)"

fun lockstep :: "nat \<Rightarrow> fiber option \<Rightarrow> fiber option \<Rightarrow> fiber option" where
  "lockstep 0 a b = None"
| "lockstep (Suc n) a b =
     (case (a, b) of
        (Some x, Some y) \<Rightarrow> if same_instance x y then Some x else lockstep n (getParent x) (getParent y)
      | _ \<Rightarrow> None)"

definition getLowestCommonAncestor :: "fiber \<Rightarrow> fiber \<Rightarrow> fiber option" where
  "getLowestCommonAncestor instA instB =
     (let depthA = depth_of instA; depthB = depth_of instB
      in lockstep (min depthA depthB) (climb (depthA - depthB) (Some instA)) (climb (depthB - depthA) (Some instB)))"

function isAncestor :: "fiber \<Rightarrow> fiber \<Rightarrow> bool" where
  "isAncestor a b \<longleftrightarrow> same_instance a b \<or> (case getParent b of None \<Rightarrow> False | Some p \<Rightarrow> isAncestor a p)"
  by pat_completeness auto
termination by (relation "measure (\<lambda>(a, b). size b)") (auto simp: getParent_size)

text \<open>The path that \<open>traverseTwoPhase\<close> collects.\<close>

function host_path :: "fiber \<Rightarrow> fiber list" where
  "host_path f = f # (case getParent f of None \<Rightarrow> [] | Some p \<Rightarrow> host_path p)"
  by pat_completeness auto
termination by (relation "measure size") (auto simp: getParent_size)

declare depth_of.simps [simp del] isAncestor.simps [simp del] host_path.simps [simp del]

section \<open>Listeners and dispatches\<close>

datatype should_set = StartShouldSet | MoveShouldSet | SelectionChangeShouldSet | ScrollShouldSet

datatype registration =
    ShouldSet should_set bool
  | ResponderStart | ResponderMove | ResponderEnd | ResponderRelease
  | ResponderTerminationRequest | ResponderGrant | ResponderReject | ResponderTerminate

record responder_env =
  has_listener :: "fiber \<Rightarrow> registration \<Rightarrow> bool"
  answers :: "fiber \<Rightarrow> registration \<Rightarrow> bool"
  stops_propagation :: "fiber \<Rightarrow> registration \<Rightarrow> bool"
  instance_of_node :: "int \<Rightarrow> fiber option"

record synthetic_event =
  ev_name :: registration
  ev_dispatch :: "fiber option"

record touch_record =
  touchActive :: bool
  startPageX :: real
  startPageY :: real
  startTimeStamp :: real
  currentPageX :: real
  currentPageY :: real
  currentTimeStamp :: real
  previousPageX :: real
  previousPageY :: real
  previousTimeStamp :: real

record touch_history =
  touchBank :: "touch_record option list"
  numberActiveTouches :: nat
  indexOfSingleActiveTouch :: int
  mostRecentTimeStamp :: real

datatype responder_call = SetJSResponder nat bool | ClearJSResponder | RendererError string

record responder_system =
  responderInst :: "fiber option"
  trackedTouchCount :: int
  touchHistory :: touch_history
  rs_log :: "(registration \<times> fiber) list"
  rs_native :: "responder_call list"

definition new_responder_system :: responder_system where
  "new_responder_system =
     \<lparr>responderInst = None, trackedTouchCount = 0,
      touchHistory = \<lparr>touchBank = [], numberActiveTouches = 0, indexOfSingleActiveTouch = -1, mostRecentTimeStamp = 0\<rparr>,
      rs_log = [], rs_native = []\<rparr>"

definition call_listener :: "registration \<Rightarrow> fiber \<Rightarrow> responder_system \<Rightarrow> responder_system" where
  "call_listener reg f st = st\<lparr>rs_log := rs_log st @ [(reg, f)]\<rparr>"

definition renderer_error :: "string \<Rightarrow> responder_system \<Rightarrow> responder_system" where
  "renderer_error msg st = st\<lparr>rs_native := rs_native st @ [RendererError msg]\<rparr>"

text \<open>\<open>accumulateDirectDispatches\<close> on a new event for \<open>inst\<close>.\<close>

definition direct_event :: "responder_env \<Rightarrow> registration \<Rightarrow> fiber \<Rightarrow> synthetic_event" where
  "direct_event env reg inst =
     \<lparr>ev_name = reg, ev_dispatch = (if has_listener env inst reg then Some inst else None)\<rparr>"

definition hasDispatches :: "synthetic_event \<Rightarrow> bool" where
  "hasDispatches ev \<longleftrightarrow> ev_dispatch ev \<noteq> None"

text \<open>The result of the listener, the event without its dispatch, and the state.\<close>

definition executeDirectDispatch ::
  "responder_env \<Rightarrow> synthetic_event \<Rightarrow> responder_system \<Rightarrow> bool \<times> synthetic_event \<times> responder_system" where
  "executeDirectDispatch env ev st =
     (case ev_dispatch ev of
        None \<Rightarrow> (False, ev, st)
      | Some f \<Rightarrow> (answers env f (ev_name ev), ev\<lparr>ev_dispatch := None\<rparr>, call_listener (ev_name ev) f st))"

text \<open>
  \<open>traverseTwoPhase\<close> with \<open>accumulateDirectionalDispatches\<close>: the listeners of the capture
  phase from the root down, then those of the bubble phase.
\<close>

definition two_phase_dispatches :: "responder_env \<Rightarrow> should_set \<Rightarrow> fiber option \<Rightarrow> (bool \<times> fiber) list" where
  "two_phase_dispatches env kind start =
     (let path = (case start of None \<Rightarrow> [] | Some f \<Rightarrow> host_path f)
      in filter (\<lambda>(captured, f). has_listener env f (ShouldSet kind captured))
           (map (Pair True) (rev path) @ map (Pair False) path))"

fun executeDispatchesInOrderStopAtTrue ::
  "responder_env \<Rightarrow> should_set \<Rightarrow> (bool \<times> fiber) list \<Rightarrow> responder_system \<Rightarrow> fiber option \<times> responder_system" where
  "executeDispatchesInOrderStopAtTrue env kind [] st = (None, st)"
| "executeDispatchesInOrderStopAtTrue env kind ((captured, f) # ds) st =
     (let reg = ShouldSet kind captured; st1 = call_listener reg f st
      in if answers env f reg then (Some f, st1)
         else if stops_propagation env f reg then (None, st1)
         else executeDispatchesInOrderStopAtTrue env kind ds st1)"

text \<open>\<open>executeDispatchesInOrder\<close> for the events of the plugin, which have at most one dispatch.\<close>

definition executeDispatchesInOrder :: "synthetic_event \<Rightarrow> responder_system \<Rightarrow> responder_system" where
  "executeDispatchesInOrder ev st =
     (case ev_dispatch ev of None \<Rightarrow> st | Some f \<Rightarrow> call_listener (ev_name ev) f st)"

definition runEventsInBatch :: "synthetic_event list \<Rightarrow> responder_system \<Rightarrow> responder_system" where
  "runEventsInBatch evs st = fold executeDispatchesInOrder evs st"

section \<open>The store of touch histories\<close>

record touch =
  touch_identifier :: "nat option"
  pageX :: real
  pageY :: real
  timeStamp :: "real option"
  timestamp :: real
  touch_target :: "int option"

datatype top_level_type = TopTouchStart | TopTouchMove | TopTouchEnd | TopTouchCancel | TopScroll | TopSelectionChange | TopOther

definition isStartish :: "top_level_type \<Rightarrow> bool" where "isStartish ty \<longleftrightarrow> ty = TopTouchStart"

definition isMoveish :: "top_level_type \<Rightarrow> bool" where "isMoveish ty \<longleftrightarrow> ty = TopTouchMove"

definition isEndish :: "top_level_type \<Rightarrow> bool" where "isEndish ty \<longleftrightarrow> ty = TopTouchEnd \<or> ty = TopTouchCancel"

definition MAX_TOUCH_BANK :: nat where "MAX_TOUCH_BANK = 20"

text \<open>\<open>touch.timeStamp || touch.timestamp\<close>\<close>

definition timestampForTouch :: "touch \<Rightarrow> real" where
  "timestampForTouch t = (case timeStamp t of Some x \<Rightarrow> if x \<noteq> 0 then x else timestamp t | None \<Rightarrow> timestamp t)"

definition createTouchRecord :: "touch \<Rightarrow> touch_record" where
  "createTouchRecord t =
     \<lparr>touchActive = True, startPageX = pageX t, startPageY = pageY t, startTimeStamp = timestampForTouch t,
      currentPageX = pageX t, currentPageY = pageY t, currentTimeStamp = timestampForTouch t,
      previousPageX = pageX t, previousPageY = pageY t, previousTimeStamp = timestampForTouch t\<rparr>"

definition resetTouchRecord :: "touch_record \<Rightarrow> touch \<Rightarrow> touch_record" where
  "resetTouchRecord r t =
     r\<lparr>touchActive := True, startPageX := pageX t, startPageY := pageY t, startTimeStamp := timestampForTouch t,
       currentPageX := pageX t, currentPageY := pageY t, currentTimeStamp := timestampForTouch t,
       previousPageX := pageX t, previousPageY := pageY t, previousTimeStamp := timestampForTouch t\<rparr>"

text \<open>What \<open>recordTouchMove\<close> and \<open>recordTouchEnd\<close> do to a record.\<close>

definition shiftTouchRecord :: "bool \<Rightarrow> touch_record \<Rightarrow> touch \<Rightarrow> touch_record" where
  "shiftTouchRecord active r t =
     r\<lparr>touchActive := active, previousPageX := currentPageX r, previousPageY := currentPageY r,
       previousTimeStamp := currentTimeStamp r, currentPageX := pageX t, currentPageY := pageY t,
       currentTimeStamp := timestampForTouch t\<rparr>"

type_synonym 'a responder_result = "(js_exn, responder_system, 'a) outcome"

definition getTouchIdentifier :: "touch \<Rightarrow> responder_system \<Rightarrow> nat responder_result" where
  "getTouchIdentifier t st =
     (case touch_identifier t of
        None \<Rightarrow> Throw (JsError ''Touch object is missing identifier.'') st
      | Some i \<Rightarrow>
          Ret i (if i > MAX_TOUCH_BANK
                 then renderer_error ''Touch identifier is greater than maximum supported'' st else st))"

text \<open>Reading and writing an entry of the bank, a sparse array.\<close>

definition bank_at :: "touch_record option list \<Rightarrow> nat \<Rightarrow> touch_record option" where
  "bank_at bank i = (if i < length bank then bank ! i else None)"

definition bank_set :: "nat \<Rightarrow> touch_record \<Rightarrow> touch_record option list \<Rightarrow> touch_record option list" where
  "bank_set i r bank = (bank @ replicate (Suc i - length bank) None)[i := Some r]"

definition put_record :: "nat \<Rightarrow> touch_record \<Rightarrow> touch \<Rightarrow> responder_system \<Rightarrow> responder_system" where
  "put_record i r t st =
     st\<lparr>touchHistory := (touchHistory st)\<lparr>touchBank := bank_set i r (touchBank (touchHistory st)),
                                             mostRecentTimeStamp := timestampForTouch t\<rparr>\<rparr>"

definition recordTouchStart :: "touch \<Rightarrow> responder_system \<Rightarrow> unit responder_result" where
  "recordTouchStart t st =
     and_then (getTouchIdentifier t st) (\<lambda>i st1.
       Ret () (put_record i
         (case bank_at (touchBank (touchHistory st1)) i of
            Some r \<Rightarrow> resetTouchRecord r t | None \<Rightarrow> createTouchRecord t) t st1))"

definition recordTouchMove :: "touch \<Rightarrow> responder_system \<Rightarrow> unit responder_result" where
  "recordTouchMove t st =
     and_then (getTouchIdentifier t st) (\<lambda>i st1.
       case bank_at (touchBank (touchHistory st1)) i of
         Some r \<Rightarrow> Ret () (put_record i (shiftTouchRecord True r t) t st1)
       | None \<Rightarrow> Ret () (renderer_error ''Cannot record touch move without a touch start.'' st1))"

definition recordTouchEnd :: "touch \<Rightarrow> responder_system \<Rightarrow> unit responder_result" where
  "recordTouchEnd t st =
     and_then (getTouchIdentifier t st) (\<lambda>i st1.
       case bank_at (touchBank (touchHistory st1)) i of
         Some r \<Rightarrow> Ret () (put_record i (shiftTouchRecord False r t) t st1)
       | None \<Rightarrow> Ret () (renderer_error ''Cannot record touch end without a touch start.'' st1))"

fun record_each ::
  "(touch \<Rightarrow> responder_system \<Rightarrow> unit responder_result) \<Rightarrow> touch option list \<Rightarrow> responder_system \<Rightarrow> unit responder_result" where
  "record_each f [] st = Ret () st"
| "record_each f (None # ts) st = Throw (TypeError ''undefined is not an object'') st"
| "record_each f (Some t # ts) st = and_then (f t st) (\<lambda>_. record_each f ts)"

definition is_active :: "touch_record option \<Rightarrow> bool" where
  "is_active r \<longleftrightarrow> (case r of None \<Rightarrow> False | Some t \<Rightarrow> touchActive t)"

text \<open>The loop that looks for the remaining active touch, from index \<open>i\<close> on.\<close>

fun find_active :: "nat \<Rightarrow> touch_record option list \<Rightarrow> nat option" where
  "find_active i [] = None"
| "find_active i (r # rs) = (if is_active r then Some i else find_active (Suc i) rs)"

definition bank_int :: "touch_record option list \<Rightarrow> int \<Rightarrow> touch_record option" where
  "bank_int bank i = (if 0 \<le> i then bank_at bank (nat i) else None)"

record native_touch_event =
  changedTouches :: "touch option list"
  touches :: "touch list"
  responderIgnoreScroll :: bool

definition count_touches :: "native_touch_event \<Rightarrow> responder_system \<Rightarrow> responder_system" where
  "count_touches ne st = st\<lparr>touchHistory := (touchHistory st)\<lparr>numberActiveTouches := length (touches ne)\<rparr>\<rparr>"

definition set_single :: "int \<Rightarrow> responder_system \<Rightarrow> responder_system" where
  "set_single i st = st\<lparr>touchHistory := (touchHistory st)\<lparr>indexOfSingleActiveTouch := i\<rparr>\<rparr>"

text \<open>An undefined index, like \<open>-1\<close>, reads nothing from the bank.\<close>

definition after_start :: "native_touch_event \<Rightarrow> responder_system \<Rightarrow> responder_system" where
  "after_start ne st =
     (let st1 = count_touches ne st
      in case touches ne of
           [t] \<Rightarrow> (case touch_identifier t of Some i \<Rightarrow> set_single (int i) st1 | None \<Rightarrow> set_single (-1) st1)
         | _ \<Rightarrow> st1)"

definition after_end :: "native_touch_event \<Rightarrow> responder_system \<Rightarrow> responder_system" where
  "after_end ne st =
     (let st1 = count_touches ne st
      in if length (touches ne) = 1
         then (let st2 = (case find_active 0 (touchBank (touchHistory st1)) of
                            Some i \<Rightarrow> set_single (int i) st1 | None \<Rightarrow> st1);
                   h = touchHistory st2
               in if is_active (bank_int (touchBank h) (indexOfSingleActiveTouch h)) then st2
                  else renderer_error ''Cannot find single active touch.'' st2)
         else st1)"

definition recordTouchTrack :: "top_level_type \<Rightarrow> native_touch_event \<Rightarrow> responder_system \<Rightarrow> unit responder_result" where
  "recordTouchTrack ty ne st =
     (if isMoveish ty then record_each recordTouchMove (changedTouches ne) st
      else if isStartish ty
      then and_then (record_each recordTouchStart (changedTouches ne) st) (\<lambda>_ st1. Ret () (after_start ne st1))
      else if isEndish ty
      then and_then (record_each recordTouchEnd (changedTouches ne) st) (\<lambda>_ st1. Ret () (after_end ne st1))
      else Ret () st)"

section \<open>The negotiation of the responder\<close>

definition changeResponder :: "fiber option \<Rightarrow> bool \<Rightarrow> responder_system \<Rightarrow> responder_system" where
  "changeResponder nextInst blockHostResponder st =
     st\<lparr>responderInst := nextInst,
        rs_native := rs_native st @
          [case nextInst of Some f \<Rightarrow> SetJSResponder (fiber_key f) blockHostResponder | None \<Rightarrow> ClearJSResponder]\<rparr>"

definition should_set_kind :: "top_level_type \<Rightarrow> should_set" where
  "should_set_kind ty =
     (if isStartish ty then StartShouldSet else if isMoveish ty then MoveShouldSet
      else if ty = TopSelectionChange then SelectionChangeShouldSet else ScrollShouldSet)"

text \<open>Where the negotiation starts, and whether the first view is skipped.\<close>

definition bubble_start :: "fiber option \<Rightarrow> fiber \<Rightarrow> fiber option" where
  "bubble_start responder target =
     (case responder of None \<Rightarrow> Some target | Some r \<Rightarrow> getLowestCommonAncestor r target)"

definition should_set_dispatches :: "responder_env \<Rightarrow> should_set \<Rightarrow> fiber option \<Rightarrow> fiber \<Rightarrow> (bool \<times> fiber) list" where
  "should_set_dispatches env kind responder target =
     (let from = bubble_start responder target
      in if from = responder
         then two_phase_dispatches env kind (case from of None \<Rightarrow> None | Some f \<Rightarrow> getParent f)
         else two_phase_dispatches env kind from)"

text \<open>The hand-over once a view wants to become the responder.\<close>

definition negotiate ::
  "responder_env \<Rightarrow> fiber \<Rightarrow> responder_system \<Rightarrow> synthetic_event list \<times> responder_system" where
  "negotiate env wants st =
     (case executeDirectDispatch env (direct_event env ResponderGrant wants) st of
        (blockHostResponder, grantEvent, st1) \<Rightarrow>
          (case responderInst st1 of
             None \<Rightarrow> ([grantEvent], changeResponder (Some wants) blockHostResponder st1)
           | Some old \<Rightarrow>
               let request = direct_event env ResponderTerminationRequest old
               in (case (if hasDispatches request then executeDirectDispatch env request st1 else (True, request, st1)) of
                     (shouldSwitch, _, st2) \<Rightarrow>
                       if shouldSwitch
                       then ([grantEvent, direct_event env ResponderTerminate old],
                             changeResponder (Some wants) blockHostResponder st2)
                       else ([direct_event env ResponderReject wants], st2))))"

definition setResponderAndExtractTransfer ::
  "responder_env \<Rightarrow> top_level_type \<Rightarrow> fiber \<Rightarrow> responder_system \<Rightarrow> synthetic_event list \<times> responder_system" where
  "setResponderAndExtractTransfer env ty target st =
     (let kind = should_set_kind ty
      in case executeDispatchesInOrderStopAtTrue env kind
                (should_set_dispatches env kind (responderInst st) target) st of
           (None, st1) \<Rightarrow> ([], st1)
         | (Some wants, st1) \<Rightarrow> if Some wants = responderInst st1 then ([], st1) else negotiate env wants st1)"

definition canTriggerTransfer :: "top_level_type \<Rightarrow> fiber option \<Rightarrow> native_touch_event \<Rightarrow> responder_system \<Rightarrow> bool" where
  "canTriggerTransfer ty inst ne st \<longleftrightarrow>
     inst \<noteq> None \<and>
     ((ty = TopScroll \<and> \<not> responderIgnoreScroll ne) \<or> (trackedTouchCount st > 0 \<and> ty = TopSelectionChange) \<or>
      isStartish ty \<or> isMoveish ty)"

fun noResponderTouches :: "responder_env \<Rightarrow> fiber \<Rightarrow> touch list \<Rightarrow> bool" where
  "noResponderTouches env r [] = True"
| "noResponderTouches env r (t # ts) =
     (case touch_target t of
        None \<Rightarrow> noResponderTouches env r ts
      | Some node \<Rightarrow>
          if node = 0 then noResponderTouches env r ts
          else (case instance_of_node env node of
                  Some inst \<Rightarrow> if isAncestor r inst then False else noResponderTouches env r ts
                | None \<Rightarrow> noResponderTouches env r ts))"

definition incremental_touch :: "top_level_type \<Rightarrow> registration option" where
  "incremental_touch ty =
     (if isStartish ty then Some ResponderStart else if isMoveish ty then Some ResponderMove
      else if isEndish ty then Some ResponderEnd else None)"

definition final_touch :: "responder_env \<Rightarrow> top_level_type \<Rightarrow> native_touch_event \<Rightarrow> fiber \<Rightarrow> registration option" where
  "final_touch env ty ne r =
     (if ty = TopTouchCancel then Some ResponderTerminate
      else if isEndish ty \<and> noResponderTouches env r (touches ne) then Some ResponderRelease
      else None)"

definition track_touch_count :: "top_level_type \<Rightarrow> responder_system \<Rightarrow> bool \<times> responder_system" where
  "track_touch_count ty st =
     (if isStartish ty then (True, st\<lparr>trackedTouchCount := trackedTouchCount st + 1\<rparr>)
      else if isEndish ty
      then (if trackedTouchCount st \<ge> 0 then (True, st\<lparr>trackedTouchCount := trackedTouchCount st - 1\<rparr>)
            else (False, renderer_error ''Ended a touch event which was not counted'' st))
      else (True, st))"

text \<open>The events for the responder, and its release.\<close>

definition responder_events ::
  "responder_env \<Rightarrow> top_level_type \<Rightarrow> native_touch_event \<Rightarrow> responder_system \<Rightarrow> synthetic_event list \<times> responder_system" where
  "responder_events env ty ne st =
     (case responderInst st of
        None \<Rightarrow> ([], st)
      | Some r \<Rightarrow>
          let incremental = (case incremental_touch ty of None \<Rightarrow> [] | Some reg \<Rightarrow> [direct_event env reg r])
          in case final_touch env ty ne r of
               None \<Rightarrow> (incremental, st)
             | Some reg \<Rightarrow> (incremental @ [direct_event env reg r], changeResponder None False st))"

definition extractEvents ::
  "responder_env \<Rightarrow> top_level_type \<Rightarrow> fiber option \<Rightarrow> native_touch_event \<Rightarrow> responder_system \<Rightarrow>
   synthetic_event list responder_result" where
  "extractEvents env ty target ne st =
     (case track_touch_count ty st of
        (False, st1) \<Rightarrow> Ret [] st1
      | (True, st1) \<Rightarrow>
          and_then (recordTouchTrack ty ne st1) (\<lambda>_ st2.
            case (if canTriggerTransfer ty target ne st2
                  then setResponderAndExtractTransfer env ty (the target) st2 else ([], st2)) of
              (transfer, st3) \<Rightarrow>
                (case responder_events env ty ne st3 of (evs, st4) \<Rightarrow> Ret (transfer @ evs) st4)))"

text \<open>\<open>_receiveRootNodeIDEvent\<close>: the events of the plugin are extracted and then dispatched.\<close>

definition receiveRootNodeIDEvent ::
  "responder_env \<Rightarrow> int option \<Rightarrow> top_level_type \<Rightarrow> native_touch_event \<Rightarrow> responder_system \<Rightarrow> unit responder_result" where
  "receiveRootNodeIDEvent env rootNodeID ty ne st =
     and_then (extractEvents env ty (case rootNodeID of None \<Rightarrow> None | Some n \<Rightarrow> instance_of_node env n) ne st)
       (\<lambda>evs st1. Ret () (runEventsInBatch evs st1))"

section \<open>Touches reported by native code\<close>

definition touchSubsequence :: "touch list \<Rightarrow> nat list \<Rightarrow> touch option list" where
  "touchSubsequence ts indices = map (array_get ts) indices"

text \<open>The removed touches, and the array after it has been compacted in place.\<close>

fun rip_out :: "nat list \<Rightarrow> touch option list \<Rightarrow> touch option list \<times> touch option list" where
  "rip_out [] temp = ([], temp)"
| "rip_out (i # ixs) temp =
     (case rip_out ixs (temp[i := None]) of
        (out, temp') \<Rightarrow> ((if i < length temp then temp ! i else None) # out, temp'))"

definition removeTouchesAtIndices :: "touch list \<Rightarrow> nat list \<Rightarrow> touch option list \<times> touch list" where
  "removeTouchesAtIndices ts indices =
     (case rip_out indices (map Some ts) of (out, temp) \<Rightarrow> (out, present temp))"

text \<open>One event per changed touch; a missing touch makes the assignment to it throw.\<close>

fun receive_each ::
  "responder_env \<Rightarrow> top_level_type \<Rightarrow> touch list \<Rightarrow> touch option list \<Rightarrow> touch option list \<Rightarrow>
   responder_system \<Rightarrow> unit responder_result" where
  "receive_each env ty ts changed [] st = Ret () st"
| "receive_each env ty ts changed (None # rest) st = Throw (TypeError ''undefined is not an object'') st"
| "receive_each env ty ts changed (Some t # rest) st =
     (let rootNodeID = (case touch_target t of None \<Rightarrow> None | Some n \<Rightarrow> if n < 1 then None else Some n);
          st1 = (case touch_target t of
                   Some n \<Rightarrow> if n < 1 then renderer_error ''A view is reporting that a touch occurred on tag zero.'' st else st
                 | None \<Rightarrow> st)
      in and_then
           (receiveRootNodeIDEvent env rootNodeID ty
              \<lparr>changedTouches = changed, touches = ts, responderIgnoreScroll = False\<rparr> st1)
           (\<lambda>_. receive_each env ty ts changed rest))"

definition receiveTouches ::
  "responder_env \<Rightarrow> top_level_type \<Rightarrow> touch list \<Rightarrow> nat list \<Rightarrow> responder_system \<Rightarrow> unit responder_result" where
  "receiveTouches env ty ts changedIndices st =
     (case (if isEndish ty then removeTouchesAtIndices ts changedIndices
            else (touchSubsequence ts changedIndices, ts)) of
        (changed, ts') \<Rightarrow> receive_each env ty ts' changed changed st)"

section \<open>Paths in the host tree\<close>

lemma host_path_self [simp]: "f \<in> set (host_path f)" "host_path f \<noteq> []"
  by (subst host_path.simps, simp)+

lemma host_path_parent: "getParent f = Some p \<Longrightarrow> host_path f = f # host_path p"
  by (subst host_path.simps) simp

lemma host_path_root: "getParent f = None \<Longrightarrow> host_path f = [f]"
  by (subst host_path.simps) simp

lemma tl_host_path: "tl (host_path f) = (case getParent f of None \<Rightarrow> [] | Some p \<Rightarrow> host_path p)"
  by (subst host_path.simps) simp

lemma host_path_trans: "x \<in> set (host_path f) \<Longrightarrow> set (host_path x) \<subseteq> set (host_path f)"
proof (induction f rule: host_path.induct)
  case (1 f)
  show ?case
  proof (cases "getParent f")
    case None
    with "1.prems" show ?thesis by (simp add: host_path_root)
  next
    case (Some p)
    with "1.prems" have "x = f \<or> x \<in> set (host_path p)" by (simp add: host_path_parent)
    with "1.IH" [OF Some] Some show ?thesis by (auto simp: host_path_parent)
  qed
qed

lemma host_path_size: "x \<in> set (host_path f) \<Longrightarrow> x = f \<or> size x < size f"
proof (induction f rule: host_path.induct)
  case (1 f)
  show ?case
  proof (cases "getParent f")
    case None
    with "1.prems" show ?thesis by (simp add: host_path_root)
  next
    case (Some p)
    with "1.prems" have "x = f \<or> x \<in> set (host_path p)" by (simp add: host_path_parent)
    with "1.IH" [OF Some] getParent_size [OF Some] show ?thesis by auto
  qed
qed

lemma ancestor_not_self: "f \<notin> set (tl (host_path f))"
proof
  assume "f \<in> set (tl (host_path f))"
  then obtain p where p: "getParent f = Some p" and f: "f \<in> set (host_path p)"
    by (cases "getParent f") (auto simp: tl_host_path)
  from host_path_size [OF f] getParent_size [OF p] show False by auto
qed

lemma host_path_split: "x \<in> set (host_path f) \<Longrightarrow> x \<noteq> f \<Longrightarrow> x \<in> set (tl (host_path f))"
  by (subst (asm) host_path.simps) (simp add: tl_host_path)

lemma climb_None [simp]: "climb n None = None"
  by (induction n) simp_all

lemma climb_in_path: "climb n (Some f) = Some x \<Longrightarrow> x \<in> set (host_path f)"
proof (induction n arbitrary: f)
  case (Suc n)
  then obtain p where p: "getParent f = Some p" "climb n (Some p) = Some x"
    by (cases "getParent f") simp_all
  with Suc.IH [of p] show ?case by (simp add: host_path_parent)
qed simp

lemma lockstep_in_path: "lockstep n (Some f) b = Some x \<Longrightarrow> x \<in> set (host_path f)"
proof (induction n arbitrary: f b)
  case (Suc n)
  show ?case
  proof (cases "getParent f")
    case None
    with Suc.prems have "x = f" by (cases n) (auto split: option.splits if_splits)
    then show ?thesis by simp
  next
    case (Some p)
    with Suc show ?thesis by (auto simp: host_path_parent split: option.splits if_splits)
  qed
qed simp

lemma lowest_common_ancestor_in_path:
  assumes "getLowestCommonAncestor a b = Some x"
  shows "x \<in> set (host_path a)"
proof -
  obtain c where c: "climb (depth_of a - depth_of b) (Some a) = Some c"
    using assms by (cases "climb (depth_of a - depth_of b) (Some a)"; cases "min (depth_of a) (depth_of b)")
      (simp_all add: getLowestCommonAncestor_def Let_def)
  with assms have "x \<in> set (host_path c)"
    by (auto simp: getLowestCommonAncestor_def Let_def intro: lockstep_in_path)
  with climb_in_path [OF c] show ?thesis by (meson host_path_trans subsetD)
qed

text \<open>With a responder, only its proper ancestors are asked.\<close>

lemma two_phase_in_path:
  "d \<in> set (two_phase_dispatches env kind (Some f)) \<Longrightarrow> snd d \<in> set (host_path f)"
  by (auto simp: two_phase_dispatches_def Let_def)

lemma two_phase_None [simp]: "two_phase_dispatches env kind None = []"
  by (simp add: two_phase_dispatches_def)

lemma asked_are_ancestors:
  assumes "d \<in> set (should_set_dispatches env kind (Some r) target)"
  shows "snd d \<in> set (tl (host_path r))"
proof (cases "getLowestCommonAncestor r target")
  case None
  with assms show ?thesis by (simp add: should_set_dispatches_def bubble_start_def Let_def)
next
  case (Some x)
  note x = lowest_common_ancestor_in_path [OF Some]
  show ?thesis
  proof (cases "x = r")
    case True
    with assms Some have "d \<in> set (two_phase_dispatches env kind (getParent r))"
      by (simp add: should_set_dispatches_def bubble_start_def Let_def)
    then show ?thesis
      by (cases "getParent r") (auto simp: tl_host_path dest: two_phase_in_path)
  next
    case False
    with assms Some have "snd d \<in> set (host_path x)"
      by (auto simp: should_set_dispatches_def bubble_start_def Let_def dest: two_phase_in_path)
    moreover have "x \<in> set (tl (host_path r))" by (rule host_path_split [OF x False])
    ultimately show ?thesis
      by (auto simp: tl_host_path split: option.splits dest: host_path_trans)
  qed
qed

section \<open>The responder lock\<close>

text \<open>
  A monitor of the calls one view receives, where \<open>held\<close> says that it has the lock: a grant
  takes it, a rejection, release or termination gives it back, and everything else
  the responder is told requires it.  A strict monitor also refuses a second grant.
\<close>

fun monitor :: "bool \<Rightarrow> fiber \<Rightarrow> bool \<Rightarrow> (registration \<times> fiber) list \<Rightarrow> bool option" where
  "monitor strict f held [] = Some held"
| "monitor strict f held ((reg, g) # calls) =
     (if g \<noteq> f then monitor strict f held calls
      else case reg of
             ShouldSet _ _ \<Rightarrow> monitor strict f held calls
           | ResponderGrant \<Rightarrow> if strict \<and> held then None else monitor strict f True calls
           | ResponderReject \<Rightarrow> if held then monitor strict f False calls else None
           | ResponderRelease \<Rightarrow> if held then monitor strict f False calls else None
           | ResponderTerminate \<Rightarrow> if held then monitor strict f False calls else None
           | _ \<Rightarrow> if held then monitor strict f True calls else None)"

definition listens :: "bool \<Rightarrow> fiber \<Rightarrow> responder_env \<Rightarrow> bool" where
  "listens strict f env \<longleftrightarrow> has_listener env f ResponderGrant \<and>
     (strict \<longrightarrow> has_listener env f ResponderReject \<and> has_listener env f ResponderRelease \<and>
                has_listener env f ResponderTerminate)"

text \<open>The log of a view agrees with the variable \<open>responderInst\<close>.\<close>

definition lock_ok :: "bool \<Rightarrow> fiber \<Rightarrow> (registration \<times> fiber) list \<Rightarrow> fiber option \<Rightarrow> bool" where
  "lock_ok strict f calls r \<longleftrightarrow>
     (\<exists>h. monitor strict f False calls = Some h \<and> (r = Some f \<longrightarrow> h) \<and> (strict \<and> h \<longrightarrow> r = Some f))"

lemma monitor_append:
  "monitor s f h (xs @ ys) = (case monitor s f h xs of None \<Rightarrow> None | Some h' \<Rightarrow> monitor s f h' ys)"
  by (induction s f h xs rule: monitor.induct) (auto split: registration.split)

definition dispatched :: "synthetic_event list \<Rightarrow> (registration \<times> fiber) list" where
  "dispatched evs = concat (map (\<lambda>e. case ev_dispatch e of None \<Rightarrow> [] | Some f \<Rightarrow> [(ev_name e, f)]) evs)"

lemma dispatched_simps [simp]:
  "dispatched [] = []" "dispatched (xs @ ys) = dispatched xs @ dispatched ys"
  "dispatched (e # es) = (case ev_dispatch e of None \<Rightarrow> [] | Some f \<Rightarrow> [(ev_name e, f)]) @ dispatched es"
  by (simp_all add: dispatched_def)

lemma direct_event_simps [simp]:
  "ev_name (direct_event env reg g) = reg"
  "ev_dispatch (direct_event env reg g) = (if has_listener env g reg then Some g else None)"
  by (simp_all add: direct_event_def)

lemma call_listener_simps [simp]:
  "rs_log (call_listener reg f st) = rs_log st @ [(reg, f)]"
  "responderInst (call_listener reg f st) = responderInst st" "rs_native (call_listener reg f st) = rs_native st"
  by (simp_all add: call_listener_def)

lemma runEventsInBatch_frame [simp]:
  "rs_log (runEventsInBatch evs st) = rs_log st @ dispatched evs"
  "responderInst (runEventsInBatch evs st) = responderInst st"
  "rs_native (runEventsInBatch evs st) = rs_native st"
  unfolding runEventsInBatch_def
  by (induction evs arbitrary: st) (auto simp: executeDispatchesInOrder_def split: option.split)

lemma changeResponder_simps [simp]:
  "rs_log (changeResponder n b st) = rs_log st" "responderInst (changeResponder n b st) = n"
  by (simp_all add: changeResponder_def)

text \<open>Asking the views who wants the lock changes nothing but the log, and the monitors ignore it.\<close>

lemma ask_frame:
  assumes "executeDispatchesInOrderStopAtTrue env kind ds st = (w, st')"
  shows "responderInst st' = responderInst st" "rs_native st' = rs_native st"
    "monitor s f h (rs_log st') = monitor s f h (rs_log st)"
    "w = Some x \<Longrightarrow> x \<in> snd ` set ds"
proof -
  have *: "responderInst st' = responderInst st \<and> rs_native st' = rs_native st \<and>
    monitor s f h (rs_log st') = monitor s f h (rs_log st) \<and> (w = Some x \<longrightarrow> x \<in> snd ` set ds)"
    using assms
  proof (induction ds arbitrary: st)
    case (Cons d ds)
    obtain c g where d: "d = (c, g)" by (cases d)
    let ?st = "call_listener (ShouldSet kind c) g st"
    have m: "monitor s f h (rs_log ?st) = monitor s f h (rs_log st)"
      by (simp add: monitor_append split: option.split)
    show ?case
    proof (cases "answers env g (ShouldSet kind c) \<or> stops_propagation env g (ShouldSet kind c)")
      case True
      with Cons.prems d m show ?thesis by (auto simp: Let_def simp del: call_listener_simps(1) split: if_splits)
    next
      case False
      with Cons.prems d have "executeDispatchesInOrderStopAtTrue env kind ds ?st = (w, st')" by (simp add: Let_def)
      from Cons.IH [OF this] m d show ?thesis by auto
    qed
  qed simp
  then show "responderInst st' = responderInst st" "rs_native st' = rs_native st"
    "monitor s f h (rs_log st') = monitor s f h (rs_log st)" "w = Some x \<Longrightarrow> x \<in> snd ` set ds"
    by blast+
qed

lemma negotiate_ok:
  assumes "lock_ok s f (rs_log st) (responderInst st)" and "responderInst st \<noteq> Some wants" and "listens s f env"
    and "negotiate env wants st = (evs, st')"
  shows "lock_ok s f (rs_log st' @ dispatched evs) (responderInst st')"
  using assms
  by (cases "responderInst st")
    (auto simp: negotiate_def executeDirectDispatch_def hasDispatches_def lock_ok_def listens_def monitor_append Let_def
      split: if_splits option.splits prod.splits)

lemma transfer_ok:
  assumes "lock_ok s f (rs_log st) (responderInst st)" and "listens s f env"
    and "setResponderAndExtractTransfer env ty target st = (evs, st')"
  shows "lock_ok s f (rs_log st' @ dispatched evs) (responderInst st')"
proof -
  let ?ds = "should_set_dispatches env (should_set_kind ty) (responderInst st) target"
  obtain w st1 where w: "executeDispatchesInOrderStopAtTrue env (should_set_kind ty) ?ds st = (w, st1)"
    by (cases "executeDispatchesInOrderStopAtTrue env (should_set_kind ty) ?ds st")
  have l: "lock_ok s f (rs_log st1) (responderInst st1)"
    using assms(1) ask_frame(1,3) [OF w] by (simp add: lock_ok_def)
  show ?thesis
  proof (cases "w = None \<or> w = responderInst st1")
    case True
    with assms(3) w l show ?thesis
      by (auto simp: setResponderAndExtractTransfer_def Let_def split: option.splits if_splits)
  next
    case False
    with assms(3) w obtain x where "negotiate env x st1 = (evs, st')" "responderInst st1 \<noteq> Some x"
      by (auto simp: setResponderAndExtractTransfer_def Let_def split: option.splits if_splits)
    with negotiate_ok [OF l] assms(2) show ?thesis by blast
  qed
qed

lemma lock_incremental:
  assumes "lock_ok s f calls (Some r)" and "reg \<in> {ResponderStart, ResponderMove, ResponderEnd}"
  shows "lock_ok s f (calls @ dispatched [direct_event env reg r]) (Some r)"
  using assms by (auto simp: lock_ok_def monitor_append)

lemma lock_final:
  assumes "lock_ok s f calls (Some r)" and "listens s f env" and "reg \<in> {ResponderRelease, ResponderTerminate}"
  shows "lock_ok s f (calls @ dispatched [direct_event env reg r]) None"
  using assms by (auto simp: lock_ok_def listens_def monitor_append)

lemma responder_events_ok:
  assumes "lock_ok s f calls (responderInst st)" and "listens s f env" and "responder_events env ty ne st = (evs, st')"
  shows "lock_ok s f (calls @ dispatched evs) (responderInst st')"
proof (cases "responderInst st")
  case None
  with assms show ?thesis by (auto simp: responder_events_def)
next
  case (Some r)
  define inc where "inc = (case incremental_touch ty of None \<Rightarrow> [] | Some reg \<Rightarrow> [direct_event env reg r])"
  have i: "lock_ok s f (calls @ dispatched inc) (Some r)"
    using assms(1) Some lock_incremental [of s f calls r _ env]
    by (auto simp: inc_def incremental_touch_def simp del: dispatched_simps(3))
  show ?thesis
  proof (cases "final_touch env ty ne r")
    case None
    with assms(3) Some i show ?thesis by (simp add: responder_events_def inc_def)
  next
    case (Some reg)
    then have "reg \<in> {ResponderRelease, ResponderTerminate}" by (auto simp: final_touch_def split: if_splits)
    from lock_final [OF i assms(2) this] Some \<open>responderInst st = Some r\<close> assms(3) show ?thesis
      by (auto simp: responder_events_def inc_def Let_def simp del: dispatched_simps(3))
  qed
qed

lemma responder_events_log: "responder_events env ty ne st = (evs, st') \<Longrightarrow> rs_log st' = rs_log st"
  by (auto simp: responder_events_def Let_def split: option.splits)

text \<open>Recording touches does not concern the lock.\<close>

definition lock_frame :: "responder_system \<Rightarrow> responder_system \<Rightarrow> bool" where
  "lock_frame st st' \<longleftrightarrow> rs_log st' = rs_log st \<and> responderInst st' = responderInst st \<and>
     filter (\<lambda>c. \<forall>m. c \<noteq> RendererError m) (rs_native st') = filter (\<lambda>c. \<forall>m. c \<noteq> RendererError m) (rs_native st)"

lemma lock_frame_simps [simp]:
  "lock_frame st st" "lock_frame st (renderer_error m st')  = lock_frame st st'"
  "lock_frame st (put_record i r t st') = lock_frame st st'"
  "lock_frame st (count_touches ne st') = lock_frame st st'" "lock_frame st (set_single k st') = lock_frame st st'"
  by (simp_all add: lock_frame_def renderer_error_def put_record_def count_touches_def set_single_def)

lemma lock_frame_trans: "lock_frame a b \<Longrightarrow> lock_frame b c \<Longrightarrow> lock_frame a c"
  by (simp add: lock_frame_def)

lemma lock_frame_identifier: "lock_frame st (out_state (getTouchIdentifier t st))"
  by (simp add: getTouchIdentifier_def split: option.split)

lemma lock_frame_and_then:
  "lock_frame st (out_state m) \<Longrightarrow> (\<And>a s. m = Ret a s \<Longrightarrow> lock_frame s (out_state (f a s))) \<Longrightarrow>
   lock_frame st (out_state (and_then m f))"
  by (cases m) (auto intro: lock_frame_trans)

lemma lock_frame_record:
  "lock_frame st (out_state (recordTouchStart t st))" "lock_frame st (out_state (recordTouchMove t st))"
  "lock_frame st (out_state (recordTouchEnd t st))"
  unfolding recordTouchStart_def recordTouchMove_def recordTouchEnd_def
  by (rule lock_frame_and_then [OF lock_frame_identifier]; simp split: option.split)+

lemma lock_frame_record_each:
  "(\<And>t st. lock_frame st (out_state (f t st))) \<Longrightarrow> lock_frame st (out_state (record_each f ts st))"
  by (induction f ts st rule: record_each.induct) (auto intro: lock_frame_and_then)

lemma lock_frame_after:
  "lock_frame st (after_start ne st)" "lock_frame st (after_end ne st)"
  by (simp_all add: after_start_def after_end_def Let_def split: list.split option.split)

lemma lock_frame_track: "lock_frame st (out_state (recordTouchTrack ty ne st))"
  by (auto simp: recordTouchTrack_def lock_frame_after
      intro!: lock_frame_and_then lock_frame_record_each lock_frame_record)

lemma lock_frame_count: "lock_frame st (snd (track_touch_count ty st))"
  by (simp add: track_touch_count_def lock_frame_def renderer_error_def)

lemma lock_ok_frame: "lock_frame st st' \<Longrightarrow> lock_ok s f (rs_log st') (responderInst st') = lock_ok s f (rs_log st) (responderInst st)"
  by (simp add: lock_frame_def)

text \<open>One event: it leaves the lock alone, or its touches are recorded, a transfer may take place,
  and the responder is told.\<close>

lemma event_cases:
  obtains (quiet) "lock_frame st (out_state (receiveRootNodeIDEvent env n ty ne st))"
  | (told) st2 transfer st3 evs st4 where "lock_frame st st2"
      "(transfer, st3) = ([], st2) \<or> (\<exists>target. setResponderAndExtractTransfer env ty target st2 = (transfer, st3))"
      "responder_events env ty ne st3 = (evs, st4)"
      "out_state (receiveRootNodeIDEvent env n ty ne st) = runEventsInBatch (transfer @ evs) st4"
proof -
  let ?target = "case n of None \<Rightarrow> None | Some m \<Rightarrow> instance_of_node env m"
  obtain go st1 where c: "track_touch_count ty st = (go, st1)" by (cases "track_touch_count ty st")
  have f1: "lock_frame st st1" using lock_frame_count [of st ty] c by simp
  note f2 = lock_frame_trans [OF f1 lock_frame_track [of st1 ty ne]]
  show thesis
  proof (cases "go \<and> returns (recordTouchTrack ty ne st1)")
    case False
    then have "lock_frame st (out_state (receiveRootNodeIDEvent env n ty ne st))"
      using c f1 f2 by (cases go; cases "recordTouchTrack ty ne st1")
        (auto simp: receiveRootNodeIDEvent_def extractEvents_def runEventsInBatch_def)
    then show ?thesis by (rule quiet)
  next
    case True
    then obtain st2 where r: "recordTouchTrack ty ne st1 = Ret () st2" by (cases "recordTouchTrack ty ne st1") auto
    obtain transfer st3 where t: "(if canTriggerTransfer ty ?target ne st2
        then setResponderAndExtractTransfer env ty (the ?target) st2 else ([], st2)) = (transfer, st3)"
      by (cases "if canTriggerTransfer ty ?target ne st2
        then setResponderAndExtractTransfer env ty (the ?target) st2 else ([], st2)")
    obtain evs st4 where e: "responder_events env ty ne st3 = (evs, st4)" by (cases "responder_events env ty ne st3")
    have "out_state (receiveRootNodeIDEvent env n ty ne st) = runEventsInBatch (transfer @ evs) st4"
      using True c r t e by (simp add: receiveRootNodeIDEvent_def extractEvents_def)
    moreover have "lock_frame st st2" using f2 r by simp
    moreover have "(transfer, st3) = ([], st2) \<or>
        (\<exists>target. setResponderAndExtractTransfer env ty target st2 = (transfer, st3))"
      using t by (auto split: if_splits)
    ultimately show ?thesis using told e by blast
  qed
qed

lemma event_lock_ok:
  assumes "lock_ok s f (rs_log st) (responderInst st)" and "listens s f env"
  shows "lock_ok s f (rs_log (out_state (receiveRootNodeIDEvent env n ty ne st)))
           (responderInst (out_state (receiveRootNodeIDEvent env n ty ne st)))"
proof (cases rule: event_cases [of st env n ty ne])
  case quiet
  with assms(1) show ?thesis by (simp add: lock_ok_frame)
next
  case (told st2 transfer st3 evs st4)
  have "lock_ok s f (rs_log st2) (responderInst st2)" using assms(1) told(1) by (simp add: lock_ok_frame)
  then have "lock_ok s f (rs_log st3 @ dispatched transfer) (responderInst st3)"
    using told(2) transfer_ok [OF _ assms(2)] by auto
  from responder_events_ok [OF this assms(2) told(3)] responder_events_log [OF told(3)] told(4) show ?thesis by simp
qed

text \<open>What native code was told last about the responder.\<close>

fun native_responder :: "nat option \<Rightarrow> responder_call list \<Rightarrow> nat option" where
  "native_responder r [] = r"
| "native_responder r (SetJSResponder k b # cs) = native_responder (Some k) cs"
| "native_responder r (ClearJSResponder # cs) = native_responder None cs"
| "native_responder r (RendererError m # cs) = native_responder r cs"

definition in_sync :: "responder_system \<Rightarrow> bool" where
  "in_sync st \<longleftrightarrow> native_responder None (rs_native st) = map_option fiber_key (responderInst st)"

lemma native_responder_append [simp]:
  "native_responder r (cs @ ds) = native_responder (native_responder r cs) ds"
  by (induction r cs rule: native_responder.induct) simp_all

lemma native_responder_filter:
  "native_responder r (filter (\<lambda>c. \<forall>m. c \<noteq> RendererError m) cs) = native_responder r cs"
  by (induction r cs rule: native_responder.induct) simp_all

lemma in_sync_frame: "lock_frame st st' \<Longrightarrow> in_sync st' = in_sync st"
  unfolding in_sync_def lock_frame_def by (metis native_responder_filter)

lemma in_sync_change: "in_sync (changeResponder n b st)"
  by (cases n) (simp_all add: in_sync_def changeResponder_def)

lemma in_sync_call [simp]: "in_sync (call_listener reg f st) = in_sync st"
  by (simp add: in_sync_def)

lemma in_sync_negotiate: "in_sync st \<Longrightarrow> negotiate env w st = (evs, st') \<Longrightarrow> in_sync st'"
  by (auto simp: negotiate_def executeDirectDispatch_def hasDispatches_def Let_def in_sync_change
      split: option.splits if_splits)

lemma in_sync_transfer:
  assumes "in_sync st" and "setResponderAndExtractTransfer env ty target st = (evs, st')"
  shows "in_sync st'"
proof -
  obtain w st1 where w: "executeDispatchesInOrderStopAtTrue env (should_set_kind ty)
      (should_set_dispatches env (should_set_kind ty) (responderInst st) target) st = (w, st1)"
    by (cases "executeDispatchesInOrderStopAtTrue env (should_set_kind ty)
      (should_set_dispatches env (should_set_kind ty) (responderInst st) target) st")
  have "in_sync st1" using assms(1) ask_frame(1,2) [OF w] by (simp add: in_sync_def)
  with assms(2) w show ?thesis
    by (auto simp: setResponderAndExtractTransfer_def Let_def dest: in_sync_negotiate split: option.splits if_splits)
qed

lemma in_sync_events: "in_sync st \<Longrightarrow> responder_events env ty ne st = (evs, st') \<Longrightarrow> in_sync st'"
  by (auto simp: responder_events_def Let_def in_sync_change split: option.splits)

lemma in_sync_event: "in_sync st \<Longrightarrow> in_sync (out_state (receiveRootNodeIDEvent env n ty ne st))"
proof (cases rule: event_cases [of st env n ty ne])
  case quiet
  assume "in_sync st"
  with quiet show ?thesis by (simp add: in_sync_frame)
next
  case (told st2 transfer st3 evs st4)
  assume "in_sync st"
  then have "in_sync st2" using told(1) by (simp add: in_sync_frame)
  then have "in_sync st3" using told(2) in_sync_transfer by auto
  from in_sync_events [OF this told(3)] told(4) show ?thesis by (simp add: in_sync_def)
qed

section \<open>The responder system as a machine\<close>

text \<open>The two entry points for native code, each with the handlers as they are at that moment.\<close>

datatype responder_input =
    Touches responder_env top_level_type "touch list" "nat list"
  | RootEvent responder_env "int option" top_level_type native_touch_event

fun input_env :: "responder_input \<Rightarrow> responder_env" where
  "input_env (Touches env _ _ _) = env"
| "input_env (RootEvent env _ _ _) = env"

fun responder_step :: "responder_system \<Rightarrow> responder_input \<Rightarrow> responder_system" where
  "responder_step st (Touches env ty ts indices) = out_state (receiveTouches env ty ts indices st)"
| "responder_step st (RootEvent env n ty ne) = out_state (receiveRootNodeIDEvent env n ty ne st)"

text \<open>What every event keeps, every input keeps.\<close>

lemma receive_each_keeps:
  assumes ev: "\<And>n ne st. P st \<Longrightarrow> P (out_state (receiveRootNodeIDEvent env n ty ne st))"
    and err: "\<And>m st. P st \<Longrightarrow> P (renderer_error m st)"
  shows "P st \<Longrightarrow> P (out_state (receive_each env ty ts ch rest st))"
proof (induction rest arbitrary: st)
  case (Cons x rest)
  show ?case
  proof (cases x)
    case (Some t)
    define st1 where "st1 = (case touch_target t of
        Some n \<Rightarrow> if n < 1 then renderer_error ''A view is reporting that a touch occurred on tag zero.'' st else st
      | None \<Rightarrow> st)"
    define n where "n = (case touch_target t of None \<Rightarrow> None | Some n \<Rightarrow> if n < 1 then None else Some n)"
    define m where "m = receiveRootNodeIDEvent env n ty \<lparr>changedTouches = ch, touches = ts, responderIgnoreScroll = False\<rparr> st1"
    have "P st1" using Cons.prems err by (auto simp: st1_def split: option.split)
    then have "P (out_state m)" using ev by (simp add: m_def)
    moreover have "receive_each env ty ts ch (x # rest) st = and_then m (\<lambda>_. receive_each env ty ts ch rest)"
      by (simp add: Some m_def n_def st1_def Let_def)
    ultimately show ?thesis using Cons.IH by (cases m) auto
  qed (use Cons.prems in simp)
qed simp

lemma step_keeps:
  assumes "\<And>n ty ne st. P st \<Longrightarrow> P (out_state (receiveRootNodeIDEvent (input_env i) n ty ne st))"
    and "\<And>m st. P st \<Longrightarrow> P (renderer_error m st)" and "P st"
  shows "P (responder_step st i)"
  using assms receive_each_keeps [of P "input_env i"]
  by (cases i) (auto simp: receiveTouches_def split: prod.split)

lemma in_sync_renderer_error: "in_sync st \<Longrightarrow> in_sync (renderer_error m st)"
  by (simp add: in_sync_def renderer_error_def)

lemma in_sync_step: "in_sync st \<Longrightarrow> in_sync (responder_step st i)"
  by (rule step_keeps) (auto intro: in_sync_event in_sync_renderer_error)

lemma in_sync_new: "in_sync new_responder_system"
  by (simp add: in_sync_def new_responder_system_def)

interpretation rsm: event_machine responder_step in_sync
  by unfold_locales (rule in_sync_step)

lemma lock_step:
  assumes "lock_ok s f (rs_log st) (responderInst st)" and "listens s f (input_env i)"
  shows "lock_ok s f (rs_log (responder_step st i)) (responderInst (responder_step st i))"
  using assms(1)
  by (rule step_keeps [where P = "\<lambda>st. lock_ok s f (rs_log st) (responderInst st)", rotated 2])
    (auto intro: event_lock_ok assms(2) simp: renderer_error_def)

lemma lock_new: "lock_ok s f (rs_log new_responder_system) (responderInst new_responder_system)"
  by (auto simp: lock_ok_def new_responder_system_def intro: exI [of _ False])

lemma lock_run:
  assumes "\<forall>i \<in> set ins. listens s f (input_env i)"
  shows "lock_ok s f (rs_log (foldl responder_step new_responder_system ins))
           (responderInst (foldl responder_step new_responder_system ins))"
  using assms
  by (intro rsm.run_stable [where P = "\<lambda>st. lock_ok s f (rs_log st) (responderInst st)" and E = "{i. listens s f (input_env i)}"])
    (auto intro: lock_step lock_new)

text \<open>
  C21: the negotiation is bookended.  Whatever touches native code reports and whatever the
  views answer, the calls a view receives begin with a grant and end with a rejection, a
  release or a termination, everything in between is told to the holder only, no view is
  granted the lock twice, and the view that the log says holds it is \<open>responderInst\<close>.
\<close>

theorem responder_lock_bookended:
  assumes "\<forall>i \<in> set ins. listens True f (input_env i)"
  shows "let st = foldl responder_step new_responder_system ins
         in monitor True f False (rs_log st) = Some (responderInst st = Some f)"
  using lock_run [OF assms] by (auto simp: lock_ok_def Let_def)

text \<open>
  Native code and JavaScript agree on the responder: after every input the last
  \<open>setJSResponder\<close> or \<open>clearJSResponder\<close> names the instance in \<open>responderInst\<close>.
\<close>

theorem native_responder_in_sync:
  "let st = foldl responder_step new_responder_system ins
   in native_responder None (rs_native st) = map_option fiber_key (responderInst st)"
  using rsm.inv_run [OF in_sync_new, of ins] by (simp add: in_sync_def Let_def)

text \<open>An event that moves the lock moves it to a proper ancestor of the view that had it.\<close>

lemma negotiate_responder:
  "negotiate env w st = (evs, st') \<Longrightarrow> responderInst st' = responderInst st \<or> responderInst st' = Some w"
  by (auto simp: negotiate_def executeDirectDispatch_def hasDispatches_def Let_def split: option.splits if_splits)

lemma transfer_upwards:
  assumes "responderInst st = Some a" and "setResponderAndExtractTransfer env ty target st = (evs, st')"
  shows "responderInst st' = Some a \<or> (\<exists>b. responderInst st' = Some b \<and> b \<in> set (tl (host_path a)))"
proof -
  let ?ds = "should_set_dispatches env (should_set_kind ty) (Some a) target"
  obtain w st1 where w: "executeDispatchesInOrderStopAtTrue env (should_set_kind ty) ?ds st = (w, st1)"
    by (cases "executeDispatchesInOrderStopAtTrue env (should_set_kind ty) ?ds st")
  note f = ask_frame(1,4) [OF w]
  show ?thesis
  proof (cases w)
    case None
    with assms w f show ?thesis by (simp add: setResponderAndExtractTransfer_def Let_def)
  next
    case (Some x)
    then have x: "x \<in> set (tl (host_path a))" using f(2) asked_are_ancestors by fastforce
    show ?thesis
    proof (cases "Some x = responderInst st1")
      case False
      with assms w Some have "negotiate env x st1 = (evs, st')"
        by (simp add: setResponderAndExtractTransfer_def Let_def)
      from negotiate_responder [OF this] x f(1) assms(1) show ?thesis by auto
    qed (use assms w Some f x in \<open>simp add: setResponderAndExtractTransfer_def Let_def\<close>)
  qed
qed

text \<open>
  C33: while a view is the responder, one event can only release the lock or transfer it to a
  proper ancestor of that view in the host tree.
\<close>

theorem transfer_only_to_ancestors:
  assumes "responderInst st = Some a"
    and "responderInst (out_state (receiveRootNodeIDEvent env n ty ne st)) = Some b" and "a \<noteq> b"
  shows "b \<in> set (tl (host_path a))"
proof (cases rule: event_cases [of st env n ty ne])
  case quiet
  with assms show ?thesis by (simp add: lock_frame_def)
next
  case (told st2 transfer st3 evs st4)
  have "responderInst st2 = Some a" using assms(1) told(1) by (simp add: lock_frame_def)
  then have "responderInst st3 = Some a \<or> (\<exists>b. responderInst st3 = Some b \<and> b \<in> set (tl (host_path a)))"
    using told(2) transfer_upwards by (metis prod.inject)
  moreover have "responderInst st4 = responderInst st3 \<or> responderInst st4 = None"
    using told(3) by (auto simp: responder_events_def Let_def split: option.splits)
  ultimately show ?thesis using assms(2,3) told(4) by auto
qed

lemma recordTouchEnd_returns:
  "touch_identifier t = Some i \<Longrightarrow> \<exists>st'. recordTouchEnd t st = Ret () st'"
  by (simp add: recordTouchEnd_def getTouchIdentifier_def split: option.split)

lemma record_each_returns:
  assumes "\<forall>t \<in> set ts. \<exists>x i. t = Some x \<and> touch_identifier x = Some i"
  shows "\<exists>st'. record_each recordTouchEnd ts st = Ret () st'"
  using assms
proof (induction ts arbitrary: st)
  case (Cons t ts)
  then obtain x i where x: "t = Some x" "touch_identifier x = Some i" by auto
  from recordTouchEnd_returns [OF x(2)] obtain st1 where "recordTouchEnd x st = Ret () st1" by blast
  with Cons x show ?case by simp
qed simp

text \<open>
  The lock is given back: when the last touch ends or the touches are cancelled, and the
  touches that changed have identifiers, the event is processed and no view is the
  responder afterwards.
\<close>

theorem lock_is_released:
  assumes "ty = TopTouchCancel \<or> ty = TopTouchEnd \<and> touches ne = []" and "0 \<le> trackedTouchCount st"
    and "\<forall>t \<in> set (changedTouches ne). \<exists>x i. t = Some x \<and> touch_identifier x = Some i"
  shows "\<exists>st'. receiveRootNodeIDEvent env n ty ne st = Ret () st' \<and> responderInst st' = None"
proof -
  let ?target = "case n of None \<Rightarrow> None | Some m \<Rightarrow> instance_of_node env m"
  let ?st1 = "st\<lparr>trackedTouchCount := trackedTouchCount st - 1\<rparr>"
  have ty: "isEndish ty" "\<not> isStartish ty" "\<not> isMoveish ty"
    using assms(1) by (auto simp: isEndish_def isStartish_def isMoveish_def)
  have "track_touch_count ty st = (True, ?st1)" using ty assms(2) by (simp add: track_touch_count_def)
  moreover obtain st2 where "recordTouchTrack ty ne ?st1 = Ret () st2"
    using record_each_returns [OF assms(3), of ?st1] ty by (auto simp: recordTouchTrack_def)
  moreover have "\<not> canTriggerTransfer ty ?target ne st2"
    using ty assms(1) by (auto simp: canTriggerTransfer_def)
  moreover obtain evs st4 where e: "responder_events env ty ne st2 = (evs, st4)" by (cases "responder_events env ty ne st2")
  ultimately have "receiveRootNodeIDEvent env n ty ne st = Ret () (runEventsInBatch evs st4)"
    by (simp add: receiveRootNodeIDEvent_def extractEvents_def)
  moreover have f: "final_touch env ty ne r \<noteq> None" for r
    using assms(1) by (auto simp: final_touch_def isEndish_def)
  have "responderInst st4 = None"
    using e f [of "the (responderInst st2)"] by (cases "responderInst st2") (auto simp: responder_events_def Let_def)
  ultimately show ?thesis by simp
qed

section \<open>Witnesses\<close>

definition ex_root :: fiber where "ex_root = Fiber 1 False True None"

definition ex_view :: fiber where "ex_view = Fiber 5 False True (Some (Fiber 3 False False (Some ex_root)))"

text \<open>Everyone listens, the view wants the lock on a start, the root on a move.\<close>

definition ex_responder_env :: responder_env where
  "ex_responder_env = \<lparr>has_listener = \<lambda>f r. True,
     answers = \<lambda>f r. r = ResponderTerminationRequest \<or> r = ShouldSet StartShouldSet False \<and> fiber_key f = 5 \<or>
                     r = ShouldSet MoveShouldSet False \<and> fiber_key f = 1,
     stops_propagation = \<lambda>f r. False, instance_of_node = \<lambda>n. if n = 5 then Some ex_view else None\<rparr>"

definition ex_finger :: "real \<Rightarrow> real \<Rightarrow> touch" where
  "ex_finger x t = \<lparr>touch_identifier = Some 0, pageX = x, pageY = 0, timeStamp = None, timestamp = t, touch_target = Some 5\<rparr>"

theorem responder_lock_bookended_witness:
  "let st = foldl responder_step new_responder_system
         [Touches ex_responder_env TopTouchStart [ex_finger 0 1] [0], Touches ex_responder_env TopTouchMove [ex_finger 5 2] [0],
          Touches ex_responder_env TopTouchEnd [ex_finger 5 3] [0]]
   in monitor True ex_view False (rs_log st) = Some (responderInst st = Some ex_view)"
  by (rule responder_lock_bookended) (auto simp: listens_def ex_responder_env_def)

lemma ex_paths [simp]: "host_path ex_root = [ex_root]" "host_path ex_view = [ex_view, ex_root]"
  "getParent ex_root = None" "getParent ex_view = Some ex_root"
  by (simp_all add: ex_root_def ex_view_def host_path.simps)

lemma ex_lca: "getLowestCommonAncestor ex_view ex_view = Some ex_view"
  by (simp add: getLowestCommonAncestor_def depth_of.simps same_instance_def)

lemma ex_env_simps [simp]:
  "has_listener ex_responder_env f r" "\<not> stops_propagation ex_responder_env f r"
  "instance_of_node ex_responder_env 5 = Some ex_view"
  "answers ex_responder_env ex_root (ShouldSet MoveShouldSet False)"
  "\<not> answers ex_responder_env f (ShouldSet k True)"
  "answers ex_responder_env f ResponderTerminationRequest"
  by (simp_all add: ex_responder_env_def ex_root_def)

definition ex_held :: responder_system where
  "ex_held = new_responder_system\<lparr>responderInst := Some ex_view\<rparr>"

definition ex_no_touches :: native_touch_event where
  "ex_no_touches = \<lparr>changedTouches = [], touches = [], responderIgnoreScroll = False\<rparr>"

theorem transfer_only_to_ancestors_witness:
  "responderInst (out_state (receiveRootNodeIDEvent ex_responder_env (Some 5) TopTouchMove ex_no_touches ex_held)) = Some ex_root \<and>
   ex_root \<in> set (tl (host_path ex_view))"
proof -
  have ne: "ex_root \<noteq> ex_view" by (simp add: ex_view_def ex_root_def)
  have ds: "should_set_dispatches ex_responder_env MoveShouldSet (Some ex_view) ex_view = [(True, ex_root), (False, ex_root)]"
    by (simp add: should_set_dispatches_def bubble_start_def ex_lca two_phase_dispatches_def)
  have tr: "responderInst (snd (setResponderAndExtractTransfer ex_responder_env TopTouchMove ex_view ex_held)) = Some ex_root"
    using ds ne by (simp add: setResponderAndExtractTransfer_def should_set_kind_def isStartish_def isMoveish_def
        ex_held_def Let_def negotiate_def executeDirectDispatch_def hasDispatches_def)
  have "responderInst (out_state (receiveRootNodeIDEvent ex_responder_env (Some 5) TopTouchMove ex_no_touches ex_held)) = Some ex_root"
    using tr by (cases "setResponderAndExtractTransfer ex_responder_env TopTouchMove ex_view ex_held")
      (simp add: receiveRootNodeIDEvent_def extractEvents_def track_touch_count_def isStartish_def isEndish_def
        isMoveish_def recordTouchTrack_def ex_no_touches_def canTriggerTransfer_def responder_events_def
        incremental_touch_def final_touch_def)
  moreover have "ex_view \<noteq> ex_root" by (simp add: ex_view_def ex_root_def)
  ultimately show ?thesis
    using transfer_only_to_ancestors [of ex_held ex_view ex_responder_env "Some 5" TopTouchMove ex_no_touches ex_root]
    by (simp add: ex_held_def)
qed

theorem lock_is_released_witness:
  "\<exists>st'. receiveRootNodeIDEvent ex_responder_env (Some 5) TopTouchEnd ex_no_touches ex_held = Ret () st' \<and>
         responderInst st' = None"
  by (rule lock_is_released) (simp_all add: ex_no_touches_def ex_held_def new_responder_system_def)

end
