(* ===== verification/PanResponder.thy ===== *)
theory PanResponder
  imports Responder InteractionManager
begin

text \<open>
  \<open>Libraries/Interaction/TouchHistoryMath.js\<close> and \<open>PanResponder.js\<close>: gestures computed
  from the touch histories of the responder system.

  The state of a pan responder is its gesture state and its interaction handle, next to the
  \<open>InteractionManager\<close> it locks.  The callbacks of its configuration are logged with the
  gesture state they are given; which callbacks exist and what they answer is a parameter.
  Coordinates and times are reals.
\<close>

section \<open>Centroids\<close>

definition noCentroid :: real where "noCentroid = -1"

text \<open>The coordinate that \<open>isXAxis\<close> and \<open>ofCurrent\<close> select.\<close>

definition coordinate :: "bool \<Rightarrow> bool \<Rightarrow> touch_record \<Rightarrow> real" where
  "coordinate isXAxis ofCurrent r =
     (if ofCurrent \<and> isXAxis then currentPageX r
      else if ofCurrent \<and> \<not> isXAxis then currentPageY r
      else if \<not> ofCurrent \<and> isXAxis then previousPageX r
      else previousPageY r)"

text \<open>The loop over the bank, with the running total and count.\<close>

fun centroid_loop :: "real \<Rightarrow> bool \<Rightarrow> bool \<Rightarrow> touch_record option list \<Rightarrow> real \<Rightarrow> nat \<Rightarrow> real \<times> nat" where
  "centroid_loop after isXAxis ofCurrent [] tot count = (tot, count)"
| "centroid_loop after isXAxis ofCurrent (entry # bank) tot count =
     (case entry of
        Some r \<Rightarrow>
          if touchActive r \<and> currentTimeStamp r \<ge> after
          then centroid_loop after isXAxis ofCurrent bank (tot + coordinate isXAxis ofCurrent r) (Suc count)
          else centroid_loop after isXAxis ofCurrent bank tot count
      | None \<Rightarrow> centroid_loop after isXAxis ofCurrent bank tot count)"

text \<open>With one active touch the bank is not searched; an index without a record makes the read
  of \<open>touchActive\<close> throw.\<close>

definition centroid_sum :: "touch_history \<Rightarrow> real \<Rightarrow> bool \<Rightarrow> bool \<Rightarrow> js_exn + real \<times> nat" where
  "centroid_sum h after isXAxis ofCurrent =
     (if numberActiveTouches h = 1
      then (case bank_int (touchBank h) (indexOfSingleActiveTouch h) of
              None \<Rightarrow> Inl (TypeError ''undefined is not an object'')
            | Some r \<Rightarrow>
                Inr (if touchActive r \<and> currentTimeStamp r > after
                     then (coordinate isXAxis ofCurrent r, 1) else (0, 0)))
      else Inr (centroid_loop after isXAxis ofCurrent (touchBank h) 0 0))"

definition centroidDimension :: "touch_history \<Rightarrow> real \<Rightarrow> bool \<Rightarrow> bool \<Rightarrow> js_exn + real" where
  "centroidDimension h after isXAxis ofCurrent =
     (case centroid_sum h after isXAxis ofCurrent of
        Inl e \<Rightarrow> Inl e
      | Inr (tot, count) \<Rightarrow> Inr (if count > 0 then tot / real count else noCentroid))"

definition currentCentroidXOfTouchesChangedAfter :: "touch_history \<Rightarrow> real \<Rightarrow> js_exn + real" where
  "currentCentroidXOfTouchesChangedAfter h after = centroidDimension h after True True"

definition currentCentroidYOfTouchesChangedAfter :: "touch_history \<Rightarrow> real \<Rightarrow> js_exn + real" where
  "currentCentroidYOfTouchesChangedAfter h after = centroidDimension h after False True"

definition previousCentroidXOfTouchesChangedAfter :: "touch_history \<Rightarrow> real \<Rightarrow> js_exn + real" where
  "previousCentroidXOfTouchesChangedAfter h after = centroidDimension h after True False"

definition previousCentroidYOfTouchesChangedAfter :: "touch_history \<Rightarrow> real \<Rightarrow> js_exn + real" where
  "previousCentroidYOfTouchesChangedAfter h after = centroidDimension h after False False"

definition currentCentroidX :: "touch_history \<Rightarrow> js_exn + real" where
  "currentCentroidX h = centroidDimension h 0 True True"

definition currentCentroidY :: "touch_history \<Rightarrow> js_exn + real" where
  "currentCentroidY h = centroidDimension h 0 False True"

section \<open>Gesture states\<close>

record gesture_state =
  moveX :: real
  moveY :: real
  x0 :: real
  y0 :: real
  dx :: real
  dy :: real
  vx :: real
  vy :: real
  gs_numberActiveTouches :: nat
  accountsForMovesUpTo :: real

definition zero_gesture :: gesture_state where
  "zero_gesture = \<lparr>moveX = 0, moveY = 0, x0 = 0, y0 = 0, dx = 0, dy = 0, vx = 0, vy = 0,
     gs_numberActiveTouches = 0, accountsForMovesUpTo = 0\<rparr>"

definition initializeGestureState :: "gesture_state \<Rightarrow> gesture_state" where
  "initializeGestureState g = zero_gesture"

text \<open>Every centroid reads the same entry of the bank, so the first read throws if any does;
  only the number of touches has been stored by then.\<close>

definition updateGestureStateOnMove :: "touch_history \<Rightarrow> gesture_state \<Rightarrow> (js_exn, gesture_state, unit) outcome" where
  "updateGestureStateOnMove h g0 =
     (let g = g0\<lparr>gs_numberActiveTouches := numberActiveTouches h\<rparr>;
          movedAfter = accountsForMovesUpTo g
      in case (currentCentroidXOfTouchesChangedAfter h movedAfter, currentCentroidYOfTouchesChangedAfter h movedAfter,
               previousCentroidXOfTouchesChangedAfter h movedAfter, previousCentroidYOfTouchesChangedAfter h movedAfter) of
           (Inr x, Inr y, Inr prevX, Inr prevY) \<Rightarrow>
             let nextDX = dx g + (x - prevX); nextDY = dy g + (y - prevY);
                 dt = mostRecentTimeStamp h - accountsForMovesUpTo g
             in Ret () (g\<lparr>moveX := x, moveY := y, vx := (nextDX - dx g) / dt, vy := (nextDY - dy g) / dt,
                          dx := nextDX, dy := nextDY, accountsForMovesUpTo := mostRecentTimeStamp h\<rparr>)
         | _ \<Rightarrow> Throw (TypeError ''undefined is not an object'') g)"

section \<open>Pan responders\<close>

datatype pan_callback =
    OnMoveShouldSet | OnMoveShouldSetCapture | OnStartShouldSet | OnStartShouldSetCapture
  | OnGrant | OnReject | OnStart | OnEnd | OnRelease | OnMove | OnTerminate
  | OnTerminationRequest | OnShouldBlockNativeResponder

record pan_config =
  has_callback :: "pan_callback \<Rightarrow> bool"
  callback_says :: "pan_callback \<Rightarrow> bool"

record pan_responder =
  gesture :: gesture_state
  pan_handle :: "nat option"
  manager :: interaction_manager
  pan_log :: "(pan_callback \<times> gesture_state) list"

type_synonym 'a pan_result = "(js_exn, pan_responder, 'a) outcome"

text \<open>\<open>PanResponder.create\<close>\<close>

definition new_PanResponder :: "interaction_manager \<Rightarrow> pan_responder" where
  "new_PanResponder im = \<lparr>gesture = zero_gesture, pan_handle = None, manager = im, pan_log = []\<rparr>"

definition getInteractionHandle :: "pan_responder \<Rightarrow> nat option" where
  "getInteractionHandle st = pan_handle st"

text \<open>A callback that is called for its answer, or the default, and one that is only told.\<close>

definition ask :: "pan_config \<Rightarrow> pan_callback \<Rightarrow> bool \<Rightarrow> pan_responder \<Rightarrow> bool pan_result" where
  "ask config c dflt st =
     (if has_callback config c
      then Ret (callback_says config c) (st\<lparr>pan_log := pan_log st @ [(c, gesture st)]\<rparr>)
      else Ret dflt st)"

definition tell :: "pan_config \<Rightarrow> pan_callback \<Rightarrow> pan_responder \<Rightarrow> pan_responder" where
  "tell config c st = (if has_callback config c then st\<lparr>pan_log := pan_log st @ [(c, gesture st)]\<rparr> else st)"

text \<open>A computation on the gesture state.\<close>

definition on_gesture :: "(js_exn, gesture_state, unit) outcome \<Rightarrow> pan_responder \<Rightarrow> unit pan_result" where
  "on_gesture m st = (case m of Ret _ g \<Rightarrow> Ret () (st\<lparr>gesture := g\<rparr>) | Throw e g \<Rightarrow> Throw e (st\<lparr>gesture := g\<rparr>))"

text \<open>The function \<open>clearInteractionHandle\<close> of the module.\<close>

definition pan_clearInteractionHandle :: "pan_config \<Rightarrow> pan_callback \<Rightarrow> pan_responder \<Rightarrow> unit pan_result" where
  "pan_clearInteractionHandle config c st =
     and_then
       (case pan_handle st of
          None \<Rightarrow> Ret () st
        | Some h \<Rightarrow>
            (case clearInteractionHandle h (manager st) of
               Ret _ im \<Rightarrow> Ret () (st\<lparr>manager := im, pan_handle := None\<rparr>)
             | Throw e im \<Rightarrow> Throw e (st\<lparr>manager := im\<rparr>)))
       (\<lambda>_ st1. Ret () (tell config c st1))"

definition pan_onStartShouldSetResponder :: "pan_config \<Rightarrow> pan_responder \<Rightarrow> bool pan_result" where
  "pan_onStartShouldSetResponder config st = ask config OnStartShouldSet False st"

definition pan_onMoveShouldSetResponder :: "pan_config \<Rightarrow> pan_responder \<Rightarrow> bool pan_result" where
  "pan_onMoveShouldSetResponder config st = ask config OnMoveShouldSet False st"

text \<open>An event is the number of its native touches and the touch history.\<close>

definition set_touch_count :: "touch_history \<Rightarrow> pan_responder \<Rightarrow> pan_responder" where
  "set_touch_count h st = st\<lparr>gesture := (gesture st)\<lparr>gs_numberActiveTouches := numberActiveTouches h\<rparr>\<rparr>"

definition onStartShouldSetResponderCapture :: "pan_config \<Rightarrow> nat \<Rightarrow> touch_history \<Rightarrow> pan_responder \<Rightarrow> bool pan_result" where
  "onStartShouldSetResponderCapture config nativeTouches h st =
     ask config OnStartShouldSetCapture False
       (set_touch_count h
         (if nativeTouches = 1 then st\<lparr>gesture := initializeGestureState (gesture st)\<rparr> else st))"

definition onMoveShouldSetResponderCapture :: "pan_config \<Rightarrow> touch_history \<Rightarrow> pan_responder \<Rightarrow> bool pan_result" where
  "onMoveShouldSetResponderCapture config h st =
     (if accountsForMovesUpTo (gesture st) = mostRecentTimeStamp h then Ret False st
      else and_then (on_gesture (updateGestureStateOnMove h (gesture st)) st)
             (\<lambda>_. ask config OnMoveShouldSetCapture False))"

definition take_handle :: "pan_responder \<Rightarrow> pan_responder" where
  "take_handle st =
     (case pan_handle st of
        Some _ \<Rightarrow> st
      | None \<Rightarrow> (case createInteractionHandle (manager st) of
                   (handle, im) \<Rightarrow> st\<lparr>pan_handle := Some handle, manager := im\<rparr>))"

definition pan_onResponderGrant :: "pan_config \<Rightarrow> touch_history \<Rightarrow> pan_responder \<Rightarrow> bool pan_result" where
  "pan_onResponderGrant config h st =
     (let st1 = take_handle st
      in case (currentCentroidX h, currentCentroidY h) of
           (Inr x, Inr y) \<Rightarrow>
             ask config OnShouldBlockNativeResponder True
               (tell config OnGrant (st1\<lparr>gesture := (gesture st1)\<lparr>x0 := x, y0 := y, dx := 0, dy := 0\<rparr>\<rparr>))
         | _ \<Rightarrow> Throw (TypeError ''undefined is not an object'') st1)"

definition pan_onResponderReject :: "pan_config \<Rightarrow> pan_responder \<Rightarrow> unit pan_result" where
  "pan_onResponderReject config st = pan_clearInteractionHandle config OnReject st"

definition reset_gesture :: "pan_responder \<Rightarrow> pan_responder" where
  "reset_gesture st = st\<lparr>gesture := initializeGestureState (gesture st)\<rparr>"

definition pan_onResponderRelease :: "pan_config \<Rightarrow> pan_responder \<Rightarrow> unit pan_result" where
  "pan_onResponderRelease config st =
     and_then (pan_clearInteractionHandle config OnRelease st) (\<lambda>_ st1. Ret () (reset_gesture st1))"

definition pan_onResponderStart :: "pan_config \<Rightarrow> touch_history \<Rightarrow> pan_responder \<Rightarrow> unit pan_result" where
  "pan_onResponderStart config h st = Ret () (tell config OnStart (set_touch_count h st))"

definition pan_onResponderMove :: "pan_config \<Rightarrow> touch_history \<Rightarrow> pan_responder \<Rightarrow> unit pan_result" where
  "pan_onResponderMove config h st =
     (if accountsForMovesUpTo (gesture st) = mostRecentTimeStamp h then Ret () st
      else and_then (on_gesture (updateGestureStateOnMove h (gesture st)) st)
             (\<lambda>_ st1. Ret () (tell config OnMove st1)))"

definition pan_onResponderEnd :: "pan_config \<Rightarrow> touch_history \<Rightarrow> pan_responder \<Rightarrow> unit pan_result" where
  "pan_onResponderEnd config h st = pan_clearInteractionHandle config OnEnd (set_touch_count h st)"

definition pan_onResponderTerminate :: "pan_config \<Rightarrow> pan_responder \<Rightarrow> unit pan_result" where
  "pan_onResponderTerminate config st =
     and_then (pan_clearInteractionHandle config OnTerminate st) (\<lambda>_ st1. Ret () (reset_gesture st1))"

definition pan_onResponderTerminationRequest :: "pan_config \<Rightarrow> pan_responder \<Rightarrow> bool pan_result" where
  "pan_onResponderTerminationRequest config st = ask config OnTerminationRequest True st"

section \<open>What one move adds\<close>

text \<open>The touches that count as moved, when there is not exactly one touch.\<close>

definition moved :: "touch_history \<Rightarrow> real \<Rightarrow> touch_record list" where
  "moved h after = filter (\<lambda>r. touchActive r \<and> currentTimeStamp r \<ge> after) (present (touchBank h))"

lemma centroid_loop_sum:
  "centroid_loop after ax c bank tot n =
     (tot + sum_list (map (coordinate ax c) (filter (\<lambda>r. touchActive r \<and> currentTimeStamp r \<ge> after) (present bank))),
      n + length (filter (\<lambda>r. touchActive r \<and> currentTimeStamp r \<ge> after) (present bank)))"
  by (induction after ax c bank tot n rule: centroid_loop.induct) (auto split: option.split)

lemma centroid_moved:
  assumes "numberActiveTouches h \<noteq> 1"
  shows "centroidDimension h after ax c =
    Inr (if moved h after = [] then noCentroid
         else sum_list (map (coordinate ax c) (moved h after)) / real (length (moved h after)))"
  using assms by (simp add: centroidDimension_def centroid_sum_def centroid_loop_sum moved_def)

definition mean :: "(touch_record \<Rightarrow> real) \<Rightarrow> touch_record list \<Rightarrow> real" where
  "mean f rs = (if rs = [] then 0 else sum_list (map f rs) / real (length rs))"

lemma centroid_difference:
  assumes "numberActiveTouches h \<noteq> 1"
  shows "\<exists>a b. centroidDimension h after ax True = Inr a \<and> centroidDimension h after ax False = Inr b \<and>
    a - b = mean (\<lambda>r. coordinate ax True r - coordinate ax False r) (moved h after)"
  using assms by (simp add: centroid_moved mean_def sum_list_subtractf diff_divide_distrib)

lemma coordinate_axes [simp]:
  "coordinate True True = currentPageX" "coordinate False True = currentPageY"
  "coordinate True False = previousPageX" "coordinate False False = previousPageY"
  by (simp_all add: coordinate_def fun_eq_iff)

text \<open>
  With several touches a move adds to the distance the mean displacement of the touches
  that moved since the last event: touches moving in parallel count once, touches moving in
  opposite directions cancel out, and if none moved the distance stays.  The velocity is that
  displacement per time.
\<close>

theorem move_adds_mean_displacement:
  assumes "numberActiveTouches h \<noteq> 1"
  shows "\<exists>g'. updateGestureStateOnMove h g = Ret () g' \<and>
    dx g' = dx g + mean (\<lambda>r. currentPageX r - previousPageX r) (moved h (accountsForMovesUpTo g)) \<and>
    dy g' = dy g + mean (\<lambda>r. currentPageY r - previousPageY r) (moved h (accountsForMovesUpTo g)) \<and>
    vx g' = (dx g' - dx g) / (mostRecentTimeStamp h - accountsForMovesUpTo g) \<and>
    vy g' = (dy g' - dy g) / (mostRecentTimeStamp h - accountsForMovesUpTo g) \<and>
    accountsForMovesUpTo g' = mostRecentTimeStamp h"
  using centroid_difference [OF assms, of "accountsForMovesUpTo g" True]
    centroid_difference [OF assms, of "accountsForMovesUpTo g" False]
  by (auto simp: updateGestureStateOnMove_def Let_def currentCentroidXOfTouchesChangedAfter_def
      currentCentroidYOfTouchesChangedAfter_def previousCentroidXOfTouchesChangedAfter_def
      previousCentroidYOfTouchesChangedAfter_def)

section \<open>Dragging with one finger\<close>

text \<open>The renderer records a move of the touch, then the responder is told.\<close>

definition drag_step :: "pan_config \<Rightarrow> responder_system \<times> pan_responder \<Rightarrow> touch \<Rightarrow> responder_system \<times> pan_responder" where
  "drag_step config s t =
     (let rs = out_state (recordTouchTrack TopTouchMove
            \<lparr>changedTouches = [Some t], touches = [t], responderIgnoreScroll = False\<rparr> (fst s))
      in (rs, out_state (pan_onResponderMove config (touchHistory rs) (snd s))))"

text \<open>The single active touch \<open>i\<close> with its record.\<close>

definition single_touch :: "nat \<Rightarrow> touch_record \<Rightarrow> touch_history \<Rightarrow> bool" where
  "single_touch i r h \<longleftrightarrow> numberActiveTouches h = 1 \<and> indexOfSingleActiveTouch h = int i \<and>
     bank_at (touchBank h) i = Some r \<and> touchActive r"

lemma bank_at_set [simp]: "bank_at (bank_set i r bank) i = Some r"
  by (auto simp: bank_at_def bank_set_def)

lemma bank_int_single: "single_touch i r h \<Longrightarrow> bank_int (touchBank h) (indexOfSingleActiveTouch h) = Some r"
  by (simp add: single_touch_def bank_int_def)

lemma centroid_single:
  assumes "single_touch i r h" and "after < currentTimeStamp r"
  shows "centroidDimension h after ax c = Inr (coordinate ax c r)"
proof -
  have "numberActiveTouches h = 1" "touchActive r" using assms(1) by (simp_all add: single_touch_def)
  then show ?thesis
    using assms(2) bank_int_single [OF assms(1)] by (simp add: centroidDimension_def centroid_sum_def)
qed

lemma record_single_move:
  assumes "single_touch i r (touchHistory rs)" and "touch_identifier t = Some i"
  shows "single_touch i (shiftTouchRecord True r t)
      (touchHistory (out_state (recordTouchTrack TopTouchMove
         \<lparr>changedTouches = [Some t], touches = [t], responderIgnoreScroll = False\<rparr> rs)))"
    and "mostRecentTimeStamp (touchHistory (out_state (recordTouchTrack TopTouchMove
         \<lparr>changedTouches = [Some t], touches = [t], responderIgnoreScroll = False\<rparr> rs))) = timestampForTouch t"
  using assms
  by (auto simp: recordTouchTrack_def isMoveish_def recordTouchMove_def getTouchIdentifier_def single_touch_def
      put_record_def renderer_error_def shiftTouchRecord_def)

lemma update_single:
  assumes "single_touch i r h" and "accountsForMovesUpTo g < currentTimeStamp r"
  shows "updateGestureStateOnMove h g = Ret () (g\<lparr>gs_numberActiveTouches := 1, moveX := currentPageX r, moveY := currentPageY r,
      vx := (currentPageX r - previousPageX r) / (mostRecentTimeStamp h - accountsForMovesUpTo g),
      vy := (currentPageY r - previousPageY r) / (mostRecentTimeStamp h - accountsForMovesUpTo g),
      dx := dx g + (currentPageX r - previousPageX r), dy := dy g + (currentPageY r - previousPageY r),
      accountsForMovesUpTo := mostRecentTimeStamp h\<rparr>)"
proof -
  have n: "numberActiveTouches h = 1" using assms(1) by (simp add: single_touch_def)
  show ?thesis
    using centroid_single [OF assms(1)] assms(2) n
    by (simp add: updateGestureStateOnMove_def Let_def currentCentroidXOfTouchesChangedAfter_def
      currentCentroidYOfTouchesChangedAfter_def previousCentroidXOfTouchesChangedAfter_def
      previousCentroidYOfTouchesChangedAfter_def)
qed

lemma gesture_tell [simp]: "gesture (tell config c st) = gesture st" "manager (tell config c st) = manager st"
  "pan_handle (tell config c st) = pan_handle st"
  by (simp_all add: tell_def)

lemma ask_returns:
  "\<exists>b st'. ask config c d st = Ret b st' \<and> gesture st' = gesture st \<and> pan_handle st' = pan_handle st \<and> manager st' = manager st"
  by (simp add: ask_def)

lemma gesture_take_handle [simp]: "gesture (take_handle st) = gesture st"
  by (simp add: take_handle_def split: option.split prod.split)

lemma drag_step_single:
  assumes "single_touch i r (touchHistory rs)" and "touch_identifier t = Some i"
    and "accountsForMovesUpTo (gesture p) < timestampForTouch t"
  shows "single_touch i (shiftTouchRecord True r t) (touchHistory (fst (drag_step config (rs, p) t)))"
    and "gesture (snd (drag_step config (rs, p) t)) = (gesture p)
      \<lparr>gs_numberActiveTouches := 1, moveX := pageX t, moveY := pageY t,
       vx := (pageX t - currentPageX r) / (timestampForTouch t - accountsForMovesUpTo (gesture p)),
       vy := (pageY t - currentPageY r) / (timestampForTouch t - accountsForMovesUpTo (gesture p)),
       dx := dx (gesture p) + (pageX t - currentPageX r), dy := dy (gesture p) + (pageY t - currentPageY r),
       accountsForMovesUpTo := timestampForTouch t\<rparr>"
proof -
  let ?rs = "out_state (recordTouchTrack TopTouchMove \<lparr>changedTouches = [Some t], touches = [t], responderIgnoreScroll = False\<rparr> rs)"
  let ?r = "shiftTouchRecord True r t"
  note s = record_single_move [OF assms(1,2)]
  show "single_touch i ?r (touchHistory (fst (drag_step config (rs, p) t)))"
    using s(1) by (simp add: drag_step_def Let_def)
  have "accountsForMovesUpTo (gesture p) < currentTimeStamp ?r"
    using assms(3) by (simp add: shiftTouchRecord_def)
  from update_single [OF s(1) this] s(2) assms(3)
  show "gesture (snd (drag_step config (rs, p) t)) = (gesture p)
      \<lparr>gs_numberActiveTouches := 1, moveX := pageX t, moveY := pageY t,
       vx := (pageX t - currentPageX r) / (timestampForTouch t - accountsForMovesUpTo (gesture p)),
       vy := (pageY t - currentPageY r) / (timestampForTouch t - accountsForMovesUpTo (gesture p)),
       dx := dx (gesture p) + (pageX t - currentPageX r), dy := dy (gesture p) + (pageY t - currentPageY r),
       accountsForMovesUpTo := timestampForTouch t\<rparr>"
    by (simp add: drag_step_def Let_def pan_onResponderMove_def on_gesture_def shiftTouchRecord_def)
qed

lemma drag_displacement:
  assumes "single_touch i r (touchHistory rs)" and "\<forall>t \<in> set ts. touch_identifier t = Some i"
    and "sorted_wrt (<) (accountsForMovesUpTo (gesture p) # map timestampForTouch ts)"
    and "currentPageX r = x0 (gesture p) + dx (gesture p)" and "currentPageY r = y0 (gesture p) + dy (gesture p)"
  shows "x0 (gesture (snd (foldl (drag_step config) (rs, p) ts))) = x0 (gesture p) \<and>
    y0 (gesture (snd (foldl (drag_step config) (rs, p) ts))) = y0 (gesture p) \<and>
    x0 (gesture p) + dx (gesture (snd (foldl (drag_step config) (rs, p) ts))) =
      last (currentPageX r # map pageX ts) \<and>
    y0 (gesture p) + dy (gesture (snd (foldl (drag_step config) (rs, p) ts))) =
      last (currentPageY r # map pageY ts)"
  using assms
proof (induction ts arbitrary: rs p r)
  case (Cons t ts)
  have "touch_identifier t = Some i" "accountsForMovesUpTo (gesture p) < timestampForTouch t"
    using Cons.prems by simp_all
  note d = drag_step_single [OF Cons.prems(1) this, of config]
  obtain rs1 p1 where s: "drag_step config (rs, p) t = (rs1, p1)" by (cases "drag_step config (rs, p) t")
  have "sorted_wrt (<) (accountsForMovesUpTo (gesture p1) # map timestampForTouch ts)"
    using Cons.prems(3) d(2) s by simp
  moreover have "x0 (gesture p1) = x0 (gesture p)" "y0 (gesture p1) = y0 (gesture p)"
    "x0 (gesture p) + dx (gesture p1) = pageX t" "y0 (gesture p) + dy (gesture p1) = pageY t"
    using d(2) s Cons.prems(4,5) by simp_all
  moreover have "currentPageX (shiftTouchRecord True r t) = pageX t" "currentPageY (shiftTouchRecord True r t) = pageY t"
    by (simp_all add: shiftTouchRecord_def)
  ultimately show ?case
    using Cons.IH [of "shiftTouchRecord True r t" rs1 p1] d(1) s Cons.prems(2) by simp
qed simp

text \<open>
  A drag with one finger is measured exactly: from the grant on, through any sequence of
  recorded moves with increasing time stamps, \<open>(x0, y0)\<close> stays where the finger was at the
  grant, and \<open>(dx, dy)\<close> is the vector from there to where the finger is now.
\<close>

theorem single_touch_drag:
  assumes "single_touch i r (touchHistory rs)" and "0 < currentTimeStamp r"
    and "\<forall>t \<in> set ts. touch_identifier t = Some i"
    and "sorted_wrt (<) (accountsForMovesUpTo (gesture p) # map timestampForTouch ts)"
  shows "\<exists>b p1. pan_onResponderGrant config (touchHistory rs) p = Ret b p1 \<and>
    (let g = gesture (snd (foldl (drag_step config) (rs, p1) ts))
     in x0 g = currentPageX r \<and> y0 g = currentPageY r \<and>
        x0 g + dx g = last (currentPageX r # map pageX ts) \<and> y0 g + dy g = last (currentPageY r # map pageY ts))"
proof -
  let ?p = "tell config OnGrant ((take_handle p)\<lparr>gesture := (gesture p)\<lparr>x0 := currentPageX r, y0 := currentPageY r, dx := 0, dy := 0\<rparr>\<rparr>)"
  obtain b p1 where a: "ask config OnShouldBlockNativeResponder True ?p = Ret b p1" "gesture p1 = gesture ?p"
    using ask_returns [of config OnShouldBlockNativeResponder True ?p] by blast
  have g: "pan_onResponderGrant config (touchHistory rs) p = Ret b p1"
    using centroid_single [OF assms(1,2)] a(1)
    by (simp add: pan_onResponderGrant_def Let_def currentCentroidX_def currentCentroidY_def)
  have p1: "gesture p1 = (gesture p)\<lparr>x0 := currentPageX r, y0 := currentPageY r, dx := 0, dy := 0\<rparr>"
    using a(2) by simp
  have "sorted_wrt (<) (accountsForMovesUpTo (gesture p1) # map timestampForTouch ts)"
    using assms(4) p1 by simp
  note d = drag_displacement [OF assms(1,3) this, of config]
  have z: "x0 (gesture p1) = currentPageX r" "y0 (gesture p1) = currentPageY r" "dx (gesture p1) = 0" "dy (gesture p1) = 0"
    using p1 by simp_all
  show ?thesis
    using g d z by (intro exI [of _ b] exI [of _ p1]) (simp add: Let_def)
qed

section \<open>The interaction handle\<close>

datatype pan_event =
    PanStartShouldSet | PanMoveShouldSet | PanStartShouldSetCapture nat touch_history | PanMoveShouldSetCapture touch_history
  | PanGrant touch_history | PanReject | PanRelease | PanStart touch_history | PanMove touch_history
  | PanEnd touch_history | PanTerminate | PanTerminationRequest

fun pan_step :: "pan_responder \<Rightarrow> pan_config \<times> pan_event \<Rightarrow> pan_responder" where
  "pan_step st (config, PanStartShouldSet) = out_state (pan_onStartShouldSetResponder config st)"
| "pan_step st (config, PanMoveShouldSet) = out_state (pan_onMoveShouldSetResponder config st)"
| "pan_step st (config, PanStartShouldSetCapture n h) = out_state (onStartShouldSetResponderCapture config n h st)"
| "pan_step st (config, PanMoveShouldSetCapture h) = out_state (onMoveShouldSetResponderCapture config h st)"
| "pan_step st (config, PanGrant h) = out_state (pan_onResponderGrant config h st)"
| "pan_step st (config, PanReject) = out_state (pan_onResponderReject config st)"
| "pan_step st (config, PanRelease) = out_state (pan_onResponderRelease config st)"
| "pan_step st (config, PanStart h) = out_state (pan_onResponderStart config h st)"
| "pan_step st (config, PanMove h) = out_state (pan_onResponderMove config h st)"
| "pan_step st (config, PanEnd h) = out_state (pan_onResponderEnd config h st)"
| "pan_step st (config, PanTerminate) = out_state (pan_onResponderTerminate config st)"
| "pan_step st (config, PanTerminationRequest) = out_state (pan_onResponderTerminationRequest config st)"

text \<open>The interactions the next update of the manager will see.\<close>

definition pan_ok :: "interaction_manager \<Rightarrow> pan_responder \<Rightarrow> bool" where
  "pan_ok im st \<longleftrightarrow>
     active_handles (manager st) = active_handles im \<union> set_option (pan_handle st) \<and>
     handles_bounded (manager st) \<and> inc im \<le> inc (manager st) \<and> active_handles im \<subseteq> {..inc im} \<and>
     (\<forall>h. pan_handle st = Some h \<longrightarrow> inc im < h)"

lemma pan_ok_cong:
  "manager st' = manager st \<Longrightarrow> pan_handle st' = pan_handle st \<Longrightarrow> pan_ok im st' = pan_ok im st"
  by (simp add: pan_ok_def)

lemma pan_ok_simps [simp]:
  "pan_ok im (st\<lparr>gesture := g\<rparr>) = pan_ok im st" "pan_ok im (st\<lparr>pan_log := l\<rparr>) = pan_ok im st"
  "pan_ok im (tell config c st) = pan_ok im st" "pan_ok im (set_touch_count h st) = pan_ok im st"
  "pan_ok im (reset_gesture st) = pan_ok im st"
  by (simp_all add: pan_ok_def tell_def set_touch_count_def reset_gesture_def)

lemma pan_ok_ask [simp]: "pan_ok im (out_state (ask config c d st)) = pan_ok im st"
  by (simp add: ask_def)

lemma pan_ok_on_gesture [simp]: "pan_ok im (out_state (on_gesture m st)) = pan_ok im st"
  by (cases m) (simp_all add: on_gesture_def)

lemma pan_ok_take: "pan_ok im st \<Longrightarrow> pan_ok im (take_handle st)"
  using create_handle [of "manager st"]
  by (auto simp: take_handle_def pan_ok_def split: option.split prod.split)

lemma take_handle_some: "pan_handle (take_handle st) \<noteq> None"
  by (simp add: take_handle_def split: option.split prod.split)

lemma pan_clear:
  assumes "pan_ok im st"
  shows "\<exists>st'. pan_clearInteractionHandle config c st = Ret () st' \<and> pan_ok im st' \<and> pan_handle st' = None"
proof (cases "pan_handle st")
  case None
  with assms show ?thesis by (simp add: pan_clearInteractionHandle_def tell_def)
next
  case (Some h)
  have h: "0 < h" "h \<le> inc (manager st)" "h \<notin> active_handles im"
    using assms Some by (auto simp: pan_ok_def handles_bounded_def active_handles_def)
  have b: "handles_bounded (manager st)" using assms by (simp add: pan_ok_def)
  from clear_handle [OF b h(1,2)] obtain im' where im': "clearInteractionHandle h (manager st) = Ret () im'"
    "inc im' = inc (manager st)" "active_handles im' = active_handles (manager st) - {h}" "handles_bounded im'" by blast
  have "pan_ok im (tell config c (st\<lparr>manager := im', pan_handle := None\<rparr>))"
    using assms im' Some h by (auto simp: pan_ok_def)
  with im' Some show ?thesis by (auto simp: pan_clearInteractionHandle_def tell_def)
qed

lemma pan_ok_and_then_ask:
  "pan_ok im (out_state m) \<Longrightarrow> pan_ok im (out_state (and_then m (\<lambda>_. ask config c d)))"
  by (cases m) simp_all

lemma pan_ok_grant: "pan_ok im st \<Longrightarrow> pan_ok im (out_state (pan_onResponderGrant config h st))"
  by (simp add: pan_onResponderGrant_def Let_def pan_ok_take split: sum.split)

lemma pan_ok_move: "pan_ok im st \<Longrightarrow> pan_ok im (out_state (pan_onResponderMove config h st))"
  using pan_ok_on_gesture [of im "updateGestureStateOnMove h (gesture st)" st]
  by (cases "on_gesture (updateGestureStateOnMove h (gesture st)) st") (simp_all add: pan_onResponderMove_def)

lemma pan_ok_step: "pan_ok im st \<Longrightarrow> pan_ok im (pan_step st ev)"
proof (cases "(st, ev)" rule: pan_step.cases)
  case (6 st' config)
  assume "pan_ok im st"
  with pan_clear [of im st config OnReject] 6 show ?thesis by (auto simp: pan_onResponderReject_def)
next
  case (7 st' config)
  assume "pan_ok im st"
  with pan_clear [of im st config OnRelease] 7 show ?thesis by (auto simp: pan_onResponderRelease_def)
next
  case (10 st' config h)
  assume "pan_ok im st"
  with pan_clear [of im "set_touch_count h st" config OnEnd] 10 show ?thesis by (auto simp: pan_onResponderEnd_def)
next
  case (11 st' config)
  assume "pan_ok im st"
  with pan_clear [of im st config OnTerminate] 11 show ?thesis by (auto simp: pan_onResponderTerminate_def)
qed (auto simp: pan_onStartShouldSetResponder_def pan_onMoveShouldSetResponder_def onStartShouldSetResponderCapture_def
    onMoveShouldSetResponderCapture_def pan_onResponderStart_def pan_onResponderTerminationRequest_def
    intro!: pan_ok_and_then_ask pan_ok_grant pan_ok_move)

interpretation pan: event_machine pan_step "pan_ok im"
  by unfold_locales (rule pan_ok_step)

lemma pan_ok_new: "handles_bounded im \<Longrightarrow> pan_ok im (new_PanResponder im)"
  by (auto simp: pan_ok_def new_PanResponder_def handles_bounded_def active_handles_def)

text \<open>
  A pan responder locks the interaction manager exactly while it has a handle: through any
  sequence of responder events the active interactions are those there were, and its own
  handle if it has one; a grant takes a handle, and a rejection, an end, a release or a
  termination gives it back.
\<close>

theorem pan_handle_is_balanced:
  assumes "handles_bounded im"
  shows "let st = foldl pan_step (new_PanResponder im) evs
         in active_handles (manager st) = active_handles im \<union> set_option (pan_handle st) \<and>
            pan_handle (pan_step st (config, PanGrant h)) \<noteq> None \<and>
            (\<forall>ev \<in> {PanReject, PanEnd h, PanRelease, PanTerminate}.
               active_handles (manager (pan_step st (config, ev))) = active_handles im)"
proof -
  define st where "st = foldl pan_step (new_PanResponder im) evs"
  have ok: "pan_ok im st" unfolding st_def by (rule pan.inv_run [OF pan_ok_new [OF assms]])
  have "active_handles (manager (pan_step st (config, ev))) = active_handles im"
    if "ev \<in> {PanReject, PanEnd h, PanRelease, PanTerminate}" for ev
  proof -
    have "pan_handle (pan_step st (config, ev)) = None"
      using that pan_clear [OF ok, of config OnReject] pan_clear [OF ok, of config OnRelease]
        pan_clear [OF ok, of config OnTerminate] pan_clear [of im "set_touch_count h st" config OnEnd] ok
      by (auto simp: pan_onResponderReject_def pan_onResponderRelease_def pan_onResponderEnd_def
          pan_onResponderTerminate_def reset_gesture_def)
    with pan_ok_step [OF ok, of "(config, ev)"] show ?thesis by (simp add: pan_ok_def)
  qed
  moreover have "pan_handle (pan_step st (config, PanGrant h)) \<noteq> None"
    using take_handle_some [of st] by (simp add: pan_onResponderGrant_def Let_def ask_def split: sum.split)
  moreover have "active_handles (manager st) = active_handles im \<union> set_option (pan_handle st)"
    using ok by (simp add: pan_ok_def)
  ultimately show ?thesis unfolding st_def [symmetric] Let_def by blast
qed

section \<open>Two touches moving one after the other\<close>

definition pan_touch :: "nat \<Rightarrow> real \<Rightarrow> real \<Rightarrow> touch" where
  "pan_touch i x t = \<lparr>touch_identifier = Some i, pageX = x, pageY = 0, timeStamp = None, timestamp = t, touch_target = None\<rparr>"

definition two_touches :: responder_system where
  "two_touches = out_state (recordTouchTrack TopTouchStart
     \<lparr>changedTouches = [Some (pan_touch 0 0 1), Some (pan_touch 1 100 1)],
      touches = [pan_touch 0 0 1, pan_touch 1 100 1], responderIgnoreScroll = False\<rparr> new_responder_system)"

definition no_callbacks :: pan_config where
  "no_callbacks = \<lparr>has_callback = \<lambda>c. False, callback_says = \<lambda>c. False\<rparr>"

text \<open>
  Two touches start, one moves five and stops, then the other moves five in the same
  direction.  The accumulated distance is 7.5: the comment on \<open>PanResponder\<close> says ten, but
  a touch whose time stamp equals the time already accounted for is counted as moved again,
  and at first all touches are.
\<close>

theorem two_touch_distance:
  "dx (gesture (snd (foldl (drag_step no_callbacks) (two_touches, out_state (pan_onResponderGrant no_callbacks
      (touchHistory two_touches) (new_PanResponder init_im))) [pan_touch 0 5 10, pan_touch 1 105 20]))) = 15 / 2"
proof -
  note defs = recordTouchTrack_def isMoveish_def isStartish_def recordTouchMove_def recordTouchStart_def
    getTouchIdentifier_def MAX_TOUCH_BANK_def put_record_def bank_at_def bank_set_def createTouchRecord_def
    shiftTouchRecord_def timestampForTouch_def after_start_def count_touches_def pan_touch_def
  have h: "touchHistory two_touches = \<lparr>touchBank = [Some (createTouchRecord (pan_touch 0 0 1)), Some (createTouchRecord (pan_touch 1 100 1))],
      numberActiveTouches = 2, indexOfSingleActiveTouch = -1, mostRecentTimeStamp = 1\<rparr>"
    by (simp add: two_touches_def new_responder_system_def defs)
  define p where "p = out_state (pan_onResponderGrant no_callbacks (touchHistory two_touches) (new_PanResponder init_im))"
  have g: "gesture p = zero_gesture\<lparr>x0 := 50\<rparr>"
    using h by (simp add: p_def pan_onResponderGrant_def currentCentroidX_def currentCentroidY_def centroidDimension_def
        centroid_sum_def createTouchRecord_def timestampForTouch_def pan_touch_def ask_def no_callbacks_def Let_def
        new_PanResponder_def zero_gesture_def)
  show ?thesis
    unfolding p_def [symmetric] by (simp add: drag_step_def defs h g pan_onResponderMove_def updateGestureStateOnMove_def on_gesture_def
        currentCentroidXOfTouchesChangedAfter_def currentCentroidYOfTouchesChangedAfter_def
        previousCentroidXOfTouchesChangedAfter_def previousCentroidYOfTouchesChangedAfter_def
        centroidDimension_def centroid_sum_def tell_def no_callbacks_def zero_gesture_def Let_def)
qed

section \<open>Witnesses\<close>

theorem move_adds_mean_displacement_witness:
  "\<exists>g'. updateGestureStateOnMove (touchHistory two_touches) zero_gesture = Ret () g' \<and>
     dx g' = mean (\<lambda>r. currentPageX r - previousPageX r) (moved (touchHistory two_touches) 0)"
proof -
  have "numberActiveTouches (touchHistory two_touches) \<noteq> 1"
    by (simp add: two_touches_def new_responder_system_def recordTouchTrack_def isMoveish_def isStartish_def
        recordTouchStart_def getTouchIdentifier_def put_record_def after_start_def count_touches_def pan_touch_def
        MAX_TOUCH_BANK_def)
  from move_adds_mean_displacement [OF this, of zero_gesture] show ?thesis by (auto simp: zero_gesture_def)
qed

definition one_touch :: responder_system where
  "one_touch = new_responder_system\<lparr>touchHistory := \<lparr>touchBank = [None, Some (createTouchRecord (pan_touch 1 3 2))],
     numberActiveTouches = 1, indexOfSingleActiveTouch = 1, mostRecentTimeStamp = 2\<rparr>\<rparr>"

theorem single_touch_drag_witness:
  "\<exists>b p1. pan_onResponderGrant no_callbacks (touchHistory one_touch) (new_PanResponder init_im) = Ret b p1 \<and>
     dx (gesture (snd (foldl (drag_step no_callbacks) (one_touch, p1) [pan_touch 1 9 4, pan_touch 1 8 6]))) = 5"
proof -
  let ?r = "createTouchRecord (pan_touch 1 3 2)"
  have "single_touch 1 ?r (touchHistory one_touch)"
    by (simp add: single_touch_def one_touch_def bank_at_def createTouchRecord_def)
  moreover have "0 < currentTimeStamp ?r" by (simp add: createTouchRecord_def timestampForTouch_def pan_touch_def)
  moreover have "\<forall>t \<in> set [pan_touch 1 9 4, pan_touch 1 8 6]. touch_identifier t = Some 1" by (simp add: pan_touch_def)
  moreover have "sorted_wrt (<) (accountsForMovesUpTo (gesture (new_PanResponder init_im)) #
      map timestampForTouch [pan_touch 1 9 4, pan_touch 1 8 6])"
    by (simp add: new_PanResponder_def zero_gesture_def timestampForTouch_def pan_touch_def)
  ultimately show ?thesis
    using single_touch_drag [of 1 ?r one_touch "[pan_touch 1 9 4, pan_touch 1 8 6]" "new_PanResponder init_im" no_callbacks]
    by (auto simp: Let_def createTouchRecord_def pan_touch_def)
qed

theorem pan_handle_is_balanced_witness:
  "active_handles (manager (pan_step (foldl pan_step (new_PanResponder init_im) [(no_callbacks, PanGrant (touchHistory one_touch))])
      (no_callbacks, PanRelease))) = active_handles init_im"
  using pan_handle_is_balanced [of init_im "[(no_callbacks, PanGrant (touchHistory one_touch))]" no_callbacks "touchHistory one_touch"]
  by (simp add: handles_bounded_def init_im_def Let_def)

end
