(* ===== verification/PerformanceLogger.thy ===== *)
theory PerformanceLogger
  imports JSValue
begin

text \<open>
  \<open>Libraries/Utilities/createPerformanceLogger.js\<close>: timespans, points and extras.

  A logger is a record of three dictionaries in insertion order; the module's \<open>_cookies\<close>
  and the calls of \<open>Systrace\<close> are kept next to them.  \<open>performanceNow()\<close> is the field
  \<open>pl_now\<close>, which the environment advances.  Keys are not names of properties that every
  object inherits.  \<open>PRINT_TO_CONSOLE\<close> is \<open>false\<close>, so nothing is printed.
\<close>

section \<open>State\<close>

record timespan =
  description :: "string option"
  totalTime :: "real option"
  startTime :: "real option"
  endTime :: "real option"

datatype systrace_call = BeginAsyncEvent string nat | EndAsyncEvent string nat

record perf_logger =
  timespans :: "(string \<times> timespan) list"
  extras :: "(string \<times> jsval) list"
  points :: "(string \<times> real) list"
  cookies :: "string \<rightharpoonup> nat"
  nextCookie :: nat
  systrace :: "systrace_call list"
  pl_now :: real

definition createPerformanceLogger :: "real \<Rightarrow> perf_logger" where
  "createPerformanceLogger now =
     \<lparr>timespans = [], extras = [], points = [], cookies = Map.empty, nextCookie = 0, systrace = [], pl_now = now\<rparr>"

text \<open>A number that is missing or zero is falsy.\<close>

definition truthy_number :: "real option \<Rightarrow> bool" where
  "truthy_number x \<longleftrightarrow> (case x of None \<Rightarrow> False | Some r \<Rightarrow> r \<noteq> 0)"

fun truthy :: "jsval option \<Rightarrow> bool" where
  "truthy None = False"
| "truthy (Some JUndefined) = False"
| "truthy (Some JNull) = False"
| "truthy (Some (JBool b)) = b"
| "truthy (Some (JNumber n)) = (n \<noteq> Finite 0 \<and> n \<noteq> NaN)"
| "truthy (Some (JString s)) = (s \<noteq> [])"
| "truthy (Some _) = True"

section \<open>Timespans\<close>

definition hasTimespan :: "string \<Rightarrow> perf_logger \<Rightarrow> bool" where
  "hasTimespan key st \<longleftrightarrow> map_of (timespans st) key \<noteq> None"

definition addTimespan :: "string \<Rightarrow> real \<Rightarrow> string option \<Rightarrow> perf_logger \<Rightarrow> perf_logger" where
  "addTimespan key lengthInMs desc st =
     (if hasTimespan key st then st
      else st\<lparr>timespans := AList.update key
               \<lparr>description = desc, totalTime = Some lengthInMs, startTime = None, endTime = None\<rparr> (timespans st)\<rparr>)"

definition beginAsyncEvent :: "string \<Rightarrow> perf_logger \<Rightarrow> perf_logger" where
  "beginAsyncEvent key st =
     st\<lparr>cookies := (cookies st)(key \<mapsto> nextCookie st), nextCookie := Suc (nextCookie st),
        systrace := systrace st @ [BeginAsyncEvent key (nextCookie st)]\<rparr>"

definition startTimespan :: "string \<Rightarrow> string option \<Rightarrow> perf_logger \<Rightarrow> perf_logger" where
  "startTimespan key desc st =
     (if hasTimespan key st then st
      else beginAsyncEvent key
             (st\<lparr>timespans := AList.update key
                \<lparr>description = desc, totalTime = None, startTime = Some (pl_now st), endTime = None\<rparr> (timespans st)\<rparr>))"

definition endAsyncEvent :: "string \<Rightarrow> perf_logger \<Rightarrow> perf_logger" where
  "endAsyncEvent key st =
     (case cookies st key of
        None \<Rightarrow> st
      | Some c \<Rightarrow> st\<lparr>cookies := (cookies st)(key := None), systrace := systrace st @ [EndAsyncEvent key c]\<rparr>)"

definition stopped :: "real \<Rightarrow> timespan \<Rightarrow> timespan" where
  "stopped now ts =
     ts\<lparr>endTime := Some now, totalTime := Some (now - (case startTime ts of Some s \<Rightarrow> s | None \<Rightarrow> 0))\<rparr>"

definition stopTimespan :: "string \<Rightarrow> bool \<Rightarrow> perf_logger \<Rightarrow> perf_logger" where
  "stopTimespan key update st =
     (case map_of (timespans st) key of
        None \<Rightarrow> st
      | Some ts \<Rightarrow>
          if \<not> truthy_number (startTime ts) then st
          else if truthy_number (endTime ts) \<and> \<not> update then st
          else endAsyncEvent key (st\<lparr>timespans := AList.update key (stopped (pl_now st) ts) (timespans st)\<rparr>))"

definition clear :: "perf_logger \<Rightarrow> perf_logger" where
  "clear st = st\<lparr>timespans := [], extras := [], points := []\<rparr>"

definition clearCompleted :: "perf_logger \<Rightarrow> perf_logger" where
  "clearCompleted st =
     st\<lparr>timespans := filter (\<lambda>(k, ts). \<not> truthy_number (totalTime ts)) (timespans st), extras := [], points := []\<rparr>"

text \<open>
  The callback of \<open>reduce\<close> is not an arrow function and the module is strict, so
  \<open>this\<close> is undefined in it: the first key that is to be kept makes it throw.
\<close>

fun reduce_kept :: "string list \<Rightarrow> string list \<Rightarrow> js_exn option" where
  "reduce_kept keys [] = None"
| "reduce_kept keys (k # ks) =
     (if index_of keys k \<noteq> None then Some (TypeError ''Cannot read property _timespans of undefined'')
      else reduce_kept keys ks)"

definition clearExceptTimespans :: "string list \<Rightarrow> perf_logger \<Rightarrow> (js_exn, perf_logger, unit) outcome" where
  "clearExceptTimespans keys st =
     (case reduce_kept keys (map fst (timespans st)) of
        Some e \<Rightarrow> Throw e st
      | None \<Rightarrow> Ret () (st\<lparr>timespans := [], extras := [], points := []\<rparr>))"

text \<open>Pairs of a start and an end; a missing end or label gives \<open>NaN\<close> or the key
  \<open>undefined\<close>, so the lists are taken to match.\<close>

fun addTimespans :: "real list \<Rightarrow> string list \<Rightarrow> perf_logger \<Rightarrow> perf_logger" where
  "addTimespans (a # b # ts) (l # ls) st = addTimespans ts ls (addTimespan l (b - a) (Some l) st)"
| "addTimespans _ _ st = st"

section \<open>Extras and points\<close>

definition setExtra :: "string \<Rightarrow> jsval \<Rightarrow> perf_logger \<Rightarrow> perf_logger" where
  "setExtra key v st =
     (if truthy (map_of (extras st) key) then st else st\<lparr>extras := AList.update key v (extras st)\<rparr>)"

definition removeExtra :: "string \<Rightarrow> perf_logger \<Rightarrow> jsval option \<times> perf_logger" where
  "removeExtra key st = (map_of (extras st) key, st\<lparr>extras := AList.delete key (extras st)\<rparr>)"

definition markPoint :: "string \<Rightarrow> real option \<Rightarrow> perf_logger \<Rightarrow> perf_logger" where
  "markPoint key t st =
     (if truthy_number (map_of (points st) key) then st
      else st\<lparr>points := AList.update key (case t of Some x \<Rightarrow> x | None \<Rightarrow> pl_now st) (points st)\<rparr>)"

section \<open>Timespans are consistent\<close>

datatype perf_event =
    AddTimespan string real "string option" | StartTimespan string "string option" | StopTimespan string bool
  | Clear | ClearCompleted | ClearExcept "string list" | AddTimespans "real list" "string list"
  | SetExtra string jsval | RemoveExtra string | MarkPoint string "real option" | Tick real

fun perf_step :: "perf_logger \<Rightarrow> perf_event \<Rightarrow> perf_logger" where
  "perf_step st (AddTimespan k l d) = addTimespan k l d st"
| "perf_step st (StartTimespan k d) = startTimespan k d st"
| "perf_step st (StopTimespan k u) = stopTimespan k u st"
| "perf_step st Clear = clear st"
| "perf_step st ClearCompleted = clearCompleted st"
| "perf_step st (ClearExcept ks) = out_state (clearExceptTimespans ks st)"
| "perf_step st (AddTimespans ts ls) = addTimespans ts ls st"
| "perf_step st (SetExtra k v) = setExtra k v st"
| "perf_step st (RemoveExtra k) = snd (removeExtra k st)"
| "perf_step st (MarkPoint k t) = markPoint k t st"
| "perf_step st (Tick d) = st\<lparr>pl_now := pl_now st + \<bar>d\<bar>\<rparr>"

text \<open>A timespan was added with its length, is running, or has ended.\<close>

definition timespan_ok :: "real \<Rightarrow> timespan \<Rightarrow> bool" where
  "timespan_ok now ts \<longleftrightarrow>
     (case (startTime ts, endTime ts) of
        (None, None) \<Rightarrow> totalTime ts \<noteq> None
      | (Some s, None) \<Rightarrow> totalTime ts = None \<and> s \<le> now
      | (Some s, Some e) \<Rightarrow> s \<le> e \<and> e \<le> now \<and> totalTime ts = Some (e - s)
      | (None, Some _) \<Rightarrow> False)"

definition perf_ok :: "perf_logger \<Rightarrow> bool" where
  "perf_ok st \<longleftrightarrow> (\<forall>(k, ts) \<in> set (timespans st). timespan_ok (pl_now st) ts) \<and> distinct (map fst (timespans st))"

lemma timespan_ok_later: "timespan_ok now ts \<Longrightarrow> now \<le> now' \<Longrightarrow> timespan_ok now' ts"
  by (auto simp: timespan_ok_def split: option.splits)

lemma perf_ok_update:
  assumes "perf_ok st" and "timespan_ok (pl_now st) ts"
  shows "perf_ok (st\<lparr>timespans := AList.update k ts (timespans st)\<rparr>)"
  using assms set_alist_update [of k ts "timespans st"]
  by (auto simp: perf_ok_def distinct_update)

lemma perf_ok_frame [simp]:
  "perf_ok (st\<lparr>extras := e\<rparr>) = perf_ok st" "perf_ok (st\<lparr>points := p\<rparr>) = perf_ok st"
  "perf_ok (beginAsyncEvent k st) = perf_ok st" "perf_ok (endAsyncEvent k st) = perf_ok st"
  "perf_ok (st\<lparr>timespans := []\<rparr>)"
  by (auto simp: perf_ok_def beginAsyncEvent_def endAsyncEvent_def split: option.split)

lemma addTimespan_ok: "perf_ok st \<Longrightarrow> perf_ok (addTimespan k l d st)"
  by (simp add: addTimespan_def perf_ok_update timespan_ok_def)

lemma addTimespans_ok: "perf_ok st \<Longrightarrow> perf_ok (addTimespans ts ls st)"
  by (induction ts ls st rule: addTimespans.induct) (simp_all add: addTimespan_ok)

lemma startTimespan_ok: "perf_ok st \<Longrightarrow> perf_ok (startTimespan k d st)"
  by (simp add: startTimespan_def perf_ok_update timespan_ok_def)

lemma stopTimespan_ok:
  assumes "perf_ok st"
  shows "perf_ok (stopTimespan k u st)"
proof (cases "map_of (timespans st) k")
  case (Some ts)
  then have "timespan_ok (pl_now st) ts" using assms by (auto simp: perf_ok_def dest: map_of_SomeD)
  then have "truthy_number (startTime ts) \<Longrightarrow> timespan_ok (pl_now st) (stopped (pl_now st) ts)"
    by (auto simp: timespan_ok_def stopped_def truthy_number_def split: option.splits)
  with assms Some show ?thesis by (simp add: stopTimespan_def perf_ok_update)
qed (use assms in \<open>simp add: stopTimespan_def\<close>)

lemma clearCompleted_ok: "perf_ok st \<Longrightarrow> perf_ok (clearCompleted st)"
  by (auto simp: perf_ok_def clearCompleted_def distinct_map_filter)

lemma perf_ok_step: "perf_ok st \<Longrightarrow> perf_ok (perf_step st e)"
proof (cases e)
  case (Tick d)
  assume "perf_ok st"
  with Tick show ?thesis by (auto simp: perf_ok_def elim!: timespan_ok_later)
next
  case (ClearExcept ks)
  assume "perf_ok st"
  with ClearExcept show ?thesis by (simp add: clearExceptTimespans_def split: option.split)
qed (auto simp: addTimespan_ok startTimespan_ok stopTimespan_ok clearCompleted_ok addTimespans_ok
    clear_def setExtra_def removeExtra_def markPoint_def)

interpretation plm: event_machine perf_step perf_ok
  by unfold_locales (rule perf_ok_step)

text \<open>
  Whatever is added, started, stopped and cleared, in any order, no key has two timespans,
  and a timespan that has ended was started before and its total time is the difference,
  which is never negative.
\<close>

theorem timespans_consistent:
  "let st = foldl perf_step (createPerformanceLogger now) evs
   in distinct (map fst (timespans st)) \<and>
      (\<forall>k ts e. (k, ts) \<in> set (timespans st) \<and> endTime ts = Some e \<longrightarrow>
         (\<exists>s. startTime ts = Some s \<and> s \<le> e \<and> e \<le> pl_now st \<and> totalTime ts = Some (e - s)))"
proof -
  have "perf_ok (createPerformanceLogger now)" by (simp add: perf_ok_def createPerformanceLogger_def)
  from plm.inv_run [OF this, of evs] show ?thesis
    by (fastforce simp: perf_ok_def timespan_ok_def Let_def split: option.splits)
qed

text \<open>
  \<open>clearExceptTimespans\<close> cannot keep anything: if one of the given keys has a timespan it
  throws and clears nothing, and otherwise it clears every timespan.
\<close>

theorem clear_except_keeps_nothing:
  "clearExceptTimespans keys st =
     (if \<exists>k \<in> set keys. hasTimespan k st
      then Throw (TypeError ''Cannot read property _timespans of undefined'') st
      else Ret () (clear st))"
proof -
  have "reduce_kept keys ks =
      (if set keys \<inter> set ks = {} then None else Some (TypeError ''Cannot read property _timespans of undefined''))" for ks
    by (induction ks) (auto simp: index_of_None_iff)
  moreover have "(\<exists>k \<in> set keys. hasTimespan k st) \<longleftrightarrow> set keys \<inter> set (map fst (timespans st)) \<noteq> {}"
    by (auto simp: hasTimespan_def map_of_eq_None_iff)
  ultimately show ?thesis by (simp add: clearExceptTimespans_def clear_def)
qed

text \<open>Stopping a timespan twice changes nothing, unless an update is asked for.\<close>

lemma stop_is_final:
  assumes "map_of (timespans st) k = Some ts" and "truthy_number (startTime ts)" and "pl_now st \<noteq> 0"
  shows "stopTimespan k False (stopTimespan k True st) = stopTimespan k True st"
  using assms by (simp add: stopTimespan_def stopped_def truthy_number_def endAsyncEvent_def update_conv' split: option.split)

theorem timespans_consistent_witness:
  "\<exists>ts. map_of (timespans (foldl perf_step (createPerformanceLogger 1)
      [StartTimespan ''a'' None, Tick 5, StopTimespan ''a'' False])) ''a'' = Some ts \<and> totalTime ts = Some 5"
proof -
  let ?es = "[StartTimespan ''a'' None, Tick 5, StopTimespan ''a'' False]"
  let ?st = "foldl perf_step (createPerformanceLogger 1) ?es"
  let ?ts = "\<lparr>description = None, totalTime = Some 5, startTime = Some 1, endTime = Some 6\<rparr>"
  have "timespans ?st = [(''a'', ?ts)]"
    by (simp add: createPerformanceLogger_def startTimespan_def stopTimespan_def hasTimespan_def beginAsyncEvent_def
        endAsyncEvent_def stopped_def truthy_number_def)
  then show ?thesis using timespans_consistent [of 1 ?es] by (auto simp: Let_def)
qed

theorem clear_except_keeps_nothing_witness:
  "clearExceptTimespans [''a''] (addTimespan ''a'' 3 None (createPerformanceLogger 0)) =
     Throw (TypeError ''Cannot read property _timespans of undefined'') (addTimespan ''a'' 3 None (createPerformanceLogger 0))"
  by (simp add: clear_except_keeps_nothing addTimespan_def hasTimespan_def createPerformanceLogger_def)

end
