(* ===== verification/AsyncStorage.thy ===== *)
theory AsyncStorage
  imports JSValue "HOL-Library.Multiset"
begin

text \<open>
  \<open>Libraries/Storage/AsyncStorage.js\<close>: the key-value storage, a machine driven by its
  users, by the immediate that flushes batched reads, and by the replies of the native module.

  Calls of \<open>RCTAsyncStorage\<close> that are not answered yet are kept with the closure that
  handles the reply (\<open>reply_handler\<close>).  Promises are numbered; callbacks are logged.
  A reply is the error argument and the result argument, each of which may be missing.
\<close>

section \<open>State\<close>

record native_error =
  err_message :: string
  err_key :: "string option"

datatype errors_arg = NoErrors | OneError native_error | ErrorList "native_error option list"

datatype storage_value = NullValue | StringValue string | PairsValue "(string \<times> string option) list" | KeysValue "string list option"

datatype storage_promise = StoragePending | StorageResolved storage_value | StorageRejected "native_error option list"

record get_request =
  gr_keys :: "string list"
  gr_callback :: bool
  gr_promise :: nat

text \<open>The closures: of \<open>getItem\<close>, of the single-key writes, of the batched writes, of
  \<open>clear\<close>, of \<open>getAllKeys\<close> and of \<open>flushGetRequests\<close>.\<close>

datatype reply_handler =
    GetItemReply nat bool
  | WriteOneReply nat bool
  | WriteManyReply nat bool
  | ClearReply nat bool
  | AllKeysReply nat bool
  | FlushReply "get_request list"

datatype storage_call =
    MultiGet "string list" | MultiSet "(string \<times> string) list" | MultiRemove "string list"
  | MultiMerge "(string \<times> string) list" | ClearAll | GetAllKeys

datatype storage_result = NoResult | PairsResult "(string \<times> string option) list" | KeysResult "string list"

datatype storage_callback = Called "native_error option list option" storage_value

record async_storage =
  getRequests :: "get_request list"
  getKeys :: "string list"
  immediate :: bool
  pendingCalls :: "(storage_call \<times> reply_handler) list"
  storagePromises :: "storage_promise list"
  callbackLog :: "storage_callback list"
  available :: bool

definition new_AsyncStorage :: "bool \<Rightarrow> async_storage" where
  "new_AsyncStorage avail = \<lparr>getRequests = [], getKeys = [], immediate = False, pendingCalls = [],
     storagePromises = [], callbackLog = [], available = avail\<rparr>"

section \<open>Errors\<close>

definition convertError :: "native_error option \<Rightarrow> native_error option" where
  "convertError e = (case e of None \<Rightarrow> None | Some x \<Rightarrow> Some \<lparr>err_message = err_message x, err_key = err_key x\<rparr>)"

definition convertErrors :: "errors_arg \<Rightarrow> native_error option list option" where
  "convertErrors errs =
     (case errs of
        NoErrors \<Rightarrow> None
      | OneError e \<Rightarrow> Some (map convertError [Some e])
      | ErrorList es \<Rightarrow> Some (map convertError es))"

text \<open>\<open>errs[0]\<close>; an empty array has no first element.\<close>

definition first_error :: "native_error option list \<Rightarrow> native_error option" where
  "first_error es = (case es of [] \<Rightarrow> None | e # _ \<Rightarrow> e)"

section \<open>Operations\<close>

type_synonym storage_outcome = "(js_exn, async_storage, nat) outcome"

definition new_storage_promise :: "async_storage \<Rightarrow> nat \<times> async_storage" where
  "new_storage_promise st =
     (length (storagePromises st), st\<lparr>storagePromises := storagePromises st @ [StoragePending]\<rparr>)"

definition settle_storage :: "nat \<Rightarrow> storage_promise \<Rightarrow> async_storage \<Rightarrow> async_storage" where
  "settle_storage p v st =
     (if p < length (storagePromises st) \<and> storagePromises st ! p = StoragePending
      then st\<lparr>storagePromises := (storagePromises st)[p := v]\<rparr> else st)"

text \<open>The common shape of the operations that call the native module at once.\<close>

definition request :: "storage_call \<Rightarrow> (nat \<Rightarrow> reply_handler) \<Rightarrow> async_storage \<Rightarrow> storage_outcome" where
  "request c handler st =
     (if \<not> available st then Throw (InvariantViolation ''RCTAsyncStorage not available'') st
      else
        (case new_storage_promise st of
           (p, st1) \<Rightarrow> Ret p (st1\<lparr>pendingCalls := pendingCalls st1 @ [(c, handler p)]\<rparr>)))"

definition getItem :: "string \<Rightarrow> bool \<Rightarrow> async_storage \<Rightarrow> storage_outcome" where
  "getItem key cb = request (MultiGet [key]) (\<lambda>p. GetItemReply p cb)"

definition setItem :: "string \<Rightarrow> string \<Rightarrow> bool \<Rightarrow> async_storage \<Rightarrow> storage_outcome" where
  "setItem key v cb = request (MultiSet [(key, v)]) (\<lambda>p. WriteOneReply p cb)"

definition removeItem :: "string \<Rightarrow> bool \<Rightarrow> async_storage \<Rightarrow> storage_outcome" where
  "removeItem key cb = request (MultiRemove [key]) (\<lambda>p. WriteOneReply p cb)"

definition mergeItem :: "string \<Rightarrow> string \<Rightarrow> bool \<Rightarrow> async_storage \<Rightarrow> storage_outcome" where
  "mergeItem key v cb = request (MultiMerge [(key, v)]) (\<lambda>p. WriteOneReply p cb)"

definition storage_clear :: "bool \<Rightarrow> async_storage \<Rightarrow> storage_outcome" where
  "storage_clear cb = request ClearAll (\<lambda>p. ClearReply p cb)"

definition getAllKeys :: "bool \<Rightarrow> async_storage \<Rightarrow> storage_outcome" where
  "getAllKeys cb = request GetAllKeys (\<lambda>p. AllKeysReply p cb)"

definition multiSet :: "(string \<times> string) list \<Rightarrow> bool \<Rightarrow> async_storage \<Rightarrow> storage_outcome" where
  "multiSet kvs cb = request (MultiSet kvs) (\<lambda>p. WriteManyReply p cb)"

definition multiRemove :: "string list \<Rightarrow> bool \<Rightarrow> async_storage \<Rightarrow> storage_outcome" where
  "multiRemove keys cb = request (MultiRemove keys) (\<lambda>p. WriteManyReply p cb)"

definition multiMerge :: "(string \<times> string) list \<Rightarrow> bool \<Rightarrow> async_storage \<Rightarrow> storage_outcome" where
  "multiMerge kvs cb = request (MultiMerge kvs) (\<lambda>p. WriteManyReply p cb)"

text \<open>The keys of a batch, without duplicates.\<close>

definition add_key :: "string \<Rightarrow> string list \<Rightarrow> string list" where
  "add_key k ks = (if index_of ks k = None then ks @ [k] else ks)"

definition multiGet :: "string list \<Rightarrow> bool \<Rightarrow> async_storage \<Rightarrow> nat \<times> async_storage" where
  "multiGet keys cb st =
     (case new_storage_promise (st\<lparr>immediate := True\<rparr>) of
        (p, st1) \<Rightarrow>
          (p, st1\<lparr>getRequests := getRequests st1 @ [\<lparr>gr_keys = keys, gr_callback = cb, gr_promise = p\<rparr>],
                  getKeys := fold add_key keys (getKeys st1)\<rparr>))"

definition flushGetRequests :: "async_storage \<Rightarrow> (js_exn, async_storage, unit) outcome" where
  "flushGetRequests st =
     (let st1 = st\<lparr>getRequests := [], getKeys := []\<rparr>
      in if \<not> available st then Throw (InvariantViolation ''RCTAsyncStorage not available'') st1
         else Ret () (st1\<lparr>pendingCalls := pendingCalls st1 @ [(MultiGet (getKeys st), FlushReply (getRequests st))]\<rparr>))"

text \<open>The immediate that \<open>multiGet\<close> sets.\<close>

definition run_immediate :: "async_storage \<Rightarrow> (js_exn, async_storage, unit) outcome" where
  "run_immediate st = (if immediate st then flushGetRequests (st\<lparr>immediate := False\<rparr>) else Ret () st)"

section \<open>Replies\<close>

definition log_callback :: "bool \<Rightarrow> native_error option list option \<Rightarrow> storage_value \<Rightarrow> async_storage \<Rightarrow> async_storage" where
  "log_callback cb errs v st = (if cb then st\<lparr>callbackLog := callbackLog st @ [Called errs v]\<rparr> else st)"

text \<open>\<open>result && result[0] && result[0][1] ? result[0][1] : null\<close>; the empty string is falsy.\<close>

definition first_value :: "storage_result \<Rightarrow> storage_value" where
  "first_value r =
     (case r of
        PairsResult ((_, Some v) # _) \<Rightarrow> if v \<noteq> [] then StringValue v else NullValue
      | _ \<Rightarrow> NullValue)"

definition head_of :: "native_error option list option \<Rightarrow> native_error option list option" where
  "head_of errs = (case errs of None \<Rightarrow> None | Some es \<Rightarrow> Some [first_error es])"

text \<open>The dictionary \<open>map\<close>: a later pair overwrites an earlier one.\<close>

definition result_map :: "storage_result \<Rightarrow> string \<rightharpoonup> string option" where
  "result_map r = (case r of PairsResult kvs \<Rightarrow> map_of (rev kvs) | _ \<Rightarrow> Map.empty)"

definition answer_request :: "(string \<rightharpoonup> string option) \<Rightarrow> get_request \<Rightarrow> async_storage \<Rightarrow> async_storage" where
  "answer_request m req st =
     (let requestResult = PairsValue (map (\<lambda>k. (k, case m k of None \<Rightarrow> None | Some v \<Rightarrow> v)) (gr_keys req))
      in settle_storage (gr_promise req) (StorageResolved requestResult)
           (log_callback (gr_callback req) None requestResult st))"

text \<open>The error argument of \<open>clear\<close> and \<open>getAllKeys\<close> is one error; an array has no message.\<close>

definition error_array :: "errors_arg \<Rightarrow> native_error option" where
  "error_array e =
     (case e of NoErrors \<Rightarrow> None | OneError x \<Rightarrow> Some x | ErrorList _ \<Rightarrow> Some \<lparr>err_message = [], err_key = None\<rparr>)"

fun handle_reply :: "reply_handler \<Rightarrow> errors_arg \<Rightarrow> storage_result \<Rightarrow> async_storage \<Rightarrow> async_storage" where
  "handle_reply (GetItemReply p cb) errs r st =
     (let es = convertErrors errs; v = first_value r
      in settle_storage p (case es of Some l \<Rightarrow> StorageRejected [first_error l] | None \<Rightarrow> StorageResolved v)
           (log_callback cb (head_of es) v st))"
| "handle_reply (WriteOneReply p cb) errs r st =
     (let es = convertErrors errs
      in settle_storage p (case es of Some l \<Rightarrow> StorageRejected [first_error l] | None \<Rightarrow> StorageResolved NullValue)
           (log_callback cb (head_of es) NullValue st))"
| "handle_reply (WriteManyReply p cb) errs r st =
     (let es = convertErrors errs
      in settle_storage p (case es of Some l \<Rightarrow> StorageRejected l | None \<Rightarrow> StorageResolved NullValue)
           (log_callback cb es NullValue st))"
| "handle_reply (ClearReply p cb) errs r st =
     (let e = convertError (error_array errs)
      in settle_storage p (if e \<noteq> None then StorageRejected [e] else StorageResolved NullValue)
           (log_callback cb (map_option (\<lambda>x. [Some x]) e) NullValue st))"
| "handle_reply (AllKeysReply p cb) errs r st =
     (let e = convertError (error_array errs);
          keys = KeysValue (case r of KeysResult ks \<Rightarrow> Some ks | _ \<Rightarrow> None)
      in settle_storage p (if e \<noteq> None then StorageRejected [e] else StorageResolved keys)
           (log_callback cb (map_option (\<lambda>x. [Some x]) e) keys st))"
| "handle_reply (FlushReply reqs) errs r st = fold (answer_request (result_map r)) reqs st"

text \<open>Native code answers the pending call number \<open>i\<close>; it answers each call once.\<close>

definition native_reply :: "nat \<Rightarrow> errors_arg \<Rightarrow> storage_result \<Rightarrow> async_storage \<Rightarrow> async_storage" where
  "native_reply i errs r st =
     (case array_get (pendingCalls st) i of
        None \<Rightarrow> st
      | Some (c, handler) \<Rightarrow> handle_reply handler errs r (st\<lparr>pendingCalls := remove_at i (pendingCalls st)\<rparr>))"

section \<open>Every promise is settled\<close>

text \<open>The promises that somebody will settle, and the promises that are not settled.\<close>

fun handler_promises :: "reply_handler \<Rightarrow> nat list" where
  "handler_promises (GetItemReply p _) = [p]"
| "handler_promises (WriteOneReply p _) = [p]"
| "handler_promises (WriteManyReply p _) = [p]"
| "handler_promises (ClearReply p _) = [p]"
| "handler_promises (AllKeysReply p _) = [p]"
| "handler_promises (FlushReply reqs) = map gr_promise reqs"

definition owners :: "async_storage \<Rightarrow> nat multiset" where
  "owners st = mset (map gr_promise (getRequests st)) +
     mset (concat (map (\<lambda>(c, h). handler_promises h) (pendingCalls st)))"

definition unsettled :: "storage_promise list \<Rightarrow> nat multiset" where
  "unsettled ps = mset_set {p. p < length ps \<and> ps ! p = StoragePending}"

definition storage_ok :: "async_storage \<Rightarrow> bool" where
  "storage_ok st \<longleftrightarrow> available st \<and> owners st = unsettled (storagePromises st) \<and> (getRequests st \<noteq> [] \<longrightarrow> immediate st)"

lemma unsettled_new: "unsettled (ps @ [StoragePending]) = add_mset (length ps) (unsettled ps)"
proof -
  have "{p. p < length (ps @ [StoragePending]) \<and> (ps @ [StoragePending]) ! p = StoragePending} =
      insert (length ps) {p. p < length ps \<and> ps ! p = StoragePending}"
    by (auto simp: nth_append less_Suc_eq)
  then show ?thesis by (simp add: unsettled_def)
qed

lemma unsettled_settle:
  assumes "p \<in># unsettled ps" and "v \<noteq> StoragePending"
  shows "p < length ps" "ps ! p = StoragePending" "unsettled (ps[p := v]) = unsettled ps - {#p#}"
proof -
  show p: "p < length ps" "ps ! p = StoragePending" using assms(1) by (auto simp: unsettled_def)
  have "{q. q < length (ps[p := v]) \<and> ps[p := v] ! q = StoragePending} =
      {q. q < length ps \<and> ps ! q = StoragePending} - {p}"
    using p assms(2) by (auto simp: nth_list_update)
  then show "unsettled (ps[p := v]) = unsettled ps - {#p#}"
    using p by (simp add: unsettled_def mset_set_Diff)
qed

text \<open>The promises an operation on the rest of the state does not touch.\<close>

lemma owners_simps [simp]:
  "owners (st\<lparr>storagePromises := x\<rparr>) = owners st" "owners (st\<lparr>callbackLog := l\<rparr>) = owners st"
  "owners (st\<lparr>immediate := b\<rparr>) = owners st"
  "owners (st\<lparr>pendingCalls := pendingCalls st @ [(c, h)]\<rparr>) = owners st + mset (handler_promises h)"
  "owners (st\<lparr>getRequests := getRequests st @ [r], getKeys := ks\<rparr>) = add_mset (gr_promise r) (owners st)"
  by (simp_all add: owners_def)

lemma request_ok:
  assumes "storage_ok st" and "\<And>p. handler_promises (h p) = [p]"
  shows "\<exists>p st'. request c h st = Ret p st' \<and> storage_ok st'"
  using assms by (auto simp: request_def new_storage_promise_def storage_ok_def unsettled_new owners_def)

lemma multiGet_ok: "storage_ok st \<Longrightarrow> storage_ok (snd (multiGet keys cb st))"
  by (auto simp: multiGet_def new_storage_promise_def storage_ok_def unsettled_new owners_def)

lemma owners_flush:
  "owners (st\<lparr>getRequests := [], getKeys := [], pendingCalls := pendingCalls st @ [(c, FlushReply (getRequests st))]\<rparr>) = owners st"
  by (simp add: owners_def)

lemma flush_ok:
  assumes "storage_ok st"
  shows "\<exists>st'. flushGetRequests st = Ret () st' \<and> storage_ok st'"
  using assms owners_flush [of st "MultiGet (getKeys st)"] by (simp add: flushGetRequests_def storage_ok_def Let_def)

lemma immediate_ok:
  assumes "storage_ok st"
  shows "\<exists>st'. run_immediate st = Ret () st' \<and> storage_ok st'"
  using assms owners_flush [of "st\<lparr>immediate := False\<rparr>" "MultiGet (getKeys st)"]
  by (auto simp: run_immediate_def flushGetRequests_def storage_ok_def Let_def)

text \<open>A reply settles the promises of its handler, which nobody else owns.\<close>

lemma settle_storage_pending:
  assumes "p \<in># unsettled (storagePromises st)" and "v \<noteq> StoragePending"
  shows "unsettled (storagePromises (settle_storage p v st)) = unsettled (storagePromises st) - {#p#}"
  using unsettled_settle [OF assms] by (simp add: settle_storage_def)

lemma frame_simps [simp]:
  "storagePromises (log_callback cb es v st) = storagePromises st"
  "owners (log_callback cb es v st) = owners st" "owners (settle_storage p w st) = owners st"
  "available (log_callback cb es v st) = available st" "available (settle_storage p w st) = available st"
  "getRequests (log_callback cb es v st) = getRequests st" "getRequests (settle_storage p w st) = getRequests st"
  "immediate (log_callback cb es v st) = immediate st" "immediate (settle_storage p w st) = immediate st"
  by (simp_all add: log_callback_def settle_storage_def)

lemma answer_requests_settle:
  assumes "mset (map gr_promise reqs) \<subseteq># unsettled (storagePromises st)"
  shows "unsettled (storagePromises (fold (answer_request m) reqs st)) =
      unsettled (storagePromises st) - mset (map gr_promise reqs)"
  using assms
proof (induction reqs arbitrary: st)
  case (Cons r reqs)
  let ?st = "answer_request m r st"
  have "gr_promise r \<in># unsettled (storagePromises st)" using Cons.prems by (simp add: insert_subset_eq_iff)
  then have u: "unsettled (storagePromises ?st) = unsettled (storagePromises st) - {#gr_promise r#}"
    by (simp add: answer_request_def settle_storage_pending Let_def)
  then have "mset (map gr_promise reqs) \<subseteq># unsettled (storagePromises ?st)"
    using Cons.prems by (simp add: insert_subset_eq_iff)
  from Cons.IH [OF this] u show ?case by simp
qed simp

lemma answer_requests_frame [simp]:
  "owners (fold (answer_request m) reqs st) = owners st"
  "available (fold (answer_request m) reqs st) = available st"
  "getRequests (fold (answer_request m) reqs st) = getRequests st"
  "immediate (fold (answer_request m) reqs st) = immediate st"
  by (induction reqs arbitrary: st) (simp_all add: answer_request_def Let_def)

lemma reply_settles:
  assumes "mset (handler_promises h) \<subseteq># unsettled (storagePromises st)"
  shows "unsettled (storagePromises (handle_reply h errs r st)) = unsettled (storagePromises st) - mset (handler_promises h)"
    and "owners (handle_reply h errs r st) = owners st" "available (handle_reply h errs r st) = available st"
    and "getRequests (handle_reply h errs r st) = getRequests st" "immediate (handle_reply h errs r st) = immediate st"
  using assms
  by (cases h; simp add: settle_storage_pending answer_requests_settle Let_def split: option.split)+

lemma native_reply_ok:
  assumes "storage_ok st"
  shows "storage_ok (native_reply i errs r st)"
proof (cases "array_get (pendingCalls st) i")
  case None
  with assms show ?thesis by (simp add: native_reply_def)
next
  case (Some ch)
  obtain c h where ch: "ch = (c, h)" by (cases ch)
  let ?st = "st\<lparr>pendingCalls := remove_at i (pendingCalls st)\<rparr>"
  from Some ch obtain xs ys where "pendingCalls st = xs @ (c, h) # ys" "remove_at i (pendingCalls st) = xs @ ys"
    by (blast elim: array_get_split)
  then have o: "owners st = owners ?st + mset (handler_promises h)" by (simp add: owners_def)
  have u: "owners st = unsettled (storagePromises ?st)" using assms by (simp add: storage_ok_def)
  have "mset (handler_promises h) \<subseteq># owners st" unfolding o by simp
  then have "mset (handler_promises h) \<subseteq># unsettled (storagePromises ?st)" unfolding u .
  note rs = reply_settles [OF this, of errs r]
  have "owners ?st = unsettled (storagePromises ?st) - mset (handler_promises h)"
    unfolding u [symmetric] o by simp
  then have "storage_ok (handle_reply h errs r ?st)"
    using assms rs by (simp add: storage_ok_def)
  with Some ch show ?thesis by (simp add: native_reply_def)
qed

datatype storage_event =
    GetItem string bool | SetItem string string bool | RemoveItem string bool | MergeItem string string bool
  | ClearStorage bool | AllKeys bool | MultiGetItems "string list" bool | MultiSetItems "(string \<times> string) list" bool
  | MultiRemoveItems "string list" bool | MultiMergeItems "(string \<times> string) list" bool
  | Immediate | Reply nat errors_arg storage_result

fun storage_step :: "async_storage \<Rightarrow> storage_event \<Rightarrow> async_storage" where
  "storage_step st (GetItem k cb) = out_state (getItem k cb st)"
| "storage_step st (SetItem k v cb) = out_state (setItem k v cb st)"
| "storage_step st (RemoveItem k cb) = out_state (removeItem k cb st)"
| "storage_step st (MergeItem k v cb) = out_state (mergeItem k v cb st)"
| "storage_step st (ClearStorage cb) = out_state (storage_clear cb st)"
| "storage_step st (AllKeys cb) = out_state (getAllKeys cb st)"
| "storage_step st (MultiGetItems ks cb) = snd (multiGet ks cb st)"
| "storage_step st (MultiSetItems kvs cb) = out_state (multiSet kvs cb st)"
| "storage_step st (MultiRemoveItems ks cb) = out_state (multiRemove ks cb st)"
| "storage_step st (MultiMergeItems kvs cb) = out_state (multiMerge kvs cb st)"
| "storage_step st Immediate = out_state (run_immediate st)"
| "storage_step st (Reply i errs r) = native_reply i errs r st"

lemma request_state_ok: "storage_ok st \<Longrightarrow> (\<And>p. handler_promises (h p) = [p]) \<Longrightarrow> storage_ok (out_state (request c h st))"
  using request_ok [of st h c] by auto

lemma storage_ok_step: "storage_ok st \<Longrightarrow> storage_ok (storage_step st e)"
  using immediate_ok [of st]
  by (cases e) (auto simp: getItem_def setItem_def removeItem_def mergeItem_def storage_clear_def getAllKeys_def
      multiSet_def multiRemove_def multiMerge_def multiGet_ok native_reply_ok intro!: request_state_ok)

interpretation asm: event_machine storage_step storage_ok
  by unfold_locales (rule storage_ok_step)

lemma new_storage_ok: "storage_ok (new_AsyncStorage True)"
  by (simp add: storage_ok_def new_AsyncStorage_def owners_def unsettled_def)


section \<open>Batched reads\<close>

lemma add_keys: "set (fold add_key ks acc) = set acc \<union> set ks" "distinct acc \<Longrightarrow> distinct (fold add_key ks acc)"
  by (induction ks arbitrary: acc) (auto simp: add_key_def index_of_None_iff)

definition read_all :: "string list list \<Rightarrow> async_storage \<Rightarrow> async_storage" where
  "read_all kss st = fold (\<lambda>ks s. snd (multiGet ks False s)) kss st"

text \<open>The requests that a sequence of reads makes, for the promises from \<open>n\<close> on.\<close>

fun batch :: "nat \<Rightarrow> string list list \<Rightarrow> get_request list" where
  "batch n [] = []"
| "batch n (ks # kss) = \<lparr>gr_keys = ks, gr_callback = False, gr_promise = n\<rparr> # batch (Suc n) kss"

lemma read_all_state:
  "getRequests (read_all kss st) = getRequests st @ batch (length (storagePromises st)) kss \<and>
   getKeys (read_all kss st) = fold add_key (concat kss) (getKeys st) \<and>
   storagePromises (read_all kss st) = storagePromises st @ replicate (length kss) StoragePending \<and>
   pendingCalls (read_all kss st) = pendingCalls st \<and> available (read_all kss st) = available st \<and>
   (kss \<noteq> [] \<longrightarrow> immediate (read_all kss st))"
proof (induction kss arbitrary: st)
  case (Cons ks kss)
  have "read_all (ks # kss) st = read_all kss (snd (multiGet ks False st))" by (simp add: read_all_def)
  with Cons.IH [of "snd (multiGet ks False st)"] show ?case
    by (cases kss) (auto simp: multiGet_def new_storage_promise_def read_all_def)
qed (simp add: read_all_def)

lemma answer_batch:
  assumes "storagePromises st = old @ replicate (length kss) StoragePending"
  shows "storagePromises (fold (answer_request m) (batch (length old) kss) st) =
    old @ map (\<lambda>ks. StorageResolved (PairsValue (map (\<lambda>k. (k, case m k of None \<Rightarrow> None | Some v \<Rightarrow> v)) ks))) kss"
  using assms
proof (induction kss arbitrary: old st)
  case (Cons ks kss)
  let ?v = "StorageResolved (PairsValue (map (\<lambda>k. (k, case m k of None \<Rightarrow> None | Some v \<Rightarrow> v)) ks))"
  have "storagePromises (answer_request m \<lparr>gr_keys = ks, gr_callback = False, gr_promise = length old\<rparr> st) =
      (old @ [?v]) @ replicate (length kss) StoragePending"
    using Cons.prems by (simp add: answer_request_def log_callback_def settle_storage_def nth_append Let_def list_update_append)
  from Cons.IH [OF this] show ?case by simp
qed simp

text \<open>
  Reads that are issued together are fetched by one native call that names every key once,
  and if native code answers with the stored value of each key, every read gets the stored
  values of its own keys, in its own order.
\<close>

theorem batched_reads_agree:
  assumes "storage_ok st" and "getRequests st = []" and "getKeys st = []" and "pendingCalls st = []" and "kss \<noteq> []"
  shows "\<exists>keys reqs st1. run_immediate (read_all kss st) = Ret () st1 \<and>
    pendingCalls st1 = [(MultiGet keys, FlushReply reqs)] \<and> distinct keys \<and> set keys = set (concat kss) \<and>
    storagePromises (native_reply 0 NoErrors (PairsResult (map (\<lambda>k. (k, store k)) keys)) st1) =
      storagePromises st @ map (\<lambda>ks. StorageResolved (PairsValue (map (\<lambda>k. (k, store k)) ks))) kss"
proof -
  define keys where "keys = fold add_key (concat kss) []"
  define reqs where "reqs = batch (length (storagePromises st)) kss"
  define st1 where "st1 = (read_all kss st)\<lparr>immediate := False, getRequests := [], getKeys := [],
      pendingCalls := [(MultiGet keys, FlushReply reqs)]\<rparr>"
  note r = read_all_state [of kss st]
  have imm: "run_immediate (read_all kss st) = Ret () st1"
    using r assms by (simp add: run_immediate_def flushGetRequests_def storage_ok_def st1_def keys_def reqs_def Let_def)
  have k: "distinct keys" "set keys = set (concat kss)" by (simp_all add: keys_def add_keys)
  let ?m = "result_map (PairsResult (map (\<lambda>k. (k, store k)) keys))"
  have m: "?m k = (if k \<in> set (concat kss) then Some (store k) else None)" for k
  proof -
    have "map_of (map (\<lambda>k. (k, store k)) ks) k = (if k \<in> set ks then Some (store k) else None)" for ks
      by (induction ks) auto
    with k(2) show ?thesis by (simp add: result_map_def rev_map)
  qed
  have "storagePromises (st1\<lparr>pendingCalls := []\<rparr>) = storagePromises st @ replicate (length kss) StoragePending"
    using r by (simp add: st1_def)
  from answer_batch [OF this, of ?m] have
    "storagePromises (native_reply 0 NoErrors (PairsResult (map (\<lambda>k. (k, store k)) keys)) st1) =
      storagePromises st @ map (\<lambda>ks. StorageResolved (PairsValue (map (\<lambda>k. (k, case ?m k of None \<Rightarrow> None | Some v \<Rightarrow> v)) ks))) kss"
    by (simp add: native_reply_def array_get_def st1_def remove_at_def reqs_def)
  also have "\<dots> = storagePromises st @ map (\<lambda>ks. StorageResolved (PairsValue (map (\<lambda>k. (k, store k)) ks))) kss"
    using m by (auto intro!: map_cong)
  finally show ?thesis using imm k by (intro exI [of _ keys] exI [of _ reqs] exI [of _ st1]) (simp add: st1_def)
qed

text \<open>
  An empty string that is stored reads as \<open>null\<close> through \<open>getItem\<close>, although
  \<open>multiGet\<close> returns it.
\<close>

theorem empty_string_reads_null:
  assumes "available st"
  shows "\<exists>p st1. getItem k cb st = Ret p st1 \<and>
    storagePromises (native_reply (length (pendingCalls st)) NoErrors (PairsResult [(k, Some [])]) st1) ! p =
      StorageResolved NullValue"
  using assms
  by (simp add: getItem_def request_def new_storage_promise_def native_reply_def array_get_def convertErrors_def
      first_value_def settle_storage_def log_callback_def Let_def)

section \<open>Witnesses\<close>


theorem batched_reads_agree_witness:
  "\<exists>keys reqs st1. run_immediate (read_all [[''a'', ''b''], [''b'']] (new_AsyncStorage True)) = Ret () st1 \<and>
    pendingCalls st1 = [(MultiGet keys, FlushReply reqs)] \<and> set keys = {''a'', ''b''}"
  using batched_reads_agree [of "new_AsyncStorage True" "[[''a'', ''b''], [''b'']]" "\<lambda>k. Some k"] new_storage_ok
  by (auto simp: new_AsyncStorage_def insert_commute)

theorem empty_string_reads_null_witness:
  "\<exists>p st1. getItem ''a'' False (new_AsyncStorage True) = Ret p st1 \<and>
    storagePromises (native_reply 0 NoErrors (PairsResult [(''a'', Some [])]) st1) ! p = StorageResolved NullValue"
  using empty_string_reads_null [of "new_AsyncStorage True" "''a''" False] by (simp add: new_AsyncStorage_def)

end
