(* ===== verification/AnimatedInterpolation.thy ===== *)
theory AnimatedInterpolation
  imports JSValue
begin

text \<open>
  \<open>Libraries/Animated/src/nodes/AnimatedInterpolation.js\<close>: the functions that map an input
  range to an output range.  The code treats infinite range boundaries apart, so numbers are
  those of \<open>JSValue\<close>, with the arithmetic of IEEE floating point numbers without rounding
  and without the sign of zero.  An invariant that fails is an \<open>Inl\<close>; a function that is
  returned is a function.
\<close>

section \<open>Arithmetic\<close>

fun num_neg :: "js_number \<Rightarrow> js_number" where
  "num_neg (Finite a) = Finite (- a)"
| "num_neg Infinity = NegInfinity"
| "num_neg NegInfinity = Infinity"
| "num_neg NaN = NaN"

fun num_add :: "js_number \<Rightarrow> js_number \<Rightarrow> js_number" where
  "num_add (Finite a) (Finite b) = Finite (a + b)"
| "num_add NaN b = NaN"
| "num_add a NaN = NaN"
| "num_add Infinity NegInfinity = NaN"
| "num_add NegInfinity Infinity = NaN"
| "num_add (Finite a) b = b"
| "num_add a b = a"

definition num_sub :: "js_number \<Rightarrow> js_number \<Rightarrow> js_number" where
  "num_sub a b = num_add a (num_neg b)"

fun num_sgn :: "js_number \<Rightarrow> real" where
  "num_sgn (Finite a) = sgn a"
| "num_sgn Infinity = 1"
| "num_sgn NegInfinity = - 1"
| "num_sgn NaN = 0"

definition infinity_of :: "real \<Rightarrow> js_number" where
  "infinity_of s = (if s > 0 then Infinity else if s < 0 then NegInfinity else NaN)"

fun num_mul :: "js_number \<Rightarrow> js_number \<Rightarrow> js_number" where
  "num_mul (Finite a) (Finite b) = Finite (a * b)"
| "num_mul NaN b = NaN"
| "num_mul a NaN = NaN"
| "num_mul a b = infinity_of (num_sgn a * num_sgn b)"

fun num_div :: "js_number \<Rightarrow> js_number \<Rightarrow> js_number" where
  "num_div (Finite a) (Finite b) = (if b = 0 then infinity_of a else Finite (a / b))"
| "num_div NaN b = NaN"
| "num_div a NaN = NaN"
| "num_div (Finite a) b = Finite 0"
| "num_div a (Finite b) = infinity_of (num_sgn a * (if b < 0 then - 1 else 1))"
| "num_div a b = NaN"

fun num_less :: "js_number \<Rightarrow> js_number \<Rightarrow> bool" where
  "num_less (Finite a) (Finite b) = (a < b)"
| "num_less NaN b = False"
| "num_less a NaN = False"
| "num_less a NegInfinity = False"
| "num_less NegInfinity b = True"
| "num_less Infinity b = False"
| "num_less a Infinity = True"

text \<open>The operator \<open>===\<close> on numbers.\<close>

definition num_eq :: "js_number \<Rightarrow> js_number \<Rightarrow> bool" where
  "num_eq a b \<longleftrightarrow> a = b \<and> a \<noteq> NaN"

definition num_le :: "js_number \<Rightarrow> js_number \<Rightarrow> bool" where
  "num_le a b \<longleftrightarrow> num_less a b \<or> num_eq a b"

lemma num_simps [simp]:
  "num_sub (Finite a) (Finite b) = Finite (a - b)"
  "num_eq (Finite a) (Finite b) = (a = b)"
  "num_le (Finite a) (Finite b) = (a \<le> b)"
  by (auto simp: num_sub_def num_eq_def num_le_def)

section \<open>Configurations\<close>

datatype extrapolate_type = Extend | Identity | Clamp

record interpolation_config =
  inputRange :: "js_number list"
  outputRange :: "js_number list"
  easing :: "(js_number \<Rightarrow> js_number) option"
  extrapolate :: "extrapolate_type option"
  extrapolateLeft :: "extrapolate_type option"
  extrapolateRight :: "extrapolate_type option"

definition linear :: "js_number \<Rightarrow> js_number" where
  "linear t = t"

section \<open>Checks\<close>

text \<open>The loop of \<open>checkValidInputRange\<close> from the index \<open>i\<close>, with \<open>n\<close> iterations left.\<close>

fun non_decreasing_from :: "js_number list \<Rightarrow> nat \<Rightarrow> nat \<Rightarrow> bool" where
  "non_decreasing_from arr i 0 = True"
| "non_decreasing_from arr i (Suc n) = (num_le (arr ! (i - 1)) (arr ! i) \<and> non_decreasing_from arr (Suc i) n)"

definition checkValidInputRange :: "js_number list \<Rightarrow> js_exn + unit" where
  "checkValidInputRange arr =
     (if length arr < 2 then Inl (InvariantViolation ''inputRange must have at least 2 elements'')
      else if \<not> non_decreasing_from arr 1 (length arr - 1)
      then Inl (InvariantViolation ''inputRange must be monotonically non-decreasing'')
      else Inr ())"

definition checkInfiniteRange :: "string \<Rightarrow> js_number list \<Rightarrow> js_exn + unit" where
  "checkInfiniteRange name arr =
     (if length arr < 2 then Inl (InvariantViolation (name @ '' must have at least 2 elements''))
      else if length arr = 2 \<and> num_eq (arr ! 0) NegInfinity \<and> num_eq (arr ! 1) Infinity
      then Inl (InvariantViolation (name @ ''cannot be ]-infinity;+infinity[ ''))
      else Inr ())"

section \<open>Interpolating\<close>

text \<open>The loop of \<open>findRange\<close> from the index \<open>i\<close>, with \<open>n\<close> iterations left.\<close>

fun findRange_from :: "js_number \<Rightarrow> js_number list \<Rightarrow> nat \<Rightarrow> nat \<Rightarrow> nat" where
  "findRange_from input rng i 0 = i"
| "findRange_from input rng i (Suc n) =
     (if num_le input (rng ! i) then i else findRange_from input rng (Suc i) n)"

definition findRange :: "js_number \<Rightarrow> js_number list \<Rightarrow> nat" where
  "findRange input rng = findRange_from input rng 1 (length rng - 2) - 1"

text \<open>
  The body of \<open>interpolate\<close> after the extrapolation, for the original \<open>input\<close> and the
  extrapolated \<open>result\<close>.
\<close>

definition interpolate_within ::
  "js_number \<Rightarrow> js_number \<Rightarrow> js_number \<Rightarrow> js_number \<Rightarrow> js_number \<Rightarrow> js_number \<Rightarrow> (js_number \<Rightarrow> js_number) \<Rightarrow> js_number" where
  "interpolate_within input result inputMin inputMax outputMin outputMax ease =
     (if num_eq outputMin outputMax then outputMin
      else if num_eq inputMin inputMax then (if num_le input inputMin then outputMin else outputMax)
      else (let r1 = (if num_eq inputMin NegInfinity then num_neg result
                      else if num_eq inputMax Infinity then num_sub result inputMin
                      else num_div (num_sub result inputMin) (num_sub inputMax inputMin));
                r2 = ease r1
            in if num_eq outputMin NegInfinity then num_neg r2
               else if num_eq outputMax Infinity then num_add r2 outputMin
               else num_add (num_mul r2 (num_sub outputMax outputMin)) outputMin))"

definition interpolate ::
  "js_number \<Rightarrow> js_number \<Rightarrow> js_number \<Rightarrow> js_number \<Rightarrow> js_number \<Rightarrow> (js_number \<Rightarrow> js_number) \<Rightarrow>
   extrapolate_type \<Rightarrow> extrapolate_type \<Rightarrow> js_number" where
  "interpolate input inputMin inputMax outputMin outputMax ease left right =
     (if num_less input inputMin \<and> left = Identity then input
      else (let r = (if num_less input inputMin \<and> left = Clamp then inputMin else input)
            in if num_less inputMax r \<and> right = Identity then r
               else (let r' = (if num_less inputMax r \<and> right = Clamp then inputMax else r)
                     in interpolate_within input r' inputMin inputMax outputMin outputMax ease)))"

definition left_of :: "interpolation_config \<Rightarrow> extrapolate_type" where
  "left_of config = (case extrapolateLeft config of Some e \<Rightarrow> e
     | None \<Rightarrow> (case extrapolate config of Some e \<Rightarrow> e | None \<Rightarrow> Extend))"

definition right_of :: "interpolation_config \<Rightarrow> extrapolate_type" where
  "right_of config = (case extrapolateRight config of Some e \<Rightarrow> e
     | None \<Rightarrow> (case extrapolate config of Some e \<Rightarrow> e | None \<Rightarrow> Extend))"

definition easing_of :: "interpolation_config \<Rightarrow> js_number \<Rightarrow> js_number" where
  "easing_of config = (case easing config of Some e \<Rightarrow> e | None \<Rightarrow> linear)"

text \<open>The function that \<open>createInterpolation\<close> returns.\<close>

definition interpolation_of :: "interpolation_config \<Rightarrow> js_number \<Rightarrow> js_number" where
  "interpolation_of config input =
     (let r = findRange input (inputRange config)
      in interpolate input (inputRange config ! r) (inputRange config ! (r + 1))
           (outputRange config ! r) (outputRange config ! (r + 1))
           (easing_of config) (left_of config) (right_of config))"

definition createInterpolation :: "interpolation_config \<Rightarrow> js_exn + (js_number \<Rightarrow> js_number)" where
  "createInterpolation config =
     (case checkInfiniteRange ''outputRange'' (outputRange config) of
        Inl e \<Rightarrow> Inl e
      | Inr _ \<Rightarrow> (case checkInfiniteRange ''inputRange'' (inputRange config) of
          Inl e \<Rightarrow> Inl e
        | Inr _ \<Rightarrow> (case checkValidInputRange (inputRange config) of
            Inl e \<Rightarrow> Inl e
          | Inr _ \<Rightarrow> (if length (inputRange config) \<noteq> length (outputRange config)
              then Inl (InvariantViolation ''inputRange and outputRange must have the same length'')
              else Inr (interpolation_of config)))))"

section \<open>What the checks accept\<close>

text \<open>Ranges of finite numbers.\<close>

abbreviation numbers :: "real list \<Rightarrow> js_number list" where
  "numbers \<equiv> map Finite"

lemma interval_step: "{i..<i + Suc n} = insert i {Suc i..<Suc i + n}"
  by auto

lemma non_decreasing_from_iff:
  "non_decreasing_from arr i n \<longleftrightarrow> (\<forall>j\<in>{i..<i + n}. num_le (arr ! (j - 1)) (arr ! j))"
  by (induction arr i n rule: non_decreasing_from.induct) (simp_all only: interval_step non_decreasing_from.simps, auto)

lemma non_decreasing_numbers:
  "non_decreasing_from (numbers xs) 1 (length xs - 1) \<longleftrightarrow> sorted xs"
proof -
  have "sorted xs \<longleftrightarrow> (\<forall>j\<in>{1..<length xs}. xs ! (j - 1) \<le> xs ! j)" (is "_ \<longleftrightarrow> ?R")
  proof
    assume "sorted xs" then show ?R by (auto intro: sorted_nth_mono)
  next
    assume R: ?R
    show "sorted xs" unfolding sorted_iff_nth_Suc
      using R by (auto dest: bspec [of _ _ "Suc _"])
  qed
  moreover have "num_le (numbers xs ! (j - 1)) (numbers xs ! j) \<longleftrightarrow> xs ! (j - 1) \<le> xs ! j"
    if "j \<in> {1..<length xs}" for j
    using that by (cases j) auto
  moreover have "{1..<1 + (length xs - 1)} = {1..<length xs}" by auto
  ultimately show ?thesis by (simp only: non_decreasing_from_iff cong: ball_cong)
qed

lemma createInterpolation_numbers:
  assumes "inputRange config = numbers xs" and "outputRange config = numbers ys"
  shows "(createInterpolation config = Inr f) \<longleftrightarrow>
     2 \<le> length xs \<and> length ys = length xs \<and> sorted xs \<and> f = interpolation_of config"
  using assms
  by (auto simp: createInterpolation_def checkInfiniteRange_def checkValidInputRange_def num_eq_def
      non_decreasing_numbers [symmetric] split: sum.splits if_splits)

section \<open>Finding the segment\<close>

lemma findRange_from_spec:
  "i \<le> findRange_from x rng i n \<and> findRange_from x rng i n \<le> i + n \<and>
   (\<forall>j\<in>{i..<findRange_from x rng i n}. \<not> num_le x (rng ! j)) \<and>
   (findRange_from x rng i n < i + n \<longrightarrow> num_le x (rng ! findRange_from x rng i n))"
proof (induction x rng i n rule: findRange_from.induct)
  case (2 input rng i n)
  show ?case
  proof (cases "num_le input (rng ! i)")
    case False
    let ?k = "findRange_from input rng (Suc i) n"
    note IH = 2 [OF False]
    then have "{i..<?k} = insert i {Suc i..<?k}" by auto
    with IH False show ?thesis by simp
  qed simp
qed simp

lemma findRange_numbers:
  assumes "2 \<le> length xs" and r: "r = findRange (Finite x) (numbers xs)"
  shows "r + 1 < length xs" and "0 < r \<Longrightarrow> xs ! r < x" and "r + 2 < length xs \<Longrightarrow> x \<le> xs ! (r + 1)"
proof -
  let ?k = "findRange_from (Finite x) (numbers xs) 1 (length xs - 2)"
  have spec: "1 \<le> ?k" "?k \<le> 1 + (length xs - 2)"
    "\<And>j. 1 \<le> j \<Longrightarrow> j < ?k \<Longrightarrow> \<not> num_le (Finite x) (numbers xs ! j)"
    "?k < 1 + (length xs - 2) \<Longrightarrow> num_le (Finite x) (numbers xs ! ?k)"
    using findRange_from_spec [of 1 "Finite x" "numbers xs" "length xs - 2"] by auto
  have k: "?k = r + 1" using spec(1) by (simp add: r findRange_def)
  show 1: "r + 1 < length xs" using spec(2) assms(1) k by simp
  show "xs ! r < x" if "0 < r" using spec(3) [of r] k 1 that by simp
  show "x \<le> xs ! (r + 1)" if "r + 2 < length xs" using spec(4) k 1 that by simp
qed

section \<open>One segment\<close>

text \<open>
  What a segment computes for finite boundaries when the input is not passed through: the
  position of the clamped input in the segment goes through the easing.
\<close>

definition clamped :: "extrapolate_type \<Rightarrow> extrapolate_type \<Rightarrow> real \<Rightarrow> real \<Rightarrow> real \<Rightarrow> real" where
  "clamped left right a b x = (if x < a \<and> left = Clamp then a else if b < x \<and> right = Clamp then b else x)"

lemma interpolate_numbers:
  assumes "a \<le> b" and "x < a \<Longrightarrow> left \<noteq> Identity" and "b < x \<Longrightarrow> right \<noteq> Identity"
  shows "interpolate (Finite x) (Finite a) (Finite b) (Finite c) (Finite d) ease left right =
    (if c = d then Finite c else if a = b then (if x \<le> a then Finite c else Finite d)
     else num_add (num_mul (ease (Finite ((clamped left right a b x - a) / (b - a)))) (Finite (d - c))) (Finite c))"
  using assms by (auto simp: interpolate_def interpolate_within_def clamped_def Let_def num_eq_def)

lemma interpolation_numbers:
  assumes rng: "inputRange config = numbers xs" "outputRange config = numbers ys"
    and len: "2 \<le> length xs" "length ys = length xs" and r: "r = findRange (Finite x) (numbers xs)"
  shows "interpolation_of config (Finite x) =
    interpolate (Finite x) (Finite (xs ! r)) (Finite (xs ! (r + 1))) (Finite (ys ! r)) (Finite (ys ! (r + 1)))
      (easing_of config) (left_of config) (right_of config)"
  using findRange_numbers(1) [OF len(1) r] len by (simp add: interpolation_of_def rng r Let_def)

lemma sorted_step: "sorted xs \<Longrightarrow> r + 1 < length xs \<Longrightarrow> xs ! r \<le> (xs ! (r + 1) :: real)"
  by (simp add: sorted_nth_mono)

lemma convex_between:
  assumes "0 \<le> u" "u \<le> (1 :: real)"
  shows "min c d \<le> u * (d - c) + c \<and> u * (d - c) + c \<le> max c d"
proof -
  have "u * (d - c) \<le> d - c \<and> 0 \<le> u * (d - c)" if "c \<le> d"
    using assms that mult_right_mono [of u 1 "d - c"] by simp
  moreover have "d - c \<le> u * (d - c) \<and> u * (d - c) \<le> 0" if "d \<le> c"
    using assms that mult_right_mono_neg [of u 1 "d - c"] by (simp add: mult_nonneg_nonpos)
  ultimately show ?thesis by (cases "c \<le> d") (linarith, linarith)
qed

text \<open>The linear segment over finite boundaries.\<close>

definition segment :: "extrapolate_type \<Rightarrow> extrapolate_type \<Rightarrow> real \<Rightarrow> real \<Rightarrow> real \<Rightarrow> real \<Rightarrow> real \<Rightarrow> real" where
  "segment left right a b c d x =
     (if a = b then (if x \<le> a then c else d) else (clamped left right a b x - a) / (b - a) * (d - c) + c)"

lemma interpolate_linear:
  assumes "a \<le> b" and "left_of config \<noteq> Identity" and "right_of config \<noteq> Identity" and "easing config = None"
  shows "interpolate (Finite x) (Finite a) (Finite b) (Finite c) (Finite d) (easing_of config)
    (left_of config) (right_of config) = Finite (segment (left_of config) (right_of config) a b c d x)"
  using assms by (auto simp: interpolate_numbers segment_def easing_of_def linear_def)

lemma clamped_mono: "a \<le> b \<Longrightarrow> x \<le> x' \<Longrightarrow> clamped left right a b x \<le> clamped left right a b x'"
  by (auto simp: clamped_def)

lemma segment_mono:
  assumes "a \<le> b" "c \<le> d" "x \<le> x'"
  shows "segment left right a b c d x \<le> segment left right a b c d x'"
  using assms clamped_mono [of a b x x' left right]
  by (auto simp: segment_def intro!: mult_right_mono divide_right_mono)

lemma segment_upper:
  assumes "a \<le> b" "c \<le> d" "x \<le> b" shows "segment left right a b c d x \<le> d"
proof (cases "a = b")
  case False
  have "segment left right a b c d b = d" using False assms(1) by (simp add: segment_def clamped_def)
  then show ?thesis using segment_mono [OF assms] by metis
qed (use assms in \<open>simp add: segment_def\<close>)

lemma segment_lower:
  assumes "a \<le> b" "c \<le> d" "a < x" shows "c \<le> segment left right a b c d x"
proof (cases "a = b")
  case False
  have "segment left right a b c d a = c" using False assms(1) by (simp add: segment_def clamped_def)
  then show ?thesis using segment_mono [OF assms(1,2), of a x left right] assms(3) by simp
qed (use assms in \<open>simp add: segment_def\<close>)

lemma findRange_mono:
  assumes "2 \<le> length xs" "sorted xs" "x \<le> x'"
  shows "findRange (Finite x) (numbers xs) \<le> findRange (Finite x') (numbers xs)"
proof (rule ccontr)
  let ?r = "findRange (Finite x) (numbers xs)" and ?r' = "findRange (Finite x') (numbers xs)"
  note fr = findRange_numbers [OF assms(1) refl, of x] and fr' = findRange_numbers [OF assms(1) refl, of x']
  assume "\<not> ?r \<le> ?r'"
  then have less: "?r' + 1 \<le> ?r" by simp
  then have "x' \<le> xs ! (?r' + 1)" using fr'(3) fr(1) by simp
  also have "\<dots> \<le> xs ! ?r" using assms(2) less fr(1) by (simp add: sorted_nth_mono)
  also have "\<dots> < x" using fr(2) less by simp
  finally show False using assms(3) by simp
qed

section \<open>Properties\<close>

text \<open>
  An interpolation over strictly increasing finite inputs takes every input of the range to
  the output at the same position, for every extrapolation and for every easing that fixes 0 and 1.
\<close>

theorem interpolation_hits_knots:
  assumes f: "createInterpolation config = Inr f"
    and rng: "inputRange config = numbers xs" "outputRange config = numbers ys"
    and strict: "sorted_wrt (<) xs"
    and ease: "easing_of config (Finite 0) = Finite 0" "easing_of config (Finite 1) = Finite 1"
    and k: "k < length xs"
  shows "f (Finite (xs ! k)) = Finite (ys ! k)"
proof -
  have ok: "2 \<le> length xs" "length ys = length xs" "f = interpolation_of config"
    using f createInterpolation_numbers [OF rng] by auto
  define r where "r = findRange (Finite (xs ! k)) (numbers xs)"
  note fr = findRange_numbers [OF ok(1) r_def]
  have less: "xs ! i < xs ! j \<longleftrightarrow> i < j" if "i < length xs" "j < length xs" for i j
    using that strict by (metis linorder_neqE_nat order_less_asym' sorted_wrt_nth_less less_irrefl)
  have seg: "xs ! r < xs ! (r + 1)" using less fr(1) by simp
  have "k = r \<or> k = r + 1"
  proof -
    have "r = 0 \<or> r < k" using fr(1,2) less k by (cases r) auto
    moreover have "r + 2 = length xs \<or> k \<le> r + 1"
      using fr(1,3) less [of "r + 1" k] k by (metis Suc_leI add_2_eq_Suc' add.commute le_neq_implies_less linorder_not_le plus_1_eq_Suc)
    ultimately show ?thesis using k by auto
  qed
  then show ?thesis
    using ok seg fr(1) ease
    by (auto simp: interpolation_numbers [OF rng ok(1,2) r_def] interpolate_numbers clamped_def)
qed


text \<open>
  A linear interpolation of non-decreasing outputs is monotone, across the boundaries of the
  segments, at jumps of the input range and beyond both ends, unless an end passes its input
  through.
\<close>

theorem linear_interpolation_monotone:
  assumes f: "createInterpolation config = Inr f"
    and rng: "inputRange config = numbers xs" "outputRange config = numbers ys" and ys: "sorted ys"
    and lin: "easing config = None" and ext: "left_of config \<noteq> Identity" "right_of config \<noteq> Identity"
    and le: "x \<le> x'"
  shows "\<exists>v v'. f (Finite x) = Finite v \<and> f (Finite x') = Finite v' \<and> v \<le> v'"
proof -
  have ok: "2 \<le> length xs" "length ys = length xs" "f = interpolation_of config" "sorted xs"
    using f createInterpolation_numbers [OF rng] by auto
  define r r' where r: "r = findRange (Finite x) (numbers xs)" and r': "r' = findRange (Finite x') (numbers xs)"
  note fr = findRange_numbers [OF ok(1) r] and fr' = findRange_numbers [OF ok(1) r']
  let ?seg = "\<lambda>i. segment (left_of config) (right_of config) (xs ! i) (xs ! (i + 1)) (ys ! i) (ys ! (i + 1))"
  have "f (Finite x) = Finite (?seg r x)" "f (Finite x') = Finite (?seg r' x')"
    using interpolation_numbers [OF rng ok(1,2) r] interpolation_numbers [OF rng ok(1,2) r'] ok(3) ext lin
      sorted_step [OF ok(4) fr(1)] sorted_step [OF ok(4) fr'(1)]
    by (simp_all add: interpolate_linear)
  moreover have "?seg r x \<le> ?seg r' x'"
  proof -
    note mono = segment_mono [OF sorted_step [OF ok(4)] sorted_step [OF ys]]
    have "r \<le> r'" using findRange_mono [OF ok(1,4) le] by (simp add: r r')
    then consider "r = r'" | "r < r'" by linarith
    then show ?thesis
    proof cases
      case 1 then show ?thesis using mono [OF fr(1)] fr(1) ok(2) le by simp
    next
      case 2
      have "?seg r x \<le> ys ! (r + 1)"
        using segment_upper [OF sorted_step [OF ok(4) fr(1)] sorted_step [OF ys], where x = x] fr(1,3) fr'(1) ok(2) 2 by simp
      also have "\<dots> \<le> ys ! r'" using ys 2 fr'(1) ok(2) by (simp add: sorted_nth_mono)
      also have "\<dots> \<le> ?seg r' x'"
        using segment_lower [OF sorted_step [OF ok(4) fr'(1)] sorted_step [OF ys], where x = x'] fr'(1,2) ok(2) 2 by simp
      finally show ?thesis .
    qed
  qed
  ultimately show ?thesis by blast
qed

section \<open>Witnesses\<close>

definition ex_interpolation :: interpolation_config where
  "ex_interpolation = \<lparr>inputRange = numbers [0, 1, 3], outputRange = numbers [5, 10, 30], easing = None,
     extrapolate = Some Clamp, extrapolateLeft = None, extrapolateRight = None\<rparr>"

lemma ex_interpolation_simps [simp]:
  "inputRange ex_interpolation = numbers [0, 1, 3]" "outputRange ex_interpolation = numbers [5, 10, 30]"
  "easing ex_interpolation = None" "easing_of ex_interpolation = linear"
  "left_of ex_interpolation = Clamp" "right_of ex_interpolation = Clamp"
  by (simp_all add: ex_interpolation_def easing_of_def left_of_def right_of_def)

lemma ex_interpolation_created: "createInterpolation ex_interpolation = Inr (interpolation_of ex_interpolation)"
  by (subst createInterpolation_numbers [of _ "[0, 1, 3]" "[5, 10, 30]"]) simp_all

theorem interpolation_hits_knots_witness: "interpolation_of ex_interpolation (Finite 3) = Finite 30"
  using interpolation_hits_knots [OF ex_interpolation_created, of "[0, 1, 3]" "[5, 10, 30]" 2]
  by (simp add: linear_def)


theorem linear_interpolation_monotone_witness:
  "\<exists>v v'. interpolation_of ex_interpolation (Finite (- 1)) = Finite v \<and>
     interpolation_of ex_interpolation (Finite 2) = Finite v' \<and> v \<le> v'"
  using linear_interpolation_monotone [OF ex_interpolation_created, of "[0, 1, 3]" "[5, 10, 30]" "- 1" 2] by simp

end
