(* ===== verification/SpringMotion.thy ===== *)
theory SpringMotion
  imports Prelude Complex_Main
begin

text \<open>
  The numbers behind \<open>Animated.spring\<close>: the conversions of
  \<open>Libraries/Animated/src/SpringConfig.js\<close>, the parameters the constructor of
  \<open>SpringAnimation\<close> computes, and the closed form that \<open>SpringAnimation.onUpdate\<close> evaluates.
\<close>

section \<open>Conversions\<close>

record spring_config =
  sc_stiffness :: real
  sc_damping :: real

definition stiffnessFromOrigamiValue :: "real \<Rightarrow> real" where
  "stiffnessFromOrigamiValue oValue = (oValue - 30) * 3.62 + 194"

definition dampingFromOrigamiValue :: "real \<Rightarrow> real" where
  "dampingFromOrigamiValue oValue = (oValue - 8) * 3 + 25"

definition fromOrigamiTensionAndFriction :: "real \<Rightarrow> real \<Rightarrow> spring_config" where
  "fromOrigamiTensionAndFriction tension friction =
     \<lparr>sc_stiffness = stiffnessFromOrigamiValue tension, sc_damping = dampingFromOrigamiValue friction\<rparr>"

definition normalize :: "real \<Rightarrow> real \<Rightarrow> real \<Rightarrow> real" where
  "normalize value startValue endValue = (value - startValue) / (endValue - startValue)"

definition projectNormal :: "real \<Rightarrow> real \<Rightarrow> real \<Rightarrow> real" where
  "projectNormal n start end' = start + n * (end' - start)"

definition linearInterpolation :: "real \<Rightarrow> real \<Rightarrow> real \<Rightarrow> real" where
  "linearInterpolation t start end' = t * end' + (1 - t) * start"

definition quadraticOutInterpolation :: "real \<Rightarrow> real \<Rightarrow> real \<Rightarrow> real" where
  "quadraticOutInterpolation t start end' = linearInterpolation (2 * t - t * t) start end'"

definition b3Friction1 :: "real \<Rightarrow> real" where
  "b3Friction1 x = 0.0007 * x ^ 3 - 0.031 * x ^ 2 + 0.64 * x + 1.28"

definition b3Friction2 :: "real \<Rightarrow> real" where
  "b3Friction2 x = 0.000044 * x ^ 3 - 0.006 * x ^ 2 + 0.36 * x + 2"

definition b3Friction3 :: "real \<Rightarrow> real" where
  "b3Friction3 x = 0.00000045 * x ^ 3 - 0.000332 * x ^ 2 + 0.1078 * x + 5.84"

definition b3Nobounce :: "real \<Rightarrow> real" where
  "b3Nobounce tension =
     (if tension \<le> 18 then b3Friction1 tension
      else if tension > 18 \<and> tension \<le> 44 then b3Friction2 tension
      else b3Friction3 tension)"

definition fromBouncinessAndSpeed :: "real \<Rightarrow> real \<Rightarrow> spring_config" where
  "fromBouncinessAndSpeed bounciness speed =
     (let b0 = normalize (bounciness / 1.7) 0 20;
          b = projectNormal b0 0 0.8;
          s = normalize (speed / 1.7) 0 20;
          bouncyTension = projectNormal s 0.5 200;
          bouncyFriction = quadraticOutInterpolation b (b3Nobounce bouncyTension) 0.01
      in \<lparr>sc_stiffness = stiffnessFromOrigamiValue bouncyTension,
          sc_damping = dampingFromOrigamiValue bouncyFriction\<rparr>)"

section \<open>The parameters of a spring\<close>

record spring_options =
  so_stiffness :: "real option"
  so_damping :: "real option"
  so_mass :: "real option"
  so_bounciness :: "real option"
  so_speed :: "real option"
  so_tension :: "real option"
  so_friction :: "real option"

record spring_params =
  sp_stiffness :: real
  sp_damping :: real
  sp_mass :: real

definition or_default :: "real option \<Rightarrow> real \<Rightarrow> real" where
  "or_default v d = (case v of Some x \<Rightarrow> x | None \<Rightarrow> d)"

definition one_kind_error :: js_exn where
  "one_kind_error = InvariantViolation
     ''You can define one of bounciness/speed, tension/friction, or stiffness/damping/mass, but not more than one''"

definition checked_params :: "spring_params \<Rightarrow> js_exn + spring_params" where
  "checked_params p =
     (if \<not> sp_stiffness p > 0 then Inl (InvariantViolation ''Stiffness value must be greater than 0'')
      else if \<not> sp_damping p > 0 then Inl (InvariantViolation ''Damping value must be greater than 0'')
      else if \<not> sp_mass p > 0 then Inl (InvariantViolation ''Mass value must be greater than 0'')
      else Inr p)"

definition of_spring_config :: "spring_config \<Rightarrow> spring_params" where
  "of_spring_config c = \<lparr>sp_stiffness = sc_stiffness c, sp_damping = sc_damping c, sp_mass = 1\<rparr>"

definition spring_params_of :: "spring_options \<Rightarrow> js_exn + spring_params" where
  "spring_params_of config =
     (if so_stiffness config \<noteq> None \<or> so_damping config \<noteq> None \<or> so_mass config \<noteq> None
      then (if so_bounciness config = None \<and> so_speed config = None \<and>
               so_tension config = None \<and> so_friction config = None
            then checked_params \<lparr>sp_stiffness = or_default (so_stiffness config) 100,
                   sp_damping = or_default (so_damping config) 10, sp_mass = or_default (so_mass config) 1\<rparr>
            else Inl one_kind_error)
      else if so_bounciness config \<noteq> None \<or> so_speed config \<noteq> None
      then (if so_tension config = None \<and> so_friction config = None \<and> so_stiffness config = None \<and>
               so_damping config = None \<and> so_mass config = None
            then checked_params (of_spring_config (fromBouncinessAndSpeed
                   (or_default (so_bounciness config) 8) (or_default (so_speed config) 12)))
            else Inl one_kind_error)
      else checked_params (of_spring_config (fromOrigamiTensionAndFriction
             (or_default (so_tension config) 40) (or_default (so_friction config) 7))))"

section \<open>The closed form\<close>

definition zeta :: "spring_params \<Rightarrow> real" where
  "zeta p = sp_damping p / (2 * sqrt (sp_stiffness p * sp_mass p))"

definition omega0 :: "spring_params \<Rightarrow> real" where
  "omega0 p = sqrt (sp_stiffness p / sp_mass p)"

definition omega1 :: "spring_params \<Rightarrow> real" where
  "omega1 p = omega0 p * sqrt (1 - zeta p * zeta p)"

text \<open>
  The position and the velocity at the frame time \<open>t\<close>, for the distance \<open>x0\<close> to the target and
  the velocity \<open>v0\<close> (the negated initial velocity) at the start.
\<close>

definition spring_position :: "spring_params \<Rightarrow> real \<Rightarrow> real \<Rightarrow> real \<Rightarrow> real \<Rightarrow> real" where
  "spring_position p toValue x0 v0 t =
     (if zeta p < 1
      then (let envelope = exp (- zeta p * omega0 p * t)
            in toValue - envelope *
                 (((v0 + zeta p * omega0 p * x0) / omega1 p) * sin (omega1 p * t) + x0 * cos (omega1 p * t)))
      else (let envelope = exp (- omega0 p * t)
            in toValue - envelope * (x0 + (v0 + omega0 p * x0) * t)))"

definition spring_velocity :: "spring_params \<Rightarrow> real \<Rightarrow> real \<Rightarrow> real \<Rightarrow> real" where
  "spring_velocity p x0 v0 t =
     (if zeta p < 1
      then (let envelope = exp (- zeta p * omega0 p * t)
            in zeta p * omega0 p * envelope *
                 ((sin (omega1 p * t) * (v0 + zeta p * omega0 p * x0)) / omega1 p + x0 * cos (omega1 p * t)) -
               envelope * (cos (omega1 p * t) * (v0 + zeta p * omega0 p * x0) - omega1 p * x0 * sin (omega1 p * t)))
      else (let envelope = exp (- omega0 p * t)
            in envelope * (v0 * (t * omega0 p - 1) + t * x0 * (omega0 p * omega0 p))))"

section \<open>Valid parameters\<close>

text \<open>A cubic with a positive leading factor whose quadratic factor has no root.\<close>

lemma cubic_above:
  fixes a b c d e x :: real
  assumes "0 \<le> x" "0 < a" "b * b < 4 * a * c" "e < d"
  shows "e < a * x ^ 3 - b * x ^ 2 + c * x + d"
proof -
  have "4 * a * (a * x\<^sup>2 - b * x + c) = (2 * a * x - b)\<^sup>2 + (4 * a * c - b * b)"
    by (simp add: power2_eq_square algebra_simps)
  also have "\<dots> > 0" using assms(3) by (simp add: add_nonneg_pos)
  finally have "0 < a * x\<^sup>2 - b * x + c" using assms(2) by (simp add: zero_less_mult_iff)
  then have "0 \<le> x * (a * x\<^sup>2 - b * x + c)" using assms(1) by simp
  then show ?thesis using assms(4) by (simp add: power2_eq_square power3_eq_cube algebra_simps)
qed

lemma b3Nobounce_bound: "0 \<le> x \<Longrightarrow> 0.01 < b3Nobounce x"
  using cubic_above [of x "0.0007" "0.031" "0.64" "0.01" "1.28"]
    cubic_above [of x "0.000044" "0.006" "0.36" "0.01" "2"]
    cubic_above [of x "0.00000045" "0.000332" "0.1078" "0.01" "5.84"]
  by (simp add: b3Nobounce_def b3Friction1_def b3Friction2_def b3Friction3_def)

text \<open>
  A spring described by its bounciness and speed is always accepted: for every bounciness and
  every speed that is not negative the conversion gives a positive stiffness and damping.
\<close>

theorem bouncy_springs_are_valid:
  assumes "so_stiffness config = None" "so_damping config = None" "so_mass config = None"
    "so_tension config = None" "so_friction config = None"
    and "so_bounciness config \<noteq> None \<or> so_speed config \<noteq> None" and "0 \<le> or_default (so_speed config) 12"
  shows "\<exists>p. spring_params_of config = Inr p \<and> 0 < sp_stiffness p \<and> 0 < sp_damping p \<and> sp_mass p = 1"
proof -
  define s where "s = or_default (so_speed config) 12 / 1.7 / 20"
  define b where "b = or_default (so_bounciness config) 8 / 1.7 / 20 * 0.8"
  define c where "c = fromBouncinessAndSpeed (or_default (so_bounciness config) 8) (or_default (so_speed config) 12)"
  let ?T = "0.5 + s * 199.5"
  have s: "0 \<le> s" using assms(7) by (simp add: s_def)
  have k: "sc_stiffness c = (?T - 30) * 3.62 + 194"
    by (simp add: c_def fromBouncinessAndSpeed_def normalize_def projectNormal_def stiffnessFromOrigamiValue_def s_def Let_def)
  have "sc_damping c = (quadraticOutInterpolation b (b3Nobounce ?T) 0.01 - 8) * 3 + 25"
    by (simp add: c_def fromBouncinessAndSpeed_def normalize_def projectNormal_def dampingFromOrigamiValue_def
        s_def b_def Let_def)
  also have "quadraticOutInterpolation b (b3Nobounce ?T) 0.01 = 0.01 + (1 - b)\<^sup>2 * (b3Nobounce ?T - 0.01)"
    by (simp add: quadraticOutInterpolation_def linearInterpolation_def power2_eq_square field_simps)
  finally have d: "sc_damping c = 1.03 + 3 * ((1 - b)\<^sup>2 * (b3Nobounce ?T - 0.01))" by simp
  have "0 \<le> (1 - b)\<^sup>2 * (b3Nobounce ?T - 0.01)"
    using b3Nobounce_bound [of ?T] s by (intro mult_nonneg_nonneg) simp_all
  then have "0 < sc_damping c" using d by simp
  moreover have "0 < sc_stiffness c" using k s by (simp add: algebra_simps)
  ultimately show ?thesis
    using assms(1-6) by (simp add: spring_params_of_def checked_params_def of_spring_config_def c_def)
qed

section \<open>The closed form solves the equation of a damped oscillator\<close>

definition valid_spring :: "spring_params \<Rightarrow> bool" where
  "valid_spring p \<longleftrightarrow> 0 < sp_stiffness p \<and> 0 < sp_damping p \<and> 0 < sp_mass p"

lemma spring_params_of_valid: "spring_params_of config = Inr p \<Longrightarrow> valid_spring p"
  by (auto simp: spring_params_of_def checked_params_def valid_spring_def split: if_splits)

lemma omega0_pos: "valid_spring p \<Longrightarrow> 0 < omega0 p"
  by (simp add: valid_spring_def omega0_def)

lemma stiffness_eq: "valid_spring p \<Longrightarrow> sp_stiffness p = sp_mass p * (omega0 p * omega0 p)"
  by (simp add: valid_spring_def omega0_def)

lemma damping_eq: "valid_spring p \<Longrightarrow> sp_damping p = sp_mass p * (2 * zeta p * omega0 p)"
proof -
  assume v: "valid_spring p"
  then have "sqrt (sp_stiffness p * sp_mass p) = sp_mass p * omega0 p"
    using stiffness_eq [OF v] omega0_pos [OF v]
    by (simp add: valid_spring_def real_sqrt_mult)
  then show ?thesis using v omega0_pos [OF v] by (simp add: zeta_def valid_spring_def)
qed

lemma omega1_facts:
  assumes "valid_spring p" "zeta p < 1"
  shows "omega1 p \<noteq> 0" "omega1 p * omega1 p = omega0 p * omega0 p * (1 - zeta p * zeta p)"
proof -
  have "0 \<le> zeta p" using assms(1) by (simp add: zeta_def valid_spring_def)
  then have "zeta p * zeta p < 1" using assms(2) mult_strict_mono [of "zeta p" 1 "zeta p" 1] by simp
  then show "omega1 p \<noteq> 0" "omega1 p * omega1 p = omega0 p * omega0 p * (1 - zeta p * zeta p)"
    using omega0_pos [OF assms(1)] by (simp_all add: omega1_def)
qed

text \<open>The oscillation under the envelope, and its derivatives.\<close>

lemma oscillation_derivative:
  assumes "v \<noteq> (0 :: real)"
  shows "((\<lambda>t. (sin (v * t) * A) / v + x0 * cos (v * t)) has_real_derivative
    cos (v * t) * A - v * x0 * sin (v * t)) (at t)"
  using assms by (auto intro!: derivative_eq_intros simp: field_simps)

lemma oscillation_second_derivative:
  assumes "v \<noteq> (0 :: real)"
  shows "((\<lambda>t. cos (v * t) * A - v * x0 * sin (v * t)) has_real_derivative
    - (v * v) * ((sin (v * t) * A) / v + x0 * cos (v * t))) (at t)"
  using assms by (auto intro!: derivative_eq_intros simp: field_simps)

text \<open>
  The derivatives of \<open>to - exp (- a t) B\<close> for \<open>B'' = - b B\<close>.  With \<open>b = v\<^sup>2\<close> this is the
  under-damped case, with \<open>b = 0\<close> the critically damped one.
\<close>

lemma envelope_derivative:
  assumes "(B has_real_derivative G) (at t)"
  shows "((\<lambda>t. to - exp (- a * t) * B t) has_real_derivative a * exp (- a * t) * B t - exp (- a * t) * G) (at t)"
  using assms by (auto intro!: derivative_eq_intros simp: algebra_simps)

lemma envelope_second_derivative:
  assumes B: "\<And>t. (B has_real_derivative G t) (at t)" and G: "(G has_real_derivative - b * B t) (at t)"
    and w: "w = a * a + b"
  shows "((\<lambda>t. a * exp (- a * t) * B t - exp (- a * t) * G t) has_real_derivative
    w * (exp (- a * t) * B t) - 2 * a * (a * exp (- a * t) * B t - exp (- a * t) * G t)) (at t)"
  using assms by (auto intro!: derivative_eq_intros B G simp: w algebra_simps)

text \<open>The oscillation that the closed form damps, and its derivative.\<close>

definition swing :: "spring_params \<Rightarrow> real \<Rightarrow> real \<Rightarrow> real \<Rightarrow> real" where
  "swing p x0 v0 t =
     (if zeta p < 1 then (sin (omega1 p * t) * (v0 + zeta p * omega0 p * x0)) / omega1 p + x0 * cos (omega1 p * t)
      else x0 + (v0 + omega0 p * x0) * t)"

definition swing' :: "spring_params \<Rightarrow> real \<Rightarrow> real \<Rightarrow> real \<Rightarrow> real" where
  "swing' p x0 v0 t =
     (if zeta p < 1 then cos (omega1 p * t) * (v0 + zeta p * omega0 p * x0) - omega1 p * x0 * sin (omega1 p * t)
      else v0 + omega0 p * x0)"

definition decay_rate :: "spring_params \<Rightarrow> real" where
  "decay_rate p = (if zeta p < 1 then zeta p * omega0 p else omega0 p)"

lemma spring_position_swing:
  "spring_position p to x0 v0 = (\<lambda>t. to - exp (- decay_rate p * t) * swing p x0 v0 t)"
  by (rule ext) (simp add: spring_position_def decay_rate_def swing_def Let_def)

lemma spring_velocity_swing:
  "spring_velocity p x0 v0 =
    (\<lambda>t. decay_rate p * exp (- decay_rate p * t) * swing p x0 v0 t - exp (- decay_rate p * t) * swing' p x0 v0 t)"
  by (rule ext) (auto simp: spring_velocity_def decay_rate_def swing_def swing'_def Let_def algebra_simps)

lemma swing_derivative:
  assumes "valid_spring p" shows "(swing p x0 v0 has_real_derivative swing' p x0 v0 t) (at t)"
proof (cases "zeta p < 1")
  case True
  then show ?thesis
    using oscillation_derivative [OF omega1_facts(1) [OF assms True], of "v0 + zeta p * omega0 p * x0" x0 t]
    by (simp add: swing_def [abs_def] swing'_def)
next
  case False
  then show ?thesis by (auto simp: swing_def [abs_def] swing'_def intro!: derivative_eq_intros)
qed

lemma swing_second_derivative:
  assumes "valid_spring p"
  shows "(swing' p x0 v0 has_real_derivative
    - (if zeta p < 1 then omega1 p * omega1 p else 0) * swing p x0 v0 t) (at t)"
proof (cases "zeta p < 1")
  case True
  then show ?thesis
    using oscillation_second_derivative [OF omega1_facts(1) [OF assms True], of "v0 + zeta p * omega0 p * x0" x0 t]
    by (simp add: swing_def swing'_def [abs_def])
next
  case False
  then show ?thesis by (auto simp: swing'_def [abs_def])
qed

text \<open>
  C39: The closed form that drives a spring starts at the given position with the given
  velocity, its velocity is the derivative of its position, and for a damping ratio of at most 1
  the acceleration is that of a mass under the force of the spring and the damper.
\<close>

theorem spring_solves_oscillator:
  assumes "spring_params_of config = Inr p" and "zeta p \<le> 1"
  shows "spring_position p to x0 v0 0 = to - x0 \<and> spring_velocity p x0 v0 0 = - v0 \<and>
    (spring_position p to x0 v0 has_real_derivative spring_velocity p x0 v0 t) (at t) \<and>
    (spring_velocity p x0 v0 has_real_derivative
      (sp_stiffness p * (to - spring_position p to x0 v0 t) - sp_damping p * spring_velocity p x0 v0 t) / sp_mass p) (at t)"
proof (intro conjI)
  have v: "valid_spring p" using spring_params_of_valid [OF assms(1)] .
  show "spring_position p to x0 v0 0 = to - x0" by (simp add: spring_position_def)
  show "spring_velocity p x0 v0 0 = - v0" by (simp add: spring_velocity_def algebra_simps)
  show "(spring_position p to x0 v0 has_real_derivative spring_velocity p x0 v0 t) (at t)"
    unfolding spring_position_swing spring_velocity_swing
    by (rule envelope_derivative [OF swing_derivative [OF v]])
  have rate: "decay_rate p = zeta p * omega0 p" using assms(2) by (auto simp: decay_rate_def)
  have w: "omega0 p * omega0 p = decay_rate p * decay_rate p + (if zeta p < 1 then omega1 p * omega1 p else 0)"
    using omega1_facts(2) [OF v] assms(2) by (auto simp: decay_rate_def algebra_simps)
  have m: "sp_mass p \<noteq> 0" using v by (simp add: valid_spring_def)
  have acc: "(sp_stiffness p * X - sp_damping p * V) / sp_mass p = omega0 p * omega0 p * X - 2 * decay_rate p * V" for X V
    using m by (simp add: stiffness_eq [OF v] damping_eq [OF v] rate field_simps)
  show "(spring_velocity p x0 v0 has_real_derivative
      (sp_stiffness p * (to - spring_position p to x0 v0 t) - sp_damping p * spring_velocity p x0 v0 t) / sp_mass p) (at t)"
    unfolding acc spring_position_swing spring_velocity_swing
    using envelope_second_derivative [OF swing_derivative [OF v] swing_second_derivative [OF v] w, of x0 v0 t] by simp
qed

text \<open>
  Above the ratio 1 the damping no longer matters: the code moves an over-damped spring like a
  critically damped one.
\<close>

lemma over_damped_is_critical:
  assumes "spring_params_of config = Inr p" and "1 \<le> zeta p" and "sp_damping p \<le> d"
  shows "spring_position (p\<lparr>sp_damping := d\<rparr>) = spring_position p"
proof -
  have "valid_spring p" using spring_params_of_valid [OF assms(1)] .
  then have "zeta p \<le> zeta (p\<lparr>sp_damping := d\<rparr>)"
    using assms(3) by (simp add: zeta_def valid_spring_def divide_right_mono)
  then show ?thesis using assms(2) by (intro ext) (simp add: spring_position_def omega0_def)
qed

section \<open>Witnesses\<close>

definition ex_spring :: spring_options where
  "ex_spring = \<lparr>so_stiffness = None, so_damping = None, so_mass = None, so_bounciness = Some 10,
     so_speed = None, so_tension = None, so_friction = None\<rparr>"

theorem bouncy_springs_are_valid_witness:
  "\<exists>p. spring_params_of ex_spring = Inr p \<and> 0 < sp_stiffness p \<and> 0 < sp_damping p \<and> sp_mass p = 1"
  by (rule bouncy_springs_are_valid) (simp_all add: ex_spring_def or_default_def)

definition ex_stiff_spring :: spring_options where
  "ex_stiff_spring = \<lparr>so_stiffness = Some 4, so_damping = Some 1, so_mass = Some 1, so_bounciness = None,
     so_speed = None, so_tension = None, so_friction = None\<rparr>"

lemma ex_stiff_params:
  "spring_params_of ex_stiff_spring = Inr \<lparr>sp_stiffness = 4, sp_damping = 1, sp_mass = 1\<rparr>"
  by (simp add: ex_stiff_spring_def spring_params_of_def checked_params_def or_default_def)

theorem spring_solves_oscillator_witness:
  "zeta \<lparr>sp_stiffness = 4, sp_damping = 1, sp_mass = 1\<rparr> \<le> 1 \<and>
   spring_velocity \<lparr>sp_stiffness = 4, sp_damping = 1, sp_mass = 1\<rparr> 10 3 0 = - 3"
  using spring_solves_oscillator [OF ex_stiff_params, of 0 10 3 0] by (simp add: zeta_def)

end
