(* ===== verification/AnimatedValue.thy ===== *)
theory AnimatedValue
  imports InteractionManager SpringMotion
begin

text \<open>
  An animated value and the animations that drive it:
  \<open>Libraries/Animated/src/nodes/AnimatedValue.js\<close>, \<open>nodes/AnimatedTracking.js\<close> and
  \<open>animations/\<close> (\<open>Animation.js\<close>, \<open>TimingAnimation.js\<close>, \<open>DecayAnimation.js\<close>,
  \<open>SpringAnimation.js\<close>).

  The state holds one value, every animation that was ever started on it (an animation is known
  by its position), the animation frames and timeouts that are pending, and the interaction
  manager.  Time is what \<open>Date.now()\<close> returns.  The listeners of the value and the callbacks at
  the end of an animation are user code: functions of the state, which may call the operations
  of the value again.  Native animations are calls in the log, and their end is an event.  What
  a flush does to the views is the subject of \<open>AnimatedGraph\<close>.
\<close>

section \<open>State\<close>

record spring_motion =
  sm_toValue :: real
  sm_params :: spring_params
  sm_overshootClamping :: bool
  sm_restDisplacementThreshold :: real
  sm_restSpeedThreshold :: real
  sm_velocity :: real

text \<open>\<open>Timing toValue duration easing\<close> and \<open>Decay velocity deceleration\<close>.\<close>

datatype motion =
    Timing real real "real \<Rightarrow> real"
  | Spring spring_motion
  | Decay real real

record animation_spec =
  as_motion :: motion
  as_delay :: real
  as_native :: bool
  as_interaction :: bool

text \<open>
  The fields of the three classes.  \<open>an_onEnd\<close> says that \<open>__onEnd\<close> is not null, \<open>an_handle\<close> is
  the handle in its closure, \<open>an_last\<close> is \<open>_lastValue\<close> or \<open>_lastPosition\<close>.
\<close>

record animation =
  an_spec :: animation_spec
  an_active :: bool
  an_onEnd :: bool
  an_handle :: "nat option"
  an_from :: real
  an_startTime :: real
  an_last :: real
  an_lastVelocity :: real
  an_initialVelocity :: real
  an_lastTime :: real
  an_frameTime :: real
  an_nativeId :: "nat option"
  an_frame :: "nat option"
  an_timeout :: "nat option"

datatype value_log =
    Updated real bool
  | Ended nat bool
  | StartAnimatingNode nat
  | StopAnimation nat
  | SetAnimatedNodeValue real
  | SetAnimatedNodeOffset real
  | FlattenAnimatedNodeOffset
  | ExtractAnimatedNodeOffset

record value_state =
  v_value :: real
  v_startingValue :: real
  v_offset :: real
  v_animation :: "nat option"
  v_tracking :: "animation_spec option"
  v_isNative :: bool
  v_anims :: "animation list"
  v_frames :: "(nat \<times> nat) list"
  v_timeouts :: "(nat \<times> nat) list"
  v_nextTimer :: nat
  v_nextNativeId :: nat
  v_now :: real
  v_manager :: interaction_manager
  v_log :: "value_log list"

record value_env =
  on_value :: "real \<Rightarrow> value_state \<Rightarrow> value_state"
  on_end :: "nat \<Rightarrow> bool \<Rightarrow> value_state \<Rightarrow> value_state"

definition new_AnimatedValue :: "interaction_manager \<Rightarrow> real \<Rightarrow> real \<Rightarrow> value_state" where
  "new_AnimatedValue im now v = \<lparr>v_value = v, v_startingValue = v, v_offset = 0, v_animation = None,
     v_tracking = None, v_isNative = False, v_anims = [], v_frames = [], v_timeouts = [], v_nextTimer = 1,
     v_nextNativeId = 1, v_now = now, v_manager = im, v_log = []\<rparr>"

definition value_call :: "value_log \<Rightarrow> value_state \<Rightarrow> value_state" where
  "value_call c st = st\<lparr>v_log := v_log st @ [c]\<rparr>"

definition with_anim :: "nat \<Rightarrow> (animation \<Rightarrow> animation) \<Rightarrow> value_state \<Rightarrow> value_state" where
  "with_anim k f st = st\<lparr>v_anims := (v_anims st)[k := f (v_anims st ! k)]\<rparr>"

section \<open>Frames and timeouts\<close>

definition animationFrame :: "nat \<Rightarrow> value_state \<Rightarrow> value_state" where
  "animationFrame k st =
     (let i = v_nextTimer st
      in with_anim k (\<lambda>a. a\<lparr>an_frame := Some i\<rparr>)
           (st\<lparr>v_nextTimer := Suc i, v_frames := v_frames st @ [(i, k)]\<rparr>))"

definition delayStart :: "nat \<Rightarrow> value_state \<Rightarrow> value_state" where
  "delayStart k st =
     (let i = v_nextTimer st
      in with_anim k (\<lambda>a. a\<lparr>an_timeout := Some i\<rparr>)
           (st\<lparr>v_nextTimer := Suc i, v_timeouts := v_timeouts st @ [(i, k)]\<rparr>))"

definition without :: "nat option \<Rightarrow> (nat \<times> nat) list \<Rightarrow> (nat \<times> nat) list" where
  "without i ps = filter (\<lambda>(j, k). Some j \<noteq> i) ps"

section \<open>The end of an animation\<close>

text \<open>The callback that \<open>animate\<close> passes to \<open>start\<close>.\<close>

definition ended :: "value_env \<Rightarrow> nat \<Rightarrow> bool \<Rightarrow> value_state \<Rightarrow> value_state" where
  "ended env k finished st =
     (let st1 = st\<lparr>v_animation := None\<rparr>;
          st2 = (case an_handle (v_anims st ! k) of
                   None \<Rightarrow> st1
                 | Some h \<Rightarrow> st1\<lparr>v_manager := out_state (clearInteractionHandle h (v_manager st1))\<rparr>)
      in on_end env k finished (value_call (Ended k finished) st2))"

definition debouncedOnEnd :: "value_env \<Rightarrow> nat \<Rightarrow> bool \<Rightarrow> value_state \<Rightarrow> value_state" where
  "debouncedOnEnd env k finished st =
     (if an_onEnd (v_anims st ! k)
      then ended env k finished (with_anim k (\<lambda>a. a\<lparr>an_onEnd := False\<rparr>) st)
      else st)"

text \<open>\<open>stop\<close> of the three classes; only \<open>DecayAnimation\<close> has no timeout to clear.\<close>

definition anim_stop :: "value_env \<Rightarrow> nat \<Rightarrow> value_state \<Rightarrow> value_state" where
  "anim_stop env k st =
     (let a = v_anims st ! k;
          st1 = (case an_nativeId a of None \<Rightarrow> st | Some i \<Rightarrow> value_call (StopAnimation i) st);
          st2 = with_anim k (\<lambda>a. a\<lparr>an_active := False\<rparr>) st1;
          st3 = (case as_motion (an_spec a) of Decay _ _ \<Rightarrow> st2
                 | _ \<Rightarrow> st2\<lparr>v_timeouts := without (an_timeout a) (v_timeouts st2)\<rparr>);
          st4 = st3\<lparr>v_frames := without (an_frame a) (v_frames st3)\<rparr>
      in debouncedOnEnd env k False st4)"

section \<open>Updates of the value\<close>

text \<open>\<open>_updateValue\<close>\<close>

definition updateValue :: "value_env \<Rightarrow> real \<Rightarrow> bool \<Rightarrow> value_state \<Rightarrow> value_state" where
  "updateValue env v flush st =
     (let st1 = value_call (Updated v flush) (st\<lparr>v_value := v\<rparr>)
      in on_value env (v_value st1 + v_offset st1) st1)"

definition getValue :: "value_state \<Rightarrow> real" where
  "getValue st = v_value st + v_offset st"

definition setValue :: "value_env \<Rightarrow> real \<Rightarrow> value_state \<Rightarrow> value_state" where
  "setValue env v st =
     (let st1 = (case v_animation st of None \<Rightarrow> st
                 | Some k \<Rightarrow> (anim_stop env k st)\<lparr>v_animation := None\<rparr>);
          st2 = updateValue env v (\<not> v_isNative st1) st1
      in if v_isNative st2 then value_call (SetAnimatedNodeValue v) st2 else st2)"

definition setOffset :: "real \<Rightarrow> value_state \<Rightarrow> value_state" where
  "setOffset v st =
     (let st1 = st\<lparr>v_offset := v\<rparr>
      in if v_isNative st1 then value_call (SetAnimatedNodeOffset v) st1 else st1)"

definition flattenOffset :: "value_state \<Rightarrow> value_state" where
  "flattenOffset st =
     (let st1 = st\<lparr>v_value := v_value st + v_offset st, v_offset := 0\<rparr>
      in if v_isNative st1 then value_call FlattenAnimatedNodeOffset st1 else st1)"

definition extractOffset :: "value_state \<Rightarrow> value_state" where
  "extractOffset st =
     (let st1 = st\<lparr>v_offset := v_offset st + v_value st, v_value := 0\<rparr>
      in if v_isNative st1 then value_call ExtractAnimatedNodeOffset st1 else st1)"

definition stopTracking :: "value_state \<Rightarrow> value_state" where
  "stopTracking st = st\<lparr>v_tracking := None\<rparr>"

definition track :: "animation_spec \<Rightarrow> value_state \<Rightarrow> value_state" where
  "track spec st = (stopTracking st)\<lparr>v_tracking := Some spec\<rparr>"

text \<open>The optional callback of \<open>stopAnimation\<close> is given the value; it is user code.\<close>

definition stopAnimation ::
  "value_env \<Rightarrow> (real \<Rightarrow> value_state \<Rightarrow> value_state) option \<Rightarrow> value_state \<Rightarrow> value_state" where
  "stopAnimation env callback st =
     (let st1 = stopTracking st;
          st2 = (case v_animation st1 of None \<Rightarrow> st1 | Some k \<Rightarrow> anim_stop env k st1);
          st3 = st2\<lparr>v_animation := None\<rparr>
      in case callback of None \<Rightarrow> st3 | Some f \<Rightarrow> f (getValue st3) st3)"

definition resetAnimation ::
  "value_env \<Rightarrow> (real \<Rightarrow> value_state \<Rightarrow> value_state) option \<Rightarrow> value_state \<Rightarrow> value_state" where
  "resetAnimation env callback st =
     (let st1 = stopAnimation env callback st;
          st2 = st1\<lparr>v_value := v_startingValue st1\<rparr>
      in if v_isNative st2 then value_call (SetAnimatedNodeValue (v_startingValue st2)) st2 else st2)"

text \<open>A value that native reports.\<close>

definition onAnimatedValueUpdateReceived :: "value_env \<Rightarrow> real \<Rightarrow> value_state \<Rightarrow> value_state" where
  "onAnimatedValueUpdateReceived env v st = updateValue env v False st"

section \<open>The three kinds of animation\<close>

definition startNativeAnimation :: "nat \<Rightarrow> value_state \<Rightarrow> value_state" where
  "startNativeAnimation k st =
     (let i = v_nextNativeId st;
          st1 = st\<lparr>v_isNative := True, v_nextNativeId := Suc i\<rparr>
      in value_call (StartAnimatingNode i) (with_anim k (\<lambda>a. a\<lparr>an_nativeId := Some i\<rparr>) st1))"

definition an_native :: "nat \<Rightarrow> value_state \<Rightarrow> bool" where
  "an_native k st = as_native (an_spec (v_anims st ! k))"

text \<open>\<open>DecayAnimation\<close>; a deceleration of 1 divides by zero in the code and is not meant.\<close>

definition decay_at :: "animation \<Rightarrow> real \<Rightarrow> real \<Rightarrow> real \<Rightarrow> real" where
  "decay_at a velocity deceleration now =
     an_from a + (velocity / (1 - deceleration)) * (1 - exp (- (1 - deceleration) * (now - an_startTime a)))"

definition decay_onUpdate :: "value_env \<Rightarrow> nat \<Rightarrow> real \<Rightarrow> real \<Rightarrow> value_state \<Rightarrow> value_state" where
  "decay_onUpdate env k velocity deceleration st =
     (let v = decay_at (v_anims st ! k) velocity deceleration (v_now st);
          st1 = updateValue env v True st
      in if \<bar>an_last (v_anims st1 ! k) - v\<bar> < 0.1 then debouncedOnEnd env k True st1
         else let st2 = with_anim k (\<lambda>a. a\<lparr>an_last := v\<rparr>) st1
              in if an_active (v_anims st2 ! k) then animationFrame k st2 else st2)"

definition decay_start :: "nat \<Rightarrow> value_state \<Rightarrow> value_state" where
  "decay_start k st =
     (let st1 = with_anim k (\<lambda>a. a\<lparr>an_last := v_value st, an_startTime := v_now st\<rparr>) st
      in if an_native k st1 then startNativeAnimation k st1 else animationFrame k st1)"

text \<open>\<open>TimingAnimation\<close>\<close>

definition timing_onUpdate :: "value_env \<Rightarrow> nat \<Rightarrow> real \<Rightarrow> real \<Rightarrow> (real \<Rightarrow> real) \<Rightarrow> value_state \<Rightarrow> value_state" where
  "timing_onUpdate env k to duration easing st =
     (let a = v_anims st ! k; now = v_now st
      in if now \<ge> an_startTime a + duration
         then debouncedOnEnd env k True
                (updateValue env (if duration = 0 then to else an_from a + easing 1 * (to - an_from a)) True st)
         else let st1 = updateValue env
                     (an_from a + easing ((now - an_startTime a) / duration) * (to - an_from a)) True st
              in if an_active (v_anims st1 ! k) then animationFrame k st1 else st1)"

definition timing_begin :: "value_env \<Rightarrow> nat \<Rightarrow> real \<Rightarrow> real \<Rightarrow> value_state \<Rightarrow> value_state" where
  "timing_begin env k to duration st =
     (if duration = 0 \<and> \<not> an_native k st
      then debouncedOnEnd env k True (updateValue env to True st)
      else let st1 = with_anim k (\<lambda>a. a\<lparr>an_startTime := v_now st\<rparr>) st
           in if an_native k st1 then startNativeAnimation k st1 else animationFrame k st1)"

definition timing_start :: "value_env \<Rightarrow> nat \<Rightarrow> real \<Rightarrow> real \<Rightarrow> real \<Rightarrow> value_state \<Rightarrow> value_state" where
  "timing_start env k to duration delay st =
     (if delay \<noteq> 0 then delayStart k st else timing_begin env k to duration st)"

text \<open>\<open>SpringAnimation\<close>; \<open>_startPosition\<close> is \<open>an_from\<close>.\<close>

definition MAX_STEPS :: real where
  "MAX_STEPS = 64"

definition spring_advance :: "spring_motion \<Rightarrow> real \<Rightarrow> animation \<Rightarrow> animation" where
  "spring_advance s date a =
     (let now = (if date > an_lastTime a + MAX_STEPS then an_lastTime a + MAX_STEPS else date);
          t = an_frameTime a + (now - an_lastTime a) / 1000;
          v0 = - an_initialVelocity a;
          x0 = sm_toValue s - an_from a
      in a\<lparr>an_frameTime := t, an_lastTime := now,
           an_last := spring_position (sm_params s) (sm_toValue s) x0 v0 t,
           an_lastVelocity := spring_velocity (sm_params s) x0 v0 t\<rparr>)"

definition isOvershooting :: "spring_motion \<Rightarrow> real \<Rightarrow> real \<Rightarrow> bool" where
  "isOvershooting s from position =
     (sm_overshootClamping s \<and> sp_stiffness (sm_params s) \<noteq> 0 \<and>
      (if from < sm_toValue s then position > sm_toValue s else position < sm_toValue s))"

definition spring_at_rest :: "spring_motion \<Rightarrow> real \<Rightarrow> real \<Rightarrow> bool" where
  "spring_at_rest s position velocity =
     (\<bar>velocity\<bar> \<le> sm_restSpeedThreshold s \<and>
      (sp_stiffness (sm_params s) \<noteq> 0 \<longrightarrow> \<bar>sm_toValue s - position\<bar> \<le> sm_restDisplacementThreshold s))"

definition spring_onUpdate :: "value_env \<Rightarrow> nat \<Rightarrow> spring_motion \<Rightarrow> value_state \<Rightarrow> value_state" where
  "spring_onUpdate env k s st =
     (let a = spring_advance s (v_now st) (v_anims st ! k);
          position = an_last a;
          velocity = an_lastVelocity a;
          st1 = updateValue env position True (with_anim k (\<lambda>_. a) st)
      in if \<not> an_active (v_anims st1 ! k) then st1
         else if isOvershooting s (an_from (v_anims st1 ! k)) position \<or> spring_at_rest s position velocity
         then let st2 = (if sp_stiffness (sm_params s) \<noteq> 0
                         then updateValue env (sm_toValue s) True
                                (with_anim k (\<lambda>a. a\<lparr>an_last := sm_toValue s, an_lastVelocity := 0\<rparr>) st1)
                         else st1)
              in debouncedOnEnd env k True st2
         else animationFrame k st1)"

definition spring_begin :: "value_env \<Rightarrow> nat \<Rightarrow> spring_motion \<Rightarrow> value_state \<Rightarrow> value_state" where
  "spring_begin env k s st =
     (if an_native k st then startNativeAnimation k st else spring_onUpdate env k s st)"

text \<open>The state that a spring takes over from the spring it replaces (\<open>getInternalState\<close>).\<close>

definition inherit_spring :: "animation option \<Rightarrow> animation \<Rightarrow> animation" where
  "inherit_spring prev a =
     (case prev of
        Some p \<Rightarrow> (case as_motion (an_spec p) of
            Spring _ \<Rightarrow> a\<lparr>an_last := an_last p, an_lastVelocity := an_lastVelocity p,
                          an_initialVelocity := an_lastVelocity p, an_lastTime := an_lastTime p\<rparr>
          | _ \<Rightarrow> a)
      | None \<Rightarrow> a)"

definition spring_start ::
  "value_env \<Rightarrow> nat \<Rightarrow> spring_motion \<Rightarrow> real \<Rightarrow> animation option \<Rightarrow> value_state \<Rightarrow> value_state" where
  "spring_start env k s delay prev st =
     (let st1 = with_anim k (\<lambda>a. inherit_spring prev (a\<lparr>an_last := v_value st, an_lastTime := v_now st, an_frameTime := 0\<rparr>)) st
      in if delay \<noteq> 0 then delayStart k st1 else spring_begin env k s st1)"

section \<open>Starting an animation\<close>

text \<open>
  The object when \<open>start\<close> has set \<open>__active\<close>, \<open>__onEnd\<close> and the value it starts from.
\<close>

definition new_animation :: "animation_spec \<Rightarrow> nat option \<Rightarrow> real \<Rightarrow> animation" where
  "new_animation spec handle v =
     (let velocity = (case as_motion spec of Spring s \<Rightarrow> sm_velocity s | _ \<Rightarrow> 0)
      in \<lparr>an_spec = spec, an_active = True, an_onEnd = True, an_handle = handle, an_from = v,
          an_startTime = 0, an_last = 0, an_lastVelocity = velocity, an_initialVelocity = velocity,
          an_lastTime = 0, an_frameTime = 0, an_nativeId = None, an_frame = None, an_timeout = None\<rparr>)"

definition anim_start :: "value_env \<Rightarrow> nat \<Rightarrow> animation option \<Rightarrow> value_state \<Rightarrow> value_state" where
  "anim_start env k prev st =
     (let spec = an_spec (v_anims st ! k)
      in case as_motion spec of
           Timing to duration _ \<Rightarrow> timing_start env k to duration (as_delay spec) st
         | Spring s \<Rightarrow> spring_start env k s (as_delay spec) prev st
         | Decay _ _ \<Rightarrow> decay_start k st)"

definition take_interaction :: "animation_spec \<Rightarrow> value_state \<Rightarrow> nat option \<times> value_state" where
  "take_interaction spec st =
     (if as_interaction spec
      then (case createInteractionHandle (v_manager st) of (h, im) \<Rightarrow> (Some h, st\<lparr>v_manager := im\<rparr>))
      else (None, st))"

text \<open>\<open>previousAnimation\<close> is an object, so its fields are read when the new one starts.\<close>

definition animate :: "value_env \<Rightarrow> animation_spec \<Rightarrow> value_state \<Rightarrow> value_state" where
  "animate env spec st =
     (case take_interaction spec st of (handle, st1) \<Rightarrow>
        let st2 = (case v_animation st1 of None \<Rightarrow> st1 | Some p \<Rightarrow> anim_stop env p st1);
            k = length (v_anims st2);
            prev = (case v_animation st1 of None \<Rightarrow> None | Some p \<Rightarrow> Some (v_anims st2 ! p));
            st3 = st2\<lparr>v_anims := v_anims st2 @ [new_animation spec handle (v_value st2)], v_animation := Some k\<rparr>
        in anim_start env k prev st3)"

text \<open>\<open>AnimatedTracking.update\<close>: a new animation to the value of the tracked node.\<close>

definition retarget :: "real \<Rightarrow> animation_spec \<Rightarrow> animation_spec" where
  "retarget to spec = spec\<lparr>as_motion := (case as_motion spec of
       Timing _ duration easing \<Rightarrow> Timing to duration easing
     | Spring s \<Rightarrow> Spring (s\<lparr>sm_toValue := to\<rparr>)
     | Decay v d \<Rightarrow> Decay v d)\<rparr>"

definition tracking_update :: "value_env \<Rightarrow> real \<Rightarrow> value_state \<Rightarrow> value_state" where
  "tracking_update env to st =
     (case v_tracking st of None \<Rightarrow> st | Some spec \<Rightarrow> animate env (retarget to spec) st)"

section \<open>Events\<close>

datatype value_event =
    Animate animation_spec
  | SetValue real
  | SetOffset real
  | FlattenOffset
  | ExtractOffset
  | StopAnimations
  | ResetAnimation
  | Track animation_spec
  | TrackedChanged real
  | NativeValue real
  | NativeEnd nat bool
  | FrameFires nat real
  | TimeoutFires nat real

definition anim_onUpdate :: "value_env \<Rightarrow> nat \<Rightarrow> value_state \<Rightarrow> value_state" where
  "anim_onUpdate env k st =
     (case as_motion (an_spec (v_anims st ! k)) of
        Timing to duration easing \<Rightarrow> timing_onUpdate env k to duration easing st
      | Spring s \<Rightarrow> spring_onUpdate env k s st
      | Decay v d \<Rightarrow> decay_onUpdate env k v d st)"

definition anim_begin :: "value_env \<Rightarrow> nat \<Rightarrow> value_state \<Rightarrow> value_state" where
  "anim_begin env k st =
     (case as_motion (an_spec (v_anims st ! k)) of
        Timing to duration _ \<Rightarrow> timing_begin env k to duration st
      | Spring s \<Rightarrow> spring_begin env k s st
      | Decay _ _ \<Rightarrow> st)"

text \<open>A frame or timeout that is not pending does not fire; native ends animations it was given.\<close>

fun value_step :: "value_state \<Rightarrow> value_env \<times> value_event \<Rightarrow> value_state" where
  "value_step st (env, Animate spec) = animate env spec st"
| "value_step st (env, SetValue v) = setValue env v st"
| "value_step st (env, SetOffset v) = setOffset v st"
| "value_step st (env, FlattenOffset) = flattenOffset st"
| "value_step st (env, ExtractOffset) = extractOffset st"
| "value_step st (env, StopAnimations) = stopAnimation env None st"
| "value_step st (env, ResetAnimation) = resetAnimation env None st"
| "value_step st (env, Track spec) = track spec st"
| "value_step st (env, TrackedChanged v) = tracking_update env v st"
| "value_step st (env, NativeValue v) = onAnimatedValueUpdateReceived env v st"
| "value_step st (env, NativeEnd k finished) =
     (if k < length (v_anims st) \<and> an_nativeId (v_anims st ! k) \<noteq> None then debouncedOnEnd env k finished st else st)"
| "value_step st (env, FrameFires i now) =
     (case map_of (v_frames st) i of
        None \<Rightarrow> st
      | Some k \<Rightarrow> anim_onUpdate env k (st\<lparr>v_frames := without (Some i) (v_frames st), v_now := now\<rparr>))"
| "value_step st (env, TimeoutFires i now) =
     (case map_of (v_timeouts st) i of
        None \<Rightarrow> st
      | Some k \<Rightarrow> anim_begin env k (st\<lparr>v_timeouts := without (Some i) (v_timeouts st), v_now := now\<rparr>))"

section \<open>The invariant\<close>

definition pending :: "nat \<Rightarrow> value_state \<Rightarrow> nat set" where
  "pending k st = {i. (i, k) \<in> set (v_frames st) \<or> (i, k) \<in> set (v_timeouts st)}"

definition is_end :: "nat \<Rightarrow> value_log \<Rightarrow> bool" where
  "is_end k l = (case l of Ended j b \<Rightarrow> j = k | _ \<Rightarrow> False)"

definition end_count :: "nat \<Rightarrow> value_state \<Rightarrow> nat" where
  "end_count k st = length (filter (is_end k) (v_log st))"

text \<open>What is pending is known to its animation, which has not ended, is not driven by native and
  waits for nothing else.\<close>

definition timers_ok :: "value_state \<Rightarrow> bool" where
  "timers_ok st \<longleftrightarrow>
     (\<forall>i k. (i, k) \<in> set (v_frames st) \<longrightarrow> k < length (v_anims st) \<and> an_onEnd (v_anims st ! k) \<and>
        an_frame (v_anims st ! k) = Some i \<and> i < v_nextTimer st \<and> an_nativeId (v_anims st ! k) = None \<and>
        (\<forall>j. (j, k) \<notin> set (v_timeouts st))) \<and>
     (\<forall>i k. (i, k) \<in> set (v_timeouts st) \<longrightarrow> k < length (v_anims st) \<and> an_onEnd (v_anims st ! k) \<and>
        an_timeout (v_anims st ! k) = Some i \<and> i < v_nextTimer st \<and> an_nativeId (v_anims st ! k) = None \<and>
        (\<forall>v d. as_motion (an_spec (v_anims st ! k)) \<noteq> Decay v d))"

definition ends_ok :: "value_state \<Rightarrow> bool" where
  "ends_ok st \<longleftrightarrow> (\<forall>k. end_count k st = (if k < length (v_anims st) \<and> \<not> an_onEnd (v_anims st ! k) then 1 else 0))"

definition handles_ok :: "value_state \<Rightarrow> bool" where
  "handles_ok st \<longleftrightarrow> handles_bounded (v_manager st) \<and>
     (\<forall>k < length (v_anims st). \<forall>h. an_handle (v_anims st ! k) = Some h \<longrightarrow>
        0 < h \<and> h \<le> inc (v_manager st) \<and> (h \<in> active_handles (v_manager st) \<longleftrightarrow> an_onEnd (v_anims st ! k)) \<and>
        (\<forall>j < length (v_anims st). an_handle (v_anims st ! j) = Some h \<longrightarrow> j = k))"

definition current_ok :: "value_state \<Rightarrow> bool" where
  "current_ok st \<longleftrightarrow> (\<forall>k. v_animation st = Some k \<longrightarrow> k < length (v_anims st))"

definition value_ok :: "value_state \<Rightarrow> bool" where
  "value_ok st \<longleftrightarrow> timers_ok st \<and> ends_ok st \<and> handles_ok st \<and> current_ok st"

text \<open>
  What the operations do to the first \<open>n\<close> animations: an end is final, an animation that is
  ended by an operation is not active any more, nothing new is pending for it; and a handle that
  no animation owns stays as it is.
\<close>

definition owned :: "nat \<Rightarrow> value_state \<Rightarrow> bool" where
  "owned h st \<longleftrightarrow> (\<exists>k < length (v_anims st). an_handle (v_anims st ! k) = Some h)"

definition anim_evolves :: "nat \<Rightarrow> value_state \<Rightarrow> value_state \<Rightarrow> bool" where
  "anim_evolves k st st' \<longleftrightarrow> an_spec (v_anims st' ! k) = an_spec (v_anims st ! k) \<and>
     an_nativeId (v_anims st' ! k) = an_nativeId (v_anims st ! k) \<and>
     (an_onEnd (v_anims st' ! k) \<longrightarrow> an_onEnd (v_anims st ! k)) \<and>
     (an_active (v_anims st' ! k) \<longrightarrow> an_active (v_anims st ! k)) \<and>
     (an_onEnd (v_anims st ! k) \<and> an_active (v_anims st' ! k) \<longrightarrow> an_onEnd (v_anims st' ! k)) \<and>
     pending k st' \<subseteq> pending k st"

definition value_evolves :: "nat \<Rightarrow> value_state \<Rightarrow> value_state \<Rightarrow> bool" where
  "value_evolves n st st' \<longleftrightarrow>
     length (v_anims st) \<le> length (v_anims st') \<and> inc (v_manager st) \<le> inc (v_manager st') \<and>
     (\<forall>k < n. anim_evolves k st st') \<and>
     (\<forall>h \<le> inc (v_manager st). \<not> owned h st \<longrightarrow>
        \<not> owned h st' \<and> (h \<in> active_handles (v_manager st') \<longleftrightarrow> h \<in> active_handles (v_manager st)))"

definition user_ok :: "(value_state \<Rightarrow> value_state) \<Rightarrow> bool" where
  "user_ok u \<longleftrightarrow> (\<forall>st. value_ok st \<longrightarrow> value_ok (u st) \<and> value_evolves (length (v_anims st)) st (u st))"

definition env_ok :: "value_env \<Rightarrow> bool" where
  "env_ok env \<longleftrightarrow> (\<forall>v. user_ok (on_value env v)) \<and> (\<forall>k b. user_ok (on_end env k b))"

section \<open>Changes that the invariant does not see\<close>

definition core :: "animation \<Rightarrow> animation_spec \<times> nat option \<times> bool \<times> bool \<times> nat option \<times> nat option \<times> nat option" where
  "core a = (an_spec a, an_handle a, an_onEnd a, an_active a, an_frame a, an_timeout a, an_nativeId a)"

definition same :: "value_state \<Rightarrow> value_state \<Rightarrow> bool" where
  "same st st' \<longleftrightarrow> map core (v_anims st') = map core (v_anims st) \<and> v_frames st' = v_frames st \<and>
     v_timeouts st' = v_timeouts st \<and> v_nextTimer st' = v_nextTimer st \<and> v_manager st' = v_manager st \<and>
     (\<forall>k. end_count k st' = end_count k st) \<and> v_animation st' \<in> {v_animation st, None}"

lemma same_anim:
  assumes "same st st'"
  shows "length (v_anims st') = length (v_anims st)"
    and "k < length (v_anims st) \<Longrightarrow> an_spec (v_anims st' ! k) = an_spec (v_anims st ! k) \<and>
      an_handle (v_anims st' ! k) = an_handle (v_anims st ! k) \<and> an_onEnd (v_anims st' ! k) = an_onEnd (v_anims st ! k) \<and>
      an_active (v_anims st' ! k) = an_active (v_anims st ! k) \<and> an_frame (v_anims st' ! k) = an_frame (v_anims st ! k) \<and>
      an_timeout (v_anims st' ! k) = an_timeout (v_anims st ! k) \<and> an_nativeId (v_anims st' ! k) = an_nativeId (v_anims st ! k)"
proof -
  have m: "map core (v_anims st') = map core (v_anims st)" using assms by (simp add: same_def)
  then show l: "length (v_anims st') = length (v_anims st)" by (rule map_eq_imp_length_eq)
  assume "k < length (v_anims st)"
  then have "core (v_anims st' ! k) = core (v_anims st ! k)" using m l by (metis nth_map)
  then show "an_spec (v_anims st' ! k) = an_spec (v_anims st ! k) \<and>
      an_handle (v_anims st' ! k) = an_handle (v_anims st ! k) \<and> an_onEnd (v_anims st' ! k) = an_onEnd (v_anims st ! k) \<and>
      an_active (v_anims st' ! k) = an_active (v_anims st ! k) \<and> an_frame (v_anims st' ! k) = an_frame (v_anims st ! k) \<and>
      an_timeout (v_anims st' ! k) = an_timeout (v_anims st ! k) \<and> an_nativeId (v_anims st' ! k) = an_nativeId (v_anims st ! k)"
    by (simp add: core_def)
qed

lemma same_timers: "same st st' \<Longrightarrow> timers_ok st \<Longrightarrow> timers_ok st'"
  unfolding timers_ok_def using same_anim [of st st'] by (simp add: same_def)

lemma same_ends: "same st st' \<Longrightarrow> ends_ok st \<Longrightarrow> ends_ok st'"
  using same_anim [of st st'] by (simp add: ends_ok_def same_def)

lemma handles_cong:
  assumes "handles_ok st" and "v_manager st' = v_manager st" and "length (v_anims st') = length (v_anims st)"
    and "\<And>k. k < length (v_anims st) \<Longrightarrow> an_handle (v_anims st' ! k) = an_handle (v_anims st ! k) \<and>
      an_onEnd (v_anims st' ! k) = an_onEnd (v_anims st ! k)"
  shows "handles_ok st'"
  using assms unfolding handles_ok_def by (metis (no_types, lifting))

lemma same_handles: "same st st' \<Longrightarrow> handles_ok st \<Longrightarrow> handles_ok st'"
  using handles_cong [of st st'] same_anim [of st st'] by (simp add: same_def)

lemma same_current: "same st st' \<Longrightarrow> current_ok st \<Longrightarrow> current_ok st'"
  using same_anim [of st st'] by (auto simp: current_ok_def same_def)

lemma same_ok: "same st st' \<Longrightarrow> value_ok st \<Longrightarrow> value_ok st'"
  by (simp add: value_ok_def same_timers same_ends same_handles same_current)

lemma same_owned: "same st st' \<Longrightarrow> owned h st' = owned h st"
  using same_anim [of st st'] by (auto simp: owned_def)

lemma same_evolves: "same st st' \<Longrightarrow> n \<le> length (v_anims st) \<Longrightarrow> value_evolves n st st'"
  using same_anim [of st st'] unfolding value_evolves_def anim_evolves_def
  by (simp add: same_owned pending_def) (simp add: same_def)

lemma same_trans: "same r s \<Longrightarrow> same s t \<Longrightarrow> same r t"
  by (auto simp: same_def)

lemma end_count_simps [simp]:
  "end_count k (st\<lparr>v_value := x\<rparr>) = end_count k st" "end_count k (st\<lparr>v_offset := x\<rparr>) = end_count k st"
  "end_count k (st\<lparr>v_tracking := tr\<rparr>) = end_count k st" "end_count k (st\<lparr>v_animation := cur\<rparr>) = end_count k st"
  "end_count k (st\<lparr>v_isNative := b\<rparr>) = end_count k st" "end_count k (st\<lparr>v_nextNativeId := m\<rparr>) = end_count k st"
  "end_count k (st\<lparr>v_now := x\<rparr>) = end_count k st" "end_count k (st\<lparr>v_anims := as\<rparr>) = end_count k st"
  "end_count k (st\<lparr>v_frames := fs\<rparr>) = end_count k st" "end_count k (st\<lparr>v_timeouts := fs\<rparr>) = end_count k st"
  "end_count k (st\<lparr>v_nextTimer := m\<rparr>) = end_count k st" "end_count k (st\<lparr>v_manager := im\<rparr>) = end_count k st"
  "end_count k (value_call c st) = end_count k st + (if is_end k c then 1 else 0)"
  "end_count k (with_anim j f st) = end_count k st"
  by (simp_all add: end_count_def value_call_def with_anim_def)

lemma call_simps [simp]:
  "v_anims (value_call c st) = v_anims st" "v_frames (value_call c st) = v_frames st"
  "v_timeouts (value_call c st) = v_timeouts st" "v_nextTimer (value_call c st) = v_nextTimer st"
  "v_manager (value_call c st) = v_manager st" "v_animation (value_call c st) = v_animation st"
  "v_isNative (value_call c st) = v_isNative st" "v_value (value_call c st) = v_value st"
  "v_offset (value_call c st) = v_offset st" "v_now (value_call c st) = v_now st"
  by (simp_all add: value_call_def)

lemma anim_simps [simp]:
  "length (v_anims (with_anim k f st)) = length (v_anims st)" "v_frames (with_anim k f st) = v_frames st"
  "v_timeouts (with_anim k f st) = v_timeouts st" "v_nextTimer (with_anim k f st) = v_nextTimer st"
  "v_manager (with_anim k f st) = v_manager st" "v_animation (with_anim k f st) = v_animation st"
  "v_isNative (with_anim k f st) = v_isNative st" "v_value (with_anim k f st) = v_value st"
  "v_now (with_anim k f st) = v_now st" "v_offset (with_anim k f st) = v_offset st"
  by (simp_all add: with_anim_def)

lemma anim_at: "j < length (v_anims st) \<Longrightarrow> v_anims (with_anim k f st) ! j = (if j = k then f (v_anims st ! j) else v_anims st ! j)"
  by (auto simp: with_anim_def nth_update_if)

lemma same_simps [simp]:
  "same st (st\<lparr>v_value := x\<rparr>)" "same st (st\<lparr>v_offset := x\<rparr>)" "same st (st\<lparr>v_tracking := tr\<rparr>)"
  "same st (st\<lparr>v_animation := None\<rparr>)" "same st (st\<lparr>v_isNative := b\<rparr>)" "same st (st\<lparr>v_nextNativeId := m\<rparr>)"
  "same st (st\<lparr>v_now := x\<rparr>)" "same st st"
  by (simp_all add: same_def)

lemma same_call [simp]:
  "same st (value_call (Updated v b) st)" "same st (value_call (StartAnimatingNode i) st)"
  "same st (value_call (StopAnimation i) st)" "same st (value_call (SetAnimatedNodeValue v) st)"
  "same st (value_call (SetAnimatedNodeOffset v) st)" "same st (value_call FlattenAnimatedNodeOffset st)"
  "same st (value_call ExtractAnimatedNodeOffset st)"
  by (simp_all add: same_def is_end_def)

lemma same_with_anim:
  assumes "core (f (v_anims st ! k)) = core (v_anims st ! k)" shows "same st (with_anim k f st)"
proof -
  have "map core (v_anims (with_anim k f st)) = map core (v_anims st)"
    using assms by (auto simp: list_eq_iff_nth_eq anim_at)
  then show ?thesis by (simp add: same_def)
qed

section \<open>Steps of the operations\<close>

lemma anim_evolves_trans: "anim_evolves k r s \<Longrightarrow> anim_evolves k s t \<Longrightarrow> anim_evolves k r t"
  unfolding anim_evolves_def by (metis subset_trans)

lemma value_evolves_trans:
  assumes "value_evolves n r s" and "value_evolves n s t" shows "value_evolves n r t"
  unfolding value_evolves_def
proof (intro conjI allI impI)
  note d = assms [unfolded value_evolves_def]
  show "length (v_anims r) \<le> length (v_anims t)" "inc (v_manager r) \<le> inc (v_manager t)" using d by linarith+
  fix k assume "k < n"
  then show "anim_evolves k r t" using d anim_evolves_trans by blast
next
  note d = assms [unfolded value_evolves_def]
  fix h assume "h \<le> inc (v_manager r)" "\<not> owned h r"
  then have "\<not> owned h s" "(h \<in> active_handles (v_manager s)) = (h \<in> active_handles (v_manager r))" "h \<le> inc (v_manager s)"
    using d by auto
  then show "\<not> owned h t" "(h \<in> active_handles (v_manager t)) = (h \<in> active_handles (v_manager r))"
    using d by auto
qed

lemma evolves_le: "value_evolves n s t \<Longrightarrow> m \<le> n \<Longrightarrow> value_evolves m s t"
  by (simp add: value_evolves_def)

lemma evolves_length: "value_evolves n s t \<Longrightarrow> length (v_anims s) \<le> length (v_anims t)"
  by (simp add: value_evolves_def)

lemma evolves_pending: "value_evolves n s t \<Longrightarrow> k < n \<Longrightarrow> pending k t \<subseteq> pending k s"
  by (simp add: value_evolves_def anim_evolves_def)

text \<open>
  The animation \<open>k\<close> waits for nothing; and it is driven from JavaScript and has not ended
  while it is active.
\<close>

definition idle :: "nat \<Rightarrow> value_state \<Rightarrow> bool" where
  "idle k st \<longleftrightarrow> value_ok st \<and> k < length (v_anims st) \<and> pending k st = {}"

definition ready :: "nat \<Rightarrow> value_state \<Rightarrow> bool" where
  "ready k st \<longleftrightarrow> idle k st \<and> an_nativeId (v_anims st ! k) = None \<and>
     (an_active (v_anims st ! k) \<longrightarrow> an_onEnd (v_anims st ! k))"

lemma ready_idle: "ready k st \<Longrightarrow> idle k st"
  by (simp add: ready_def)

lemma same_pending: "same st st' \<Longrightarrow> pending k st' = pending k st"
  by (simp add: same_def pending_def)

lemma same_ready: "same st st' \<Longrightarrow> ready k st \<Longrightarrow> ready k st'"
  using same_anim [of st st'] by (simp add: ready_def idle_def same_ok same_pending)

lemma evolves_ready:
  assumes "ready k st" and "value_ok st'" and "value_evolves n st st'" and "k < n" and "n \<le> length (v_anims st)"
  shows "ready k st'"
proof -
  have "anim_evolves k st st'" using assms(3,4) by (simp add: value_evolves_def)
  then show ?thesis
    using assms(1,2,4,5) evolves_length [OF assms(3)] by (auto simp: ready_def idle_def anim_evolves_def)
qed

lemma user_step:
  assumes "user_ok u" and "value_ok st" and "n \<le> length (v_anims st)"
  shows "value_ok (u st) \<and> value_evolves n st (u st)"
  using assms evolves_le [of "length (v_anims st)" st "u st" n] by (simp add: user_ok_def)

lemma updateValue_ok:
  assumes "env_ok env" and "value_ok st" and "n \<le> length (v_anims st)"
  shows "value_ok (updateValue env v b st) \<and> value_evolves n st (updateValue env v b st)"
proof -
  define st1 where "st1 = value_call (Updated v b) (st\<lparr>v_value := v\<rparr>)"
  have s: "same st st1" unfolding st1_def by (rule same_trans [of _ "st\<lparr>v_value := v\<rparr>"]) simp_all
  have ok: "value_ok st1" using same_ok [OF s assms(2)] .
  have n: "n \<le> length (v_anims st1)" using assms(3) same_anim(1) [OF s] by simp
  have u: "user_ok (on_value env w)" for w using assms(1) by (simp add: env_ok_def)
  have "updateValue env v b st = on_value env (v_value st1 + v_offset st1) st1"
    by (simp add: updateValue_def st1_def Let_def)
  then show ?thesis
    using user_step [OF u ok n] value_evolves_trans [OF same_evolves [OF s assms(3)]] by simp
qed

lemma updateValue_ready:
  assumes "env_ok env" and "ready k st" and "n \<le> length (v_anims st)"
  shows "ready k (updateValue env v b st) \<and> value_evolves n st (updateValue env v b st)"
  using assms updateValue_ok [OF assms(1), of st "length (v_anims st)"] updateValue_ok [OF assms(1), of st n]
    evolves_ready [OF assms(2), of _ "length (v_anims st)"]
  by (simp add: ready_def idle_def)

text \<open>The bookkeeping at the end of the animation \<open>k\<close>, before the user's callback.\<close>

definition closing :: "nat \<Rightarrow> bool \<Rightarrow> value_state \<Rightarrow> value_state" where
  "closing k finished st =
     (let st0 = with_anim k (\<lambda>a. a\<lparr>an_onEnd := False\<rparr>) st; st1 = st0\<lparr>v_animation := None\<rparr>
      in value_call (Ended k finished)
           (case an_handle (v_anims st ! k) of
              None \<Rightarrow> st1
            | Some h \<Rightarrow> st1\<lparr>v_manager := out_state (clearInteractionHandle h (v_manager st1))\<rparr>))"

lemma debounced_closing:
  "k < length (v_anims st) \<Longrightarrow> debouncedOnEnd env k b st =
     (if an_onEnd (v_anims st ! k) then on_end env k b (closing k b st) else st)"
  by (simp add: debouncedOnEnd_def ended_def closing_def anim_at Let_def)

lemma closing_simps [simp]:
  "length (v_anims (closing k b st)) = length (v_anims st)" "v_frames (closing k b st) = v_frames st"
  "v_timeouts (closing k b st) = v_timeouts st" "v_nextTimer (closing k b st) = v_nextTimer st"
  "v_animation (closing k b st) = None" "pending j (closing k b st) = pending j st"
  "end_count j (closing k b st) = end_count j st + (if j = k then 1 else 0)"
  by (simp_all add: closing_def Let_def pending_def is_end_def split: option.split)

lemma closing_anim:
  "j < length (v_anims st) \<Longrightarrow> v_anims (closing k b st) ! j =
     (if j = k then (v_anims st ! j)\<lparr>an_onEnd := False\<rparr> else v_anims st ! j)"
  by (simp add: closing_def Let_def anim_at split: option.split)

lemma closing_manager:
  assumes "handles_ok st" and "k < length (v_anims st)"
  shows "inc (v_manager (closing k b st)) = inc (v_manager st)" "handles_bounded (v_manager (closing k b st))"
    "active_handles (v_manager (closing k b st)) = active_handles (v_manager st) - set_option (an_handle (v_anims st ! k))"
proof -
  have "inc (v_manager (closing k b st)) = inc (v_manager st) \<and> handles_bounded (v_manager (closing k b st)) \<and>
    active_handles (v_manager (closing k b st)) = active_handles (v_manager st) - set_option (an_handle (v_anims st ! k))"
  proof (cases "an_handle (v_anims st ! k)")
    case None
    then show ?thesis using assms by (simp add: closing_def Let_def handles_ok_def)
  next
    case (Some h)
    have "handles_bounded (v_manager st)" using assms(1) by (simp add: handles_ok_def)
    moreover have "0 < h \<and> h \<le> inc (v_manager st)" using assms Some unfolding handles_ok_def by blast
    ultimately have "handles_bounded (v_manager st)" "0 < h" "h \<le> inc (v_manager st)" by blast+
    from clear_handle [OF this] obtain im' where im': "clearInteractionHandle h (v_manager st) = Ret () im'"
      "inc im' = inc (v_manager st)" "active_handles im' = active_handles (v_manager st) - {h}" "handles_bounded im'" by blast
    then have "v_manager (closing k b st) = im'" by (simp add: closing_def Let_def Some)
    then show ?thesis using im' Some by simp
  qed
  then show "inc (v_manager (closing k b st)) = inc (v_manager st)" "handles_bounded (v_manager (closing k b st))"
    "active_handles (v_manager (closing k b st)) = active_handles (v_manager st) - set_option (an_handle (v_anims st ! k))"
    by auto
qed

text \<open>Fewer pending requests of animations that did not change.\<close>

lemma timers_mono:
  assumes "timers_ok st" and "set (v_frames st') \<subseteq> set (v_frames st)" and "set (v_timeouts st') \<subseteq> set (v_timeouts st)"
    and "v_nextTimer st \<le> v_nextTimer st'" and "length (v_anims st) \<le> length (v_anims st')"
    and same: "\<And>i j. (i, j) \<in> set (v_frames st') \<or> (i, j) \<in> set (v_timeouts st') \<Longrightarrow> j < length (v_anims st) \<Longrightarrow>
      an_onEnd (v_anims st' ! j) = an_onEnd (v_anims st ! j) \<and> an_frame (v_anims st' ! j) = an_frame (v_anims st ! j) \<and>
      an_timeout (v_anims st' ! j) = an_timeout (v_anims st ! j) \<and> an_spec (v_anims st' ! j) = an_spec (v_anims st ! j) \<and>
      an_nativeId (v_anims st' ! j) = an_nativeId (v_anims st ! j)"
  shows "timers_ok st'"
  unfolding timers_ok_def
proof (intro conjI allI impI)
  fix i j assume f: "(i, j) \<in> set (v_frames st')"
  then have "(i, j) \<in> set (v_frames st)" using assms(2) by blast
  then have old: "j < length (v_anims st)" "an_onEnd (v_anims st ! j)" "an_frame (v_anims st ! j) = Some i" "i < v_nextTimer st"
    "an_nativeId (v_anims st ! j) = None" "\<And>m. (m, j) \<notin> set (v_timeouts st)"
    using assms(1) unfolding timers_ok_def by blast+
  then show "j < length (v_anims st')" "an_onEnd (v_anims st' ! j)" "an_frame (v_anims st' ! j) = Some i" "i < v_nextTimer st'"
    "an_nativeId (v_anims st' ! j) = None" "\<And>m. (m, j) \<notin> set (v_timeouts st')"
    using same [of i j] f assms(3-5) by auto
next
  fix i j assume f: "(i, j) \<in> set (v_timeouts st')"
  then have "(i, j) \<in> set (v_timeouts st)" using assms(3) by blast
  then have old: "j < length (v_anims st)" "an_onEnd (v_anims st ! j)" "an_timeout (v_anims st ! j) = Some i" "i < v_nextTimer st"
    "an_nativeId (v_anims st ! j) = None" "\<And>v d. as_motion (an_spec (v_anims st ! j)) \<noteq> Decay v d"
    using assms(1) unfolding timers_ok_def by blast+
  then show "j < length (v_anims st')" "an_onEnd (v_anims st' ! j)" "an_timeout (v_anims st' ! j) = Some i" "i < v_nextTimer st'"
    "an_nativeId (v_anims st' ! j) = None" "\<And>v d. as_motion (an_spec (v_anims st' ! j)) \<noteq> Decay v d"
    using same [of i j] f assms(3-5) by auto
qed

lemma closing_timers:
  assumes "idle k st" shows "timers_ok (closing k b st)"
proof (rule timers_mono [of st])
  fix i j assume "(i, j) \<in> set (v_frames (closing k b st)) \<or> (i, j) \<in> set (v_timeouts (closing k b st))" "j < length (v_anims st)"
  moreover from this(1) assms have "j \<noteq> k" by (auto simp: idle_def pending_def)
  ultimately show "an_onEnd (v_anims (closing k b st) ! j) = an_onEnd (v_anims st ! j) \<and>
    an_frame (v_anims (closing k b st) ! j) = an_frame (v_anims st ! j) \<and>
    an_timeout (v_anims (closing k b st) ! j) = an_timeout (v_anims st ! j) \<and>
    an_spec (v_anims (closing k b st) ! j) = an_spec (v_anims st ! j) \<and>
    an_nativeId (v_anims (closing k b st) ! j) = an_nativeId (v_anims st ! j)"
    by (simp add: closing_anim)
qed (use assms in \<open>simp_all add: idle_def value_ok_def\<close>)

lemma closing_ends: "idle k st \<Longrightarrow> an_onEnd (v_anims st ! k) \<Longrightarrow> ends_ok (closing k b st)"
  by (auto simp: idle_def value_ok_def ends_ok_def closing_anim)

lemma closing_handles:
  assumes "idle k st" shows "handles_ok (closing k b st)"
proof -
  have k: "k < length (v_anims st)" and h: "handles_ok st" using assms by (auto simp: idle_def value_ok_def)
  note m = closing_manager [OF h k, of b]
  have a: "an_handle (v_anims (closing k b st) ! j) = an_handle (v_anims st ! j)" if "j < length (v_anims st)" for j
    using that by (simp add: closing_anim)
  have e: "an_onEnd (v_anims (closing k b st) ! j) = (j \<noteq> k \<and> an_onEnd (v_anims st ! j))" if "j < length (v_anims st)" for j
    using that by (simp add: closing_anim)
  show ?thesis unfolding handles_ok_def m(1,3)
  proof (intro conjI allI impI m(2))
    fix j h' assume j: "j < length (v_anims (closing k b st))" "an_handle (v_anims (closing k b st) ! j) = Some h'"
    then have j': "j < length (v_anims st)" "an_handle (v_anims st ! j) = Some h'" using a by auto
    with h have f: "0 < h'" "h' \<le> inc (v_manager st)" "h' \<in> active_handles (v_manager st) \<longleftrightarrow> an_onEnd (v_anims st ! j)"
      "\<And>i. i < length (v_anims st) \<Longrightarrow> an_handle (v_anims st ! i) = Some h' \<Longrightarrow> i = j"
      unfolding handles_ok_def by blast+
    show "0 < h'" "h' \<le> inc (v_manager st)" using f by auto
    show "(h' \<in> active_handles (v_manager st) - set_option (an_handle (v_anims st ! k))) = an_onEnd (v_anims (closing k b st) ! j)"
      using f(3) f(4) [OF k] j' e [OF j'(1)] by auto
    fix i assume "i < length (v_anims (closing k b st))" "an_handle (v_anims (closing k b st) ! i) = Some h'"
    then show "i = j" using f(4) a by auto
  qed
qed

lemma closing_evolves:
  assumes "idle k st" and "n \<le> k \<or> \<not> an_active (v_anims st ! k)" and "n \<le> length (v_anims st)"
  shows "value_evolves n st (closing k b st)"
proof -
  have k: "k < length (v_anims st)" and h: "handles_ok st" using assms(1) by (auto simp: idle_def value_ok_def)
  have o: "owned h' (closing k b st) = owned h' st" for h' by (auto simp: owned_def closing_anim split: if_splits)
  have "\<not> owned h' st \<Longrightarrow> h' \<notin> set_option (an_handle (v_anims st ! k))" for h' using k by (auto simp: owned_def)
  then show ?thesis
    unfolding value_evolves_def closing_manager [OF h k] o anim_evolves_def
    using assms(2,3) by (auto simp: closing_anim)
qed

lemma debounced_ok:
  assumes "env_ok env" and "idle k st" and "n \<le> k \<or> \<not> an_active (v_anims st ! k)" and "n \<le> length (v_anims st)"
  shows "value_ok (debouncedOnEnd env k b st) \<and> value_evolves n st (debouncedOnEnd env k b st)"
proof (cases "an_onEnd (v_anims st ! k)")
  case False
  then show ?thesis using assms same_evolves [of st st] by (simp add: idle_def debounced_closing)
next
  case True
  have u: "user_ok (on_end env k b)" using assms(1) by (simp add: env_ok_def)
  have ok: "value_ok (closing k b st)"
    using closing_timers [OF assms(2)] closing_ends [OF assms(2) True] closing_handles [OF assms(2)]
    by (simp add: value_ok_def current_ok_def)
  have "n \<le> length (v_anims (closing k b st))" using assms(4) by simp
  from user_step [OF u ok this] value_evolves_trans [OF closing_evolves [OF assms(2-4)]] show ?thesis
    using True assms(2) by (auto simp: debounced_closing idle_def)
qed

section \<open>Stopping\<close>

lemma set_without: "set (without i ps) = {(j, k). (j, k) \<in> set ps \<and> Some j \<noteq> i}"
  by (auto simp: without_def)

text \<open>The state in which \<open>stop\<close> reports the end.\<close>

definition halted :: "nat \<Rightarrow> value_state \<Rightarrow> value_state" where
  "halted k st =
     (let a = v_anims st ! k; st2 = with_anim k (\<lambda>a. a\<lparr>an_active := False\<rparr>) st;
          st3 = (case as_motion (an_spec a) of Decay _ _ \<Rightarrow> st2
                 | _ \<Rightarrow> st2\<lparr>v_timeouts := without (an_timeout a) (v_timeouts st2)\<rparr>)
      in st3\<lparr>v_frames := without (an_frame a) (v_frames st3)\<rparr>)"

lemma anim_stop_halted:
  "anim_stop env k st = debouncedOnEnd env k False (halted k
     (case an_nativeId (v_anims st ! k) of None \<Rightarrow> st | Some i \<Rightarrow> value_call (StopAnimation i) st))"
  by (simp add: anim_stop_def halted_def Let_def split: option.split motion.split)

lemma halted_simps [simp]:
  "length (v_anims (halted k st)) = length (v_anims st)" "v_nextTimer (halted k st) = v_nextTimer st"
  "v_manager (halted k st) = v_manager st" "v_animation (halted k st) = v_animation st"
  "end_count j (halted k st) = end_count j st"
  by (simp_all add: halted_def Let_def split: motion.split)

lemma halted_anim:
  "j < length (v_anims st) \<Longrightarrow> v_anims (halted k st) ! j =
     (if j = k then (v_anims st ! j)\<lparr>an_active := False\<rparr> else v_anims st ! j)"
  by (simp add: halted_def Let_def anim_at split: motion.split)

lemma halted_sub: "set (v_frames (halted k st)) \<subseteq> set (v_frames st)" "set (v_timeouts (halted k st)) \<subseteq> set (v_timeouts st)"
  by (auto simp: halted_def Let_def set_without split: motion.splits)

lemma halted_pending:
  assumes "timers_ok st" shows "pending k (halted k st) = {}"
proof -
  have "i \<notin> pending k (halted k st)" for i
  proof
    assume i: "i \<in> pending k (halted k st)"
    then have old: "(i, k) \<in> set (v_frames st) \<or> (i, k) \<in> set (v_timeouts st)"
      using halted_sub unfolding pending_def by blast
    then have "(i, k) \<in> set (v_frames st) \<longrightarrow> an_frame (v_anims st ! k) = Some i"
      "(i, k) \<in> set (v_timeouts st) \<longrightarrow> an_timeout (v_anims st ! k) = Some i \<and> (\<forall>v d. as_motion (an_spec (v_anims st ! k)) \<noteq> Decay v d)"
      using assms unfolding timers_ok_def by blast+
    then show False using i
      by (auto simp: pending_def halted_def Let_def set_without split: motion.splits)
  qed
  then show ?thesis by blast
qed

lemma halted_idle:
  assumes "value_ok st" and "k < length (v_anims st)" shows "idle k (halted k st)"
proof -
  have "timers_ok (halted k st)"
    by (rule timers_mono [of st]) (use assms in \<open>simp_all add: value_ok_def halted_sub halted_anim\<close>)
  moreover have "ends_ok (halted k st)" using assms by (auto simp: value_ok_def ends_ok_def halted_anim)
  moreover have "handles_ok (halted k st)"
    by (rule handles_cong [of st]) (use assms in \<open>simp_all add: value_ok_def halted_anim\<close>)
  moreover have "current_ok (halted k st)" using assms by (simp add: value_ok_def current_ok_def)
  ultimately show ?thesis
    using assms halted_pending [of st k] by (simp add: ready_def idle_def value_ok_def halted_anim)
qed

lemma halted_evolves:
  assumes "k < length (v_anims st)" and "n \<le> length (v_anims st)" shows "value_evolves n st (halted k st)"
proof -
  have "owned h (halted k st) = owned h st" for h by (auto simp: owned_def halted_anim split: if_splits)
  moreover have "pending j (halted k st) \<subseteq> pending j st" for j using halted_sub [of k st] by (auto simp: pending_def)
  ultimately show ?thesis
    using assms unfolding value_evolves_def anim_evolves_def by (simp add: halted_anim)
qed

lemma anim_stop_ok:
  assumes "env_ok env" and "value_ok st" and "k < length (v_anims st)" and "n \<le> length (v_anims st)"
  shows "value_ok (anim_stop env k st) \<and> value_evolves n st (anim_stop env k st)"
proof -
  define st1 where "st1 = (case an_nativeId (v_anims st ! k) of None \<Rightarrow> st | Some i \<Rightarrow> value_call (StopAnimation i) st)"
  have s: "same st st1" by (simp add: st1_def split: option.split)
  have ok: "value_ok st1" using same_ok [OF s assms(2)] .
  have l: "length (v_anims st1) = length (v_anims st)" using same_anim(1) [OF s] .
  have k: "k < length (v_anims st1)" and n: "n \<le> length (v_anims st1)" using assms(3,4) l by auto
  have "\<not> an_active (v_anims (halted k st1) ! k)" using k by (simp add: halted_anim)
  then have "value_ok (anim_stop env k st) \<and> value_evolves n (halted k st1) (anim_stop env k st)"
    using debounced_ok [OF assms(1) halted_idle [OF ok k], of n False] n by (simp add: anim_stop_halted st1_def)
  then show ?thesis
    using value_evolves_trans [OF same_evolves [OF s assms(4)] value_evolves_trans [OF halted_evolves [OF k n]]] by blast
qed

section \<open>Waiting\<close>

text \<open>A request of the animation \<open>k\<close> for a frame or a timeout.\<close>

lemma request_evolves:
  assumes "n \<le> k" and "n \<le> length (v_anims st)" and "length (v_anims st') = length (v_anims st)" and "v_manager st' = v_manager st"
    and "\<And>j. j < length (v_anims st) \<Longrightarrow> an_spec (v_anims st' ! j) = an_spec (v_anims st ! j) \<and>
      an_handle (v_anims st' ! j) = an_handle (v_anims st ! j) \<and> an_onEnd (v_anims st' ! j) = an_onEnd (v_anims st ! j) \<and>
      an_active (v_anims st' ! j) = an_active (v_anims st ! j) \<and> (j \<noteq> k \<longrightarrow> an_nativeId (v_anims st' ! j) = an_nativeId (v_anims st ! j))"
    and "\<And>j. j \<noteq> k \<Longrightarrow> pending j st' = pending j st"
  shows "value_evolves n st st'"
proof -
  have "owned h st' = owned h st" for h using assms(3,5) by (auto simp: owned_def)
  then show ?thesis using assms unfolding value_evolves_def anim_evolves_def by simp
qed

lemma animationFrame_simps [simp]:
  "length (v_anims (animationFrame k st)) = length (v_anims st)" "v_timeouts (animationFrame k st) = v_timeouts st"
  "v_frames (animationFrame k st) = v_frames st @ [(v_nextTimer st, k)]" "v_nextTimer (animationFrame k st) = Suc (v_nextTimer st)"
  "v_manager (animationFrame k st) = v_manager st" "v_animation (animationFrame k st) = v_animation st"
  "end_count j (animationFrame k st) = end_count j st"
  by (simp_all add: animationFrame_def Let_def)

lemma animationFrame_anim:
  "j < length (v_anims st) \<Longrightarrow> v_anims (animationFrame k st) ! j =
     (if j = k then (v_anims st ! j)\<lparr>an_frame := Some (v_nextTimer st)\<rparr> else v_anims st ! j)"
  by (simp add: animationFrame_def Let_def anim_at)

lemma delayStart_simps [simp]:
  "length (v_anims (delayStart k st)) = length (v_anims st)" "v_frames (delayStart k st) = v_frames st"
  "v_timeouts (delayStart k st) = v_timeouts st @ [(v_nextTimer st, k)]" "v_nextTimer (delayStart k st) = Suc (v_nextTimer st)"
  "v_manager (delayStart k st) = v_manager st" "v_animation (delayStart k st) = v_animation st"
  "end_count j (delayStart k st) = end_count j st"
  by (simp_all add: delayStart_def Let_def)

lemma delayStart_anim:
  "j < length (v_anims st) \<Longrightarrow> v_anims (delayStart k st) ! j =
     (if j = k then (v_anims st ! j)\<lparr>an_timeout := Some (v_nextTimer st)\<rparr> else v_anims st ! j)"
  by (simp add: delayStart_def Let_def anim_at)

lemma request_timers:
  assumes "ready k st" and "an_onEnd (v_anims st ! k)"
  shows "timers_ok (animationFrame k st)"
    and "(\<And>v d. as_motion (an_spec (v_anims st ! k)) \<noteq> Decay v d) \<Longrightarrow> timers_ok (delayStart k st)"
proof -
  have k: "k < length (v_anims st)" and t: "timers_ok st" and nat: "an_nativeId (v_anims st ! k) = None"
    and none: "\<And>i. (i, k) \<notin> set (v_frames st)" "\<And>i. (i, k) \<notin> set (v_timeouts st)"
    using assms(1) by (auto simp: ready_def idle_def value_ok_def pending_def)
  have f: "j < length (v_anims st) \<and> an_onEnd (v_anims st ! j) \<and> an_frame (v_anims st ! j) = Some i \<and>
      i < v_nextTimer st \<and> j \<noteq> k \<and> an_nativeId (v_anims st ! j) = None \<and> (\<forall>m. (m, j) \<notin> set (v_timeouts st))" if "(i, j) \<in> set (v_frames st)" for i j
    using t that none unfolding timers_ok_def by blast
  have g: "j < length (v_anims st) \<and> an_onEnd (v_anims st ! j) \<and> an_timeout (v_anims st ! j) = Some i \<and>
      i < v_nextTimer st \<and> j \<noteq> k \<and> an_nativeId (v_anims st ! j) = None \<and> (\<forall>v d. as_motion (an_spec (v_anims st ! j)) \<noteq> Decay v d)" if "(i, j) \<in> set (v_timeouts st)" for i j
    using t that none unfolding timers_ok_def by blast
  show "timers_ok (animationFrame k st)"
    unfolding timers_ok_def using k nat assms(2) none
    by (auto simp: animationFrame_anim less_Suc_eq dest: f g)
  show "timers_ok (delayStart k st)" if "\<And>v d. as_motion (an_spec (v_anims st ! k)) \<noteq> Decay v d"
    unfolding timers_ok_def using k nat assms(2) none that
    by (auto simp: delayStart_anim less_Suc_eq dest: f g)
qed

lemma request_other:
  assumes "value_ok st"
  shows "ends_ok (animationFrame k st)" "handles_ok (animationFrame k st)" "current_ok (animationFrame k st)"
    "ends_ok (delayStart k st)" "handles_ok (delayStart k st)" "current_ok (delayStart k st)"
proof -
  have ok: "ends_ok st" "handles_ok st" "current_ok st" using assms by (simp_all add: value_ok_def)
  show "handles_ok (animationFrame k st)" "handles_ok (delayStart k st)"
    by (rule handles_cong [OF ok(2)]; simp add: animationFrame_anim delayStart_anim)+
  show "ends_ok (animationFrame k st)" "ends_ok (delayStart k st)"
    using ok(1) by (auto simp: ends_ok_def animationFrame_anim delayStart_anim)
  show "current_ok (animationFrame k st)" "current_ok (delayStart k st)"
    using ok(3) by (simp_all add: current_ok_def)
qed

lemma animationFrame_ok:
  assumes "ready k st" and "an_onEnd (v_anims st ! k)" and "n \<le> k"
  shows "value_ok (animationFrame k st) \<and> value_evolves n st (animationFrame k st)"
proof -
  have "value_ok st" "k < length (v_anims st)" using assms(1) by (auto simp: ready_def idle_def)
  then show ?thesis
    using request_timers(1) [OF assms(1,2)] request_other [of st k] assms(3)
    by (auto simp: value_ok_def animationFrame_anim pending_def intro!: request_evolves [of n k] split: if_splits)
qed

lemma delayStart_ok:
  assumes "ready k st" and "an_onEnd (v_anims st ! k)" and "n \<le> k"
    and "\<And>v d. as_motion (an_spec (v_anims st ! k)) \<noteq> Decay v d"
  shows "value_ok (delayStart k st) \<and> value_evolves n st (delayStart k st)"
proof -
  have "value_ok st" "k < length (v_anims st)" using assms(1) by (auto simp: ready_def idle_def)
  then show ?thesis
    using request_timers(2) [OF assms(1,2,4)] request_other [of st k] assms(3)
    by (auto simp: value_ok_def delayStart_anim pending_def intro!: request_evolves [of n k] split: if_splits)
qed

section \<open>Running\<close>

lemma same_then:
  assumes "same st st'" and "n \<le> length (v_anims st)"
    and "value_ok t \<and> value_evolves n st' t"
  shows "value_ok t \<and> value_evolves n st t"
  using assms value_evolves_trans [OF same_evolves [OF assms(1,2)]] by blast

lemma ready_then:
  assumes "ready k st' \<and> value_evolves n st st'" and "ready k st' \<Longrightarrow> value_ok t \<and> value_evolves n st' t"
  shows "value_ok t \<and> value_evolves n st t"
  using assms value_evolves_trans by blast

lemma ready_length: "ready k st \<Longrightarrow> n \<le> k \<Longrightarrow> n \<le> length (v_anims st)"
  by (simp add: ready_def idle_def)

lemma startNative_simps [simp]:
  "length (v_anims (startNativeAnimation k st)) = length (v_anims st)" "v_frames (startNativeAnimation k st) = v_frames st"
  "v_timeouts (startNativeAnimation k st) = v_timeouts st" "v_nextTimer (startNativeAnimation k st) = v_nextTimer st"
  "v_manager (startNativeAnimation k st) = v_manager st" "v_animation (startNativeAnimation k st) = v_animation st"
  "end_count j (startNativeAnimation k st) = end_count j st" "pending j (startNativeAnimation k st) = pending j st"
  by (simp_all add: startNativeAnimation_def Let_def is_end_def pending_def)

lemma startNative_anim:
  "j < length (v_anims st) \<Longrightarrow> v_anims (startNativeAnimation k st) ! j =
     (if j = k then (v_anims st ! j)\<lparr>an_nativeId := Some (v_nextNativeId st)\<rparr> else v_anims st ! j)"
  by (simp add: startNativeAnimation_def Let_def anim_at)

lemma startNative_ok:
  assumes "ready k st" and "n \<le> k"
  shows "value_ok (startNativeAnimation k st) \<and> value_evolves n st (startNativeAnimation k st)"
proof -
  have ok: "value_ok st" "k < length (v_anims st)" and none: "pending k st = {}" using assms(1) by (auto simp: ready_def idle_def)
  have other: "j \<noteq> k" if "(i, j) \<in> set (v_frames st) \<or> (i, j) \<in> set (v_timeouts st)" for i j
    using that none by (auto simp: pending_def)
  have t: "timers_ok st" using ok by (simp add: value_ok_def)
  have "timers_ok (startNativeAnimation k st)"
    by (rule timers_mono [OF t]; simp add: startNative_anim) (use other in blast)
  moreover have "handles_ok (startNativeAnimation k st)"
    by (rule handles_cong [of st]) (use ok in \<open>simp_all add: value_ok_def startNative_anim\<close>)
  moreover have "ends_ok (startNativeAnimation k st)" using ok by (auto simp: value_ok_def ends_ok_def startNative_anim)
  moreover have "current_ok (startNativeAnimation k st)" using ok by (simp add: value_ok_def current_ok_def)
  moreover have "value_evolves n st (startNativeAnimation k st)"
    using assms(2) ok(2) by (intro request_evolves [of n k]) (auto simp: startNative_anim split: if_splits)
  ultimately show ?thesis by (simp add: value_ok_def)
qed

lemma active_unended: "ready k st \<Longrightarrow> an_active (v_anims st ! k) \<Longrightarrow> an_onEnd (v_anims st ! k)"
  by (simp add: ready_def idle_def)

lemma decay_onUpdate_ok:
  assumes env: "env_ok env" and k: "ready k st" "n \<le> k"
  shows "value_ok (decay_onUpdate env k v d st) \<and> value_evolves n st (decay_onUpdate env k v d st)"
proof -
  define x st1 where x: "x = decay_at (v_anims st ! k) v d (v_now st)" and st1: "st1 = updateValue env x True st"
  have r: "ready k st1 \<and> value_evolves n st st1"
    unfolding st1 using updateValue_ready [OF env k(1) ready_length [OF k]] .
  show ?thesis
  proof (rule ready_then [OF r])
    assume r1: "ready k st1"
    define st2 where "st2 = with_anim k (\<lambda>a. a\<lparr>an_last := x\<rparr>) st1"
    have s: "same st1 st2" unfolding st2_def by (rule same_with_anim) (simp add: core_def)
    have eq: "decay_onUpdate env k v d st = (if \<bar>an_last (v_anims st1 ! k) - x\<bar> < 0.1 then debouncedOnEnd env k True st1
      else if an_active (v_anims st2 ! k) then animationFrame k st2 else st2)"
      by (simp add: decay_onUpdate_def Let_def x st1 st2_def)
    have "value_ok (if an_active (v_anims st2 ! k) then animationFrame k st2 else st2) \<and>
        value_evolves n st2 (if an_active (v_anims st2 ! k) then animationFrame k st2 else st2)"
      using animationFrame_ok [OF same_ready [OF s r1] _ k(2)] active_unended [OF same_ready [OF s r1]]
        same_ready [OF s r1] k(2) same_evolves [of st2 st2] by (simp add: ready_def idle_def)
    from same_then [OF s ready_length [OF r1 k(2)] this] show
      "value_ok (decay_onUpdate env k v d st) \<and> value_evolves n st1 (decay_onUpdate env k v d st)"
      using debounced_ok [OF env ready_idle [OF r1], of n True] k(2) ready_length [OF r1 k(2)] by (simp add: eq)
  qed
qed

lemma timing_onUpdate_ok:
  assumes env: "env_ok env" and k: "ready k st" "n \<le> k"
  shows "value_ok (timing_onUpdate env k to dur ease st) \<and> value_evolves n st (timing_onUpdate env k to dur ease st)"
proof -
  have u: "ready k (updateValue env x True st) \<and> value_evolves n st (updateValue env x True st)" for x
    using updateValue_ready [OF env k(1) ready_length [OF k]] .
  have "value_ok (debouncedOnEnd env k True (updateValue env x True st)) \<and>
      value_evolves n st (debouncedOnEnd env k True (updateValue env x True st))" for x
    by (rule ready_then [OF u]) (use debounced_ok [OF env ready_idle] k(2) ready_length in blast)
  moreover have "value_ok (if an_active (v_anims (updateValue env x True st) ! k)
        then animationFrame k (updateValue env x True st) else updateValue env x True st) \<and>
      value_evolves n st (if an_active (v_anims (updateValue env x True st) ! k)
        then animationFrame k (updateValue env x True st) else updateValue env x True st)" for x
  proof (cases "an_active (v_anims (updateValue env x True st) ! k)")
    case True
    have "value_ok (animationFrame k (updateValue env x True st)) \<and> value_evolves n st (animationFrame k (updateValue env x True st))"
      by (rule ready_then [OF u]) (use animationFrame_ok [OF _ _ k(2)] active_unended True in blast)
    with True show ?thesis by simp
  next
    case False
    then show ?thesis using u [of x] by (simp add: ready_def idle_def)
  qed
  ultimately show ?thesis by (simp add: timing_onUpdate_def Let_def)
qed

lemma spring_onUpdate_ok:
  assumes env: "env_ok env" and k: "ready k st" "n \<le> k"
  shows "value_ok (spring_onUpdate env k m st) \<and> value_evolves n st (spring_onUpdate env k m st)"
proof -
  define a where "a = spring_advance m (v_now st) (v_anims st ! k)"
  define st0 where "st0 = with_anim k (\<lambda>_. a) st"
  have s0: "same st st0" unfolding st0_def
    by (rule same_with_anim) (simp add: a_def spring_advance_def Let_def core_def)
  define st1 where "st1 = updateValue env (an_last a) True st0"
  have r0: "ready k st0" using same_ready [OF s0 k(1)] .
  have r: "ready k st1 \<and> value_evolves n st0 st1"
    unfolding st1_def using updateValue_ready [OF env r0 ready_length [OF r0 k(2)]] .
  define st1' where "st1' = with_anim k (\<lambda>a. a\<lparr>an_last := sm_toValue m, an_lastVelocity := 0\<rparr>) st1"
  define st2 where "st2 = (if sp_stiffness (sm_params m) \<noteq> 0 then updateValue env (sm_toValue m) True st1' else st1)"
  have s1: "same st1 st1'" unfolding st1'_def by (rule same_with_anim) (simp add: core_def)
  have r1': "ready k st1'" using same_ready [OF s1] r by blast
  have r2: "ready k st2 \<and> value_evolves n st1 st2"
    using updateValue_ready [OF env r1' ready_length [OF r1' k(2)], of "sm_toValue m" True]
      value_evolves_trans [OF same_evolves [OF s1 ready_length [OF conjunct1 [OF r] k(2)]]] r
      same_evolves [of st1 st1] ready_length [OF conjunct1 [OF r] k(2)]
    by (auto simp: st2_def)
  have eq: "spring_onUpdate env k m st = (if \<not> an_active (v_anims st1 ! k) then st1
      else if isOvershooting m (an_from (v_anims st1 ! k)) (an_last a) \<or> spring_at_rest m (an_last a) (an_lastVelocity a)
      then debouncedOnEnd env k True st2 else animationFrame k st1)"
    by (simp add: spring_onUpdate_def Let_def a_def st0_def st1_def st2_def st1'_def)
  have d: "value_ok (debouncedOnEnd env k True st2) \<and> value_evolves n st1 (debouncedOnEnd env k True st2)"
    by (rule ready_then [OF r2]) (use debounced_ok [OF env ready_idle] k(2) ready_length in blast)
  have "value_ok (spring_onUpdate env k m st) \<and> value_evolves n st1 (spring_onUpdate env k m st)"
    using d r animationFrame_ok [OF conjunct1 [OF r] _ k(2)] active_unended [OF conjunct1 [OF r]]
      same_evolves [of st1 st1] ready_length [OF conjunct1 [OF r] k(2)]
    by (auto simp: eq ready_def idle_def)
  with r show ?thesis using same_then [OF s0 ready_length [OF k]] value_evolves_trans by blast
qed

lemma timing_begin_ok:
  assumes env: "env_ok env" and k: "ready k st" "n \<le> k" and live: "an_onEnd (v_anims st ! k)"
  shows "value_ok (timing_begin env k to dur st) \<and> value_evolves n st (timing_begin env k to dur st)"
proof -
  define st1 where "st1 = with_anim k (\<lambda>a. a\<lparr>an_startTime := v_now st\<rparr>) st"
  have s: "same st st1" unfolding st1_def by (rule same_with_anim) (simp add: core_def)
  have kl: "k < length (v_anims st)" using k(1) by (simp add: ready_def idle_def)
  have l: "an_onEnd (v_anims st1 ! k)" using live same_anim(2) [OF s kl] by simp
  have "value_ok (debouncedOnEnd env k True (updateValue env to True st)) \<and>
      value_evolves n st (debouncedOnEnd env k True (updateValue env to True st))"
    by (rule ready_then [OF updateValue_ready [OF env k(1) ready_length [OF k]]])
      (use debounced_ok [OF env ready_idle] k(2) ready_length in blast)
  then show ?thesis
    using same_then [OF s ready_length [OF k] startNative_ok [OF same_ready [OF s k(1)] k(2)]]
      same_then [OF s ready_length [OF k] animationFrame_ok [OF same_ready [OF s k(1)] l k(2)]]
    by (simp add: timing_begin_def Let_def st1_def [symmetric])
qed

lemma spring_begin_ok:
  assumes "env_ok env" and "ready k st" and "n \<le> k"
  shows "value_ok (spring_begin env k m st) \<and> value_evolves n st (spring_begin env k m st)"
  using spring_onUpdate_ok [OF assms, of m] startNative_ok [OF assms(2,3)] by (simp add: spring_begin_def)

lemma anim_start_ok:
  assumes env: "env_ok env" and k: "ready k st" "n \<le> k" and live: "an_onEnd (v_anims st ! k)"
  shows "value_ok (anim_start env k prev st) \<and> value_evolves n st (anim_start env k prev st)"
proof (cases "as_motion (an_spec (v_anims st ! k))")
  case (Timing to dur ease)
  then show ?thesis
    using timing_begin_ok [OF assms, of to dur] delayStart_ok [OF k(1) live k(2)]
    by (simp add: anim_start_def timing_start_def)
next
  case (Spring m)
  define st1 where "st1 = with_anim k (\<lambda>a. inherit_spring prev (a\<lparr>an_last := v_value st, an_lastTime := v_now st, an_frameTime := 0\<rparr>)) st"
  have s: "same st st1" unfolding st1_def
    by (rule same_with_anim) (simp add: core_def inherit_spring_def split: option.split motion.split)
  have r: "ready k st1" using same_ready [OF s k(1)] .
  have kl: "k < length (v_anims st)" using k(1) by (simp add: ready_def idle_def)
  have l: "an_onEnd (v_anims st1 ! k)" "\<And>v d. as_motion (an_spec (v_anims st1 ! k)) \<noteq> Decay v d"
    using live Spring same_anim(2) [OF s kl] by simp_all
  show ?thesis
    using same_then [OF s ready_length [OF k] spring_begin_ok [OF env r k(2)]]
      same_then [OF s ready_length [OF k] delayStart_ok [OF r l(1) k(2) l(2)]] Spring
    by (simp add: anim_start_def spring_start_def Let_def st1_def [symmetric])
next
  case (Decay v d)
  define st1 where "st1 = with_anim k (\<lambda>a. a\<lparr>an_last := v_value st, an_startTime := v_now st\<rparr>) st"
  have s: "same st st1" unfolding st1_def by (rule same_with_anim) (simp add: core_def)
  have r: "ready k st1" using same_ready [OF s k(1)] .
  have kl: "k < length (v_anims st)" using k(1) by (simp add: ready_def idle_def)
  have l: "an_onEnd (v_anims st1 ! k)" using live same_anim(2) [OF s kl] by simp
  show ?thesis
    using same_then [OF s ready_length [OF k] startNative_ok [OF r k(2)]]
      same_then [OF s ready_length [OF k] animationFrame_ok [OF r l k(2)]] Decay
    by (simp add: anim_start_def decay_start_def Let_def st1_def [symmetric])
qed

section \<open>Starting\<close>

definition begun :: "animation_spec \<Rightarrow> nat option \<Rightarrow> value_state \<Rightarrow> value_state" where
  "begun spec handle st = st\<lparr>v_anims := v_anims st @ [new_animation spec handle (v_value st)], v_animation := Some (length (v_anims st))\<rparr>"

text \<open>A handle that was created for an animation that has not started yet.\<close>

definition fresh_handle :: "nat option \<Rightarrow> value_state \<Rightarrow> bool" where
  "fresh_handle handle st \<longleftrightarrow> (\<forall>h. handle = Some h \<longrightarrow>
     0 < h \<and> h \<le> inc (v_manager st) \<and> h \<in> active_handles (v_manager st) \<and> \<not> owned h st)"

lemma fresh_evolves: "fresh_handle handle st \<Longrightarrow> value_evolves n st st' \<Longrightarrow> fresh_handle handle st'"
  by (cases handle) (auto simp: fresh_handle_def value_evolves_def intro: le_trans)

lemma begun_simps [simp]:
  "length (v_anims (begun spec handle st)) = Suc (length (v_anims st))" "v_frames (begun spec handle st) = v_frames st"
  "v_timeouts (begun spec handle st) = v_timeouts st" "v_nextTimer (begun spec handle st) = v_nextTimer st"
  "v_manager (begun spec handle st) = v_manager st" "end_count j (begun spec handle st) = end_count j st"
  "v_animation (begun spec handle st) = Some (length (v_anims st))" "pending j (begun spec handle st) = pending j st"
  by (simp_all add: begun_def end_count_def pending_def)

lemma begun_anim:
  "j < length (v_anims st) \<Longrightarrow> v_anims (begun spec handle st) ! j = v_anims st ! j"
  "an_onEnd (v_anims (begun spec handle st) ! length (v_anims st))"
  "an_handle (v_anims (begun spec handle st) ! length (v_anims st)) = handle"
  "an_nativeId (v_anims (begun spec handle st) ! length (v_anims st)) = None"
  by (simp_all add: begun_def nth_append new_animation_def Let_def)

lemma begun_handles:
  assumes "handles_ok st" and "fresh_handle handle st"
  shows "handles_ok (begun spec handle st)"
proof -
  let ?k = "length (v_anims st)"
  have old: "0 < h \<and> h \<le> inc (v_manager st) \<and> (h \<in> active_handles (v_manager st) \<longleftrightarrow> an_onEnd (v_anims st ! j)) \<and>
      (\<forall>i < ?k. an_handle (v_anims st ! i) = Some h \<longrightarrow> i = j)" if "j < ?k" "an_handle (v_anims st ! j) = Some h" for j h
    using assms(1) that unfolding handles_ok_def by blast
  have new: "0 < h \<and> h \<le> inc (v_manager st) \<and> h \<in> active_handles (v_manager st)" "\<And>i. i < ?k \<Longrightarrow> an_handle (v_anims st ! i) \<noteq> Some h"
    if "handle = Some h" for h
    using assms(2) that by (auto simp: fresh_handle_def owned_def)
  show ?thesis unfolding handles_ok_def
  proof (intro conjI allI impI)
    show "handles_bounded (v_manager (begun spec handle st))" using assms(1) by (simp add: handles_ok_def)
    fix j h assume j: "j < length (v_anims (begun spec handle st))" "an_handle (v_anims (begun spec handle st) ! j) = Some h"
    then consider (o) "j < ?k" "an_handle (v_anims st ! j) = Some h" | (n) "j = ?k" "handle = Some h"
      by (auto simp: less_Suc_eq begun_anim)
    then have all: "0 < h \<and> h \<le> inc (v_manager st) \<and>
        (h \<in> active_handles (v_manager st) \<longleftrightarrow> an_onEnd (v_anims (begun spec handle st) ! j)) \<and>
        (\<forall>i < Suc ?k. an_handle (v_anims (begun spec handle st) ! i) = Some h \<longrightarrow> i = j)"
    proof cases
      case o
      then have "handle \<noteq> Some h" using new(2) [of h j] by auto
      moreover have "i = j" if "i < Suc ?k" "an_handle (v_anims (begun spec handle st) ! i) = Some h" for i
        using that calculation old [OF o] begun_anim(1) [of i st spec handle] begun_anim(3) [of spec handle st]
        by (cases "i = ?k") auto
      ultimately show ?thesis using o(1) old [OF o] begun_anim(1) [OF o(1)] by simp
    next
      case n
      with new [OF n(2)] show ?thesis by (auto simp: less_Suc_eq begun_anim)
    qed
    then show "0 < h" "h \<le> inc (v_manager (begun spec handle st))"
      "(h \<in> active_handles (v_manager (begun spec handle st))) = an_onEnd (v_anims (begun spec handle st) ! j)" by auto
    fix i assume "i < length (v_anims (begun spec handle st))" "an_handle (v_anims (begun spec handle st) ! i) = Some h"
    then show "i = j" using all by simp
  qed
qed

lemma begun_ready:
  assumes "value_ok st" and "fresh_handle handle st" and "k = length (v_anims st)"
  shows "ready k (begun spec handle st)"
proof -
  have t: "timers_ok st" and e: "ends_ok st" using assms(1) by (auto simp: value_ok_def)
  have "timers_ok (begun spec handle st)" by (rule timers_mono [OF t]) (simp_all add: begun_anim)
  moreover have "ends_ok (begun spec handle st)" using e by (auto simp: ends_ok_def less_Suc_eq begun_anim)
  moreover have "current_ok (begun spec handle st)" by (simp add: current_ok_def)
  moreover have "pending k st = {}" using t assms(3) unfolding timers_ok_def pending_def by blast
  ultimately show ?thesis
    using begun_handles [OF _ assms(2)] assms(1,3) by (simp add: ready_def idle_def value_ok_def begun_anim)
qed

lemma begun_evolves:
  assumes "value_evolves n st st2" and "n \<le> length (v_anims st2)" and "\<And>h. handle = Some h \<Longrightarrow> inc (v_manager st) < h"
  shows "value_evolves n st (begun spec handle st2)"
proof -
  have "owned h (begun spec handle st2) \<longleftrightarrow> owned h st2 \<or> handle = Some h" for h
    by (auto simp: owned_def less_Suc_eq begun_anim)
  then show ?thesis
    using assms unfolding value_evolves_def anim_evolves_def by (auto simp: begun_anim)
qed

lemma take_interaction_ok:
  assumes "value_ok st" and "take_interaction spec st = (handle, st1)" and "n \<le> length (v_anims st)"
  shows "value_ok st1 \<and> value_evolves n st st1" and "fresh_handle handle st1" and "v_anims st1 = v_anims st"
    and "\<And>h. handle = Some h \<Longrightarrow> inc (v_manager st) < h" and "v_animation st1 = v_animation st"
proof -
  obtain h im where c: "createInteractionHandle (v_manager st) = (h, im)" by fastforce
  have b: "handles_bounded (v_manager st)" using assms(1) by (simp add: value_ok_def handles_ok_def)
  note ch = create_handle [OF b c]
  have st1: "st1 = (if as_interaction spec then st\<lparr>v_manager := im\<rparr> else st)" "handle = (if as_interaction spec then Some h else None)"
    using assms(2) by (auto simp: take_interaction_def c split: if_splits)
  show "v_anims st1 = v_anims st" "v_animation st1 = v_animation st" "\<And>h. handle = Some h \<Longrightarrow> inc (v_manager st) < h"
    using ch st1 by (auto split: if_splits)
  let ?st = "st\<lparr>v_manager := im\<rparr>"
  have small: "h' < h" if "j < length (v_anims st)" "an_handle (v_anims st ! j) = Some h'" for j h'
    using assms(1) that ch(1) unfolding value_ok_def handles_ok_def by (metis less_Suc_eq_le)
  have o: "owned h' ?st = owned h' st" for h' by (simp add: owned_def)
  have "handles_ok ?st"
  proof -
    have act: "h' \<in> active_handles im \<longleftrightarrow> h' \<in> active_handles (v_manager st)" "h' \<le> inc im"
      if "j < length (v_anims st)" "an_handle (v_anims st ! j) = Some h'" for j h'
      using small [OF that] ch by auto
    have old: "0 < h' \<and> (h' \<in> active_handles (v_manager st) \<longleftrightarrow> an_onEnd (v_anims st ! j)) \<and>
        (\<forall>i < length (v_anims st). an_handle (v_anims st ! i) = Some h' \<longrightarrow> i = j)"
      if "j < length (v_anims st)" "an_handle (v_anims st ! j) = Some h'" for j h'
      using assms(1) that unfolding value_ok_def handles_ok_def by blast
    show ?thesis unfolding handles_ok_def
    proof (intro conjI allI impI)
      show "handles_bounded (v_manager ?st)" using ch(4) by simp
      fix j h' assume "j < length (v_anims ?st)" "an_handle (v_anims ?st ! j) = Some h'"
      then have j: "j < length (v_anims st)" "an_handle (v_anims st ! j) = Some h'" by simp_all
      show "0 < h'" "h' \<le> inc (v_manager ?st)"
        "(h' \<in> active_handles (v_manager ?st)) = an_onEnd (v_anims ?st ! j)" using act [OF j] old [OF j] by simp_all
      fix i assume "i < length (v_anims ?st)" "an_handle (v_anims ?st ! i) = Some h'"
      then show "i = j" using old [OF j] by simp
    qed
  qed
  moreover have "timers_ok ?st" by (rule timers_mono [of st]) (use assms(1) in \<open>simp_all add: value_ok_def\<close>)
  ultimately have ok: "value_ok ?st" using assms(1) by (simp add: value_ok_def ends_ok_def current_ok_def)
  have ev: "value_evolves n st ?st"
    using ch unfolding value_evolves_def anim_evolves_def o by (auto simp: pending_def)
  show "value_ok st1 \<and> value_evolves n st st1"
    using ok ev assms(1,3) st1 same_evolves [of st st] by simp
  show "fresh_handle handle st1"
    using ch small st1 by (auto simp: fresh_handle_def o) (auto simp: owned_def)
qed

lemma animate_ok:
  assumes env: "env_ok env" and ok: "value_ok st" and n: "n \<le> length (v_anims st)"
  shows "value_ok (animate env spec st) \<and> value_evolves n st (animate env spec st)"
proof -
  obtain handle st1 where t: "take_interaction spec st = (handle, st1)" by fastforce
  note ti = take_interaction_ok [OF ok t n]
  have ok1: "value_ok st1" and ev1: "value_evolves n st st1" using ti(1) by auto
  define st2 where "st2 = (case v_animation st1 of None \<Rightarrow> st1 | Some p \<Rightarrow> anim_stop env p st1)"
  have n1: "n \<le> length (v_anims st1)" using n ti(3) by simp
  have "value_ok st2 \<and> value_evolves n st1 st2"
  proof (cases "v_animation st1")
    case None
    then show ?thesis using ok1 n1 same_evolves [of st1 st1] by (simp add: st2_def)
  next
    case (Some p)
    then have "p < length (v_anims st1)" using ok1 by (simp add: value_ok_def current_ok_def)
    from anim_stop_ok [OF env ok1 this n1] Some show ?thesis by (simp add: st2_def)
  qed
  then have ok2: "value_ok st2" and ev12: "value_evolves n st1 st2" by auto
  have f2: "fresh_handle handle st2" using fresh_evolves [OF ti(2) ev12] .
  define k where "k = length (v_anims st2)"
  have nk: "n \<le> k" using evolves_length [OF ev12] n1 by (simp add: k_def)
  define st3 where "st3 = begun spec handle st2"
  have r: "ready k st3" unfolding st3_def by (rule begun_ready [OF ok2 f2 k_def])
  have l: "an_onEnd (v_anims st3 ! k)" by (simp add: st3_def k_def begun_anim)
  have ev: "value_evolves n st st3"
    unfolding st3_def by (rule begun_evolves [OF value_evolves_trans [OF ev1 ev12]]) (use nk k_def ti(4) in auto)
  have "\<exists>prev. animate env spec st = anim_start env k prev st3"
    by (auto simp: animate_def t Let_def st2_def [symmetric] k_def st3_def begun_def)
  then show ?thesis using anim_start_ok [OF env r nk l] value_evolves_trans [OF ev] by metis
qed

section \<open>All operations\<close>

lemma good_then:
  assumes "value_ok s \<and> value_evolves n r s" and "value_ok s \<Longrightarrow> value_ok t \<and> value_evolves n s t"
  shows "value_ok t \<and> value_evolves n r t"
  using assms value_evolves_trans by blast

lemma same_good: "same st st' \<Longrightarrow> value_ok st \<Longrightarrow> n \<le> length (v_anims st) \<Longrightarrow> value_ok st' \<and> value_evolves n st st'"
  by (simp add: same_ok same_evolves)

lemma stop_current_ok:
  assumes "env_ok env" and "value_ok st" and "n \<le> length (v_anims st)"
  shows "value_ok (case v_animation st of None \<Rightarrow> st | Some k \<Rightarrow> anim_stop env k st) \<and>
    value_evolves n st (case v_animation st of None \<Rightarrow> st | Some k \<Rightarrow> anim_stop env k st)"
  using anim_stop_ok [OF assms(1,2) _ assms(3)] assms(2,3) same_good [of st st n]
  by (auto simp: value_ok_def current_ok_def split: option.split)

lemma setValue_ok:
  assumes "env_ok env" and "value_ok st" and "n \<le> length (v_anims st)"
  shows "value_ok (setValue env v st) \<and> value_evolves n st (setValue env v st)"
proof -
  define st1 where "st1 = (case v_animation st of None \<Rightarrow> st | Some k \<Rightarrow> (anim_stop env k st)\<lparr>v_animation := None\<rparr>)"
  have 1: "value_ok st1 \<and> value_evolves n st st1"
  proof (rule good_then [OF stop_current_ok [OF assms]])
    let ?s = "case v_animation st of None \<Rightarrow> st | Some k \<Rightarrow> anim_stop env k st"
    have "n \<le> length (v_anims ?s)" using stop_current_ok [OF assms] evolves_length assms(3) by (meson le_trans)
    moreover have "same ?s st1" by (simp add: st1_def split: option.split)
    ultimately show "value_ok ?s \<Longrightarrow> value_ok st1 \<and> value_evolves n ?s st1" using same_good by blast
  qed
  define st2 where "st2 = updateValue env v (\<not> v_isNative st1) st1"
  have n1: "n \<le> length (v_anims st1)" using 1 evolves_length assms(3) by (meson le_trans)
  have 2: "value_ok st2 \<and> value_evolves n st st2"
    unfolding st2_def by (rule good_then [OF 1 updateValue_ok [OF assms(1) _ n1]])
  have "n \<le> length (v_anims st2)" using 2 evolves_length assms(3) by (meson le_trans)
  then show ?thesis
    using good_then [OF 2, of "value_call (SetAnimatedNodeValue v) st2"] 2 same_good [of st2 "value_call (SetAnimatedNodeValue v) st2" n]
    by (simp add: setValue_def Let_def st1_def [symmetric] st2_def [symmetric])
qed

lemma same_pure:
  "same st (setOffset v st)" "same st (flattenOffset st)" "same st (extractOffset st)" "same st (track spec st)"
  "same st (stopTracking st)"
  by (simp_all add: same_def setOffset_def flattenOffset_def extractOffset_def track_def stopTracking_def Let_def is_end_def)

lemma stopAnimation_ok:
  assumes "env_ok env" and "value_ok st" and "n \<le> length (v_anims st)"
  shows "value_ok (stopAnimation env None st) \<and> value_evolves n st (stopAnimation env None st)"
proof -
  define st1 where "st1 = stopTracking st"
  have s: "same st st1" by (simp add: st1_def same_pure)
  have ok: "value_ok st1" "n \<le> length (v_anims st1)" using same_ok [OF s assms(2)] same_anim(1) [OF s] assms(3) by auto
  let ?s = "case v_animation st1 of None \<Rightarrow> st1 | Some k \<Rightarrow> anim_stop env k st1"
  have 1: "value_ok ?s \<and> value_evolves n st1 ?s" by (rule stop_current_ok [OF assms(1) ok])
  have "n \<le> length (v_anims ?s)" using 1 evolves_length ok(2) by (meson le_trans)
  then have "value_ok (?s\<lparr>v_animation := None\<rparr>) \<and> value_evolves n st1 (?s\<lparr>v_animation := None\<rparr>)"
    by (intro good_then [OF 1 same_good]) simp_all
  from same_then [OF s assms(3) this] show ?thesis by (simp add: stopAnimation_def Let_def flip: st1_def)
qed

lemma resetAnimation_ok:
  assumes "env_ok env" and "value_ok st" and "n \<le> length (v_anims st)"
  shows "value_ok (resetAnimation env None st) \<and> value_evolves n st (resetAnimation env None st)"
proof -
  let ?s = "stopAnimation env None st"
  have 1: "value_ok ?s \<and> value_evolves n st ?s" by (rule stopAnimation_ok [OF assms])
  have n: "n \<le> length (v_anims ?s)" using 1 evolves_length assms(3) by (meson le_trans)
  have "same ?s (resetAnimation env None st)" by (simp add: resetAnimation_def Let_def same_def is_end_def)
  from good_then [OF 1 same_good [OF this _ n]] show ?thesis by simp
qed

lemma tracking_update_ok:
  assumes "env_ok env" and "value_ok st" and "n \<le> length (v_anims st)"
  shows "value_ok (tracking_update env v st) \<and> value_evolves n st (tracking_update env v st)"
  using animate_ok [OF assms] assms(2,3) same_good [of st st n] by (simp add: tracking_update_def split: option.split)

text \<open>The operations that user code can call; listeners may do so.\<close>

definition user_event :: "value_event \<Rightarrow> bool" where
  "user_event e = (case e of NativeEnd _ _ \<Rightarrow> False | FrameFires _ _ \<Rightarrow> False | TimeoutFires _ _ \<Rightarrow> False | _ \<Rightarrow> True)"

lemma user_event_ok:
  assumes "env_ok env" and "user_event e" shows "user_ok (\<lambda>st. value_step st (env, e))"
proof -
  have "value_ok (value_step st (env, e)) \<and> value_evolves (length (v_anims st)) st (value_step st (env, e))" if "value_ok st" for st
    using assms(2) animate_ok [OF assms(1) that order_refl] setValue_ok [OF assms(1) that order_refl]
      stopAnimation_ok [OF assms(1) that order_refl] resetAnimation_ok [OF assms(1) that order_refl]
      tracking_update_ok [OF assms(1) that order_refl] updateValue_ok [OF assms(1) that order_refl]
      same_good [OF same_pure(1) that order_refl] same_good [OF same_pure(2) that order_refl]
      same_good [OF same_pure(3) that order_refl] same_good [OF same_pure(4) that order_refl]
    by (cases e) (simp_all add: user_event_def onAnimatedValueUpdateReceived_def)
  then show ?thesis by (simp add: user_ok_def)
qed

lemma frame_ready:
  assumes "value_ok st" and "map_of (v_frames st) i = Some k"
  shows "ready k (st\<lparr>v_frames := without (Some i) (v_frames st), v_now := now\<rparr>)"
    and "an_onEnd (v_anims st ! k)"
proof -
  let ?st = "st\<lparr>v_frames := without (Some i) (v_frames st), v_now := now\<rparr>"
  have ik: "(i, k) \<in> set (v_frames st)" using map_of_SomeD [OF assms(2)] .
  have t: "timers_ok st" using assms(1) by (simp add: value_ok_def)
  have f: "k < length (v_anims st)" "an_onEnd (v_anims st ! k)" "an_frame (v_anims st ! k) = Some i" "\<And>j. (j, k) \<notin> set (v_timeouts st)"
    "an_nativeId (v_anims st ! k) = None"
    using t ik unfolding timers_ok_def by blast+
  have "(j, k) \<notin> set (v_frames ?st)" for j
  proof
    assume j: "(j, k) \<in> set (v_frames ?st)"
    then have "(j, k) \<in> set (v_frames st)" "j \<noteq> i" by (auto simp: set_without)
    with t f(3) show False unfolding timers_ok_def by force
  qed
  then have "pending k ?st = {}" using f(4) by (simp add: pending_def)
  moreover have "timers_ok ?st" by (rule timers_mono [OF t]) (auto simp: set_without)
  moreover have "handles_ok ?st" by (rule handles_cong [of st]) (use assms(1) in \<open>simp_all add: value_ok_def\<close>)
  ultimately show "ready k ?st" "an_onEnd (v_anims st ! k)"
    using assms(1) f by (simp_all add: ready_def idle_def value_ok_def ends_ok_def current_ok_def)
qed

lemma timeout_ready:
  assumes "value_ok st" and "map_of (v_timeouts st) i = Some k"
  shows "ready k (st\<lparr>v_timeouts := without (Some i) (v_timeouts st), v_now := now\<rparr>)"
    and "an_onEnd (v_anims st ! k)"
proof -
  let ?st = "st\<lparr>v_timeouts := without (Some i) (v_timeouts st), v_now := now\<rparr>"
  have ik: "(i, k) \<in> set (v_timeouts st)" using map_of_SomeD [OF assms(2)] .
  have t: "timers_ok st" using assms(1) by (simp add: value_ok_def)
  have f: "k < length (v_anims st)" "an_onEnd (v_anims st ! k)" "an_timeout (v_anims st ! k) = Some i" "\<And>j. (j, k) \<notin> set (v_frames st)"
    "an_nativeId (v_anims st ! k) = None"
    using t ik unfolding timers_ok_def by blast+
  have "(j, k) \<notin> set (v_timeouts ?st)" for j
  proof
    assume j: "(j, k) \<in> set (v_timeouts ?st)"
    then have "(j, k) \<in> set (v_timeouts st)" "j \<noteq> i" by (auto simp: set_without)
    with t f(3) show False unfolding timers_ok_def by force
  qed
  then have "pending k ?st = {}" using f(4) by (simp add: pending_def)
  moreover have "timers_ok ?st" by (rule timers_mono [OF t]) (auto simp: set_without)
  moreover have "handles_ok ?st" by (rule handles_cong [of st]) (use assms(1) in \<open>simp_all add: value_ok_def\<close>)
  ultimately show "ready k ?st" "an_onEnd (v_anims st ! k)"
    using assms(1) f by (simp_all add: ready_def idle_def value_ok_def ends_ok_def current_ok_def)
qed

lemma native_idle:
  assumes "value_ok st" and "k < length (v_anims st)" and "an_nativeId (v_anims st ! k) \<noteq> None"
  shows "idle k st"
proof -
  have "timers_ok st" using assms(1) by (simp add: value_ok_def)
  then have "(i, k) \<notin> set (v_frames st) \<and> (i, k) \<notin> set (v_timeouts st)" for i
    using assms(3) unfolding timers_ok_def by auto
  then show ?thesis using assms by (simp add: idle_def pending_def)
qed

lemma value_step_ok:
  assumes env: "env_ok env" and ok: "value_ok st" shows "value_ok (value_step st (env, e))"
proof (cases "user_event e")
  case True
  then show ?thesis using user_event_ok [OF env] ok by (simp add: user_ok_def)
next
  case False
  then consider (n) k b where "e = NativeEnd k b" | (f) i t where "e = FrameFires i t" | (t) i t where "e = TimeoutFires i t"
    by (cases e) (auto simp: user_event_def)
  then show ?thesis
  proof cases
    case n
    then show ?thesis using debounced_ok [OF env native_idle [OF ok], of k 0 b] ok by simp
  next
    case f
    then show ?thesis
      using ok frame_ready(1) [OF ok, of i _ t] timing_onUpdate_ok [OF env, of _ _ 0] spring_onUpdate_ok [OF env, of _ _ 0]
        decay_onUpdate_ok [OF env, of _ _ 0]
      by (auto simp: anim_onUpdate_def split: option.split motion.split)
  next
    case t
    show ?thesis
    proof (cases "map_of (v_timeouts st) i")
      case (Some k)
      let ?st = "st\<lparr>v_timeouts := without (Some i) (v_timeouts st), v_now := t\<rparr>"
      have "ready k ?st" "an_onEnd (v_anims ?st ! k)" using timeout_ready [OF ok Some] by simp_all
      then show ?thesis
        using t Some timing_begin_ok [OF env, of k ?st 0] spring_begin_ok [OF env, of k ?st 0]
        by (auto simp: anim_begin_def ready_def idle_def split: motion.split)
    qed (use t ok in simp)
  qed
qed

interpretation avm: event_machine "\<lambda>st e. value_step st (env, e)" "\<lambda>st. env_ok env \<longrightarrow> value_ok st" for env
  by unfold_locales (simp add: value_step_ok)

lemma new_value_ok: "handles_bounded im \<Longrightarrow> value_ok (new_AnimatedValue im now v)"
  by (simp add: new_AnimatedValue_def value_ok_def timers_ok_def ends_ok_def handles_ok_def current_ok_def end_count_def)

abbreviation value_run :: "value_env \<Rightarrow> value_state \<Rightarrow> value_event list \<Rightarrow> value_state" where
  "value_run env \<equiv> foldl (\<lambda>st e. value_step st (env, e))"

lemma value_run_ok: "env_ok env \<Longrightarrow> handles_bounded im \<Longrightarrow> value_ok (value_run env (new_AnimatedValue im now v) es)"
  using avm.inv_run [of env "new_AnimatedValue im now v" es] new_value_ok [of im now v] by simp

section \<open>Properties\<close>


text \<open>User code that leaves the value alone.\<close>

definition quiet :: value_env where
  "quiet = \<lparr>on_value = \<lambda>_ st. st, on_end = \<lambda>_ _ st. st\<rparr>"

lemma quiet_simps [simp]: "on_value quiet v st = st" "on_end quiet k b st = st"
  by (simp_all add: quiet_def)

lemma quiet_ok: "env_ok quiet"
  by (auto simp: env_ok_def user_ok_def intro: same_evolves)

text \<open>A timing animation that plays: frame \<open>i\<close> is its pending frame.\<close>

definition playing :: "real \<Rightarrow> real \<Rightarrow> (real \<Rightarrow> real) \<Rightarrow> real \<Rightarrow> real \<Rightarrow> nat \<Rightarrow> value_state \<Rightarrow> bool" where
  "playing to dur ease from t0 i st \<longleftrightarrow>
     (\<exists>a. v_anims st = [a] \<and> as_motion (an_spec a) = Timing to dur ease \<and> an_active a \<and> an_onEnd a \<and>
        an_from a = from \<and> an_startTime a = t0) \<and> v_frames st = [(i, 0)] \<and> v_nextTimer st = Suc i"

lemma playing_frame:
  assumes "playing to dur ease from t0 i st" and "t < t0 + dur"
  shows "playing to dur ease from t0 (Suc i) (value_step st (quiet, FrameFires i t)) \<and>
    v_log (value_step st (quiet, FrameFires i t)) = v_log st @ [Updated (from + ease ((t - t0) / dur) * (to - from)) True]"
  using assms
  by (auto simp: playing_def anim_onUpdate_def timing_onUpdate_def updateValue_def animationFrame_def with_anim_def
      value_call_def without_def Let_def)

lemma playing_last:
  assumes "playing to dur ease from t0 i st" and "t0 + dur \<le> t" and "0 < dur"
  shows "v_log (value_step st (quiet, FrameFires i t)) =
      v_log st @ [Updated (from + ease 1 * (to - from)) True, Ended 0 True] \<and>
    v_value (value_step st (quiet, FrameFires i t)) = from + ease 1 * (to - from) \<and>
    v_frames (value_step st (quiet, FrameFires i t)) = []"
  using assms
  by (auto simp: playing_def anim_onUpdate_def timing_onUpdate_def updateValue_def debouncedOnEnd_def ended_def
      with_anim_def value_call_def without_def Let_def split: option.split)

text \<open>The frames from \<open>i\<close> on, at the given times.\<close>

fun frames_at :: "nat \<Rightarrow> real list \<Rightarrow> value_event list" where
  "frames_at i [] = []"
| "frames_at i (t # ts) = FrameFires i t # frames_at (Suc i) ts"

lemma frames_at_append: "frames_at i (ts @ us) = frames_at i ts @ frames_at (i + length ts) us"
  by (induction ts arbitrary: i) simp_all

lemma playing_frames:
  assumes "playing to dur ease from t0 i st" and "\<forall>t \<in> set ts. t < t0 + dur"
  shows "playing to dur ease from t0 (i + length ts) (value_run quiet st (frames_at i ts)) \<and>
    v_log (value_run quiet st (frames_at i ts)) =
      v_log st @ map (\<lambda>t. Updated (from + ease ((t - t0) / dur) * (to - from)) True) ts"
  using assms
proof (induction ts arbitrary: i st)
  case (Cons t ts)
  have "playing to dur ease from t0 (Suc i) (value_step st (quiet, FrameFires i t))"
    "v_log (value_step st (quiet, FrameFires i t)) = v_log st @ [Updated (from + ease ((t - t0) / dur) * (to - from)) True]"
    using playing_frame [OF Cons.prems(1), of t] Cons.prems(2) by auto
  with Cons.IH [OF this(1)] Cons.prems(2) show ?case by (simp del: value_step.simps)
qed simp

lemma animate_plays:
  assumes "as_motion spec = Timing to dur ease" "as_delay spec = 0" "\<not> as_native spec" "0 < dur"
  shows "playing to dur ease v t0 1 (animate quiet spec (new_AnimatedValue im t0 v)) \<and>
    v_log (animate quiet spec (new_AnimatedValue im t0 v)) = []"
  using assms
  by (auto simp: animate_def take_interaction_def new_AnimatedValue_def anim_start_def timing_start_def timing_begin_def
      new_animation_def an_native_def animationFrame_def with_anim_def playing_def Let_def split: prod.split)

text \<open>
  A timing animation that is driven from JavaScript plays its easing: each frame sets the
  value to the eased position at the time of the frame, and the first frame at or after the end
  of the duration sets the value to the end of the easing, reports that the animation has
  finished, and leaves no frame pending.
\<close>

theorem timing_animation_plays:
  assumes "as_motion spec = Timing to dur ease" "as_delay spec = 0" "\<not> as_native spec" "0 < dur"
    and "\<forall>t \<in> set ts. t < t0 + dur" and "t0 + dur \<le> t"
  shows "let st = value_run quiet (new_AnimatedValue im t0 v) (Animate spec # frames_at 1 (ts @ [t]))
         in v_log st = map (\<lambda>t. Updated (v + ease ((t - t0) / dur) * (to - v)) True) ts @
              [Updated (v + ease 1 * (to - v)) True, Ended 0 True] \<and>
            v_value st = v + ease 1 * (to - v) \<and> v_frames st = []"
proof -
  note a = animate_plays [OF assms(1-4), of v t0 im]
  note f = playing_frames [OF conjunct1 [OF a] assms(5)]
  have "frames_at 1 (ts @ [t]) = frames_at 1 ts @ [FrameFires (1 + length ts) t]" by (simp add: frames_at_append)
  then show ?thesis
    using playing_last [OF conjunct1 [OF f] assms(6,4)] f a by (simp del: One_nat_def add: Let_def)
qed

section \<open>One animation at a time\<close>

definition live :: "value_state \<Rightarrow> nat set" where
  "live st = {k. k < length (v_anims st) \<and> an_onEnd (v_anims st ! k)}"

definition single :: "value_state \<Rightarrow> bool" where
  "single st \<longleftrightarrow> live st \<subseteq> set_option (v_animation st)"

text \<open>
  User code that starts nothing at the end of an animation: it may do so in a listener, or later.
\<close>

definition starts_nothing :: "value_env \<Rightarrow> bool" where
  "starts_nothing env \<longleftrightarrow> (\<forall>v st. single st \<longrightarrow> single (on_value env v st)) \<and>
     (\<forall>k b st. live st = {} \<longrightarrow> live (on_end env k b st) = {})"

lemma live_simps [simp]:
  "live (st\<lparr>v_value := x\<rparr>) = live st" "live (st\<lparr>v_offset := x\<rparr>) = live st" "live (st\<lparr>v_tracking := tr\<rparr>) = live st"
  "live (st\<lparr>v_animation := c\<rparr>) = live st" "live (st\<lparr>v_isNative := b\<rparr>) = live st" "live (st\<lparr>v_nextNativeId := m\<rparr>) = live st"
  "live (st\<lparr>v_now := x\<rparr>) = live st" "live (st\<lparr>v_frames := fs\<rparr>) = live st" "live (st\<lparr>v_timeouts := fs\<rparr>) = live st"
  "live (st\<lparr>v_nextTimer := m\<rparr>) = live st" "live (st\<lparr>v_manager := im\<rparr>) = live st" "live (value_call l st) = live st"
  by (simp_all add: live_def)

lemma live_with_anim:
  assumes "an_onEnd (f (v_anims st ! k)) = an_onEnd (v_anims st ! k)" shows "live (with_anim k f st) = live st"
proof -
  have "an_onEnd (v_anims (with_anim k f st) ! j) = an_onEnd (v_anims st ! j)" if "j < length (v_anims st)" for j
    using that assms by (simp add: anim_at)
  then show ?thesis by (auto simp: live_def)
qed

lemma live_keep [simp]:
  "live (animationFrame k st) = live st" "live (delayStart k st) = live st" "live (startNativeAnimation k st) = live st"
  by (simp_all add: animationFrame_def delayStart_def startNativeAnimation_def Let_def live_with_anim)

lemma single_keep [simp]:
  "single (animationFrame k st) = single st" "single (delayStart k st) = single st"
  "single (startNativeAnimation k st) = single st" "single (value_call l st) = single st"
  by (simp_all add: single_def)

lemma live_closing: "live (closing k b st) = live st - {k}"
  by (auto simp: live_def closing_anim split: if_splits)

lemma live_single: "single st \<Longrightarrow> k \<in> live st \<Longrightarrow> live st = {k}"
  by (cases "v_animation st") (auto simp: single_def)

lemma single_debounced:
  assumes env: "starts_nothing env" and "single st" and k: "k < length (v_anims st)"
  shows "single (debouncedOnEnd env k b st) \<and>
    live (debouncedOnEnd env k b st) = (if k \<in> live st then {} else live st)"
proof (cases "k \<in> live st")
  case True
  then have "live (closing k b st) = {}" using live_single [OF assms(2) True] by (simp add: live_closing)
  then have "live (on_end env k b (closing k b st)) = {}" using env by (simp add: starts_nothing_def)
  moreover have "an_onEnd (v_anims st ! k)" using True by (simp add: live_def)
  ultimately show ?thesis using True k by (simp add: debounced_closing single_def)
next
  case False
  then show ?thesis using assms(2) k by (simp add: debounced_closing live_def)
qed

lemma live_halted [simp]: "live (halted k st) = live st"
  by (simp add: halted_def Let_def live_with_anim split: motion.split)

lemma single_stop:
  assumes env: "starts_nothing env" and "single st" and k: "k < length (v_anims st)" and "v_animation st = Some k"
  shows "live (anim_stop env k st) = {}"
proof -
  define st1 where "st1 = (case an_nativeId (v_anims st ! k) of None \<Rightarrow> st | Some i \<Rightarrow> value_call (StopAnimation i) st)"
  have l: "live st1 = live st" "length (v_anims st1) = length (v_anims st)" "v_animation st1 = v_animation st"
    by (simp_all add: st1_def split: option.split)
  have "single (halted k st1)" using assms(2) l by (simp add: single_def)
  from single_debounced [OF env this] k l have
    "live (anim_stop env k st) = (if k \<in> live st then {} else live st)" by (simp add: anim_stop_halted st1_def)
  then show ?thesis using assms(2,4) by (auto simp: single_def)
qed

lemma single_stop_current:
  assumes "starts_nothing env" and "single st" and "current_ok st"
  shows "live (case v_animation st of None \<Rightarrow> st | Some k \<Rightarrow> anim_stop env k st) = {}"
  using single_stop [OF assms(1,2)] assms(2,3) by (auto simp: current_ok_def single_def split: option.split)

lemma single_update: "starts_nothing env \<Longrightarrow> single st \<Longrightarrow> single (updateValue env v b st)"
  by (simp add: updateValue_def Let_def starts_nothing_def single_def)

lemma single_with_anim:
  "an_onEnd (f (v_anims st ! k)) = an_onEnd (v_anims st ! k) \<Longrightarrow> single (with_anim k f st) = single st"
  by (simp add: single_def live_with_anim)

lemma single_after_update:
  assumes "env_ok env" and "starts_nothing env" and "ready k st" and "single st"
  shows "single (updateValue env v b st)" and "k < length (v_anims (updateValue env v b st))"
    and "single (debouncedOnEnd env k c (updateValue env v b st))"
proof -
  show u: "single (updateValue env v b st)" using single_update assms(2,4) .
  have "0 \<le> length (v_anims st)" by simp
  from updateValue_ready [OF assms(1,3) this] show l: "k < length (v_anims (updateValue env v b st))"
    by (simp add: ready_def idle_def)
  show "single (debouncedOnEnd env k c (updateValue env v b st))" using single_debounced [OF assms(2) u l] by blast
qed

lemma single_onUpdate:
  assumes "env_ok env" and "starts_nothing env" and "ready k st" and "single st"
  shows "single (timing_onUpdate env k to dur ease st)" and "single (decay_onUpdate env k v d st)"
    and "single (spring_onUpdate env k m st)"
proof -
  note u = single_after_update [OF assms]
  show "single (timing_onUpdate env k to dur ease st)" using u by (simp add: timing_onUpdate_def Let_def)
  show "single (decay_onUpdate env k v d st)" using u by (simp add: decay_onUpdate_def Let_def single_with_anim)
  define st0 where "st0 = with_anim k (\<lambda>_. spring_advance m (v_now st) (v_anims st ! k)) st"
  have adv: "core (spring_advance m (v_now st) (v_anims st ! k)) = core (v_anims st ! k)"
    by (simp add: spring_advance_def Let_def core_def)
  then have r0: "ready k st0" using same_ready [OF same_with_anim assms(3)] by (simp add: st0_def)
  have s0: "single st0" using adv assms(4) by (simp add: st0_def single_with_anim core_def)
  note u0 = single_after_update [OF assms(1,2) r0 s0]
  define st1 where "st1 = updateValue env (an_last (spring_advance m (v_now st) (v_anims st ! k))) True st0"
  define st1' where "st1' = with_anim k (\<lambda>a. a\<lparr>an_last := sm_toValue m, an_lastVelocity := 0\<rparr>) st1"
  have r1: "ready k st1" using updateValue_ready [OF assms(1) r0, of 0] by (simp add: st1_def)
  have r1': "ready k st1'" unfolding st1'_def by (rule same_ready [OF same_with_anim r1]) (simp add: core_def)
  have s1: "single st1" "single st1'" using u0(1) by (simp_all add: st1_def st1'_def single_with_anim)
  have "single (debouncedOnEnd env k True st1)"
    using single_debounced [OF assms(2) s1(1)] r1 by (simp add: ready_def idle_def)
  moreover have "single (debouncedOnEnd env k True (updateValue env (sm_toValue m) True st1'))"
    by (rule single_after_update(3) [OF assms(1,2) r1' s1(2)])
  ultimately show "single (spring_onUpdate env k m st)"
    using s1(1) by (simp add: spring_onUpdate_def Let_def st0_def [symmetric] st1_def [symmetric] st1'_def [symmetric])
qed

lemma single_begin:
  assumes "env_ok env" and "starts_nothing env" and "ready k st" and "single st"
  shows "single (timing_begin env k to dur st)" and "single (spring_begin env k m st)"
  using single_after_update(3) [OF assms] single_onUpdate(3) [OF assms, of m] assms(4)
  by (simp_all add: timing_begin_def spring_begin_def Let_def single_with_anim)

lemma single_start:
  assumes "env_ok env" and "starts_nothing env" and "ready k st" and "single st"
  shows "single (anim_start env k prev st)"
proof -
  define st1 where "st1 = with_anim k (\<lambda>a. inherit_spring prev (a\<lparr>an_last := v_value st, an_lastTime := v_now st, an_frameTime := 0\<rparr>)) st"
  have c: "core (inherit_spring prev (a\<lparr>an_last := v_value st, an_lastTime := v_now st, an_frameTime := 0\<rparr>)) = core a" for a
    by (simp add: core_def inherit_spring_def split: option.split motion.split)
  have r: "ready k st1" unfolding st1_def by (rule same_ready [OF same_with_anim assms(3)]) (rule c)
  have s: "single st1" using c assms(4) by (simp add: st1_def single_with_anim core_def)
  show ?thesis
    using single_begin(1) [OF assms] single_begin(2) [OF assms(1,2) r s] s assms(4)
    by (simp add: anim_start_def timing_start_def spring_start_def decay_start_def Let_def single_with_anim
        st1_def [symmetric] split: motion.split)
qed

lemma single_animate:
  assumes env: "env_ok env" "starts_nothing env" and ok: "value_ok st" "single st"
  shows "single (animate env spec st)"
proof -
  obtain handle st1 where t: "take_interaction spec st = (handle, st1)" by fastforce
  note ti = take_interaction_ok [OF ok(1) t order_refl]
  have ok1: "value_ok st1" using ti(1) by blast
  have s1: "single st1" "current_ok st1" using ok(2) ti(3,5) ok1 by (simp_all add: single_def live_def value_ok_def)
  define st2 where "st2 = (case v_animation st1 of None \<Rightarrow> st1 | Some p \<Rightarrow> anim_stop env p st1)"
  have n1: "length (v_anims st) \<le> length (v_anims st1)" using ti(3) by simp
  have ok2: "value_ok st2" "value_evolves (length (v_anims st)) st1 st2"
    using stop_current_ok [OF env(1) ok1 n1] by (simp_all add: st2_def)
  have l2: "live st2 = {}" using single_stop_current [OF env(2) s1] by (simp add: st2_def)
  let ?k = "length (v_anims st2)"
  have r: "ready ?k (begun spec handle st2)" by (rule begun_ready [OF ok2(1) fresh_evolves [OF ti(2) ok2(2)] refl])
  have "live (begun spec handle st2) = {?k}" using l2 by (auto simp: live_def less_Suc_eq begun_anim)
  then have "single (begun spec handle st2)" by (simp add: single_def)
  from single_start [OF env r this] show ?thesis
    by (auto simp: animate_def t Let_def st2_def [symmetric] begun_def)
qed

lemma single_step:
  assumes env: "env_ok env" "starts_nothing env" and ok: "value_ok st" "single st"
  shows "single (value_step st (env, e))"
proof -
  have c: "current_ok st" using ok(1) by (simp add: value_ok_def)
  have c': "single (stopTracking st)" "current_ok (stopTracking st)" using ok c by (simp_all add: stopTracking_def single_def current_ok_def)
  have stop: "single (stopAnimation env None st)"
    using single_stop_current [OF env(2) c'] by (simp add: stopAnimation_def Let_def single_def)
  show ?thesis
  proof (cases e)
    case (SetValue v)
    define st1 where "st1 = (case v_animation st of None \<Rightarrow> st | Some k \<Rightarrow> (anim_stop env k st)\<lparr>v_animation := None\<rparr>)"
    have "live st1 = {}" using single_stop_current [OF env(2) ok(2) c] by (simp add: st1_def split: option.splits)
    then have "single st1" by (simp add: single_def)
    with SetValue show ?thesis using single_update [OF env(2)] by (simp add: setValue_def Let_def st1_def [symmetric])
  next
    case (NativeEnd k b)
    then show ?thesis using single_debounced [OF env(2) ok(2)] ok(2) by simp
  next
    case (FrameFires i t)
    then show ?thesis
      using frame_ready(1) [OF ok(1), of i _ t] single_onUpdate [OF env] ok(2)
      by (auto simp: anim_onUpdate_def single_def split: option.split motion.split)
  next
    case (TimeoutFires i t)
    then show ?thesis
      using timeout_ready(1) [OF ok(1), of i _ t] single_begin [OF env] ok(2)
      by (auto simp: anim_begin_def single_def split: option.split motion.split)
  next
    case ResetAnimation
    then show ?thesis using stop by (simp add: resetAnimation_def Let_def single_def)
  next
    case (TrackedChanged v)
    then show ?thesis using single_animate [OF env ok] ok(2) by (simp add: tracking_update_def split: option.split)
  qed (use stop ok single_animate [OF env ok] single_update [OF env(2)] in
      \<open>simp_all add: setOffset_def flattenOffset_def extractOffset_def track_def stopTracking_def
         onAnimatedValueUpdateReceived_def Let_def single_def\<close>)
qed

interpretation avs: event_machine "\<lambda>st e. value_step st (env, e)"
  "\<lambda>st. env_ok env \<and> starts_nothing env \<longrightarrow> value_ok st \<and> single st" for env
  by unfold_locales (simp add: value_step_ok single_step)

lemma single_new: "single (new_AnimatedValue im now v)"
  by (simp add: single_def live_def new_AnimatedValue_def)

text \<open>
  C32: A value is driven by one animation at a time: starting an animation, setting the value and
  stopping end the animation that ran before, so two animations that have not ended are the
  same.  This needs callbacks that start no animation while another one is being ended.
\<close>

theorem one_animation_at_a_time:
  assumes "env_ok env" and "starts_nothing env" and "handles_bounded im"
  shows "let st = value_run env (new_AnimatedValue im now v) es
         in \<forall>j < length (v_anims st). \<forall>k < length (v_anims st).
              end_count j st = 0 \<and> end_count k st = 0 \<longrightarrow> j = k \<and> v_animation st = Some k"
proof -
  define st where "st = value_run env (new_AnimatedValue im now v) es"
  have ok: "ends_ok st" "single st"
    using avs.inv_run [of env "new_AnimatedValue im now v" es] assms new_value_ok [OF assms(3)] single_new
    by (simp_all add: st_def value_ok_def)
  have "j = k \<and> v_animation st = Some k"
    if "j < length (v_anims st)" "k < length (v_anims st)" "end_count j st = 0" "end_count k st = 0" for j k
  proof -
    have "j \<in> live st" "k \<in> live st" using that ok(1) by (auto simp: live_def ends_ok_def split: if_splits)
    then show ?thesis using ok(2) by (cases "v_animation st") (auto simp: single_def)
  qed
  then show ?thesis by (simp add: st_def Let_def)
qed

lemma getValue_offsets: "getValue (flattenOffset st) = getValue st" "getValue (extractOffset st) = getValue st"
  by (simp_all add: getValue_def flattenOffset_def extractOffset_def Let_def)

section \<open>Witnesses and a callback that starts again\<close>

definition ex_timing :: "real \<Rightarrow> animation_spec" where
  "ex_timing to = \<lparr>as_motion = Timing to 500 (\<lambda>x. x), as_delay = 0, as_native = False, as_interaction = False\<rparr>"

lemma ex_timing_simps [simp]:
  "as_motion (ex_timing to) = Timing to 500 (\<lambda>x. x)" "as_delay (ex_timing to) = 0" "\<not> as_native (ex_timing to)"
  "\<not> as_interaction (ex_timing to)"
  by (simp_all add: ex_timing_def)

lemma quiet_starts_nothing: "starts_nothing quiet"
  by (simp add: starts_nothing_def)

lemma init_handles: "handles_bounded init_im"
  by (simp add: handles_bounded_def init_im_def)


theorem one_animation_at_a_time_witness:
  "let st = value_run quiet (new_AnimatedValue init_im 0 1) [Animate (ex_timing 5), Animate (ex_timing 7)]
   in \<forall>j < length (v_anims st). \<forall>k < length (v_anims st).
        end_count j st = 0 \<and> end_count k st = 0 \<longrightarrow> j = k \<and> v_animation st = Some k"
  by (rule one_animation_at_a_time [OF quiet_ok quiet_starts_nothing init_handles])

theorem timing_animation_plays_witness:
  "v_value (value_run quiet (new_AnimatedValue init_im 0 1) (Animate (ex_timing 5) # frames_at 1 [100, 250, 510])) = 5"
  using timing_animation_plays [of "ex_timing 5" 5 500 "\<lambda>x. x" "[100, 250]" 0 510 init_im 1] by (simp add: Let_def)

text \<open>A callback that starts the next animation when the first one has ended.\<close>

definition again :: value_env where
  "again = quiet\<lparr>on_end := \<lambda>k finished st. if k = 0 then animate quiet (ex_timing 9) st else st\<rparr>"

text \<open>
  The animation that such a callback starts while another \<open>animate\<close> is ending the first one is
  never stopped: both drive the value, and only one of them is known to it.
\<close>

lemma restart_at_end_runs_twice:
  "let st = value_run again (new_AnimatedValue init_im 0 1) [Animate (ex_timing 5), Animate (ex_timing 7)]
   in map an_onEnd (v_anims st) = [False, True, True] \<and> map snd (v_frames st) = [1, 2] \<and> v_animation st = Some 2"
  by (simp add: Let_def animate_def take_interaction_def anim_start_def timing_start_def timing_begin_def
      animationFrame_def with_anim_def new_animation_def an_native_def anim_stop_def debouncedOnEnd_def ended_def
      value_call_def without_def again_def new_AnimatedValue_def)

end
