(* ===== verification/AnimatedGraph.thy ===== *)
theory AnimatedGraph
  imports AnimatedInterpolation
begin

text \<open>
  The graph of animated nodes: \<open>Libraries/Animated/src/nodes\<close> and the way
  \<open>createAnimatedComponent.js\<close> attaches views to it.

  A node is known by its position in the list of all nodes, in the order of their creation; the
  nodes it is computed from are its inputs, which existed before it.  A node learns of the nodes
  that depend on it when they are attached (\<open>_children\<close>).  The recursion over inputs and
  children carries a depth that decreases; the number of nodes is always enough, which the
  properties show.  Nodes that were moved to native are not modelled here: \<open>__isNative\<close> is false.
\<close>

section \<open>Nodes\<close>

datatype operand = Node nat | Nested "(string \<times> operand) list" | Const jsval

datatype node_kind =
    ValueNode
  | InterpolationNode nat "js_number \<Rightarrow> js_number"
  | AdditionNode nat nat
  | SubtractionNode nat nat
  | MultiplicationNode nat nat
  | DivisionNode nat nat
  | ModuloNode nat js_number
  | DiffClampNode nat js_number js_number
  | TransformNode "(string \<times> operand) list list"
  | StyleNode "(string \<times> operand) list"
  | PropsNode "(string \<times> operand) list"
  | TrackingNode nat nat

text \<open>
  \<open>g_value\<close> and \<open>g_last\<close> are \<open>_value\<close> and \<open>_offset\<close> of a value, \<open>_value\<close> and \<open>_lastValue\<close> of
  a clamped difference.
\<close>

record gnode =
  g_kind :: node_kind
  g_children :: "nat list"
  g_value :: js_number
  g_last :: js_number

datatype graph_log =
    UpdateCalled nat
  | AnimationStopped nat
  | WarnMissingChild nat nat
  | DivisionByZero nat

record agraph =
  g_nodes :: "gnode list"
  g_log :: "graph_log list"

definition graph_call :: "graph_log \<Rightarrow> agraph \<Rightarrow> agraph" where
  "graph_call l g = g\<lparr>g_log := g_log g @ [l]\<rparr>"

definition node_at :: "agraph \<Rightarrow> nat \<Rightarrow> gnode" where
  "node_at g p = g_nodes g ! p"

definition set_node :: "nat \<Rightarrow> (gnode \<Rightarrow> gnode) \<Rightarrow> agraph \<Rightarrow> agraph" where
  "set_node p f g = g\<lparr>g_nodes := (g_nodes g)[p := f (g_nodes g ! p)]\<rparr>"

text \<open>The nodes among the values of an object, in the order of \<open>for ... in\<close>; nested objects are not entered.\<close>

fun operand_nodes :: "(string \<times> operand) list \<Rightarrow> nat list" where
  "operand_nodes [] = []"
| "operand_nodes ((key, Node q) # ps) = q # operand_nodes ps"
| "operand_nodes ((key, v) # ps) = operand_nodes ps"

text \<open>The nodes that \<open>__attach\<close> calls \<open>__addChild\<close> on, and \<open>__detach\<close> calls \<open>__removeChild\<close> on.\<close>

fun inputs :: "node_kind \<Rightarrow> nat list" where
  "inputs ValueNode = []"
| "inputs (InterpolationNode a f) = [a]"
| "inputs (AdditionNode a b) = [a, b]"
| "inputs (SubtractionNode a b) = [a, b]"
| "inputs (MultiplicationNode a b) = [a, b]"
| "inputs (DivisionNode a b) = [a, b]"
| "inputs (ModuloNode a m) = [a]"
| "inputs (DiffClampNode a lo hi) = [a]"
| "inputs (TransformNode ts) = concat (map operand_nodes ts)"
| "inputs (StyleNode ps) = operand_nodes ps"
| "inputs (PropsNode ps) = operand_nodes ps"
| "inputs (TrackingNode value parent) = [parent]"

definition g_inputs :: "agraph \<Rightarrow> nat \<Rightarrow> nat list" where
  "g_inputs g p = inputs (g_kind (node_at g p))"

definition children :: "agraph \<Rightarrow> nat \<Rightarrow> nat list" where
  "children g p = (if p < length (g_nodes g) then g_children (node_at g p) else [])"

text \<open>\<open>typeof node.update === 'function'\<close>\<close>

fun has_update :: "node_kind \<Rightarrow> bool" where
  "has_update (PropsNode ps) = True"
| "has_update (TrackingNode v q) = True"
| "has_update _ = False"

section \<open>Attaching and detaching\<close>

definition push_child :: "nat \<Rightarrow> nat \<Rightarrow> agraph \<Rightarrow> agraph" where
  "push_child p c = set_node p (\<lambda>n. n\<lparr>g_children := g_children n @ [c]\<rparr>)"

definition splice_child :: "nat \<Rightarrow> nat \<Rightarrow> agraph \<Rightarrow> agraph" where
  "splice_child p c = set_node p (\<lambda>n. n\<lparr>g_children := splice_out c (g_children n)\<rparr>)"

fun addChild :: "nat \<Rightarrow> nat \<Rightarrow> nat \<Rightarrow> agraph \<Rightarrow> agraph" where
  "addChild 0 p c g = g"
| "addChild (Suc n) p c g =
     push_child p c (if children g p = [] then fold (\<lambda>q. addChild n q p) (g_inputs g p) g else g)"

definition super_detach :: "nat \<Rightarrow> agraph \<Rightarrow> agraph" where
  "super_detach p g = (if g_kind (node_at g p) = ValueNode then graph_call (AnimationStopped p) g else g)"

fun removeChild :: "nat \<Rightarrow> nat \<Rightarrow> nat \<Rightarrow> agraph \<Rightarrow> agraph" where
  "removeChild 0 p c g = g"
| "removeChild (Suc n) p c g =
     (if c \<notin> set (children g p) then graph_call (WarnMissingChild p c) g
      else let g1 = splice_child p c g
           in if children g1 p = []
              then super_detach p (fold (\<lambda>q. removeChild n q p) (g_inputs g1 p) g1)
              else g1)"

definition attach :: "nat \<Rightarrow> agraph \<Rightarrow> agraph" where
  "attach p g = fold (\<lambda>q. addChild (length (g_nodes g)) q p) (g_inputs g p) g"

definition detach :: "nat \<Rightarrow> agraph \<Rightarrow> agraph" where
  "detach p g = super_detach p (fold (\<lambda>q. removeChild (length (g_nodes g)) q p) (g_inputs g p) g)"

text \<open>The constructors: views and trackings attach themselves.\<close>

definition new_node :: "node_kind \<Rightarrow> js_number \<Rightarrow> js_number \<Rightarrow> agraph \<Rightarrow> agraph" where
  "new_node k v l g =
     (let p = length (g_nodes g);
          g1 = g\<lparr>g_nodes := g_nodes g @ [\<lparr>g_kind = k, g_children = [], g_value = v, g_last = l\<rparr>]\<rparr>
      in if has_update k then attach p g1 else g1)"

definition newAnimatedValue :: "js_number \<Rightarrow> agraph \<Rightarrow> agraph" where
  "newAnimatedValue v = new_node ValueNode v (Finite 0)"

text \<open>\<open>_attachProps\<close> of an animated component: the new view is attached before the old one is detached.\<close>

definition attachProps :: "(string \<times> operand) list \<Rightarrow> nat option \<Rightarrow> agraph \<Rightarrow> nat \<times> agraph" where
  "attachProps nextProps old g =
     (let p = length (g_nodes g); g1 = new_node (PropsNode nextProps) NaN NaN g
      in (p, case old of None \<Rightarrow> g1 | Some o' \<Rightarrow> detach o' g1))"

section \<open>Flushing\<close>

text \<open>\<open>findAnimatedStyles\<close>; the set keeps the order of insertion.\<close>

fun findAnimatedStyles :: "nat \<Rightarrow> agraph \<Rightarrow> nat \<Rightarrow> nat list \<Rightarrow> nat list" where
  "findAnimatedStyles 0 g p found = found"
| "findAnimatedStyles (Suc n) g p found =
     (if has_update (g_kind (node_at g p)) then (if p \<in> set found then found else found @ [p])
      else fold (findAnimatedStyles n g) (children g p) found)"

definition flush_graph :: "nat \<Rightarrow> agraph \<Rightarrow> agraph" where
  "flush_graph rt g =
     fold (\<lambda>p. graph_call (UpdateCalled p)) (findAnimatedStyles (length (g_nodes g)) g rt []) g"

definition set_value :: "nat \<Rightarrow> js_number \<Rightarrow> agraph \<Rightarrow> agraph" where
  "set_value p v g = flush_graph p (set_node p (\<lambda>n. n\<lparr>g_value := v\<rparr>) g)"

section \<open>Values\<close>

text \<open>The operator \<open>%\<close>: the result has the sign of the dividend.\<close>

fun num_mod :: "js_number \<Rightarrow> js_number \<Rightarrow> js_number" where
  "num_mod (Finite a) (Finite b) =
     (if b = 0 then NaN else Finite (a - \<bar>b\<bar> * (if a < 0 then of_int \<lceil>a / \<bar>b\<bar>\<rceil> else of_int \<lfloor>a / \<bar>b\<bar>\<rfloor>)))"
| "num_mod (Finite a) Infinity = Finite a"
| "num_mod (Finite a) NegInfinity = Finite a"
| "num_mod _ _ = NaN"

definition num_max :: "js_number \<Rightarrow> js_number \<Rightarrow> js_number" where
  "num_max a b = (if a = NaN \<or> b = NaN then NaN else if num_less a b then b else a)"

definition num_min :: "js_number \<Rightarrow> js_number \<Rightarrow> js_number" where
  "num_min a b = (if a = NaN \<or> b = NaN then NaN else if num_less b a then b else a)"

text \<open>\<open>__getValue\<close> of the nodes whose value is a number; a clamped difference updates itself.\<close>

fun getNumber :: "nat \<Rightarrow> nat \<Rightarrow> agraph \<Rightarrow> js_number \<times> agraph" where
  "getNumber 0 p g = (NaN, g)"
| "getNumber (Suc n) p g =
     (let nd = node_at g p;
          both = (\<lambda>a b f. case getNumber n a g of (x, g1) \<Rightarrow> (case getNumber n b g1 of (y, g2) \<Rightarrow> f x y g2))
      in case g_kind nd of
           ValueNode \<Rightarrow> (num_add (g_value nd) (g_last nd), g)
         | InterpolationNode a f \<Rightarrow> (case getNumber n a g of (x, g1) \<Rightarrow> (f x, g1))
         | AdditionNode a b \<Rightarrow> both a b (\<lambda>x y h. (num_add x y, h))
         | SubtractionNode a b \<Rightarrow> both a b (\<lambda>x y h. (num_sub x y, h))
         | MultiplicationNode a b \<Rightarrow> both a b (\<lambda>x y h. (num_mul x y, h))
         | DivisionNode a b \<Rightarrow>
             both a b (\<lambda>x y h. (num_div x y, if num_eq y (Finite 0) then graph_call (DivisionByZero p) h else h))
         | ModuloNode a m \<Rightarrow>
             (case getNumber n a g of (x, g1) \<Rightarrow> (num_mod (num_add (num_mod x m) m) m, g1))
         | DiffClampNode a lo hi \<Rightarrow>
             (case getNumber n a g of (x, g1) \<Rightarrow>
                let diff = num_sub x (g_last (node_at g1 p));
                    v = num_min (num_max (num_add (g_value (node_at g1 p)) diff) lo) hi
                in (v, set_node p (\<lambda>n. n\<lparr>g_last := x, g_value := v\<rparr>) g1))
         | _ \<Rightarrow> (NaN, g))"

text \<open>The constructor of a clamped difference reads its input.\<close>

definition newAnimatedDiffClamp :: "nat \<Rightarrow> js_number \<Rightarrow> js_number \<Rightarrow> agraph \<Rightarrow> agraph" where
  "newAnimatedDiffClamp a lo hi g =
     (case getNumber (length (g_nodes g)) a g of (x, g1) \<Rightarrow> new_node (DiffClampNode a lo hi) x x g1)"

text \<open>
  Objects of values.  Keys with animated values are read through the node, nested objects of a
  style are entered, other values are copied.
\<close>

datatype avalue = Plain jsval | Number js_number | Object "(string \<times> avalue) list" | Array "avalue list"

fun entries_values :: "(nat \<Rightarrow> agraph \<Rightarrow> avalue \<times> agraph) \<Rightarrow> (string \<times> operand) list \<Rightarrow> agraph \<Rightarrow> (string \<times> avalue) list \<times> agraph"
  and operand_value :: "(nat \<Rightarrow> agraph \<Rightarrow> avalue \<times> agraph) \<Rightarrow> operand \<Rightarrow> agraph \<Rightarrow> avalue \<times> agraph" where
  "entries_values rd [] g = ([], g)"
| "entries_values rd ((key, v) # ps) g =
     (case operand_value rd v g of (x, g1) \<Rightarrow> (case entries_values rd ps g1 of (xs, g2) \<Rightarrow> ((key, x) # xs, g2)))"
| "operand_value rd (Node q) g = rd q g"
| "operand_value rd (Nested ps) g = (case entries_values rd ps g of (xs, g1) \<Rightarrow> (Object xs, g1))"
| "operand_value rd (Const c) g = (Plain c, g)"

fun transform_values :: "nat \<Rightarrow> (string \<times> operand) list list \<Rightarrow> agraph \<Rightarrow> avalue list \<times> agraph" where
  "transform_values n [] g = ([], g)"
| "transform_values n (t # ts) g =
     (case entries_values (\<lambda>q h. case getNumber n q h of (x, h1) \<Rightarrow> (Number x, h1)) t g of (xs, g1) \<Rightarrow>
        (case transform_values n ts g1 of (ys, g2) \<Rightarrow> (Object xs # ys, g2)))"

text \<open>\<open>__getValue\<close> of the nodes of a style: a transform or a number.\<close>

definition style_member :: "nat \<Rightarrow> nat \<Rightarrow> agraph \<Rightarrow> avalue \<times> agraph" where
  "style_member n q g =
     (case g_kind (node_at g q) of
        TransformNode ts \<Rightarrow> (case transform_values n ts g of (xs, g1) \<Rightarrow> (Array xs, g1))
      | _ \<Rightarrow> (case getNumber n q g of (x, g1) \<Rightarrow> (Number x, g1)))"

definition props_member :: "nat \<Rightarrow> nat \<Rightarrow> agraph \<Rightarrow> avalue \<times> agraph" where
  "props_member n q g =
     (case g_kind (node_at g q) of
        StyleNode ps \<Rightarrow> (case entries_values (style_member n) ps g of (xs, g1) \<Rightarrow> (Object xs, g1))
      | _ \<Rightarrow> style_member n q g)"

definition props_value :: "(string \<times> operand) list \<Rightarrow> agraph \<Rightarrow> (string \<times> avalue) list \<times> agraph" where
  "props_value ps g = entries_values (props_member (length (g_nodes g))) ps g"

section \<open>Links\<close>

abbreviation kinds :: "agraph \<Rightarrow> node_kind list" where
  "kinds g \<equiv> map g_kind (g_nodes g)"

definition updates :: "agraph \<Rightarrow> nat \<Rightarrow> bool" where
  "updates g p = has_update (g_kind (node_at g p))"

text \<open>Inputs exist before the node and are not views.\<close>

definition wf_graph :: "agraph \<Rightarrow> bool" where
  "wf_graph g \<longleftrightarrow> (\<forall>p < length (g_nodes g). \<forall>q \<in> set (g_inputs g p). q < p \<and> \<not> updates g q)"

text \<open>A view is active while it is mounted, an inner node while something depends on it.\<close>

definition active :: "nat set \<Rightarrow> agraph \<Rightarrow> nat \<Rightarrow> bool" where
  "active M g p = (if updates g p then p \<in> M else children g p \<noteq> [])"

text \<open>The first \<open>k\<close> nodes are children of their inputs while they are active, and of no other node.\<close>

definition links :: "nat set \<Rightarrow> nat \<Rightarrow> agraph \<Rightarrow> bool" where
  "links M k g \<longleftrightarrow> (\<forall>p < k. \<forall>r. count_list (children g r) p = (if active M g p then count_list (g_inputs g p) r else 0))"

lemma kinds_set_node: "(\<And>n. g_kind (f n) = g_kind n) \<Longrightarrow> kinds (set_node p f g) = kinds g"
  by (auto simp: set_node_def list_eq_iff_nth_eq nth_update_if)

lemma kinds_simps [simp]:
  "kinds (push_child p c g) = kinds g" "kinds (splice_child p c g) = kinds g" "kinds (graph_call l g) = kinds g"
  "kinds (super_detach p g) = kinds g"
  by (simp_all add: push_child_def splice_child_def kinds_set_node graph_call_def super_detach_def)

lemma kinds_addChild [simp]: "kinds (addChild n p c g) = kinds g"
proof (induction n arbitrary: p c g)
  case (Suc n)
  show ?case using fold_frame [of kinds "\<lambda>q. addChild n q p", OF Suc.IH] by simp
qed simp

lemma kinds_removeChild [simp]: "kinds (removeChild n p c g) = kinds g"
proof (induction n arbitrary: p c g)
  case (Suc n)
  show ?case using fold_frame [of kinds "\<lambda>q. removeChild n q p", OF Suc.IH] by (simp add: Let_def)
qed simp

lemma kinds_length: "kinds g' = kinds g \<Longrightarrow> length (g_nodes g') = length (g_nodes g)"
  by (rule map_eq_imp_length_eq)

lemma kinds_node:
  assumes "kinds g' = kinds g" and "p < length (g_nodes g)" shows "g_kind (node_at g' p) = g_kind (node_at g p)"
proof -
  have "kinds g' ! p = kinds g ! p" by (simp only: assms(1))
  then show ?thesis using kinds_length [OF assms(1)] assms(2) by (simp add: node_at_def)
qed

lemma kinds_inputs: "kinds g' = kinds g \<Longrightarrow> p < length (g_nodes g) \<Longrightarrow> g_inputs g' p = g_inputs g p"
  by (simp add: g_inputs_def kinds_node [of g' g])

lemma kinds_updates: "kinds g' = kinds g \<Longrightarrow> p < length (g_nodes g) \<Longrightarrow> updates g' p = updates g p"
  by (simp add: updates_def kinds_node [of g' g])

lemma kinds_wf: "kinds g' = kinds g \<Longrightarrow> wf_graph g \<Longrightarrow> wf_graph g'"
  unfolding wf_graph_def by (metis kinds_inputs kinds_length kinds_updates order_less_trans)

lemma length_simps [simp]:
  "length (g_nodes (push_child p c g)) = length (g_nodes g)" "length (g_nodes (splice_child p c g)) = length (g_nodes g)"
  "length (g_nodes (addChild n p c g)) = length (g_nodes g)" "length (g_nodes (removeChild n p c g)) = length (g_nodes g)"
  by (rule kinds_length, simp)+

lemma children_push [simp]:
  "children (push_child p c g) r = (if r = p \<and> p < length (g_nodes g) then children g r @ [c] else children g r)"
  by (simp add: children_def push_child_def set_node_def node_at_def nth_update_if)

lemma children_splice [simp]:
  "children (splice_child p c g) r = (if r = p then splice_out c (children g r) else children g r)"
  by (simp add: children_def splice_child_def set_node_def node_at_def nth_update_if splice_out_remove1)

lemma children_call [simp]: "children (graph_call l g) r = children g r" "children (super_detach p g) r = children g r"
  by (simp_all add: children_def graph_call_def node_at_def super_detach_def)

lemma count_list_snoc: "count_list (xs @ [c]) p = count_list xs p + (if p = c then 1 else 0)"
  by (simp add: count_list_append)

lemma count_list_splice: "c \<in> set xs \<Longrightarrow> count_list (splice_out c xs) p = count_list xs p - (if p = c then 1 else 0)"
  unfolding splice_out_remove1 by (induction xs) (auto simp: count_notin)

lemma links_le: "links M k g \<Longrightarrow> j \<le> k \<Longrightarrow> links M j g"
  by (simp add: links_def)

text \<open>
  A change of the links of other nodes: \<open>p\<close> keeps its links if its children are the same and it
  is a child of the same nodes.
\<close>

lemma links_keep:
  assumes "links M k g" and "kinds g' = kinds g" and "k \<le> length (g_nodes g)"
    and "\<And>p r. p < k \<Longrightarrow> count_list (children g' r) p = count_list (children g r) p"
    and "\<And>p. p < k \<Longrightarrow> (children g' p = []) = (children g p = [])"
  shows "links M k g'"
  unfolding links_def
proof (intro allI impI)
  fix p r assume p: "p < k"
  then have "p < length (g_nodes g)" using assms(3) by simp
  then have "active M g' p = active M g p" "g_inputs g' p = g_inputs g p"
    using assms(2,5) p by (simp_all add: active_def kinds_updates [OF assms(2)] kinds_inputs [OF assms(2)])
  then show "count_list (children g' r) p = (if active M g' p then count_list (g_inputs g' p) r else 0)"
    using assms(1,4) p by (simp add: links_def)
qed

section \<open>Attaching keeps the links\<close>

definition added :: "nat \<Rightarrow> nat \<Rightarrow> agraph \<Rightarrow> agraph \<Rightarrow> bool" where
  "added q c g g' \<longleftrightarrow> (\<forall>r > q. children g' r = children g r) \<and>
     (\<forall>p > q. \<forall>r. count_list (children g' r) p = count_list (children g r) p + (if r = q \<and> p = c then 1 else 0))"

lemma attach_inputs:
  assumes step: "\<And>r h. r < q \<Longrightarrow> \<not> updates h r \<Longrightarrow> wf_graph h \<Longrightarrow> q < length (g_nodes h) \<Longrightarrow> links M (Suc r) h \<Longrightarrow>
      added r q h (addChild n r q h) \<and> links M (Suc r) (addChild n r q h)"
    and "wf_graph h" and "q < length (g_nodes h)" and "links M q h"
    and "\<And>r. r \<in> set xs \<Longrightarrow> r < q \<and> \<not> updates h r"
  shows "links M q (fold (\<lambda>r. addChild n r q) xs h) \<and>
    (\<forall>r \<ge> q. children (fold (\<lambda>r. addChild n r q) xs h) r = children h r) \<and>
    (\<forall>p \<ge> q. \<forall>r. count_list (children (fold (\<lambda>r. addChild n r q) xs h) r) p =
        count_list (children h r) p + (if p = q then count_list xs r else 0))"
  using assms(2-)
proof (induction xs arbitrary: h)
  case (Cons x xs)
  let ?h = "addChild n x q h"
  have x: "x < q" "\<not> updates h x" using Cons.prems(4) by auto
  have l: "links M (Suc x) h" using links_le [OF Cons.prems(3)] x(1) by simp
  have s: "added x q h ?h" "links M (Suc x) ?h" using step [OF x Cons.prems(1,2) l] by auto
  have "links M q ?h" unfolding links_def
  proof (intro allI impI)
    fix p r assume "p < q"
    show "count_list (children ?h r) p = (if active M ?h p then count_list (g_inputs ?h p) r else 0)"
    proof (cases "p \<le> x")
      case True
      then show ?thesis using s(2) by (simp add: links_def)
    next
      case False
      then have "count_list (children ?h r) p = count_list (children h r) p" "children ?h p = children h p"
        using s(1) \<open>p < q\<close> by (auto simp: added_def)
      moreover have "p < length (g_nodes h)" using \<open>p < q\<close> Cons.prems(2) by simp
      ultimately show ?thesis
        using Cons.prems(3) \<open>p < q\<close> by (simp add: links_def active_def kinds_inputs [of ?h h] kinds_updates [of ?h h])
    qed
  qed
  moreover have "wf_graph ?h" "q < length (g_nodes ?h)" using kinds_wf [OF kinds_addChild Cons.prems(1)] Cons.prems(2) by auto
  moreover have "r < q \<and> \<not> updates ?h r" if "r \<in> set xs" for r
    using Cons.prems(2) Cons.prems(4) [of r] that by (auto simp: kinds_updates [of ?h h])
  ultimately have IH: "links M q (fold (\<lambda>r. addChild n r q) xs ?h) \<and>
    (\<forall>r \<ge> q. children (fold (\<lambda>r. addChild n r q) xs ?h) r = children ?h r) \<and>
    (\<forall>p \<ge> q. \<forall>r. count_list (children (fold (\<lambda>r. addChild n r q) xs ?h) r) p =
        count_list (children ?h r) p + (if p = q then count_list xs r else 0))"
    using Cons.IH [of ?h] by blast
  then show ?case using s(1) x(1) by (auto simp: added_def)
qed simp

lemma addChild_links:
  assumes "q < n" and "\<not> updates g q" and "wf_graph g" and "c < length (g_nodes g)" and "q < c" and "links M (Suc q) g"
  shows "added q c g (addChild n q c g) \<and> links M (Suc q) (addChild n q c g)"
  using assms
proof (induction n arbitrary: q c g)
  case (Suc n)
  have q: "q < length (g_nodes g)" using Suc.prems by simp
  define h where "h = (if children g q = [] then fold (\<lambda>r. addChild n r q) (g_inputs g q) g else g)"
  have eq: "addChild (Suc n) q c g = push_child q c h" by (simp add: h_def)
  have k: "kinds h = kinds g" by (simp add: h_def fold_frame [of kinds])
  have qh: "q < length (g_nodes h)" using q kinds_length [OF k] by simp
  have "links M q h \<and> (\<forall>r \<ge> q. children h r = children g r) \<and>
    (\<forall>p > q. \<forall>r. count_list (children h r) p = count_list (children g r) p) \<and>
    (\<forall>r. count_list (children h r) q = count_list (g_inputs g q) r)"
  proof (cases "children g q = []")
    case True
    then have z: "count_list (children g r) q = 0" for r
      using Suc.prems(2,6) by (simp add: links_def active_def)
    have "r < q \<and> \<not> updates g r" if "r \<in> set (g_inputs g q)" for r
      using Suc.prems(3) q that by (simp add: wf_graph_def)
    from attach_inputs [of q M n g "g_inputs g q", OF _ Suc.prems(3) q links_le [OF Suc.prems(6)] this] Suc.IH Suc.prems(1)
    show ?thesis using True z by (simp add: h_def)
  next
    case False
    then show ?thesis using Suc.prems(2,6) links_le [OF Suc.prems(6), of q] by (simp add: h_def links_def active_def)
  qed
  then have l: "links M q h" and ch: "\<And>r. q \<le> r \<Longrightarrow> children h r = children g r"
    and cnt: "\<And>p r. q < p \<Longrightarrow> count_list (children h r) p = count_list (children g r) p"
    and own: "\<And>r. count_list (children h r) q = count_list (g_inputs g q) r" by auto
  have "links M q (push_child q c h)"
    by (rule links_keep [OF l]) (use qh Suc.prems(5) in \<open>auto simp: count_list_snoc\<close>)
  moreover have "count_list (children (push_child q c h) r) q =
      (if active M (push_child q c h) q then count_list (g_inputs (push_child q c h) q) r else 0)" for r
    using own Suc.prems(2,5) qh q kinds_inputs [of "push_child q c h" g q] kinds_updates [of "push_child q c h" g q]
    by (simp add: active_def count_list_snoc k)
  ultimately have "links M (Suc q) (push_child q c h)" by (auto simp: links_def less_Suc_eq)
  moreover have "added q c g (push_child q c h)"
    using ch cnt qh by (auto simp: added_def count_list_snoc)
  ultimately show ?case by (simp only: eq)
qed simp

section \<open>Detaching keeps the links\<close>

definition removed :: "nat \<Rightarrow> nat \<Rightarrow> agraph \<Rightarrow> agraph \<Rightarrow> bool" where
  "removed q c g g' \<longleftrightarrow> (\<forall>r > q. children g' r = children g r) \<and>
     (\<forall>p > q. \<forall>r. count_list (children g' r) p = count_list (children g r) p - (if r = q \<and> p = c then 1 else 0))"

lemma detach_inputs:
  assumes step: "\<And>r h. r < q \<Longrightarrow> \<not> updates h r \<Longrightarrow> wf_graph h \<Longrightarrow> q < length (g_nodes h) \<Longrightarrow> links M (Suc r) h \<Longrightarrow>
      q \<in> set (children h r) \<Longrightarrow> removed r q h (removeChild n r q h) \<and> links M (Suc r) (removeChild n r q h)"
    and "wf_graph h" and "q < length (g_nodes h)" and "links M q h"
    and "\<And>r. r \<in> set xs \<Longrightarrow> r < q \<and> \<not> updates h r" and "\<And>r. count_list xs r \<le> count_list (children h r) q"
  shows "links M q (fold (\<lambda>r. removeChild n r q) xs h) \<and>
    (\<forall>r \<ge> q. children (fold (\<lambda>r. removeChild n r q) xs h) r = children h r) \<and>
    (\<forall>p \<ge> q. \<forall>r. count_list (children (fold (\<lambda>r. removeChild n r q) xs h) r) p =
        count_list (children h r) p - (if p = q then count_list xs r else 0))"
  using assms(2-)
proof (induction xs arbitrary: h)
  case (Cons x xs)
  let ?h = "removeChild n x q h"
  have x: "x < q" "\<not> updates h x" using Cons.prems(4) by auto
  have "q \<in> set (children h x)" using Cons.prems(5) [of x] count_notin [of q "children h x"] by (cases "q \<in> set (children h x)") auto
  moreover have l: "links M (Suc x) h" using links_le [OF Cons.prems(3)] x(1) by simp
  ultimately have s: "removed x q h ?h" "links M (Suc x) ?h" using step [OF x Cons.prems(1,2)] by auto
  have "links M q ?h" unfolding links_def
  proof (intro allI impI)
    fix p r assume "p < q"
    show "count_list (children ?h r) p = (if active M ?h p then count_list (g_inputs ?h p) r else 0)"
    proof (cases "p \<le> x")
      case True
      then show ?thesis using s(2) by (simp add: links_def)
    next
      case False
      then have "count_list (children ?h r) p = count_list (children h r) p" "children ?h p = children h p"
        using s(1) \<open>p < q\<close> by (auto simp: removed_def)
      moreover have "p < length (g_nodes h)" using \<open>p < q\<close> Cons.prems(2) by simp
      ultimately show ?thesis
        using Cons.prems(3) \<open>p < q\<close> by (simp add: links_def active_def kinds_inputs [of ?h h] kinds_updates [of ?h h])
    qed
  qed
  moreover have "wf_graph ?h" "q < length (g_nodes ?h)" using kinds_wf [OF kinds_removeChild Cons.prems(1)] Cons.prems(2) by auto
  moreover have "r < q \<and> \<not> updates ?h r" if "r \<in> set xs" for r
    using Cons.prems(2) Cons.prems(4) [of r] that by (auto simp: kinds_updates [of ?h h])
  moreover have "count_list xs r \<le> count_list (children ?h r) q" for r
    using s(1) x(1) Cons.prems(5) [of r] by (auto simp: removed_def split: if_splits)
  ultimately have IH: "links M q (fold (\<lambda>r. removeChild n r q) xs ?h) \<and>
    (\<forall>r \<ge> q. children (fold (\<lambda>r. removeChild n r q) xs ?h) r = children ?h r) \<and>
    (\<forall>p \<ge> q. \<forall>r. count_list (children (fold (\<lambda>r. removeChild n r q) xs ?h) r) p =
        count_list (children ?h r) p - (if p = q then count_list xs r else 0))"
    using Cons.IH [of ?h] by blast
  then show ?case using s(1) x(1) by (auto simp: removed_def)
qed simp

lemma links_super [simp]: "links M k (super_detach p g) = links M k g" "links M k (graph_call l g) = links M k g"
  by (simp_all add: links_def active_def g_inputs_def updates_def node_at_def super_detach_def graph_call_def children_def)

lemma removeChild_links:
  assumes "q < n" and "\<not> updates g q" and "wf_graph g" and "c < length (g_nodes g)" and "q < c" and "links M (Suc q) g"
    and "c \<in> set (children g q)"
  shows "removed q c g (removeChild n q c g) \<and> links M (Suc q) (removeChild n q c g)"
  using assms
proof (induction n arbitrary: q c g)
  case (Suc n)
  have q: "q < length (g_nodes g)" using Suc.prems by simp
  define g1 where "g1 = splice_child q c g"
  have k1: "kinds g1 = kinds g" by (simp add: g1_def)
  have q1: "q < length (g_nodes g1)" using q kinds_length [OF k1] by simp
  have cnt1: "count_list (children g1 r) p = count_list (children g r) p - (if r = q \<and> p = c then 1 else 0)" for r p
    using Suc.prems(7) by (auto simp: g1_def count_list_splice)
  have ch1: "r \<noteq> q \<Longrightarrow> children g1 r = children g r" for r by (simp add: g1_def)
  have act: "active M g q" using Suc.prems(2,7) by (auto simp: active_def)
  have own: "count_list (children g1 r) q = count_list (g_inputs g q) r" for r
    using Suc.prems(5,6) act by (simp add: cnt1 links_def)
  have l1: "links M q g1"
    by (rule links_keep [OF links_le [OF Suc.prems(6)] k1]) (use q ch1 cnt1 Suc.prems(5) in auto)
  have in1: "g_inputs g1 q = g_inputs g q" using kinds_inputs [OF k1 q] .
  have r1: "removed q c g g1" using ch1 cnt1 by (auto simp: removed_def)
  show ?case
  proof (cases "children g1 q = []")
    case False
    then have "active M g1 q" using Suc.prems(2) kinds_updates [OF k1 q] by (simp add: active_def)
    then have "links M (Suc q) g1" using l1 own in1 by (auto simp: links_def less_Suc_eq)
    then show ?thesis using False r1 Suc.prems(7) by (simp add: g1_def Let_def)
  next
    case True
    let ?h = "fold (\<lambda>r. removeChild n r q) (g_inputs g1 q) g1"
    have wf1: "wf_graph g1" using kinds_wf [OF k1 Suc.prems(3)] .
    have "r < q \<and> \<not> updates g1 r" if "r \<in> set (g_inputs g1 q)" for r
      using wf1 q1 that by (simp add: wf_graph_def)
    from detach_inputs [of q M n g1 "g_inputs g1 q", OF _ wf1 q1 l1 this] Suc.IH Suc.prems(1) own in1
    have h: "links M q ?h" "\<And>r. q \<le> r \<Longrightarrow> children ?h r = children g1 r"
      "\<And>p r. q \<le> p \<Longrightarrow> count_list (children ?h r) p = count_list (children g1 r) p - (if p = q then count_list (g_inputs g1 q) r else 0)"
      by auto
    have kh: "kinds ?h = kinds g" using fold_frame [of kinds "\<lambda>r. removeChild n r q" "g_inputs g1 q" g1] k1 by simp
    have "\<not> active M ?h q" using True h(2) Suc.prems(2) kinds_updates [OF kh q] by (simp add: active_def)
    then have "links M (Suc q) ?h" using h(1,3) own in1 by (auto simp: links_def less_Suc_eq)
    moreover have "removed q c g ?h" using h(2,3) r1 by (auto simp: removed_def)
    ultimately show ?thesis
      using True Suc.prems(7) by (simp add: g1_def [symmetric] Let_def removed_def)
  qed
qed simp

section \<open>Mounting\<close>

definition graph_ok :: "nat set \<Rightarrow> agraph \<Rightarrow> bool" where
  "graph_ok M g \<longleftrightarrow> wf_graph g \<and> links M (length (g_nodes g)) g \<and> M \<subseteq> {p. p < length (g_nodes g) \<and> updates g p} \<and>
     (\<forall>r. \<forall>c \<in> set (children g r). c < length (g_nodes g))"

text \<open>The same steps for the inputs of a view, which is not an inner node.\<close>

lemma attach_view:
  assumes "wf_graph g" and "p < length (g_nodes g)" and "links M p g"
  shows "links M p (attach p g) \<and> (\<forall>r \<ge> p. children (attach p g) r = children g r) \<and>
    (\<forall>m \<ge> p. \<forall>r. count_list (children (attach p g) r) m = count_list (children g r) m + (if m = p then count_list (g_inputs g p) r else 0))"
  unfolding attach_def
proof (rule attach_inputs [OF _ assms])
  show "r < p \<and> \<not> updates g r" if "r \<in> set (g_inputs g p)" for r using assms(1,2) that by (simp add: wf_graph_def)
  show "added r p h (addChild (length (g_nodes g)) r p h) \<and> links M (Suc r) (addChild (length (g_nodes g)) r p h)"
    if "r < p" "\<not> updates h r" "wf_graph h" "p < length (g_nodes h)" "links M (Suc r) h" for r h
    using addChild_links [of r "length (g_nodes g)" h p M] that assms(2) by simp
qed

lemma detach_view:
  assumes "wf_graph g" and "p < length (g_nodes g)" and "links M p g"
    and "\<And>r. count_list (children g r) p = count_list (g_inputs g p) r"
  shows "links M p (detach p g) \<and> (\<forall>r \<ge> p. children (detach p g) r = children g r) \<and>
    (\<forall>m \<ge> p. \<forall>r. count_list (children (detach p g) r) m = count_list (children g r) m - (if m = p then count_list (g_inputs g p) r else 0))"
proof -
  have "r < p \<and> \<not> updates g r" if "r \<in> set (g_inputs g p)" for r using assms(1,2) that by (simp add: wf_graph_def)
  moreover have "removed r p h (removeChild (length (g_nodes g)) r p h) \<and> links M (Suc r) (removeChild (length (g_nodes g)) r p h)"
    if "r < p" "\<not> updates h r" "wf_graph h" "p < length (g_nodes h)" "links M (Suc r) h" "p \<in> set (children h r)" for r h
    using removeChild_links [of r "length (g_nodes g)" h p M] that assms(2) by simp
  ultimately show ?thesis
    using detach_inputs [of p M "length (g_nodes g)" g "g_inputs g p", OF _ assms(1-3)] assms(4) by (simp add: detach_def)
qed

lemma graph_ok_cong:
  assumes "kinds g' = kinds g" and "\<And>r. children g' r = children g r"
  shows "graph_ok M g' = graph_ok M g"
proof -
  have len: "length (g_nodes g') = length (g_nodes g)" using kinds_length [OF assms(1)] .
  have "wf_graph g' = wf_graph g" using kinds_wf [OF assms(1)] kinds_wf [OF assms(1) [symmetric]] by blast
  moreover have "links M (length (g_nodes g)) g' = links M (length (g_nodes g)) g"
    unfolding links_def active_def assms(2)
    by (simp add: kinds_inputs [OF assms(1)] kinds_updates [OF assms(1)] cong: conj_cong imp_cong)
  moreover have "{p. p < length (g_nodes g) \<and> updates g' p} = {p. p < length (g_nodes g) \<and> updates g p}"
    using kinds_updates [OF assms(1)] by blast
  ultimately show ?thesis by (simp add: graph_ok_def len assms(2))
qed

definition valid_kind :: "agraph \<Rightarrow> node_kind \<Rightarrow> bool" where
  "valid_kind g k \<longleftrightarrow> (\<forall>q \<in> set (inputs k). q < length (g_nodes g) \<and> \<not> updates g q)"

definition plus_node :: "node_kind \<Rightarrow> js_number \<Rightarrow> js_number \<Rightarrow> agraph \<Rightarrow> agraph" where
  "plus_node k v l g = g\<lparr>g_nodes := g_nodes g @ [\<lparr>g_kind = k, g_children = [], g_value = v, g_last = l\<rparr>]\<rparr>"

lemma plus_node_simps:
  "length (g_nodes (plus_node k v l g)) = Suc (length (g_nodes g))"
  "p < length (g_nodes g) \<Longrightarrow> node_at (plus_node k v l g) p = node_at g p"
  "g_kind (node_at (plus_node k v l g) (length (g_nodes g))) = k" "children (plus_node k v l g) r = children g r"
  by (auto simp: plus_node_def node_at_def children_def nth_append less_Suc_eq)

lemma plus_node_wf: "wf_graph g \<Longrightarrow> valid_kind g k \<Longrightarrow> wf_graph (plus_node k v l g)"
  unfolding wf_graph_def valid_kind_def
  by (auto simp: less_Suc_eq plus_node_simps g_inputs_def updates_def) (metis order_less_trans plus_node_simps(2))

lemma plus_node_links:
  "links M (length (g_nodes g)) g \<Longrightarrow> links M (length (g_nodes g)) (plus_node k v l g)"
  by (auto simp: links_def active_def plus_node_simps g_inputs_def updates_def)

lemma graph_ok_counts:
  assumes "graph_ok M g" and "length (g_nodes g) \<le> p" shows "count_list (children g r) p = 0"
  using assms by (metis count_notin graph_ok_def linorder_not_less)

lemma new_inner_ok:
  assumes ok: "graph_ok M g" and "valid_kind g k" and "\<not> has_update k"
  shows "graph_ok M (new_node k v l g)"
proof -
  let ?g = "plus_node k v l g" and ?n = "length (g_nodes g)"
  have eq: "new_node k v l g = ?g" using assms(3) by (simp add: new_node_def plus_node_def)
  have "links M ?n ?g" using ok plus_node_links by (simp add: graph_ok_def)
  moreover have "\<not> active M ?g ?n" using assms(3) by (simp add: active_def updates_def plus_node_simps) (simp add: children_def)
  ultimately have "links M (Suc ?n) ?g"
    using graph_ok_counts [OF ok, of ?n] by (auto simp: links_def less_Suc_eq plus_node_simps)
  moreover have "M \<subseteq> {p. p < Suc ?n \<and> updates ?g p}"
    using ok by (auto simp: graph_ok_def updates_def plus_node_simps)
  ultimately show ?thesis
    using ok plus_node_wf [OF _ assms(2)] by (auto simp: eq graph_ok_def plus_node_simps intro: less_SucI)
qed

lemma kinds_attach: "kinds (attach p g) = kinds g" "kinds (detach p g) = kinds g"
  by (simp_all add: attach_def detach_def fold_frame [of kinds])

lemma count_pos: "c \<in> set xs \<longleftrightarrow> 0 < count_list xs c"
  by (metis count_list_0_iff gr0I less_irrefl)

lemma mount_ok:
  assumes ok: "graph_ok M g" and "valid_kind g k" and "has_update k"
  shows "graph_ok (insert (length (g_nodes g)) M) (new_node k v l g)"
proof -
  let ?g = "plus_node k v l g" and ?n = "length (g_nodes g)"
  let ?h = "attach ?n ?g"
  have eq: "new_node k v l g = ?h" using assms(3) by (simp add: new_node_def plus_node_def)
  have wf: "wf_graph ?g" using ok plus_node_wf [OF _ assms(2)] by (simp add: graph_ok_def)
  have l: "links M ?n ?g" using ok plus_node_links by (simp add: graph_ok_def)
  have n: "?n < length (g_nodes ?g)" by (simp add: plus_node_simps)
  note a = attach_view [OF wf n l]
  have k: "kinds ?h = kinds ?g" by (rule kinds_attach)
  have len: "length (g_nodes ?h) = Suc ?n" using kinds_length [OF k] by (simp add: plus_node_simps)
  have cnt: "count_list (children ?h r) m = (if m = ?n then count_list (g_inputs ?h ?n) r else 0)" if "?n \<le> m" for m r
    using a that graph_ok_counts [OF ok that] kinds_inputs [OF k n] by (auto simp: plus_node_simps)
  have up: "updates ?h ?n" using kinds_updates [OF k n] assms(3) by (simp add: updates_def plus_node_simps)
  have act: "active (insert ?n M) ?h m = active M ?h m" if "m < ?n" for m using that by (simp add: active_def)
  have "links (insert ?n M) (Suc ?n) ?h" unfolding links_def
  proof (intro allI impI)
    fix m r assume "m < Suc ?n"
    then consider "m < ?n" | "m = ?n" by linarith
    then show "count_list (children ?h r) m = (if active (insert ?n M) ?h m then count_list (g_inputs ?h m) r else 0)"
      by cases (use a act cnt up in \<open>auto simp: links_def active_def\<close>)
  qed
  moreover have "c < Suc ?n" if "c \<in> set (children ?h r)" for r c
    using that cnt [of c r] by (cases "?n < c") (simp_all add: count_pos)
  moreover have "insert ?n M \<subseteq> {p. p < Suc ?n \<and> updates ?h p}"
    using ok up kinds_updates [OF k] by (auto simp: graph_ok_def plus_node_simps updates_def)
  ultimately show ?thesis using kinds_wf [OF k wf] by (simp add: graph_ok_def eq len)
qed

lemma unmount_ok:
  assumes ok: "graph_ok M g" and "p \<in> M"
  shows "graph_ok (M - {p}) (detach p g)"
proof -
  let ?h = "detach p g"
  have p: "p < length (g_nodes g)" "updates g p" and wf: "wf_graph g" using ok assms(2) by (auto simp: graph_ok_def)
  have l: "links M (length (g_nodes g)) g" using ok by (simp add: graph_ok_def)
  have own: "count_list (children g r) p = count_list (g_inputs g p) r" for r
    using l p assms(2) by (simp add: links_def active_def)
  note d = detach_view [OF wf p(1) links_le [OF l less_imp_le [OF p(1)]] own]
  have k: "kinds ?h = kinds g" by (rule kinds_attach)
  have cnt: "count_list (children ?h r) m = (if m = p then 0 else count_list (children g r) m)" if "p \<le> m" for m r
    using d that own by auto
  have "links (M - {p}) (length (g_nodes g)) ?h" unfolding links_def
  proof (intro allI impI)
    fix m r assume m: "m < length (g_nodes g)"
    note ki = kinds_inputs [OF k m] kinds_updates [OF k m]
    consider "m < p" | "m = p" | "p < m" by linarith
    then show "count_list (children ?h r) m = (if active (M - {p}) ?h m then count_list (g_inputs ?h m) r else 0)"
    proof cases
      case 1
      then show ?thesis using d by (simp add: links_def active_def)
    next
      case 2
      then show ?thesis using cnt [of m] p(2) ki by (simp add: active_def)
    next
      case 3
      then have "children ?h m = children g m" using d by simp
      then show ?thesis using 3 cnt [of m] l m ki by (simp add: links_def active_def)
    qed
  qed
  moreover have "c < length (g_nodes g)" if "c \<in> set (children ?h r)" for r c
    using that cnt [of c r] graph_ok_counts [OF ok, of c r] p(1)
    by (cases "c < length (g_nodes g)") (simp_all add: count_pos split: if_splits)
  moreover have "M - {p} \<subseteq> {q. q < length (g_nodes g) \<and> updates ?h q}"
    using ok kinds_updates [OF k] by (auto simp: graph_ok_def)
  ultimately show ?thesis using kinds_wf [OF k wf] kinds_length [OF k] by (simp add: graph_ok_def)
qed

section \<open>Runs\<close>

record stage =
  s_graph :: agraph
  s_views :: "nat set"

datatype graph_event =
    CreateNode node_kind js_number js_number
  | CreateDiffClamp nat js_number js_number
  | MountView node_kind
  | RerenderView nat "(string \<times> operand) list"
  | UnmountView nat
  | SetNumber nat js_number
  | ReadNumber nat

text \<open>
  An object can only refer to objects that exist, so an event with other references does not
  happen; a component detaches the view that it mounted.
\<close>

fun graph_step :: "stage \<Rightarrow> graph_event \<Rightarrow> stage" where
  "graph_step s (CreateNode k v l) =
     (if valid_kind (s_graph s) k \<and> \<not> has_update k then s\<lparr>s_graph := new_node k v l (s_graph s)\<rparr> else s)"
| "graph_step s (CreateDiffClamp a lo hi) =
     (if valid_kind (s_graph s) (DiffClampNode a lo hi) then s\<lparr>s_graph := newAnimatedDiffClamp a lo hi (s_graph s)\<rparr> else s)"
| "graph_step s (MountView k) =
     (if valid_kind (s_graph s) k \<and> has_update k
      then \<lparr>s_graph = new_node k NaN NaN (s_graph s), s_views = insert (length (g_nodes (s_graph s))) (s_views s)\<rparr> else s)"
| "graph_step s (RerenderView old ps) =
     (if old \<in> s_views s \<and> valid_kind (s_graph s) (PropsNode ps)
      then (case attachProps ps (Some old) (s_graph s) of (p, g) \<Rightarrow> \<lparr>s_graph = g, s_views = insert p (s_views s) - {old}\<rparr>) else s)"
| "graph_step s (UnmountView p) =
     (if p \<in> s_views s then \<lparr>s_graph = detach p (s_graph s), s_views = s_views s - {p}\<rparr> else s)"
| "graph_step s (SetNumber p v) = (if p < length (g_nodes (s_graph s)) then s\<lparr>s_graph := set_value p v (s_graph s)\<rparr> else s)"
| "graph_step s (ReadNumber p) = s\<lparr>s_graph := snd (getNumber (length (g_nodes (s_graph s))) p (s_graph s))\<rparr>"

definition empty_stage :: stage where
  "empty_stage = \<lparr>s_graph = \<lparr>g_nodes = [], g_log = []\<rparr>, s_views = {}\<rparr>"

definition stage_ok :: "stage \<Rightarrow> bool" where
  "stage_ok s \<longleftrightarrow> graph_ok (s_views s) (s_graph s)"

lemma set_node_frame:
  assumes "\<And>n. g_kind (f n) = g_kind n" and "\<And>n. g_children (f n) = g_children n"
  shows "kinds (set_node p f g) = kinds g" and "children (set_node p f g) r = children g r"
  using kinds_set_node [OF assms(1)] assms(2) by (auto simp: children_def set_node_def node_at_def nth_update_if)

lemma call_frame: "kinds (graph_call l g) = kinds g" "children (graph_call l g) = children g"
  by (auto simp: fun_eq_iff)

lemma flush_frame: "kinds (flush_graph p g) = kinds g" "children (flush_graph p g) = children g"
  unfolding flush_graph_def by (simp_all add: fold_frame [of kinds] fold_frame [of children] call_frame)

lemma getNumber_frame: "kinds (snd (getNumber n p g)) = kinds g \<and> children (snd (getNumber n p g)) = children g"
proof (induction n arbitrary: p g)
  case (Suc n)
  have two: "kinds (snd (case getNumber n a g of (x, g1) \<Rightarrow> (case getNumber n b g1 of (y, g2) \<Rightarrow> (f x y, h x y g2)))) = kinds g \<and>
      children (snd (case getNumber n a g of (x, g1) \<Rightarrow> (case getNumber n b g1 of (y, g2) \<Rightarrow> (f x y, h x y g2)))) = children g"
    if "\<And>x y g. kinds (h x y g) = kinds g \<and> children (h x y g) = children g" for a b and f :: "_ \<Rightarrow> _ \<Rightarrow> js_number" and h
    using Suc.IH [of a g] Suc.IH [of b "snd (getNumber n a g)"] that by (simp add: split_beta)
  have one: "kinds (snd (case getNumber n a g of (x, g1) \<Rightarrow> (f x g1, h x g1))) = kinds g \<and>
      children (snd (case getNumber n a g of (x, g1) \<Rightarrow> (f x g1, h x g1))) = children g"
    if "\<And>x g. kinds (h x g) = kinds g \<and> children (h x g) = children g" for a and f :: "_ \<Rightarrow> _ \<Rightarrow> js_number" and h
    using Suc.IH [of a g] that by (simp add: split_beta)
  have upd: "kinds (set_node p (\<lambda>n. n\<lparr>g_last := x, g_value := y\<rparr>) h) = kinds h \<and>
      children (set_node p (\<lambda>n. n\<lparr>g_last := x, g_value := y\<rparr>) h) = children h" for x y h
    using set_node_frame [of "\<lambda>n. n\<lparr>g_last := x, g_value := y\<rparr>" p h] by (auto simp: fun_eq_iff)
  show ?case
    using two [of "\<lambda>x y g. g"] two [of "\<lambda>x y h. if num_eq y (Finite 0) then graph_call (DivisionByZero p) h else h"]
      one [of "\<lambda>x g. g"] one [of "\<lambda>x h. set_node p (\<lambda>n. n\<lparr>g_last := x, g_value := _ x h\<rparr>) h", OF upd]
    by (cases "g_kind (node_at g p)") (simp_all add: Let_def call_frame)
qed simp

lemma new_diffClamp_ok:
  assumes "graph_ok M g" and "valid_kind g (DiffClampNode a lo hi)"
  shows "graph_ok M (newAnimatedDiffClamp a lo hi g)"
proof -
  obtain x g1 where r: "getNumber (length (g_nodes g)) a g = (x, g1)" by fastforce
  have f: "kinds g1 = kinds g" "children g1 = children g" using getNumber_frame [of "length (g_nodes g)" a g] r by auto
  have "graph_ok M g1" using graph_ok_cong [OF f(1)] f(2) assms(1) by simp
  moreover have "valid_kind g1 (DiffClampNode a lo hi)"
    using assms(2) kinds_length [OF f(1)] kinds_updates [OF f(1)] by (simp add: valid_kind_def)
  ultimately show ?thesis using new_inner_ok [of M g1 "DiffClampNode a lo hi" x x] by (simp add: newAnimatedDiffClamp_def r)
qed

lemma graph_step_ok: "stage_ok s \<Longrightarrow> stage_ok (graph_step s e)"
proof (cases e)
  case (RerenderView old ps)
  assume ok: "stage_ok s"
  let ?n = "length (g_nodes (s_graph s))"
  show ?thesis
  proof (cases "old \<in> s_views s \<and> valid_kind (s_graph s) (PropsNode ps)")
    case True
    have "graph_ok (insert ?n (s_views s)) (new_node (PropsNode ps) NaN NaN (s_graph s))"
      using mount_ok True ok by (simp add: stage_ok_def)
    from unmount_ok [OF this, of old] True RerenderView show ?thesis
      by (simp add: stage_ok_def attachProps_def Let_def)
  qed (use ok RerenderView in auto)
next
  case (SetNumber p v)
  assume ok: "stage_ok s"
  have "graph_ok M (set_value p v g) = graph_ok M g" for M g
    unfolding set_value_def
    by (rule graph_ok_cong) (simp_all add: flush_frame set_node_frame)
  with ok SetNumber show ?thesis by (simp add: stage_ok_def)
next
  case (ReadNumber p)
  assume ok: "stage_ok s"
  with ReadNumber show ?thesis
    using graph_ok_cong [of "snd (getNumber (length (g_nodes (s_graph s))) p (s_graph s))" "s_graph s"]
      getNumber_frame [of "length (g_nodes (s_graph s))" p "s_graph s"] by (simp add: stage_ok_def)
qed (auto simp: stage_ok_def new_inner_ok mount_ok unmount_ok new_diffClamp_ok)

interpretation agm: event_machine graph_step stage_ok
  by unfold_locales (rule graph_step_ok)

lemma empty_stage_ok: "stage_ok empty_stage"
  by (simp add: stage_ok_def empty_stage_def graph_ok_def wf_graph_def links_def children_def)

section \<open>What depends on a node\<close>

definition depends :: "agraph \<Rightarrow> (nat \<times> nat) set" where
  "depends g = {(q, p). p < length (g_nodes g) \<and> q \<in> set (g_inputs g p)}"

definition child_edge :: "agraph \<Rightarrow> (nat \<times> nat) set" where
  "child_edge g = {(q, p). p \<in> set (children g q)}"

lemma child_iff:
  assumes "graph_ok M g" shows "(q, p) \<in> child_edge g \<longleftrightarrow> (q, p) \<in> depends g \<and> active M g p"
proof (cases "p < length (g_nodes g)")
  case True
  then have "count_list (children g q) p = (if active M g p then count_list (g_inputs g p) q else 0)"
    using assms by (simp add: graph_ok_def links_def)
  then show ?thesis using True by (simp add: child_edge_def depends_def count_pos)
next
  case False
  then show ?thesis using assms by (auto simp: graph_ok_def child_edge_def depends_def)
qed

lemma depends_order: "graph_ok M g \<Longrightarrow> (q, p) \<in> depends g \<Longrightarrow> q < p \<and> p < length (g_nodes g) \<and> \<not> updates g q"
  by (auto simp: graph_ok_def wf_graph_def depends_def)

lemma depends_reach:
  assumes ok: "graph_ok M g" and "(q, p) \<in> (depends g)\<^sup>+" and "active M g p"
  shows "(q, p) \<in> (child_edge g)\<^sup>+"
  using assms(2)
proof (induction rule: converse_trancl_induct)
  case (base q)
  then show ?case using child_iff [OF ok] assms(3) by blast
next
  case (step q z)
  obtain p' where p': "(z, p') \<in> child_edge g" using step.IH by (meson tranclD)
  then have "children g z \<noteq> []" by (auto simp: child_edge_def)
  moreover have "\<not> updates g z" using p' child_iff [OF ok] depends_order [OF ok] by blast
  ultimately have "active M g z" by (simp add: active_def)
  then have "(q, z) \<in> child_edge g" using step.hyps(1) child_iff [OF ok] by blast
  then show ?case using step.IH by (meson trancl_into_trancl2)
qed

lemma child_reach_depends: "graph_ok M g \<Longrightarrow> (q, p) \<in> (child_edge g)\<^sup>+ \<Longrightarrow> (q, p) \<in> (depends g)\<^sup>+"
  by (erule trancl_mono) (use child_iff in auto)

text \<open>A node with a child leads to a mounted view.\<close>

lemma children_lead_to_view:
  assumes ok: "graph_ok M g" and "children g q \<noteq> []"
  shows "\<exists>p \<in> M. (q, p) \<in> (child_edge g)\<^sup>+"
  using assms(2)
proof (induction "length (g_nodes g) - q" arbitrary: q rule: less_induct)
  case less
  then obtain c where "c \<in> set (children g q)" using list.set_sel(1) by blast
  then have c: "(q, c) \<in> child_edge g" by (simp add: child_edge_def)
  then have d: "(q, c) \<in> depends g" "active M g c" using child_iff [OF ok] by auto
  show ?case
  proof (cases "updates g c")
    case True
    then show ?thesis using d(2) c by (auto simp: active_def)
  next
    case False
    have "length (g_nodes g) - c < length (g_nodes g) - q" using depends_order [OF ok d(1)] by linarith
    from less.hyps [OF this] False d(2) obtain p where "p \<in> M" "(c, p) \<in> (child_edge g)\<^sup>+" by (auto simp: active_def)
    then show ?thesis using c by (meson trancl_into_trancl2)
  qed
qed


section \<open>What a flush updates\<close>

lemma view_has_no_children: "graph_ok M g \<Longrightarrow> updates g p \<Longrightarrow> children g p = []"
  using child_iff [of M g p] depends_order [of M g p] by (cases "children g p") (auto simp: child_edge_def)

lemma reach_children:
  "(p, l) \<in> (child_edge g)\<^sup>* \<longleftrightarrow> l = p \<or> (\<exists>c \<in> set (children g p). (c, l) \<in> (child_edge g)\<^sup>*)"
  by (auto simp: child_edge_def intro: converse_rtrancl_into_rtrancl elim: converse_rtranclE)

lemma findAnimatedStyles_spec:
  assumes ok: "graph_ok M g" and "length (g_nodes g) \<le> p + n" and "p < length (g_nodes g)"
  shows "set (findAnimatedStyles n g p found) = set found \<union> {l. updates g l \<and> (p, l) \<in> (child_edge g)\<^sup>*} \<and>
    (distinct found \<longrightarrow> distinct (findAnimatedStyles n g p found))"
  using assms(2,3)
proof (induction n arbitrary: p found)
  case (Suc n)
  show ?case
  proof (cases "updates g p")
    case True
    then have "(p, l) \<in> (child_edge g)\<^sup>* \<longleftrightarrow> l = p" for l
      using reach_children [of p l g] view_has_no_children [OF ok True] by simp
    then show ?thesis using True by (auto simp: updates_def)
  next
    case False
    have c: "p < c \<and> c < length (g_nodes g)" if "c \<in> set (children g p)" for c
      using that child_iff [OF ok, of p c] depends_order [OF ok, of p c] by (simp add: child_edge_def)
    have "set (fold (findAnimatedStyles n g) cs found) =
        set found \<union> {l. updates g l \<and> (\<exists>c \<in> set cs. (c, l) \<in> (child_edge g)\<^sup>*)} \<and>
        (distinct found \<longrightarrow> distinct (fold (findAnimatedStyles n g) cs found))"
      if "set cs \<subseteq> set (children g p)" for cs
      using that
    proof (induction cs arbitrary: found)
      case (Cons x cs)
      have x: "length (g_nodes g) \<le> x + n" "x < length (g_nodes g)" using c [of x] Cons.prems Suc.prems by auto
      show ?case using Cons.IH [of "findAnimatedStyles n g x found"] Cons.prems Suc.IH [OF x, of found] by auto
    qed simp
    from this [of "children g p"] have
      "set (findAnimatedStyles (Suc n) g p found) = set found \<union> {l. updates g l \<and> (\<exists>c \<in> set (children g p). (c, l) \<in> (child_edge g)\<^sup>*)} \<and>
        (distinct found \<longrightarrow> distinct (findAnimatedStyles (Suc n) g p found))"
      using False by (simp add: updates_def)
    moreover have "updates g l \<and> (p, l) \<in> (child_edge g)\<^sup>* \<longleftrightarrow>
        updates g l \<and> (\<exists>c \<in> set (children g p). (c, l) \<in> (child_edge g)\<^sup>*)" for l
      using reach_children [of p l g] False by auto
    ultimately show ?thesis by simp
  qed
qed simp

lemma fold_calls: "g_log (fold (\<lambda>p. graph_call (UpdateCalled p)) ps g) = g_log g @ map UpdateCalled ps"
  by (induction ps arbitrary: g) (simp_all add: graph_call_def)


section \<open>Witnesses\<close>

text \<open>A value, an interpolation of it, a style with both, and a view.\<close>

definition ex_graph_events :: "graph_event list" where
  "ex_graph_events = [CreateNode ValueNode (Finite 0) (Finite 0), CreateNode (InterpolationNode 0 linear) NaN NaN,
     CreateNode (StyleNode [(''opacity'', Node 0), (''width'', Node 1)]) NaN NaN, MountView (PropsNode [(''style'', Node 2)])]"

lemmas graph_eval = valid_kind_def updates_def node_at_def new_node_def attach_def g_inputs_def children_def push_child_def
  set_node_def eval_nat_numeral

lemma ex_graph:
  "g_nodes (s_graph (foldl graph_step empty_stage ex_graph_events)) =
     [\<lparr>g_kind = ValueNode, g_children = [2, 1], g_value = Finite 0, g_last = Finite 0\<rparr>,
      \<lparr>g_kind = InterpolationNode 0 linear, g_children = [2], g_value = NaN, g_last = NaN\<rparr>,
      \<lparr>g_kind = StyleNode [(''opacity'', Node 0), (''width'', Node 1)], g_children = [3], g_value = NaN, g_last = NaN\<rparr>,
      \<lparr>g_kind = PropsNode [(''style'', Node 2)], g_children = [], g_value = NaN, g_last = NaN\<rparr>]"
  by (simp add: ex_graph_events_def empty_stage_def graph_eval)


text \<open>
  A value inside a nested object of a style is read when the view is rendered, but the style is
  not attached to it: setting the value updates no view.
\<close>

lemma nested_value_updates_nothing:
  "let ps = [(''style'', Node 1)];
       s = foldl graph_step empty_stage
         [CreateNode ValueNode (Finite 0) (Finite 0),
          CreateNode (StyleNode [(''shadowOffset'', Nested [(''height'', Node 0)])]) NaN NaN, MountView (PropsNode ps)];
       g = set_value 0 (Finite 5) (s_graph s)
   in g_log g = [] \<and>
      fst (props_value ps g) = [(''style'', Object [(''shadowOffset'', Object [(''height'', Number (Finite 5))])])]"
  by (simp add: empty_stage_def graph_eval set_value_def flush_graph_def props_value_def props_member_def style_member_def)

end
