(* ===== verification/CompositeAnimations.thy ===== *)
theory CompositeAnimations
  imports Prelude
begin

text \<open>
  \<open>Libraries/Animated/src/AnimatedImplementation.js\<close>: how \<open>sequence\<close>, \<open>parallel\<close> and \<open>loop\<close>
  compose animations.

  The variables of each closure are a record.  The animations that are composed are known by
  their position; a record says which of them run.  A running animation ends later, by an event,
  and when it is stopped or reset it ends at once with \<open>finished\<close> false, as a value's animation
  does.  A composition is started when none of its animations runs.  The calls made to the
  animations and to the callback are logged.
\<close>

datatype composite_log =
    StartCalled nat
  | StopCalled nat
  | ResetCalled nat
  | NativeLoopStarted int
  | CallbackCalled bool

section \<open>Parallel\<close>

record parallel_state =
  pa_count :: nat
  pa_stopTogether :: bool
  pa_doneCount :: nat
  pa_hasEnded :: "bool list"
  pa_running :: "bool list"
  pa_log :: "composite_log list"

definition pa_call :: "composite_log \<Rightarrow> parallel_state \<Rightarrow> parallel_state" where
  "pa_call l st = st\<lparr>pa_log := pa_log st @ [l]\<rparr>"

definition new_parallel :: "nat \<Rightarrow> bool \<Rightarrow> parallel_state" where
  "new_parallel n together = \<lparr>pa_count = n, pa_stopTogether = together, pa_doneCount = 0,
     pa_hasEnded = replicate n False, pa_running = replicate n False, pa_log = []\<rparr>"

text \<open>
  The callback given to the animation \<open>i\<close> may stop all animations, and stopping an animation
  that runs calls its callback; \<open>stop_all\<close> is the call of \<open>stop\<close> in it.
\<close>

definition parallel_cb_with :: "(parallel_state \<Rightarrow> parallel_state) \<Rightarrow> nat \<Rightarrow> bool \<Rightarrow> parallel_state \<Rightarrow> parallel_state" where
  "parallel_cb_with stop_all i finished st =
     (let st1 = st\<lparr>pa_hasEnded := (pa_hasEnded st)[i := True], pa_doneCount := pa_doneCount st + 1\<rparr>
      in if pa_doneCount st1 = pa_count st1
         then pa_call (CallbackCalled finished) (st1\<lparr>pa_doneCount := 0\<rparr>)
         else if \<not> finished \<and> pa_stopTogether st1 then stop_all st1
         else st1)"

definition parallel_stop_one :: "(parallel_state \<Rightarrow> parallel_state) \<Rightarrow> nat \<Rightarrow> parallel_state \<Rightarrow> parallel_state" where
  "parallel_stop_one stop_all i st =
     (let st1 = (if pa_hasEnded st ! i then st
                 else let st0 = pa_call (StopCalled i) st
                      in if pa_running st0 ! i
                         then parallel_cb_with stop_all i False (st0\<lparr>pa_running := (pa_running st0)[i := False]\<rparr>)
                         else st0)
      in st1\<lparr>pa_hasEnded := (pa_hasEnded st1)[i := True]\<rparr>)"

text \<open>
  \<open>stop\<close>.  Every nested call finds an animation more that has ended, so the depth of the calls is
  at most the number of animations.
\<close>

primrec parallel_stop_depth :: "nat \<Rightarrow> parallel_state \<Rightarrow> parallel_state" where
  "parallel_stop_depth 0 st = st"
| "parallel_stop_depth (Suc d) st = fold (parallel_stop_one (parallel_stop_depth d)) [0..<pa_count st] st"

definition parallel_stop :: "parallel_state \<Rightarrow> parallel_state" where
  "parallel_stop st = parallel_stop_depth (Suc (pa_count st)) st"

definition parallel_cb :: "nat \<Rightarrow> bool \<Rightarrow> parallel_state \<Rightarrow> parallel_state" where
  "parallel_cb i finished st = parallel_cb_with parallel_stop i finished st"

text \<open>The animations that are started end later, so the callback is not called within \<open>start\<close>.\<close>

definition parallel_start :: "parallel_state \<Rightarrow> parallel_state" where
  "parallel_start st =
     (if pa_doneCount st = pa_count st then pa_call (CallbackCalled True) st
      else fold (\<lambda>i s. pa_call (StartCalled i) (s\<lparr>pa_running := (pa_running s)[i := True]\<rparr>)) [0..<pa_count st] st)"

definition parallel_reset_one :: "nat \<Rightarrow> parallel_state \<Rightarrow> parallel_state" where
  "parallel_reset_one i st =
     (let st0 = pa_call (ResetCalled i) st;
          st1 = (if pa_running st0 ! i then parallel_cb i False (st0\<lparr>pa_running := (pa_running st0)[i := False]\<rparr>) else st0)
      in st1\<lparr>pa_hasEnded := (pa_hasEnded st1)[i := False], pa_doneCount := 0\<rparr>)"

definition parallel_reset :: "parallel_state \<Rightarrow> parallel_state" where
  "parallel_reset st = fold parallel_reset_one [0..<pa_count st] st"

datatype parallel_event = ChildEnds nat bool | StopParallel

fun parallel_step :: "parallel_state \<Rightarrow> parallel_event \<Rightarrow> parallel_state" where
  "parallel_step st (ChildEnds i finished) =
     (if i < pa_count st \<and> pa_running st ! i
      then parallel_cb i finished (st\<lparr>pa_running := (pa_running st)[i := False]\<rparr>) else st)"
| "parallel_step st StopParallel = parallel_stop st"

section \<open>Sequence\<close>

record sequence_state =
  sq_count :: nat
  sq_current :: nat
  sq_running :: bool
  sq_log :: "composite_log list"

definition sq_call :: "composite_log \<Rightarrow> sequence_state \<Rightarrow> sequence_state" where
  "sq_call l st = st\<lparr>sq_log := sq_log st @ [l]\<rparr>"

definition new_sequence :: "nat \<Rightarrow> sequence_state" where
  "new_sequence n = \<lparr>sq_count = n, sq_current = 0, sq_running = False, sq_log = []\<rparr>"

text \<open>\<open>animations[current].start(onComplete)\<close>: reading past the end gives undefined.\<close>

definition start_current :: "sequence_state \<Rightarrow> (js_exn, sequence_state, unit) outcome" where
  "start_current st =
     (if sq_current st < sq_count st then Ret () (sq_call (StartCalled (sq_current st)) (st\<lparr>sq_running := True\<rparr>))
      else Throw (TypeError ''undefined is not an object'') st)"

definition sequence_start :: "sequence_state \<Rightarrow> (js_exn, sequence_state, unit) outcome" where
  "sequence_start st = (if sq_count st = 0 then Ret () (sq_call (CallbackCalled True) st) else start_current st)"

definition onComplete :: "bool \<Rightarrow> sequence_state \<Rightarrow> (js_exn, sequence_state, unit) outcome" where
  "onComplete finished st =
     (if \<not> finished then Ret () (sq_call (CallbackCalled finished) st)
      else let st1 = st\<lparr>sq_current := sq_current st + 1\<rparr>
           in if sq_current st1 = sq_count st1 then Ret () (sq_call (CallbackCalled finished) st1)
              else start_current st1)"

definition sequence_stop :: "sequence_state \<Rightarrow> (js_exn, sequence_state, unit) outcome" where
  "sequence_stop st =
     (if sq_current st < sq_count st
      then let st1 = sq_call (StopCalled (sq_current st)) st
           in if sq_running st1 then onComplete False (st1\<lparr>sq_running := False\<rparr>) else Ret () st1
      else Ret () st)"

text \<open>Only the current animation can run; its end with \<open>finished\<close> false calls the callback.\<close>

definition sequence_reset_one :: "nat \<Rightarrow> sequence_state \<Rightarrow> sequence_state" where
  "sequence_reset_one i st =
     (if i \<le> sq_current st
      then let st1 = sq_call (ResetCalled i) st
           in if i = sq_current st1 \<and> sq_running st1 then sq_call (CallbackCalled False) (st1\<lparr>sq_running := False\<rparr>) else st1
      else st)"

definition sequence_reset :: "sequence_state \<Rightarrow> sequence_state" where
  "sequence_reset st = (fold sequence_reset_one [0..<sq_count st] st)\<lparr>sq_current := 0\<rparr>"

definition sequence_child_ends :: "bool \<Rightarrow> sequence_state \<Rightarrow> (js_exn, sequence_state, unit) outcome" where
  "sequence_child_ends finished st =
     (if sq_running st then onComplete finished (st\<lparr>sq_running := False\<rparr>) else Ret () st)"

section \<open>Loop\<close>

record loop_state =
  lp_iterations :: int
  lp_resetBeforeIteration :: bool
  lp_native :: bool
  lp_isFinished :: bool
  lp_iterationsSoFar :: int
  lp_running :: bool
  lp_log :: "composite_log list"

definition lp_call :: "composite_log \<Rightarrow> loop_state \<Rightarrow> loop_state" where
  "lp_call l st = st\<lparr>lp_log := lp_log st @ [l]\<rparr>"

definition new_loop :: "int \<Rightarrow> bool \<Rightarrow> bool \<Rightarrow> loop_state" where
  "new_loop n resets native = \<lparr>lp_iterations = n, lp_resetBeforeIteration = resets, lp_native = native,
     lp_isFinished = False, lp_iterationsSoFar = 0, lp_running = False, lp_log = []\<rparr>"

definition restart :: "bool \<Rightarrow> loop_state \<Rightarrow> loop_state" where
  "restart finished st =
     (if lp_isFinished st \<or> lp_iterationsSoFar st = lp_iterations st \<or> \<not> finished
      then lp_call (CallbackCalled finished) st
      else let st1 = st\<lparr>lp_iterationsSoFar := lp_iterationsSoFar st + 1\<rparr>;
               st2 = (if lp_resetBeforeIteration st1 then lp_call (ResetCalled 0) st1 else st1)
           in lp_call (StartCalled 0) (st2\<lparr>lp_running := True\<rparr>))"

definition loop_start :: "loop_state \<Rightarrow> loop_state" where
  "loop_start st =
     (if lp_iterations st = 0 then lp_call (CallbackCalled True) st
      else if lp_native st then lp_call (NativeLoopStarted (lp_iterations st)) st
      else restart True st)"

definition loop_child_ends :: "bool \<Rightarrow> loop_state \<Rightarrow> loop_state" where
  "loop_child_ends finished st = (if lp_running st then restart finished (st\<lparr>lp_running := False\<rparr>) else st)"

definition loop_stop :: "loop_state \<Rightarrow> loop_state" where
  "loop_stop st =
     (let st1 = lp_call (StopCalled 0) (st\<lparr>lp_isFinished := True\<rparr>)
      in if lp_running st1 then restart False (st1\<lparr>lp_running := False\<rparr>) else st1)"

definition loop_reset :: "loop_state \<Rightarrow> loop_state" where
  "loop_reset st =
     (let st1 = lp_call (ResetCalled 0) (st\<lparr>lp_iterationsSoFar := 0, lp_isFinished := False\<rparr>)
      in if lp_running st1 then restart False (st1\<lparr>lp_running := False\<rparr>) else st1)"

section \<open>Parallel: the callback is called once\<close>

definition callbacks :: "composite_log list \<Rightarrow> bool list" where
  "callbacks ls = concat (map (\<lambda>l. case l of CallbackCalled b \<Rightarrow> [b] | _ \<Rightarrow> []) ls)"

lemma callbacks_simps [simp]:
  "callbacks [] = []" "callbacks (ls @ ms) = callbacks ls @ callbacks ms" "callbacks (CallbackCalled b # ls) = b # callbacks ls"
  "callbacks (StartCalled i # ls) = callbacks ls" "callbacks (StopCalled i # ls) = callbacks ls"
  "callbacks (ResetCalled i # ls) = callbacks ls"
  by (simp_all add: callbacks_def)

text \<open>All that have not ended run; the callback was called when none was left.\<close>

definition parallel_ok :: "parallel_state \<Rightarrow> bool" where
  "parallel_ok st \<longleftrightarrow> 0 < pa_count st \<and> length (pa_hasEnded st) = pa_count st \<and> pa_running st = map Not (pa_hasEnded st) \<and>
     pa_doneCount st = (if False \<in> set (pa_hasEnded st) then count_list (pa_hasEnded st) True else 0) \<and>
     length (callbacks (pa_log st)) = (if False \<in> set (pa_hasEnded st) then 0 else 1)"

lemma pa_call_simps [simp]:
  "pa_count (pa_call l st) = pa_count st" "pa_hasEnded (pa_call l st) = pa_hasEnded st" "pa_running (pa_call l st) = pa_running st"
  "pa_doneCount (pa_call l st) = pa_doneCount st" "pa_stopTogether (pa_call l st) = pa_stopTogether st"
  "pa_log (pa_call l st) = pa_log st @ [l]"
  by (simp_all add: pa_call_def)

lemma count_True_update:
  "i < length bs \<Longrightarrow> \<not> bs ! i \<Longrightarrow> count_list (bs[i := True]) True = Suc (count_list bs True)"
  by (induction bs arbitrary: i) (auto simp: nth_Cons split: nat.splits)

lemma count_True_all: "count_list bs True = length bs \<longleftrightarrow> False \<notin> set bs"
proof (induction bs)
  case (Cons b bs)
  have "count_list bs True \<le> length bs" by (simp add: count_le_length)
  with Cons show ?case by (cases b) auto
qed simp

text \<open>The animation \<open>i\<close> has just stopped running, and its callback has not been called yet.\<close>

definition parallel_ending :: "nat \<Rightarrow> parallel_state \<Rightarrow> bool" where
  "parallel_ending i st \<longleftrightarrow> (\<exists>st0. parallel_ok st0 \<and> i < pa_count st0 \<and> pa_running st0 ! i \<and>
     st = st0\<lparr>pa_running := (pa_running st0)[i := False], pa_log := pa_log st\<rparr> \<and> callbacks (pa_log st) = callbacks (pa_log st0))"

lemma parallel_cb_ok:
  assumes "parallel_ending i st" and "\<And>s. parallel_ok s \<Longrightarrow> parallel_ok (stop_all s) \<and> pa_count (stop_all s) = pa_count s \<and>
      (\<forall>j < pa_count s. pa_hasEnded s ! j \<longrightarrow> pa_hasEnded (stop_all s) ! j)"
  shows "parallel_ok (parallel_cb_with stop_all i b st) \<and> pa_count (parallel_cb_with stop_all i b st) = pa_count st \<and>
    pa_hasEnded (parallel_cb_with stop_all i b st) ! i \<and>
    (\<forall>j < pa_count st. pa_hasEnded st ! j \<longrightarrow> pa_hasEnded (parallel_cb_with stop_all i b st) ! j)"
proof -
  obtain st0 where ok: "parallel_ok st0" and i: "i < pa_count st0" "pa_running st0 ! i"
    and st: "st = st0\<lparr>pa_running := (pa_running st0)[i := False], pa_log := pa_log st\<rparr>" "callbacks (pa_log st) = callbacks (pa_log st0)"
    using assms(1) unfolding parallel_ending_def by blast
  have f: "pa_count st = pa_count st0" "pa_hasEnded st = pa_hasEnded st0" "pa_doneCount st = pa_doneCount st0"
    "pa_running st = (pa_running st0)[i := False]" "pa_stopTogether st = pa_stopTogether st0"
    by (subst st(1), simp)+
  have len: "length (pa_hasEnded st0) = pa_count st0" and run: "pa_running st0 = map Not (pa_hasEnded st0)"
    using ok by (auto simp: parallel_ok_def)
  have ni: "\<not> pa_hasEnded st0 ! i" using i len run by simp
  then have F: "False \<in> set (pa_hasEnded st0)" using i(1) len by (metis (full_types) nth_mem)
  define bs where "bs = (pa_hasEnded st0)[i := True]"
  have cnt: "count_list bs True = Suc (pa_doneCount st0)"
    using count_True_update [of i "pa_hasEnded st0"] i(1) len ni ok F by (simp add: bs_def parallel_ok_def)
  have lb: "length bs = pa_count st0" "bs ! i" using len i(1) by (simp_all add: bs_def)
  have runb: "(pa_running st0)[i := False] = map Not bs" by (simp add: run bs_def map_update)
  have cb0: "callbacks (pa_log st) = []" using ok F st(2) by (simp add: parallel_ok_def)
  define st1 where "st1 = st\<lparr>pa_hasEnded := bs, pa_doneCount := pa_doneCount st + 1\<rparr>"
  have eq: "parallel_cb_with stop_all i b st = (if pa_doneCount st1 = pa_count st1 then pa_call (CallbackCalled b) (st1\<lparr>pa_doneCount := 0\<rparr>)
      else if \<not> b \<and> pa_stopTogether st1 then stop_all st1 else st1)"
    by (simp add: parallel_cb_with_def st1_def bs_def f Let_def)
  have mono: "\<forall>j < pa_count st0. pa_hasEnded st0 ! j \<longrightarrow> bs ! j" using len by (simp add: bs_def nth_update_if)
  show ?thesis
  proof (cases "pa_doneCount st1 = pa_count st1")
    case True
    then have "False \<notin> set bs" using cnt lb count_True_all [of bs] by (simp add: st1_def f)
    then show ?thesis using True lb runb cb0 mono i(1) by (simp add: eq st1_def parallel_ok_def f)
  next
    case False
    then have "False \<in> set bs" using cnt lb count_True_all [of bs] by (auto simp: st1_def f)
    then have ok1: "parallel_ok st1" using lb runb cb0 cnt i(1) by (simp add: st1_def parallel_ok_def f)
    have h1: "pa_hasEnded st1 = bs" "pa_count st1 = pa_count st0" by (simp_all add: st1_def f)
    show ?thesis using False ok1 h1 lb(2) mono i(1) assms(2) [OF ok1] by (auto simp: eq f)
  qed
qed

definition stop_keeps :: "(parallel_state \<Rightarrow> parallel_state) \<Rightarrow> bool" where
  "stop_keeps stop_all \<longleftrightarrow> (\<forall>s. parallel_ok s \<longrightarrow> parallel_ok (stop_all s) \<and> pa_count (stop_all s) = pa_count s \<and>
     (\<forall>j < pa_count s. pa_hasEnded s ! j \<longrightarrow> pa_hasEnded (stop_all s) ! j))"

lemma mark_ended: "pa_hasEnded st ! i \<Longrightarrow> st\<lparr>pa_hasEnded := (pa_hasEnded st)[i := True]\<rparr> = st"
proof -
  assume "pa_hasEnded st ! i"
  then have "(pa_hasEnded st)[i := True] = pa_hasEnded st" using list_update_id [of "pa_hasEnded st" i] by simp
  then show ?thesis by simp
qed

lemma parallel_stop_one_ok:
  assumes "stop_keeps stop_all" and ok: "parallel_ok st" and i: "i < pa_count st"
  shows "parallel_ok (parallel_stop_one stop_all i st) \<and> pa_count (parallel_stop_one stop_all i st) = pa_count st \<and>
    pa_hasEnded (parallel_stop_one stop_all i st) ! i \<and>
    (\<forall>j < pa_count st. pa_hasEnded st ! j \<longrightarrow> pa_hasEnded (parallel_stop_one stop_all i st) ! j)"
proof (cases "pa_hasEnded st ! i")
  case True
  then show ?thesis using mark_ended [OF True] ok i by (simp add: parallel_stop_one_def)
next
  case False
  have run: "pa_running st ! i" using False ok i by (simp add: parallel_ok_def)
  let ?st = "(pa_call (StopCalled i) st)\<lparr>pa_running := (pa_running st)[i := False]\<rparr>"
  let ?r = "parallel_cb_with stop_all i False ?st"
  have "parallel_ending i ?st"
    unfolding parallel_ending_def by (rule exI [of _ st]) (use ok i run in \<open>simp add: pa_call_def\<close>)
  from parallel_cb_ok [OF this, of stop_all False] assms(1) have r: "parallel_ok ?r" "pa_count ?r = pa_count st"
    "pa_hasEnded ?r ! i" "\<forall>j < pa_count st. pa_hasEnded st ! j \<longrightarrow> pa_hasEnded ?r ! j"
    by (simp_all add: stop_keeps_def)
  show ?thesis using mark_ended [OF r(3)] False run r by (simp add: parallel_stop_one_def Let_def)
qed

lemma parallel_stop_each_ok:
  assumes "stop_keeps stop_all" and "parallel_ok st" and "set is' \<subseteq> {..<pa_count st}"
  shows "parallel_ok (fold (parallel_stop_one stop_all) is' st) \<and> pa_count (fold (parallel_stop_one stop_all) is' st) = pa_count st \<and>
    (\<forall>j < pa_count st. pa_hasEnded st ! j \<or> j \<in> set is' \<longrightarrow> pa_hasEnded (fold (parallel_stop_one stop_all) is' st) ! j)"
  using assms(2,3)
proof (induction is' arbitrary: st)
  case (Cons i is')
  have "i < pa_count st" using Cons.prems by simp
  note one = parallel_stop_one_ok [OF assms(1) Cons.prems(1) this]
  then have "set is' \<subseteq> {..<pa_count (parallel_stop_one stop_all i st)}" using Cons.prems(2) by simp
  from Cons.IH [OF conjunct1 [OF one] this] one show ?case by auto
qed simp

lemma stop_keeps_depth: "stop_keeps (parallel_stop_depth d)"
proof (induction d)
  case (Suc d)
  show ?case unfolding stop_keeps_def
  proof (intro allI impI)
    fix s assume ok: "parallel_ok s"
    have "set [0..<pa_count s] \<subseteq> {..<pa_count s}" by auto
    from parallel_stop_each_ok [OF Suc ok this] show "parallel_ok (parallel_stop_depth (Suc d) s) \<and>
      pa_count (parallel_stop_depth (Suc d) s) = pa_count s \<and>
      (\<forall>j < pa_count s. pa_hasEnded s ! j \<longrightarrow> pa_hasEnded (parallel_stop_depth (Suc d) s) ! j)"
      by simp
  qed
qed (simp add: stop_keeps_def)

lemma all_ended: "parallel_ok st \<Longrightarrow> (\<And>j. j < pa_count st \<Longrightarrow> pa_hasEnded st ! j) \<Longrightarrow> \<not> (\<exists>j < pa_count st. pa_running st ! j)"
  by (simp add: parallel_ok_def)

lemma parallel_stop_ok:
  assumes "parallel_ok st"
  shows "parallel_ok (parallel_stop st) \<and> pa_count (parallel_stop st) = pa_count st \<and> (\<forall>j < pa_count st. pa_hasEnded (parallel_stop st) ! j)"
proof -
  have "set [0..<pa_count st] \<subseteq> {..<pa_count st}" by auto
  from parallel_stop_each_ok [OF stop_keeps_depth [of "pa_count st"] assms this] show ?thesis by (simp add: parallel_stop_def)
qed

lemma stop_keeps_parallel: "stop_keeps parallel_stop"
  using parallel_stop_ok by (simp add: stop_keeps_def)

lemma child_ends_ok:
  assumes "parallel_ok st" and "i < pa_count st" and "pa_running st ! i"
  shows "parallel_ok (parallel_cb i b (st\<lparr>pa_running := (pa_running st)[i := False]\<rparr>)) \<and>
    pa_count (parallel_cb i b (st\<lparr>pa_running := (pa_running st)[i := False]\<rparr>)) = pa_count st"
proof -
  have "parallel_ending i (st\<lparr>pa_running := (pa_running st)[i := False]\<rparr>)"
    unfolding parallel_ending_def by (rule exI [of _ st]) (use assms in simp)
  from parallel_cb_ok [OF this, of parallel_stop b] stop_keeps_parallel show ?thesis
    by (simp add: parallel_cb_def stop_keeps_def)
qed

lemma parallel_step_ok: "parallel_ok st \<Longrightarrow> parallel_ok (parallel_step st e)"
  using parallel_stop_ok [of st] child_ends_ok [of st] by (cases e) auto

interpretation pam: event_machine parallel_step parallel_ok
  by unfold_locales (rule parallel_step_ok)

lemma start_each:
  "n \<le> length (pa_running st) \<Longrightarrow>
   fold (\<lambda>i s. pa_call (StartCalled i) (s\<lparr>pa_running := (pa_running s)[i := True]\<rparr>)) [0..<n] st =
     st\<lparr>pa_running := replicate n True @ drop n (pa_running st), pa_log := pa_log st @ map StartCalled [0..<n]\<rparr>"
proof (induction n)
  case (Suc n)
  have "(replicate n True @ drop n (pa_running st))[n := True] = replicate (Suc n) True @ drop (Suc n) (pa_running st)"
    using Suc.prems by (simp add: list_update_append Cons_nth_drop_Suc [symmetric] replicate_append_same [symmetric] del: Cons_nth_drop_Suc)
  with Suc show ?case by (simp add: pa_call_def)
qed simp

lemma parallel_start_ok:
  assumes "0 < n" shows "parallel_ok (parallel_start (new_parallel n together)) \<and>
    pa_log (parallel_start (new_parallel n together)) = map StartCalled [0..<n]"
proof -
  have "callbacks (map StartCalled [0..<n]) = []" by (induction n) simp_all
  moreover have "count_list (replicate n False) True = 0" by (simp add: count_notin)
  ultimately show ?thesis
    using assms start_each [of n "new_parallel n together"] by (simp add: parallel_start_def parallel_ok_def new_parallel_def)
qed


text \<open>Started a second time without a reset, it cannot be stopped: the flags of the first run are still set.\<close>

lemma parallel_second_run_ignores_stop:
  "let st = parallel_start (foldl parallel_step (parallel_start (new_parallel 2 True)) [ChildEnds 0 True, ChildEnds 1 True])
   in pa_running st = [True, True] \<and> pa_running (parallel_step st StopParallel) = [True, True]"
  by (simp add: Let_def parallel_start_def new_parallel_def parallel_cb_def parallel_cb_with_def parallel_stop_def
      parallel_stop_one_def pa_call_def eval_nat_numeral)

section \<open>Sequence: in order\<close>

definition bind_seq :: "(js_exn, sequence_state, unit) outcome \<Rightarrow> bool \<Rightarrow> (js_exn, sequence_state, unit) outcome" where
  "bind_seq m finished = and_then m (\<lambda>_. sequence_child_ends finished)"

text \<open>\<open>k\<close> animations have finished, one after the other.\<close>

definition sequence_after :: "nat \<Rightarrow> nat \<Rightarrow> (js_exn, sequence_state, unit) outcome" where
  "sequence_after n k = foldl bind_seq (sequence_start (new_sequence n)) (replicate k True)"

lemma sequence_after_Suc: "sequence_after n (Suc k) = bind_seq (sequence_after n k) True"
proof -
  have "replicate (Suc k) True = replicate k True @ [True]" by (simp add: replicate_append_same)
  then show ?thesis unfolding sequence_after_def by simp
qed

lemma sequence_after_running:
  "k < n \<Longrightarrow> sequence_after n k = Ret () \<lparr>sq_count = n, sq_current = k, sq_running = True, sq_log = map StartCalled [0..<Suc k]\<rparr>"
proof (induction k)
  case 0
  then show ?case by (simp add: sequence_after_def sequence_start_def start_current_def new_sequence_def sq_call_def)
next
  case (Suc k)
  then show ?case
    by (simp add: sequence_after_Suc bind_seq_def sequence_child_ends_def onComplete_def start_current_def sq_call_def)
qed

text \<open>
  A sequence starts its animations one after the other, each when the one before has finished,
  and calls its callback once when the last one has finished; an animation that ends
  unfinished ends the sequence at once.
\<close>

theorem sequence_in_order:
  assumes "k < n"
  shows "\<exists>st. sequence_after n k = Ret () st \<and> sq_log st = map StartCalled [0..<Suc k] \<and>
      (\<exists>st'. sequence_child_ends False st = Ret () st' \<and> sq_log st' = sq_log st @ [CallbackCalled False] \<and> \<not> sq_running st') \<and>
      (Suc k = n \<longrightarrow> (\<exists>st'. sequence_child_ends True st = Ret () st' \<and> sq_log st' = sq_log st @ [CallbackCalled True] \<and>
         sequence_start st' = Throw (TypeError ''undefined is not an object'') st'))"
  using assms
  by (simp add: sequence_after_running sequence_child_ends_def onComplete_def sq_call_def sequence_start_def start_current_def)

section \<open>Loop: the number of iterations\<close>

definition loop_after :: "loop_state \<Rightarrow> nat \<Rightarrow> loop_state" where
  "loop_after st k = foldl (\<lambda>s b. loop_child_ends b s) (loop_start st) (replicate k True)"

lemma loop_after_Suc: "loop_after st (Suc k) = loop_child_ends True (loop_after st k)"
proof -
  have "replicate (Suc k) True = replicate k True @ [True]" by (simp add: replicate_append_same)
  then show ?thesis unfolding loop_after_def by simp
qed

definition one_iteration :: "bool \<Rightarrow> composite_log list" where
  "one_iteration resets = (if resets then [ResetCalled 0, StartCalled 0] else [StartCalled 0])"

lemma loop_running:
  assumes "k < n"
  shows "loop_after (new_loop (int n) resets False) k =
    (new_loop (int n) resets False)\<lparr>lp_iterationsSoFar := int (Suc k), lp_running := True,
       lp_log := concat (replicate (Suc k) (one_iteration resets))\<rparr>"
  using assms
proof (induction k)
  case 0
  then show ?case by (simp add: loop_after_def loop_start_def restart_def new_loop_def lp_call_def one_iteration_def)
next
  case (Suc k)
  have c: "concat (replicate m xs) @ xs = xs @ concat (replicate m xs)" for m and xs :: "composite_log list"
    by (induction m) simp_all
  show ?case
    using Suc c [of "Suc k" "one_iteration resets"]
    by (simp add: loop_after_Suc loop_child_ends_def restart_def new_loop_def lp_call_def one_iteration_def split: if_splits)
qed

text \<open>
  A loop of \<open>n\<close> iterations, driven from JavaScript, runs its animation exactly \<open>n\<close> times, with a reset
  before each run if it resets, and then calls its callback once.
\<close>

theorem loop_runs_iterations:
  assumes "0 < n"
  shows "lp_log (loop_after (new_loop (int n) resets False) n) =
      concat (replicate n (one_iteration resets)) @ [CallbackCalled True] \<and>
    \<not> lp_running (loop_after (new_loop (int n) resets False) n)"
proof -
  obtain m where n: "n = Suc m" using assms by (cases n) auto
  show ?thesis unfolding n loop_after_Suc loop_running [OF lessI]
    by (simp add: loop_child_ends_def restart_def lp_call_def new_loop_def)
qed

section \<open>Witnesses\<close>


theorem sequence_in_order_witness: "\<exists>st. sequence_after 3 1 = Ret () st \<and> sq_log st = [StartCalled 0, StartCalled 1]"
  using sequence_in_order [of 1 3] by (auto simp: upt_rec)

theorem loop_runs_iterations_witness:
  "lp_log (loop_after (new_loop 2 True False) 2) = [ResetCalled 0, StartCalled 0, ResetCalled 0, StartCalled 0, CallbackCalled True]"
  using loop_runs_iterations [of 2 True] by (simp add: one_iteration_def eval_nat_numeral)

end
