(* ===== verification/AttributePayload.thy ===== *)
theory AttributePayload
  imports Differ "HOL-Library.AList"
begin

text \<open>
  The attribute payload of \<open>Libraries/Renderer/implementations/ReactNativeRenderer-dev.js\<close>: how
  the properties of a host view become the updates that are sent to native, and
  \<open>Libraries/StyleSheet/flattenStyle.js\<close>.

  The module variables \<open>removedKeys\<close> and \<open>removedKeyCount\<close> and the payload, which the functions
  mutate and return, are one record; a payload that is \<open>null\<close> is \<open>None\<close>.  Objects of properties
  are lists of entries in the order of enumeration.  The mutual recursion of the code is cut at
  the leaf: the functions on nested values take the call of \<open>diffProperties\<close> as an argument.
\<close>

section \<open>Configurations and state\<close>

type_synonym props = "(string \<times> jsval) list"

text \<open>
  An attribute is configured by a truthy value that is no object, by an object with a function
  \<open>diff\<close> or \<open>process\<close>, or by the configuration of nested attributes.
\<close>

datatype attr_config =
    Attr
  | Custom "(jsval \<Rightarrow> jsval \<Rightarrow> bool) option" "(jsval \<Rightarrow> jsval) option"
  | NestedAttr "(string \<times> attr_config) list"

type_synonym attrs = "(string \<times> attr_config) list"

record diff_state =
  updatePayload :: "props option"
  removedKeys :: "(string \<times> bool) list option"
  removedKeyCount :: int

definition put :: "string \<Rightarrow> jsval \<Rightarrow> diff_state \<Rightarrow> diff_state" where
  "put k v st = st\<lparr>updatePayload := Some (AList.update k v (case updatePayload st of None \<Rightarrow> [] | Some p \<Rightarrow> p))\<rparr>"

definition sent :: "string \<Rightarrow> diff_state \<Rightarrow> jsval" where
  "sent k st = (case updatePayload st of None \<Rightarrow> JUndefined | Some p \<Rightarrow> get_prop k p)"

definition removed :: "string \<Rightarrow> diff_state \<Rightarrow> bool" where
  "removed k st \<longleftrightarrow> (case removedKeys st of None \<Rightarrow> False | Some r \<Rightarrow> map_of r k = Some True)"

definition mark :: "string \<Rightarrow> bool \<Rightarrow> diff_state \<Rightarrow> diff_state" where
  "mark k b st = st\<lparr>removedKeys := map_option (AList.update k b) (removedKeys st)\<rparr>"

fun is_falsy :: "jsval \<Rightarrow> bool" where
  "is_falsy JUndefined = True"
| "is_falsy JNull = True"
| "is_falsy (JBool b) = (\<not> b)"
| "is_falsy (JNumber n) = (n = Finite 0 \<or> n = NaN)"
| "is_falsy (JString s) = (s = [])"
| "is_falsy _ = False"

text \<open>The enumerable properties of a leaf; the indices of a string are no attributes.\<close>

fun props_of :: "jsval \<Rightarrow> props" where
  "props_of (JObject _ _ kvs) = kvs"
| "props_of _ = []"

fun is_array :: "jsval \<Rightarrow> bool" where
  "is_array (JArray _ _) = True"
| "is_array _ = False"

section \<open>Flattening a style\<close>

definition assign_all :: "props \<Rightarrow> props \<Rightarrow> props" where
  "assign_all src result = fold (\<lambda>(k, v). AList.update k v) src result"

fun flattenStyle :: "jsval \<Rightarrow> props option" where
  "flattenStyle (JArray _ xs) =
     Some (fold (\<lambda>x result. case flattenStyle x of None \<Rightarrow> result | Some computed \<Rightarrow> assign_all computed result) xs [])"
| "flattenStyle (JObject _ _ kvs) = Some kvs"
| "flattenStyle _ = None"

definition flat_props :: "jsval \<Rightarrow> props" where
  "flat_props v = (case flattenStyle v of None \<Rightarrow> [] | Some kvs \<Rightarrow> kvs)"

section \<open>The differ of the payload\<close>

definition defaultDiffer :: "jsval \<Rightarrow> jsval \<Rightarrow> bool" where
  "defaultDiffer prevProp nextProp =
     (if js_typeof nextProp \<noteq> ''object'' \<or> nextProp = JNull then True
      else fst (deepDiffer_call False prevProp nextProp (DepthOptions (UnsafelyIgnoreFunctions (Some True))) NoOptions))"

definition process_value :: "(jsval \<Rightarrow> jsval) option \<Rightarrow> jsval \<Rightarrow> jsval" where
  "process_value p v = (case p of None \<Rightarrow> v | Some f \<Rightarrow> f v)"

type_synonym leaf_diff = "props \<Rightarrow> props \<Rightarrow> diff_state \<Rightarrow> diff_state"

fun addNestedProperty :: "leaf_diff \<Rightarrow> jsval \<Rightarrow> diff_state \<Rightarrow> diff_state" where
  "addNestedProperty leaf (JArray _ xs) st = fold (addNestedProperty leaf) xs st"
| "addNestedProperty leaf v st = (if is_falsy v then st else leaf [] (props_of v) st)"

fun clearNestedProperty :: "leaf_diff \<Rightarrow> jsval \<Rightarrow> diff_state \<Rightarrow> diff_state" where
  "clearNestedProperty leaf (JArray _ xs) st = fold (clearNestedProperty leaf) xs st"
| "clearNestedProperty leaf v st = (if is_falsy v then st else leaf (props_of v) [] st)"

text \<open>\<open>diffNestedArrayProperty\<close> with the comparison of two elements as an argument.\<close>

definition diffNestedArrayProperty ::
  "(jsval \<times> jsval \<Rightarrow> diff_state \<Rightarrow> diff_state) \<Rightarrow> leaf_diff \<Rightarrow> jsval list \<Rightarrow> jsval list \<Rightarrow> diff_state \<Rightarrow> diff_state" where
  "diffNestedArrayProperty nested leaf prevArray nextArray st =
     (let st1 = fold nested (zip prevArray nextArray) st;
          st2 = fold (clearNestedProperty leaf) (drop (length nextArray) prevArray) st1
      in fold (addNestedProperty leaf) (drop (length prevArray) nextArray) st2)"

lemma diffNestedArrayProperty_cong [fundef_cong]:
  "xs = xs' \<Longrightarrow> ys = ys' \<Longrightarrow> st = st' \<Longrightarrow> leaf = leaf' \<Longrightarrow> (\<And>p s. p \<in> set (zip xs' ys') \<Longrightarrow> f p s = g p s) \<Longrightarrow>
   diffNestedArrayProperty f leaf xs ys st = diffNestedArrayProperty g leaf' xs' ys' st'"
  unfolding diffNestedArrayProperty_def by (metis (no_types, lifting) fold_cong ext)

lemma size_zip_element [termination_simp]: "(x, y) \<in> set (zip xs ys) \<Longrightarrow> size x < Suc (size_list size xs)"
  by (drule set_zip_leftD) (induction xs, auto)

fun diffNestedProperty :: "leaf_diff \<Rightarrow> jsval \<Rightarrow> jsval \<Rightarrow> diff_state \<Rightarrow> diff_state" where
  "diffNestedProperty leaf prevProp nextProp st =
     (if updatePayload st = None \<and> strict_eq prevProp nextProp then st
      else if is_falsy prevProp \<or> is_falsy nextProp
      then (if \<not> is_falsy nextProp then addNestedProperty leaf nextProp st
            else if \<not> is_falsy prevProp then clearNestedProperty leaf prevProp st
            else st)
      else case (prevProp, nextProp) of
             (JArray _ xs, JArray _ ys) \<Rightarrow> diffNestedArrayProperty (\<lambda>(x, y) s. diffNestedProperty leaf x y s) leaf xs ys st
           | (JArray _ xs, _) \<Rightarrow> leaf (flat_props prevProp) (props_of nextProp) st
           | (_, JArray _ ys) \<Rightarrow> leaf (props_of prevProp) (flat_props nextProp) st
           | _ \<Rightarrow> leaf (props_of prevProp) (props_of nextProp) st)"

declare diffNestedProperty.simps [simp del]

section \<open>Restoring deleted values\<close>

definition restore_key :: "attrs \<Rightarrow> props \<Rightarrow> string \<Rightarrow> diff_state \<Rightarrow> diff_state" where
  "restore_key validAttributes obj propKey st =
     (if \<not> removed propKey st then st
      else let nextProp = get_prop propKey obj
           in if nextProp = JUndefined then st
              else case map_of validAttributes propKey of
                     None \<Rightarrow> st
                   | Some attributeConfig \<Rightarrow>
                       let nextProp1 = (if is_function nextProp then JBool True else nextProp);
                           st1 = (case attributeConfig of
                                    Attr \<Rightarrow> put propKey nextProp1 st
                                  | Custom d p \<Rightarrow> put propKey (process_value p nextProp1) st
                                  | NestedAttr _ \<Rightarrow> st);
                           st2 = mark propKey False st1
                       in st2\<lparr>removedKeyCount := removedKeyCount st2 - 1\<rparr>)"

definition removed_names :: "diff_state \<Rightarrow> string list" where
  "removed_names st = (case removedKeys st of None \<Rightarrow> [] | Some r \<Rightarrow> map fst r)"

fun restoreDeletedValuesInNestedArray :: "attrs \<Rightarrow> jsval \<Rightarrow> diff_state \<Rightarrow> diff_state" where
  "restoreDeletedValuesInNestedArray va (JArray _ xs) st =
     foldr (\<lambda>x s. if removedKeyCount s > 0 then restoreDeletedValuesInNestedArray va x s else s) xs st"
| "restoreDeletedValuesInNestedArray va node st =
     (if \<not> is_falsy node \<and> removedKeyCount st > 0
      then fold (restore_key va (props_of node)) (removed_names st) st else st)"

section \<open>Diffing properties\<close>

text \<open>Functions become markers, an explicit \<open>undefined\<close> becomes \<open>null\<close>.\<close>

definition normalise :: "jsval \<Rightarrow> jsval \<Rightarrow> jsval \<times> jsval" where
  "normalise prevProp nextProp =
     (if is_function nextProp then (if is_function prevProp then JBool True else prevProp, JBool True)
      else if nextProp = JUndefined then (if prevProp = JUndefined then JNull else prevProp, JNull)
      else (prevProp, nextProp))"

definition shouldUpdate :: "(jsval \<Rightarrow> jsval \<Rightarrow> bool) option \<Rightarrow> jsval \<Rightarrow> jsval \<Rightarrow> bool" where
  "shouldUpdate d prevProp nextProp \<longleftrightarrow>
     prevProp = JUndefined \<or> (case d of Some f \<Rightarrow> f prevProp nextProp | None \<Rightarrow> defaultDiffer prevProp nextProp)"

text \<open>The body of the first loop; \<open>nested\<close> is the comparison of nested attributes.\<close>

definition diff_next ::
  "(attrs \<Rightarrow> jsval \<Rightarrow> jsval \<Rightarrow> diff_state \<Rightarrow> diff_state) \<Rightarrow> attrs \<Rightarrow> props \<Rightarrow> string \<times> jsval \<Rightarrow> diff_state \<Rightarrow> diff_state" where
  "diff_next nested va prevProps kv st =
     (case map_of va (fst kv) of
        None \<Rightarrow> st
      | Some attributeConfig \<Rightarrow>
          (case normalise (get_prop (fst kv) prevProps) (snd kv) of (prevProp, nextProp) \<Rightarrow>
             let st1 = mark (fst kv) False st
             in if sent (fst kv) st1 \<noteq> JUndefined
                then (case attributeConfig of
                        Attr \<Rightarrow> put (fst kv) nextProp st1
                      | Custom d p \<Rightarrow> put (fst kv) (process_value p nextProp) st1
                      | NestedAttr _ \<Rightarrow> st1)
                else if strict_eq prevProp nextProp then st1
                else (case attributeConfig of
                        Attr \<Rightarrow> (if defaultDiffer prevProp nextProp then put (fst kv) nextProp st1 else st1)
                      | Custom d p \<Rightarrow>
                          (if shouldUpdate d prevProp nextProp then put (fst kv) (process_value p nextProp) st1 else st1)
                      | NestedAttr va' \<Rightarrow>
                          let st2 = nested va' prevProp nextProp (st1\<lparr>removedKeys := None, removedKeyCount := 0\<rparr>)
                          in if removedKeyCount st2 > 0 \<and> updatePayload st2 \<noteq> None
                             then (restoreDeletedValuesInNestedArray va' nextProp st2)\<lparr>removedKeys := None\<rparr>
                             else st2)))"

text \<open>Flagging a leaf for removal.\<close>

definition flag_removed :: "string \<Rightarrow> diff_state \<Rightarrow> diff_state" where
  "flag_removed k st =
     (let st1 = put k JNull st;
          st2 = (if removedKeys st1 = None then st1\<lparr>removedKeys := Some []\<rparr> else st1)
      in if removed k st2 then st2
         else (mark k True st2)\<lparr>removedKeyCount := removedKeyCount st2 + 1\<rparr>)"

definition diff_prev ::
  "(attrs \<Rightarrow> jsval \<Rightarrow> diff_state \<Rightarrow> diff_state) \<Rightarrow> attrs \<Rightarrow> props \<Rightarrow> string \<times> jsval \<Rightarrow> diff_state \<Rightarrow> diff_state" where
  "diff_prev clear va nextProps kv st =
     (if get_prop (fst kv) nextProps \<noteq> JUndefined then st
      else case map_of va (fst kv) of
             None \<Rightarrow> st
           | Some attributeConfig \<Rightarrow>
               if sent (fst kv) st \<noteq> JUndefined then st
               else if snd kv = JUndefined then st
               else (case attributeConfig of
                       NestedAttr va' \<Rightarrow> clear va' (snd kv) st
                     | _ \<Rightarrow> flag_removed (fst kv) st))"

lemma size_attr [termination_simp]:
  "map_of va k = Some (NestedAttr va') \<Longrightarrow> size_list (size_prod (\<lambda>_. 0) size) va' < size_list (size_prod (\<lambda>_. 0) size) va"
  by (induction va) (auto split: if_splits)

lemma diff_next_cong [fundef_cong]:
  assumes "va = va'" and "prev = prev'" and "kv = kv'"
    and "\<And>w p n s. map_of va' (fst kv') = Some (NestedAttr w) \<Longrightarrow> f w p n s = g w p n s"
  shows "diff_next f va prev kv = diff_next g va' prev' kv'"
  using assms by (intro ext) (auto simp: diff_next_def Let_def split: option.splits attr_config.splits prod.splits)

lemma diff_prev_cong [fundef_cong]:
  assumes "va = va'" and "next = next'" and "kv = kv'"
    and "\<And>w p s. map_of va' (fst kv') = Some (NestedAttr w) \<Longrightarrow> f w p s = g w p s"
  shows "diff_prev f va next kv = diff_prev g va' next' kv'"
  using assms by (intro ext) (auto simp: diff_prev_def Let_def split: option.splits attr_config.splits)

function diffProperties :: "attrs \<Rightarrow> props \<Rightarrow> props \<Rightarrow> diff_state \<Rightarrow> diff_state" where
  "diffProperties va prevProps nextProps st =
     fold (\<lambda>kv s. diff_prev (\<lambda>va' prev s. clearNestedProperty (\<lambda>p n s. diffProperties va' p n s) prev s) va nextProps kv s)
       prevProps
       (fold (\<lambda>kv s. diff_next (\<lambda>va' prev next s. diffNestedProperty (\<lambda>p n s. diffProperties va' p n s) prev next s) va prevProps kv s)
          nextProps st)"
  by pat_completeness auto
termination
  by (relation "measure (\<lambda>(va, _). size_list (size_prod (\<lambda>_. 0) size) va)") (auto simp: size_attr)

declare diffProperties.simps [simp del]

definition addProperties :: "attrs \<Rightarrow> props \<Rightarrow> diff_state \<Rightarrow> diff_state" where
  "addProperties va props st = diffProperties va [] props st"

definition clearProperties :: "attrs \<Rightarrow> props \<Rightarrow> diff_state \<Rightarrow> diff_state" where
  "clearProperties va prevProps st = diffProperties va prevProps [] st"

text \<open>
  The entry points start with no payload; \<open>removedKeys\<close> and \<open>removedKeyCount\<close> are what the
  last call left.
\<close>

definition create :: "props \<Rightarrow> attrs \<Rightarrow> diff_state \<Rightarrow> diff_state" where
  "create props va st = addProperties va props (st\<lparr>updatePayload := None\<rparr>)"

definition diff :: "props \<Rightarrow> props \<Rightarrow> attrs \<Rightarrow> diff_state \<Rightarrow> diff_state" where
  "diff prevProps nextProps va st = diffProperties va prevProps nextProps (st\<lparr>updatePayload := None\<rparr>)"

section \<open>Contents\<close>

text \<open>
  What native receives of a value: addresses are gone, functions cannot be sent, and the order
  of the entries of an object does not matter.
\<close>

lemma size_element_of: "x \<in> set xs \<Longrightarrow> size x < size (JArray a xs)"
  by (induction xs) auto

datatype native_content = CValue jsval | CFunction | CArray "native_content list" | CObject string "string \<Rightarrow> native_content"

function content :: "jsval \<Rightarrow> native_content" where
  "content (JArray a xs) = CArray (map content xs)"
| "content (JObject a c kvs) = CObject c (\<lambda>k. content (get_prop k kvs))"
| "content (JFunction f) = CFunction"
| "content JUndefined = CValue JUndefined"
| "content JNull = CValue JNull"
| "content (JBool b) = CValue (JBool b)"
| "content (JNumber n) = CValue (JNumber n)"
| "content (JString s) = CValue (JString s)"
  by pat_completeness auto
termination
  by (relation "measure size") (auto simp del: jsval.size simp: size_get_prop intro: size_element_of)

text \<open>
  Properties are not mutated: an address that occurs in values stands for one object, whose
  content is given by \<open>H\<close>.
\<close>

fun stored :: "(nat \<Rightarrow> native_content) \<Rightarrow> jsval \<Rightarrow> bool" where
  "stored H (JArray a xs) \<longleftrightarrow> H a = content (JArray a xs) \<and> (\<forall>x\<in>set xs. stored H x)"
| "stored H (JObject a c kvs) \<longleftrightarrow>
     H a = content (JObject a c kvs) \<and> distinct (map fst kvs) \<and> (\<forall>kv\<in>set kvs. stored H (snd kv))"
| "stored H _ \<longleftrightarrow> True"

lemma stored_get_prop: "(\<forall>kv\<in>set kvs. stored H (snd kv)) \<Longrightarrow> stored H (get_prop k kvs)"
  by (induction kvs) auto

lemma content_simps [simp]:
  "content v = CValue JUndefined \<longleftrightarrow> v = JUndefined" "CValue JUndefined = content v \<longleftrightarrow> v = JUndefined"
  "content v = CFunction \<longleftrightarrow> is_function v" "CFunction = content v \<longleftrightarrow> is_function v"
  by (cases v; simp)+

lemma content_undefined: "content v = content w \<Longrightarrow> v = JUndefined \<longleftrightarrow> w = JUndefined"
  by (metis content.simps(4) content_simps(1))

lemma content_function: "content v = content w \<Longrightarrow> is_function v = is_function w"
  by (metis content_simps(3))

lemma strict_eq_content: "strict_eq v w \<Longrightarrow> stored H v \<Longrightarrow> stored H w \<Longrightarrow> content v = content w"
  by (cases v; cases w; simp)

lemma same_content:
  assumes "d < 0" and "ignores_functions opts" and "stored H x" and "stored H y" and "\<not> differ l opts d x y"
  shows "content x = content y"
  using assms
proof (induction "size x" arbitrary: x y d rule: less_induct)
  case less
  show ?case
  proof (cases x y rule: shape_cases)
    case (arr a xs b ys)
    show ?thesis
    proof (cases "a = b")
      case True
      then show ?thesis using less.prems(3,4) arr by simp
    next
      case False
      with less.prems(5) arr have len: "length xs = length ys"
        and el: "\<And>i. i < length xs \<Longrightarrow> \<not> differ l opts (d - 1) (xs ! i) (ys ! i)" by (auto simp: differ_array)
      have "content (xs ! i) = content (ys ! i)" if "i < length xs" for i
        by (rule less.hyps [where d = "d - 1"]) (use that less.prems arr el [OF that] size_element [OF that] len in auto)
      then have "map content xs = map content ys" using len by (simp add: list_eq_iff_nth_eq)
      then show ?thesis using arr by simp
    qed
  next
    case (obj a c kvs b c' kvs')
    have "a = b \<or> c = c' \<and> (\<forall>k. \<not> differ l opts (d - 1) (get_prop k kvs) (get_prop k kvs'))"
      using less.prems obj by (auto simp: differ_object_keys)
    then show ?thesis
    proof
      assume "a = b"
      then show ?thesis using less.prems(3,4) obj by simp
    next
      assume *: "c = c' \<and> (\<forall>k. \<not> differ l opts (d - 1) (get_prop k kvs) (get_prop k kvs'))"
      have "content (get_prop k kvs) = content (get_prop k kvs')" for k
        by (rule less.hyps [where d = "d - 1"]) (use * less.prems obj size_get_prop [of k kvs a c] stored_get_prop in auto)
      then show ?thesis using obj * by simp
    qed
  next
    case flat
    then have "strict_eq x y \<or> is_function x \<and> is_function y" using less.prems by (auto simp: differ_flat)
    then show ?thesis using strict_eq_content less.prems(3,4) content_simps(3) by metis
  qed
qed

lemma defaultDiffer_content:
  assumes "\<not> defaultDiffer p n" and "stored H p" and "stored H n"
  shows "content p = content n \<and> \<not> is_function n"
proof -
  have "\<not> differ False (UnsafelyIgnoreFunctions (Some True)) (- 1) p n" "\<not> is_function n"
    using assms(1) by (auto simp: defaultDiffer_def deepDiffer_call_def differ_def is_function_typeof split: if_splits)
  then show ?thesis using same_content [of "-1" "UnsafelyIgnoreFunctions (Some True)" H p n False] assms(2,3) by (auto simp: ignores_functions_def)
qed

lemma defaultDiffer_undefined: "n \<noteq> JUndefined \<Longrightarrow> defaultDiffer JUndefined n"
  using differ_undefined(2) [of "-1" False "UnsafelyIgnoreFunctions (Some True)" n]
  by (simp add: defaultDiffer_def deepDiffer_call_def differ_def)

section \<open>The effect on one key\<close>

text \<open>The value native should hold for a property, and when the values of two renders agree.\<close>

fun process_of :: "attr_config \<Rightarrow> jsval \<Rightarrow> jsval" where
  "process_of (Custom d p) v = process_value p v"
| "process_of _ v = v"

definition native_of :: "attr_config \<Rightarrow> jsval \<Rightarrow> jsval" where
  "native_of c v =
     (if v = JUndefined then JNull else process_of c (if is_function v then JBool True else v))"

definition agrees :: "attr_config \<Rightarrow> jsval \<Rightarrow> jsval \<Rightarrow> bool" where
  "agrees c p n \<longleftrightarrow> (p = JUndefined \<longleftrightarrow> n = JUndefined) \<and> content (native_of c p) = content (native_of c n)"

text \<open>
  What the code relies on of a configured attribute: processing a value gives a value, and the
  same for equal contents; a differ that reports no change is right.
\<close>

fun flat_config :: "(nat \<Rightarrow> native_content) \<Rightarrow> attr_config \<Rightarrow> bool" where
  "flat_config H Attr \<longleftrightarrow> True"
| "flat_config H (Custom d p) \<longleftrightarrow>
     (\<forall>v. v \<noteq> JUndefined \<longrightarrow> process_value p v \<noteq> JUndefined) \<and>
     (\<forall>v w. content v = content w \<longrightarrow> content (process_value p v) = content (process_value p w)) \<and>
     (\<forall>f v w. d = Some f \<longrightarrow> stored H v \<longrightarrow> stored H w \<longrightarrow> v \<noteq> JUndefined \<longrightarrow> w \<noteq> JUndefined \<longrightarrow> \<not> f v w \<longrightarrow>
        content (native_of (Custom d p) v) = content (native_of (Custom d p) w))"
| "flat_config H (NestedAttr va) \<longleftrightarrow> False"

lemma process_of_defined:
  assumes "flat_config H c" and "v \<noteq> JUndefined"
  shows "process_of c v \<noteq> JUndefined"
proof (cases c)
  case (Custom d p)
  then show ?thesis using assms unfolding Custom flat_config.simps process_of.simps by blast
qed (use assms in simp_all)

lemma process_of_content:
  assumes "flat_config H c" and "content v = content w"
  shows "content (process_of c v) = content (process_of c w)"
proof (cases c)
  case (Custom d p)
  then show ?thesis using assms unfolding Custom flat_config.simps process_of.simps by blast
qed (use assms in simp_all)

lemma native_of_defined: "flat_config H c \<Longrightarrow> native_of c v \<noteq> JUndefined"
  using process_of_defined by (auto simp: native_of_def)

lemma native_of_content:
  assumes "flat_config H c" and "content v = content w"
  shows "content (native_of c v) = content (native_of c w)"
proof -
  have "v = JUndefined \<longleftrightarrow> w = JUndefined" "is_function v \<longleftrightarrow> is_function w" "content (process_of c v) = content (process_of c w)"
    using content_undefined [OF assms(2)] content_function [OF assms(2)] process_of_content [OF assms] by blast+
  then show ?thesis by (simp add: native_of_def)
qed

lemma agrees_content: "flat_config H c \<Longrightarrow> content v = content w \<Longrightarrow> agrees c v w"
  unfolding agrees_def using content_undefined [of v w] native_of_content [of H c v w] by blast

definition changes :: "attr_config \<Rightarrow> jsval \<Rightarrow> jsval \<Rightarrow> bool" where
  "changes c p n \<longleftrightarrow> \<not> strict_eq p n \<and>
     (case c of Custom d _ \<Rightarrow> shouldUpdate d p n | _ \<Rightarrow> defaultDiffer p n)"

text \<open>What is sent for a key and whether it is flagged as removed, after a leaf has been compared.\<close>

definition key_diff :: "attr_config \<Rightarrow> jsval \<Rightarrow> jsval \<Rightarrow> jsval \<times> bool \<Rightarrow> jsval \<times> bool" where
  "key_diff c p n s =
     (if n \<noteq> JUndefined
      then (if fst s \<noteq> JUndefined \<or> changes c (fst (normalise p n)) (snd (normalise p n)) then native_of c n else JUndefined, False)
      else if fst s \<noteq> JUndefined \<or> p = JUndefined then s else (JNull, True))"

definition key_view :: "string \<Rightarrow> diff_state \<Rightarrow> jsval \<times> bool" where
  "key_view k st = (sent k st, removed k st)"

lemma get_prop_update: "get_prop k (AList.update k' v kvs) = (if k = k' then v else get_prop k kvs)"
  by (induction kvs) auto

lemma key_view_simps [simp]:
  "key_view k (put k' v st) = (if k = k' then (v, removed k st) else key_view k st)"
  "key_view k (mark k' False st) = (if k = k' then (sent k st, False) else key_view k st)"
  "key_view k (st\<lparr>removedKeyCount := i\<rparr>) = key_view k st"
  "sent k (st\<lparr>removedKeyCount := i\<rparr>) = sent k st" "removed k (st\<lparr>removedKeyCount := i\<rparr>) = removed k st"
  "sent k (mark k' b st) = sent k st" "removed k (put k' v st) = removed k st"
  "sent k (put k' v st) = (if k = k' then v else sent k st)"
  by (auto simp: key_view_def put_def sent_def removed_def mark_def get_prop_update update_conv' split: option.splits)

lemma removed_mark: "removed k (mark k' False st) \<longleftrightarrow> k \<noteq> k' \<and> removed k st"
  by (auto simp: removed_def mark_def update_conv' split: option.splits)

lemma key_view_flag_removed [simp]:
  "key_view k (flag_removed k' st) = (if k = k' then (JNull, True) else key_view k st)"
  by (auto simp: flag_removed_def Let_def key_view_def put_def sent_def removed_def mark_def get_prop_update update_conv'
      split: option.splits)

text \<open>A loop over entries with distinct keys, of which only one touches the view.\<close>

lemma fold_one_key:
  assumes "distinct (map fst kvs)" and "\<And>kv st. fst kv \<noteq> k \<Longrightarrow> V (f kv st) = V st"
    and "\<And>v st. (k, v) \<in> set kvs \<Longrightarrow> V (f (k, v) st) = g v (V st)"
  shows "V (fold f kvs st) = (case map_of kvs k of None \<Rightarrow> V st | Some v \<Rightarrow> g v (V st))"
  using assms(1,3)
proof (induction kvs arbitrary: st)
  case (Cons kv kvs)
  have IH: "V (fold f kvs st) = (case map_of kvs k of None \<Rightarrow> V st | Some v \<Rightarrow> g v (V st))" for st
    using Cons by simp
  show ?case
  proof (cases "fst kv = k")
    case True
    then have "map_of kvs k = None" using Cons.prems by (auto simp: map_of_eq_None_iff)
    then show ?thesis using IH True Cons.prems(2) [of "snd kv" st] by (cases kv) simp
  next
    case False
    then show ?thesis using IH assms(2) [of kv st] by (cases kv) (auto split: option.split)
  qed
qed simp

text \<open>Entries of an object are distinct, and none is \<open>undefined\<close>.\<close>

definition defined_props :: "props \<Rightarrow> bool" where
  "defined_props kvs \<longleftrightarrow> distinct (map fst kvs) \<and> (\<forall>kv\<in>set kvs. snd kv \<noteq> JUndefined)"

lemma get_prop_map_of: "get_prop k kvs = (case map_of kvs k of None \<Rightarrow> JUndefined | Some v \<Rightarrow> v)"
  by (induction kvs) auto

lemma map_of_defined: "defined_props kvs \<Longrightarrow> map_of kvs k = (if get_prop k kvs = JUndefined then None else Some (get_prop k kvs))"
  by (auto simp: defined_props_def get_prop_map_of dest!: map_of_SomeD split: option.splits)

definition flat_attrs :: "(nat \<Rightarrow> native_content) \<Rightarrow> attrs \<Rightarrow> bool" where
  "flat_attrs H va \<longleftrightarrow> (\<forall>k c. map_of va k = Some c \<longrightarrow> flat_config H c)"

lemma native_of_normalise: "n \<noteq> JUndefined \<Longrightarrow> process_of c (snd (normalise p n)) = native_of c n"
  by (simp add: normalise_def native_of_def)

lemma diff_next_other: "map_of va (fst kv) \<noteq> None \<longrightarrow> flat_config H (the (map_of va (fst kv))) \<Longrightarrow> fst kv \<noteq> k \<Longrightarrow>
    key_view k (diff_next nested va prev kv st) = key_view k st"
  by (auto simp: diff_next_def Let_def split: option.splits prod.splits attr_config.splits)

lemma diff_next_key:
  assumes "map_of va k = Some c" and "flat_config H c" and "v \<noteq> JUndefined"
  shows "key_view k (diff_next nested va prev (k, v) st) = key_diff c (get_prop k prev) v (key_view k st)"
proof -
  obtain p n where pn: "normalise (get_prop k prev) v = (p, n)" by fastforce
  have n: "process_of c n = native_of c v" using native_of_normalise [OF assms(3), of c "get_prop k prev"] pn by simp
  have "\<And>w. c \<noteq> NestedAttr w" using assms(2) by auto
  then show ?thesis using assms(1,3) pn n
    by (cases c) (auto simp: diff_next_def key_diff_def changes_def key_view_def Let_def removed_mark)
qed

lemma diffProperties_key:
  assumes "flat_attrs H va" and "defined_props prev" and "defined_props nxt"
  shows "key_view k (diffProperties va prev nxt st) =
    (case map_of va k of None \<Rightarrow> key_view k st
     | Some c \<Rightarrow> key_diff c (get_prop k prev) (get_prop k nxt) (key_view k st))"
proof -
  let ?N = "diff_next (\<lambda>va' prev next s. diffNestedProperty (\<lambda>p n s. diffProperties va' p n s) prev next s) va prev"
  let ?P = "diff_prev (\<lambda>va' prev s. clearNestedProperty (\<lambda>p n s. diffProperties va' p n s) prev s) va nxt"
  have fc: "map_of va k' = Some c \<Longrightarrow> flat_config H c" for k' c using assms(1) by (simp add: flat_attrs_def)
  have N: "key_view k (fold ?N nxt st) =
     (case map_of nxt k of None \<Rightarrow> key_view k st
      | Some v \<Rightarrow> (case map_of va k of None \<Rightarrow> key_view k st | Some c \<Rightarrow> key_diff c (get_prop k prev) v (key_view k st)))"
  proof (rule fold_one_key)
    show "key_view k (?N kv st) = key_view k st" if "fst kv \<noteq> k" for kv st
      using that fc by (intro diff_next_other) auto
    show "key_view k (?N (k, v) st) = (case map_of va k of None \<Rightarrow> key_view k st | Some c \<Rightarrow> key_diff c (get_prop k prev) v (key_view k st))"
      if "(k, v) \<in> set nxt" for v st
    proof (cases "map_of va k")
      case (Some c)
      have "v \<noteq> JUndefined" using that assms(3) by (force simp: defined_props_def)
      with Some show ?thesis using diff_next_key [OF Some fc [OF Some]] by simp
    qed (simp add: diff_next_def)
  qed (use assms(3) in \<open>simp add: defined_props_def\<close>)
  have P: "key_view k (fold ?P prev st) =
     (case map_of prev k of None \<Rightarrow> key_view k st
      | Some v \<Rightarrow> (if get_prop k nxt \<noteq> JUndefined \<or> map_of va k = None \<or> fst (key_view k st) \<noteq> JUndefined then key_view k st else (JNull, True)))" for st
  proof (rule fold_one_key)
    show "key_view k (?P kv st) = key_view k st" if "fst kv \<noteq> k" for kv st
      using that fc [of "fst kv"] by (auto simp: diff_prev_def split: option.split attr_config.split)
    show "key_view k (?P (k, v) st) =
        (if get_prop k nxt \<noteq> JUndefined \<or> map_of va k = None \<or> fst (key_view k st) \<noteq> JUndefined then key_view k st else (JNull, True))"
      if "(k, v) \<in> set prev" for v st
      using that assms(2) fc [of k] by (auto simp: defined_props_def diff_prev_def key_view_def [of k st] split: option.split attr_config.split)
  qed (use assms(2) in \<open>simp add: defined_props_def\<close>)
  show ?thesis
    unfolding diffProperties.simps [of va] P N map_of_defined [OF assms(2)] map_of_defined [OF assms(3)]
    by (auto simp: key_diff_def split: option.split)
qed

section \<open>The number of removed keys\<close>

definition count_ok :: "diff_state \<Rightarrow> bool" where
  "count_ok st \<longleftrightarrow> int (card {k. removed k st}) \<le> removedKeyCount st"

lemma finite_removed [simp]: "finite {k. removed k st}"
proof -
  have "{k. removed k st} \<subseteq> set (removed_names st)"
    by (force simp: removed_def removed_names_def split: option.splits dest: map_of_SomeD)
  then show ?thesis by (rule finite_subset) simp
qed

lemma removed_positive: "count_ok st \<Longrightarrow> removed k st \<Longrightarrow> 0 < removedKeyCount st"
  using card_gt_0_iff [of "{k. removed k st}"] by (auto simp: count_ok_def)

lemma removed_flag: "removed k (flag_removed k' st) \<longleftrightarrow> k = k' \<or> removed k st"
  by (auto simp: flag_removed_def Let_def removed_def put_def mark_def update_conv' split: option.splits)

lemma count_put [simp]: "count_ok (put k v st) = count_ok st"
  by (simp add: count_ok_def put_def removed_def)

lemma count_mark [intro]: "count_ok st \<Longrightarrow> count_ok (mark k False st)"
proof -
  assume "count_ok st"
  moreover have "card {x. removed x (mark k False st)} \<le> card {x. removed x st}"
    by (rule card_mono) (auto simp: removed_mark)
  ultimately show ?thesis by (simp add: count_ok_def mark_def)
qed

lemma count_flag [intro]:
  assumes "count_ok st" shows "count_ok (flag_removed k st)"
proof -
  have "{x. removed x (flag_removed k st)} = insert k {x. removed x st}" by (auto simp: removed_flag)
  then have "card {x. removed x (flag_removed k st)} = card {x. removed x st} + (if removed k st then 0 else 1)"
    by (simp add: insert_absorb)
  moreover have "removedKeyCount (flag_removed k st) = removedKeyCount st + (if removed k st then 0 else 1)"
    by (auto simp: flag_removed_def Let_def removed_def put_def mark_def split: option.splits)
  ultimately show ?thesis using assms by (simp add: count_ok_def)
qed

lemma fold_keeps: "(\<And>x s. x \<in> set xs \<Longrightarrow> I s \<Longrightarrow> I (f x s)) \<Longrightarrow> I st \<Longrightarrow> I (fold f xs st)"
  by (induction xs arbitrary: st) auto

lemma count_diffProperties:
  assumes "flat_attrs H va" and "count_ok st"
  shows "count_ok (diffProperties va prev nxt st)"
proof -
  have fc: "map_of va k \<noteq> Some (NestedAttr w)" for k w using assms(1) by (force simp: flat_attrs_def)
  have N: "count_ok (diff_next n va prev kv s)" if "count_ok s" for n kv s
    using that fc by (auto simp: diff_next_def Let_def split: option.split prod.split attr_config.split)
  have P: "count_ok (diff_prev n va nxt kv s)" if "count_ok s" for n kv s
    using that fc by (auto simp: diff_prev_def split: option.split attr_config.split)
  show ?thesis unfolding diffProperties.simps [of va]
    by (rule fold_keeps [where I = count_ok, OF P fold_keeps [where I = count_ok, OF N assms(2)]])
qed

section \<open>Nested values\<close>

text \<open>The last defined value of a key in a nested style.\<close>

definition later :: "jsval \<Rightarrow> jsval \<Rightarrow> jsval" where
  "later a b = (if b = JUndefined then a else b)"

fun style_get :: "string \<Rightarrow> jsval \<Rightarrow> jsval" where
  "style_get k (JArray a xs) = foldl later JUndefined (map (style_get k) xs)"
| "style_get k (JObject a c kvs) = get_prop k kvs"
| "style_get k _ = JUndefined"

fun style_ok :: "(nat \<Rightarrow> native_content) \<Rightarrow> jsval \<Rightarrow> bool" where
  "style_ok H (JArray a xs) \<longleftrightarrow> stored H (JArray a xs) \<and> (\<forall>x\<in>set xs. style_ok H x)"
| "style_ok H (JObject a c kvs) \<longleftrightarrow> stored H (JObject a c kvs) \<and> defined_props kvs"
| "style_ok H _ \<longleftrightarrow> True"

lemma later_simps [simp]: "later a JUndefined = a" "later JUndefined b = b"
  by (simp_all add: later_def)

lemma later_assoc: "later a (later b c) = later (later a b) c"
  by (simp add: later_def)

lemma foldl_later: "later a (foldl later b vs) = foldl later (later a b) vs"
  by (induction vs arbitrary: b) (simp_all add: later_assoc)

lemma style_ok_stored: "style_ok H v \<Longrightarrow> stored H v"
  by (cases v) auto

lemma style_get_stored: "style_ok H v \<Longrightarrow> stored H (style_get k v)"
proof (induction v)
  case (JArray a xs)
  have "\<forall>x\<in>set xs. stored H (style_get k x)" using JArray by simp
  then have "stored H (foldl later b (map (style_get k) xs))" if "stored H b" for b
    using that by (induction xs arbitrary: b) (auto simp: later_def)
  then show ?case by simp
qed (auto simp: stored_get_prop)

lemma style_get_content: "content v = content w \<Longrightarrow> content (style_get k v) = content (style_get k w)"
proof (induction v arbitrary: w)
  case (JArray a xs)
  obtain b ys where w: "w = JArray b ys" using JArray.prems by (cases w) auto
  have eq: "map content xs = map content ys" using JArray.prems w by simp
  have "content (foldl later p (map (style_get k) xs)) = content (foldl later q (map (style_get k) ys))"
    if "content p = content q" for p q
    using eq JArray.IH that
  proof (induction xs arbitrary: ys p q)
    case (Cons x xs)
    then obtain y ys' where ys: "ys = y # ys'" "content x = content y" "map content xs = map content ys'" by (cases ys) auto
    have xy: "content (style_get k x) = content (style_get k y)" by (rule Cons.prems(2) [OF _ ys(2)]) simp
    have "content (later p (style_get k x)) = content (later q (style_get k y))"
      using Cons.prems(3) content_undefined [OF xy] xy unfolding later_def by presburger
    moreover have "content (style_get k v) = content (style_get k w)" if "v \<in> set xs" "content v = content w" for v w
      by (rule Cons.prems(2) [OF _ that(2)]) (simp add: that(1))
    ultimately show ?case using Cons.IH [OF ys(3)] unfolding ys(1) by simp
  qed simp
  then show ?case using w by simp
next
  case (JObject a c kvs)
  then obtain b kvs' where "w = JObject b c kvs'" by (cases w) auto
  then show ?case using JObject.prems by (auto dest: fun_cong)
qed (case_tac w; simp)+

lemma defined_update: "defined_props kvs \<Longrightarrow> v \<noteq> JUndefined \<Longrightarrow> defined_props (AList.update k v kvs)"
proof -
  have "kv \<in> set (AList.update k v kvs) \<Longrightarrow> kv = (k, v) \<or> kv \<in> set kvs" for kv
    by (induction kvs) (auto split: if_splits)
  then show "defined_props kvs \<Longrightarrow> v \<noteq> JUndefined \<Longrightarrow> defined_props (AList.update k v kvs)"
    unfolding defined_props_def using distinct_update by fastforce
qed

lemma assign_all_get:
  assumes "defined_props src" and "defined_props result"
  shows "get_prop k (assign_all src result) = later (get_prop k result) (get_prop k src) \<and> defined_props (assign_all src result)"
proof
  have "get_prop k (fold (\<lambda>(k, v). AList.update k v) src result) =
      (case map_of src k of None \<Rightarrow> get_prop k result | Some v \<Rightarrow> v)"
    by (rule fold_one_key) (use assms in \<open>auto simp: defined_props_def get_prop_update\<close>)
  then show "get_prop k (assign_all src result) = later (get_prop k result) (get_prop k src)"
    by (simp add: assign_all_def later_def map_of_defined [OF assms(1)])
  show "defined_props (assign_all src result)" unfolding assign_all_def
    by (rule fold_keeps [where I = defined_props]) (use assms in \<open>auto simp: defined_props_def [of src] defined_update\<close>)
qed

lemma flattenStyle_get:
  assumes "style_ok H v"
  shows "get_prop k (flat_props v) = style_get k v \<and> defined_props (flat_props v)"
  using assms
proof (induction v)
  case (JArray a xs)
  let ?f = "\<lambda>x result. case flattenStyle x of None \<Rightarrow> result | Some computed \<Rightarrow> assign_all computed result"
  have step: "?f x result = assign_all (flat_props x) result" for x result
    by (cases "flattenStyle x") (simp_all add: flat_props_def assign_all_def)
  have el: "\<forall>x\<in>set xs. get_prop k (flat_props x) = style_get k x \<and> defined_props (flat_props x)" using JArray by simp
  have "get_prop k (fold ?f xs r) = foldl later (get_prop k r) (map (style_get k) xs) \<and> defined_props (fold ?f xs r)"
    if "defined_props r" for r
    using that el unfolding step by (induction xs arbitrary: r) (auto simp: assign_all_get)
  from this [of "[]"] show ?case by (simp add: flat_props_def defined_props_def [of "[]"])
qed (simp_all add: flat_props_def defined_props_def [of "[]"])

text \<open>
  A property \<open>J\<close> of the state that a leaf moves from the values of a key so far to the values
  with the leaf is moved by the comparison of nested values to the values with all leaves.
\<close>

definition leaf_moves :: "(nat \<Rightarrow> native_content) \<Rightarrow> string \<Rightarrow> (jsval \<Rightarrow> jsval \<Rightarrow> diff_state \<Rightarrow> bool) \<Rightarrow> leaf_diff \<Rightarrow> bool" where
  "leaf_moves H k J leaf \<longleftrightarrow>
     (\<forall>p n fp fn s. defined_props p \<longrightarrow> defined_props n \<longrightarrow> stored H (get_prop k p) \<longrightarrow> stored H (get_prop k n) \<longrightarrow>
        J fp fn s \<longrightarrow> J (later fp (get_prop k p)) (later fn (get_prop k n)) (leaf p n s))"

lemma leaf_movesD:
  "leaf_moves H k J leaf \<Longrightarrow> J fp fn s \<Longrightarrow> defined_props p \<Longrightarrow> defined_props n \<Longrightarrow> stored H (get_prop k p) \<Longrightarrow>
   stored H (get_prop k n) \<Longrightarrow> J (later fp (get_prop k p)) (later fn (get_prop k n)) (leaf p n s)"
  unfolding leaf_moves_def by blast

lemma fold_moves:
  assumes "\<And>z fp fn s. z \<in> set zs \<Longrightarrow> J fp fn s \<Longrightarrow> J (later fp (a z)) (later fn (b z)) (f z s)" and "J fp fn st"
  shows "J (foldl later fp (map a zs)) (foldl later fn (map b zs)) (fold f zs st)"
  using assms by (induction zs arbitrary: fp fn st) simp_all

lemma foldl_later_undefined: "foldl later a (map (\<lambda>_. JUndefined) zs) = a"
  by (induction zs) simp_all

lemma defined_nil [simp]: "defined_props []"
  by (simp add: defined_props_def)

lemma leaf_props:
  assumes "style_ok H v" and "\<not> is_array v"
  shows "style_get k v = get_prop k (props_of v)" "defined_props (props_of v)" "stored H (get_prop k (props_of v))"
  using assms by (cases v; simp add: stored_get_prop)+

lemma is_array_iff: "is_array v \<longleftrightarrow> (\<exists>a xs. v = JArray a xs)"
  by (cases v) simp_all

lemma falsy_style: "is_falsy v \<Longrightarrow> style_get k v = JUndefined"
  by (cases v) simp_all

lemma nested_not_array:
  "\<not> is_array v \<Longrightarrow> addNestedProperty leaf v st = (if is_falsy v then st else leaf [] (props_of v) st)"
  "\<not> is_array v \<Longrightarrow> clearNestedProperty leaf v st = (if is_falsy v then st else leaf (props_of v) [] st)"
  by (cases v; simp)+

lemma addNested_moves:
  assumes leaf: "leaf_moves H k J leaf" and "style_ok H v" and "J fp fn st"
  shows "J fp (later fn (style_get k v)) (addNestedProperty leaf v st)"
  using assms(2,3)
proof (induction "size v" arbitrary: v fn fp st rule: less_induct)
  case less
  show ?case
  proof (cases "is_array v")
    case True
    then obtain a xs where v: "v = JArray a xs" by (cases v) auto
    have "J (foldl later fp (map (\<lambda>_. JUndefined) xs)) (foldl later fn (map (style_get k) xs)) (fold (addNestedProperty leaf) xs st)"
      by (rule fold_moves) (use less.hyps less.prems size_element_of [of _ xs a] in \<open>auto simp: v\<close>)
    then show ?thesis by (simp add: v foldl_later foldl_later_undefined)
  next
    case False
    then show ?thesis
      using leaf_movesD [OF leaf less.prems(2), of "[]" "props_of v"] leaf_props(1,3) [OF less.prems(1) False, of k] leaf_props(2) [OF less.prems(1) False] falsy_style [of v k] less.prems(2)
      by (simp add: nested_not_array)
  qed
qed

lemma clearNested_moves:
  assumes leaf: "leaf_moves H k J leaf" and "style_ok H v" and "J fp fn st"
  shows "J (later fp (style_get k v)) fn (clearNestedProperty leaf v st)"
  using assms(2,3)
proof (induction "size v" arbitrary: v fn fp st rule: less_induct)
  case less
  show ?case
  proof (cases "is_array v")
    case True
    then obtain a xs where v: "v = JArray a xs" by (cases v) auto
    have "J (foldl later fp (map (style_get k) xs)) (foldl later fn (map (\<lambda>_. JUndefined) xs)) (fold (clearNestedProperty leaf) xs st)"
      by (rule fold_moves) (use less.hyps less.prems size_element_of [of _ xs a] in \<open>auto simp: v\<close>)
    then show ?thesis by (simp add: v foldl_later foldl_later_undefined)
  next
    case False
    then show ?thesis
      using leaf_movesD [OF leaf less.prems(2), of "props_of v" "[]"] leaf_props(1,3) [OF less.prems(1) False, of k] leaf_props(2) [OF less.prems(1) False] falsy_style [of v k] less.prems(2)
      by (simp add: nested_not_array)
  qed
qed

lemma zip_take_both: "zip xs ys = zip (take (length ys) xs) (take (length xs) ys)"
  by (induction xs ys rule: list_induct2') simp_all

lemma diffNested_not_array:
  assumes "\<not> (updatePayload st = None \<and> strict_eq p n)" and "\<not> is_falsy p" and "\<not> is_falsy n" and "\<not> (is_array p \<and> is_array n)"
  shows "diffNestedProperty leaf p n st =
    leaf (if is_array p then flat_props p else props_of p) (if is_array n then flat_props n else props_of n) st"
  using assms by (subst diffNestedProperty.simps) (cases p; cases n; auto)

lemma diffNested_array:
  assumes leaf: "leaf_moves H k J leaf" and "J fp fn st" and "\<forall>x\<in>set xs. style_ok H x" and "\<forall>y\<in>set ys. style_ok H y"
    and step: "\<And>x y fp fn s. (x, y) \<in> set (zip xs ys) \<Longrightarrow> J fp fn s \<Longrightarrow>
      J (later fp (style_get k x)) (later fn (style_get k y)) (nested (x, y) s)"
  shows "J (foldl later fp (map (style_get k) xs)) (foldl later fn (map (style_get k) ys)) (diffNestedArrayProperty nested leaf xs ys st)"
proof -
  let ?m = "length ys" and ?l = "length xs"
  let ?st1 = "fold nested (zip xs ys) st"
  let ?st2 = "fold (clearNestedProperty leaf) (drop ?m xs) ?st1"
  let ?p1 = "foldl later fp (map (style_get k) (take ?m xs))" and ?n1 = "foldl later fn (map (style_get k) (take ?l ys))"
  have t: "foldl later a (map (style_get k) zs) = foldl later (foldl later a (map (style_get k) (take i zs))) (map (style_get k) (drop i zs))"
    for a zs i by (metis append_take_drop_id foldl_append map_append)
  have z: "map (style_get k \<circ> fst) (zip xs ys) = map (style_get k) (take ?m xs)"
    "map (style_get k \<circ> snd) (zip xs ys) = map (style_get k) (take ?l ys)"
    by (subst zip_take_both, simp add: map_map [symmetric])+
  have "J (foldl later fp (map (style_get k \<circ> fst) (zip xs ys))) (foldl later fn (map (style_get k \<circ> snd) (zip xs ys))) ?st1"
    by (rule fold_moves) (use step assms(2) in auto)
  then have 1: "J ?p1 ?n1 ?st1" unfolding z .
  have "J (foldl later ?p1 (map (style_get k) (drop ?m xs))) (foldl later ?n1 (map (\<lambda>_. JUndefined) (drop ?m xs))) ?st2"
    by (rule fold_moves) (use clearNested_moves [OF leaf] assms(3) 1 in \<open>auto dest: in_set_dropD\<close>)
  then have 2: "J (foldl later fp (map (style_get k) xs)) ?n1 ?st2"
    unfolding foldl_later_undefined t [of fp xs ?m, symmetric] .
  have "J (foldl later (foldl later fp (map (style_get k) xs)) (map (\<lambda>_. JUndefined) (drop ?l ys)))
      (foldl later ?n1 (map (style_get k) (drop ?l ys))) (fold (addNestedProperty leaf) (drop ?l ys) ?st2)"
    by (rule fold_moves) (use addNested_moves [OF leaf] assms(4) 2 in \<open>auto dest: in_set_dropD\<close>)
  then show ?thesis
    unfolding foldl_later_undefined t [of fn ys ?l, symmetric] diffNestedArrayProperty_def Let_def .
qed

lemma diffNested_moves:
  assumes leaf: "leaf_moves H k J leaf"
    and skip: "\<And>v w fp fn s. content v = content w \<Longrightarrow> updatePayload s = None \<Longrightarrow> J fp fn s \<Longrightarrow> J (later fp v) (later fn w) s"
    and "style_ok H p" and "style_ok H n" and "J fp fn st"
  shows "J (later fp (style_get k p)) (later fn (style_get k n)) (diffNestedProperty leaf p n st)"
  using assms(3-)
proof (induction "size p" arbitrary: p n fp fn st rule: less_induct)
  case less
  consider (skip) "updatePayload st = None \<and> strict_eq p n"
    | (falsy) "\<not> (updatePayload st = None \<and> strict_eq p n)" "is_falsy p \<or> is_falsy n"
    | (arrays) a xs b ys where "\<not> (updatePayload st = None \<and> strict_eq p n)" "p = JArray a xs" "n = JArray b ys"
    | (leaves) "\<not> (updatePayload st = None \<and> strict_eq p n)" "\<not> is_falsy p" "\<not> is_falsy n" "\<not> (is_array p \<and> is_array n)"
    using is_array_iff [of p] is_array_iff [of n] by blast
  then show ?case
  proof cases
    case skip
    then have "diffNestedProperty leaf p n st = st" by (subst diffNestedProperty.simps) simp
    moreover have "content p = content n" using skip strict_eq_content less.prems(1,2) style_ok_stored by blast
    ultimately show ?thesis using assms(2) [OF style_get_content] skip less.prems(3) by simp
  next
    case falsy
    then show ?thesis
      using addNested_moves [OF leaf less.prems(2,3)] clearNested_moves [OF leaf less.prems(1,3)] less.prems(3)
      by (subst diffNestedProperty.simps) (auto simp: falsy_style)
  next
    case arrays
    have "diffNestedProperty leaf p n st = diffNestedArrayProperty (\<lambda>(x, y) s. diffNestedProperty leaf x y s) leaf xs ys st"
      using arrays by (subst diffNestedProperty.simps) auto
    moreover have "J (foldl later fp (map (style_get k) xs)) (foldl later fn (map (style_get k) ys))
        (diffNestedArrayProperty (\<lambda>(x, y) s. diffNestedProperty leaf x y s) leaf xs ys st)"
    proof (rule diffNested_array [OF leaf less.prems(3)])
      fix x y fp fn s assume xy: "(x, y) \<in> set (zip xs ys)" and J: "J fp fn s"
      have "x \<in> set xs" "y \<in> set ys" using xy by (auto dest: set_zip_leftD set_zip_rightD)
      then show "J (later fp (style_get k x)) (later fn (style_get k y)) ((\<lambda>(x, y) s. diffNestedProperty leaf x y s) (x, y) s)"
        using less.hyps [of x y fp fn s] size_element_of [of x xs a] less.prems(1,2) arrays J by simp
    qed (use less.prems arrays in auto)
    ultimately show ?thesis by (simp add: arrays foldl_later)
  next
    case leaves
    let ?p = "if is_array p then flat_props p else props_of p" and ?n = "if is_array n then flat_props n else props_of n"
    have "style_get k p = get_prop k ?p" "defined_props ?p" "stored H (get_prop k ?p)"
      "style_get k n = get_prop k ?n" "defined_props ?n" "stored H (get_prop k ?n)"
      using leaf_props less.prems(1,2) flattenStyle_get [OF less.prems(1), of k] flattenStyle_get [OF less.prems(2), of k]
        style_get_stored [OF less.prems(1), of k] style_get_stored [OF less.prems(2), of k] by auto
    then show ?thesis using leaf_movesD [OF leaf less.prems(3), of ?p ?n] by (simp only: diffNested_not_array [OF leaves])
  qed
qed

section \<open>What is sent for a key of a nested style\<close>

text \<open>
  With the values \<open>p\<close> and \<open>n\<close> of a key in the leaves compared so far: nothing is sent and they
  agree, or \<open>n\<close> is sent, or the key is flagged as removed.
\<close>

definition key_ok :: "attr_config \<Rightarrow> jsval \<Rightarrow> jsval \<Rightarrow> jsval \<times> bool \<Rightarrow> bool" where
  "key_ok c p n s \<longleftrightarrow>
     (if fst s = JUndefined then \<not> snd s \<and> agrees c p n
      else if snd s then fst s = JNull \<and> p \<noteq> JUndefined
      else n \<noteq> JUndefined \<and> fst s = native_of c n)"

lemma native_of_true: "native_of c (JBool True) = (if is_function v then native_of c v else native_of c (JBool True))"
  by (cases v) (simp_all add: native_of_def)

lemma unchanged_default:
  assumes "flat_config H c" and "\<not> defaultDiffer (fst (normalise p n)) (snd (normalise p n))"
    and "stored H p" and "stored H n" and "n \<noteq> JUndefined"
  shows "agrees c p n"
proof -
  have "\<not> is_function n" using assms(2) by (auto simp: normalise_def defaultDiffer_def)
  then have "normalise p n = (p, n)" using assms(5) by (simp add: normalise_def)
  then show ?thesis using defaultDiffer_content [of p n H] assms agrees_content by simp
qed

lemma unchanged_agrees:
  assumes "flat_config H c" and "stored H p" and "stored H n" and "n \<noteq> JUndefined"
    and "\<not> changes c (fst (normalise p n)) (snd (normalise p n))"
  shows "agrees c p n"
proof -
  let ?p = "fst (normalise p n)" and ?n = "snd (normalise p n)"
  have st: "stored H ?p" "stored H ?n" "?n \<noteq> JUndefined" "native_of c ?n = native_of c n" "native_of c ?p = native_of c p"
    "p = JUndefined \<longleftrightarrow> ?p = JUndefined"
    using assms(2-4) native_of_true [of c n] native_of_true [of c p] by (auto simp: normalise_def split: if_splits)
  have eq: "agrees c p n" if "agrees c ?p ?n" using that st assms(4) by (simp add: agrees_def)
  consider (eq) "strict_eq ?p ?n" | (default) "\<not> defaultDiffer ?p ?n"
    | (custom) f pr where "c = Custom (Some f) pr" "?p \<noteq> JUndefined" "\<not> f ?p ?n"
    using assms(1,5) by (cases c) (auto simp: changes_def shouldUpdate_def split: option.splits)
  then show ?thesis
  proof cases
    case eq
    then show ?thesis using \<open>agrees c ?p ?n \<Longrightarrow> agrees c p n\<close> agrees_content [OF assms(1)] strict_eq_content st by blast
  next
    case default
    then show ?thesis using unchanged_default assms by blast
  next
    case custom
    have "content (native_of c ?p) = content (native_of c ?n)"
      using assms(1) st(1-3) custom(2,3) unfolding custom(1) flat_config.simps by blast
    then show ?thesis using eq custom(2) st(3) by (simp add: agrees_def)
  qed
qed

lemma key_diff_ok:
  assumes "flat_config H c" and "stored H p" and "stored H n" and "key_ok c fp fn s"
  shows "key_ok c (later fp p) (later fn n) (key_diff c p n s)"
proof (cases "n = JUndefined")
  case True
  then show ?thesis using assms(4) by (auto simp: key_ok_def key_diff_def later_def)
next
  case False
  have "p \<noteq> JUndefined" if "agrees c p n" using that False by (simp add: agrees_def)
  then show ?thesis
    using False unchanged_agrees [OF assms(1-3) False] native_of_defined [OF assms(1), of n]
    by (auto simp: key_ok_def key_diff_def later_def)
qed

lemma leaf_moves_key:
  assumes "flat_attrs H va" and "map_of va k = Some c"
  shows "leaf_moves H k (\<lambda>fp fn s. key_ok c fp fn (key_view k s)) (\<lambda>p n s. diffProperties va p n s)"
proof -
  have "flat_config H c" using assms by (simp add: flat_attrs_def)
  then show ?thesis
    unfolding leaf_moves_def using diffProperties_key [OF assms(1)] assms(2) key_diff_ok by simp
qed

lemma leaf_moves_other:
  "flat_attrs H va \<Longrightarrow> map_of va k = None \<Longrightarrow> leaf_moves H k' (\<lambda>_ _ s. key_view k s = x) (\<lambda>p n s. diffProperties va p n s)"
  unfolding leaf_moves_def by (simp add: diffProperties_key)

lemma leaf_moves_count: "flat_attrs H va \<Longrightarrow> leaf_moves H k (\<lambda>_ _ s. count_ok s) (\<lambda>p n s. diffProperties va p n s)"
  unfolding leaf_moves_def by (simp add: count_diffProperties)

section \<open>What is restored\<close>

definition restored :: "attrs \<Rightarrow> string \<Rightarrow> jsval \<Rightarrow> jsval \<times> bool \<Rightarrow> jsval \<times> bool" where
  "restored va k v s =
     (case map_of va k of Some c \<Rightarrow> (if snd s \<and> v \<noteq> JUndefined then (native_of c v, False) else s) | None \<Rightarrow> s)"

lemma restored_simps [simp]:
  "restored va k JUndefined s = s" "restored va k v (restored va k v s) = restored va k v s"
  "restored va k v (restored va k w s) = restored va k (later v w) s" "\<not> snd s \<Longrightarrow> restored va k v s = s"
  by (auto simp: restored_def later_def split: option.split)

lemma sent_view: "sent k st = fst (key_view k st)"
  by (simp add: key_view_def)

lemma removed_view: "removed k st = snd (key_view k st)"
  by (simp add: key_view_def)

lemma restore_key_view:
  assumes "flat_attrs H va"
  shows "key_view k (restore_key va obj k' st) = (if k = k' then restored va k (get_prop k obj) (key_view k st) else key_view k st)"
proof -
  have "map_of va k' \<noteq> Some (NestedAttr w)" for w using assms by (force simp: flat_attrs_def)
  then show ?thesis
    by (auto simp: restore_key_def restored_def Let_def native_of_def key_view_def removed_mark split: option.split attr_config.split)
qed

lemma restore_key_count:
  assumes "flat_attrs H va" and "count_ok st" shows "count_ok (restore_key va obj k st)"
proof (cases "removed k st \<and> get_prop k obj \<noteq> JUndefined \<and> map_of va k \<noteq> None")
  case True
  then have c: "removedKeyCount (restore_key va obj k st) = removedKeyCount st - 1"
    by (auto simp: restore_key_def Let_def mark_def put_def split: option.splits attr_config.splits)
  have "{x. removed x (restore_key va obj k st)} = {x. removed x st} - {k}"
    using True by (auto simp: removed_view restore_key_view [OF assms(1)] restored_def split: if_splits)
  then have "Suc (card {x. removed x (restore_key va obj k st)}) = card {x. removed x st}"
    using True card_Suc_Diff1 [OF finite_removed, of k st] by (metis mem_Collect_eq)
  then show ?thesis using assms(2) c by (simp add: count_ok_def)
next
  case False
  then have "restore_key va obj k st = st" by (auto simp: restore_key_def Let_def)
  then show ?thesis using assms by simp
qed

lemma restore_leaf:
  assumes "flat_attrs H va" and "count_ok st"
  shows "count_ok (fold (restore_key va obj) ks st) \<and> key_view k (fold (restore_key va obj) ks st) =
    (if k \<in> set ks then restored va k (get_prop k obj) (key_view k st) else key_view k st)"
  using assms(2)
proof (induction ks arbitrary: st)
  case (Cons k' ks)
  show ?case
    using Cons.IH [OF restore_key_count [OF assms(1) Cons.prems, of obj k']] by (simp add: restore_key_view [OF assms(1)])
qed simp

lemma removed_in_names: "removed k st \<Longrightarrow> k \<in> set (removed_names st)"
  by (force simp: removed_def removed_names_def split: option.splits dest: map_of_SomeD)

lemma restore_view:
  assumes "flat_attrs H va" and "count_ok st"
  shows "count_ok (restoreDeletedValuesInNestedArray va v st) \<and>
    key_view k (restoreDeletedValuesInNestedArray va v st) = restored va k (style_get k v) (key_view k st)"
  using assms(2)
proof (induction v arbitrary: st)
  case (JArray a xs)
  let ?g = "\<lambda>x s. if removedKeyCount s > 0 then restoreDeletedValuesInNestedArray va x s else s"
  have step: "count_ok (?g x s) \<and> key_view k (?g x s) = restored va k (style_get k x) (key_view k s)"
    if "x \<in> set xs" "count_ok s" for x s
    using JArray.IH [OF that] removed_positive [OF that(2), of k] that(2) by (cases "snd (key_view k s)") (simp_all add: removed_view)
  have "count_ok (foldr ?g xs st) \<and>
      key_view k (foldr ?g xs st) = restored va k (foldl later JUndefined (map (style_get k) xs)) (key_view k st)"
    using step
  proof (induction xs)
    case (Cons x xs)
    let ?s = "foldr ?g xs st" and ?v = "foldl later JUndefined (map (style_get k) xs)"
    have IH: "count_ok ?s" "key_view k ?s = restored va k ?v (key_view k st)" using Cons by simp_all
    have f: "foldl later JUndefined (map (style_get k) (x # xs)) = later (style_get k x) ?v" by (simp add: foldl_later)
    have "count_ok (?g x ?s)" "key_view k (?g x ?s) = restored va k (style_get k x) (key_view k ?s)"
      using Cons.prems [of x ?s] IH(1) by simp_all
    then show ?case unfolding f IH(2) by simp
  qed (use JArray.prems in simp)
  then show ?case by simp
next
  case (JObject a c kvs)
  have "restored va k (get_prop k kvs) (key_view k st) = key_view k st" if "k \<notin> set (removed_names st) \<or> \<not> 0 < removedKeyCount st"
    using that removed_in_names [of k st] removed_positive [OF JObject.prems, of k]
    by (cases "snd (key_view k st)") (auto simp: removed_view)
  then show ?case
    using restore_leaf [OF assms(1) JObject.prems, of kvs "removed_names st" k] JObject.prems by auto
qed (use restore_leaf [OF assms(1), of _ "[]" _ k] in \<open>simp_all\<close>)

section \<open>The attributes of a view\<close>

text \<open>The entry \<open>s\<close> of the properties decides the native attribute \<open>k\<close>.\<close>

definition owns :: "attrs \<Rightarrow> string \<Rightarrow> string \<Rightarrow> bool" where
  "owns va s k \<longleftrightarrow> (case map_of va s of Some (NestedAttr w) \<Rightarrow> map_of w k \<noteq> None | Some _ \<Rightarrow> s = k | None \<Rightarrow> False)"

definition owned_config :: "attrs \<Rightarrow> string \<Rightarrow> string \<Rightarrow> attr_config" where
  "owned_config va s k = (case map_of va s of Some (NestedAttr w) \<Rightarrow> the (map_of w k) | Some c \<Rightarrow> c | None \<Rightarrow> Attr)"

definition owned_value :: "attrs \<Rightarrow> string \<Rightarrow> string \<Rightarrow> props \<Rightarrow> jsval" where
  "owned_value va s k props =
     (case map_of va s of Some (NestedAttr w) \<Rightarrow> get_prop k (flat_props (get_prop s props)) | _ \<Rightarrow> get_prop s props)"

text \<open>The attributes of a view that shows the properties: styles are flattened, missing values are \<open>null\<close>.\<close>

definition native_view :: "attrs \<Rightarrow> props \<Rightarrow> string \<Rightarrow> jsval" where
  "native_view va props k =
     (case List.find (\<lambda>s. owns va s k) (map fst va) of
        None \<Rightarrow> JNull
      | Some s \<Rightarrow> native_of (owned_config va s k) (owned_value va s k props))"

text \<open>What native does with a payload; an \<open>undefined\<close> is not sent.\<close>

definition apply_payload :: "props option \<Rightarrow> (string \<Rightarrow> jsval) \<Rightarrow> string \<Rightarrow> jsval" where
  "apply_payload payload view k =
     (let v = (case payload of None \<Rightarrow> JUndefined | Some p \<Rightarrow> get_prop k p) in if v = JUndefined then view k else v)"

text \<open>No two entries decide the same attribute, and the key of a nested entry is no attribute.\<close>

definition wf_attrs :: "(nat \<Rightarrow> native_content) \<Rightarrow> attrs \<Rightarrow> bool" where
  "wf_attrs H va \<longleftrightarrow>
     (\<forall>s c. map_of va s = Some c \<longrightarrow> (case c of NestedAttr w \<Rightarrow> flat_attrs H w \<and> (\<forall>s'. \<not> owns va s' s) | _ \<Rightarrow> flat_config H c)) \<and>
     (\<forall>s s' k. owns va s k \<longrightarrow> owns va s' k \<longrightarrow> s = s')"

text \<open>Properties that are not mutated, with no \<open>undefined\<close> among them or in a nested style.\<close>

definition props_ok :: "(nat \<Rightarrow> native_content) \<Rightarrow> attrs \<Rightarrow> props \<Rightarrow> bool" where
  "props_ok H va props \<longleftrightarrow> defined_props props \<and> (\<forall>kv\<in>set props. stored H (snd kv)) \<and>
     (\<forall>s w. map_of va s = Some (NestedAttr w) \<longrightarrow> style_ok H (get_prop s props))"

lemma wf_attrsD:
  "wf_attrs H va \<Longrightarrow> map_of va s = Some c \<Longrightarrow>
   case c of NestedAttr w \<Rightarrow> flat_attrs H w \<and> (\<forall>s'. \<not> owns va s' s) | _ \<Rightarrow> flat_config H c"
  unfolding wf_attrs_def by blast

text \<open>What may be sent for an attribute: its new value, or nothing if the value has not changed.\<close>

definition sent_ok :: "attr_config \<Rightarrow> jsval \<Rightarrow> jsval \<Rightarrow> jsval \<Rightarrow> bool" where
  "sent_ok c p n v \<longleftrightarrow>
     v = native_of c n \<and> (p \<noteq> JUndefined \<or> n \<noteq> JUndefined) \<or> v = JUndefined \<and> agrees c p n"

lemma sent_cong: "updatePayload st = updatePayload st' \<Longrightarrow> sent k st = sent k st'"
  by (simp add: sent_def)

lemma sent_removed [simp]: "sent k (st\<lparr>removedKeys := r\<rparr>) = sent k st" "sent k (st\<lparr>removedKeys := r, removedKeyCount := i\<rparr>) = sent k st"
  by (rule sent_cong, simp)+

lemma count_start [simp]: "count_ok (st\<lparr>removedKeys := None, removedKeyCount := 0\<rparr>)"
  by (simp add: count_ok_def removed_def)

lemma leaf_moves_sent:
  "flat_attrs H w \<Longrightarrow> map_of w k = None \<Longrightarrow> leaf_moves H k' (\<lambda>_ _ s. sent k s = x) (\<lambda>p n s. diffProperties w p n s)"
  unfolding leaf_moves_def using diffProperties_key [of H w _ _ k] by (simp add: key_view_def)

text \<open>The comparison of a nested style and the restoring after it.\<close>

definition diff_nested :: "attrs \<Rightarrow> jsval \<Rightarrow> jsval \<Rightarrow> diff_state \<Rightarrow> diff_state" where
  "diff_nested w p n st =
     (let st2 = diffNestedProperty (\<lambda>p n s. diffProperties w p n s) p n (st\<lparr>removedKeys := None, removedKeyCount := 0\<rparr>)
      in if removedKeyCount st2 > 0 \<and> updatePayload st2 \<noteq> None
         then (restoreDeletedValuesInNestedArray w n st2)\<lparr>removedKeys := None\<rparr> else st2)"

lemma diff_nested_count:
  assumes "flat_attrs H w" and "style_ok H p" and "style_ok H n"
  shows "count_ok (diffNestedProperty (\<lambda>p n s. diffProperties w p n s) p n (st\<lparr>removedKeys := None, removedKeyCount := 0\<rparr>))"
  by (rule diffNested_moves [where J = "\<lambda>_ _ s. count_ok s", OF leaf_moves_count [OF assms(1)] _ assms(2,3)]) simp_all

lemma diff_nested_other:
  assumes "flat_attrs H w" and "style_ok H p" and "style_ok H n" and "map_of w k = None"
  shows "sent k (diff_nested w p n st) = sent k st"
proof -
  let ?st2 = "diffNestedProperty (\<lambda>p n s. diffProperties w p n s) p n (st\<lparr>removedKeys := None, removedKeyCount := 0\<rparr>)"
  have "sent k ?st2 = sent k st"
    by (rule diffNested_moves [where J = "\<lambda>_ _ s. sent k s = sent k st", OF leaf_moves_sent [OF assms(1,4)] _ assms(2,3)]) simp_all
  moreover have "sent k (restoreDeletedValuesInNestedArray w n ?st2) = sent k ?st2"
    using restore_view [OF assms(1) diff_nested_count [OF assms(1-3), of st], of n k] assms(4) by (simp add: key_view_def restored_def)
  ultimately show ?thesis by (simp add: diff_nested_def Let_def)
qed

lemma diff_nested_key:
  assumes "flat_attrs H w" and "style_ok H p" and "style_ok H n" and "map_of w k = Some c" and "sent k st = JUndefined"
  shows "sent_ok c (style_get k p) (style_get k n) (sent k (diff_nested w p n st))"
proof -
  let ?st = "st\<lparr>removedKeys := None, removedKeyCount := 0\<rparr>"
  let ?st2 = "diffNestedProperty (\<lambda>p n s. diffProperties w p n s) p n ?st"
  have fc: "flat_config H c" using assms(1,4) by (simp add: flat_attrs_def)
  have "key_ok c (later JUndefined (style_get k p)) (later JUndefined (style_get k n)) (key_view k ?st2)"
  proof (rule diffNested_moves [where J = "\<lambda>fp fn s. key_ok c fp fn (key_view k s)", OF leaf_moves_key [OF assms(1,4)] _ assms(2,3)])
    show "key_ok c (later fp v) (later fn w) (key_view k s)"
      if "content v = content w" "updatePayload s = None" "key_ok c fp fn (key_view k s)" for v w fp fn s
      using that content_undefined [OF that(1)] agrees_content [OF fc that(1)] by (auto simp: key_ok_def key_view_def sent_def later_def)
    show "key_ok c JUndefined JUndefined (key_view k ?st)"
      using assms(5) by (simp add: key_ok_def key_view_def removed_def agrees_def)
  qed
  then have ok: "key_ok c (style_get k p) (style_get k n) (key_view k ?st2)" by simp
  have cnt: "count_ok ?st2" by (rule diff_nested_count [OF assms(1-3)])
  have rv: "key_view k (restoreDeletedValuesInNestedArray w n ?st2) = restored w k (style_get k n) (key_view k ?st2)"
    using restore_view [OF assms(1) cnt] by simp
  have pl: "sent k ?st2 \<noteq> JUndefined \<Longrightarrow> updatePayload ?st2 \<noteq> None" by (auto simp: sent_def split: option.splits)
  have sr: "sent k (restoreDeletedValuesInNestedArray w n ?st2) = fst (restored w k (style_get k n) (key_view k ?st2))"
    by (subst sent_view) (simp only: rv)
  have "sent k (diff_nested w p n st) = fst (restored w k (style_get k n) (key_view k ?st2))"
  proof (cases "removed k ?st2")
    case True
    then have "sent k ?st2 \<noteq> JUndefined" using ok by (simp add: key_ok_def key_view_def split: if_splits)
    then have "diff_nested w p n st = (restoreDeletedValuesInNestedArray w n ?st2)\<lparr>removedKeys := None\<rparr>"
      using pl removed_positive [OF cnt True] by (simp add: diff_nested_def Let_def)
    then show ?thesis using sr by simp
  next
    case False
    then have "fst (restored w k (style_get k n) (key_view k ?st2)) = sent k ?st2" by (simp add: key_view_def)
    then show ?thesis using sr by (simp add: diff_nested_def Let_def)
  qed
  then show ?thesis using ok assms(4)
    by (auto simp: sent_ok_def key_ok_def key_view_def restored_def native_of_def split: if_splits)
qed

section \<open>The payload of all properties\<close>

lemma fold_key_cases:
  assumes "distinct (map fst kvs)" and "\<And>kv st. kv \<in> set kvs \<Longrightarrow> fst kv \<noteq> k \<Longrightarrow> A st \<Longrightarrow> A (f kv st)"
    and "\<And>v st. (k, v) \<in> set kvs \<Longrightarrow> A st \<Longrightarrow> B v (f (k, v) st)"
    and "\<And>kv v st. kv \<in> set kvs \<Longrightarrow> fst kv \<noteq> k \<Longrightarrow> B v st \<Longrightarrow> B v (f kv st)" and "A st"
  shows "case map_of kvs k of None \<Rightarrow> A (fold f kvs st) | Some v \<Rightarrow> B v (fold f kvs st)"
  using assms
proof (induction kvs arbitrary: st)
  case (Cons kv kvs)
  show ?case
  proof (cases "fst kv = k")
    case True
    then obtain v where kv: "kv = (k, v)" by (cases kv) auto
    have "B v (fold f kvs (f kv st))"
      by (rule fold_keeps [where I = "B v"]) (use Cons.prems kv in \<open>force+\<close>)
    then show ?thesis using kv by simp
  next
    case False
    then have "map_of (kv # kvs) k = map_of kvs k" by (cases kv) auto
    moreover have "case map_of kvs k of None \<Rightarrow> A (fold f kvs (f kv st)) | Some v \<Rightarrow> B v (fold f kvs (f kv st))"
      by (rule Cons.IH) (use Cons.prems False in auto)
    ultimately show ?thesis by (simp only: fold_simps)
  qed
qed simp

lemma style_normalise:
  assumes "style_ok H p" and "style_ok H n" and "n \<noteq> JUndefined"
  shows "style_ok H (fst (normalise p n))" "style_ok H (snd (normalise p n))"
    "style_get k (fst (normalise p n)) = style_get k p" "style_get k (snd (normalise p n)) = style_get k n"
  using assms by (cases p; cases n; simp add: normalise_def)+

lemma diff_next_nested:
  assumes "map_of va s = Some (NestedAttr w)"
  shows "diff_next (\<lambda>va' p n s. diffNestedProperty (\<lambda>p n s. diffProperties va' p n s) p n s) va prev (s, v) st =
    (let st1 = mark s False st; p = fst (normalise (get_prop s prev) v); n = snd (normalise (get_prop s prev) v)
     in if sent s st1 \<noteq> JUndefined \<or> strict_eq p n then st1 else diff_nested w p n st1)"
  using assms by (auto simp: diff_next_def diff_nested_def Let_def split: prod.split)

lemma step_other:
  assumes "wf_attrs H va" and "props_ok H va prev" and "v \<noteq> JUndefined" and "stored H v"
    and "\<And>w. map_of va s = Some (NestedAttr w) \<Longrightarrow> style_ok H v" and "\<not> owns va s k"
  shows "sent k (diff_next (\<lambda>va' p n s. diffNestedProperty (\<lambda>p n s. diffProperties va' p n s) p n s) va prev (s, v) st) = sent k st"
    and "sent k (diff_prev (\<lambda>va' p s. clearNestedProperty (\<lambda>p n s. diffProperties va' p n s) p s) va nxt (s, v) st) = sent k st"
proof -
  show "sent k (diff_next (\<lambda>va' p n s. diffNestedProperty (\<lambda>p n s. diffProperties va' p n s) p n s) va prev (s, v) st) = sent k st"
  proof (cases "\<exists>w. map_of va s = Some (NestedAttr w)")
    case True
    then obtain w where w: "map_of va s = Some (NestedAttr w)" by blast
    then have fw: "flat_attrs H w" using assms(1) by (force simp: wf_attrs_def)
    have "style_ok H (get_prop s prev)" using assms(2) w by (simp add: props_ok_def)
    note n = style_normalise [OF this assms(5) [OF w] assms(3)]
    have "map_of w k = None" using assms(6) w by (simp add: owns_def)
    then show ?thesis unfolding diff_next_nested [OF w] using diff_nested_other [OF fw n(1,2), of k] by (simp add: Let_def)
  next
    case False
    then have "s = k \<Longrightarrow> map_of va s = None" using assms(6) by (auto simp: owns_def split: option.splits attr_config.splits)
    then show ?thesis using False
      by (auto simp: diff_next_def Let_def split: option.split prod.split attr_config.split)
  qed
  show "sent k (diff_prev (\<lambda>va' p s. clearNestedProperty (\<lambda>p n s. diffProperties va' p n s) p s) va nxt (s, v) st) = sent k st"
  proof (cases "\<exists>w. map_of va s = Some (NestedAttr w)")
    case True
    then obtain w where w: "map_of va s = Some (NestedAttr w)" by blast
    then have fw: "flat_attrs H w" using assms(1) by (force simp: wf_attrs_def)
    have k: "map_of w k = None" using assms(6) w by (simp add: owns_def)
    have "sent k (clearNestedProperty (\<lambda>p n s. diffProperties w p n s) v st) = sent k st"
      by (rule clearNested_moves [where J = "\<lambda>_ _ s. sent k s = sent k st", OF leaf_moves_sent [OF fw k] assms(5) [OF w]]) simp_all
    then show ?thesis using w by (simp add: diff_prev_def)
  next
    case False
    then have "s = k \<Longrightarrow> map_of va s = None" using assms(6) by (auto simp: owns_def split: option.splits attr_config.splits)
    moreover have "sent k (flag_removed s st) = sent k st" if "s \<noteq> k"
      using key_view_flag_removed [of k s st] that by (simp add: key_view_def)
    ultimately show ?thesis using False by (cases "s = k") (auto simp: diff_prev_def split: option.split attr_config.split)
  qed
qed

lemma clear_nested_key:
  assumes "flat_attrs H w" and "map_of w k = Some c" and "style_ok H v" and "sent k st = JUndefined"
  shows "sent_ok c (style_get k v) JUndefined (sent k (clearNestedProperty (\<lambda>p n s. diffProperties w p n s) v st))"
proof -
  let ?J = "\<lambda>fp fn s. fn = JUndefined \<longrightarrow> sent k s = (if fp = JUndefined then JUndefined else JNull)"
  have "leaf_moves H k ?J (\<lambda>p n s. diffProperties w p n s)"
    unfolding leaf_moves_def
  proof (intro allI impI)
    fix p n fp fn s
    assume a: "defined_props p" "defined_props n" "?J fp fn s" "later fn (get_prop k n) = JUndefined"
    have "fn = JUndefined" "get_prop k n = JUndefined" using a(4) by (auto simp: later_def split: if_splits)
    then show "sent k (diffProperties w p n s) = (if later fp (get_prop k p) = JUndefined then JUndefined else JNull)"
      using diffProperties_key [OF assms(1) a(1,2), of k s] assms(2) a(3)
      by (auto simp: key_view_def key_diff_def later_def split: if_splits)
  qed
  from clearNested_moves [where J = ?J and fp = JUndefined and fn = JUndefined and st = st, OF this assms(3)] assms(4)
  show ?thesis by (auto simp: sent_ok_def native_of_def agrees_def)
qed

text \<open>The entry that decides an attribute: what is sent for the attribute after each of the two loops.\<close>

lemma own_step:
  assumes "wf_attrs H va" and "props_ok H va prev" and "owns va s k" and "v \<noteq> JUndefined" and "stored H v"
    and "\<And>w. map_of va s = Some (NestedAttr w) \<Longrightarrow> style_ok H v" and "sent k st = JUndefined" and "sent s st = JUndefined"
  shows "sent_ok (owned_config va s k) (owned_value va s k prev) (owned_value va s k [(s, v)])
      (sent k (diff_next (\<lambda>va' p n s. diffNestedProperty (\<lambda>p n s. diffProperties va' p n s) p n s) va prev (s, v) st))"
    and "get_prop s nxt = JUndefined \<Longrightarrow> sent_ok (owned_config va s k) (owned_value va s k [(s, v)]) JUndefined
      (sent k (diff_prev (\<lambda>va' p s. clearNestedProperty (\<lambda>p n s. diffProperties va' p n s) p s) va nxt (s, v) st))"
proof -
  let ?N = "diff_next (\<lambda>va' p n s. diffNestedProperty (\<lambda>p n s. diffProperties va' p n s) p n s) va prev (s, v) st"
  let ?P = "diff_prev (\<lambda>va' p s. clearNestedProperty (\<lambda>p n s. diffProperties va' p n s) p s) va nxt (s, v) st"
  have "sent_ok (owned_config va s k) (owned_value va s k prev) (owned_value va s k [(s, v)]) (sent k ?N) \<and>
    (get_prop s nxt = JUndefined \<longrightarrow> sent_ok (owned_config va s k) (owned_value va s k [(s, v)]) JUndefined (sent k ?P))"
  proof (cases "\<exists>w. map_of va s = Some (NestedAttr w)")
    case True
    then obtain w where w: "map_of va s = Some (NestedAttr w)" by blast
    then obtain c where c: "map_of w k = Some c" using assms(3) by (auto simp: owns_def)
    have fw: "flat_attrs H w" using assms(1) w by (force simp: wf_attrs_def)
    then have fc: "flat_config H c" using c by (simp add: flat_attrs_def)
    have sp: "style_ok H (get_prop s prev)" using assms(2) w by (simp add: props_ok_def)
    have sv: "style_ok H v" by (rule assms(6) [OF w])
    have ow: "owned_config va s k = c" "owned_value va s k prev = style_get k (get_prop s prev)" "owned_value va s k [(s, v)] = style_get k v"
      using w c flattenStyle_get [OF sp, of k] flattenStyle_get [OF sv, of k] by (simp_all add: owned_config_def owned_value_def)
    note n = style_normalise [OF sp sv assms(4)]
    have "sent_ok c (style_get k (get_prop s prev)) (style_get k v) (sent k ?N)"
    proof (cases "strict_eq (fst (normalise (get_prop s prev) v)) (snd (normalise (get_prop s prev) v))")
      case True
      then have "agrees c (style_get k (get_prop s prev)) (style_get k v)"
        using agrees_content [OF fc style_get_content [OF strict_eq_content [OF True style_ok_stored [OF n(1)] style_ok_stored [OF n(2)]]], of k]
        by (simp only: n(3,4))
      then show ?thesis unfolding diff_next_nested [OF w] using True assms(7) by (simp add: sent_ok_def Let_def)
    next
      case False
      then show ?thesis unfolding diff_next_nested [OF w]
        using diff_nested_key [OF fw n(1,2) c, of "mark s False st"] n(3,4) assms(7,8) by (simp add: Let_def)
    qed
    moreover have "sent_ok c (style_get k v) JUndefined (sent k ?P)" if "get_prop s nxt = JUndefined"
      using clear_nested_key [OF fw c sv assms(7)] w that assms(4,8) by (simp add: diff_prev_def)
    ultimately show ?thesis by (simp add: ow)
  next
    case False
    then obtain c where c: "map_of va s = Some c" and k: "s = k" and nn: "\<And>w. c \<noteq> NestedAttr w"
      using assms(3) by (auto simp: owns_def split: option.splits attr_config.splits)
    have fc: "flat_config H c" using wf_attrsD [OF assms(1) c] nn by (auto simp del: flat_config.simps split: attr_config.splits)
    have ow: "owned_config va s k = c" "owned_value va s k prev = get_prop k prev" "owned_value va s k [(s, v)] = v"
      using c k nn by (cases c; simp add: owned_config_def owned_value_def)+
    have st: "stored H (get_prop k prev)" using assms(2) by (simp add: props_ok_def stored_get_prop)
    have "sent_ok c (get_prop k prev) v (sent k ?N)"
      using diff_next_key [OF c [unfolded k] fc assms(4)] unchanged_agrees [OF fc st assms(5,4)] assms(4,7) k
      by (auto simp: sent_view key_diff_def sent_ok_def)
    moreover have "sent_ok c v JUndefined (sent k ?P)" if "get_prop s nxt = JUndefined"
      using c nn k that assms(4,8) key_view_flag_removed [of k k st]
      by (cases c) (auto simp: diff_prev_def sent_ok_def native_of_def sent_view)
    ultimately show ?thesis by (simp add: ow)
  qed
  then show "sent_ok (owned_config va s k) (owned_value va s k prev) (owned_value va s k [(s, v)]) (sent k ?N)"
    "get_prop s nxt = JUndefined \<Longrightarrow> sent_ok (owned_config va s k) (owned_value va s k [(s, v)]) JUndefined (sent k ?P)" by blast+
qed

lemma entry_facts:
  assumes "props_ok H va props" and "(s, v) \<in> set props"
  shows "v \<noteq> JUndefined" "stored H v" "get_prop s props = v" "map_of va s = Some (NestedAttr w) \<Longrightarrow> style_ok H v"
  using assms get_prop_mem [of props "(s, v)"] by (auto simp: props_ok_def defined_props_def)

lemma diff_sent:
  assumes wf: "wf_attrs H va" and prev: "props_ok H va prev" and nxt: "props_ok H va nxt" and own: "owns va s k"
  shows "sent_ok (owned_config va s k) (owned_value va s k prev) (owned_value va s k nxt) (sent k (diff prev nxt va st))"
proof -
  let ?N = "\<lambda>kv s. diff_next (\<lambda>va' p n s. diffNestedProperty (\<lambda>p n s. diffProperties va' p n s) p n s) va prev kv s"
  let ?P = "\<lambda>kv s. diff_prev (\<lambda>va' p s. clearNestedProperty (\<lambda>p n s. diffProperties va' p n s) p s) va nxt kv s"
  let ?A = "\<lambda>st. sent k st = JUndefined \<and> sent s st = JUndefined"
  let ?ok = "sent_ok (owned_config va s k)"
  have kv: "s' \<noteq> s \<Longrightarrow> \<not> owns va s' k" for s' using wf own by (auto simp: wf_attrs_def)
  have sk: "\<not> owns va s' s \<or> s = k" for s'
  proof -
    obtain c where c: "map_of va s = Some c" using own by (auto simp: owns_def split: option.splits)
    show ?thesis using wf_attrsD [OF wf c] own c by (cases c) (auto simp: owns_def [of va s k])
  qed
  have own_val: "owned_value va s k props = owned_value va s k [(s, get_prop s props)]" for props
    by (simp add: owned_value_def split: option.split attr_config.split)
  have other_N: "sent k (?N kv st) = sent k st" "sent s (?N kv st) = sent s st" if "kv \<in> set nxt" "fst kv \<noteq> s" for kv st
  proof -
    note e = entry_facts [OF nxt, of "fst kv" "snd kv"]
    have o: "\<not> owns va (fst kv) k" using kv that(2) by blast
    then have o': "\<not> owns va (fst kv) s" using sk by metis
    show "sent k (?N kv st) = sent k st"
      using step_other(1) [OF wf prev e(1,2) _ o] e(4) that(1) by simp
    show "sent s (?N kv st) = sent s st"
      using step_other(1) [OF wf prev e(1,2) _ o'] e(4) that(1) by simp
  qed
  have other_P: "sent k (?P kv st) = sent k st" "sent s (?P kv st) = sent s st" if "kv \<in> set prev" "fst kv \<noteq> s" for kv st
  proof -
    note e = entry_facts [OF prev, of "fst kv" "snd kv"]
    have o: "\<not> owns va (fst kv) k" using kv that(2) by blast
    then have o': "\<not> owns va (fst kv) s" using sk by metis
    show "sent k (?P kv st) = sent k st"
      using step_other(2) [OF wf prev e(1,2) _ o] e(4) that(1) by simp
    show "sent s (?P kv st) = sent s st"
      using step_other(2) [OF wf prev e(1,2) _ o'] e(4) that(1) by simp
  qed
  let ?st0 = "st\<lparr>updatePayload := None\<rparr>"
  have A0: "?A ?st0" by (simp add: sent_def)
  have N: "case map_of nxt s of None \<Rightarrow> ?A (fold ?N nxt ?st0)
      | Some v \<Rightarrow> ?ok (owned_value va s k prev) (owned_value va s k [(s, v)]) (sent k (fold ?N nxt ?st0))"
  proof (rule fold_key_cases [where A = ?A and B = "\<lambda>v st. ?ok (owned_value va s k prev) (owned_value va s k [(s, v)]) (sent k st)"])
    show "distinct (map fst nxt)" using nxt by (simp add: props_ok_def defined_props_def)
    show "?ok (owned_value va s k prev) (owned_value va s k [(s, v)]) (sent k (?N (s, v) st))"
      if "(s, v) \<in> set nxt" "?A st" for v st
      using own_step(1) [OF wf prev own entry_facts(1,2,4) [OF nxt that(1)]] that(2) by simp
  qed (use other_N A0 in auto)
  have P: "case map_of prev s of None \<Rightarrow> ?A (fold ?P prev st)
      | Some v \<Rightarrow> ?ok (owned_value va s k [(s, v)]) JUndefined (sent k (fold ?P prev st))" if "?A st" "get_prop s nxt = JUndefined" for st
  proof (rule fold_key_cases [where A = ?A and B = "\<lambda>v st. ?ok (owned_value va s k [(s, v)]) JUndefined (sent k st)"])
    show "distinct (map fst prev)" using prev by (simp add: props_ok_def defined_props_def)
    show "?ok (owned_value va s k [(s, v)]) JUndefined (sent k (?P (s, v) st))" if "(s, v) \<in> set prev" "?A st" for v st
      using own_step(2) [OF wf prev own entry_facts(1,2,4) [OF prev that(1)]] that(2) \<open>get_prop s nxt = JUndefined\<close> by simp
  qed (use other_P that(1) in auto)
  have keep: "sent k (fold ?P prev st) = sent k st" if "get_prop s nxt \<noteq> JUndefined" for st
  proof (rule fold_keeps [where I = "\<lambda>s'. sent k s' = sent k st"])
    show "sent k (?P kv s') = sent k st" if "kv \<in> set prev" "sent k s' = sent k st" for kv s'
      using that other_P(1) [OF that(1)] \<open>get_prop s nxt \<noteq> JUndefined\<close> by (cases "fst kv = s") (auto simp: diff_prev_def)
  qed simp
  have u: "owned_value va s k props = JUndefined" if "get_prop s props = JUndefined" for props
    using that by (simp add: owned_value_def flat_props_def split: option.split attr_config.split)
  have "diff prev nxt va st = fold ?P prev (fold ?N nxt ?st0)"
    by (simp add: diff_def diffProperties.simps [of va])
  moreover have "map_of nxt s = (if get_prop s nxt = JUndefined then None else Some (get_prop s nxt))"
    "map_of prev s = (if get_prop s prev = JUndefined then None else Some (get_prop s prev))"
    using prev nxt map_of_defined by (auto simp: props_ok_def)
  ultimately show ?thesis
    using N P [of "fold ?N nxt ?st0"] keep u [of nxt] u [of prev] own_val [of prev] own_val [of nxt]
    by (auto simp: sent_ok_def agrees_def split: if_splits)
qed

lemma owner_find:
  "List.find (\<lambda>s. owns va s k) (map fst va) = Some s \<Longrightarrow> owns va s k"
  "List.find (\<lambda>s. owns va s k) (map fst va) = None \<Longrightarrow> \<not> owns va s k"
proof -
  show "List.find (\<lambda>s. owns va s k) (map fst va) = Some s \<Longrightarrow> owns va s k" by (auto simp: find_Some_iff)
  have "owns va s k \<Longrightarrow> s \<in> set (map fst va)"
    by (force simp: owns_def split: option.splits dest: map_of_SomeD)
  then show "List.find (\<lambda>s. owns va s k) (map fst va) = None \<Longrightarrow> \<not> owns va s k" by (auto simp: find_None_iff)
qed

lemma owned_flat: "wf_attrs H va \<Longrightarrow> owns va s k \<Longrightarrow> flat_config H (owned_config va s k)"
proof -
  assume wf: "wf_attrs H va" and own: "owns va s k"
  then obtain c where c: "map_of va s = Some c" by (auto simp: owns_def split: option.splits)
  show "flat_config H (owned_config va s k)" using wf_attrsD [OF wf c] own c
    by (auto simp: owned_config_def owns_def flat_attrs_def simp del: flat_config.simps split: attr_config.splits)
qed

lemma diff_sends_nothing_else:
  assumes "wf_attrs H va" and "props_ok H va prev" and "props_ok H va nxt" and "\<And>s. \<not> owns va s k"
  shows "sent k (diff prev nxt va st) = JUndefined"
proof -
  let ?N = "\<lambda>kv s. diff_next (\<lambda>va' p n s. diffNestedProperty (\<lambda>p n s. diffProperties va' p n s) p n s) va prev kv s"
  let ?P = "\<lambda>kv s. diff_prev (\<lambda>va' p s. clearNestedProperty (\<lambda>p n s. diffProperties va' p n s) p s) va nxt kv s"
  have N: "sent k (?N kv st) = sent k st" if "kv \<in> set nxt" for kv st
    using step_other(1) [OF assms(1,2) entry_facts(1,2) [OF assms(3)] _ assms(4)] entry_facts(4) [OF assms(3)] that
    by (cases kv) simp
  have P: "sent k (?P kv st) = sent k st" if "kv \<in> set prev" for kv st
    using step_other(2) [OF assms(1,2) entry_facts(1,2) [OF assms(2)] _ assms(4)] entry_facts(4) [OF assms(2)] that
    by (cases kv) simp
  show ?thesis unfolding diff_def diffProperties.simps [of va]
    by (rule fold_keeps [where I = "\<lambda>s. sent k s = JUndefined"], simp add: P,
        rule fold_keeps [where I = "\<lambda>s. sent k s = JUndefined"], simp add: N) (simp add: sent_def)
qed

lemma apply_sent: "apply_payload (updatePayload st) view k = (if sent k st = JUndefined then view k else sent k st)"
  by (simp add: apply_payload_def sent_def Let_def)

lemma diff_view:
  assumes "wf_attrs H va" and "props_ok H va prev" and "props_ok H va nxt" and "content (view k) = content (native_view va prev k)"
  shows "content (apply_payload (updatePayload (diff prev nxt va st)) view k) = content (native_view va nxt k)"
proof (cases "List.find (\<lambda>s. owns va s k) (map fst va)")
  case None
  then have "\<And>s. \<not> owns va s k" using owner_find(2) by blast
  then show ?thesis using diff_sends_nothing_else [OF assms(1-3)] assms(4) None by (simp add: apply_sent native_view_def)
next
  case (Some s)
  then have own: "owns va s k" by (rule owner_find(1))
  have "native_of (owned_config va s k) (owned_value va s k nxt) \<noteq> JUndefined"
    by (rule native_of_defined [OF owned_flat [OF assms(1) own]])
  then show ?thesis using diff_sent [OF assms(1-3) own, of st] assms(4) Some
    by (auto simp: apply_sent native_view_def sent_ok_def agrees_def)
qed

section \<open>Native shows the properties that were rendered\<close>

text \<open>A view is created with the first properties and updated with the payload of every later render.\<close>

definition mounted :: "attrs \<Rightarrow> props \<Rightarrow> diff_state \<Rightarrow> diff_state \<times> (string \<Rightarrow> jsval)" where
  "mounted va props st = (let st1 = create props va st in (st1, apply_payload (updatePayload st1) (\<lambda>_. JNull)))"

fun rendered :: "attrs \<Rightarrow> props \<Rightarrow> props list \<Rightarrow> diff_state \<times> (string \<Rightarrow> jsval) \<Rightarrow> diff_state \<times> (string \<Rightarrow> jsval)" where
  "rendered va prev [] sv = sv"
| "rendered va prev (nxt # rest) sv =
     (let st1 = diff prev nxt va (fst sv) in rendered va nxt rest (st1, apply_payload (updatePayload st1) (snd sv)))"

lemma props_ok_nil: "props_ok H va []"
  by (simp add: props_ok_def)

lemma native_view_nil: "native_view va [] k = JNull"
  by (auto simp: native_view_def owned_value_def flat_props_def native_of_def split: option.split attr_config.split)

lemma rendered_view:
  assumes "wf_attrs H va" and "\<forall>ps\<in>set (prev # rest). props_ok H va ps"
    and "\<And>k. content (snd sv k) = content (native_view va prev k)"
  shows "content (snd (rendered va prev rest sv) k) = content (native_view va (last (prev # rest)) k)"
  using assms(2,3)
proof (induction rest arbitrary: prev sv)
  case (Cons nxt rest)
  let ?st = "diff prev nxt va (fst sv)"
  have "content (snd (rendered va nxt rest (?st, apply_payload (updatePayload ?st) (snd sv))) k) =
      content (native_view va (last (nxt # rest)) k)"
    by (rule Cons.IH) (use Cons.prems diff_view [OF assms(1)] in simp_all)
  then show ?case by (simp add: Let_def)
qed simp


section \<open>Where the hypotheses matter\<close>

text \<open>
  An explicit \<open>undefined\<close> overrides the values before it when a style is sent for the first time, but
  not when a later value of the key is removed: the value before it is restored.
\<close>

definition start_state :: diff_state where
  "start_state = \<lparr>updatePayload = None, removedKeys = None, removedKeyCount = 0\<rparr>"

definition top_style :: "nat \<Rightarrow> jsval \<Rightarrow> jsval" where
  "top_style a v = JObject a ''Object'' [(''top'', v)]"

lemma explicit_undefined_is_lost:
  "let va = [(''style'', NestedAttr [(''top'', Attr)])]; x = JNumber (Finite 1); y = JNumber (Finite 2);
       prev = [(''style'', JArray 1 [top_style 2 x, JObject 3 ''Object'' [], top_style 4 y])];
       nxt = [(''style'', JArray 5 [top_style 2 x, top_style 6 JUndefined, JObject 7 ''Object'' []])]
   in updatePayload (create nxt va start_state) = Some [(''top'', JNull)] \<and>
      updatePayload (diff prev nxt va start_state) = Some [(''top'', x)]"
  by (simp add: Let_def create_def diff_def addProperties_def diffProperties.simps diff_next_def diff_prev_def normalise_def
      diffNestedProperty.simps diffNestedArrayProperty_def start_state_def top_style_def mark_def sent_def put_def defaultDiffer_def
      flag_removed_def removed_def restore_key_def removed_names_def)

text \<open>
  A value that is processed to \<open>undefined\<close>, as a colour that cannot be parsed, is not sent: native
  keeps the value before.
\<close>

lemma unprocessed_value_keeps_old:
  "let va = [(''color'', Custom None (Some (\<lambda>v. if v = JString ''red'' then JNumber (Finite 255) else JUndefined)))];
       st = diff [(''color'', JString ''red'')] [(''color'', JString ''reddish'')] va start_state
   in apply_payload (updatePayload st) (native_view va [(''color'', JString ''red'')]) ''color'' = JNumber (Finite 255)"
  by (simp add: Let_def diff_def diffProperties.simps diff_next_def diff_prev_def normalise_def start_state_def mark_def sent_def put_def
      shouldUpdate_def defaultDiffer_def process_value_def apply_payload_def native_view_def owns_def owned_config_def owned_value_def native_of_def)

section \<open>Witnesses\<close>

definition ex_attrs :: attrs where
  "ex_attrs = [(''opacity'', Attr),
     (''style'', NestedAttr [(''top'', Attr), (''left'', Custom (Some (\<lambda>a b. \<not> strict_eq a b)) None)])]"

definition ex_style :: jsval where
  "ex_style = top_style 2 (JNumber (Finite 3))"

definition ex_over :: jsval where
  "ex_over = JObject 3 ''Object'' [(''top'', JNumber (Finite 5)), (''left'', JNumber (Finite 7))]"

definition ex_heap :: "nat \<Rightarrow> native_content" where
  "ex_heap a = (if a = 1 then content (JArray 1 [ex_style, ex_over]) else if a = 2 then content ex_style
     else if a = 3 then content ex_over else content (JArray 4 [ex_style, JNull]))"

lemma ex_attrs_wf: "wf_attrs ex_heap ex_attrs"
proof -
  have "flat_config ex_heap (Custom (Some (\<lambda>a b. \<not> strict_eq a b)) None)"
    using strict_eq_content native_of_content [of ex_heap "Custom None None"]
    by (simp add: process_value_def native_of_def) (metis content_function)
  then show ?thesis
    by (auto simp: wf_attrs_def ex_attrs_def flat_attrs_def owns_def simp del: flat_config.simps(2) split: if_splits)
qed

definition ex_first :: props where
  "ex_first = [(''opacity'', JNumber (Finite 1)), (''style'', JArray 1 [ex_style, ex_over])]"

definition ex_second :: props where
  "ex_second = [(''style'', JArray 4 [ex_style, JNull])]"

lemma ex_props_ok: "\<forall>ps\<in>set [ex_first, ex_second]. props_ok ex_heap ex_attrs ps"
  by (auto simp: props_ok_def ex_first_def ex_second_def ex_attrs_def ex_heap_def ex_style_def ex_over_def top_style_def
      defined_props_def split: if_splits)


end
