(* ===== verification/HostConfig.thy ===== *)
theory HostConfig
  imports AttributePayload
begin

text \<open>
  The host configuration of \<open>Libraries/Renderer/implementations/ReactNativeRenderer-dev.js\<close>: how the
  reconciler creates host views, changes their children and updates their attributes, and what
  the native UI manager (\<open>React/Modules/RCTUIManager.m\<close>) makes of the calls.

  A host component is known by its tag, as is a text instance, which is only a tag; the array
  \<open>_children\<close> of a component is a list of tags.  The calls of \<open>UIManager\<close> are applied to a model of
  the native registry of views: the subviews and the attributes of every registered tag.  A
  failed native assertion ends the native side (\<open>None\<close>).
\<close>

section \<open>The native side\<close>

record native_ui =
  nv_children :: "nat \<rightharpoonup> nat list"
  nv_attrs :: "nat \<Rightarrow> string \<Rightarrow> jsval"
  nv_created :: nat

definition insert_at :: "nat \<Rightarrow> 'a \<Rightarrow> 'a list \<Rightarrow> 'a list" where
  "insert_at i x xs = take i xs @ x # drop i xs"

definition createView :: "nat \<Rightarrow> props option \<Rightarrow> native_ui \<Rightarrow> native_ui option" where
  "createView tag payload ui = Some (ui\<lparr>nv_children := (nv_children ui)(tag \<mapsto> []),
     nv_attrs := (nv_attrs ui)(tag := apply_payload payload (\<lambda>_. JNull)), nv_created := nv_created ui + 1\<rparr>)"

definition updateView :: "nat \<Rightarrow> props option \<Rightarrow> native_ui \<Rightarrow> native_ui option" where
  "updateView tag payload ui = Some (ui\<lparr>nv_attrs := (nv_attrs ui)(tag := apply_payload payload (nv_attrs ui tag))\<rparr>)"

text \<open>Views that are not registered are skipped; the others are inserted at the indices 0, 1, 2 and so on.\<close>

definition setChildren :: "nat \<Rightarrow> nat list \<Rightarrow> native_ui \<Rightarrow> native_ui option" where
  "setChildren tag tags ui =
     (case nv_children ui tag of
        None \<Rightarrow> Some ui
      | Some xs \<Rightarrow>
          let ys = snd (fold (\<lambda>t (i, ys). if nv_children ui t = None then (i, ys) else (i + 1, insert_at i t ys)) tags (0, xs))
          in Some (ui\<lparr>nv_children := (nv_children ui)(tag \<mapsto> ys)\<rparr>))"

definition childrenToRemove :: "nat list \<Rightarrow> nat list \<Rightarrow> nat list option" where
  "childrenToRemove xs indices =
     (if indices = [] \<or> xs = [] then Some []
      else if \<forall>i\<in>set indices. i < length xs then Some (map ((!) xs) indices) else None)"

text \<open>The registered views below a view, itself included; the depth is bounded by the number of views.\<close>

primrec subtree :: "nat \<Rightarrow> (nat \<rightharpoonup> nat list) \<Rightarrow> nat \<Rightarrow> nat list" where
  "subtree 0 m t = []"
| "subtree (Suc d) m t = (case m t of None \<Rightarrow> [] | Some xs \<Rightarrow> t # concat (map (subtree d m) xs))"

definition purgeChildren :: "nat \<Rightarrow> nat list \<Rightarrow> (nat \<rightharpoonup> nat list) \<Rightarrow> (nat \<rightharpoonup> nat list)" where
  "purgeChildren d tags m = fold (\<lambda>t m'. m' |` (- set (subtree d m' t))) tags m"

fun insert_all :: "(nat \<times> nat) list \<Rightarrow> nat list \<Rightarrow> nat list option" where
  "insert_all [] ys = Some ys"
| "insert_all ((i, v) # rest) ys = (if i \<le> length ys then insert_all rest (insert_at i v ys) else None)"

definition manageChildren ::
  "nat \<Rightarrow> nat list \<Rightarrow> nat list \<Rightarrow> nat list \<Rightarrow> nat list \<Rightarrow> nat list \<Rightarrow> native_ui \<Rightarrow> native_ui option" where
  "manageChildren tag moveFrom moveTo addTags addAt removeAt ui =
     (case nv_children ui tag of
        None \<Rightarrow> Some ui
      | Some xs \<Rightarrow>
          (case (childrenToRemove xs removeAt, childrenToRemove xs moveFrom) of
             (Some permanently, Some temporarily) \<Rightarrow>
               let ys = fold remove1 (permanently @ temporarily) xs;
                   registry = purgeChildren (Suc (nv_created ui)) permanently ((nv_children ui)(tag \<mapsto> ys));
                   moves = fold (\<lambda>(i, v). AList.update i v) (zip moveTo temporarily) [];
                   destinations = fold (\<lambda>(i, v) ds. if registry v = None then ds else AList.update i v ds) (zip addAt addTags) moves
               in (case insert_all (sort_key fst destinations) ys of
                     None \<Rightarrow> None
                   | Some zs \<Rightarrow>
                       Some (ui\<lparr>nv_children := (if registry tag = None then registry else registry(tag \<mapsto> zs))\<rparr>))
           | _ \<Rightarrow> None))"

section \<open>The state of the renderer\<close>

record host_node =
  hn_children :: "nat list"
  hn_attrs :: attrs

record host =
  nextReactTag :: nat
  hosts :: "nat \<rightharpoonup> host_node"
  instanceCache :: "nat \<rightharpoonup> nat"
  instanceProps :: "nat \<rightharpoonup> props"
  payload_vars :: diff_state
  native :: "native_ui option"

definition ui_call :: "(native_ui \<Rightarrow> native_ui option) \<Rightarrow> host \<Rightarrow> host" where
  "ui_call f st = st\<lparr>native := (case native st of None \<Rightarrow> None | Some u \<Rightarrow> f u)\<rparr>"

definition precacheFiberNode :: "nat \<Rightarrow> nat \<Rightarrow> host \<Rightarrow> host" where
  "precacheFiberNode hostInst tag st = st\<lparr>instanceCache := (instanceCache st)(tag \<mapsto> hostInst)\<rparr>"

definition uncacheFiberNode :: "nat \<Rightarrow> host \<Rightarrow> host" where
  "uncacheFiberNode tag st =
     st\<lparr>instanceCache := (instanceCache st)(tag := None), instanceProps := (instanceProps st)(tag := None)\<rparr>"

definition updateFiberProps :: "nat \<Rightarrow> props \<Rightarrow> host \<Rightarrow> host" where
  "updateFiberProps tag props st = st\<lparr>instanceProps := (instanceProps st)(tag \<mapsto> props)\<rparr>"

definition allocateTag :: "host \<Rightarrow> nat \<times> host" where
  "allocateTag st =
     (let tag = (if nextReactTag st mod 10 = 1 then nextReactTag st + 2 else nextReactTag st)
      in (tag, st\<lparr>nextReactTag := tag + 2\<rparr>))"

definition children_of :: "nat \<Rightarrow> host \<Rightarrow> nat list" where
  "children_of p st = (case hosts st p of None \<Rightarrow> [] | Some h \<Rightarrow> hn_children h)"

definition set_children :: "nat \<Rightarrow> nat list \<Rightarrow> host \<Rightarrow> host" where
  "set_children p xs st = st\<lparr>hosts := (case hosts st p of None \<Rightarrow> hosts st | Some h \<Rightarrow> (hosts st)(p \<mapsto> h\<lparr>hn_children := xs\<rparr>))\<rparr>"

text \<open>The depth of the recursion is bounded by the number of tags.\<close>

primrec recursivelyUncacheFiberNode :: "nat \<Rightarrow> nat \<Rightarrow> host \<Rightarrow> host" where
  "recursivelyUncacheFiberNode 0 node st = st"
| "recursivelyUncacheFiberNode (Suc d) node st =
     fold (recursivelyUncacheFiberNode d) (children_of node st) (uncacheFiberNode node st)"

section \<open>Creating instances\<close>

text \<open>\<open>getViewConfigForType\<close> is the registry of view configurations, a parameter.\<close>

definition createInstance :: "(string \<Rightarrow> attrs) \<Rightarrow> string \<Rightarrow> props \<Rightarrow> nat \<Rightarrow> host \<Rightarrow> nat \<times> host" where
  "createInstance getViewConfigForType ty props fiber st =
     (case allocateTag st of (tag, st1) \<Rightarrow>
        let viewConfig = getViewConfigForType ty;
            vars = create props viewConfig (payload_vars st1);
            st2 = ui_call (createView tag (updatePayload vars)) (st1\<lparr>payload_vars := vars\<rparr>);
            st3 = st2\<lparr>hosts := (hosts st2)(tag \<mapsto> \<lparr>hn_children = [], hn_attrs = viewConfig\<rparr>)\<rparr>
        in (tag, updateFiberProps tag props (precacheFiberNode fiber tag st3)))"

definition createTextInstance :: "string \<Rightarrow> bool \<Rightarrow> nat \<Rightarrow> host \<Rightarrow> (js_exn, host, nat) outcome" where
  "createTextInstance newText isInAParentText fiber st =
     (if \<not> isInAParentText then Throw (JsError ''Text strings must be rendered within a <Text> component.'') st
      else case allocateTag st of (tag, st1) \<Rightarrow>
             Ret tag (precacheFiberNode fiber tag (ui_call (createView tag (Some [(''text'', JString newText)])) st1)))"

definition appendInitialChild :: "nat \<Rightarrow> nat \<Rightarrow> host \<Rightarrow> host" where
  "appendInitialChild parentInstance child st = set_children parentInstance (children_of parentInstance st @ [child]) st"

definition finalizeInitialChildren :: "nat \<Rightarrow> host \<Rightarrow> host" where
  "finalizeInitialChildren parentInstance st =
     (if children_of parentInstance st = [] then st
      else ui_call (setChildren parentInstance (children_of parentInstance st)) st)"

definition getChildHostContext :: "bool \<Rightarrow> string \<Rightarrow> bool" where
  "getChildHostContext prevIsInAParentText ty \<longleftrightarrow>
     ty \<in> {''AndroidTextInput'', ''RCTMultilineTextInputView'', ''RCTSinglelineTextInputView'', ''RCTText'', ''RCTVirtualText''}"

section \<open>Mutations\<close>

text \<open>The index of a missing element is -1, which native reads as an unsigned number.\<close>

definition js_index :: "nat list \<Rightarrow> nat \<Rightarrow> nat" where
  "js_index xs x = (case index_of xs x of Some i \<Rightarrow> i | None \<Rightarrow> 2 ^ 64 - 1)"

text \<open>\<open>xs.splice(xs.indexOf(b), 0, x)\<close> and \<open>xs.splice(xs.indexOf(x), 1)\<close>\<close>

definition splice_in :: "nat list \<Rightarrow> nat \<Rightarrow> nat \<Rightarrow> nat list" where
  "splice_in xs before x = (case index_of xs before of Some i \<Rightarrow> insert_at i x xs | None \<Rightarrow> insert_at (length xs - 1) x xs)"

definition splice_away :: "nat list \<Rightarrow> nat \<Rightarrow> nat list" where
  "splice_away xs x = (case index_of xs x of Some i \<Rightarrow> remove_at i xs | None \<Rightarrow> butlast xs)"

definition appendChild :: "nat \<Rightarrow> nat \<Rightarrow> host \<Rightarrow> host" where
  "appendChild parentInstance child st =
     (let xs = children_of parentInstance st
      in case index_of xs child of
           Some i \<Rightarrow>
             let ys = remove_at i xs @ [child]
             in ui_call (manageChildren parentInstance [i] [length ys - 1] [] [] []) (set_children parentInstance ys st)
         | None \<Rightarrow>
             let ys = xs @ [child]
             in ui_call (manageChildren parentInstance [] [] [child] [length ys - 1] []) (set_children parentInstance ys st))"

definition insertBefore :: "nat \<Rightarrow> nat \<Rightarrow> nat \<Rightarrow> host \<Rightarrow> host" where
  "insertBefore parentInstance child beforeChild st =
     (let xs = children_of parentInstance st
      in case index_of xs child of
           Some i \<Rightarrow>
             let ys = remove_at i xs
             in ui_call (manageChildren parentInstance [i] [js_index ys beforeChild] [] [] [])
                  (set_children parentInstance (splice_in ys beforeChild child) st)
         | None \<Rightarrow>
             ui_call (manageChildren parentInstance [] [] [child] [js_index xs beforeChild] [])
               (set_children parentInstance (splice_in xs beforeChild child) st))"

definition removeChild :: "nat \<Rightarrow> nat \<Rightarrow> host \<Rightarrow> host" where
  "removeChild parentInstance child st =
     (let st1 = recursivelyUncacheFiberNode (nextReactTag st) child st;
          xs = children_of parentInstance st1
      in ui_call (manageChildren parentInstance [] [] [] [] [js_index xs child]) (set_children parentInstance (splice_away xs child) st1))"

definition appendChildToContainer :: "nat \<Rightarrow> nat \<Rightarrow> host \<Rightarrow> host" where
  "appendChildToContainer container child st = ui_call (setChildren container [child]) st"

definition insertInContainerBefore :: "host \<Rightarrow> (js_exn, host, unit) outcome" where
  "insertInContainerBefore st = Throw (JsError ''Container does not support insertBefore operation'') st"

definition removeChildFromContainer :: "nat \<Rightarrow> nat \<Rightarrow> host \<Rightarrow> host" where
  "removeChildFromContainer container child st =
     ui_call (manageChildren container [] [] [] [] [0]) (recursivelyUncacheFiberNode (nextReactTag st) child st)"

section \<open>Updates\<close>

definition attrs_of :: "nat \<Rightarrow> host \<Rightarrow> attrs" where
  "attrs_of t st = (case hosts st t of None \<Rightarrow> [] | Some h \<Rightarrow> hn_attrs h)"

definition commitTextUpdate :: "nat \<Rightarrow> string \<Rightarrow> host \<Rightarrow> host" where
  "commitTextUpdate textInstance newText st = ui_call (updateView textInstance (Some [(''text'', JString newText)])) st"

definition commitUpdate :: "nat \<Rightarrow> props \<Rightarrow> props \<Rightarrow> host \<Rightarrow> host" where
  "commitUpdate instance oldProps newProps st =
     (let st1 = updateFiberProps instance newProps st;
          vars = diff oldProps newProps (attrs_of instance st1) (payload_vars st1);
          st2 = st1\<lparr>payload_vars := vars\<rparr>
      in if updatePayload vars \<noteq> None then ui_call (updateView instance (updatePayload vars)) st2 else st2)"

definition setNativeProps :: "nat \<Rightarrow> props \<Rightarrow> host \<Rightarrow> host" where
  "setNativeProps instance nativeProps st =
     (let vars = create nativeProps (attrs_of instance st) (payload_vars st); st1 = st\<lparr>payload_vars := vars\<rparr>
      in if updatePayload vars \<noteq> None then ui_call (updateView instance (updatePayload vars)) st1 else st1)"

text \<open>The objects that are allocated here have the addresses \<open>a\<close> and \<open>b\<close>.\<close>

definition display_none :: "nat \<Rightarrow> jsval" where
  "display_none a = JObject a ''Object'' [(''display'', JString ''none'')]"

definition hideInstance :: "nat \<Rightarrow> nat \<Rightarrow> host \<Rightarrow> host" where
  "hideInstance a instance st =
     (let vars = create [(''style'', display_none a)] (attrs_of instance st) (payload_vars st)
      in ui_call (updateView instance (updatePayload vars)) (st\<lparr>payload_vars := vars\<rparr>))"

definition hidden_props :: "nat \<Rightarrow> nat \<Rightarrow> props \<Rightarrow> props" where
  "hidden_props a b props = AList.update ''style'' (JArray a [get_prop ''style'' props, display_none b]) props"

definition unhideInstance :: "nat \<Rightarrow> nat \<Rightarrow> nat \<Rightarrow> props \<Rightarrow> host \<Rightarrow> host" where
  "unhideInstance a b instance props st =
     (let vars = diff (hidden_props a b props) props (attrs_of instance st) (payload_vars st)
      in ui_call (updateView instance (updatePayload vars)) (st\<lparr>payload_vars := vars\<rparr>))"

section \<open>What the reconciler does\<close>

text \<open>
  An instance is completed when its children are: it is created, gets its initial children and
  is finalized.  The reconciler only passes instances that are on the native side, inserts before
  a child of the parent and removes a child of the parent.
\<close>

definition completeInstance :: "(string \<Rightarrow> attrs) \<Rightarrow> string \<Rightarrow> props \<Rightarrow> nat list \<Rightarrow> nat \<Rightarrow> host \<Rightarrow> host" where
  "completeInstance vc ty props cs fiber st =
     (case createInstance vc ty props fiber st of (tag, st1) \<Rightarrow>
        finalizeInitialChildren tag (fold (appendInitialChild tag) cs st1))"

definition alive :: "nat \<Rightarrow> host \<Rightarrow> bool" where
  "alive t st \<longleftrightarrow> (case native st of None \<Rightarrow> False | Some u \<Rightarrow> nv_children u t \<noteq> None)"

definition mounted_host :: "nat \<Rightarrow> host \<Rightarrow> bool" where
  "mounted_host t st \<longleftrightarrow> hosts st t \<noteq> None \<and> alive t st"

datatype host_event =
    Complete string props "nat list" nat
  | CompleteText string bool nat
  | AppendChild nat nat
  | InsertBefore nat nat nat
  | RemoveChild nat nat
  | AppendToContainer nat nat
  | RemoveFromContainer nat nat
  | CommitUpdate nat props
  | CommitTextUpdate nat string
  | SetNativeProps nat props
  | Hide nat nat
  | Unhide nat nat nat props

fun host_step :: "(string \<Rightarrow> attrs) \<Rightarrow> host \<Rightarrow> host_event \<Rightarrow> host" where
  "host_step vc st (Complete ty props cs fiber) =
     (if distinct cs \<and> (\<forall>c\<in>set cs. alive c st) then completeInstance vc ty props cs fiber st else st)"
| "host_step vc st (CompleteText string inText fiber) = out_state (createTextInstance string inText fiber st)"
| "host_step vc st (AppendChild p c) = (if mounted_host p st \<and> alive c st then appendChild p c st else st)"
| "host_step vc st (InsertBefore p c b) =
     (if mounted_host p st \<and> alive c st \<and> b \<in> set (children_of p st) \<and> b \<noteq> c then insertBefore p c b st else st)"
| "host_step vc st (RemoveChild p c) = (if mounted_host p st \<and> c \<in> set (children_of p st) then removeChild p c st else st)"
| "host_step vc st (AppendToContainer r c) = (if r mod 10 = 1 \<and> alive c st then appendChildToContainer r c st else st)"
| "host_step vc st (RemoveFromContainer r c) = (if r mod 10 = 1 then removeChildFromContainer r c st else st)"
| "host_step vc st (CommitUpdate t props) =
     (case instanceProps st t of Some old \<Rightarrow> if mounted_host t st then commitUpdate t old props st else st | None \<Rightarrow> st)"
| "host_step vc st (CommitTextUpdate t newText) = (if hosts st t = None then commitTextUpdate t newText st else st)"
| "host_step vc st (SetNativeProps t props) = setNativeProps t props st"
| "host_step vc st (Hide a t) = hideInstance a t st"
| "host_step vc st (Unhide a b t props) = unhideInstance a b t props st"

text \<open>The renderer starts with the views of the roots, whose tags end in 1.\<close>

definition new_host :: "nat list \<Rightarrow> host" where
  "new_host roots = \<lparr>nextReactTag = 3, hosts = Map.empty, instanceCache = Map.empty, instanceProps = Map.empty,
     payload_vars = start_state,
     native = Some \<lparr>nv_children = (\<lambda>t. if t \<in> set roots \<and> t mod 10 = 1 then Some [] else None),
       nv_attrs = (\<lambda>_ _. JNull), nv_created = length roots\<rparr>\<rparr>"

section \<open>Native mirrors the children\<close>

definition tree_ok :: "native_ui \<Rightarrow> host \<Rightarrow> bool" where
  "tree_ok u st \<longleftrightarrow> odd (nextReactTag st) \<and>
     (\<forall>t. nv_children u t \<noteq> None \<longrightarrow> t mod 10 \<noteq> 1 \<longrightarrow> t < nextReactTag st) \<and>
     (\<forall>t h. hosts st t = Some h \<longrightarrow> t mod 10 \<noteq> 1 \<and> odd t \<and> t < nextReactTag st \<and> distinct (hn_children h)) \<and>
     (\<forall>t h xs. hosts st t = Some h \<longrightarrow> nv_children u t = Some xs \<longrightarrow> hn_children h = xs)"

definition host_ok :: "host \<Rightarrow> bool" where
  "host_ok st \<longleftrightarrow> (\<exists>u. native st = Some u \<and> tree_ok u st)"

lemma childrenToRemove_nil [simp]: "childrenToRemove xs [] = Some []"
  by (simp add: childrenToRemove_def)

lemma purge_nil [simp]: "purgeChildren d [] m = m"
  by (simp add: purgeChildren_def)

lemma purge_only_removes: "purgeChildren d ts m t = Some xs \<Longrightarrow> m t = Some xs"
  unfolding purgeChildren_def
proof (induction ts arbitrary: m)
  case (Cons a ts)
  then have "(m |` (- set (subtree d m a))) t = Some xs" by simp
  then show ?case by (simp add: restrict_map_def split: if_splits)
qed simp

lemma manage_add:
  assumes "nv_children u p = Some xs" and "nv_children u c \<noteq> None" and "i \<le> length xs"
  shows "manageChildren p [] [] [c] [i] [] u = Some (u\<lparr>nv_children := (nv_children u)(p \<mapsto> insert_at i c xs)\<rparr>)"
  using assms by (auto simp: manageChildren_def Let_def)

lemma manage_move:
  assumes "nv_children u p = Some xs" and "i < length xs" and "j < length xs"
  shows "manageChildren p [i] [j] [] [] [] u = Some (u\<lparr>nv_children := (nv_children u)(p \<mapsto> insert_at j (xs ! i) (remove1 (xs ! i) xs))\<rparr>)"
proof -
  have "childrenToRemove xs [i] = Some [xs ! i]" using assms(2) by (auto simp: childrenToRemove_def)
  moreover have "j \<le> length (remove1 (xs ! i) xs)" using assms(2,3) by (simp add: length_remove1)
  ultimately show ?thesis using assms by (simp add: manageChildren_def Let_def)
qed

lemma manage_remove:
  assumes "nv_children u p = Some xs" and "i < length xs"
  obtains m where "manageChildren p [] [] [] [] [i] u = Some (u\<lparr>nv_children := m\<rparr>)"
    "\<And>t ys. m t = Some ys \<Longrightarrow> (if t = p then ys = remove1 (xs ! i) xs else nv_children u t = Some ys)"
proof -
  have c: "childrenToRemove xs [i] = Some [xs ! i]" using assms(2) by (auto simp: childrenToRemove_def)
  let ?r = "purgeChildren (Suc (nv_created u)) [xs ! i] ((nv_children u)(p \<mapsto> remove1 (xs ! i) xs))"
  let ?m = "if ?r p = None then ?r else ?r(p \<mapsto> remove1 (xs ! i) xs)"
  have "manageChildren p [] [] [] [] [i] u = Some (u\<lparr>nv_children := ?m\<rparr>)"
    using assms c by (simp add: manageChildren_def Let_def)
  moreover have "if t = p then ys = remove1 (xs ! i) xs else nv_children u t = Some ys" if "?m t = Some ys" for t ys
    using that purge_only_removes [of "Suc (nv_created u)" "[xs ! i]" "(nv_children u)(p \<mapsto> remove1 (xs ! i) xs)" t ys]
    by (auto split: if_splits)
  ultimately show ?thesis using that by blast
qed

lemma set_children_view:
  "native (set_children p xs st) = native st" "nextReactTag (set_children p xs st) = nextReactTag st"
  "hosts (set_children p xs st) t = (if t = p \<and> hosts st p \<noteq> None then Some ((the (hosts st p))\<lparr>hn_children := xs\<rparr>) else hosts st t)"
  by (auto simp: set_children_def split: option.splits)

lemma ui_call_view [simp]:
  "native (ui_call f st) = (case native st of None \<Rightarrow> None | Some u \<Rightarrow> f u)" "nextReactTag (ui_call f st) = nextReactTag st"
  "hosts (ui_call f st) = hosts st"
  by (simp_all add: ui_call_def)

text \<open>Both sides change the children of \<open>p\<close> to the same list.\<close>

lemma mirrored_change:
  assumes "host_ok st" and "native st = Some u" and "f u = Some u'"
    and "\<And>t ys. nv_children u' t = Some ys \<Longrightarrow> (if t = p then ys = xs else nv_children u t = Some ys)"
    and "distinct xs" and "hosts st p \<noteq> None"
  shows "host_ok (ui_call f (set_children p xs st))"
proof -
  have ok: "tree_ok u st" using assms(1,2) by (auto simp: host_ok_def)
  have p: "p mod 10 \<noteq> 1" "p < nextReactTag st" using ok assms(6) by (auto simp: tree_ok_def)
  have "tree_ok u' (ui_call f (set_children p xs st))"
    unfolding tree_ok_def ui_call_view set_children_view
  proof (intro conjI allI impI)
    show "odd (nextReactTag st)" using ok by (simp add: tree_ok_def)
    show "t < nextReactTag st" if "nv_children u' t \<noteq> None" "t mod 10 \<noteq> 1" for t
      using ok p assms(4) that by (cases "t = p") (auto simp: tree_ok_def)
  next
    fix t h assume h: "(if t = p \<and> hosts st p \<noteq> None then Some ((the (hosts st p))\<lparr>hn_children := xs\<rparr>) else hosts st t) = Some h"
    obtain h0 where h0: "hosts st t = Some h0" using h by (auto split: if_splits)
    show "t mod 10 \<noteq> 1" "odd t" "t < nextReactTag st" using ok h0 by (auto simp: tree_ok_def)
    show "distinct (hn_children h)" using ok h0 h assms(5) by (auto simp: tree_ok_def split: if_splits)
    show "hn_children h = ys" if "nv_children u' t = Some ys" for ys
      using assms(4) [OF that] h h0 ok assms(6) by (auto simp: tree_ok_def split: if_splits)
  qed
  then show ?thesis using assms(2,3) by (auto simp: host_ok_def set_children_view)
qed

lemma mounted_hostE:
  assumes "host_ok st" and "mounted_host p st"
  obtains u h where "native st = Some u" "hosts st p = Some h" "nv_children u p = Some (hn_children h)"
    "children_of p st = hn_children h" "distinct (hn_children h)"
proof -
  obtain u where u: "native st = Some u" "tree_ok u st" using assms(1) by (auto simp: host_ok_def)
  obtain h where h: "hosts st p = Some h" using assms(2) by (auto simp: mounted_host_def)
  obtain xs where xs: "nv_children u p = Some xs" using assms(2) u(1) by (auto simp: mounted_host_def alive_def)
  have "distinct (hn_children h)" using u(2) h unfolding tree_ok_def by blast
  moreover have "nv_children u p = Some (hn_children h)" using u(2) h xs unfolding tree_ok_def by metis
  ultimately show ?thesis using that u(1) h by (simp add: children_of_def)
qed

lemma insert_at_distinct: "distinct xs \<Longrightarrow> x \<notin> set xs \<Longrightarrow> distinct (insert_at i x xs)"
proof -
  assume d: "distinct xs" "x \<notin> set xs"
  then have "distinct (take i xs @ drop i xs)" by simp
  then show ?thesis using d(2) by (auto simp: insert_at_def dest: in_set_takeD in_set_dropD simp del: append_take_drop_id)
qed

lemma insert_at_end: "insert_at (length xs) x xs = xs @ [x]"
  by (simp add: insert_at_def)

lemma remove_at_index: "distinct xs \<Longrightarrow> index_of xs x = Some i \<Longrightarrow> remove_at i xs = remove1 x xs"
  using splice_out_remove1 [of x xs] by (simp add: splice_out_def)

text \<open>A child is added, moved or removed.\<close>

lemma add_ok:
  assumes "host_ok st" and "mounted_host p st" and "alive c st" and "c \<notin> set (children_of p st)" and "i \<le> length (children_of p st)"
  shows "host_ok (ui_call (manageChildren p [] [] [c] [i] []) (set_children p (insert_at i c (children_of p st)) st))"
proof -
  obtain u h where u: "native st = Some u" "hosts st p = Some h" "nv_children u p = Some (hn_children h)"
    "children_of p st = hn_children h" "distinct (hn_children h)" by (rule mounted_hostE [OF assms(1,2)])
  have c: "nv_children u c \<noteq> None" using assms(3) u(1) by (simp add: alive_def)
  show ?thesis
  proof (rule mirrored_change [OF assms(1) u(1), where f = "manageChildren p [] [] [c] [i] []"])
    show "manageChildren p [] [] [c] [i] [] u = Some (u\<lparr>nv_children := (nv_children u)(p \<mapsto> insert_at i c (hn_children h))\<rparr>)"
      using manage_add [OF u(3) c] u(4) assms(5) by simp
    show "distinct (insert_at i c (children_of p st))" using u(4,5) assms(4) by (simp add: insert_at_distinct)
  qed (use u(2,4) assms(5) in \<open>auto split: if_splits\<close>)
qed

lemma move_ok:
  assumes "host_ok st" and "mounted_host p st" and "index_of (children_of p st) c = Some i" and "j < length (children_of p st)"
  shows "host_ok (ui_call (manageChildren p [i] [j] [] [] []) (set_children p (insert_at j c (remove1 c (children_of p st))) st))"
proof -
  obtain u h where u: "native st = Some u" "hosts st p = Some h" "nv_children u p = Some (hn_children h)"
    "children_of p st = hn_children h" "distinct (hn_children h)" by (rule mounted_hostE [OF assms(1,2)])
  have i: "i < length (hn_children h)" "hn_children h ! i = c" using index_of_SomeD [OF assms(3)] u(4) by auto
  show ?thesis
  proof (rule mirrored_change [OF assms(1) u(1), where f = "manageChildren p [i] [j] [] [] []"])
    show "manageChildren p [i] [j] [] [] [] u =
        Some (u\<lparr>nv_children := (nv_children u)(p \<mapsto> insert_at j c (remove1 c (hn_children h)))\<rparr>)"
      using manage_move [OF u(3) i(1)] u(4) i(2) assms(4) by simp
    show "distinct (insert_at j c (remove1 c (children_of p st)))" using u(4,5) by (simp add: insert_at_distinct)
  qed (use u(2,4) i assms(4) in \<open>auto split: if_splits\<close>)
qed

lemma appendChild_ok: "host_ok st \<Longrightarrow> mounted_host p st \<Longrightarrow> alive c st \<Longrightarrow> host_ok (appendChild p c st)"
proof -
  assume a: "host_ok st" "mounted_host p st" "alive c st"
  let ?xs = "children_of p st"
  have d: "distinct ?xs" using mounted_hostE [OF a(1,2)] by metis
  show ?thesis
  proof (cases "index_of ?xs c")
    case None
    then have "c \<notin> set ?xs" by (simp add: index_of_None_iff)
    from add_ok [OF a this, of "length ?xs"] None show ?thesis by (simp add: appendChild_def Let_def insert_at_end)
  next
    case (Some i)
    then have i: "i < length ?xs" "c \<in> set ?xs" using index_of_SomeD [OF Some] by auto
    then have "length (remove1 c ?xs) = length ?xs - 1" by (simp add: length_remove1)
    moreover have "host_ok (ui_call (manageChildren p [i] [length ?xs - 1] [] [] [])
        (set_children p (insert_at (length ?xs - 1) c (remove1 c ?xs)) st))"
      by (rule move_ok [OF a(1,2) Some]) (use i in simp)
    ultimately show ?thesis
      using Some remove_at_index [OF d Some] insert_at_end [of "remove1 c ?xs" c] by (simp add: appendChild_def Let_def)
  qed
qed

lemma insertBefore_ok:
  assumes "host_ok st" and "mounted_host p st" and "alive c st" and "b \<in> set (children_of p st)" and "b \<noteq> c"
  shows "host_ok (insertBefore p c b st)"
proof -
  let ?xs = "children_of p st"
  have d: "distinct ?xs" using mounted_hostE [OF assms(1,2)] by metis
  show ?thesis
  proof (cases "index_of ?xs c")
    case None
    then have c: "c \<notin> set ?xs" by (simp add: index_of_None_iff)
    obtain i where i: "index_of ?xs b = Some i" "i < length ?xs"
      using assms(4) index_of_SomeD [of ?xs b] index_of_None_iff [of ?xs b] by (cases "index_of ?xs b") auto
    have "host_ok (ui_call (manageChildren p [] [] [c] [i] []) (set_children p (insert_at i c ?xs) st))"
      by (rule add_ok [OF assms(1-3) c]) (use i(2) in simp)
    then show ?thesis using None i by (simp add: insertBefore_def Let_def js_index_def splice_in_def)
  next
    case (Some i)
    let ?ys = "remove1 c ?xs"
    have "b \<in> set ?ys" using assms(4,5) by (simp add: in_set_remove1)
    then obtain j where j: "index_of ?ys b = Some j" "j < length ?ys"
      using index_of_SomeD [of ?ys b] index_of_None_iff [of ?ys b] by (cases "index_of ?ys b") auto
    have "host_ok (ui_call (manageChildren p [i] [j] [] [] []) (set_children p (insert_at j c ?ys) st))"
      by (rule move_ok [OF assms(1,2) Some]) (use j(2) in \<open>simp add: length_remove1 split: if_splits\<close>)
    then show ?thesis using Some j remove_at_index [OF d Some] by (simp add: insertBefore_def Let_def js_index_def splice_in_def)
  qed
qed

lemma uncache_view [simp]:
  "native (recursivelyUncacheFiberNode d t st) = native st" "hosts (recursivelyUncacheFiberNode d t st) = hosts st"
  "nextReactTag (recursivelyUncacheFiberNode d t st) = nextReactTag st"
proof (induction d arbitrary: t st)
  case (Suc d)
  {
    case 1
    then show ?case using fold_frame [of native "recursivelyUncacheFiberNode d"] Suc(1) by (simp add: uncacheFiberNode_def)
  next
    case 2
    then show ?case using fold_frame [of hosts "recursivelyUncacheFiberNode d"] Suc(2) by (simp add: uncacheFiberNode_def)
  next
    case 3
    then show ?case using fold_frame [of nextReactTag "recursivelyUncacheFiberNode d"] Suc(3) by (simp add: uncacheFiberNode_def)
  }
qed simp_all

lemma host_ok_cong: "native st' = native st \<Longrightarrow> hosts st' = hosts st \<Longrightarrow> nextReactTag st' = nextReactTag st \<Longrightarrow> host_ok st' = host_ok st"
  by (simp add: host_ok_def tree_ok_def)

lemma removeChild_ok:
  assumes "host_ok st" and "mounted_host p st" and "c \<in> set (children_of p st)"
  shows "host_ok (removeChild p c st)"
proof -
  let ?st1 = "recursivelyUncacheFiberNode (nextReactTag st) c st"
  have ok1: "host_ok ?st1" using assms(1) host_ok_cong [of ?st1 st] by simp
  obtain u h where u: "native st = Some u" "hosts st p = Some h" "nv_children u p = Some (hn_children h)"
    "children_of p st = hn_children h" "distinct (hn_children h)" by (rule mounted_hostE [OF assms(1,2)])
  obtain i where i: "index_of (hn_children h) c = Some i" "i < length (hn_children h)" "hn_children h ! i = c"
    using assms(3) u(4) index_of_SomeD [of "hn_children h" c] index_of_None_iff [of "hn_children h" c]
    by (cases "index_of (hn_children h) c") auto
  obtain m where m: "manageChildren p [] [] [] [] [i] u = Some (u\<lparr>nv_children := m\<rparr>)"
    "\<And>t ys. m t = Some ys \<Longrightarrow> (if t = p then ys = remove1 c (hn_children h) else nv_children u t = Some ys)"
    using manage_remove [OF u(3) i(2)] i(3) by metis
  have "host_ok (ui_call (manageChildren p [] [] [] [] [i]) (set_children p (remove1 c (hn_children h)) ?st1))"
    by (rule mirrored_change [OF ok1, of u]) (use u m in auto)
  moreover have "children_of p ?st1 = hn_children h" using u(2) by (simp add: children_of_def)
  ultimately show ?thesis
    using i(1) remove_at_index [OF u(5) i(1)] by (simp add: removeChild_def Let_def js_index_def splice_away_def)
qed

text \<open>New tags are odd, differ from the tags of roots and have not been used.\<close>

lemma allocateTag_fresh:
  assumes "odd (nextReactTag st)" and "allocateTag st = (tag, st1)"
  shows "odd tag" "tag mod 10 \<noteq> 1" "nextReactTag st \<le> tag" "st1 = st\<lparr>nextReactTag := tag + 2\<rparr>"
  using assms by (auto simp: allocateTag_def Let_def split: if_splits) presburger

lemma create_ok:
  assumes "host_ok st" and "odd tag" and "tag mod 10 \<noteq> 1" and "nextReactTag st \<le> tag"
    and "nextReactTag st' = tag + 2" and "native st' = (case native st of None \<Rightarrow> None | Some u \<Rightarrow> createView tag pl u)"
    and "hosts st' = hosts st \<or> (\<exists>va. hosts st' = (hosts st)(tag \<mapsto> \<lparr>hn_children = [], hn_attrs = va\<rparr>))"
  shows "host_ok st'"
proof -
  obtain u where u: "native st = Some u" "tree_ok u st" using assms(1) by (auto simp: host_ok_def)
  have old: "nv_children u t \<noteq> None \<Longrightarrow> t mod 10 \<noteq> 1 \<Longrightarrow> t < tag" "hosts st t = Some h \<Longrightarrow> t < tag" for t h
    using u(2) assms(4) by (fastforce simp: tree_ok_def)+
  have hosts': "hosts st' t = Some h \<Longrightarrow> t = tag \<and> hn_children h = [] \<or> t \<noteq> tag \<and> hosts st t = Some h" for t h
    using assms(7) old(2) [of t h] by (auto split: if_splits)
  have "tree_ok (u\<lparr>nv_children := (nv_children u)(tag \<mapsto> []), nv_attrs := (nv_attrs u)(tag := apply_payload pl (\<lambda>_. JNull)),
      nv_created := nv_created u + 1\<rparr>) st'"
    unfolding tree_ok_def
  proof (intro conjI allI impI)
    show "odd (nextReactTag st')" using assms(2,5) by simp
  next
    fix t assume "nv_children (u\<lparr>nv_children := (nv_children u)(tag \<mapsto> []),
      nv_attrs := (nv_attrs u)(tag := apply_payload pl (\<lambda>_. JNull)), nv_created := nv_created u + 1\<rparr>) t \<noteq> None" "t mod 10 \<noteq> 1"
    then show "t < nextReactTag st'" using old(1) [of t] assms(5) by (auto split: if_splits)
  next
    fix t h assume h: "hosts st' t = Some h"
    show "t mod 10 \<noteq> 1" "odd t" "t < nextReactTag st'" "distinct (hn_children h)"
      using hosts' [OF h] assms(2,3,5) u(2) old(2) [of t h] by (auto simp: tree_ok_def)
  next
    fix t h xs assume "hosts st' t = Some h" "nv_children (u\<lparr>nv_children := (nv_children u)(tag \<mapsto> []),
      nv_attrs := (nv_attrs u)(tag := apply_payload pl (\<lambda>_. JNull)), nv_created := nv_created u + 1\<rparr>) t = Some xs"
    then show "hn_children h = xs" using hosts' [of t h] u(2) by (auto simp: tree_ok_def split: if_splits)
  qed
  then show ?thesis using u(1) assms(6) by (simp add: host_ok_def createView_def)
qed

lemma set_children_fold:
  assumes "\<forall>t\<in>set tags. m t \<noteq> None"
  shows "snd (fold (\<lambda>t (i, ys). if m t = None then (i, ys) else (i + 1, insert_at i t ys)) tags (length pre, pre @ xs)) = pre @ tags @ xs"
  using assms
proof (induction tags arbitrary: pre)
  case (Cons t tags)
  have i: "insert_at (length pre) t (pre @ xs) = (pre @ [t]) @ xs" by (simp add: insert_at_def)
  have l: "length pre + 1 = length (pre @ [t])" by simp
  have "snd (fold (\<lambda>t (i, ys). if m t = None then (i, ys) else (i + 1, insert_at i t ys)) tags (length (pre @ [t]), (pre @ [t]) @ xs)) =
      (pre @ [t]) @ tags @ xs"
    by (rule Cons.IH) (use Cons.prems in simp)
  then show ?case using Cons.prems unfolding fold_simps comp_def by (simp only: list.set_intros(1) split_conv if_False i l) simp
qed simp

lemma appended:
  "hosts st tag \<noteq> None \<Longrightarrow>
   fold (appendInitialChild tag) cs st = set_children tag (children_of tag st @ cs) st"
proof (induction cs arbitrary: st)
  case Nil
  then show ?case by (cases st) (auto simp: set_children_def children_of_def fun_upd_idem)
next
  case (Cons c cs)
  let ?st = "appendInitialChild tag c st"
  have "hosts ?st tag \<noteq> None" "children_of tag ?st = children_of tag st @ [c]"
    using Cons.prems by (auto simp: appendInitialChild_def set_children_view children_of_def)
  then show ?case using Cons.IH [of ?st] Cons.prems
    by (auto simp: appendInitialChild_def set_children_def)
qed

lemma completeInstance_ok:
  assumes "host_ok st" and "distinct cs" and "\<forall>c\<in>set cs. alive c st"
  shows "host_ok (completeInstance vc ty props cs fiber st)"
proof -
  obtain tag st1 where al: "allocateTag st = (tag, st1)" by fastforce
  have "odd (nextReactTag st)" using assms(1) by (auto simp: host_ok_def tree_ok_def)
  note fresh = allocateTag_fresh [OF this al]
  obtain st2 where ci: "createInstance vc ty props fiber st = (tag, st2)"
    and h2: "hosts st2 = (hosts st)(tag \<mapsto> \<lparr>hn_children = [], hn_attrs = vc ty\<rparr>)" and n2: "nextReactTag st2 = tag + 2"
    and u2: "native st2 = (case native st of None \<Rightarrow> None | Some u \<Rightarrow> createView tag (updatePayload (create props (vc ty) (payload_vars st))) u)"
    using fresh(4) by (simp add: createInstance_def al Let_def updateFiberProps_def precacheFiberNode_def)
  have ok2: "host_ok st2" by (rule create_ok [OF assms(1) fresh(1-3) n2 u2]) (use h2 in blast)
  obtain u where u: "native st = Some u" using assms(1) by (auto simp: host_ok_def)
  let ?u2 = "u\<lparr>nv_children := (nv_children u)(tag \<mapsto> []),
    nv_attrs := (nv_attrs u)(tag := apply_payload (updatePayload (create props (vc ty) (payload_vars st))) (\<lambda>_. JNull)), nv_created := nv_created u + 1\<rparr>"
  have n2u: "native st2 = Some ?u2" using u u2 by (simp add: createView_def)
  have c2: "children_of tag st2 = []" "hosts st2 tag \<noteq> None" using h2 by (simp_all add: children_of_def)
  show ?thesis
  proof (cases "cs = []")
    case True
    then show ?thesis using ok2 c2 by (simp add: completeInstance_def ci finalizeInitialChildren_def)
  next
    case False
    have reg: "\<forall>c\<in>set cs. nv_children ?u2 c \<noteq> None" using assms(3) u by (auto simp: alive_def)
    have "setChildren tag cs ?u2 = Some (?u2\<lparr>nv_children := (nv_children ?u2)(tag \<mapsto> cs)\<rparr>)"
      using set_children_fold [OF reg, of "[]" "[]"] by (simp add: setChildren_def Let_def)
    then have "host_ok (ui_call (setChildren tag cs) (set_children tag cs st2))"
      by (intro mirrored_change [OF ok2 n2u]) (use assms(2) c2 in \<open>auto split: if_splits\<close>)
    moreover have "children_of tag (set_children tag cs st2) = cs" using c2(2) by (simp add: children_of_def set_children_view)
    ultimately show ?thesis
      using False c2 by (simp add: completeInstance_def ci finalizeInitialChildren_def appended)
  qed
qed

lemma updateView_ok: "host_ok st \<Longrightarrow> host_ok (ui_call (updateView t pl) st)"
  by (auto simp: host_ok_def tree_ok_def updateView_def)

lemma vars_ok: "host_ok (st\<lparr>payload_vars := v\<rparr>) = host_ok st" "host_ok (updateFiberProps t ps st) = host_ok st"
  by (rule host_ok_cong, simp_all add: updateFiberProps_def)+

text \<open>A change of the children of a root.\<close>

lemma root_ok:
  assumes "host_ok st" and "r mod 10 = 1" and "\<And>u. native st = Some u \<Longrightarrow> \<exists>m. f u = Some (u\<lparr>nv_children := m\<rparr>) \<and>
      (\<forall>t ys. m t = Some ys \<longrightarrow> t \<noteq> r \<longrightarrow> nv_children u t = Some ys)"
  shows "host_ok (ui_call f st)"
proof -
  obtain u where u: "native st = Some u" "tree_ok u st" using assms(1) by (auto simp: host_ok_def)
  obtain m where m: "f u = Some (u\<lparr>nv_children := m\<rparr>)" "\<And>t ys. m t = Some ys \<Longrightarrow> t \<noteq> r \<Longrightarrow> nv_children u t = Some ys"
    using assms(3) [OF u(1)] by blast
  have other: "m t \<noteq> None \<Longrightarrow> t mod 10 \<noteq> 1 \<Longrightarrow> nv_children u t \<noteq> None" for t
    using m(2) assms(2) by (cases "t = r") auto
  have "hosts st t = Some h \<Longrightarrow> t \<noteq> r" for t h using u(2) assms(2) by (auto simp: tree_ok_def)
  then have "tree_ok (u\<lparr>nv_children := m\<rparr>) (ui_call f st)"
    using u(2) m(2) other unfolding tree_ok_def by simp
  then show ?thesis using u(1) m(1) by (simp add: host_ok_def)
qed

lemma appendToContainer_ok: "host_ok st \<Longrightarrow> r mod 10 = 1 \<Longrightarrow> host_ok (appendChildToContainer r c st)"
  unfolding appendChildToContainer_def
proof (erule root_ok)
  fix u
  show "\<exists>m. setChildren r [c] u = Some (u\<lparr>nv_children := m\<rparr>) \<and> (\<forall>t ys. m t = Some ys \<longrightarrow> t \<noteq> r \<longrightarrow> nv_children u t = Some ys)"
  proof (cases "nv_children u r")
    case None
    then have "setChildren r [c] u = Some (u\<lparr>nv_children := nv_children u\<rparr>)" by (simp add: setChildren_def)
    then show ?thesis by blast
  next
    case (Some xs)
    then obtain ys where "setChildren r [c] u = Some (u\<lparr>nv_children := (nv_children u)(r \<mapsto> ys)\<rparr>)"
      by (simp add: setChildren_def Let_def)
    then show ?thesis by (intro exI [of _ "(nv_children u)(r \<mapsto> ys)"]) auto
  qed
qed

lemma removeFromContainer_ok:
  assumes "host_ok st" and "r mod 10 = 1" shows "host_ok (removeChildFromContainer r c st)"
  unfolding removeChildFromContainer_def
proof (rule root_ok [OF _ assms(2)])
  show "host_ok (recursivelyUncacheFiberNode (nextReactTag st) c st)"
    using assms(1) host_ok_cong [of "recursivelyUncacheFiberNode (nextReactTag st) c st" st] by simp
  fix u
  show "\<exists>m. manageChildren r [] [] [] [] [0] u = Some (u\<lparr>nv_children := m\<rparr>) \<and> (\<forall>t ys. m t = Some ys \<longrightarrow> t \<noteq> r \<longrightarrow> nv_children u t = Some ys)"
  proof (cases "nv_children u r")
    case None
    then have "manageChildren r [] [] [] [] [0] u = Some (u\<lparr>nv_children := nv_children u\<rparr>)" by (simp add: manageChildren_def)
    then show ?thesis by blast
  next
    case (Some xs)
    show ?thesis
    proof (cases xs)
      case Nil
      then have "manageChildren r [] [] [] [] [0] u = Some (u\<lparr>nv_children := (nv_children u)(r \<mapsto> [])\<rparr>)"
        using Some by (simp add: manageChildren_def childrenToRemove_def Let_def)
      then show ?thesis by (intro exI [of _ "(nv_children u)(r \<mapsto> [])"]) auto
    next
      case (Cons x xs')
      then have "0 < length xs" by simp
      from manage_remove [OF Some this] show ?thesis by (metis (no_types))
    qed
  qed
qed

interpretation hcm: event_machine "host_step vc" host_ok for vc
proof
  fix st e assume ok: "host_ok st"
  show "host_ok (host_step vc st e)"
  proof (cases e)
    case (CompleteText string inText fiber)
    have "odd (nextReactTag st)" using ok by (auto simp: host_ok_def tree_ok_def)
    note fresh = allocateTag_fresh [OF this]
    show ?thesis
    proof (cases inText)
      case True
      obtain tag st1 where al: "allocateTag st = (tag, st1)" by fastforce
      show ?thesis
        by (rule create_ok [OF ok fresh(1-3) [OF al], where pl = "Some [(''text'', JString string)]"])
           (use fresh(4) [OF al] CompleteText True al in \<open>simp_all add: createTextInstance_def precacheFiberNode_def\<close>)
    qed (use ok CompleteText in \<open>simp add: createTextInstance_def\<close>)
  qed (use ok in \<open>auto simp: completeInstance_ok appendChild_ok insertBefore_ok removeChild_ok appendToContainer_ok removeFromContainer_ok
        commitUpdate_def commitTextUpdate_def setNativeProps_def hideInstance_def unhideInstance_def Let_def updateView_ok vars_ok
        split: option.split\<close>)
qed

lemma new_host_ok: "host_ok (new_host roots)"
  by (auto simp: new_host_def host_ok_def tree_ok_def)

text \<open>
  C8: However the reconciler creates, moves, inserts and removes views, native never fails on an
  index, and the subviews of every view it has registered are the children that the renderer
  keeps for it, in the same order and without duplicates; no host component has the tag of a
  root or an even tag.
\<close>

theorem native_tree_mirrors_children:
  "\<exists>u. native (foldl (host_step vc) (new_host roots) es) = Some u \<and>
     (\<forall>t h. hosts (foldl (host_step vc) (new_host roots) es) t = Some h \<longrightarrow> t mod 10 \<noteq> 1 \<and> odd t \<and>
        (\<forall>xs. nv_children u t = Some xs \<longrightarrow> xs = hn_children h \<and> distinct xs))"
  using hcm.inv_run [OF new_host_ok, of vc roots es] unfolding host_ok_def tree_ok_def by blast

section \<open>Native shows the properties\<close>

definition attrs_ok :: "(nat \<Rightarrow> native_content) \<Rightarrow> (string \<Rightarrow> attrs) \<Rightarrow> host \<Rightarrow> bool" where
  "attrs_ok H vc st \<longleftrightarrow>
     (\<forall>t h. hosts st t = Some h \<longrightarrow> hn_attrs h \<in> range vc) \<and>
     (\<forall>u t h ps. native st = Some u \<longrightarrow> hosts st t = Some h \<longrightarrow> nv_children u t \<noteq> None \<longrightarrow> instanceProps st t = Some ps \<longrightarrow>
        props_ok H (hn_attrs h) ps \<and> (\<forall>k. content (nv_attrs u t k) = content (native_view (hn_attrs h) ps k)))"

definition same_configs :: "host \<Rightarrow> host \<Rightarrow> bool" where
  "same_configs st st' \<longleftrightarrow> (\<forall>t. map_option hn_attrs (hosts st' t) = map_option hn_attrs (hosts st t))"

lemma same_configsD: "same_configs st st' \<Longrightarrow> hosts st' t = Some h' \<Longrightarrow> \<exists>h. hosts st t = Some h \<and> hn_attrs h = hn_attrs h'"
  unfolding same_configs_def by (metis (no_types, lifting) map_option_eq_Some)

text \<open>Changes of the children keep the attributes.\<close>

lemma attrs_frame:
  assumes "attrs_ok H vc st" and "same_configs st st'" and "\<And>t. instanceProps st' t = None \<or> instanceProps st' t = instanceProps st t"
    and "\<And>u'. native st' = Some u' \<Longrightarrow> \<exists>u. native st = Some u \<and> nv_attrs u' = nv_attrs u \<and>
      (\<forall>t. nv_children u' t \<noteq> None \<longrightarrow> nv_children u t \<noteq> None)"
  shows "attrs_ok H vc st'"
  unfolding attrs_ok_def
proof (intro conjI allI impI)
  show "hn_attrs h \<in> range vc" if "hosts st' t = Some h" for t h
    using assms(1) same_configsD [OF assms(2) that] unfolding attrs_ok_def by metis
next
  fix u' t h' ps k assume a: "native st' = Some u'" "hosts st' t = Some h'" "nv_children u' t \<noteq> None" "instanceProps st' t = Some ps"
  obtain u where u: "native st = Some u" "nv_attrs u' = nv_attrs u" "nv_children u t \<noteq> None" using assms(4) [OF a(1)] a(3) by blast
  obtain h where h: "hosts st t = Some h" "hn_attrs h = hn_attrs h'" using same_configsD [OF assms(2) a(2)] by blast
  have "instanceProps st t = Some ps" using assms(3) [of t] a(4) by simp
  then show "props_ok H (hn_attrs h') ps" "content (nv_attrs u' t k) = content (native_view (hn_attrs h') ps k)"
    using assms(1) u h unfolding attrs_ok_def by metis+
qed

lemma manage_frame:
  "manageChildren p a b c d e u = Some u' \<Longrightarrow> nv_attrs u' = nv_attrs u \<and> (\<forall>t. nv_children u' t \<noteq> None \<longrightarrow> nv_children u t \<noteq> None)"
  by (auto simp: manageChildren_def Let_def split: option.splits if_splits dest!: purge_only_removes)

lemma setChildren_frame:
  "setChildren p cs u = Some u' \<Longrightarrow> nv_attrs u' = nv_attrs u \<and> (\<forall>t. nv_children u' t \<noteq> None \<longrightarrow> nv_children u t \<noteq> None)"
  by (auto simp: setChildren_def Let_def split: option.splits if_splits)

lemma ui_call_frame:
  assumes "attrs_ok H vc st" and "same_configs st st1" and "native st1 = native st"
    and "\<And>t. instanceProps st1 t = None \<or> instanceProps st1 t = instanceProps st t"
    and "\<And>u u'. f u = Some u' \<Longrightarrow> nv_attrs u' = nv_attrs u \<and> (\<forall>t. nv_children u' t \<noteq> None \<longrightarrow> nv_children u t \<noteq> None)"
  shows "attrs_ok H vc (ui_call f st1)"
proof (rule attrs_frame [OF assms(1)])
  show "same_configs st (ui_call f st1)" using assms(2) by (simp add: same_configs_def)
  show "instanceProps (ui_call f st1) t = None \<or> instanceProps (ui_call f st1) t = instanceProps st t" for t
    using assms(4) by (simp add: ui_call_def)
  show "\<exists>u. native st = Some u \<and> nv_attrs u' = nv_attrs u \<and> (\<forall>t. nv_children u' t \<noteq> None \<longrightarrow> nv_children u t \<noteq> None)"
    if "native (ui_call f st1) = Some u'" for u'
    using that assms(3,5) by (auto split: option.splits)
qed

lemma set_children_configs: "same_configs st (set_children p xs st)" "instanceProps (set_children p xs st) = instanceProps st"
  by (auto simp: same_configs_def set_children_def split: option.split)

lemma uncache_props: "instanceProps (recursivelyUncacheFiberNode d t st) t' = None \<or>
    instanceProps (recursivelyUncacheFiberNode d t st) t' = instanceProps st t'"
proof (induction d arbitrary: t st)
  case (Suc d)
  have "instanceProps (fold (recursivelyUncacheFiberNode d) ts s) t' = None \<or>
      instanceProps (fold (recursivelyUncacheFiberNode d) ts s) t' = instanceProps s t'" for ts s
  proof (induction ts arbitrary: s)
    case (Cons x ts)
    then show ?case using Suc.IH [of x s] by (metis fold_simps(2))
  qed simp
  from this [of "children_of t st" "uncacheFiberNode t st"] show ?case by (auto simp: uncacheFiberNode_def split: if_splits)
qed simp

lemma same_configs_refl: "hosts st' = hosts st \<Longrightarrow> same_configs st st'"
  by (simp add: same_configs_def)

lemma children_attrs_ok:
  assumes "attrs_ok H vc st"
  shows "attrs_ok H vc (appendChild p c st)" "attrs_ok H vc (insertBefore p c b st)" "attrs_ok H vc (removeChild p c st)"
    "attrs_ok H vc (appendChildToContainer r c st)" "attrs_ok H vc (removeChildFromContainer r c st)"
proof -
  have m: "attrs_ok H vc (ui_call (manageChildren p' a b c d e) (set_children p' xs st))" for p' a b c d e xs
    by (rule ui_call_frame [OF assms set_children_configs(1)]) (simp_all add: set_children_view set_children_configs(2) manage_frame)
  show "attrs_ok H vc (appendChild p c st)" using m by (simp add: appendChild_def Let_def split: option.split)
  show "attrs_ok H vc (insertBefore p c b st)" using m by (simp add: insertBefore_def Let_def split: option.split)
  show "attrs_ok H vc (appendChildToContainer r c st)" unfolding appendChildToContainer_def
    by (rule ui_call_frame [OF assms same_configs_refl]) (simp_all add: setChildren_frame)
  show "attrs_ok H vc (removeChildFromContainer r c st)" unfolding removeChildFromContainer_def
    by (rule ui_call_frame [OF assms same_configs_refl]) (simp_all add: manage_frame uncache_props)
  let ?st1 = "recursivelyUncacheFiberNode (nextReactTag st) c st"
  have "same_configs st (set_children p xs ?st1)" for xs
    using set_children_configs(1) [of ?st1 p xs] by (simp add: same_configs_def)
  then show "attrs_ok H vc (removeChild p c st)" unfolding removeChild_def Let_def
    by (rule ui_call_frame [OF assms]) (simp_all add: set_children_view set_children_configs(2) manage_frame uncache_props)
qed

lemma create_view:
  assumes "wf_attrs H va" and "props_ok H va ps"
  shows "content (apply_payload (updatePayload (create ps va vars)) (\<lambda>_. JNull) k) = content (native_view va ps k)"
  using diff_view [OF assms(1) props_ok_nil assms(2), of "\<lambda>_. JNull" k vars]
  by (simp add: create_def addProperties_def diff_def native_view_nil)

lemma createInstance_attrs_ok:
  assumes "attrs_ok H vc st" and "host_ok st" and "wf_attrs H (vc ty)" and "props_ok H (vc ty) ps"
  shows "attrs_ok H vc (snd (createInstance vc ty ps fiber st))"
proof -
  obtain tag st1 where al: "allocateTag st = (tag, st1)" by fastforce
  obtain u where u: "native st = Some u" "tree_ok u st" using assms(2) by (auto simp: host_ok_def)
  have "odd (nextReactTag st)" using u(2) by (simp add: tree_ok_def)
  note fresh = allocateTag_fresh [OF this al]
  let ?pl = "updatePayload (create ps (vc ty) (payload_vars st))"
  let ?st' = "snd (createInstance vc ty ps fiber st)"
  have n: "native ?st' = createView tag ?pl u" and h: "hosts ?st' = (hosts st)(tag \<mapsto> \<lparr>hn_children = [], hn_attrs = vc ty\<rparr>)"
    and i: "instanceProps ?st' = (instanceProps st)(tag \<mapsto> ps)"
    using fresh(4) u(1) by (simp_all add: createInstance_def al Let_def updateFiberProps_def precacheFiberNode_def ui_call_def)
  show ?thesis unfolding attrs_ok_def
  proof (intro conjI allI impI)
    show "hn_attrs h' \<in> range vc" if "hosts ?st' t = Some h'" for t h'
      using assms(1) that h unfolding attrs_ok_def by (auto split: if_splits)
  next
    fix u' t h' qs k
    assume a: "native ?st' = Some u'" "hosts ?st' t = Some h'" "nv_children u' t \<noteq> None" "instanceProps ?st' t = Some qs"
    show "props_ok H (hn_attrs h') qs" "content (nv_attrs u' t k) = content (native_view (hn_attrs h') qs k)"
      using a n h i u(1) assms(1,4) create_view [OF assms(3,4), of "payload_vars st" k]
      unfolding attrs_ok_def createView_def by (auto split: if_splits)
  qed
qed

lemma completeInstance_attrs_ok:
  assumes "attrs_ok H vc st" and "host_ok st" and "wf_attrs H (vc ty)" and "props_ok H (vc ty) ps"
  shows "attrs_ok H vc (completeInstance vc ty ps cs fiber st)"
proof -
  obtain tag st2 where ci: "createInstance vc ty ps fiber st = (tag, st2)" by fastforce
  have "hosts st2 tag \<noteq> None" using ci
    by (auto simp: createInstance_def allocateTag_def Let_def updateFiberProps_def precacheFiberNode_def)
  note eq = appended [OF this, of cs]
  have ok: "attrs_ok H vc st2" using createInstance_attrs_ok [OF assms, of fiber] ci by simp
  let ?st3 = "set_children tag (children_of tag st2 @ cs) st2"
  have "attrs_ok H vc ?st3"
    by (rule attrs_frame [OF ok set_children_configs(1)]) (simp_all add: set_children_view set_children_configs(2))
  moreover have "attrs_ok H vc (ui_call (setChildren tag xs) ?st3)" for xs
    by (rule ui_call_frame [OF ok set_children_configs(1)]) (simp_all add: set_children_view set_children_configs(2) setChildren_frame)
  ultimately show ?thesis by (simp add: completeInstance_def ci eq finalizeInitialChildren_def)
qed

lemma text_attrs_ok:
  assumes "attrs_ok H vc st" and "host_ok st"
  shows "attrs_ok H vc (out_state (createTextInstance newText inText fiber st))"
proof (cases inText)
  case True
  obtain tag st1 where al: "allocateTag st = (tag, st1)" by fastforce
  obtain u where u: "native st = Some u" "tree_ok u st" using assms(2) by (auto simp: host_ok_def)
  have "odd (nextReactTag st)" using u(2) by (simp add: tree_ok_def)
  note fresh = allocateTag_fresh [OF this al]
  have "hosts st t = Some h \<Longrightarrow> t \<noteq> tag" for t h using u(2) fresh(3) by (fastforce simp: tree_ok_def)
  then show ?thesis using assms(1) u(1) fresh(4) al True
    unfolding attrs_ok_def createTextInstance_def precacheFiberNode_def ui_call_def createView_def by simp
qed (simp add: createTextInstance_def assms(1))

lemma apply_none: "apply_payload None view = view"
  by (simp add: apply_payload_def fun_eq_iff)

lemma commitUpdate_attrs_ok:
  assumes "attrs_ok H vc st" and "\<And>ty. wf_attrs H (vc ty)" and "\<And>ty. props_ok H (vc ty) new" and "mounted_host t st"
    and "instanceProps st t = Some old"
  shows "attrs_ok H vc (commitUpdate t old new st)"
proof -
  let ?st' = "commitUpdate t old new st" and ?vars = "diff old new (attrs_of t st) (payload_vars st)"
  obtain u h where u: "native st = Some u" "hosts st t = Some h" "nv_children u t \<noteq> None"
    using assms(4) by (auto simp: mounted_host_def alive_def split: option.splits)
  obtain ty where ty: "hn_attrs h = vc ty" using assms(1) u(2) unfolding attrs_ok_def by blast
  have h: "hosts ?st' = hosts st" and i: "instanceProps ?st' = (instanceProps st)(t \<mapsto> new)"
    by (simp_all add: commitUpdate_def Let_def updateFiberProps_def ui_call_def)
  have va: "attrs_of t st = vc ty" using u(2) ty by (simp add: attrs_of_def)
  have n: "native ?st' = Some (u\<lparr>nv_attrs := (nv_attrs u)(t := apply_payload (updatePayload ?vars) (nv_attrs u t))\<rparr>)"
    using u(1) by (simp add: commitUpdate_def Let_def updateFiberProps_def ui_call_def updateView_def attrs_of_def apply_none)
  have old: "props_ok H (vc ty) old" "\<And>k. content (nv_attrs u t k) = content (native_view (vc ty) old k)"
    using assms(1) u assms(5) ty unfolding attrs_ok_def by metis+
  have upd: "content (apply_payload (updatePayload ?vars) (nv_attrs u t) k) = content (native_view (vc ty) new k)" for k
    using diff_view [OF assms(2) old(1) assms(3), of "nv_attrs u t" k] old(2) va by simp
  show ?thesis unfolding attrs_ok_def h n i
  proof (intro conjI allI impI)
    show "hn_attrs h' \<in> range vc" if "hosts st t' = Some h'" for t' h'
      using assms(1) that unfolding attrs_ok_def by blast
  next
    fix u' t' h' qs k
    assume a: "Some (u\<lparr>nv_attrs := (nv_attrs u)(t := apply_payload (updatePayload ?vars) (nv_attrs u t))\<rparr>) = Some u'"
      "hosts st t' = Some h'" "nv_children u' t' \<noteq> None" "((instanceProps st)(t \<mapsto> new)) t' = Some qs"
    have "props_ok H (hn_attrs h') qs \<and> content (nv_attrs u' t' k) = content (native_view (hn_attrs h') qs k)"
    proof (cases "t' = t")
      case True
      then show ?thesis using a u(2) ty assms(3) upd [of k] by auto
    next
      case False
      then show ?thesis using a u(1) assms(1) unfolding attrs_ok_def by auto
    qed
    then show "props_ok H (hn_attrs h') qs" "content (nv_attrs u' t' k) = content (native_view (hn_attrs h') qs k)" by blast+
  qed
qed

text \<open>
  The properties that the reconciler renders; the direct manipulation of views and the hiding of
  a suspended subtree are left aside.
\<close>

fun event_ok :: "(nat \<Rightarrow> native_content) \<Rightarrow> (string \<Rightarrow> attrs) \<Rightarrow> host_event \<Rightarrow> bool" where
  "event_ok H vc (Complete ty ps cs fiber) \<longleftrightarrow> props_ok H (vc ty) ps"
| "event_ok H vc (CommitUpdate t ps) \<longleftrightarrow> (\<forall>va\<in>range vc. props_ok H va ps)"
| "event_ok H vc (SetNativeProps t ps) \<longleftrightarrow> False"
| "event_ok H vc (Hide a t) \<longleftrightarrow> False"
| "event_ok H vc (Unhide a b t ps) \<longleftrightarrow> False"
| "event_ok H vc _ \<longleftrightarrow> True"

lemma attrs_ok_step:
  assumes "\<And>ty. wf_attrs H (vc ty)" and "event_ok H vc e" and "host_ok st \<and> attrs_ok H vc st"
  shows "host_ok (host_step vc st e) \<and> attrs_ok H vc (host_step vc st e)"
proof
  show "host_ok (host_step vc st e)" using assms(3) hcm.inv_step by blast
  have ok: "host_ok st" "attrs_ok H vc st" using assms(3) by auto
  show "attrs_ok H vc (host_step vc st e)"
  proof (cases e)
    case (CommitUpdate t ps)
    then show ?thesis using ok assms(2) commitUpdate_attrs_ok [OF ok(2) assms(1)] by (auto split: option.split)
  next
    case (CommitTextUpdate t newText)
    then show ?thesis using ok(2) by (auto simp: attrs_ok_def commitTextUpdate_def ui_call_def updateView_def split: option.splits if_splits)
  qed (use ok assms(2) completeInstance_attrs_ok [OF ok(2,1) assms(1)] text_attrs_ok [OF ok(2,1)] children_attrs_ok [OF ok(2)] in auto)
qed


section \<open>Hiding and showing a view\<close>

lemma hidden_get:
  "get_prop s (hidden_props a b ps) = (if s = ''style'' then JArray a [get_prop ''style'' ps, display_none b] else get_prop s ps)"
  by (simp add: hidden_props_def get_prop_update)

lemma hidden_owned:
  assumes "map_of va ''style'' = Some (NestedAttr w)" and "props_ok H va ps" and "props_ok H va (hidden_props a b ps)" and "owns va s k"
  shows "owned_value va s k (hidden_props a b ps) =
    later (owned_value va s k ps) (if s = ''style'' \<and> k = ''display'' then JString ''none'' else JUndefined)"
proof (cases "s = ''style''")
  case True
  have "style_ok H (get_prop ''style'' ps)" "style_ok H (get_prop ''style'' (hidden_props a b ps))"
    using assms(1-3) by (auto simp: props_ok_def)
  then show ?thesis using True assms(1) flattenStyle_get [of H "get_prop ''style'' ps" k]
      flattenStyle_get [of H "get_prop ''style'' (hidden_props a b ps)" k]
    by (simp add: owned_value_def hidden_get display_none_def)
next
  case False
  then show ?thesis by (simp add: owned_value_def hidden_get split: option.split attr_config.split)
qed

lemma hide_view:
  assumes "wf_attrs H va" and "map_of va ''style'' = Some (NestedAttr w)" and "props_ok H va ps" and "props_ok H va (hidden_props a b ps)"
    and "props_ok H va [(''style'', display_none c)]" and "content (view k) = content (native_view va ps k)"
  shows "content (apply_payload (updatePayload (create [(''style'', display_none c)] va vars)) view k) =
    content (native_view va (hidden_props a b ps) k)"
proof (cases "List.find (\<lambda>s. owns va s k) (map fst va)")
  case None
  then have "\<And>s. \<not> owns va s k" using owner_find(2) by blast
  then have "sent k (create [(''style'', display_none c)] va vars) = JUndefined"
    using diff_sends_nothing_else [OF assms(1) props_ok_nil assms(5)] by (simp add: create_def addProperties_def diff_def)
  then show ?thesis using assms(6) None by (simp add: apply_sent native_view_def)
next
  case (Some s)
  then have own: "owns va s k" by (rule owner_find(1))
  let ?c = "owned_config va s k" and ?n = "owned_value va s k [(''style'', display_none c)]"
  have u: "owned_value va s k [] = JUndefined"
    by (simp add: owned_value_def flat_props_def split: option.split attr_config.split)
  have n: "?n = (if s = ''style'' \<and> k = ''display'' then JString ''none'' else JUndefined)"
    using assms(2) by (auto simp: owned_value_def flat_props_def display_none_def split: option.split attr_config.split)
  have "sent_ok ?c JUndefined ?n (sent k (create [(''style'', display_none c)] va vars))"
    using diff_sent [OF assms(1) props_ok_nil assms(5) own, of vars] by (simp add: create_def addProperties_def diff_def u)
  moreover have "native_of ?c (JString ''none'') \<noteq> JUndefined" by (rule native_of_defined [OF owned_flat [OF assms(1) own]])
  ultimately show ?thesis
    using assms(6) Some n hidden_owned [OF assms(2-4) own]
    by (auto simp: apply_sent native_view_def sent_ok_def agrees_def later_def split: if_splits)
qed

text \<open>
  Hiding a view and showing it again restores its attributes: native holds those of its
  properties, the value of \<open>display\<close> in its style included.
\<close>

theorem unhide_restores_view:
  assumes "wf_attrs H va" and "map_of va ''style'' = Some (NestedAttr w)" and "props_ok H va ps"
    and "props_ok H va (hidden_props a b ps)" and "props_ok H va [(''style'', display_none c)]"
    and "native st = Some u" and "attrs_of t st = va" and "\<And>k. content (nv_attrs u t k) = content (native_view va ps k)"
  shows "\<exists>u'. native (unhideInstance a b t ps (hideInstance c t st)) = Some u' \<and>
    (\<forall>k. content (nv_attrs u' t k) = content (native_view va ps k))"
proof -
  let ?v1 = "create [(''style'', display_none c)] va (payload_vars st)"
  let ?v2 = "diff (hidden_props a b ps) ps va ?v1"
  let ?h = "apply_payload (updatePayload ?v1) (nv_attrs u t)"
  have "attrs_of t (hideInstance c t st) = va" "payload_vars (hideInstance c t st) = ?v1"
    using assms(7) by (simp_all add: hideInstance_def Let_def attrs_of_def ui_call_def)
  moreover have "native (hideInstance c t st) = updateView t (updatePayload ?v1) u"
    using assms(6,7) by (simp add: hideInstance_def Let_def)
  ultimately have "\<exists>u'. native (unhideInstance a b t ps (hideInstance c t st)) = Some u' \<and>
      nv_attrs u' t = apply_payload (updatePayload ?v2) ?h"
    by (simp add: unhideInstance_def Let_def updateView_def)
  moreover have "content (apply_payload (updatePayload ?v2) ?h k) = content (native_view va ps k)" for k
    by (rule diff_view [OF assms(1,4,3)]) (rule hide_view [OF assms(1-5) assms(8)])
  ultimately show ?thesis by metis
qed

section \<open>Witnesses\<close>

text \<open>A view with two children, which are then swapped, and an update of the parent.\<close>

definition hc_attrs :: "string \<Rightarrow> attrs" where
  "hc_attrs ty = [(''opacity'', Attr), (''style'', NestedAttr [(''display'', Attr)])]"

definition hc_opacity :: "real \<Rightarrow> props" where
  "hc_opacity x = [(''opacity'', JNumber (Finite x))]"

definition hc_events :: "host_event list" where
  "hc_events = [Complete ''A'' [] [] 0, Complete ''B'' [] [] 1, Complete ''P'' (hc_opacity 1) [3, 5] 2,
     InsertBefore 7 5 3, CommitUpdate 7 (hc_opacity 0)]"

lemmas hc_eval = completeInstance_def createInstance_def allocateTag_def ui_call_def createView_def create_def addProperties_def
  diffProperties.simps diff_next_def normalise_def mark_def sent_def put_def defaultDiffer_def updateFiberProps_def precacheFiberNode_def finalizeInitialChildren_def
  appendInitialChild_def set_children_def children_of_def setChildren_def insert_at_def insertBefore_def manageChildren_def
  childrenToRemove_def js_index_def splice_in_def remove_at_def commitUpdate_def updateView_def diff_def diff_prev_def
  attrs_of_def mounted_host_def alive_def

lemma hc_run:
  "\<exists>st u h. foldl (host_step hc_attrs) (new_host [1]) hc_events = st \<and> native st = Some u \<and> hosts st 7 = Some h \<and>
     nv_children u 7 = Some [5, 3] \<and> hn_children h = [5, 3] \<and> hn_attrs h = hc_attrs ''P'' \<and> instanceProps st 7 = Some (hc_opacity 0)"
  by (simp add: hc_events_def new_host_def start_state_def hc_eval hc_attrs_def hc_opacity_def Let_def)

theorem native_tree_mirrors_children_witness:
  "\<exists>u h. native (foldl (host_step hc_attrs) (new_host [1]) hc_events) = Some u \<and>
     hosts (foldl (host_step hc_attrs) (new_host [1]) hc_events) 7 = Some h \<and> nv_children u 7 = Some (hn_children h) \<and> distinct (hn_children h)"
  using native_tree_mirrors_children [of hc_attrs "[1]" hc_events] hc_run by force

lemma hc_attrs_wf: "wf_attrs H (hc_attrs ty)"
  by (auto simp: wf_attrs_def hc_attrs_def flat_attrs_def owns_def split: if_splits)

lemma hc_opacity_ok: "props_ok H (hc_attrs ty) (hc_opacity x)" "props_ok H (hc_attrs ty) []"
  by (auto simp: props_ok_def hc_attrs_def hc_opacity_def defined_props_def split: if_splits)


definition hc_style :: props where
  "hc_style = [(''style'', JObject 2 ''Object'' [(''display'', JString ''flex'')])]"

definition hc_heap :: "nat \<Rightarrow> native_content" where
  "hc_heap a = (if a = 2 then content (JObject 2 ''Object'' [(''display'', JString ''flex'')])
     else if a = 3 then content (JArray 3 [get_prop ''style'' hc_style, display_none 4]) else content (display_none 4))"

definition hc_shown :: host where
  "hc_shown = (new_host [1])\<lparr>hosts := [3 \<mapsto> \<lparr>hn_children = [], hn_attrs = hc_attrs ''P''\<rparr>],
     native := Some \<lparr>nv_children = [3 \<mapsto> []], nv_attrs = (\<lambda>_. native_view (hc_attrs ''P'') hc_style), nv_created = 1\<rparr>\<rparr>"

theorem unhide_restores_view_witness:
  "\<exists>u'. native (unhideInstance 3 4 3 hc_style (hideInstance 5 3 hc_shown)) = Some u' \<and>
    (\<forall>k. content (nv_attrs u' 3 k) = content (native_view (hc_attrs ''P'') hc_style k))"
proof (rule unhide_restores_view [where H = hc_heap])
  show "map_of (hc_attrs ''P'') ''style'' = Some (NestedAttr [(''display'', Attr)])" by (simp add: hc_attrs_def)
  show "props_ok hc_heap (hc_attrs ''P'') hc_style" "props_ok hc_heap (hc_attrs ''P'') [(''style'', display_none 5)]"
    by (auto simp: props_ok_def hc_attrs_def hc_style_def hc_heap_def display_none_def defined_props_def split: if_splits)
  show "props_ok hc_heap (hc_attrs ''P'') (hidden_props 3 4 hc_style)"
    by (auto simp: props_ok_def hc_attrs_def hc_style_def hc_heap_def hidden_props_def display_none_def defined_props_def split: if_splits)
  show "native hc_shown = Some \<lparr>nv_children = [3 \<mapsto> []], nv_attrs = (\<lambda>_. native_view (hc_attrs ''P'') hc_style), nv_created = 1\<rparr>"
    by (simp add: hc_shown_def)
qed (simp_all add: hc_attrs_wf hc_shown_def attrs_of_def)

end
