(* ===== verification/UpdateQueue.thy ===== *)
theory UpdateQueue
  imports JSValue "HOL-Library.AList"
begin

text \<open>
  The update queue of class components and roots in
  \<open>Libraries/Renderer/implementations/ReactNativeRenderer-dev.js\<close>: \<open>enqueueUpdate\<close>, \<open>cloneUpdateQueue\<close>,
  \<open>processUpdateQueue\<close>, \<open>commitUpdateQueue\<close> and \<open>enqueueCapturedUpdate\<close>.

  The code keeps updates in circular linked lists, points to the last element of each, merges two
  lists by exchanging two \<open>next\<close> pointers and shares the nodes between the current and the
  work-in-progress queue.  The model keeps this: updates live in a store and are known by their
  address, and a queue holds the address of its last update or \<open>None\<close>.  Updater functions are pure,
  as React requires of them, so no update is enqueued while a queue is processed.
\<close>

section \<open>Updates and queues\<close>

type_synonym js_object = "(string \<times> jsval) list"

text \<open>The state of a component is an object or \<open>null\<close>.\<close>

type_synonym comp_state = "js_object option"

datatype payload =
    Value comp_state
  | Updater "comp_state \<Rightarrow> js_object \<Rightarrow> comp_state"

datatype update_tag = UpdateState payload | ReplaceState payload | ForceUpdate | CaptureUpdate payload

record update =
  u_expirationTime :: nat
  u_tag :: update_tag
  u_callback :: "nat option"
  u_next :: "nat option"

record update_queue =
  baseState :: comp_state
  baseQueue :: "nat option"
  effects :: "nat list"

text \<open>
  A fiber with its alternate: the queue of the current fiber, the queue of the work in progress,
  \<open>shared.pending\<close> of both, the states of the two fibers, and the callbacks that were called.
\<close>

record class_fiber =
  store :: "update list"
  pending :: "nat option"
  current :: update_queue
  workInProgress :: update_queue
  current_state :: comp_state
  memoizedState :: comp_state
  expirationTime :: nat
  hasForceUpdate :: bool
  called :: "nat list"

definition Sync :: nat where
  "Sync = 1073741823"

definition set_next :: "nat \<Rightarrow> nat option \<Rightarrow> update list \<Rightarrow> update list" where
  "set_next a n h = h[a := (h ! a)\<lparr>u_next := n\<rparr>]"

text \<open>\<open>createUpdate\<close>: the new update points to itself.\<close>

definition createUpdate :: "nat \<Rightarrow> update_tag \<Rightarrow> nat option \<Rightarrow> class_fiber \<Rightarrow> nat \<times> class_fiber" where
  "createUpdate time tg cb f =
     (let a = length (store f)
      in (a, f\<lparr>store := store f @ [\<lparr>u_expirationTime = time, u_tag = tg, u_callback = cb, u_next = Some a\<rparr>]\<rparr>))"

definition enqueueUpdate :: "nat \<Rightarrow> class_fiber \<Rightarrow> class_fiber" where
  "enqueueUpdate a f =
     (case pending f of
        None \<Rightarrow> f\<lparr>store := set_next a (Some a) (store f), pending := Some a\<rparr>
      | Some l \<Rightarrow> f\<lparr>store := set_next l (Some a) (set_next a (u_next (store f ! l)) (store f)), pending := Some a\<rparr>)"

definition initializeUpdateQueue :: "comp_state \<Rightarrow> update_queue" where
  "initializeUpdateQueue s = \<lparr>baseState = s, baseQueue = None, effects = []\<rparr>"

text \<open>The work in progress starts with the queue object of the current fiber, which is cloned.\<close>

definition cloneUpdateQueue :: "class_fiber \<Rightarrow> class_fiber" where
  "cloneUpdateQueue f = f\<lparr>workInProgress := current f, memoizedState := current_state f\<rparr>"

definition enqueueCapturedUpdate :: "nat \<Rightarrow> class_fiber \<Rightarrow> class_fiber" where
  "enqueueCapturedUpdate a f =
     (case baseQueue (workInProgress f) of
        None \<Rightarrow> f\<lparr>store := set_next a (Some a) (store f), workInProgress := (workInProgress f)\<lparr>baseQueue := Some a\<rparr>\<rparr>
      | Some l \<Rightarrow> f\<lparr>store := set_next l (Some a) (set_next a (u_next (store f ! l)) (store f))\<rparr>)"

section \<open>The state after an update\<close>

definition call_payload :: "payload \<Rightarrow> comp_state \<Rightarrow> js_object \<Rightarrow> comp_state" where
  "call_payload p prevState nextProps = (case p of Value v \<Rightarrow> v | Updater g \<Rightarrow> g prevState nextProps)"

definition object_assign :: "comp_state \<Rightarrow> js_object \<Rightarrow> js_object" where
  "object_assign prevState partial =
     fold (\<lambda>(k, v). AList.update k v) partial (case prevState of None \<Rightarrow> [] | Some s \<Rightarrow> s)"

definition merge_partial :: "payload \<Rightarrow> comp_state \<Rightarrow> js_object \<Rightarrow> comp_state" where
  "merge_partial p prevState nextProps =
     (case call_payload p prevState nextProps of None \<Rightarrow> prevState | Some partial \<Rightarrow> Some (object_assign prevState partial))"

fun getStateFromUpdate :: "js_object \<Rightarrow> update_tag \<Rightarrow> comp_state \<Rightarrow> comp_state" where
  "getStateFromUpdate nextProps (ReplaceState p) prevState = call_payload p prevState nextProps"
| "getStateFromUpdate nextProps (CaptureUpdate p) prevState = merge_partial p prevState nextProps"
| "getStateFromUpdate nextProps (UpdateState p) prevState = merge_partial p prevState nextProps"
| "getStateFromUpdate nextProps ForceUpdate prevState = prevState"

section \<open>Processing the queue\<close>

text \<open>The variables of the loop, with the store.\<close>

record loop_vars =
  l_store :: "update list"
  newState :: comp_state
  newExpirationTime :: nat
  newBaseState :: comp_state
  newBaseQueueFirst :: "nat option"
  newBaseQueueLast :: "nat option"
  l_effects :: "nat list"
  l_force :: bool

text \<open>A clone of an update is appended to the new base queue.\<close>

definition append_clone :: "nat \<Rightarrow> update \<Rightarrow> loop_vars \<Rightarrow> loop_vars" where
  "append_clone time u st =
     (let a = length (l_store st);
          st1 = st\<lparr>l_store := l_store st @ [u\<lparr>u_expirationTime := time, u_next := None\<rparr>]\<rparr>
      in case newBaseQueueLast st of
           None \<Rightarrow> st1\<lparr>newBaseQueueFirst := Some a, newBaseQueueLast := Some a\<rparr>
         | Some l \<Rightarrow> st1\<lparr>l_store := set_next l (Some a) (l_store st1), newBaseQueueLast := Some a\<rparr>)"

definition is_force :: "update_tag \<Rightarrow> bool" where
  "is_force tg = (case tg of ForceUpdate \<Rightarrow> True | _ \<Rightarrow> False)"

definition process_one :: "js_object \<Rightarrow> nat \<Rightarrow> nat \<Rightarrow> loop_vars \<Rightarrow> loop_vars" where
  "process_one props renderExpirationTime a st =
     (let u = l_store st ! a
      in if u_expirationTime u < renderExpirationTime
         then let st1 = append_clone (u_expirationTime u) u st;
                  st2 = (if newBaseQueueLast st = None then st1\<lparr>newBaseState := newState st\<rparr> else st1)
              in st2\<lparr>newExpirationTime := max (newExpirationTime st) (u_expirationTime u)\<rparr>
         else let st1 = (if newBaseQueueLast st = None then st else append_clone Sync u st);
                  st2 = st1\<lparr>newState := getStateFromUpdate props (u_tag u) (newState st),
                            l_force := (l_force st \<or> is_force (u_tag u))\<rparr>
              in if u_callback u = None then st2 else st2\<lparr>l_effects := l_effects st @ [a]\<rparr>)"

text \<open>The loop follows \<open>next\<close> until it is back at the first update; a list has at most as many updates as the store.\<close>

primrec process_loop :: "nat \<Rightarrow> js_object \<Rightarrow> nat \<Rightarrow> nat \<Rightarrow> nat \<Rightarrow> loop_vars \<Rightarrow> loop_vars" where
  "process_loop 0 props r fst_addr a st = st"
| "process_loop (Suc n) props r fst_addr a st =
     (let st1 = process_one props r a st
      in case u_next (l_store st1 ! a) of
           None \<Rightarrow> st1
         | Some b \<Rightarrow> if b = fst_addr then st1 else process_loop n props r fst_addr b st1)"

text \<open>The pending updates are moved to the end of the base queue, of the current queue too.\<close>

definition merge_pending :: "class_fiber \<Rightarrow> class_fiber" where
  "merge_pending f =
     (case pending f of
        None \<Rightarrow> f
      | Some p \<Rightarrow>
          let h = (case baseQueue (workInProgress f) of
                     None \<Rightarrow> store f
                   | Some b \<Rightarrow> set_next p (u_next (store f ! b)) (set_next b (u_next (store f ! p)) (store f)))
          in f\<lparr>store := h, workInProgress := (workInProgress f)\<lparr>baseQueue := Some p\<rparr>, pending := None,
               current := (current f)\<lparr>baseQueue := Some p\<rparr>\<rparr>)"

text \<open>The variables before the loop, and the new base queue closed after it.\<close>

definition loop_start :: "class_fiber \<Rightarrow> loop_vars" where
  "loop_start f =
     \<lparr>l_store = store f, newState = baseState (workInProgress f), newExpirationTime = 0, newBaseState = None,
      newBaseQueueFirst = None, newBaseQueueLast = None, l_effects = effects (workInProgress f), l_force = False\<rparr>"

definition close_ring :: "loop_vars \<Rightarrow> update list" where
  "close_ring st = (case newBaseQueueLast st of None \<Rightarrow> l_store st | Some l \<Rightarrow> set_next l (newBaseQueueFirst st) (l_store st))"

definition processUpdateQueue :: "js_object \<Rightarrow> nat \<Rightarrow> class_fiber \<Rightarrow> class_fiber" where
  "processUpdateQueue props renderExpirationTime f =
     (let f1 = merge_pending (f\<lparr>hasForceUpdate := False\<rparr>)
      in case baseQueue (workInProgress f1) of
           None \<Rightarrow> f1
         | Some b \<Rightarrow>
             let st = (case u_next (store f1 ! b) of
                         None \<Rightarrow> loop_start f1
                       | Some a \<Rightarrow> process_loop (length (store f1)) props renderExpirationTime a a (loop_start f1));
                 bs = (if newBaseQueueLast st = None then newState st else newBaseState st)
             in f1\<lparr>store := close_ring st, workInProgress := \<lparr>baseState = bs, baseQueue = newBaseQueueLast st, effects = l_effects st\<rparr>,
                   expirationTime := newExpirationTime st, memoizedState := newState st, hasForceUpdate := l_force st\<rparr>)"

section \<open>Committing\<close>

text \<open>The callbacks of the effects are called once; the queue and the state of the work in progress become current.\<close>

definition call_effect :: "nat \<Rightarrow> class_fiber \<Rightarrow> class_fiber" where
  "call_effect a f =
     (case u_callback (store f ! a) of
        None \<Rightarrow> f
      | Some c \<Rightarrow> f\<lparr>store := (store f)[a := (store f ! a)\<lparr>u_callback := None\<rparr>], called := called f @ [c]\<rparr>)"

definition commitUpdateQueue :: "class_fiber \<Rightarrow> class_fiber" where
  "commitUpdateQueue f =
     fold call_effect (effects (workInProgress f)) (f\<lparr>workInProgress := (workInProgress f)\<lparr>effects := []\<rparr>\<rparr>)"

definition commit_fiber :: "class_fiber \<Rightarrow> class_fiber" where
  "commit_fiber f = (let f1 = commitUpdateQueue f in f1\<lparr>current := workInProgress f1, current_state := memoizedState f1\<rparr>)"

section \<open>Circular lists\<close>

fun path :: "update list \<Rightarrow> nat list \<Rightarrow> bool" where
  "path h [] \<longleftrightarrow> True"
| "path h [a] \<longleftrightarrow> a < length h"
| "path h (a # b # xs) \<longleftrightarrow> a < length h \<and> u_next (h ! a) = Some b \<and> path h (b # xs)"

definition ring :: "update list \<Rightarrow> nat option \<Rightarrow> nat list \<Rightarrow> bool" where
  "ring h q xs \<longleftrightarrow>
     (case q of
        None \<Rightarrow> xs = []
      | Some l \<Rightarrow> xs \<noteq> [] \<and> distinct xs \<and> path h xs \<and> l = last xs \<and> u_next (h ! l) = Some (hd xs))"

lemma path_append: "path h (xs @ ys) \<longleftrightarrow> path h xs \<and> path h ys \<and> (xs \<noteq> [] \<longrightarrow> ys \<noteq> [] \<longrightarrow> u_next (h ! last xs) = Some (hd ys))"
proof (induction xs rule: induct_list012)
  case (2 a)
  then show ?case by (cases ys) auto
qed auto

lemma path_bound: "path h xs \<Longrightarrow> a \<in> set xs \<Longrightarrow> a < length h"
  by (induction h xs rule: path.induct) auto

lemma path_cong:
  "path h xs \<Longrightarrow> length h \<le> length h' \<Longrightarrow> (\<And>a. a \<in> set (butlast xs) \<Longrightarrow> u_next (h' ! a) = u_next (h ! a)) \<Longrightarrow> path h' xs"
  by (induction h xs rule: path.induct) auto

lemma ring_cong:
  assumes "ring h q xs" and "length h \<le> length h'" and "\<And>a. a \<in> set xs \<Longrightarrow> u_next (h' ! a) = u_next (h ! a)"
  shows "ring h' q xs"
  using assms path_cong [of h xs h'] by (cases q) (auto simp: ring_def dest: in_set_butlastD)

lemma ring_bound: "ring h q xs \<Longrightarrow> a \<in> set xs \<Longrightarrow> a < length h"
  by (cases q) (auto simp: ring_def path_bound)

lemma set_next_nth: "set_next a n h ! b = (if a = b \<and> a < length h then (h ! b)\<lparr>u_next := n\<rparr> else h ! b)"
  by (cases "a < length h") (simp_all add: set_next_def nth_list_update not_less list_update_beyond)

lemma set_next_simps [simp]:
  "length (set_next a n h) = length h"
  "a < length h \<Longrightarrow> u_next (set_next a n h ! b) = (if b = a then n else u_next (h ! b))"
  "u_tag (set_next a n h ! b) = u_tag (h ! b)" "u_callback (set_next a n h ! b) = u_callback (h ! b)"
  "u_expirationTime (set_next a n h ! b) = u_expirationTime (h ! b)"
  by (simp add: set_next_def) (auto simp: set_next_nth)

text \<open>The last update of a path becomes linked to another path.\<close>

lemma last_once: "distinct xs \<Longrightarrow> xs \<noteq> [] \<Longrightarrow> last xs \<notin> set (butlast xs)"
  using append_butlast_last_id [of xs] distinct_append [of "butlast xs" "[last xs]"] by simp

lemma path_link:
  assumes "path h xs" and "path h ys" and "distinct xs" and "last xs \<notin> set ys" and "xs \<noteq> []" and "ys \<noteq> []"
  shows "path (set_next (last xs) (Some (hd ys)) h) (xs @ ys)"
proof -
  have l: "last xs < length h" using path_bound [OF assms(1)] assms(5) by simp
  have "last xs \<notin> set (butlast xs)" using assms(3,5) by (rule last_once)
  then have "path (set_next (last xs) (Some (hd ys)) h) xs" by (intro path_cong [OF assms(1)]) (auto simp: l)
  moreover have "path (set_next (last xs) (Some (hd ys)) h) ys"
    using assms(4) by (intro path_cong [OF assms(2)]) (auto simp: l dest: in_set_butlastD)
  ultimately show ?thesis using l by (simp add: path_append)
qed

lemma ring_merge:
  assumes "ring h (Some b) xs" and "ring h (Some p) ys" and "set xs \<inter> set ys = {}"
  shows "ring (set_next p (u_next (h ! b)) (set_next b (u_next (h ! p)) h)) (Some p) (xs @ ys)"
proof -
  have x: "xs \<noteq> []" "distinct xs" "path h xs" "b = last xs" "u_next (h ! b) = Some (hd xs)"
    and y: "ys \<noteq> []" "distinct ys" "path h ys" "p = last ys" "u_next (h ! p) = Some (hd ys)"
    using assms(1,2) by (auto simp: ring_def)
  have mem: "b \<in> set xs" "p \<in> set ys" using x(1,4) y(1,4) by simp_all
  then have bp: "b < length h" "p < length h" "b \<notin> set ys" "p \<notin> set xs"
    using path_bound [OF x(3) mem(1)] path_bound [OF y(3) mem(2)] assms(3) by (auto simp: disjoint_iff)
  let ?h1 = "set_next b (Some (hd ys)) h"
  have "path ?h1 (xs @ ys)" using path_link [OF x(3) y(3) x(2) _ x(1) y(1)] x(4) bp(3) by simp
  then have "path (set_next p (Some (hd xs)) ?h1) (xs @ ys)"
  proof (rule path_cong)
    have "butlast (xs @ ys) = xs @ butlast ys" by (simp add: butlast_append y(1))
    then have "p \<notin> set (butlast (xs @ ys))" using bp(4) last_once [OF y(2,1)] y(4) by simp
    then show "u_next (set_next p (Some (hd xs)) ?h1 ! a) = u_next (?h1 ! a)" if "a \<in> set (butlast (xs @ ys))" for a
      using that bp(2) by (auto simp del: butlast_append)
  qed simp
  then show ?thesis using x y assms(3) bp by (simp add: ring_def)
qed

lemma ring_snoc:
  assumes "ring h (Some l) xs" and "a < length h" and "a \<notin> set xs"
  shows "ring (set_next l (Some a) (set_next a (u_next (h ! l)) h)) (Some a) (xs @ [a])"
proof -
  have x: "xs \<noteq> []" "distinct xs" "path h xs" "l = last xs" "u_next (h ! l) = Some (hd xs)"
    using assms(1) by (auto simp: ring_def)
  have l: "l < length h" "l \<noteq> a" using path_bound [OF x(3)] x assms(3) by auto
  let ?h1 = "set_next a (Some (hd xs)) h"
  have p1: "path ?h1 xs" using assms(2,3) by (intro path_cong [OF x(3)]) (auto dest: in_set_butlastD)
  have "path (set_next (last xs) (Some (hd [a])) ?h1) (xs @ [a])"
    by (rule path_link [OF p1]) (use x l assms(2,3) in auto)
  then show ?thesis using x l assms(2,3) by (simp add: ring_def)
qed

section \<open>Processing a list of updates\<close>

text \<open>What the loop computes, on lists: the state, and the base state with the updates to keep.\<close>

type_synonym update_content = "nat \<times> update_tag \<times> nat option"

definition content_of :: "update \<Rightarrow> update_content" where
  "content_of u = (u_expirationTime u, u_tag u, u_callback u)"

definition contents :: "update list \<Rightarrow> nat list \<Rightarrow> update_content list" where
  "contents h xs = map (\<lambda>a. content_of (h ! a)) xs"

fun rebase_step :: "js_object \<Rightarrow> nat \<Rightarrow> comp_state \<times> (comp_state \<times> update_content list) option \<Rightarrow> update_content \<Rightarrow>
    comp_state \<times> (comp_state \<times> update_content list) option" where
  "rebase_step props r (s, base) (t, tg, cb) =
     (if t < r
      then (s, Some (case base of None \<Rightarrow> (s, [(t, tg, cb)]) | Some (bs, us) \<Rightarrow> (bs, us @ [(t, tg, cb)])))
      else (getStateFromUpdate props tg s, map_option (\<lambda>(bs, us). (bs, us @ [(Sync, tg, cb)])) base))"

definition all_updates :: "js_object \<Rightarrow> update_content list \<Rightarrow> comp_state \<Rightarrow> comp_state" where
  "all_updates props us s = fold (\<lambda>u. getStateFromUpdate props (fst (snd u))) us s"

lemma all_updates_append: "all_updates props (us @ vs) s = all_updates props vs (all_updates props us s)"
  by (simp add: all_updates_def)

text \<open>
  Applying the kept updates to the base state gives the state with all updates in their order,
  and the computed state is the one with the updates of sufficient priority.
\<close>

definition rebase_ok :: "js_object \<Rightarrow> nat \<Rightarrow> comp_state \<Rightarrow> update_content list \<Rightarrow> comp_state \<times> (comp_state \<times> update_content list) option \<Rightarrow> bool" where
  "rebase_ok props r s0 us res \<longleftrightarrow>
     fst res = all_updates props (filter (\<lambda>u. r \<le> fst u) us) s0 \<and>
     all_updates props us s0 = (case snd res of None \<Rightarrow> fst res | Some (bs, ks) \<Rightarrow> all_updates props ks bs) \<and>
     (snd res = None \<longleftrightarrow> (\<forall>u\<in>set us. r \<le> fst u))"

lemma all_updates_single: "all_updates props [(t, tg, cb)] s = getStateFromUpdate props tg s"
  by (simp add: all_updates_def)

lemma all_updates_Nil [simp]: "all_updates props [] s = s"
  by (simp add: all_updates_def)

lemma rebase_ok_step:
  assumes "rebase_ok props r s0 us (s, base)"
  shows "rebase_ok props r s0 (us @ [(t, tg, cb)]) (rebase_step props r (s, base) (t, tg, cb))"
proof (cases base)
  case None
  then have "all_updates props us s0 = s \<and> (\<forall>u\<in>set us. r \<le> fst u)"
    using assms unfolding rebase_ok_def by (simp only: fst_conv snd_conv option.case simp_thms) blast
  then have all: "\<forall>u\<in>set us. r \<le> fst u" and s: "all_updates props us s0 = s" by blast+
  then have "filter (\<lambda>u. r \<le> fst u) us = us" by simp
  then show ?thesis using None all
    by (cases "t < r") (simp_all add: rebase_ok_def all_updates_append all_updates_single s)
next
  case (Some bk)
  obtain bs ks where bk: "bk = (bs, ks)" by (cases bk)
  then show ?thesis using assms Some
    by (cases "t < r") (simp_all add: rebase_ok_def all_updates_append all_updates_single)
qed

lemma rebase_ok_foldl: "rebase_ok props r s0 us (foldl (rebase_step props r) (s0, None) us)"
proof (induction us rule: rev_induct)
  case Nil
  then show ?case by (simp add: rebase_ok_def all_updates_def)
next
  case (snoc u us)
  obtain t tg cb where u: "u = (t, tg, cb)" by (cases u) auto
  obtain s base where f: "foldl (rebase_step props r) (s0, None) us = (s, base)" by fastforce
  show ?case using rebase_ok_step [OF snoc.IH [unfolded f]] by (simp add: f u)
qed

section \<open>The loop refines the list\<close>

definition loop_rel :: "update list \<Rightarrow> loop_vars \<Rightarrow> comp_state \<times> (comp_state \<times> update_content list) option \<Rightarrow> bool" where
  "loop_rel h st r \<longleftrightarrow>
     length h \<le> length (l_store st) \<and> (\<forall>a < length h. l_store st ! a = h ! a) \<and> newState st = fst r \<and>
     (case snd r of
        None \<Rightarrow> newBaseQueueLast st = None
      | Some (bs, us) \<Rightarrow> newBaseState st = bs \<and> (\<exists>zs. zs \<noteq> [] \<and> distinct zs \<and> path (l_store st) zs \<and> (\<forall>a\<in>set zs. length h \<le> a) \<and>
          newBaseQueueFirst st = Some (hd zs) \<and> newBaseQueueLast st = Some (last zs) \<and> contents (l_store st) zs = us))"

lemma content_set_next [simp]: "content_of (set_next a n h ! b) = content_of (h ! b)"
  by (simp add: content_of_def)

text \<open>Appending a clone to a path of clones.\<close>

lemma append_clone_path:
  assumes "zs \<noteq> []" and "distinct zs" and "path (l_store st) zs" and "newBaseQueueLast st = Some (last zs)"
  shows "distinct (zs @ [length (l_store st)])" "path (l_store (append_clone t u st)) (zs @ [length (l_store st)])"
    "contents (l_store (append_clone t u st)) (zs @ [length (l_store st)]) = contents (l_store st) zs @ [(t, u_tag u, u_callback u)]"
proof -
  let ?a = "length (l_store st)" and ?h1 = "l_store st @ [u\<lparr>u_expirationTime := t, u_next := None\<rparr>]"
  have b: "x < ?a" if "x \<in> set zs" for x using path_bound [OF assms(3) that] .
  have eq: "l_store (append_clone t u st) = set_next (last zs) (Some ?a) ?h1" using assms(4) by (simp add: append_clone_def Let_def)
  have p1: "path ?h1 zs" using b by (intro path_cong [OF assms(3)]) (auto simp: nth_append dest: in_set_butlastD)
  show "distinct (zs @ [?a])" using assms(2) b by auto
  have "path (set_next (last zs) (Some (hd [?a])) ?h1) (zs @ [?a])"
    by (rule path_link [OF p1]) (use assms b [of "last zs"] in auto)
  then show "path (l_store (append_clone t u st)) (zs @ [?a])" using eq by simp
  show "contents (l_store (append_clone t u st)) (zs @ [?a]) = contents (l_store st) zs @ [(t, u_tag u, u_callback u)]"
    unfolding eq contents_def using b by (auto simp: nth_append content_of_def)
qed

lemma append_clone_store:
  "a < length (l_store st) \<Longrightarrow> newBaseQueueLast st = None \<or> (\<exists>l. newBaseQueueLast st = Some l \<and> l \<noteq> a) \<Longrightarrow>
   l_store (append_clone t u st) ! a = l_store st ! a"
  "length (l_store (append_clone t u st)) = Suc (length (l_store st))"
  by (auto simp: append_clone_def Let_def set_next_nth nth_append split: option.split)

lemma append_clone_rel:
  assumes "loop_rel h st (s, Some (bs, us))"
  shows "loop_rel h (append_clone t u st) (s, Some (bs, us @ [(t, u_tag u, u_callback u)]))"
proof -
  obtain zs where z: "zs \<noteq> []" "distinct zs" "path (l_store st) zs" "\<forall>a\<in>set zs. length h \<le> a"
    "newBaseQueueFirst st = Some (hd zs)" "newBaseQueueLast st = Some (last zs)" "contents (l_store st) zs = us"
    using assms by (auto simp: loop_rel_def)
  have l: "length h \<le> length (l_store st)" "\<forall>a < length h. l_store st ! a = h ! a" "newState st = s" "newBaseState st = bs"
    using assms by (auto simp: loop_rel_def)
  note ap = append_clone_path(1) [OF z(1-3,6)] append_clone_path(2,3) [OF z(1-3,6), of t u]
  have "length h \<le> last zs" using z(1,4) by simp
  then have "\<forall>a < length h. l_store (append_clone t u st) ! a = h ! a"
    using l(1,2) z(6) append_clone_store(1) [of _ st] by fastforce
  moreover have "newState (append_clone t u st) = s" "newBaseState (append_clone t u st) = bs"
    "newBaseQueueFirst (append_clone t u st) = Some (hd zs)" "newBaseQueueLast (append_clone t u st) = Some (length (l_store st))"
    using l z(5,6) by (simp_all add: append_clone_def Let_def)
  ultimately show ?thesis using ap z(1,4,7) l(1) unfolding loop_rel_def
    by (auto simp: append_clone_store(2) intro!: exI [of _ "zs @ [length (l_store st)]"])
qed

lemma append_clone_first:
  assumes "loop_rel h st (s, None)"
  shows "loop_rel h ((append_clone t u st)\<lparr>newBaseState := newState st\<rparr>) (s, Some (s, [(t, u_tag u, u_callback u)]))"
proof -
  have n: "newBaseQueueLast st = None" and l: "length h \<le> length (l_store st)" "\<forall>a < length h. l_store st ! a = h ! a" "newState st = s"
    using assms by (auto simp: loop_rel_def)
  then show ?thesis unfolding loop_rel_def
    by (auto simp: append_clone_def Let_def nth_append contents_def content_of_def intro!: exI [of _ "[length (l_store st)]"])
qed

lemma loop_rel_cong:
  "loop_rel h st r \<Longrightarrow> l_store st' = l_store st \<Longrightarrow> newBaseState st' = newBaseState st \<Longrightarrow> newBaseQueueFirst st' = newBaseQueueFirst st \<Longrightarrow>
   newBaseQueueLast st' = newBaseQueueLast st \<Longrightarrow> newState st' = s' \<Longrightarrow> loop_rel h st' (s', snd r)"
  by (auto simp: loop_rel_def split: option.splits)

lemma loop_rel_time [simp]: "loop_rel h (st\<lparr>newExpirationTime := x\<rparr>) r = loop_rel h st r"
  by (cases "snd r") (auto simp: loop_rel_def)

lemma process_one_rel:
  assumes "loop_rel h st r" and "a < length h"
  shows "loop_rel h (process_one props t a st) (rebase_step props t r (content_of (h ! a)))"
proof -
  obtain s base where r: "r = (s, base)" by (cases r)
  have u: "l_store st ! a = h ! a" "newState st = s" using assms r by (auto simp: loop_rel_def)
  let ?u = "h ! a"
  have last: "newBaseQueueLast st = None \<longleftrightarrow> base = None" using assms(1) r by (auto simp: loop_rel_def split: option.splits)
  show ?thesis
  proof (cases "u_expirationTime ?u < t")
    case skip: True
    show ?thesis
    proof (cases base)
      case None
      have "loop_rel h ((append_clone (u_expirationTime ?u) ?u st)\<lparr>newBaseState := newState st\<rparr>)
          (s, Some (s, [(u_expirationTime ?u, u_tag ?u, u_callback ?u)]))"
        by (rule append_clone_first) (use assms(1) r None in simp)
      then have "loop_rel h ((append_clone (u_expirationTime ?u) ?u st)\<lparr>newBaseState := newState st,
          newExpirationTime := max (newExpirationTime st) (u_expirationTime ?u)\<rparr>) (s, Some (s, [(u_expirationTime ?u, u_tag ?u, u_callback ?u)]))"
        by (simp only: loop_rel_time)
      moreover have "process_one props t a st = (append_clone (u_expirationTime ?u) ?u st)\<lparr>newBaseState := newState st,
          newExpirationTime := max (newExpirationTime st) (u_expirationTime ?u)\<rparr>"
        using skip None last u r by (simp add: process_one_def Let_def)
      moreover have "rebase_step props t r (content_of ?u) = (s, Some (s, [(u_expirationTime ?u, u_tag ?u, u_callback ?u)]))"
        using skip None r by (simp add: content_of_def)
      ultimately show ?thesis by (simp only:)
    next
      case (Some b)
      obtain bs us where b: "b = (bs, us)" by (cases b)
      have "loop_rel h (append_clone (u_expirationTime ?u) ?u st) (s, Some (bs, us @ [(u_expirationTime ?u, u_tag ?u, u_callback ?u)]))"
        by (rule append_clone_rel) (use assms(1) r Some b in simp)
      then have "loop_rel h ((append_clone (u_expirationTime ?u) ?u st)\<lparr>newExpirationTime := max (newExpirationTime st) (u_expirationTime ?u)\<rparr>)
          (s, Some (bs, us @ [(u_expirationTime ?u, u_tag ?u, u_callback ?u)]))"
        by (simp only: loop_rel_time)
      moreover have "process_one props t a st =
          (append_clone (u_expirationTime ?u) ?u st)\<lparr>newExpirationTime := max (newExpirationTime st) (u_expirationTime ?u)\<rparr>"
        using skip Some last u r by (auto simp: process_one_def Let_def)
      moreover have "rebase_step props t r (content_of ?u) = (s, Some (bs, us @ [(u_expirationTime ?u, u_tag ?u, u_callback ?u)]))"
        using skip Some b r by (simp add: content_of_def)
      ultimately show ?thesis by (simp only:)
    qed
  next
    case False
    let ?st1 = "if newBaseQueueLast st = None then st else append_clone Sync ?u st"
    let ?b1 = "map_option (\<lambda>(bs, us). (bs, us @ [(Sync, u_tag ?u, u_callback ?u)])) base"
    have "loop_rel h ?st1 (s, ?b1)"
      using assms(1) r last append_clone_rel [of h st s _ _ Sync ?u] by (cases base) auto
    then have "loop_rel h (process_one props t a st) (getStateFromUpdate props (u_tag ?u) s, snd (s, ?b1))"
      by (rule loop_rel_cong) (use False u in \<open>simp_all add: process_one_def Let_def\<close>)
    then show ?thesis using False r by (simp add: content_of_def)
  qed
qed

text \<open>The loop follows the ring once, whatever the fuel beyond the length of the ring.\<close>

lemma process_loop_rel:
  assumes "loop_rel h st r" and "path h (a # xs)" and "u_next (h ! last (a # xs)) = Some first" and "first \<notin> set xs"
    and "length (a # xs) \<le> n"
  shows "loop_rel h (process_loop n props t first a st) (foldl (rebase_step props t) r (contents h (a # xs))) \<and>
    process_loop n props t first a st = foldl (\<lambda>s b. process_one props t b s) st (a # xs)"
  using assms
proof (induction xs arbitrary: a st r n)
  case Nil
  then obtain m where n: "n = Suc m" by (cases n) auto
  have p: "loop_rel h (process_one props t a st) (rebase_step props t r (content_of (h ! a)))"
    using Nil.prems(1,2) by (intro process_one_rel) simp_all
  then have "u_next (l_store (process_one props t a st) ! a) = Some first"
    using Nil.prems(2,3) by (simp add: loop_rel_def)
  then show ?case using p by (simp add: n contents_def)
next
  case (Cons b xs)
  then obtain m where n: "n = Suc m" by (cases n) auto
  let ?st1 = "process_one props t a st" and ?r1 = "rebase_step props t r (content_of (h ! a))"
  have p: "loop_rel h ?st1 ?r1" using Cons.prems(1,2) by (intro process_one_rel) simp_all
  then have nx: "u_next (l_store ?st1 ! a) = Some b" using Cons.prems(2) by (simp add: loop_rel_def)
  have "loop_rel h (process_loop m props t first b ?st1) (foldl (rebase_step props t) ?r1 (contents h (b # xs))) \<and>
      process_loop m props t first b ?st1 = foldl (\<lambda>s b. process_one props t b s) ?st1 (b # xs)"
    by (rule Cons.IH [OF p]) (use Cons.prems n in auto)
  then show ?case using nx Cons.prems(4) by (auto simp: n contents_def)
qed

lemma ring_length: "ring h q xs \<Longrightarrow> length xs \<le> length h"
proof (cases q)
  case (Some l)
  assume "ring h q xs"
  then have "distinct xs" "set xs \<subseteq> {..<length h}" using Some by (auto simp: ring_def dest: path_bound)
  then show ?thesis using card_mono [of "{..<length h}" "set xs"] distinct_card [of xs] by simp
qed (simp add: ring_def)

text \<open>The new base queue: the kept updates in a ring of their own, beyond the old store.\<close>

definition kept :: "comp_state \<times> (comp_state \<times> update_content list) option \<Rightarrow> update_content list" where
  "kept res = (case snd res of None \<Rightarrow> [] | Some (bs, us) \<Rightarrow> us)"

definition kept_base :: "comp_state \<times> (comp_state \<times> update_content list) option \<Rightarrow> comp_state" where
  "kept_base res = (case snd res of None \<Rightarrow> fst res | Some (bs, us) \<Rightarrow> bs)"

lemma close_ring_ok:
  assumes "loop_rel h st res"
  shows "\<exists>zs. ring (close_ring st) (newBaseQueueLast st) zs \<and> contents (close_ring st) zs = kept res \<and> (\<forall>a\<in>set zs. length h \<le> a)"
    and "length h \<le> length (close_ring st)" and "\<And>a. a < length h \<Longrightarrow> close_ring st ! a = h ! a"
    and "(if newBaseQueueLast st = None then newState st else newBaseState st) = kept_base res"
proof -
  have l: "length h \<le> length (l_store st)" "\<forall>a < length h. l_store st ! a = h ! a" "newState st = fst res"
    using assms by (auto simp: loop_rel_def)
  have "(\<exists>zs. ring (close_ring st) (newBaseQueueLast st) zs \<and> contents (close_ring st) zs = kept res \<and> (\<forall>a\<in>set zs. length h \<le> a)) \<and>
    length h \<le> length (close_ring st) \<and> (\<forall>a < length h. close_ring st ! a = h ! a) \<and>
    (if newBaseQueueLast st = None then newState st else newBaseState st) = kept_base res"
  proof (cases "snd res")
    case None
    then have "newBaseQueueLast st = None" using assms by (simp add: loop_rel_def)
    then show ?thesis using l None by (simp add: close_ring_def ring_def contents_def kept_def kept_base_def)
  next
    case (Some bu)
    obtain bs us where b: "bu = (bs, us)" by (cases bu)
    obtain zs where z: "zs \<noteq> []" "distinct zs" "path (l_store st) zs" "\<forall>a\<in>set zs. length h \<le> a"
      "newBaseQueueFirst st = Some (hd zs)" "newBaseQueueLast st = Some (last zs)" "contents (l_store st) zs = us" "newBaseState st = bs"
      using assms Some b by (auto simp: loop_rel_def)
    have c: "close_ring st = set_next (last zs) (Some (hd zs)) (l_store st)" using z by (simp add: close_ring_def)
    have lz: "last zs < length (l_store st)" using path_bound [OF z(3)] z(1) by simp
    have "path (close_ring st) zs"
      unfolding c using last_once [OF z(2,1)] lz by (intro path_cong [OF z(3)]) auto
    then have "ring (close_ring st) (newBaseQueueLast st) zs" using z lz by (simp add: ring_def c)
    moreover have "contents (close_ring st) zs = us" using z(7) by (simp add: c contents_def)
    moreover have "close_ring st ! a = h ! a" if "a < length h" for a
    proof -
      have "last zs \<noteq> a" using that z(1,4) by (metis last_in_set not_less)
      then show ?thesis using that l(2) by (simp add: c set_next_nth)
    qed
    ultimately show ?thesis using z l(1) Some b by (auto simp: kept_def kept_base_def c)
  qed
  then show "\<exists>zs. ring (close_ring st) (newBaseQueueLast st) zs \<and> contents (close_ring st) zs = kept res \<and> (\<forall>a\<in>set zs. length h \<le> a)"
    "length h \<le> length (close_ring st)" "\<And>a. a < length h \<Longrightarrow> close_ring st ! a = h ! a"
    "(if newBaseQueueLast st = None then newState st else newBaseState st) = kept_base res" by blast+
qed

lemma loop_start_rel: "loop_rel (store f) (loop_start f) (baseState (workInProgress f), None)"
  by (simp add: loop_rel_def loop_start_def)

text \<open>The whole function on a merged queue.\<close>

lemma processUpdateQueue_spec:
  fixes f props t
  defines "f1 \<equiv> merge_pending (f\<lparr>hasForceUpdate := False\<rparr>)" and "f' \<equiv> processUpdateQueue props t f"
  assumes r: "ring (store f1) (baseQueue (workInProgress f1)) xs"
    and base: "xs = [] \<longrightarrow> memoizedState f1 = baseState (workInProgress f1)"
    and res: "res = foldl (rebase_step props t) (baseState (workInProgress f1), None) (contents (store f1) xs)"
  shows "memoizedState f' = fst res" and "baseState (workInProgress f') = kept_base res"
    and "\<exists>zs. ring (store f') (baseQueue (workInProgress f')) zs \<and> contents (store f') zs = kept res \<and> (\<forall>a\<in>set zs. length (store f1) \<le> a)"
    and "length (store f1) \<le> length (store f')" and "\<And>a. a < length (store f1) \<Longrightarrow> store f' ! a = store f1 ! a"
    and "pending f' = pending f1" and "current f' = current f1" and "current_state f' = current_state f1"
proof -
  have all: "memoizedState f' = fst res \<and> baseState (workInProgress f') = kept_base res \<and>
    (\<exists>zs. ring (store f') (baseQueue (workInProgress f')) zs \<and> contents (store f') zs = kept res \<and> (\<forall>a\<in>set zs. length (store f1) \<le> a)) \<and>
    length (store f1) \<le> length (store f') \<and> (\<forall>a < length (store f1). store f' ! a = store f1 ! a) \<and>
    pending f' = pending f1 \<and> current f' = current f1 \<and> current_state f' = current_state f1"
  proof (cases "baseQueue (workInProgress f1)")
    case None
    then have "xs = []" "f' = f1" using r by (simp_all add: ring_def f'_def processUpdateQueue_def f1_def Let_def)
    then show ?thesis using None base res by (simp add: ring_def contents_def kept_def kept_base_def)
  next
    case (Some b)
    then obtain a as where xs: "xs = a # as" using r by (cases xs) (auto simp: ring_def)
    have x: "path (store f1) (a # as)" "u_next (store f1 ! last (a # as)) = Some a" "a \<notin> set as" "b = last (a # as)"
      using r Some xs by (auto simp: ring_def)
    let ?st = "process_loop (length (store f1)) props t a a (loop_start f1)"
    have "length (a # as) \<le> length (store f1)" using ring_length [OF r] xs by simp
    then have rel: "loop_rel (store f1) ?st res"
      using process_loop_rel [OF loop_start_rel x(1-3), THEN conjunct1] res xs by simp
    have "f' = f1\<lparr>store := close_ring ?st, workInProgress := \<lparr>baseState = (if newBaseQueueLast ?st = None then newState ?st else newBaseState ?st),
        baseQueue = newBaseQueueLast ?st, effects = l_effects ?st\<rparr>,
        expirationTime := newExpirationTime ?st, memoizedState := newState ?st, hasForceUpdate := l_force ?st\<rparr>"
      using Some x(2,4) by (simp add: f'_def processUpdateQueue_def f1_def [symmetric] Let_def)
    moreover have "newState ?st = fst res" using rel by (simp add: loop_rel_def)
    ultimately show ?thesis using close_ring_ok [OF rel] by simp
  qed
  then show "memoizedState f' = fst res" "baseState (workInProgress f') = kept_base res"
    "\<exists>zs. ring (store f') (baseQueue (workInProgress f')) zs \<and> contents (store f') zs = kept res \<and> (\<forall>a\<in>set zs. length (store f1) \<le> a)"
    "length (store f1) \<le> length (store f')" "\<And>a. a < length (store f1) \<Longrightarrow> store f' ! a = store f1 ! a"
    "pending f' = pending f1" "current f' = current f1" "current_state f' = current_state f1" by blast+
qed

section \<open>Runs\<close>

text \<open>
  What happens to the queue: updates are enqueued at any time, a render at some priority starts from
  the current fiber, whether or not an earlier render was committed, and a finished render is
  committed.
\<close>

datatype queue_event = Enqueue nat update_tag "nat option" | Render nat | Commit

definition schedule_update :: "nat \<Rightarrow> update_tag \<Rightarrow> nat option \<Rightarrow> class_fiber \<Rightarrow> class_fiber" where
  "schedule_update time tg cb f = (let (a, f1) = createUpdate time tg cb f in enqueueUpdate a f1)"

fun queue_step :: "js_object \<Rightarrow> class_fiber \<Rightarrow> queue_event \<Rightarrow> class_fiber" where
  "queue_step props f (Enqueue time tg cb) = schedule_update time tg cb f"
| "queue_step props f (Render r) = processUpdateQueue props r (cloneUpdateQueue f)"
| "queue_step props f Commit = commit_fiber f"

definition new_class_fiber :: "comp_state \<Rightarrow> class_fiber" where
  "new_class_fiber s =
     \<lparr>store = [], pending = None, current = initializeUpdateQueue s, workInProgress = initializeUpdateQueue s,
      current_state = s, memoizedState = s, expirationTime = 0, hasForceUpdate = False, called = []\<rparr>"

fun enqueued :: "queue_event list \<Rightarrow> update_content list" where
  "enqueued [] = []"
| "enqueued (Enqueue time tg cb # es) = (time, tg, cb) # enqueued es"
| "enqueued (e # es) = enqueued es"

lemma enqueued_append: "enqueued (es @ es') = enqueued es @ enqueued es'"
  by (induction es rule: enqueued.induct) simp_all

text \<open>
  The invariant: the two base queues and the pending queue are rings, the pending one apart from the
  others, and each base state with its base queue and the pending updates stands for the state with
  all updates.  No update has a priority below \<open>lo\<close>.
\<close>

definition queue_for :: "js_object \<Rightarrow> nat \<Rightarrow> comp_state \<Rightarrow> update list \<Rightarrow> update_queue \<Rightarrow> comp_state \<Rightarrow> nat list \<Rightarrow> bool" where
  "queue_for props lo full h q s ys \<longleftrightarrow>
     (\<exists>xs. ring h (baseQueue q) xs \<and> set xs \<inter> set ys = {} \<and>
        all_updates props (contents h (xs @ ys)) (baseState q) = full \<and>
        (xs = [] \<longrightarrow> s = baseState q) \<and> (\<forall>a\<in>set (xs @ ys). lo \<le> u_expirationTime (h ! a)))"

definition queue_ok :: "js_object \<Rightarrow> nat \<Rightarrow> comp_state \<Rightarrow> class_fiber \<Rightarrow> bool" where
  "queue_ok props lo full f \<longleftrightarrow>
     (\<exists>ys. ring (store f) (pending f) ys \<and> queue_for props lo full (store f) (current f) (current_state f) ys \<and>
        queue_for props lo full (store f) (workInProgress f) (memoizedState f) ys)"

lemma contents_append [simp]: "contents h (xs @ ys) = contents h xs @ contents h ys"
  by (simp add: contents_def)

lemma contents_single: "contents h [a] = [content_of (h ! a)]"
  by (simp add: contents_def)

lemma contents_cong: "(\<And>a. a \<in> set xs \<Longrightarrow> content_of (h' ! a) = content_of (h ! a)) \<Longrightarrow> contents h' xs = contents h xs"
  by (simp add: contents_def)

text \<open>All updates on a state depend on the tags alone.\<close>

lemma all_updates_cong:
  "(\<And>a. a \<in> set xs \<Longrightarrow> u_tag (h' ! a) = u_tag (h ! a)) \<Longrightarrow> all_updates props (contents h' xs) s = all_updates props (contents h xs) s"
  by (induction xs arbitrary: s) (simp_all add: all_updates_def contents_def content_of_def)

text \<open>An update that is enqueued is the last one of the pending ring.\<close>

lemma schedule_update_store:
  fixes time tg cb f
  assumes "ring (store f) (pending f) ys"
  defines "a \<equiv> length (store f)" and "f' \<equiv> schedule_update time tg cb f"
  shows "ring (store f') (pending f') (ys @ [a])" and "length (store f') = Suc a"
    and "\<And>b. b < a \<Longrightarrow> content_of (store f' ! b) = content_of (store f ! b)"
    and "\<And>b. b < a \<Longrightarrow> b \<notin> set ys \<Longrightarrow> u_next (store f' ! b) = u_next (store f ! b)"
    and "content_of (store f' ! a) = (time, tg, cb)"
proof -
  let ?u = "\<lparr>u_expirationTime = time, u_tag = tg, u_callback = cb, u_next = Some a\<rparr>"
  let ?h = "store f @ [?u]"
  have ua: "content_of (?h ! a) = (time, tg, cb)" by (simp add: a_def content_of_def)
  have old: "?h ! b = store f ! b" if "b < a" for b using that by (simp add: a_def nth_append)
  have y: "a \<notin> set ys" using ring_bound [OF assms(1)] by (auto simp: a_def)
  have ry: "ring ?h (pending f) ys"
    using ring_bound [OF assms(1)] by (intro ring_cong [OF assms(1)]) (auto simp: nth_append)
  have all: "ring (store f') (pending f') (ys @ [a]) \<and> length (store f') = Suc a \<and>
    (\<forall>b. content_of (store f' ! b) = content_of (?h ! b)) \<and>
    (\<forall>b < a. b \<notin> set ys \<longrightarrow> u_next (store f' ! b) = u_next (store f ! b))"
  proof (cases "pending f")
    case None
    then have "f' = f\<lparr>store := set_next a (Some a) ?h, pending := Some a\<rparr>"
      by (simp add: f'_def schedule_update_def createUpdate_def Let_def enqueueUpdate_def a_def)
    then show ?thesis using ry None old by (simp add: ring_def a_def)
  next
    case (Some l)
    have f': "f' = f\<lparr>store := set_next l (Some a) (set_next a (u_next (?h ! l)) ?h), pending := Some a\<rparr>"
      using Some by (simp add: f'_def schedule_update_def createUpdate_def Let_def enqueueUpdate_def a_def)
    have l: "l \<in> set ys" "l < a" using assms(1) Some ring_bound [OF assms(1)] by (auto simp: ring_def a_def)
    have "ring (store f') (pending f') (ys @ [a])"
      using ring_snoc [OF ry [unfolded Some], of a] y by (simp add: f' a_def)
    then show ?thesis using l old by (auto simp: f' a_def)
  qed
  then show "ring (store f') (pending f') (ys @ [a])" "length (store f') = Suc a"
    "\<And>b. b < a \<Longrightarrow> content_of (store f' ! b) = content_of (store f ! b)"
    "\<And>b. b < a \<Longrightarrow> b \<notin> set ys \<Longrightarrow> u_next (store f' ! b) = u_next (store f ! b)"
    "content_of (store f' ! a) = (time, tg, cb)" using old ua by auto
qed

lemma content_time: "content_of u = content_of v \<Longrightarrow> u_expirationTime u = u_expirationTime v"
  "content_of u = content_of v \<Longrightarrow> u_tag u = u_tag v"
  by (simp_all add: content_of_def)

lemma enqueue_queue_for:
  assumes q: "queue_for props lo full (store f) q s ys" and y: "ring (store f) (pending f) ys" and t: "lo \<le> time"
  shows "queue_for props lo (getStateFromUpdate props tg full) (store (schedule_update time tg cb f)) q s (ys @ [length (store f)])"
proof -
  let ?h = "store f" and ?a = "length (store f)" and ?h' = "store (schedule_update time tg cb f)"
  note e = schedule_update_store [OF y, where time = time and tg = tg and cb = cb]
  obtain xs where x: "ring ?h (baseQueue q) xs" "set xs \<inter> set ys = {}" "all_updates props (contents ?h (xs @ ys)) (baseState q) = full"
    "xs = [] \<longrightarrow> s = baseState q" "\<forall>a\<in>set (xs @ ys). lo \<le> u_expirationTime (?h ! a)"
    using q by (auto simp: queue_for_def)
  have b: "b < ?a" if "b \<in> set (xs @ ys)" for b using that ring_bound [OF x(1)] ring_bound [OF y] by auto
  have "ring ?h' (baseQueue q) xs" using x(2) b e(2) by (intro ring_cong [OF x(1)] e(4)) auto
  moreover have "set xs \<inter> set (ys @ [?a]) = {}" using x(2) b by auto
  moreover have "contents ?h' xs = contents ?h xs" "contents ?h' ys = contents ?h ys" using b e(3) by (intro contents_cong; auto)+
  then have "all_updates props (contents ?h' (xs @ ys @ [?a])) (baseState q) = getStateFromUpdate props tg full"
    using x(3) e(5) by (simp add: all_updates_append contents_single all_updates_single)
  moreover have "lo \<le> u_expirationTime (?h' ! c)" if "c \<in> set (xs @ ys @ [?a])" for c
  proof (cases "c = ?a")
    case True
    then show ?thesis using e(5) t by (simp add: content_of_def)
  next
    case False
    then show ?thesis using that x(5) b e(3) [of c] content_time(1) [of "?h' ! c" "?h ! c"] by auto
  qed
  ultimately show ?thesis unfolding queue_for_def using x(4) by (intro exI [of _ xs]) simp
qed

lemma enqueue_keeps_ok:
  assumes "queue_ok props lo full f" and "lo \<le> time"
  shows "queue_ok props lo (getStateFromUpdate props tg full) (schedule_update time tg cb f)"
proof -
  obtain ys where y: "ring (store f) (pending f) ys" "queue_for props lo full (store f) (current f) (current_state f) ys"
    "queue_for props lo full (store f) (workInProgress f) (memoizedState f) ys" using assms(1) by (auto simp: queue_ok_def)
  let ?f = "schedule_update time tg cb f"
  have same: "current ?f = current f" "workInProgress ?f = workInProgress f" "current_state ?f = current_state f" "memoizedState ?f = memoizedState f"
    by (simp_all add: schedule_update_def createUpdate_def Let_def enqueueUpdate_def split: option.split)
  show ?thesis unfolding queue_ok_def same
    using schedule_update_store(1) [OF y(1)] enqueue_queue_for [OF y(2,1) assms(2)] enqueue_queue_for [OF y(3,1) assms(2)] by blast
qed

text \<open>Merging moves the pending ring behind the base ring.\<close>

lemma merge_pending_ok:
  assumes "ring (store f) (pending f) ys" and "ring (store f) (baseQueue (workInProgress f)) xs" and "set xs \<inter> set ys = {}"
    and "workInProgress f = current f"
  defines "f1 \<equiv> merge_pending f"
  shows "ring (store f1) (baseQueue (workInProgress f1)) (xs @ ys)" and "pending f1 = None" and "workInProgress f1 = current f1"
    and "baseState (workInProgress f1) = baseState (workInProgress f)" and "\<And>b. content_of (store f1 ! b) = content_of (store f ! b)"
    and "memoizedState f1 = memoizedState f" and "current_state f1 = current_state f"
proof -
  have all: "ring (store f1) (baseQueue (workInProgress f1)) (xs @ ys) \<and> pending f1 = None \<and> workInProgress f1 = current f1 \<and>
    baseState (workInProgress f1) = baseState (workInProgress f) \<and> (\<forall>b. content_of (store f1 ! b) = content_of (store f ! b)) \<and>
    memoizedState f1 = memoizedState f \<and> current_state f1 = current_state f"
  proof (cases "pending f")
    case None
    then have "ys = []" using assms(1) by (simp add: ring_def)
    then show ?thesis using assms(2,4) None by (simp add: f1_def merge_pending_def)
  next
    case p: (Some p)
    show ?thesis
    proof (cases "baseQueue (workInProgress f)")
      case None
      then have "xs = []" using assms(2) by (simp add: ring_def)
      then show ?thesis using assms(1,4) p None by (simp add: f1_def merge_pending_def Let_def)
    next
      case (Some b)
      show ?thesis using ring_merge [OF assms(2) [unfolded Some] assms(1) [unfolded p] assms(3)] assms(4) p Some
        by (auto simp: f1_def merge_pending_def Let_def)
    qed
  qed
  then show "ring (store f1) (baseQueue (workInProgress f1)) (xs @ ys)" "pending f1 = None" "workInProgress f1 = current f1"
    "baseState (workInProgress f1) = baseState (workInProgress f)" "\<And>b. content_of (store f1 ! b) = content_of (store f ! b)"
    "memoizedState f1 = memoizedState f" "current_state f1 = current_state f" by blast+
qed

lemma kept_props:
  "snd (foldl (rebase_step props t) (s, None) us) \<noteq> None \<longrightarrow> kept (foldl (rebase_step props t) (s, None) us) \<noteq> []"
  "\<forall>u\<in>set us. lo \<le> fst u \<Longrightarrow> lo \<le> Sync \<Longrightarrow> \<forall>u\<in>set (kept (foldl (rebase_step props t) (s, None) us)). lo \<le> fst u"
proof (induction us rule: rev_induct)
  case (snoc u us)
  obtain t' tg cb where u: "u = (t', tg, cb)" by (cases u) auto
  obtain s' base where f: "foldl (rebase_step props t) (s, None) us = (s', base)" by fastforce
  {
    case 1
    then show ?case using snoc.IH(1) by (cases base) (auto simp: u f kept_def)
  next
    case 2
    then show ?case using snoc.IH(2) by (cases base; cases "the base") (simp_all add: u f kept_def ball_Un, blast)
  }
qed (simp_all add: kept_def)

lemma rebase_full: "all_updates props us s = all_updates props (kept (foldl (rebase_step props t) (s, None) us)) (kept_base (foldl (rebase_step props t) (s, None) us))"
proof -
  obtain s' base where f: "foldl (rebase_step props t) (s, None) us = (s', base)" by fastforce
  have "all_updates props us s = (case base of None \<Rightarrow> s' | Some (bs, ks) \<Rightarrow> all_updates props ks bs)"
    using rebase_ok_foldl [of props t s us, unfolded f rebase_ok_def fst_conv snd_conv] by (elim conjE)
  then show ?thesis unfolding f by (simp add: kept_def kept_base_def split: option.splits)
qed

lemma contents_time: "(\<forall>u\<in>set (contents h xs). lo \<le> fst u) \<longleftrightarrow> (\<forall>a\<in>set xs. lo \<le> u_expirationTime (h ! a))"
  by (simp add: contents_def content_of_def)

lemma render_ok:
  fixes props lo full f t
  assumes ok: "queue_ok props lo full f" and lo: "lo \<le> Sync"
  defines "f' \<equiv> queue_step props f (Render t)"
  shows "queue_ok props lo full f'" and "pending f' = None" and "t \<le> lo \<Longrightarrow> baseQueue (workInProgress f') = None"
proof -
  obtain ys xs where y: "ring (store f) (pending f) ys" and x: "ring (store f) (baseQueue (current f)) xs" "set xs \<inter> set ys = {}"
    "all_updates props (contents (store f) (xs @ ys)) (baseState (current f)) = full"
    "xs = [] \<longrightarrow> current_state f = baseState (current f)" "\<forall>a\<in>set (xs @ ys). lo \<le> u_expirationTime (store f ! a)"
    using ok unfolding queue_ok_def queue_for_def by blast
  let ?c = "(cloneUpdateQueue f)\<lparr>hasForceUpdate := False\<rparr>"
  have cl: "store ?c = store f" "pending ?c = pending f" "workInProgress ?c = current f" "current ?c = current f"
    "memoizedState ?c = current_state f" "current_state ?c = current_state f" by (simp_all add: cloneUpdateQueue_def)
  define f1 where "f1 = merge_pending ?c"
  have m: "ring (store f1) (baseQueue (workInProgress f1)) (xs @ ys)" "pending f1 = None" "workInProgress f1 = current f1"
    "baseState (current f1) = baseState (current f)" "\<And>b. content_of (store f1 ! b) = content_of (store f ! b)"
    "memoizedState f1 = current_state f" "current_state f1 = current_state f"
    using merge_pending_ok [of ?c ys xs, folded f1_def, unfolded cl, OF y x(1,2) refl] by simp_all
  let ?us = "contents (store f1) (xs @ ys)"
  define res where "res = foldl (rebase_step props t) (baseState (current f1), None) ?us"
  have us: "?us = contents (store f) (xs @ ys)" by (intro contents_cong) (simp add: m(5))
  have low: "\<forall>u\<in>set ?us. lo \<le> fst u" unfolding us using x(5) by (simp only: contents_time)
  have base: "xs @ ys = [] \<longrightarrow> memoizedState f1 = baseState (workInProgress f1)" using x(4) m(3,4,6) by simp
  note p = processUpdateQueue_spec [of "cloneUpdateQueue f", folded f1_def, OF m(1) base, of res props t,
      unfolded m(3), OF res_def, folded queue_step.simps(2) f'_def]
  have full: "all_updates props ?us (baseState (current f1)) = full" using x(3) us m(4) by simp
  show pend: "pending f' = None" using p(6) m(2) by simp
  obtain zs where z: "ring (store f') (baseQueue (workInProgress f')) zs" "contents (store f') zs = kept res" using p(3) by blast
  have b: "a < length (store f1)" if "a \<in> set (xs @ ys)" for a using ring_bound [OF m(1) that] .
  have "queue_for props lo full (store f') (workInProgress f') (memoizedState f') []"
  proof -
    have "all_updates props (kept res) (kept_base res) = full" using full rebase_full unfolding res_def by metis
    moreover have "zs = [] \<longrightarrow> memoizedState f' = baseState (workInProgress f')"
    proof
      assume "zs = []"
      then have "kept res = []" using z(2) by (simp add: contents_def)
      then have "snd res = None" using kept_props(1) unfolding res_def by blast
      then show "memoizedState f' = baseState (workInProgress f')" using p(1,2) by (simp add: kept_base_def)
    qed
    moreover have "\<forall>a\<in>set zs. lo \<le> u_expirationTime (store f' ! a)"
      using kept_props(2) [OF low lo] z(2) contents_time [of "store f'" zs lo] unfolding res_def by simp
    ultimately show ?thesis unfolding queue_for_def using z p(2) by (intro exI [of _ zs]) simp
  qed
  moreover have "queue_for props lo full (store f') (current f') (current_state f') []"
  proof -
    have same: "store f' ! a = store f1 ! a" if "a \<in> set (xs @ ys)" for a using p(5) [OF b [OF that]] .
    have "ring (store f') (baseQueue (current f')) (xs @ ys)"
      unfolding p(7) by (rule ring_cong [OF m(1) [unfolded m(3)] p(4)]) (simp only: same)
    moreover have c: "contents (store f') (xs @ ys) = ?us" by (rule contents_cong) (simp only: same)
    moreover have "\<forall>a\<in>set (xs @ ys). lo \<le> u_expirationTime (store f' ! a)" using low c contents_time by metis
    ultimately show ?thesis unfolding queue_for_def p(7,8) m(7) using full base m(3,6) by (intro exI [of _ "xs @ ys"]) simp
  qed
  ultimately show "queue_ok props lo full f'" unfolding queue_ok_def pend by (intro exI [of _ "[]"]) (simp add: ring_def)
  show "baseQueue (workInProgress f') = None" if "t \<le> lo"
  proof -
    have "\<forall>u\<in>set ?us. t \<le> fst u" using low that order_trans by blast
    then have "snd res = None" using rebase_ok_foldl [of props t "baseState (current f1)" ?us] by (simp add: rebase_ok_def res_def)
    then have "zs = []" using z(2) by (simp add: kept_def contents_def)
    then show ?thesis using z(1) by (cases "baseQueue (workInProgress f')") (simp_all add: ring_def)
  qed
qed

text \<open>Committing changes callbacks only.\<close>

lemma call_effect_frame:
  "length (store (call_effect a f)) = length (store f)" "u_next (store (call_effect a f) ! b) = u_next (store f ! b)"
  "u_tag (store (call_effect a f) ! b) = u_tag (store f ! b)" "u_expirationTime (store (call_effect a f) ! b) = u_expirationTime (store f ! b)"
  "pending (call_effect a f) = pending f" "workInProgress (call_effect a f) = workInProgress f" "memoizedState (call_effect a f) = memoizedState f"
  by (cases "a < length (store f)"; cases "a = b"; auto simp: call_effect_def not_less list_update_beyond split: option.split)+

lemma call_effects_frame:
  "length (store (fold call_effect as f)) = length (store f)" "u_next (store (fold call_effect as f) ! b) = u_next (store f ! b)"
  "u_tag (store (fold call_effect as f) ! b) = u_tag (store f ! b)" "u_expirationTime (store (fold call_effect as f) ! b) = u_expirationTime (store f ! b)"
  "pending (fold call_effect as f) = pending f" "workInProgress (fold call_effect as f) = workInProgress f"
  "memoizedState (fold call_effect as f) = memoizedState f"
  by (induction as arbitrary: f) (simp_all add: call_effect_frame)

lemma queue_for_cong:
  assumes "queue_for props lo full h q s ys" and "length h' = length h" and "\<And>b. u_next (h' ! b) = u_next (h ! b)"
    and "\<And>b. u_tag (h' ! b) = u_tag (h ! b)" and "\<And>b. u_expirationTime (h' ! b) = u_expirationTime (h ! b)"
    and "baseQueue q' = baseQueue q" and "baseState q' = baseState q"
  shows "queue_for props lo full h' q' s ys"
proof -
  obtain xs where x: "ring h (baseQueue q) xs" "set xs \<inter> set ys = {}" "all_updates props (contents h (xs @ ys)) (baseState q) = full"
    "xs = [] \<longrightarrow> s = baseState q" "\<forall>a\<in>set (xs @ ys). lo \<le> u_expirationTime (h ! a)"
    using assms(1) unfolding queue_for_def by blast
  have "ring h' (baseQueue q) xs" by (rule ring_cong [OF x(1)]) (simp_all add: assms(2,3))
  moreover have "all_updates props (contents h' (xs @ ys)) (baseState q) = full"
    using all_updates_cong [of "xs @ ys" h' h props] assms(4) x(3) by simp
  ultimately show ?thesis unfolding queue_for_def assms(5-7) using x(2,4,5) by blast
qed

lemma commit_ok:
  assumes "queue_ok props lo full f"
  shows "queue_ok props lo full (commit_fiber f)"
proof -
  obtain ys where y: "ring (store f) (pending f) ys" "queue_for props lo full (store f) (workInProgress f) (memoizedState f) ys"
    using assms by (auto simp: queue_ok_def)
  let ?g = "fold call_effect (effects (workInProgress f)) (f\<lparr>workInProgress := (workInProgress f)\<lparr>effects := []\<rparr>\<rparr>)"
  note fr = call_effects_frame [of "effects (workInProgress f)" "f\<lparr>workInProgress := (workInProgress f)\<lparr>effects := []\<rparr>\<rparr>"]
  have "ring (store ?g) (pending ?g) ys" unfolding fr(5) by (rule ring_cong) (use y(1) in \<open>simp_all add: fr(1,2)\<close>)
  moreover have "queue_for props lo full (store ?g) (workInProgress ?g) (memoizedState ?g) ys"
    unfolding fr(6,7) by (rule queue_for_cong [where h = "store f" and q = "workInProgress f"]) (use y(2) in \<open>simp_all add: fr(1-4)\<close>)
  ultimately show ?thesis unfolding queue_ok_def by (intro exI [of _ ys]) (simp add: commit_fiber_def commitUpdateQueue_def Let_def)
qed

lemma new_fiber_ok: "queue_ok props lo s (new_class_fiber s)"
  by (auto simp: queue_ok_def queue_for_def new_class_fiber_def initializeUpdateQueue_def ring_def contents_def)

lemma queue_run_ok:
  assumes "\<forall>u\<in>set (enqueued es). lo \<le> fst u" and "lo \<le> Sync"
  shows "queue_ok props lo (all_updates props (enqueued es) s) (foldl (queue_step props) (new_class_fiber s) es)"
  using assms(1)
proof (induction es rule: rev_induct)
  case Nil
  show ?case by (simp add: new_fiber_ok)
next
  case (snoc e es)
  then have IH: "queue_ok props lo (all_updates props (enqueued es) s) (foldl (queue_step props) (new_class_fiber s) es)"
    by (simp add: enqueued_append)
  show ?case
  proof (cases e)
    case (Enqueue time tg cb)
    then show ?thesis using enqueue_keeps_ok [OF IH, of time tg cb] snoc.prems
      by (simp add: enqueued_append all_updates_append all_updates_single)
  next
    case (Render r)
    then show ?thesis using render_ok(1) [OF IH assms(2), of r] by (simp add: enqueued_append)
  next
    case Commit
    then show ?thesis using commit_ok [OF IH] by (simp add: enqueued_append)
  qed
qed

section \<open>Properties\<close>

text \<open>
  C10: no update is lost or applied out of order.  Whatever the priorities of the updates and of the
  renders, and whichever renders are committed or thrown away, a render that leaves nothing in the
  base queue shows the initial state with all enqueued updates applied in the order in which they
  were enqueued; and a render whose priority every update reaches leaves nothing.
\<close>

theorem updates_are_never_lost:
  assumes "f = queue_step props (foldl (queue_step props) (new_class_fiber s) es) (Render r)"
  shows "(baseQueue (workInProgress f) = None \<longrightarrow> memoizedState f = all_updates props (enqueued es) s) \<and>
    ((\<forall>u\<in>set (enqueued es). r \<le> fst u) \<and> r \<le> Sync \<longrightarrow> baseQueue (workInProgress f) = None)"
proof
  have ok: "queue_ok props 0 (all_updates props (enqueued es) s) f" "pending f = None"
    unfolding assms using render_ok(1,2) [OF queue_run_ok [of es 0 props s]] by simp_all
  show "baseQueue (workInProgress f) = None \<longrightarrow> memoizedState f = all_updates props (enqueued es) s"
    using ok by (auto simp: queue_ok_def queue_for_def ring_def contents_def)
  show "(\<forall>u\<in>set (enqueued es). r \<le> fst u) \<and> r \<le> Sync \<longrightarrow> baseQueue (workInProgress f) = None"
    unfolding assms using render_ok(3) [OF queue_run_ok [of es r props s]] by simp
qed

definition ex_set :: "string \<Rightarrow> update_tag" where
  "ex_set v = UpdateState (Value (Some [(''shown'', JString v)]))"

definition ex_updates :: "queue_event list" where
  "ex_updates = [Enqueue 10 (ex_set ''first'') None, Enqueue 20 (ex_set ''second'') (Some 7), Render 15, Commit]"

theorem updates_are_never_lost_witness:
  "memoizedState (queue_step [] (foldl (queue_step []) (new_class_fiber None) ex_updates) (Render 5)) = Some [(''shown'', JString ''second'')]"
proof -
  have "baseQueue (workInProgress (queue_step [] (foldl (queue_step []) (new_class_fiber None) ex_updates) (Render 5))) = None"
    using updates_are_never_lost [OF refl, of "[]" None ex_updates 5] by (simp add: ex_updates_def Sync_def)
  then show ?thesis
    using updates_are_never_lost [OF refl, of "[]" None ex_updates 5]
    by (simp add: ex_updates_def ex_set_def all_updates_def merge_partial_def call_payload_def object_assign_def)
qed

text \<open>
  C15: the loop over the queue ends.  In every run the base queue, with the pending updates merged into
  it, is a ring; the loop visits each of its updates once, in order, and stops where it started, for
  every bound on the number of its steps that is at least the number of updates ever created.
\<close>

theorem update_loop_ends:
  assumes "f1 = merge_pending ((cloneUpdateQueue (foldl (queue_step props) (new_class_fiber s) es))\<lparr>hasForceUpdate := False\<rparr>)"
    and "baseQueue (workInProgress f1) = Some b"
  shows "\<exists>xs. ring (store f1) (Some b) xs \<and> u_next (store f1 ! b) = Some (hd xs) \<and>
    (\<forall>n \<ge> length (store f1). process_loop n props r (hd xs) (hd xs) (loop_start f1) =
       foldl (\<lambda>st a. process_one props r a st) (loop_start f1) xs)"
proof -
  let ?f = "foldl (queue_step props) (new_class_fiber s) es" and ?c = "(cloneUpdateQueue (foldl (queue_step props) (new_class_fiber s) es))\<lparr>hasForceUpdate := False\<rparr>"
  obtain ys xs where y: "ring (store ?f) (pending ?f) ys" and x: "ring (store ?f) (baseQueue (current ?f)) xs" "set xs \<inter> set ys = {}"
    using queue_run_ok [of es 0 props s] unfolding queue_ok_def queue_for_def by auto
  have "ring (store f1) (Some b) (xs @ ys)"
    using merge_pending_ok(1) [of ?c ys xs] y x assms by (simp add: cloneUpdateQueue_def)
  moreover then obtain a as where as: "xs @ ys = a # as" by (cases "xs @ ys") (auto simp: ring_def)
  ultimately have r: "ring (store f1) (Some b) (a # as)" by simp
  then have p: "path (store f1) (a # as)" "u_next (store f1 ! last (a # as)) = Some a" "a \<notin> set as" "u_next (store f1 ! b) = Some a"
    by (auto simp: ring_def)
  have "process_loop n props r a a (loop_start f1) = foldl (\<lambda>st a. process_one props r a st) (loop_start f1) (a # as)"
    if "length (store f1) \<le> n" for n
    using process_loop_rel [OF loop_start_rel p(1-3), THEN conjunct2] ring_length [OF r] that by simp
  then show ?thesis using r p(4) by (intro exI [of _ "a # as"]) simp
qed

definition ex_merged :: class_fiber where
  "ex_merged = merge_pending ((cloneUpdateQueue (foldl (queue_step []) (new_class_fiber None)
     [Enqueue 10 (ex_set ''first'') None]))\<lparr>hasForceUpdate := False\<rparr>)"

lemmas queue_eval = ex_updates_def ex_set_def new_class_fiber_def initializeUpdateQueue_def schedule_update_def createUpdate_def
  enqueueUpdate_def cloneUpdateQueue_def processUpdateQueue_def merge_pending_def set_next_def process_one_def append_clone_def
  is_force_def commit_fiber_def commitUpdateQueue_def call_effect_def merge_partial_def call_payload_def
  object_assign_def loop_start_def close_ring_def Let_def

lemma Sync_not_less: "\<not> Sync < 5" "\<not> Sync < 15"
  by (simp_all add: Sync_def)

theorem update_loop_ends_witness:
  "\<exists>xs. ring (store ex_merged) (Some 0) xs \<and> u_next (store ex_merged ! 0) = Some (hd xs) \<and>
    (\<forall>n \<ge> length (store ex_merged). process_loop n [] 5 (hd xs) (hd xs) (loop_start ex_merged) =
       foldl (\<lambda>st a. process_one [] 5 a st) (loop_start ex_merged) xs)"
  by (rule update_loop_ends [OF ex_merged_def]) (simp add: ex_merged_def queue_eval)

text \<open>
  The callback of an update that is rebased is called twice: the clone in the new base queue keeps it.
\<close>

lemma rebased_callback_called_twice:
  "called (foldl (queue_step []) (new_class_fiber None) (ex_updates @ [Render 5, Commit])) = [7, 7]"
  by (simp add: queue_eval Sync_not_less)

text \<open>
  A captured update is put in front of the base queue, not at its end: here the update that is
  already there is applied after it.
\<close>

definition ex_capture :: class_fiber where
  "ex_capture = (let (a, f) = createUpdate 20 (ex_set ''captured'') None
     (queue_step [] (new_class_fiber None) (Enqueue 10 (ex_set ''queued'') None))
     in enqueueCapturedUpdate a (queue_step [] f (Render 15)))"

lemma captured_update_goes_first:
  "memoizedState (processUpdateQueue [] 5 ex_capture) = Some [(''shown'', JString ''queued'')]"
  by (simp add: ex_capture_def enqueueCapturedUpdate_def queue_eval Sync_not_less)

end
