(* ===== verification/ChildReconciler.thy ===== *)
theory ChildReconciler
  imports Prelude "HOL-Library.AList" "HOL-Library.Multiset" "HOL-Library.Sublist"
begin

text \<open>
  The reconciliation of the children of a fiber: \<open>ChildReconciler\<close> of
  \<open>Libraries/Renderer/implementations/ReactNativeRenderer-dev.js\<close>, with the functions that create
  fibers for elements, texts, fragments and portals.

  Current fibers live in a store and are known by their address; the children of the current fiber,
  linked by \<open>sibling\<close> in the code, are the list of their addresses.  A new fiber has an \<open>alternate\<close>
  when it is the work in progress of a current one.  The effect list of the parent, which holds only
  deletions at this point, is a list of addresses.  Errors are values; the work on a parent whose
  children throw is thrown away as a whole.
\<close>

section \<open>React nodes\<close>

datatype elem_type =
    FragmentType | FunctionType nat | ClassType nat | HostType string
  | ConcurrentModeType | StrictModeType | ProfilerType | SuspenseType | SuspenseListType
  | ProviderType nat | ContextType nat | ForwardRefType nat | MemoType nat | LazyType nat | BlockType nat
  | NullType | InvalidType nat

datatype elem_ref = RefNull | RefFunction nat | RefObject nat | RefString string | RefOther string

text \<open>The owner of an element: a class component with its instance, or another component.\<close>

datatype elem_owner = ClassOwner "nat option" | OtherOwner

text \<open>
  What may be returned from \<open>render\<close> or appear in an array of children.  A number has its text and
  tells whether it is truthy; an iterable has the values of its iterator, or no iterator.
\<close>

datatype react_node =
    StringNode string
  | NumberNode string bool
  | ElementNode element
  | PortalNode portal
  | ArrayNode "react_node list"
  | IterableNode "react_node list option"
  | NullNode
  | UndefinedNode
  | BooleanNode bool
  | FunctionNode nat
  | ObjectNode nat
and element = Element (e_key: "string option") (e_type: elem_type) (e_ref: elem_ref) (e_owner: "elem_owner option")
    (e_props: nat) (e_children: react_node)
and portal = Portal (p_key: "string option") (containerInfo: nat) (implementation: nat) (p_children: react_node)

section \<open>Fibers\<close>

datatype work_tag =
    FunctionComponent | ClassComponent | IndeterminateComponent | HostComponent | HostText | HostPortal | Fragment
  | Mode | Profiler | SuspenseComponent | SuspenseListComponent | ContextProvider | ContextConsumer | ForwardRef
  | MemoComponent | SimpleMemoComponent | LazyComponent | Block

datatype pending_props = TextContent string | Props nat react_node | Children react_node

datatype fiber_ref = NoRef | FunctionRef nat | ObjectRef nat | StringRef nat string

datatype effect_tag = NoEffect | Placement

record fiber_node =
  f_tag :: work_tag
  f_key :: "string option"
  elementType :: "elem_type option"
  stateNode :: "(nat \<times> nat) option"
  f_ref :: fiber_ref
  f_index :: nat
  pendingProps :: pending_props
  alternate :: "nat option"
  effectTag :: effect_tag

text \<open>
  What the functions read: whether side effects are tracked, the current fibers, the hook of hot
  reloading, and the tag and type of the parent.
\<close>

record reconciler =
  shouldTrackSideEffects :: bool
  current_fibers :: "nat \<Rightarrow> fiber_node"
  isCompatibleFamilyForHotReloading :: "fiber_node \<Rightarrow> element \<Rightarrow> bool"
  return_tag :: work_tag
  return_textarea :: bool
  return_mock :: bool

definition createFiber :: "work_tag \<Rightarrow> pending_props \<Rightarrow> string option \<Rightarrow> fiber_node" where
  "createFiber tag props key =
     \<lparr>f_tag = tag, f_key = key, elementType = None, stateNode = None, f_ref = NoRef, f_index = 0,
      pendingProps = props, alternate = None, effectTag = NoEffect\<rparr>"

definition createFiberFromText :: "string \<Rightarrow> fiber_node" where
  "createFiberFromText content = createFiber HostText (TextContent content) None"

definition createFiberFromFragment :: "react_node \<Rightarrow> string option \<Rightarrow> fiber_node" where
  "createFiberFromFragment elements key = createFiber Fragment (Children elements) key"

definition createFiberFromPortal :: "portal \<Rightarrow> fiber_node" where
  "createFiberFromPortal p =
     (createFiber HostPortal (Children (if p_children p = NullNode then ArrayNode [] else p_children p)) (p_key p))
       \<lparr>stateNode := Some (containerInfo p, implementation p)\<rparr>"

text \<open>The tag of the fiber of a type; fragments are made before it is asked for.\<close>

fun tag_of_type :: "elem_type \<Rightarrow> work_tag option" where
  "tag_of_type (ClassType n) = Some ClassComponent"
| "tag_of_type (FunctionType n) = Some IndeterminateComponent"
| "tag_of_type (HostType s) = Some HostComponent"
| "tag_of_type FragmentType = Some Fragment"
| "tag_of_type ConcurrentModeType = Some Mode"
| "tag_of_type StrictModeType = Some Mode"
| "tag_of_type ProfilerType = Some Profiler"
| "tag_of_type SuspenseType = Some SuspenseComponent"
| "tag_of_type SuspenseListType = Some SuspenseListComponent"
| "tag_of_type (ProviderType n) = Some ContextProvider"
| "tag_of_type (ContextType n) = Some ContextConsumer"
| "tag_of_type (ForwardRefType n) = Some ForwardRef"
| "tag_of_type (MemoType n) = Some MemoComponent"
| "tag_of_type (LazyType n) = Some LazyComponent"
| "tag_of_type (BlockType n) = Some Block"
| "tag_of_type NullType = None"
| "tag_of_type (InvalidType n) = None"

definition createFiberFromTypeAndProps :: "elem_type \<Rightarrow> string option \<Rightarrow> nat \<Rightarrow> react_node \<Rightarrow> js_exn + fiber_node" where
  "createFiberFromTypeAndProps type key props children =
     (if type = FragmentType then Inr (createFiberFromFragment children key)
      else case tag_of_type type of
             None \<Rightarrow> Inl (JsError ''Element type is invalid'')
           | Some tag \<Rightarrow> Inr ((createFiber tag (Props props children) key)\<lparr>elementType := Some type\<rparr>))"

definition createFiberFromElement :: "element \<Rightarrow> js_exn + fiber_node" where
  "createFiberFromElement e = createFiberFromTypeAndProps (e_type e) (e_key e) (e_props e) (e_children e)"

text \<open>\<open>createWorkInProgress\<close> and \<open>useFiber\<close>: the other version of a current fiber.\<close>

definition createWorkInProgress :: "reconciler \<Rightarrow> nat \<Rightarrow> pending_props \<Rightarrow> fiber_node" where
  "createWorkInProgress R a props =
     (current_fibers R a)\<lparr>pendingProps := props, alternate := Some a, effectTag := NoEffect\<rparr>"

definition useFiber :: "reconciler \<Rightarrow> nat \<Rightarrow> pending_props \<Rightarrow> fiber_node" where
  "useFiber R a props = (createWorkInProgress R a props)\<lparr>f_index := 0\<rparr>"

section \<open>References\<close>

definition string_ref :: "fiber_node option \<Rightarrow> string \<Rightarrow> elem_owner \<Rightarrow> js_exn + fiber_ref" where
  "string_ref current s owner =
     (case owner of
        OtherOwner \<Rightarrow> Inl (JsError ''Function components cannot have string refs'')
      | ClassOwner None \<Rightarrow> Inl (JsError ''Missing owner for string ref'')
      | ClassOwner (Some inst) \<Rightarrow>
          (case current of
             Some c \<Rightarrow> (case f_ref c of
                          StringRef inst' s' \<Rightarrow> if s' = s then Inr (f_ref c) else Inr (StringRef inst s)
                        | _ \<Rightarrow> Inr (StringRef inst s))
           | None \<Rightarrow> Inr (StringRef inst s)))"

fun coerceRef :: "fiber_node option \<Rightarrow> elem_ref \<Rightarrow> elem_owner option \<Rightarrow> js_exn + fiber_ref" where
  "coerceRef current RefNull owner = Inr NoRef"
| "coerceRef current (RefFunction n) owner = Inr (FunctionRef n)"
| "coerceRef current (RefObject n) owner = Inr (ObjectRef n)"
| "coerceRef current (RefString s) (Some owner) = string_ref current s owner"
| "coerceRef current (RefOther s) (Some owner) = string_ref current s owner"
| "coerceRef current (RefString s) None = Inl (JsError ''Element ref was specified as a string but no owner was set'')"
| "coerceRef current (RefOther s) None = Inl (JsError ''Expected ref to be a function, a string, an object or null'')"

definition with_ref :: "fiber_node option \<Rightarrow> element \<Rightarrow> fiber_node \<Rightarrow> js_exn + fiber_node" where
  "with_ref current e f =
     (case coerceRef current (e_ref e) (e_owner e) of Inl x \<Rightarrow> Inl x | Inr r \<Rightarrow> Inr (f\<lparr>f_ref := r\<rparr>))"

definition create_element_fiber :: "fiber_node option \<Rightarrow> element \<Rightarrow> js_exn + fiber_node" where
  "create_element_fiber current e =
     (case createFiberFromElement e of Inl x \<Rightarrow> Inl x | Inr f \<Rightarrow> with_ref current e f)"

section \<open>Updating one child\<close>

text \<open>The comparison \<open>current.elementType === element.type\<close>, where both may be \<open>null\<close>.\<close>

definition same_type :: "reconciler \<Rightarrow> fiber_node \<Rightarrow> element \<Rightarrow> bool" where
  "same_type R c e \<longleftrightarrow>
     (case elementType c of None \<Rightarrow> e_type e = NullType | Some t \<Rightarrow> t = e_type e) \<or> isCompatibleFamilyForHotReloading R c e"

definition updateTextNode :: "reconciler \<Rightarrow> nat option \<Rightarrow> string \<Rightarrow> fiber_node" where
  "updateTextNode R current textContent =
     (case current of
        None \<Rightarrow> createFiberFromText textContent
      | Some a \<Rightarrow> if f_tag (current_fibers R a) \<noteq> HostText then createFiberFromText textContent
                  else useFiber R a (TextContent textContent))"

definition updateElement :: "reconciler \<Rightarrow> nat option \<Rightarrow> element \<Rightarrow> js_exn + fiber_node" where
  "updateElement R current e =
     (case current of
        None \<Rightarrow> create_element_fiber None e
      | Some a \<Rightarrow>
          if same_type R (current_fibers R a) e
          then with_ref (Some (current_fibers R a)) e (useFiber R a (Props (e_props e) (e_children e)))
          else create_element_fiber (Some (current_fibers R a)) e)"

definition same_portal :: "fiber_node \<Rightarrow> portal \<Rightarrow> bool" where
  "same_portal c p \<longleftrightarrow> f_tag c = HostPortal \<and> stateNode c = Some (containerInfo p, implementation p)"

fun truthy_node :: "react_node \<Rightarrow> bool" where
  "truthy_node (StringNode s) \<longleftrightarrow> s \<noteq> []"
| "truthy_node (NumberNode s b) \<longleftrightarrow> b"
| "truthy_node NullNode \<longleftrightarrow> False"
| "truthy_node UndefinedNode \<longleftrightarrow> False"
| "truthy_node (BooleanNode b) \<longleftrightarrow> b"
| "truthy_node _ \<longleftrightarrow> True"

definition portal_children :: "portal \<Rightarrow> react_node" where
  "portal_children p = (if truthy_node (p_children p) then p_children p else ArrayNode [])"

definition updatePortal :: "reconciler \<Rightarrow> nat option \<Rightarrow> portal \<Rightarrow> fiber_node" where
  "updatePortal R current p =
     (case current of
        None \<Rightarrow> createFiberFromPortal p
      | Some a \<Rightarrow> if same_portal (current_fibers R a) p then useFiber R a (Children (portal_children p))
                  else createFiberFromPortal p)"

definition updateFragment :: "reconciler \<Rightarrow> nat option \<Rightarrow> react_node \<Rightarrow> string option \<Rightarrow> fiber_node" where
  "updateFragment R current fragment key =
     (case current of
        None \<Rightarrow> createFiberFromFragment fragment key
      | Some a \<Rightarrow> if f_tag (current_fibers R a) \<noteq> Fragment then createFiberFromFragment fragment key
                  else useFiber R a (Children fragment))"

definition throwOnInvalidObjectType :: "reconciler \<Rightarrow> js_exn + unit" where
  "throwOnInvalidObjectType R =
     (if return_textarea R then Inr () else Inl (JsError ''Objects are not valid as a React child''))"

definition invalid_object :: "reconciler \<Rightarrow> js_exn + fiber_node option" where
  "invalid_object R = (case throwOnInvalidObjectType R of Inl e \<Rightarrow> Inl e | Inr u \<Rightarrow> Inr None)"

definition some_fiber :: "js_exn + fiber_node \<Rightarrow> js_exn + fiber_node option" where
  "some_fiber r = map_sum id Some r"

fun createChild :: "reconciler \<Rightarrow> react_node \<Rightarrow> js_exn + fiber_node option" where
  "createChild R (StringNode s) = Inr (Some (createFiberFromText s))"
| "createChild R (NumberNode s b) = Inr (Some (createFiberFromText s))"
| "createChild R (ElementNode e) = some_fiber (create_element_fiber None e)"
| "createChild R (PortalNode p) = Inr (Some (createFiberFromPortal p))"
| "createChild R (ArrayNode ns) = Inr (Some (createFiberFromFragment (ArrayNode ns) None))"
| "createChild R (IterableNode ns) = Inr (Some (createFiberFromFragment (IterableNode ns) None))"
| "createChild R (ObjectNode n) = invalid_object R"
| "createChild R _ = Inr None"

text \<open>The key of the old fiber in a slot, \<open>null\<close> when there is none.\<close>

definition slot_key :: "reconciler \<Rightarrow> nat option \<Rightarrow> string option" where
  "slot_key R oldFiber = (case oldFiber of None \<Rightarrow> None | Some a \<Rightarrow> f_key (current_fibers R a))"

fun updateSlot :: "reconciler \<Rightarrow> nat option \<Rightarrow> react_node \<Rightarrow> js_exn + fiber_node option" where
  "updateSlot R old (StringNode s) = (if slot_key R old \<noteq> None then Inr None else Inr (Some (updateTextNode R old s)))"
| "updateSlot R old (NumberNode s b) = (if slot_key R old \<noteq> None then Inr None else Inr (Some (updateTextNode R old s)))"
| "updateSlot R old (ElementNode e) =
     (if e_key e = slot_key R old
      then if e_type e = FragmentType then Inr (Some (updateFragment R old (e_children e) (slot_key R old)))
           else some_fiber (updateElement R old e)
      else Inr None)"
| "updateSlot R old (PortalNode p) = (if p_key p = slot_key R old then Inr (Some (updatePortal R old p)) else Inr None)"
| "updateSlot R old (ArrayNode ns) =
     (if slot_key R old \<noteq> None then Inr None else Inr (Some (updateFragment R old (ArrayNode ns) None)))"
| "updateSlot R old (IterableNode ns) =
     (if slot_key R old \<noteq> None then Inr None else Inr (Some (updateFragment R old (IterableNode ns) None)))"
| "updateSlot R old (ObjectNode n) = invalid_object R"
| "updateSlot R old _ = Inr None"

text \<open>Keys of the map of existing children: explicit keys are strings, implicit ones are indices.\<close>

datatype map_key = Key string | Idx nat

definition key_or_index :: "string option \<Rightarrow> nat \<Rightarrow> map_key" where
  "key_or_index k i = (case k of None \<Rightarrow> Idx i | Some s \<Rightarrow> Key s)"

fun updateFromMap :: "reconciler \<Rightarrow> (map_key \<times> nat) list \<Rightarrow> nat \<Rightarrow> react_node \<Rightarrow> js_exn + fiber_node option" where
  "updateFromMap R m i (StringNode s) = Inr (Some (updateTextNode R (map_of m (Idx i)) s))"
| "updateFromMap R m i (NumberNode s b) = Inr (Some (updateTextNode R (map_of m (Idx i)) s))"
| "updateFromMap R m i (ElementNode e) =
     (let matched = map_of m (key_or_index (e_key e) i)
      in if e_type e = FragmentType then Inr (Some (updateFragment R matched (e_children e) (e_key e)))
         else some_fiber (updateElement R matched e))"
| "updateFromMap R m i (PortalNode p) = Inr (Some (updatePortal R (map_of m (key_or_index (p_key p) i)) p))"
| "updateFromMap R m i (ArrayNode ns) = Inr (Some (updateFragment R (map_of m (Idx i)) (ArrayNode ns) None))"
| "updateFromMap R m i (IterableNode ns) = Inr (Some (updateFragment R (map_of m (Idx i)) (IterableNode ns) None))"
| "updateFromMap R m i (ObjectNode n) = invalid_object R"
| "updateFromMap R m i _ = Inr None"

section \<open>The list of children\<close>

text \<open>The variables of the loops: the rest of the old fibers, the new fibers so far, the deletions.\<close>

record loop_state =
  oldFibers :: "nat list"
  newIdx :: nat
  lastPlacedIndex :: nat
  newFibers :: "fiber_node list"
  deletions :: "nat list"

definition deleteChild :: "reconciler \<Rightarrow> nat \<Rightarrow> nat list \<Rightarrow> nat list" where
  "deleteChild R a ds = (if shouldTrackSideEffects R then ds @ [a] else ds)"

definition deleteRemainingChildren :: "reconciler \<Rightarrow> nat list \<Rightarrow> nat list \<Rightarrow> nat list" where
  "deleteRemainingChildren R as ds = (if shouldTrackSideEffects R then fold (deleteChild R) as ds else ds)"

definition mapRemainingChildren :: "reconciler \<Rightarrow> nat list \<Rightarrow> (map_key \<times> nat) list" where
  "mapRemainingChildren R as =
     fold (\<lambda>a. AList.update (key_or_index (f_key (current_fibers R a)) (f_index (current_fibers R a))) a) as []"

definition placeChild :: "reconciler \<Rightarrow> fiber_node \<Rightarrow> nat \<Rightarrow> nat \<Rightarrow> nat \<times> fiber_node" where
  "placeChild R newFiber lastPlaced newIndex =
     (let nf = newFiber\<lparr>f_index := newIndex\<rparr>
      in if \<not> shouldTrackSideEffects R then (lastPlaced, nf)
         else case alternate nf of
                Some a \<Rightarrow> (let oldIndex = f_index (current_fibers R a)
                           in if oldIndex < lastPlaced then (lastPlaced, nf\<lparr>effectTag := Placement\<rparr>) else (oldIndex, nf))
              | None \<Rightarrow> (lastPlaced, nf\<lparr>effectTag := Placement\<rparr>))"

definition placeSingleChild :: "reconciler \<Rightarrow> fiber_node \<Rightarrow> fiber_node" where
  "placeSingleChild R newFiber =
     (if shouldTrackSideEffects R \<and> alternate newFiber = None then newFiber\<lparr>effectTag := Placement\<rparr> else newFiber)"

text \<open>A new fiber is placed and becomes the sibling of the previous one.\<close>

definition add_fiber :: "reconciler \<Rightarrow> fiber_node \<Rightarrow> loop_state \<Rightarrow> loop_state" where
  "add_fiber R nf st =
     (let (l, nf1) = placeChild R nf (lastPlacedIndex st) (newIdx st)
      in st\<lparr>lastPlacedIndex := l, newFibers := newFibers st @ [nf1], newIdx := Suc (newIdx st)\<rparr>)"

text \<open>The body of the first loop: \<open>None\<close> is the \<open>break\<close>, which leaves the old fibers as they were.\<close>

definition slot_step :: "reconciler \<Rightarrow> react_node \<Rightarrow> loop_state \<Rightarrow> js_exn + loop_state option" where
  "slot_step R child st =
     (case oldFibers st of
        [] \<Rightarrow> Inr None
      | a # as \<Rightarrow>
          let (old, next) = (if f_index (current_fibers R a) > newIdx st then (None, a # as) else (Some a, as))
          in case updateSlot R old child of
               Inl e \<Rightarrow> Inl e
             | Inr None \<Rightarrow> Inr None
             | Inr (Some nf) \<Rightarrow>
                 let ds = (if shouldTrackSideEffects R \<and> old \<noteq> None \<and> alternate nf = None
                           then deleteChild R a (deletions st) else deletions st)
                 in Inr (Some (add_fiber R nf (st\<lparr>oldFibers := next, deletions := ds\<rparr>))))"

definition create_step :: "reconciler \<Rightarrow> react_node \<Rightarrow> loop_state \<Rightarrow> js_exn + loop_state" where
  "create_step R child st =
     (case createChild R child of
        Inl e \<Rightarrow> Inl e
      | Inr None \<Rightarrow> Inr (st\<lparr>newIdx := Suc (newIdx st)\<rparr>)
      | Inr (Some nf) \<Rightarrow> Inr (add_fiber R nf st))"

definition map_step :: "reconciler \<Rightarrow> react_node \<Rightarrow> (map_key \<times> nat) list \<times> loop_state \<Rightarrow>
    js_exn + (map_key \<times> nat) list \<times> loop_state" where
  "map_step R child ms =
     (case ms of (m, st) \<Rightarrow>
        case updateFromMap R m (newIdx st) child of
          Inl e \<Rightarrow> Inl e
        | Inr None \<Rightarrow> Inr (m, st\<lparr>newIdx := Suc (newIdx st)\<rparr>)
        | Inr (Some nf) \<Rightarrow>
            let m1 = (if shouldTrackSideEffects R \<and> alternate nf \<noteq> None
                      then AList.delete (key_or_index (f_key nf) (newIdx st)) m else m)
            in Inr (m1, add_fiber R nf st))"

lemma add_fiber_newIdx [simp]: "newIdx (add_fiber R nf st) = Suc (newIdx st)"
  by (simp add: add_fiber_def split: prod.split)

lemma slot_step_newIdx: "slot_step R child st = Inr (Some st') \<Longrightarrow> newIdx st' = Suc (newIdx st)"
  by (auto simp: slot_step_def Let_def split: list.splits prod.splits sum.splits option.splits if_splits)

definition loop_init :: "nat list \<Rightarrow> loop_state" where
  "loop_init olds = \<lparr>oldFibers = olds, newIdx = 0, lastPlacedIndex = 0, newFibers = [], deletions = []\<rparr>"

text \<open>The loops over an array go by the index of the child.\<close>

function slot_loop_array :: "reconciler \<Rightarrow> react_node list \<Rightarrow> loop_state \<Rightarrow> js_exn + loop_state" where
  "slot_loop_array R cs st =
     (if oldFibers st \<noteq> [] \<and> newIdx st < length cs
      then case slot_step R (cs ! newIdx st) st of
             Inl e \<Rightarrow> Inl e
           | Inr None \<Rightarrow> Inr st
           | Inr (Some st') \<Rightarrow> slot_loop_array R cs st'
      else Inr st)"
  by pat_completeness auto
termination
  by (relation "measure (\<lambda>(R, cs, st). length cs - newIdx st)") (auto dest: slot_step_newIdx)

declare slot_loop_array.simps [simp del]

function for_array :: "(react_node \<Rightarrow> 's \<Rightarrow> js_exn + 's) \<Rightarrow> react_node list \<Rightarrow> nat \<Rightarrow> 's \<Rightarrow> js_exn + 's" where
  "for_array body cs i st =
     (if i < length cs then (case body (cs ! i) st of Inl e \<Rightarrow> Inl e | Inr st' \<Rightarrow> for_array body cs (Suc i) st') else Inr st)"
  by pat_completeness auto
termination
  by (relation "measure (\<lambda>(body, cs, i, st). length cs - i)") auto

declare for_array.simps [simp del]

definition reconcileChildrenArray :: "reconciler \<Rightarrow> nat list \<Rightarrow> react_node list \<Rightarrow> js_exn + fiber_node list \<times> nat list" where
  "reconcileChildrenArray R olds newChildren =
     (case slot_loop_array R newChildren (loop_init olds) of
        Inl e \<Rightarrow> Inl e
      | Inr st \<Rightarrow>
          if newIdx st = length newChildren
          then Inr (newFibers st, deleteRemainingChildren R (oldFibers st) (deletions st))
          else if oldFibers st = []
          then (case for_array (create_step R) newChildren (newIdx st) st of
                  Inl e \<Rightarrow> Inl e
                | Inr st' \<Rightarrow> Inr (newFibers st', deletions st'))
          else (case for_array (map_step R) newChildren (newIdx st) (mapRemainingChildren R (oldFibers st), st) of
                  Inl e \<Rightarrow> Inl e
                | Inr (m, st') \<Rightarrow>
                    Inr (newFibers st', if shouldTrackSideEffects R then fold (deleteChild R) (map snd m) (deletions st')
                                        else deletions st')))"

text \<open>The loops over an iterator take its next value.\<close>

fun slot_loop_iterator :: "reconciler \<Rightarrow> react_node list \<Rightarrow> loop_state \<Rightarrow> js_exn + react_node list \<times> loop_state" where
  "slot_loop_iterator R [] st = Inr ([], st)"
| "slot_loop_iterator R (c # cs) st =
     (if oldFibers st = [] then Inr (c # cs, st)
      else case slot_step R c st of
             Inl e \<Rightarrow> Inl e
           | Inr None \<Rightarrow> Inr (c # cs, st)
           | Inr (Some st') \<Rightarrow> slot_loop_iterator R cs st')"

fun for_iterator :: "(react_node \<Rightarrow> 's \<Rightarrow> js_exn + 's) \<Rightarrow> react_node list \<Rightarrow> 's \<Rightarrow> js_exn + 's" where
  "for_iterator body [] st = Inr st"
| "for_iterator body (c # cs) st = (case body c st of Inl e \<Rightarrow> Inl e | Inr st' \<Rightarrow> for_iterator body cs st')"

definition reconcileChildrenIterator :: "reconciler \<Rightarrow> nat list \<Rightarrow> react_node list option \<Rightarrow> js_exn + fiber_node list \<times> nat list" where
  "reconcileChildrenIterator R olds iterator =
     (case iterator of
        None \<Rightarrow> Inl (JsError ''An iterable object provided no iterator.'')
      | Some values \<Rightarrow>
          (case slot_loop_iterator R values (loop_init olds) of
             Inl e \<Rightarrow> Inl e
           | Inr (rest, st) \<Rightarrow>
               if rest = []
               then Inr (newFibers st, deleteRemainingChildren R (oldFibers st) (deletions st))
               else if oldFibers st = []
               then (case for_iterator (create_step R) rest st of
                       Inl e \<Rightarrow> Inl e
                     | Inr st' \<Rightarrow> Inr (newFibers st', deletions st'))
               else (case for_iterator (map_step R) rest (mapRemainingChildren R (oldFibers st), st) of
                       Inl e \<Rightarrow> Inl e
                     | Inr (m, st') \<Rightarrow>
                         Inr (newFibers st', if shouldTrackSideEffects R then fold (deleteChild R) (map snd m) (deletions st')
                                             else deletions st'))))"

section \<open>A single child\<close>

definition reconcileSingleTextNode :: "reconciler \<Rightarrow> nat list \<Rightarrow> string \<Rightarrow> fiber_node \<times> nat list" where
  "reconcileSingleTextNode R olds textContent =
     (case olds of
        a # as \<Rightarrow>
          if f_tag (current_fibers R a) = HostText
          then (useFiber R a (TextContent textContent), deleteRemainingChildren R as [])
          else (createFiberFromText textContent, deleteRemainingChildren R olds [])
      | [] \<Rightarrow> (createFiberFromText textContent, []))"

text \<open>The search of \<open>reconcileSingleElement\<close>: the fiber to reuse, if any, and the deletions.\<close>

definition reusable :: "reconciler \<Rightarrow> fiber_node \<Rightarrow> element \<Rightarrow> bool" where
  "reusable R c e = (if f_tag c = Fragment then e_type e = FragmentType else same_type R c e)"

fun single_element_loop :: "reconciler \<Rightarrow> element \<Rightarrow> nat list \<Rightarrow> nat list \<Rightarrow> nat option \<times> nat list" where
  "single_element_loop R e [] ds = (None, ds)"
| "single_element_loop R e (a # as) ds =
     (if f_key (current_fibers R a) = e_key e
      then if reusable R (current_fibers R a) e then (Some a, deleteRemainingChildren R as ds)
           else (None, deleteRemainingChildren R (a # as) ds)
      else single_element_loop R e as (deleteChild R a ds))"

definition first_child :: "reconciler \<Rightarrow> nat list \<Rightarrow> fiber_node option" where
  "first_child R olds = (case olds of [] \<Rightarrow> None | a # as \<Rightarrow> Some (current_fibers R a))"

definition reconcileSingleElement :: "reconciler \<Rightarrow> nat list \<Rightarrow> element \<Rightarrow> js_exn + fiber_node \<times> nat list" where
  "reconcileSingleElement R olds e =
     (case single_element_loop R e olds [] of
        (Some a, ds) \<Rightarrow>
          if f_tag (current_fibers R a) = Fragment then Inr (useFiber R a (Children (e_children e)), ds)
          else (case with_ref (Some (current_fibers R a)) e (useFiber R a (Props (e_props e) (e_children e))) of
                  Inl x \<Rightarrow> Inl x | Inr f \<Rightarrow> Inr (f, ds))
      | (None, ds) \<Rightarrow>
          if e_type e = FragmentType then Inr (createFiberFromFragment (e_children e) (e_key e), ds)
          else (case create_element_fiber (first_child R olds) e of Inl x \<Rightarrow> Inl x | Inr f \<Rightarrow> Inr (f, ds)))"

fun single_portal_loop :: "reconciler \<Rightarrow> portal \<Rightarrow> nat list \<Rightarrow> nat list \<Rightarrow> nat option \<times> nat list" where
  "single_portal_loop R p [] ds = (None, ds)"
| "single_portal_loop R p (a # as) ds =
     (if f_key (current_fibers R a) = p_key p
      then if same_portal (current_fibers R a) p then (Some a, deleteRemainingChildren R as ds)
           else (None, deleteRemainingChildren R (a # as) ds)
      else single_portal_loop R p as (deleteChild R a ds))"

definition reconcileSinglePortal :: "reconciler \<Rightarrow> nat list \<Rightarrow> portal \<Rightarrow> fiber_node \<times> nat list" where
  "reconcileSinglePortal R olds p =
     (case single_portal_loop R p olds [] of
        (Some a, ds) \<Rightarrow> (useFiber R a (Children (portal_children p)), ds)
      | (None, ds) \<Rightarrow> (createFiberFromPortal p, ds))"

section \<open>All kinds of children\<close>

definition place_single :: "reconciler \<Rightarrow> fiber_node \<times> nat list \<Rightarrow> fiber_node list \<times> nat list" where
  "place_single R r = ([placeSingleChild R (fst r)], snd r)"

text \<open>\<open>render\<close> of a component must not return \<open>undefined\<close>, except for mocks.\<close>

definition nothing_returned :: "reconciler \<Rightarrow> bool" where
  "nothing_returned R \<longleftrightarrow> return_tag R = FunctionComponent \<or> return_tag R = ClassComponent \<and> \<not> return_mock R"

fun reconcile_node :: "reconciler \<Rightarrow> bool \<Rightarrow> nat list \<Rightarrow> react_node \<Rightarrow> js_exn + fiber_node list \<times> nat list" where
  "reconcile_node R isFragment olds (ElementNode e) = map_sum id (place_single R) (reconcileSingleElement R olds e)"
| "reconcile_node R isFragment olds (PortalNode p) = Inr (place_single R (reconcileSinglePortal R olds p))"
| "reconcile_node R isFragment olds (StringNode s) = Inr (place_single R (reconcileSingleTextNode R olds s))"
| "reconcile_node R isFragment olds (NumberNode s b) = Inr (place_single R (reconcileSingleTextNode R olds s))"
| "reconcile_node R isFragment olds (ArrayNode ns) = reconcileChildrenArray R olds ns"
| "reconcile_node R isFragment olds (IterableNode ns) = reconcileChildrenIterator R olds ns"
| "reconcile_node R isFragment olds (ObjectNode n) =
     (case throwOnInvalidObjectType R of Inl e \<Rightarrow> Inl e | Inr u \<Rightarrow> Inr ([], deleteRemainingChildren R olds []))"
| "reconcile_node R isFragment olds UndefinedNode =
     (if \<not> isFragment \<and> nothing_returned R then Inl (JsError ''Nothing was returned from render'')
      else Inr ([], deleteRemainingChildren R olds []))"
| "reconcile_node R isFragment olds n = Inr ([], deleteRemainingChildren R olds [])"

definition isUnkeyedTopLevelFragment :: "react_node \<Rightarrow> bool" where
  "isUnkeyedTopLevelFragment n = (case n of ElementNode e \<Rightarrow> e_type e = FragmentType \<and> e_key e = None | _ \<Rightarrow> False)"

definition reconcileChildFibers :: "reconciler \<Rightarrow> nat list \<Rightarrow> react_node \<Rightarrow> js_exn + fiber_node list \<times> nat list" where
  "reconcileChildFibers R olds newChild =
     reconcile_node R (isUnkeyedTopLevelFragment newChild) olds
       (case newChild of
          ElementNode e \<Rightarrow> if e_type e = FragmentType \<and> e_key e = None then e_children e else newChild
        | _ \<Rightarrow> newChild)"

definition cloneChildFibers :: "reconciler \<Rightarrow> nat list \<Rightarrow> fiber_node list" where
  "cloneChildFibers R olds = map (\<lambda>a. createWorkInProgress R a (pendingProps (current_fibers R a))) olds"

text \<open>A component that is mounted has no current children and tracks no side effects.\<close>

definition reconcileChildren :: "reconciler \<Rightarrow> nat list option \<Rightarrow> react_node \<Rightarrow> js_exn + fiber_node list \<times> nat list" where
  "reconcileChildren R current nextChildren =
     (case current of
        None \<Rightarrow> reconcileChildFibers (R\<lparr>shouldTrackSideEffects := False\<rparr>) [] nextChildren
      | Some olds \<Rightarrow> reconcileChildFibers (R\<lparr>shouldTrackSideEffects := True\<rparr>) olds nextChildren)"

section \<open>Arrays and iterators\<close>

lemma for_array_iterator: "for_array body cs i st = for_iterator body (drop i cs) st"
proof (induction body cs i st rule: for_array.induct)
  case (1 body cs i st)
  show ?case
  proof (cases "i < length cs")
    case True
    then have "drop i cs = cs ! i # drop (Suc i) cs" by (simp add: Cons_nth_drop_Suc)
    then show ?thesis using True 1 by (simp add: for_array.simps [of body cs i] split: sum.split)
  qed (simp add: for_array.simps [of body cs i])
qed

lemma slot_loop_iterator_array:
  "newIdx st \<le> length cs \<Longrightarrow>
   slot_loop_iterator R (drop (newIdx st) cs) st = map_sum id (\<lambda>st'. (drop (newIdx st') cs, st')) (slot_loop_array R cs st) \<and>
   (\<forall>st'. slot_loop_array R cs st = Inr st' \<longrightarrow> newIdx st' \<le> length cs)"
proof (induction R cs st rule: slot_loop_array.induct)
  case (1 R cs st)
  show ?case
  proof (cases "newIdx st < length cs")
    case lt: True
    then have d: "drop (newIdx st) cs = cs ! newIdx st # drop (Suc (newIdx st)) cs" by (simp add: Cons_nth_drop_Suc)
    show ?thesis
    proof (cases "oldFibers st = []")
      case True
      then show ?thesis using d lt by (simp add: slot_loop_array.simps [of R cs st])
    next
      case False
      show ?thesis
      proof (cases "slot_step R (cs ! newIdx st) st")
        case (Inl e)
        then show ?thesis using d lt False by (simp add: slot_loop_array.simps [of R cs st])
      next
        case (Inr r)
        show ?thesis
        proof (cases r)
          case None
          then show ?thesis using Inr d lt False by (simp add: slot_loop_array.simps [of R cs st])
        next
          case (Some st')
          have "newIdx st' = Suc (newIdx st)" using slot_step_newIdx Inr Some by blast
          then show ?thesis using 1 Inr Some d lt False by (simp add: slot_loop_array.simps [of R cs st])
        qed
      qed
    qed
  qed (use "1.prems" in \<open>simp add: slot_loop_array.simps [of R cs st]\<close>)
qed

lemma reconcileChildrenIterator_eq: "reconcileChildrenIterator R olds (Some cs) = reconcileChildrenArray R olds cs"
proof -
  have i: "slot_loop_iterator R cs (loop_init olds) =
      map_sum id (\<lambda>st'. (drop (newIdx st') cs, st')) (slot_loop_array R cs (loop_init olds))"
    and l: "\<And>st'. slot_loop_array R cs (loop_init olds) = Inr st' \<Longrightarrow> newIdx st' \<le> length cs"
    using slot_loop_iterator_array [of "loop_init olds" cs R] by (simp_all add: loop_init_def)
  show ?thesis
  proof (cases "slot_loop_array R cs (loop_init olds)")
    case (Inl e)
    then show ?thesis using i by (simp add: reconcileChildrenIterator_def reconcileChildrenArray_def)
  next
    case (Inr st)
    then have "drop (newIdx st) cs = [] \<longleftrightarrow> newIdx st = length cs" using l by fastforce
    then show ?thesis using i Inr
      by (simp add: reconcileChildrenIterator_def reconcileChildrenArray_def for_array_iterator del: drop_eq_Nil)
  qed
qed

section \<open>What one child gives\<close>

text \<open>The key of a child, and whether it has a fiber at all.\<close>

fun child_key :: "react_node \<Rightarrow> string option" where
  "child_key (ElementNode e) = e_key e"
| "child_key (PortalNode p) = p_key p"
| "child_key _ = None"

fun visible :: "react_node \<Rightarrow> bool" where
  "visible NullNode \<longleftrightarrow> False"
| "visible UndefinedNode \<longleftrightarrow> False"
| "visible (BooleanNode b) \<longleftrightarrow> False"
| "visible (FunctionNode n) \<longleftrightarrow> False"
| "visible (ObjectNode n) \<longleftrightarrow> False"
| "visible _ \<longleftrightarrow> True"

text \<open>A fiber shows a child: it has its key, its type and its properties.\<close>

fun shows_child :: "reconciler \<Rightarrow> react_node \<Rightarrow> fiber_node \<Rightarrow> bool" where
  "shows_child R (StringNode s) f \<longleftrightarrow> f_tag f = HostText \<and> f_key f = None \<and> pendingProps f = TextContent s"
| "shows_child R (NumberNode s b) f \<longleftrightarrow> f_tag f = HostText \<and> f_key f = None \<and> pendingProps f = TextContent s"
| "shows_child R (ElementNode e) f \<longleftrightarrow> f_key f = e_key e \<and>
     (if e_type e = FragmentType then f_tag f = Fragment \<and> pendingProps f = Children (e_children e)
      else pendingProps f = Props (e_props e) (e_children e) \<and>
        (elementType f = Some (e_type e) \<or> (\<exists>a. alternate f = Some a \<and> same_type R (current_fibers R a) e)))"
| "shows_child R (PortalNode p) f \<longleftrightarrow> f_key f = p_key p \<and> same_portal f p \<and>
     (pendingProps f = Children (p_children p) \<or> \<not> truthy_node (p_children p) \<and> pendingProps f = Children (ArrayNode []))"
| "shows_child R (ArrayNode ns) f \<longleftrightarrow> f_tag f = Fragment \<and> f_key f = None \<and> pendingProps f = Children (ArrayNode ns)"
| "shows_child R (IterableNode ns) f \<longleftrightarrow> f_tag f = Fragment \<and> f_key f = None \<and> pendingProps f = Children (IterableNode ns)"
| "shows_child R _ f \<longleftrightarrow> False"

text \<open>
  A fiber for a child, made with an old fiber of the key of the child or without one: it shows the
  child, and it is new or the other version of the old fiber.
\<close>

definition fits :: "reconciler \<Rightarrow> nat option \<Rightarrow> react_node \<Rightarrow> fiber_node \<Rightarrow> bool" where
  "fits R old child f \<longleftrightarrow> shows_child R child f \<and> (alternate f = None \<or> alternate f = old) \<and> effectTag f = NoEffect"

lemmas make_defs = createFiberFromText_def createFiberFromFragment_def createFiberFromPortal_def createFiber_def
  useFiber_def createWorkInProgress_def createFiberFromElement_def createFiberFromTypeAndProps_def
  updateTextNode_def updateFragment_def updatePortal_def same_portal_def portal_children_def

lemma with_ref_fits: "with_ref c e f = Inr g \<Longrightarrow> fits R old (ElementNode e) f \<Longrightarrow> fits R old (ElementNode e) g"
  by (auto simp: with_ref_def fits_def same_portal_def split: sum.splits if_splits)

lemma create_element_fits:
  assumes "create_element_fiber c e = Inr f"
  shows "fits R old (ElementNode e) f"
proof -
  obtain f0 where f0: "createFiberFromElement e = Inr f0" "with_ref c e f0 = Inr f"
    using assms by (auto simp: create_element_fiber_def split: sum.splits)
  have "fits R old (ElementNode e) f0"
    using f0(1) by (auto simp: make_defs fits_def split: if_splits option.splits)
  then show ?thesis using f0(2) by (rule with_ref_fits [rotated])
qed

lemma updateElement_fits:
  assumes "updateElement R old e = Inr f" and "old = None \<or> slot_key R old = e_key e" and "e_type e \<noteq> FragmentType"
  shows "fits R old (ElementNode e) f"
proof (cases "\<exists>a. old = Some a \<and> same_type R (current_fibers R a) e")
  case True
  then obtain a where a: "old = Some a" "same_type R (current_fibers R a) e" by blast
  then have "fits R old (ElementNode e) (useFiber R a (Props (e_props e) (e_children e)))"
    using assms(2,3) by (simp add: fits_def make_defs slot_key_def)
  then show ?thesis using assms(1) a by (auto simp: updateElement_def elim: with_ref_fits)
next
  case False
  then show ?thesis using assms(1) by (auto simp: updateElement_def split: option.splits elim: create_element_fits)
qed

lemma update_fits:
  "old = None \<or> slot_key R old = None \<Longrightarrow> fits R old (StringNode s) (updateTextNode R old s)"
  "old = None \<or> slot_key R old = None \<Longrightarrow> fits R old (NumberNode s b) (updateTextNode R old s)"
  "old = None \<or> slot_key R old = None \<Longrightarrow> fits R old (ArrayNode ns) (updateFragment R old (ArrayNode ns) None)"
  "old = None \<or> slot_key R old = None \<Longrightarrow> fits R old (IterableNode is') (updateFragment R old (IterableNode is') None)"
  "old = None \<or> slot_key R old = p_key p \<Longrightarrow> fits R old (PortalNode p) (updatePortal R old p)"
  "old = None \<or> slot_key R old = e_key e \<Longrightarrow> e_type e = FragmentType \<Longrightarrow>
    fits R old (ElementNode e) (updateFragment R old (e_children e) (e_key e))"
  by (auto simp: fits_def make_defs slot_key_def split: option.splits)

lemma some_fiber_iff [simp]: "some_fiber r = Inr (Some f) \<longleftrightarrow> r = Inr f" "some_fiber r \<noteq> Inr None"
  by (cases r; simp add: some_fiber_def)+

lemma invalid_object_iff [simp]: "invalid_object R \<noteq> Inr (Some f)"
  by (simp add: invalid_object_def throwOnInvalidObjectType_def)

lemma createChild_fits: "createChild R child = Inr (Some f) \<Longrightarrow> fits R old child f"
proof (cases child)
  case (ElementNode e)
  then show "createChild R child = Inr (Some f) \<Longrightarrow> fits R old child f" using create_element_fits by simp
qed (auto simp: fits_def make_defs split: if_splits)

lemma fits_key: "fits R old child f \<Longrightarrow> f_key f = child_key child"
  by (cases child) (auto simp: fits_def)

lemma updateSlot_fits: "updateSlot R old child = Inr (Some f) \<Longrightarrow> fits R old child f \<and> child_key child = slot_key R old"
proof (cases child)
  case (ElementNode e)
  assume "updateSlot R old child = Inr (Some f)"
  then show ?thesis using ElementNode update_fits(6) [of old R e] updateElement_fits [of R old e f] by (auto split: if_splits)
qed (auto simp: update_fits split: if_splits)

text \<open>The map of existing children holds every fiber under its key.\<close>

definition keyed_map :: "reconciler \<Rightarrow> (map_key \<times> nat) list \<Rightarrow> bool" where
  "keyed_map R m \<longleftrightarrow> (\<forall>(k, a) \<in> set m. k = key_or_index (f_key (current_fibers R a)) (f_index (current_fibers R a)))"

lemma keyed_map_slot:
  assumes "keyed_map R m" and "map_of m (key_or_index k i) = Some a"
  shows "f_key (current_fibers R a) = k"
  using assms map_of_SomeD [OF assms(2)] by (force simp: keyed_map_def key_or_index_def split: option.splits)

lemma updateFromMap_fits:
  assumes m: "keyed_map R m" and u: "updateFromMap R m i child = Inr (Some f)"
  shows "fits R (map_of m (key_or_index (child_key child) i)) child f"
proof -
  let ?old = "map_of m (key_or_index (child_key child) i)"
  have old: "?old = None \<or> slot_key R ?old = child_key child"
    using keyed_map_slot [OF m] by (cases ?old) (auto simp: slot_key_def)
  have none: "key_or_index None i = Idx i" by (simp add: key_or_index_def)
  show ?thesis
  proof (cases child)
    case (ElementNode e)
    then show ?thesis using u old update_fits(6) [of ?old R e] updateElement_fits [of R ?old e f]
      by (auto simp: Let_def split: if_splits)
  qed (use u old in \<open>auto simp: none intro!: update_fits\<close>)
qed

lemma visible_child:
  "createChild R child = Inr None \<Longrightarrow> \<not> visible child" "updateFromMap R m i child = Inr None \<Longrightarrow> \<not> visible child"
  "fits R old child f \<Longrightarrow> visible child"
  by (cases child; auto simp: Let_def fits_def split: if_splits)+

lemma keyed_map_ops:
  "keyed_map R m \<Longrightarrow> keyed_map R (AList.delete k m)" "keyed_map R (mapRemainingChildren R as)"
proof -
  show "keyed_map R m \<Longrightarrow> keyed_map R (AList.delete k m)" by (auto simp: keyed_map_def AList.delete_eq)
  let ?put = "\<lambda>a. AList.update (key_or_index (f_key (current_fibers R a)) (f_index (current_fibers R a))) a"
  have put: "keyed_map R (?put a m)" if "keyed_map R m" for a m
    unfolding keyed_map_def
  proof
    fix x assume "x \<in> set (?put a m)"
    then have "x = (key_or_index (f_key (current_fibers R a)) (f_index (current_fibers R a)), a) \<or> x \<in> set m"
      using set_alist_update [of _ a m] by blast
    then show "case x of (k, a) \<Rightarrow> k = key_or_index (f_key (current_fibers R a)) (f_index (current_fibers R a))"
      using that by (auto simp: keyed_map_def)
  qed
  have "keyed_map R m \<Longrightarrow> keyed_map R (fold ?put as m)" for m
    by (induction as arbitrary: m) (simp_all add: put)
  moreover have "keyed_map R []" by (simp add: keyed_map_def)
  ultimately show "keyed_map R (mapRemainingChildren R as)" unfolding mapRemainingChildren_def by blast
qed

section \<open>The invariant of the loops\<close>

text \<open>The current fibers that are reused, and those of them that stay in place.\<close>

definition reused :: "fiber_node list \<Rightarrow> nat list" where
  "reused fs = present (map alternate fs)"

definition stays :: "fiber_node list \<Rightarrow> nat list" where
  "stays fs = reused (filter (\<lambda>f. effectTag f = NoEffect) fs)"

definition old_index :: "reconciler \<Rightarrow> nat \<Rightarrow> nat" where
  "old_index R a = f_index (current_fibers R a)"

definition siblings_ok :: "reconciler \<Rightarrow> nat list \<Rightarrow> bool" where
  "siblings_ok R olds \<longleftrightarrow> sorted_wrt (<) (map (old_index R) olds)"

text \<open>
  So far there is one fiber for every visible child, in order; every old fiber has been reused or deleted
  or is available; and those that stay in place are in the order they had.
\<close>

definition fibers_ok :: "reconciler \<Rightarrow> react_node list \<Rightarrow> nat \<Rightarrow> fiber_node list \<Rightarrow> bool" where
  "fibers_ok R cs n fs \<longleftrightarrow>
     map f_index fs = filter (\<lambda>i. visible (cs ! i)) [0..<n] \<and> (\<forall>f\<in>set fs. shows_child R (cs ! f_index f) f)"

definition order_ok :: "reconciler \<Rightarrow> nat \<Rightarrow> fiber_node list \<Rightarrow> bool" where
  "order_ok R l fs \<longleftrightarrow>
     sorted_wrt (<) (map (old_index R) (stays fs)) \<and> (\<forall>a\<in>set (stays fs). old_index R a \<le> l) \<and>
     (\<forall>f\<in>set fs. alternate f = None \<longrightarrow> effectTag f = Placement)"

definition recon_inv :: "reconciler \<Rightarrow> nat list \<Rightarrow> react_node list \<Rightarrow> loop_state \<Rightarrow> nat multiset \<Rightarrow> bool" where
  "recon_inv R olds cs st A \<longleftrightarrow>
     newIdx st \<le> length cs \<and> fibers_ok R cs (newIdx st) (newFibers st) \<and> order_ok R (lastPlacedIndex st) (newFibers st) \<and>
     mset (reused (newFibers st)) + mset (deletions st) + A = mset olds"

lemma shows_child_place [simp]:
  "shows_child R c (f\<lparr>f_index := i\<rparr>) = shows_child R c f" "shows_child R c (f\<lparr>effectTag := t\<rparr>) = shows_child R c f"
  by (cases c; simp add: same_portal_def)+

lemma reused_simps [simp]:
  "reused [] = []" "reused (fs @ gs) = reused fs @ reused gs"
  "reused [f] = (case alternate f of None \<Rightarrow> [] | Some a \<Rightarrow> [a])"
  by (simp_all add: reused_def split: option.split)

lemma stays_simps [simp]: "stays [] = []" "stays (fs @ gs) = stays fs @ stays gs"
  by (simp_all add: stays_def)

lemma stays_reused: "set (stays fs) \<subseteq> set (reused fs)"
  by (auto simp: stays_def reused_def set_present)

lemma old_index_inj: "siblings_ok R olds \<Longrightarrow> inj_on (old_index R) (set olds) \<and> distinct olds"
  by (auto simp: siblings_ok_def strict_sorted_iff distinct_map)

lemma add_fiber_fields [simp]:
  "oldFibers (add_fiber R nf st) = oldFibers st" "deletions (add_fiber R nf st) = deletions st"
  by (simp_all add: add_fiber_def split: prod.split)

lemma add_fiber_inv:
  assumes inv: "recon_inv R olds cs st A" and R: "shouldTrackSideEffects R" "siblings_ok R olds"
    and i: "newIdx st < length cs" and f: "fits R old (cs ! newIdx st) nf"
    and A: "mset (reused [nf]) + A' = A"
  shows "recon_inv R olds cs (add_fiber R nf st) A'"
proof -
  let ?n = "newIdx st" and ?l = "lastPlacedIndex st"
  obtain l nf1 where pl: "placeChild R nf ?l ?n = (l, nf1)" by fastforce
  have add: "newFibers (add_fiber R nf st) = newFibers st @ [nf1]" "lastPlacedIndex (add_fiber R nf st) = l"
    by (simp_all add: add_fiber_def pl)
  have nf1: "f_index nf1 = ?n" "alternate nf1 = alternate nf" "shows_child R (cs ! ?n) nf1"
    using pl f R(1) by (auto simp: placeChild_def Let_def fits_def split: option.splits if_splits)
  have vis: "visible (cs ! ?n)" using visible_child(3) [OF f] .
  have old: "fibers_ok R cs ?n (newFibers st)" "order_ok R ?l (newFibers st)"
    "mset (reused (newFibers st)) + mset (deletions st) + A = mset olds" using inv by (simp_all add: recon_inv_def)
  have "fibers_ok R cs (Suc ?n) (newFibers st @ [nf1])" using old(1) nf1 vis by (auto simp: fibers_ok_def)
  moreover have "order_ok R l (newFibers st @ [nf1])"
  proof (cases "alternate nf")
    case None
    then have "effectTag nf1 = Placement" "l = ?l" using pl R(1) by (auto simp: placeChild_def Let_def)
    then show ?thesis using old(2) None by (simp add: order_ok_def stays_def)
  next
    case (Some a)
    show ?thesis
    proof (cases "old_index R a < ?l")
      case True
      then have "effectTag nf1 = Placement" "l = ?l" using pl R(1) Some by (auto simp: placeChild_def Let_def old_index_def)
      then show ?thesis using old(2) Some nf1(2) by (simp add: order_ok_def stays_def)
    next
      case False
      then have e: "effectTag nf1 = NoEffect" "l = old_index R a"
        using pl R(1) Some f by (auto simp: placeChild_def Let_def old_index_def fits_def)
      have all: "mset (reused (newFibers st)) + mset (deletions st) + {#a#} + A' = mset olds"
        using old(3) A [symmetric] Some by simp
      have "b \<noteq> a \<and> b \<in> set olds \<and> a \<in> set olds" if "b \<in> set (stays (newFibers st))" for b
      proof -
        have b: "b \<in> set (reused (newFibers st))" using that stays_reused by blast
        have "count (mset olds) a \<le> 1" using old_index_inj [OF R(2)] by (simp add: distinct_count_atmost_1)
        then have "a \<notin> set (reused (newFibers st))" unfolding all [symmetric] by auto
        moreover have "insert a (set (reused (newFibers st)) \<union> set (deletions st) \<union> set_mset A') = set olds"
          using arg_cong [OF all, of set_mset] by simp
        ultimately show ?thesis using b by auto
      qed
      then have "old_index R b < old_index R a" if "b \<in> set (stays (newFibers st))" for b
        using that old(2) False old_index_inj [OF R(2)] by (fastforce simp: order_ok_def inj_on_def)
      then show ?thesis using old(2) e Some nf1(2) by (auto simp: order_ok_def stays_def sorted_wrt_append less_imp_le)
    qed
  qed
  moreover have "mset (reused (newFibers st @ [nf1])) + mset (deletions st) + A' = mset olds"
    using old(3) A [symmetric] nf1(2) by (cases "alternate nf") simp_all
  ultimately show ?thesis using i add by (simp add: recon_inv_def)
qed

text \<open>Every step keeps the invariant, with the old fibers that are still available.\<close>

lemma recon_inv_cong:
  "recon_inv R olds cs st A \<Longrightarrow> newIdx st' = newIdx st \<Longrightarrow> newFibers st' = newFibers st \<Longrightarrow>
   lastPlacedIndex st' = lastPlacedIndex st \<Longrightarrow> mset (deletions st') + A' = mset (deletions st) + A \<Longrightarrow> recon_inv R olds cs st' A'"
  by (simp add: recon_inv_def add.assoc)

lemma recon_inv_skip:
  "recon_inv R olds cs st A \<Longrightarrow> newIdx st < length cs \<Longrightarrow> \<not> visible (cs ! newIdx st) \<Longrightarrow> recon_inv R olds cs (st\<lparr>newIdx := Suc (newIdx st)\<rparr>) A"
  by (simp add: recon_inv_def fibers_ok_def)

lemma slot_step_Some:
  assumes "slot_step R child st = Inr (Some st')"
  obtains a as old nf where "oldFibers st = a # as" "old = None \<or> old = Some a" "updateSlot R old child = Inr (Some nf)"
    "st' = add_fiber R nf (st\<lparr>oldFibers := (if old = None then a # as else as),
       deletions := (if shouldTrackSideEffects R \<and> old \<noteq> None \<and> alternate nf = None then deleteChild R a (deletions st) else deletions st)\<rparr>)"
proof -
  obtain a as where o: "oldFibers st = a # as" using assms by (cases "oldFibers st") (auto simp: slot_step_def)
  let ?old = "if f_index (current_fibers R a) > newIdx st then None else Some a"
  have "\<exists>nf. updateSlot R ?old child = Inr (Some nf) \<and> st' = add_fiber R nf (st\<lparr>oldFibers := (if ?old = None then a # as else as),
       deletions := (if shouldTrackSideEffects R \<and> ?old \<noteq> None \<and> alternate nf = None then deleteChild R a (deletions st) else deletions st)\<rparr>)"
    using assms o by (auto simp: slot_step_def Let_def split: sum.splits option.splits if_splits)
  then show ?thesis using that [OF o, of ?old] by auto
qed

lemma slot_step_inv:
  assumes inv: "recon_inv R olds cs st (mset (oldFibers st))" and R: "shouldTrackSideEffects R" "siblings_ok R olds"
    and i: "newIdx st < length cs" and s: "slot_step R (cs ! newIdx st) st = Inr (Some st')"
  shows "recon_inv R olds cs st' (mset (oldFibers st'))"
proof -
  obtain a as old nf where o: "oldFibers st = a # as" "old = None \<or> old = Some a" "updateSlot R old (cs ! newIdx st) = Inr (Some nf)"
    "st' = add_fiber R nf (st\<lparr>oldFibers := (if old = None then a # as else as),
       deletions := (if shouldTrackSideEffects R \<and> old \<noteq> None \<and> alternate nf = None then deleteChild R a (deletions st) else deletions st)\<rparr>)"
    using slot_step_Some [OF s] by metis
  let ?st1 = "st\<lparr>oldFibers := (if old = None then a # as else as),
       deletions := (if shouldTrackSideEffects R \<and> old \<noteq> None \<and> alternate nf = None then deleteChild R a (deletions st) else deletions st)\<rparr>"
  have f: "fits R old (cs ! newIdx st) nf" using updateSlot_fits [OF o(3)] by simp
  then have alt: "alternate nf = None \<or> alternate nf = old" by (simp add: fits_def)
  let ?A = "mset (reused [nf]) + mset (oldFibers ?st1)"
  have "recon_inv R olds cs ?st1 ?A"
    by (rule recon_inv_cong [OF inv]) (use o(1,2) alt R(1) in \<open>auto simp: deleteChild_def\<close>)
  then show ?thesis unfolding o(4) using R i f by (intro add_fiber_inv [where A = ?A and old = old]) simp_all
qed

lemma slot_loop_inv:
  assumes R: "shouldTrackSideEffects R" "siblings_ok R olds"
  shows "recon_inv R olds cs st (mset (oldFibers st)) \<Longrightarrow> slot_loop_array R cs st = Inr st' \<Longrightarrow>
    recon_inv R olds cs st' (mset (oldFibers st')) \<and> (newIdx st' = length cs \<or> newIdx st' < length cs) \<and> suffix (oldFibers st') (oldFibers st)"
  using R
proof (induction R cs st rule: slot_loop_array.induct)
  case (1 R cs st)
  show ?case
  proof (cases "oldFibers st \<noteq> [] \<and> newIdx st < length cs \<and> (\<exists>st1. slot_step R (cs ! newIdx st) st = Inr (Some st1))")
    case True
    then obtain st1 where st1: "slot_step R (cs ! newIdx st) st = Inr (Some st1)" by blast
    have "suffix (oldFibers st1) (oldFibers st)"
      by (rule slot_step_Some [OF st1]) (auto simp: suffix_def)
    moreover have "slot_loop_array R cs st1 = Inr st'" using "1.prems"(2) True st1 by (simp add: slot_loop_array.simps [of R cs st])
    ultimately show ?thesis
      using "1.IH" [OF _ st1 refl slot_step_inv [OF "1.prems"(1,3,4) _ st1] _ "1.prems"(3,4)] True suffix_order.trans by blast
  next
    case False
    then have "st' = st" using "1.prems"(2)
      by (auto simp: slot_loop_array.simps [of R cs st] split: if_splits sum.splits option.splits)
    then show ?thesis using "1.prems"(1) by (auto simp: recon_inv_def)
  qed
qed

text \<open>A loop over the rest of the children keeps what its body keeps.\<close>

lemma for_array_inv:
  assumes step: "\<And>i s s'. I i s \<Longrightarrow> i < length cs \<Longrightarrow> body (cs ! i) s = Inr s' \<Longrightarrow> I (Suc i) s'"
  shows "I i s \<Longrightarrow> i \<le> length cs \<Longrightarrow> for_array body cs i s = Inr s' \<Longrightarrow> I (length cs) s'"
proof (induction "length cs - i" arbitrary: i s)
  case 0
  then show ?case by (simp add: for_array.simps)
next
  case (Suc n)
  then have lt: "i < length cs" by simp
  then obtain s1 where s1: "body (cs ! i) s = Inr s1" "for_array body cs (Suc i) s1 = Inr s'"
    using Suc.prems(3) for_array.simps [of body cs i s] by (auto split: sum.splits)
  show ?case by (rule Suc.hyps(1) [OF _ step [OF Suc.prems(1) lt s1(1)] _ s1(2)]) (use Suc.hyps(2) lt in simp_all)
qed

lemma create_step_inv:
  assumes inv: "recon_inv R olds cs st A" and R: "shouldTrackSideEffects R" "siblings_ok R olds"
    and i: "newIdx st < length cs" and s: "create_step R (cs ! newIdx st) st = Inr st'"
  shows "recon_inv R olds cs st' A \<and> newIdx st' = Suc (newIdx st)"
proof (cases "createChild R (cs ! newIdx st)")
  case (Inl e)
  then show ?thesis using s by (simp add: create_step_def)
next
  case (Inr r)
  show ?thesis
  proof (cases r)
    case None
    then have "st' = st\<lparr>newIdx := Suc (newIdx st)\<rparr>" "\<not> visible (cs ! newIdx st)"
      using Inr s visible_child(1) by (auto simp: create_step_def)
    then show ?thesis using recon_inv_skip [OF inv i] by simp
  next
    case (Some nf)
    then have f: "fits R None (cs ! newIdx st) nf" using Inr createChild_fits by simp
    then have "alternate nf = None" by (simp add: fits_def)
    then show ?thesis using Inr Some s add_fiber_inv [OF inv R i f, of A] by (auto simp: create_step_def)
  qed
qed

lemma delete_mset:
  "distinct (map fst m) \<Longrightarrow> map_of m k = Some a \<Longrightarrow> mset (map snd m) = add_mset a (mset (map snd (AList.delete k m)))"
proof (induction m)
  case (Cons x m)
  obtain k' b where x: "x = (k', b)" by fastforce
  show ?case
  proof (cases "k' = k")
    case True
    then have "AList.delete k m = m" using Cons.prems x by (simp add: AList.delete_idem)
    then show ?thesis using Cons.prems True x by simp
  next
    case False
    then show ?thesis using Cons x by simp
  qed
qed simp

definition map_ok :: "reconciler \<Rightarrow> nat list \<Rightarrow> react_node list \<Rightarrow> nat \<Rightarrow> (map_key \<times> nat) list \<times> loop_state \<Rightarrow> bool" where
  "map_ok R olds cs i ms \<longleftrightarrow>
     recon_inv R olds cs (snd ms) (mset (map snd (fst ms))) \<and> keyed_map R (fst ms) \<and> distinct (map fst (fst ms)) \<and> newIdx (snd ms) = i"

lemma map_step_inv:
  assumes inv: "map_ok R olds cs i ms" and R: "shouldTrackSideEffects R" "siblings_ok R olds"
    and i: "i < length cs" and s: "map_step R (cs ! i) ms = Inr ms'"
  shows "map_ok R olds cs (Suc i) ms'"
proof -
  obtain m st where ms: "ms = (m, st)" by fastforce
  have m: "recon_inv R olds cs st (mset (map snd m))" "keyed_map R m" "distinct (map fst m)" "newIdx st = i"
    using inv ms by (simp_all add: map_ok_def)
  let ?c = "cs ! i"
  show ?thesis
  proof (cases "updateFromMap R m i ?c")
    case (Inl e)
    then show ?thesis using s ms m(4) by (simp add: map_step_def)
  next
    case (Inr r)
    show ?thesis
    proof (cases r)
      case None
      then have "ms' = (m, st\<lparr>newIdx := Suc i\<rparr>)" using Inr s ms m(4) by (simp add: map_step_def)
      then show ?thesis using recon_inv_skip [OF m(1)] visible_child(2) [of R m i ?c] Inr None m i by (simp add: map_ok_def)
    next
      case (Some nf)
      let ?k = "key_or_index (child_key ?c) i"
      let ?m1 = "if alternate nf \<noteq> None then AList.delete ?k m else m"
      have f: "fits R (map_of m ?k) ?c nf" using updateFromMap_fits [OF m(2)] Inr Some by simp
      have ms': "ms' = (?m1, add_fiber R nf st)"
        using s ms m(4) Inr Some R(1) fits_key [OF f] by (auto simp: map_step_def)
      have "mset (reused [nf]) + mset (map snd ?m1) = mset (map snd m)"
      proof (cases "alternate nf")
        case (Some a)
        then have "map_of m ?k = Some a" using f by (simp add: fits_def)
        then show ?thesis using delete_mset [OF m(3)] Some by simp
      qed simp
      then have "recon_inv R olds cs (add_fiber R nf st) (mset (map snd ?m1))"
        using add_fiber_inv [OF m(1) R _ _ ] m(4) i f by blast
      then show ?thesis using ms' m keyed_map_ops(1) [OF m(2)] by (simp add: map_ok_def distinct_delete)
    qed
  qed
qed

text \<open>The map of the remaining children, when their keys are different.\<close>

definition distinct_keys :: "reconciler \<Rightarrow> nat list \<Rightarrow> bool" where
  "distinct_keys R as \<longleftrightarrow> distinct (map (\<lambda>a. key_or_index (f_key (current_fibers R a)) (f_index (current_fibers R a))) as)"

lemma update_new: "k \<notin> fst ` set m \<Longrightarrow> AList.update k v m = m @ [(k, v)]"
  by (induction m) auto

lemma mapRemaining_distinct:
  assumes "distinct_keys R as"
  shows "mapRemainingChildren R as = map (\<lambda>a. (key_or_index (f_key (current_fibers R a)) (f_index (current_fibers R a)), a)) as"
  using assms
proof (induction as rule: rev_induct)
  case (snoc a as)
  let ?k = "\<lambda>a. key_or_index (f_key (current_fibers R a)) (f_index (current_fibers R a))"
  have "mapRemainingChildren R as = map (\<lambda>a. (?k a, a)) as" using snoc by (simp add: distinct_keys_def)
  moreover have "?k a \<notin> ?k ` set as" using snoc.prems by (simp add: distinct_keys_def)
  ultimately show ?case by (simp add: mapRemainingChildren_def) (subst update_new, auto)
qed (simp add: mapRemainingChildren_def)

lemma deleteAll [simp]: "shouldTrackSideEffects R \<Longrightarrow> fold (deleteChild R) as ds = ds @ as"
  by (induction as arbitrary: ds) (simp_all add: deleteChild_def)

text \<open>The result of reconciling a list of children.\<close>

definition reconciled :: "reconciler \<Rightarrow> nat list \<Rightarrow> react_node list \<Rightarrow> fiber_node list \<times> nat list \<Rightarrow> bool" where
  "reconciled R olds cs r \<longleftrightarrow>
     fibers_ok R cs (length cs) (fst r) \<and> (\<exists>l. order_ok R l (fst r)) \<and> mset (reused (fst r)) + mset (snd r) = mset olds"

lemma recon_inv_reconciled:
  "recon_inv R olds cs st A \<Longrightarrow> newIdx st = length cs \<Longrightarrow> mset ds = mset (deletions st) + A \<Longrightarrow> reconciled R olds cs (newFibers st, ds)"
  by (auto simp: recon_inv_def reconciled_def add.assoc)

lemma distinct_keys_suffix: "distinct_keys R as \<Longrightarrow> suffix bs as \<Longrightarrow> distinct_keys R bs"
  by (auto simp: distinct_keys_def suffix_def)

lemma reconcileChildrenArray_ok:
  assumes R: "shouldTrackSideEffects R" "siblings_ok R olds" "distinct_keys R olds" and r: "reconcileChildrenArray R olds cs = Inr r"
  shows "reconciled R olds cs r"
proof -
  obtain st where st: "slot_loop_array R cs (loop_init olds) = Inr st" using r by (auto simp: reconcileChildrenArray_def split: sum.splits)
  have init: "recon_inv R olds cs (loop_init olds) (mset (oldFibers (loop_init olds)))"
    by (simp add: recon_inv_def loop_init_def fibers_ok_def order_ok_def)
  have inv: "recon_inv R olds cs st (mset (oldFibers st))" and suf: "suffix (oldFibers st) olds" and le: "newIdx st \<le> length cs"
    using slot_loop_inv [OF R(1,2) init st] by (auto simp: loop_init_def)
  consider "newIdx st = length cs" | "newIdx st \<noteq> length cs" "oldFibers st = []" | "newIdx st \<noteq> length cs" "oldFibers st \<noteq> []" by blast
  then show ?thesis
  proof cases
    case 1
    then have "r = (newFibers st, deletions st @ oldFibers st)"
      using r st R(1) by (auto simp: reconcileChildrenArray_def deleteRemainingChildren_def)
    then show ?thesis using recon_inv_reconciled [OF inv 1] by simp
  next
    case 2
    obtain st' where st': "for_array (create_step R) cs (newIdx st) st = Inr st'" "r = (newFibers st', deletions st')"
      using r st 2 by (auto simp: reconcileChildrenArray_def split: sum.splits)
    let ?I = "\<lambda>i s. recon_inv R olds cs s {#} \<and> newIdx s = i"
    have step: "?I (Suc i) s'" if "?I i s" "i < length cs" "create_step R (cs ! i) s = Inr s'" for i s s'
      using create_step_inv [of R olds cs s "{#}" s'] R(1,2) that by simp
    have "?I (length cs) st'"
      by (rule for_array_inv [where I = ?I, OF step _ le st'(1)]) (use inv 2 in simp_all)
    then show ?thesis using recon_inv_reconciled [of R olds cs st' "{#}"] st'(2) by simp
  next
    case 3
    let ?m = "mapRemainingChildren R (oldFibers st)"
    obtain m st' where st': "for_array (map_step R) cs (newIdx st) (?m, st) = Inr (m, st')" "r = (newFibers st', deletions st' @ map snd m)"
      using r st 3 R(1) by (auto simp: reconcileChildrenArray_def split: sum.splits)
    have d: "distinct_keys R (oldFibers st)" using distinct_keys_suffix [OF R(3) suf] .
    have "map snd ?m = oldFibers st" "distinct (map fst ?m)"
      using d unfolding mapRemaining_distinct [OF d] by (simp_all add: comp_def distinct_keys_def)
    then have init: "map_ok R olds cs (newIdx st) (?m, st)" using inv keyed_map_ops(2) by (simp add: map_ok_def)
    have step: "map_ok R olds cs (Suc i) s'" if "map_ok R olds cs i s" "i < length cs" "map_step R (cs ! i) s = Inr s'" for i s s'
      using map_step_inv [OF that(1) R(1,2) that(2,3)] .
    have "map_ok R olds cs (length cs) (m, st')"
      by (rule for_array_inv [where I = "map_ok R olds cs", OF step init le st'(1)])
    then show ?thesis 
      using recon_inv_reconciled [of R olds cs st' "mset (map snd m)" "deletions st' @ map snd m"] st'(2) by (simp add: map_ok_def)
  qed
qed

section \<open>All kinds of children\<close>

text \<open>The children as a list, after a fragment without a key at the top has been taken off.\<close>

definition unwrapped :: "react_node \<Rightarrow> react_node" where
  "unwrapped n = (case n of ElementNode e \<Rightarrow> if e_type e = FragmentType \<and> e_key e = None then e_children e else n | _ \<Rightarrow> n)"

fun top_children :: "react_node \<Rightarrow> react_node list" where
  "top_children (ArrayNode ns) = ns"
| "top_children (IterableNode ns) = (case ns of None \<Rightarrow> [] | Some vs \<Rightarrow> vs)"
| "top_children n = [n]"

text \<open>
  What the store of current fibers promises: the children have increasing indices and different keys,
  texts have no key, and no fiber that is not a fragment passes for one.
\<close>

definition current_ok :: "reconciler \<Rightarrow> nat list \<Rightarrow> bool" where
  "current_ok R olds \<longleftrightarrow> siblings_ok R olds \<and> distinct_keys R olds \<and>
     (\<forall>a\<in>set olds. \<forall>e. e_type e = FragmentType \<longrightarrow> f_tag (current_fibers R a) \<noteq> Fragment \<longrightarrow> \<not> same_type R (current_fibers R a) e) \<and>
     (\<forall>a\<in>set olds. f_tag (current_fibers R a) = HostText \<longrightarrow> f_key (current_fibers R a) = None)"

lemma deleteRemaining_all: "shouldTrackSideEffects R \<Longrightarrow> deleteRemainingChildren R as ds = ds @ as"
  by (simp add: deleteRemainingChildren_def)

lemma single_element_loop_ok:
  assumes "shouldTrackSideEffects R"
  shows "single_element_loop R e as ds = (r, ds') \<Longrightarrow>
    (case r of None \<Rightarrow> mset ds' = mset ds + mset as
     | Some a \<Rightarrow> a \<in> set as \<and> f_key (current_fibers R a) = e_key e \<and> reusable R (current_fibers R a) e \<and> add_mset a (mset ds') = mset ds + mset as)"
  using assms
proof (induction R e as ds rule: single_element_loop.induct)
  case (2 R e a as ds)
  then show ?case by (cases r) (auto simp: deleteRemaining_all deleteChild_def split: if_splits)
qed auto

lemma single_portal_loop_ok:
  assumes "shouldTrackSideEffects R"
  shows "single_portal_loop R p as ds = (r, ds') \<Longrightarrow>
    (case r of None \<Rightarrow> mset ds' = mset ds + mset as
     | Some a \<Rightarrow> a \<in> set as \<and> f_key (current_fibers R a) = p_key p \<and> same_portal (current_fibers R a) p \<and> add_mset a (mset ds') = mset ds + mset as)"
  using assms
proof (induction R p as ds rule: single_portal_loop.induct)
  case (2 R p a as ds)
  then show ?case by (cases r) (auto simp: deleteRemaining_all deleteChild_def split: if_splits)
qed auto

lemma place_single_reconciled:
  assumes R: "shouldTrackSideEffects R" and f: "fits R old n f" "f_index f = 0" and m: "mset (reused [f]) + mset ds = mset olds"
  shows "reconciled R olds [n] (place_single R (f, ds))"
proof -
  let ?g = "placeSingleChild R f"
  have g: "shows_child R n ?g" "f_index ?g = 0" "alternate ?g = alternate f" "alternate f = None \<longrightarrow> effectTag ?g = Placement"
    using f R by (auto simp: placeSingleChild_def fits_def)
  have "fibers_ok R [n] (Suc 0) [?g]" using g visible_child(3) [OF f(1)] by (simp add: fibers_ok_def)
  moreover have "\<exists>l. order_ok R l [?g]"
    using g by (intro exI [of _ "case alternate f of None \<Rightarrow> 0 | Some a \<Rightarrow> old_index R a"]) (auto simp: order_ok_def stays_def split: option.splits)
  ultimately show ?thesis using m g(3) by (simp add: reconciled_def place_single_def)
qed

lemma with_ref_fields: "with_ref c e f = Inr g \<Longrightarrow> f_index g = f_index f \<and> alternate g = alternate f"
  by (auto simp: with_ref_def split: sum.splits)

lemma create_element_fields: "create_element_fiber c e = Inr f \<Longrightarrow> f_index f = 0 \<and> alternate f = None"
  by (auto simp: create_element_fiber_def make_defs split: sum.splits if_splits option.splits dest!: with_ref_fields)

lemma reconcileSingleElement_ok:
  assumes R: "shouldTrackSideEffects R" "current_ok R olds" and r: "reconcileSingleElement R olds e = Inr (f, ds)"
  shows "reconciled R olds [ElementNode e] (place_single R (f, ds))"
proof -
  obtain q ds1 where l: "single_element_loop R e olds [] = (q, ds1)" by fastforce
  note ok = single_element_loop_ok [OF R(1) l]
  show ?thesis
  proof (cases q)
    case None
    then show ?thesis using r l ok R(1) create_element_fits [of "first_child R olds" e f R None] create_element_fields
      by (intro place_single_reconciled [where old = None])
        (auto simp: reconcileSingleElement_def fits_def make_defs split: if_splits sum.splits)
  next
    case (Some a)
    then have a: "a \<in> set olds" "f_key (current_fibers R a) = e_key e" "reusable R (current_fibers R a) e" "add_mset a (mset ds1) = mset olds"
      using ok by simp_all
    have ty: "e_type e = FragmentType \<longleftrightarrow> f_tag (current_fibers R a) = Fragment"
      using R(2) a(1,3) by (auto simp: current_ok_def reusable_def split: if_splits)
    show ?thesis
    proof (cases "f_tag (current_fibers R a) = Fragment")
      case True
      then show ?thesis using r l Some a R(1) ty
        by (intro place_single_reconciled [where old = "Some a"]) (auto simp: reconcileSingleElement_def fits_def make_defs)
    next
      case False
      let ?u = "useFiber R a (Props (e_props e) (e_children e))"
      have w: "with_ref (Some (current_fibers R a)) e ?u = Inr f" "ds = ds1"
        using r l Some False by (auto simp: reconcileSingleElement_def split: sum.splits)
      have "fits R (Some a) (ElementNode e) ?u" using a(2,3) ty False by (simp add: fits_def make_defs reusable_def)
      then show ?thesis using with_ref_fits [OF w(1)] with_ref_fields [OF w(1)] a(4) w(2) R(1)
        by (intro place_single_reconciled [where old = "Some a"]) (auto simp: make_defs)
    qed
  qed
qed

lemma reconcileSinglePortal_ok:
  assumes R: "shouldTrackSideEffects R"
  shows "reconciled R olds [PortalNode p] (place_single R (reconcileSinglePortal R olds p))"
proof -
  obtain q ds where l: "single_portal_loop R p olds [] = (q, ds)" by fastforce
  show ?thesis
  proof (cases q)
    case None
    then show ?thesis using single_portal_loop_ok [OF R l] l R update_fits(5) [of None R p] unfolding reconcileSinglePortal_def
      by (simp only: prod.case option.case, intro place_single_reconciled [where old = None]) (auto simp: updatePortal_def make_defs)
  next
    case (Some a)
    then show ?thesis using single_portal_loop_ok [OF R l] l R update_fits(5) [of "Some a" R p] unfolding reconcileSinglePortal_def
      by (simp only: prod.case option.case, intro place_single_reconciled [where old = "Some a"]) (auto simp: updatePortal_def slot_key_def make_defs)
  qed
qed

lemma reconcileSingleTextNode_ok:
  assumes R: "shouldTrackSideEffects R" and n: "n = StringNode s \<or> n = NumberNode s b"
    and key: "\<forall>a\<in>set olds. f_tag (current_fibers R a) = HostText \<longrightarrow> f_key (current_fibers R a) = None"
  shows "reconciled R olds [n] (place_single R (reconcileSingleTextNode R olds s))"
proof (cases "\<exists>a as. olds = a # as \<and> f_tag (current_fibers R a) = HostText")
  case True
  then obtain a as where a: "olds = a # as" "f_tag (current_fibers R a) = HostText" by blast
  then have "reconcileSingleTextNode R olds s = (useFiber R a (TextContent s), as)" "f_key (current_fibers R a) = None"
    using R key by (auto simp: reconcileSingleTextNode_def deleteRemaining_all)
  then show ?thesis using n a R by (auto intro!: place_single_reconciled [where old = "Some a"] simp: fits_def make_defs)
next
  case False
  then have "reconcileSingleTextNode R olds s = (createFiberFromText s, olds)"
    using R by (auto simp: reconcileSingleTextNode_def deleteRemaining_all split: list.split)
  then show ?thesis using n R by (auto intro!: place_single_reconciled [where old = None] simp: fits_def make_defs)
qed

lemma reconcileChildFibers_ok:
  assumes R: "shouldTrackSideEffects R" "current_ok R olds" and r: "reconcileChildFibers R olds n = Inr r"
  shows "reconciled R olds (top_children (unwrapped n)) r"
proof -
  have empty: "reconciled R olds [c] ([], olds)" if "\<not> visible c" for c
    using that by (simp add: reconciled_def fibers_ok_def order_ok_def)
  have ok: "siblings_ok R olds" "distinct_keys R olds"
    "\<forall>a\<in>set olds. f_tag (current_fibers R a) = HostText \<longrightarrow> f_key (current_fibers R a) = None" using R(2) by (simp_all add: current_ok_def)
  have "reconcile_node R (isUnkeyedTopLevelFragment n) olds (unwrapped n) = Inr r"
    using r by (simp add: reconcileChildFibers_def unwrapped_def)
  then show ?thesis
  proof (cases "unwrapped n")
    case (ElementNode e)
    assume "reconcile_node R (isUnkeyedTopLevelFragment n) olds (unwrapped n) = Inr r"
    then obtain f ds where "reconcileSingleElement R olds e = Inr (f, ds)" "r = place_single R (f, ds)"
      using ElementNode by (cases "reconcileSingleElement R olds e") auto
    then show ?thesis using reconcileSingleElement_ok [OF R] ElementNode by simp
  next
    case (IterableNode ns)
    assume r: "reconcile_node R (isUnkeyedTopLevelFragment n) olds (unwrapped n) = Inr r"
    then obtain vs where "ns = Some vs" using IterableNode by (cases ns) (auto simp: reconcileChildrenIterator_def)
    then show ?thesis using reconcileChildrenArray_ok [OF R(1) ok(1,2)] r IterableNode by (simp add: reconcileChildrenIterator_eq)
  qed (use R(1) ok empty reconcileChildrenArray_ok [OF R(1) ok(1,2)] reconcileSingleTextNode_ok [OF R(1) _ ok(3)] reconcileSinglePortal_ok [OF R(1)]
      in \<open>auto simp: deleteRemaining_all throwOnInvalidObjectType_def split: if_splits\<close>)
qed

text \<open>
  C14: rendering children gives one fiber for each child that shows something, in the order of the
  children, and each fiber has the key, the type and the properties of its child, whether it is new or
  made from a current fiber.
\<close>

theorem children_get_their_fibers:
  assumes "shouldTrackSideEffects R" and "current_ok R olds" and "reconcileChildFibers R olds n = Inr (fs, ds)"
    and "cs = top_children (unwrapped n)"
  shows "map f_index fs = filter (\<lambda>i. visible (cs ! i)) [0..<length cs] \<and> (\<forall>f\<in>set fs. shows_child R (cs ! f_index f) f)"
  using reconcileChildFibers_ok [OF assms(1-3)] assms(4) by (simp add: reconciled_def fibers_ok_def)

text \<open>
  C12: no current child is forgotten: each is reused by exactly one new fiber or deleted exactly once,
  never both.
\<close>

theorem old_fibers_reused_or_deleted:
  assumes "shouldTrackSideEffects R" and "current_ok R olds" and "reconcileChildFibers R olds n = Inr (fs, ds)"
  shows "mset (reused fs) + mset ds = mset olds \<and> distinct (reused fs @ ds)"
proof -
  have m: "mset (reused fs @ ds) = mset olds" using reconcileChildFibers_ok [OF assms] by (simp add: reconciled_def)
  moreover have "distinct olds" using old_index_inj [of R olds] assms(2) by (simp add: current_ok_def)
  ultimately have "distinct (reused fs @ ds)" by (metis mset_eq_imp_distinct_iff)
  then show ?thesis using m by simp
qed


section \<open>Placements\<close>

text \<open>
  What a placement asks of the commit phase, for children that are host views themselves: the view of
  the fiber is taken out if it is there and put before the view of the next sibling that is not to be
  placed, or at the end.
\<close>

datatype host_view = Old nat | New nat

definition view_of :: "fiber_node \<Rightarrow> host_view" where
  "view_of f = (case alternate f of Some a \<Rightarrow> Old a | None \<Rightarrow> New (f_index f))"

definition stable :: "fiber_node \<Rightarrow> bool" where
  "stable f \<longleftrightarrow> effectTag f = NoEffect"

definition next_stable :: "fiber_node list \<Rightarrow> host_view option" where
  "next_stable fs = (case filter stable fs of [] \<Rightarrow> None | g # gs \<Rightarrow> Some (view_of g))"

definition insert_view :: "host_view \<Rightarrow> host_view option \<Rightarrow> host_view list \<Rightarrow> host_view list" where
  "insert_view x before hs =
     (let hs1 = removeAll x hs
      in case before of None \<Rightarrow> hs1 @ [x] | Some y \<Rightarrow> takeWhile (\<lambda>h. h \<noteq> y) hs1 @ x # dropWhile (\<lambda>h. h \<noteq> y) hs1)"

fun commit_placements :: "fiber_node list \<Rightarrow> host_view list \<Rightarrow> host_view list" where
  "commit_placements [] hs = hs"
| "commit_placements (f # fs) hs = commit_placements fs (if stable f then hs else insert_view (view_of f) (next_stable fs) hs)"

lemma set_insert_view: "set (insert_view x b hs) = insert x (set hs)"
  by (auto simp: insert_view_def Let_def split: option.split dest: set_takeWhileD set_dropWhileD) (metis UnE set_append takeWhile_dropWhile_id removeAll_id set_removeAll Diff_iff singletonD)

lemma insert_view_filter:
  assumes "distinct hs" and "x \<notin> P" and "\<And>y. b = Some y \<Longrightarrow> y \<in> P" and "filter (\<lambda>h. h \<in> P) hs = us @ (case b of None \<Rightarrow> [] | Some y \<Rightarrow> y # vs)"
  shows "filter (\<lambda>h. h \<in> insert x P) (insert_view x b hs) = us @ x # (case b of None \<Rightarrow> [] | Some y \<Rightarrow> y # vs)"
proof -
  let ?hs = "removeAll x hs"
  have f: "filter (\<lambda>h. h \<in> P) ?hs = filter (\<lambda>h. h \<in> P) hs" using assms(2) by (induction hs) auto
  have px: "filter (\<lambda>h. h \<in> insert x P) hs' = filter (\<lambda>h. h \<in> P) hs'" if "x \<notin> set hs'" for hs' using that by (intro filter_cong) auto
  show ?thesis
  proof (cases b)
    case None
    then show ?thesis using px [of ?hs] f assms(4) by (simp add: insert_view_def)
  next
    case (Some y)
    have y: "y \<in> P" using assms(3) Some by simp
    have "y \<in> set (filter (\<lambda>h. h \<in> P) ?hs)" using f assms(4) Some by simp
    then have "y \<in> set ?hs" by simp
    then obtain A B where ab: "?hs = A @ y # B" "y \<notin> set A" by (metis split_list_first)
    have d: "distinct ?hs" using assms(1) by (simp add: distinct_removeAll)
    then have nB: "y \<notin> set B" "x \<notin> set A" "x \<notin> set B" using ab(1) by auto (metis Un_iff list.set_intros(2) set_append set_removeAll Diff_iff singletonI)+
    have "filter (\<lambda>h. h \<in> P) A @ y # filter (\<lambda>h. h \<in> P) B = us @ y # vs" using f assms(4) Some ab(1) y by simp
    then have "us = filter (\<lambda>h. h \<in> P) A" "vs = filter (\<lambda>h. h \<in> P) B"
      using ab(2) nB(1) append_Cons_eq_iff [of y "filter (\<lambda>h. h \<in> P) A" "filter (\<lambda>h. h \<in> P) B" us vs] by auto
    moreover have "insert_view x b hs = A @ x # y # B"
    proof -
      have "\<forall>h\<in>set A. h \<noteq> y" using ab(2) by auto
      then show ?thesis using ab(1) Some by (simp add: insert_view_def Let_def takeWhile_append2 dropWhile_append2)
    qed
    ultimately show ?thesis using Some y px [of A] px [of B] nB(2,3) by simp
  qed
qed

lemma distinct_insert_view: "distinct hs \<Longrightarrow> distinct (insert_view x b hs)"
proof -
  assume d: "distinct hs"
  let ?hs = "removeAll x hs"
  have "distinct (takeWhile (\<lambda>h. h \<noteq> y) ?hs @ x # dropWhile (\<lambda>h. h \<noteq> y) ?hs)" for y
  proof -
    have "distinct (takeWhile (\<lambda>h. h \<noteq> y) ?hs @ dropWhile (\<lambda>h. h \<noteq> y) ?hs)" using d by (simp add: distinct_removeAll)
    moreover have "x \<notin> set (takeWhile (\<lambda>h. h \<noteq> y) ?hs @ dropWhile (\<lambda>h. h \<noteq> y) ?hs)" by simp
    ultimately show ?thesis by (simp only: distinct_append distinct.simps set_append) auto
  qed
  then show ?thesis using d by (auto simp: insert_view_def Let_def distinct_removeAll split: option.split)
qed

lemma commit_placements_order:
  assumes "distinct (map view_of (ps @ fs))" and "distinct hs" and "set hs \<subseteq> view_of ` set (ps @ fs)"
    and "filter (\<lambda>h. h \<in> view_of ` (set ps \<union> set (filter stable fs))) hs = map view_of (ps @ filter stable fs)"
  shows "commit_placements fs hs = map view_of (ps @ fs)"
  using assms
proof (induction fs arbitrary: ps hs)
  case Nil
  then have "filter (\<lambda>h. h \<in> view_of ` set ps) hs = hs" by (intro filter_True) auto
  then show ?case using Nil.prems(4) by simp
next
  case (Cons f fs)
  show ?case
  proof (cases "stable f")
    case True
    have "commit_placements fs hs = map view_of ((ps @ [f]) @ fs)"
      by (rule Cons.IH) (use Cons.prems True in simp_all)
    then show ?thesis using True by simp
  next
    case False
    let ?x = "view_of f" and ?P = "view_of ` (set ps \<union> set (filter stable fs))" and ?b = "next_stable fs"
    let ?vs = "map view_of (tl (filter stable fs))"
    have nx: "?x \<notin> ?P" using Cons.prems(1) by auto
    have split: "map view_of (filter stable fs) = (case ?b of None \<Rightarrow> [] | Some y \<Rightarrow> y # ?vs)"
      by (cases "filter stable fs") (simp_all add: next_stable_def)
    have "filter (\<lambda>h. h \<in> insert ?x ?P) (insert_view ?x ?b hs) = map view_of ps @ ?x # (case ?b of None \<Rightarrow> [] | Some y \<Rightarrow> y # ?vs)"
    proof (rule insert_view_filter [OF Cons.prems(2) nx])
      show "y \<in> ?P" if "?b = Some y" for y
        using that by (cases "filter stable fs") (auto simp: next_stable_def simp del: set_filter intro!: imageI)
      show "filter (\<lambda>h. h \<in> ?P) hs = map view_of ps @ (case ?b of None \<Rightarrow> [] | Some y \<Rightarrow> y # ?vs)"
        using Cons.prems(4) False unfolding split [symmetric] by simp
    qed
    then have fl: "filter (\<lambda>h. h \<in> view_of ` (set (ps @ [f]) \<union> set (filter stable fs))) (insert_view ?x ?b hs) = map view_of ((ps @ [f]) @ filter stable fs)"
      using split by (simp only: set_append Un_insert_left image_insert Un_empty_right) simp
    have "commit_placements fs (insert_view ?x ?b hs) = map view_of ((ps @ [f]) @ fs)"
      by (rule Cons.IH [OF _ distinct_insert_view [OF Cons.prems(2)] _ fl]) (use Cons.prems(1,3) in \<open>auto simp: set_insert_view\<close>)
    then show ?thesis using False by simp
  qed
qed

lemma reused_set: "a \<in> set (reused fs) \<longleftrightarrow> (\<exists>f\<in>set fs. alternate f = Some a)"
  by (auto simp: reused_def set_present) (metis image_eqI)+

lemma distinct_views: "distinct (map f_index fs) \<Longrightarrow> distinct (reused fs) \<Longrightarrow> distinct (map view_of fs)"
proof (induction fs)
  case (Cons f fs)
  have r: "reused (f # fs) = (case alternate f of None \<Rightarrow> [] | Some a \<Rightarrow> [a]) @ reused fs"
    by (simp add: reused_def split: option.split)
  have "view_of f \<noteq> view_of g" if "g \<in> set fs" for g
  proof (cases "alternate f")
    case None
    then show ?thesis using that Cons.prems(1) by (auto simp: view_of_def split: option.split)
  next
    case (Some a)
    then show ?thesis using that Cons.prems(2) r reused_set [of a fs] by (auto simp: view_of_def split: option.split)
  qed
  then show ?case using Cons r by auto
qed simp

lemma strict_sorted_same_set:
  fixes g :: "'a \<Rightarrow> nat"
  assumes "sorted_wrt (<) (map g xs)" and "sorted_wrt (<) (map g ys)" and "set xs = set ys"
  shows "xs = ys"
proof -
  have "map g xs = map g ys"
    using assms by (intro sorted_distinct_set_unique) (simp_all add: strict_sorted_iff)
  moreover have "inj_on g (set xs)" using assms(1) by (auto simp: strict_sorted_iff distinct_map)
  ultimately show ?thesis using assms(3) by (metis map_inj_on sup.idem)
qed

lemma reconciled_placements:
  assumes ok: "siblings_ok R olds" and r: "reconciled R olds cs (fs, ds)"
  shows "commit_placements fs (map Old (filter (\<lambda>a. a \<notin> set ds) olds)) = map view_of fs"
proof -
  let ?keep = "filter (\<lambda>a. a \<notin> set ds) olds"
  obtain l where o: "order_ok R l fs" using r by (auto simp: reconciled_def)
  have m: "mset (reused fs @ ds) = mset olds" using r by (simp add: reconciled_def)
  have d: "distinct olds" using old_index_inj [OF ok] by simp
  then have dr: "distinct (reused fs @ ds)" using mset_eq_imp_distinct_iff [OF m] by simp
  have "set (reused fs) \<union> set ds = set olds" using mset_eq_setD [OF m] by simp
  then have keep: "set ?keep = set (reused fs)" using dr by auto
  have "distinct (map f_index fs)" using r by (simp add: reconciled_def fibers_ok_def)
  then have dv: "distinct (map view_of fs)" using distinct_views dr by simp
  have st: "map view_of (filter stable fs) = map Old (stays fs)"
  proof -
    have "\<forall>f\<in>set fs. alternate f = None \<longrightarrow> effectTag f = Placement" using o by (simp add: order_ok_def)
    then show ?thesis unfolding stays_def reused_def stable_def
      by (induction fs) (auto simp: view_of_def split: option.split)
  qed
  have "filter (\<lambda>a. a \<in> set (stays fs)) ?keep = stays fs"
  proof (rule strict_sorted_same_set [where g = "old_index R"])
    show "sorted_wrt (<) (map (old_index R) (filter (\<lambda>a. a \<in> set (stays fs)) ?keep))"
      using ok by (simp add: siblings_ok_def sorted_wrt_map sorted_wrt_filter)
    show "sorted_wrt (<) (map (old_index R) (stays fs))" using o by (simp add: order_ok_def)
    show "set (filter (\<lambda>a. a \<in> set (stays fs)) ?keep) = set (stays fs)" using keep stays_reused [of fs] by auto
  qed
  then have fl: "filter (\<lambda>h. h \<in> view_of ` (set [] \<union> set (filter stable fs))) (map Old ?keep) = map view_of ([] @ filter stable fs)"
  proof -
    assume k: "filter (\<lambda>a. a \<in> set (stays fs)) ?keep = stays fs"
    have "view_of ` set (filter stable fs) = Old ` set (stays fs)" using arg_cong [OF st, of set] by (simp only: set_map)
    then have "filter (\<lambda>h. h \<in> view_of ` (set [] \<union> set (filter stable fs))) (map Old ?keep) = map Old (filter (\<lambda>a. a \<in> set (stays fs)) ?keep)"
      by (simp only: set_simps Un_empty_left) (simp add: filter_map comp_def image_iff)
    then show ?thesis by (simp only: k st append_Nil)
  qed
  have "set (map Old ?keep) \<subseteq> view_of ` set ([] @ fs)"
  proof
    fix h assume "h \<in> set (map Old ?keep)"
    then obtain a where a: "h = Old a" "a \<in> set ?keep" by (auto simp del: set_filter)
    then obtain f where "f \<in> set fs" "alternate f = Some a" unfolding keep reused_set by blast
    then show "h \<in> view_of ` set ([] @ fs)" using a(1) by (intro image_eqI [of _ _ f]) (simp_all add: view_of_def)
  qed
  then show ?thesis using commit_placements_order [of "[]" fs "map Old ?keep", OF _ _ _ fl] dv d by (simp add: distinct_map inj_on_def)
qed

text \<open>
  C11: the placements lead from the old views to the new ones.  Once the deleted children are gone,
  putting every fiber that is marked before its next sibling that is not marked, in their order,
  leaves exactly the views of the new fibers in their order.
\<close>

theorem placements_give_new_order:
  assumes "shouldTrackSideEffects R" and "current_ok R olds" and "reconcileChildFibers R olds n = Inr (fs, ds)"
  shows "commit_placements fs (map Old (filter (\<lambda>a. a \<notin> set ds) olds)) = map view_of fs"
  using reconciled_placements reconcileChildFibers_ok [OF assms] assms(2) by (auto simp: current_ok_def)

section \<open>Keys\<close>

text \<open>
  The child \<open>i\<close> of the new children and the current fiber \<open>a\<close> have the key \<open>k\<close>, which no other child
  has, and the same type.
\<close>

definition same_child :: "reconciler \<Rightarrow> nat list \<Rightarrow> react_node list \<Rightarrow> string \<Rightarrow> nat \<Rightarrow> nat \<Rightarrow> bool" where
  "same_child R olds cs k a i \<longleftrightarrow>
     a \<in> set olds \<and> f_key (current_fibers R a) = Some k \<and> i < length cs \<and>
     (\<forall>j < length cs. child_key (cs ! j) = Some k \<longleftrightarrow> j = i) \<and>
     (case cs ! i of ElementNode e \<Rightarrow> e_type e \<noteq> FragmentType \<and> same_type R (current_fibers R a) e | _ \<Rightarrow> False)"

definition taken :: "nat \<Rightarrow> nat \<Rightarrow> loop_state \<Rightarrow> bool" where
  "taken a i st \<longleftrightarrow> (\<exists>f\<in>set (newFibers st). alternate f = Some a \<and> f_index f = i)"

lemma taken_add [simp]: "taken a i st \<Longrightarrow> taken a i (add_fiber R nf st)"
  by (auto simp: taken_def add_fiber_def split: prod.split)

lemma taken_add_new: "alternate nf = Some a \<Longrightarrow> taken a (newIdx st) (add_fiber R nf st)"
  by (auto simp: taken_def add_fiber_def placeChild_def Let_def split: prod.splits option.splits if_splits)

lemma taken_cong: "newFibers st' = newFibers st \<Longrightarrow> taken a i st' = taken a i st"
  by (simp add: taken_def)

lemma updateElement_reuses: "updateElement R (Some a) e = Inr f \<Longrightarrow> same_type R (current_fibers R a) e \<Longrightarrow> alternate f = Some a"
  by (auto simp: updateElement_def make_defs dest: with_ref_fields)

lemma key_unique:
  assumes "distinct_keys R olds" and "a \<in> set olds" and "b \<in> set olds" and "f_key (current_fibers R a) = Some k" and "f_key (current_fibers R b) = Some k"
  shows "a = b"
proof -
  have "inj_on (\<lambda>a. key_or_index (f_key (current_fibers R a)) (f_index (current_fibers R a))) (set olds)"
    using assms(1) by (simp add: distinct_keys_def distinct_map)
  then show ?thesis by (rule inj_onD) (use assms(2-5) in \<open>simp_all add: key_or_index_def\<close>)
qed

lemma slot_step_keeps:
  assumes d: "distinct_keys R olds" and c: "same_child R olds cs k a i" and s: "slot_step R (cs ! newIdx st) st = Inr (Some st')"
    and sub: "set (oldFibers st) \<subseteq> set olds" and n: "newIdx st < length cs"
    and I: "newIdx st \<le> i \<and> a \<in> set (oldFibers st) \<or> taken a i st"
  shows "newIdx st' \<le> i \<and> a \<in> set (oldFibers st') \<or> taken a i st'"
proof -
  obtain b bs old nf ds where o: "oldFibers st = b # bs" "old = None \<or> old = Some b" "updateSlot R old (cs ! newIdx st) = Inr (Some nf)"
    "st' = add_fiber R nf (st\<lparr>oldFibers := (if old = None then b # bs else bs), deletions := ds\<rparr>)"
    by (rule slot_step_Some [OF s]) blast
  have key: "child_key (cs ! newIdx st) = slot_key R old" using updateSlot_fits [OF o(3)] by simp
  have ck: "child_key (cs ! newIdx st) = Some k \<longleftrightarrow> newIdx st = i" and fa: "f_key (current_fibers R a) = Some k" "a \<in> set olds"
    using c n by (auto simp: same_child_def)
  show ?thesis
  proof (cases "taken a i st")
    case True
    then show ?thesis using o(4) taken_cong [of "st\<lparr>oldFibers := (if old = None then b # bs else bs), deletions := ds\<rparr>" st] by simp
  next
    case False
    then have J: "newIdx st \<le> i" "a \<in> set (b # bs)" using I o(1) by auto
    show ?thesis
    proof (cases "newIdx st = i")
      case True
      then have "slot_key R old = Some k" using ck key by simp
      then have "old = Some b" "f_key (current_fibers R b) = Some k" using o(2) by (auto simp: slot_key_def)
      then have old: "old = Some a" using key_unique [OF d _ fa(2) _ fa(1), of b] sub o(1) by simp
      obtain e where "cs ! i = ElementNode e" "e_type e \<noteq> FragmentType" "same_type R (current_fibers R a) e"
        using c by (auto simp: same_child_def split: react_node.splits)
      then have "alternate nf = Some a" using o(3) True old updateElement_reuses by (auto split: if_splits)
      then show ?thesis using o(4) True taken_add_new [of nf a "st\<lparr>oldFibers := (if old = None then b # bs else bs), deletions := ds\<rparr>" R] by simp
    next
      case False
      then have "slot_key R old \<noteq> Some k" using ck key by simp
      then have "old \<noteq> Some a" using fa by (auto simp: slot_key_def)
      then show ?thesis using o(2,4) J False by auto
    qed
  qed
qed

lemma slot_loop_keeps:
  assumes "distinct_keys R olds" and "same_child R olds cs k a i" and "slot_loop_array R cs st = Inr st'" and "set (oldFibers st) \<subseteq> set olds"
    and "newIdx st \<le> i \<and> a \<in> set (oldFibers st) \<or> taken a i st"
  shows "newIdx st' \<le> i \<and> a \<in> set (oldFibers st') \<or> taken a i st'"
  using assms
proof (induction R cs st rule: slot_loop_array.induct)
  case (1 R cs st)
  show ?case
  proof (cases "oldFibers st \<noteq> [] \<and> newIdx st < length cs \<and> (\<exists>st1. slot_step R (cs ! newIdx st) st = Inr (Some st1))")
    case True
    then obtain st1 where st1: "slot_step R (cs ! newIdx st) st = Inr (Some st1)" by blast
    have n: "newIdx st < length cs" using True by blast
    have "set (oldFibers st1) \<subseteq> set (oldFibers st)" by (rule slot_step_Some [OF st1]) auto
    then have sub: "set (oldFibers st1) \<subseteq> set olds" using "1.prems"(4) by blast
    moreover have "slot_loop_array R cs st1 = Inr st'" using "1.prems"(3) True st1 by (simp add: slot_loop_array.simps [of R cs st])
    ultimately show ?thesis using True
      by (intro "1.IH" [OF _ st1 refl "1.prems"(1,2) _ sub slot_step_keeps [OF "1.prems"(1,2) st1 "1.prems"(4) n "1.prems"(5)]]) simp_all
  next
    case False
    then have "st' = st" using "1.prems"(3)
      by (auto simp: slot_loop_array.simps [of R cs st] split: if_splits sum.splits option.splits)
    then show ?thesis using "1.prems"(5) by simp
  qed
qed

definition map_keeps :: "reconciler \<Rightarrow> string \<Rightarrow> nat \<Rightarrow> nat \<Rightarrow> nat \<Rightarrow> (map_key \<times> nat) list \<times> loop_state \<Rightarrow> bool" where
  "map_keeps R k a i j ms \<longleftrightarrow>
     newIdx (snd ms) = j \<and> keyed_map R (fst ms) \<and> (j \<le> i \<and> map_of (fst ms) (Key k) = Some a \<or> taken a i (snd ms))"

lemma map_step_keeps:
  assumes I: "map_keeps R k a i j ms" and c: "same_child R olds cs k a i" and j: "j < length cs" and s: "map_step R (cs ! j) ms = Inr ms'"
  shows "map_keeps R k a i (Suc j) ms'"
proof -
  obtain m st where ms: "ms = (m, st)" by fastforce
  have m: "newIdx st = j" "keyed_map R m" "j \<le> i \<and> map_of m (Key k) = Some a \<or> taken a i st" using I ms by (simp_all add: map_keeps_def)
  have ck: "child_key (cs ! j) = Some k \<longleftrightarrow> j = i" using c j by (simp add: same_child_def)
  show ?thesis
  proof (cases "updateFromMap R m j (cs ! j)")
    case (Inl e)
    then show ?thesis using s ms m(1) by (simp add: map_step_def)
  next
    case (Inr r)
    show ?thesis
    proof (cases r)
      case None
      then have "ms' = (m, st\<lparr>newIdx := Suc j\<rparr>)" using Inr s ms m(1) by (simp add: map_step_def)
      moreover have "\<not> visible (cs ! j)" using visible_child(2) Inr None by blast
      then have "j \<noteq> i" using ck by (cases "cs ! j") auto
      ultimately show ?thesis using m by (auto simp: map_keeps_def taken_def)
    next
      case (Some nf)
      let ?k = "key_or_index (child_key (cs ! j)) j"
      have f: "fits R (map_of m ?k) (cs ! j) nf" using updateFromMap_fits [OF m(2)] Inr Some by simp
      obtain m1 where ms': "ms' = (m1, add_fiber R nf st)" and m1: "m1 = m \<or> m1 = AList.delete ?k m"
        using s ms m(1) Inr Some fits_key [OF f] by (auto simp: map_step_def)
      have k1: "keyed_map R m1" using m1 m(2) keyed_map_ops(1) by auto
      show ?thesis
      proof (cases "j = i \<and> \<not> taken a i st")
        case True
        then have "map_of m ?k = Some a" using m(3) ck by (simp add: key_or_index_def)
        moreover obtain e where "cs ! j = ElementNode e" "e_type e \<noteq> FragmentType" "same_type R (current_fibers R a) e"
          using c True by (auto simp: same_child_def split: react_node.splits)
        ultimately have "alternate nf = Some a" using Inr Some updateElement_reuses by (auto simp: Let_def)
        then show ?thesis using True ms' m(1) k1 taken_add_new [of nf a st R] by (simp add: map_keeps_def)
      next
        case False
        have "map_of m1 (Key k) = map_of m (Key k)" if "j \<noteq> i"
          using m1 that ck by (auto simp: key_or_index_def delete_conv' split: option.splits)
        then show ?thesis using False ms' m k1 by (auto simp: map_keeps_def)
      qed
    qed
  qed
qed

lemma map_of_remaining:
  assumes "distinct_keys R as" and "a \<in> set as" and "f_key (current_fibers R a) = Some k"
  shows "map_of (mapRemainingChildren R as) (Key k) = Some a"
proof -
  let ?m = "map (\<lambda>a. (key_or_index (f_key (current_fibers R a)) (f_index (current_fibers R a)), a)) as"
  have "distinct (map fst ?m)" using assms(1) by (simp add: distinct_keys_def comp_def)
  moreover have "(Key k, a) \<in> set ?m" using assms(2,3) by (force simp: key_or_index_def)
  ultimately show ?thesis unfolding mapRemaining_distinct [OF assms(1)] by (simp add: map_of_is_SomeI)
qed

text \<open>
  C13: a child keeps its fiber by its key.  When a current child and a new one have the same key and
  the same type, and no other new child has that key, the new child is rendered by the current one's
  fiber, and so keeps its state, wherever the two are among their siblings.
\<close>

theorem keyed_child_keeps_fiber:
  assumes "shouldTrackSideEffects R" and "siblings_ok R olds" and "distinct_keys R olds" and "same_child R olds cs k a i"
    and "reconcileChildrenArray R olds cs = Inr (fs, ds)"
  shows "\<exists>f\<in>set fs. alternate f = Some a \<and> f_index f = i"
proof -
  note d = assms(3) and c = assms(4) and r = assms(5)
  obtain st where st: "slot_loop_array R cs (loop_init olds) = Inr st" using r by (auto simp: reconcileChildrenArray_def split: sum.splits)
  have "recon_inv R olds cs (loop_init olds) (mset (oldFibers (loop_init olds)))"
    by (simp add: recon_inv_def loop_init_def fibers_ok_def order_ok_def)
  then have le: "newIdx st \<le> length cs" and suf: "suffix (oldFibers st) olds"
    using slot_loop_inv [OF assms(1,2) _ st] by (auto simp: loop_init_def)
  have i: "i < length cs" and fa: "f_key (current_fibers R a) = Some k" "a \<in> set olds" using c by (auto simp: same_child_def)
  have I: "newIdx st \<le> i \<and> a \<in> set (oldFibers st) \<or> taken a i st"
    by (rule slot_loop_keeps [OF d c st]) (use fa in \<open>simp_all add: loop_init_def\<close>)
  consider "newIdx st = length cs" | "newIdx st \<noteq> length cs" "oldFibers st = []" | "newIdx st \<noteq> length cs" "oldFibers st \<noteq> []" by blast
  then show ?thesis
  proof cases
    case 1
    then show ?thesis using I i r st by (auto simp: reconcileChildrenArray_def taken_def)
  next
    case 2
    obtain st' where st': "for_array (create_step R) cs (newIdx st) st = Inr st'" "fs = newFibers st'"
      using r st 2 by (auto simp: reconcileChildrenArray_def split: sum.splits)
    have step: "taken a i s'" if "taken a i s" "j < length cs" "create_step R (cs ! j) s = Inr s'" for j s s'
      using that by (auto simp: create_step_def taken_def [of _ _ "s\<lparr>newIdx := _\<rparr>"] split: sum.splits option.splits) (simp add: taken_def)
    have "taken a i st'" by (rule for_array_inv [where I = "\<lambda>j. taken a i", OF step _ le st'(1)]) (use I 2 in simp_all)
    then show ?thesis using st'(2) by (simp add: taken_def)
  next
    case 3
    let ?m = "mapRemainingChildren R (oldFibers st)"
    obtain m st' where st': "for_array (map_step R) cs (newIdx st) (?m, st) = Inr (m, st')" "fs = newFibers st'"
      using r st 3 by (auto simp: reconcileChildrenArray_def split: sum.splits)
    have init: "map_keeps R k a i (newIdx st) (?m, st)"
      using I map_of_remaining [OF distinct_keys_suffix [OF d suf] _ fa(1)] keyed_map_ops(2) by (auto simp: map_keeps_def)
    have step: "map_keeps R k a i (Suc j) s'" if "map_keeps R k a i j s" "j < length cs" "map_step R (cs ! j) s = Inr s'" for j s s'
      using map_step_keeps [OF that(1) c that(2,3)] .
    have "map_keeps R k a i (length cs) (m, st')"
      by (rule for_array_inv [where I = "map_keeps R k a i", OF step init le st'(1)])
    then show ?thesis using st'(2) i by (auto simp: map_keeps_def taken_def)
  qed
qed

section \<open>An example\<close>

text \<open>Three views with the keys a, b and c become c, a and d.\<close>

definition ex_keyed_view :: "string \<Rightarrow> react_node" where
  "ex_keyed_view k = ElementNode (Element (Some k) (HostType ''View'') RefNull None 1 NullNode)"

definition ex_current :: "nat \<Rightarrow> fiber_node" where
  "ex_current a = (createFiber HostComponent (Props 0 NullNode) (Some (if a = 0 then ''a'' else if a = 1 then ''b'' else ''c'')))
     \<lparr>elementType := Some (HostType ''View''), f_index := a\<rparr>"

definition ex_reconciler :: reconciler where
  "ex_reconciler = \<lparr>shouldTrackSideEffects = True, current_fibers = ex_current, isCompatibleFamilyForHotReloading = (\<lambda>f e. False),
     return_tag = HostComponent, return_textarea = False, return_mock = False\<rparr>"

definition ex_children :: "react_node list" where
  "ex_children = [ex_keyed_view ''c'', ex_keyed_view ''a'', ex_keyed_view ''d'']"

lemma ex_current_ok: "current_ok ex_reconciler [0, 1, 2]"
  by (auto simp: current_ok_def siblings_ok_def distinct_keys_def old_index_def ex_reconciler_def ex_current_def createFiber_def
      same_type_def key_or_index_def)

lemma ex_track: "shouldTrackSideEffects ex_reconciler"
  by (simp add: ex_reconciler_def)

lemma ex_array: "reconcileChildFibers ex_reconciler [0, 1, 2] (ArrayNode ex_children) = reconcileChildrenArray ex_reconciler [0, 1, 2] ex_children"
  by (simp add: reconcileChildFibers_def)

lemma ex_result:
  "\<exists>fs. reconcileChildrenArray ex_reconciler [0, 1, 2] ex_children = Inr (fs, [1]) \<and> map view_of fs = [Old 2, Old 0, New 2] \<and>
     map effectTag fs = [NoEffect, Placement, Placement]"
proof -
  have "(case reconcileChildrenArray ex_reconciler [0, 1, 2] ex_children of
      Inl e \<Rightarrow> False | Inr (fs, ds) \<Rightarrow> ds = [1] \<and> map view_of fs = [Old 2, Old 0, New 2] \<and> map effectTag fs = [NoEffect, Placement, Placement])"
    by code_simp
  then show ?thesis by (auto split: sum.splits prod.splits)
qed

theorem children_get_their_fibers_witness:
  "\<exists>fs ds. reconcileChildFibers ex_reconciler [0, 1, 2] (ArrayNode ex_children) = Inr (fs, ds) \<and> map f_index fs = [0, 1, 2] \<and>
     (\<forall>f\<in>set fs. shows_child ex_reconciler (ex_children ! f_index f) f)"
proof -
  obtain fs where r: "reconcileChildFibers ex_reconciler [0, 1, 2] (ArrayNode ex_children) = Inr (fs, [1])"
    using ex_result unfolding ex_array by (elim exE conjE)
  have "ex_children = top_children (unwrapped (ArrayNode ex_children))" by (simp add: unwrapped_def)
  note t = children_get_their_fibers [OF ex_track ex_current_ok r this]
  have "filter (\<lambda>i. visible (ex_children ! i)) [0..<length ex_children] = [0, 1, 2]" by code_simp
  then show ?thesis using t r by (intro exI [of _ fs] exI [of _ "[1]"]) simp
qed

theorem old_fibers_reused_or_deleted_witness:
  "\<exists>fs. reconcileChildFibers ex_reconciler [0, 1, 2] (ArrayNode ex_children) = Inr (fs, [1]) \<and> mset (reused fs) = {#0, 2#}"
proof -
  obtain fs where r: "reconcileChildFibers ex_reconciler [0, 1, 2] (ArrayNode ex_children) = Inr (fs, [1])"
    using ex_result unfolding ex_array by (elim exE conjE)
  then show ?thesis
    using old_fibers_reused_or_deleted [OF ex_track ex_current_ok r] by (auto simp: add_mset_commute)
qed

theorem placements_give_new_order_witness:
  "\<exists>fs. reconcileChildFibers ex_reconciler [0, 1, 2] (ArrayNode ex_children) = Inr (fs, [1]) \<and>
     commit_placements fs [Old 0, Old 2] = [Old 2, Old 0, New 2]"
proof -
  obtain fs where r: "reconcileChildFibers ex_reconciler [0, 1, 2] (ArrayNode ex_children) = Inr (fs, [1])" "map view_of fs = [Old 2, Old 0, New 2]"
    using ex_result unfolding ex_array by (elim exE conjE)
  then show ?thesis using placements_give_new_order [OF ex_track ex_current_ok r(1)] by auto
qed

theorem keyed_child_keeps_fiber_witness:
  "\<exists>fs ds. reconcileChildrenArray ex_reconciler [0, 1, 2] ex_children = Inr (fs, ds) \<and> (\<exists>f\<in>set fs. alternate f = Some 2 \<and> f_index f = 0)"
proof -
  obtain fs where r: "reconcileChildrenArray ex_reconciler [0, 1, 2] ex_children = Inr (fs, [1])" using ex_result by (elim exE conjE)
  have c: "same_child ex_reconciler [0, 1, 2] ex_children ''c'' 2 0"
    by (auto simp: same_child_def ex_reconciler_def ex_current_def ex_children_def ex_keyed_view_def createFiber_def same_type_def less_Suc_eq)
  show ?thesis
    using keyed_child_keeps_fiber [OF ex_track _ _ c r] ex_current_ok r by (auto simp: current_ok_def)
qed

section \<open>Two comparisons that go wrong\<close>

text \<open>
  An element whose type is \<open>null\<close> throws when it is created, but takes over a text, fragment or portal
  in its place, whose element type is \<open>null\<close> too.
\<close>

definition null_element :: element where
  "null_element = Element None NullType RefNull None 1 NullNode"

lemma null_type_throws_when_new: "createChild R (ElementNode null_element) = Inl (JsError ''Element type is invalid'')"
  by (simp add: null_element_def create_element_fiber_def createFiberFromElement_def createFiberFromTypeAndProps_def some_fiber_def)

lemma null_type_takes_over_text:
  assumes "current_fibers R a = createFiberFromText s"
  shows "\<exists>f. updateSlot R (Some a) (ElementNode null_element) = Inr (Some f) \<and> f_tag f = HostText \<and> pendingProps f = Props 1 NullNode"
  using assms by (simp add: null_element_def slot_key_def updateElement_def same_type_def with_ref_def make_defs)

text \<open>A string reference of the same name is kept although the owner is another component instance.\<close>

lemma string_ref_keeps_old_owner:
  "f_ref c = StringRef 1 s \<Longrightarrow> coerceRef (Some c) (RefString s) (Some (ClassOwner (Some 2))) = Inr (StringRef 1 s)"
  by (simp add: string_ref_def)

end
