(* ===== verification/VirtualizedList.thy ===== *)
theory VirtualizedList
  imports VirtualizeUtils "HOL-Library.AList"
begin

text \<open>
  \<open>Libraries/Lists/VirtualizedList.js\<close>: the measured cells, the window of rendered cells and what is
  rendered for it, scrolling, the end of the list and the selection by keys.

  The list is a machine driven by events: layouts of cells and of the list, scroll events, the batch
  of cell updates, key presses and renderings with new properties.  \<open>setState\<close> queues an updater, and
  the queue is worked off by the next rendering.  Calls of the scroll view, of the batcher, of the
  viewability helpers and of the user are logged.  The data is known by its count, its items by a
  number; \<open>getItemLayout\<close> is documented to return the index it is asked for, so its result is a frame.
  The statistics of \<open>FillRateHelper\<close> and the warnings are left out.
\<close>

section \<open>Data\<close>

record layout =
  l_x :: real
  l_y :: real
  l_width :: real
  l_height :: real

record list_props = window_props +
  hasData :: bool
  getItem :: "int \<Rightarrow> nat option"
  keyExtractor :: "nat option \<Rightarrow> int \<Rightarrow> string"
  getItemLayout :: "(int \<Rightarrow> frame) option"
  horizontal :: bool
  initialScrollIndex :: nat
  initialNumToRender :: nat
  onEndReached :: bool
  onEndReachedThreshold :: real
  disableVirtualization :: bool
  stickyHeaderIndices :: "int list"
  listHeader :: bool
  listFooter :: bool
  listEmpty :: bool
  onScrollToIndexFailed :: bool
  nested :: bool

record cell_frame = frame +
  fr_index :: int
  inLayout :: bool

record list_metrics =
  contentLength :: real
  dOffset :: real
  dt :: real
  offset :: real
  timestamp :: real
  velocity :: real
  visibleLength :: real

datatype updater = UpdateCells | SelectRow int

datatype list_call =
    ScrollTo real
  | ScrollToIndexFailed int
  | EndReached real real
  | AwayFromEnd
  | BatcherSchedule
  | BatcherDispose
  | UpdateViewable nat real real int int
  | SelectionChanged int int "nat option"
  | SelectionEntered "nat option"
  | MeasureLayout

record list_state =
  window :: range
  selectedRowIndex :: int
  updaters :: "updater list"
  frames :: "(string \<times> cell_frame) list"
  averageCellLength :: real
  totalCellLength :: real
  totalCellsMeasured :: nat
  highestMeasuredFrameIndex :: int
  footerLength :: real
  headerLength :: real
  hasDoneInitialScroll :: bool
  hasInteracted :: bool
  hasMore :: bool
  hiPriInProgress :: bool
  indicesToKeys :: "(int \<times> string) list"
  cellKeysToChildListKeys :: "(string \<times> string list) list"
  nestedChildLists :: "(string \<times> bool) list"
  offsetFromParentVirtualizedList :: real
  scrollMetrics :: list_metrics
  sentEndForContentLength :: real
  calls :: "list_call list"

type_synonym 'a list_result = "(js_exn, list_state, 'a) outcome"

definition log_call :: "list_call \<Rightarrow> list_state \<Rightarrow> list_state" where
  "log_call c st = st\<lparr>calls := calls st @ [c]\<rparr>"

definition selectLength :: "list_props \<Rightarrow> layout \<Rightarrow> real" where
  "selectLength p m = (if \<not> horizontal p then l_height m else l_width m)"

definition selectOffset :: "list_props \<Rightarrow> layout \<Rightarrow> real" where
  "selectOffset p m = (if \<not> horizontal p then l_y m else l_x m)"

section \<open>Frames\<close>

text \<open>The frame that was measured for the item at an index, if its cell was at that index.\<close>

definition measured_frame :: "list_props \<Rightarrow> list_state \<Rightarrow> int \<Rightarrow> cell_frame option" where
  "measured_frame p st i =
     (case getItem p i of None \<Rightarrow> None | Some x \<Rightarrow> map_of (frames st) (keyExtractor p (Some x) i))"

definition getFrameMetrics :: "list_props \<Rightarrow> list_state \<Rightarrow> int \<Rightarrow> js_exn + cell_frame option" where
  "getFrameMetrics p st i =
     (if \<not> int (itemCount p) > i then Inl (InvariantViolation ''Tried to get frame for out of range index'')
      else case measured_frame p st i of
             Some f \<Rightarrow> if fr_index f = i then Inr (Some f)
                       else (case getItemLayout p of
                               None \<Rightarrow> Inr (Some f)
                             | Some g \<Rightarrow> Inr (Some \<lparr>frame_offset = frame_offset (g i), frame_length = frame_length (g i), fr_index = i, inLayout = False\<rparr>))
           | None \<Rightarrow> (case getItemLayout p of
                       None \<Rightarrow> Inr None
                     | Some g \<Rightarrow> Inr (Some \<lparr>frame_offset = frame_offset (g i), frame_length = frame_length (g i), fr_index = i, inLayout = False\<rparr>)))"

definition getFrameMetricsApprox :: "list_props \<Rightarrow> list_state \<Rightarrow> int \<Rightarrow> js_exn + frame" where
  "getFrameMetricsApprox p st i =
     (case getFrameMetrics p st i of
        Inl e \<Rightarrow> Inl e
      | Inr fr \<Rightarrow>
          let estimate = (if getItemLayout p \<noteq> None
                          then Inl (InvariantViolation ''Should not have to estimate frames when a measurement metrics function is provided'')
                          else Inr \<lparr>frame_offset = averageCellLength st * of_int i, frame_length = averageCellLength st\<rparr>)
          in case fr of
               Some f \<Rightarrow> if fr_index f = i then Inr \<lparr>frame_offset = frame_offset f, frame_length = frame_length f\<rparr> else estimate
             | None \<Rightarrow> estimate)"

text \<open>The frame at an index that is in range.\<close>

definition frame_at :: "list_props \<Rightarrow> list_state \<Rightarrow> int \<Rightarrow> frame" where
  "frame_at p st i =
     (case getFrameMetricsApprox p st i of Inl e \<Rightarrow> \<lparr>frame_offset = 0, frame_length = 0\<rparr> | Inr f \<Rightarrow> f)"

definition with_frame :: "list_props \<Rightarrow> list_state \<Rightarrow> int \<Rightarrow> (frame \<Rightarrow> 'a list_result) \<Rightarrow> 'a list_result" where
  "with_frame p st i f = (case getFrameMetricsApprox p st i of Inl e \<Rightarrow> Throw e st | Inr fr \<Rightarrow> f fr)"

section \<open>Updating the window\<close>

definition updateViewableItems :: "list_props \<Rightarrow> list_state \<Rightarrow> list_state" where
  "updateViewableItems p st =
     log_call (UpdateViewable (itemCount p) (offset (scrollMetrics st)) (visibleLength (scrollMetrics st))
       (first (window st)) (last (window st))) st"

definition setState :: "updater \<Rightarrow> list_state \<Rightarrow> list_state" where
  "setState u st = st\<lparr>updaters := updaters st @ [u]\<rparr>"

definition updateCellsToRender :: "list_props \<Rightarrow> list_state \<Rightarrow> list_state" where
  "updateCellsToRender p st =
     (let st1 = updateViewableItems p st in if \<not> hasData p then st1 else setState UpdateCells st1)"

text \<open>Whether the window is close to its first or its last cell, so that it is updated at once.\<close>

definition scheduleCellsToRenderUpdate :: "list_props \<Rightarrow> list_state \<Rightarrow> unit list_result" where
  "scheduleCellsToRenderUpdate p st =
     (let sm = scrollMetrics st; f = first (window st); l = last (window st);
          scrollingThreshold = onEndReachedThreshold p * visibleLength sm / 2;
          decide = (\<lambda>hiPri.
            if hiPri \<and> (averageCellLength st \<noteq> 0 \<or> getItemLayout p \<noteq> None) \<and> \<not> hiPriInProgress st
            then Ret () (updateCellsToRender p (log_call BatcherDispose (st\<lparr>hiPriInProgress := True\<rparr>)))
            else Ret () (log_call BatcherSchedule st));
          bottom = (\<lambda>hiPri.
            if l < int (itemCount p) - 1
            then with_frame p st l (\<lambda>fr.
              let distBottom = frame_offset fr - (offset sm + visibleLength sm)
              in decide (hiPri \<or> distBottom < 0 \<or> velocity sm > 2 \<and> distBottom < scrollingThreshold))
            else decide hiPri)
      in if f > 0
         then with_frame p st f (\<lambda>fr.
           let distTop = offset sm - frame_offset fr
           in bottom (distTop < 0 \<or> velocity sm < -2 \<and> distTop < scrollingThreshold))
         else bottom False)"

text \<open>
  The updater of the window.  A cell with a child list that has more items to render ends the window;
  \<open>childHasMore\<close> is what \<open>hasMore\<close> of the child lists returns.
\<close>

definition cell_has_more :: "list_state \<Rightarrow> (string \<Rightarrow> bool) \<Rightarrow> int \<Rightarrow> bool" where
  "cell_has_more st childHasMore i =
     (case map_of (indicesToKeys st) i of
        None \<Rightarrow> False
      | Some key \<Rightarrow>
          (case map_of (cellKeysToChildListKeys st) key of
             None \<Rightarrow> False
           | Some ks \<Rightarrow> list_ex (\<lambda>k. map_of (nestedChildLists st) k = Some True \<and> childHasMore k) ks))"

definition limit_to_child_lists :: "list_state \<Rightarrow> (string \<Rightarrow> bool) \<Rightarrow> range \<Rightarrow> range" where
  "limit_to_child_lists st childHasMore r =
     (if nestedChildLists st = [] then r
      else case find (cell_has_more st childHasMore) [first r..last r] of
             None \<Rightarrow> r
           | Some i \<Rightarrow> r\<lparr>last := i\<rparr>)"

definition new_window :: "list_props \<Rightarrow> list_state \<Rightarrow> js_exn + range option" where
  "new_window p st =
     (let sm = scrollMetrics st
      in if \<not> disableVirtualization p
         then if visibleLength sm > 0 \<and> contentLength sm > 0 \<and> (initialScrollIndex p = 0 \<or> offset sm \<noteq> 0)
              then map_sum id Some (computeWindowedRenderLimits (window_props.truncate p) (window st) (\<lambda>i. frame_at p st (int i))
                     \<lparr>sm_offset = offset sm, sm_velocity = velocity sm, sm_visibleLength = visibleLength sm\<rparr>)
              else Inr None
         else let distanceFromEnd = contentLength sm - visibleLength sm - offset sm;
                  renderAhead = (if distanceFromEnd < onEndReachedThreshold p * visibleLength sm then maxToRenderPerBatch p else 0)
              in Inr (Some \<lparr>first = 0, last = min (last (window st) + renderAhead) (int (itemCount p) - 1)\<rparr>))"

definition run_updater :: "list_props \<Rightarrow> (string \<Rightarrow> bool) \<Rightarrow> updater \<Rightarrow> list_state \<Rightarrow> js_exn + list_state" where
  "run_updater p childHasMore u st =
     (case u of
        SelectRow i \<Rightarrow> Inr (st\<lparr>selectedRowIndex := i\<rparr>)
      | UpdateCells \<Rightarrow>
          (case new_window p st of
             Inl e \<Rightarrow> Inl e
           | Inr None \<Rightarrow> Inr st
           | Inr (Some r) \<Rightarrow> Inr (st\<lparr>window := limit_to_child_lists st childHasMore r\<rparr>)))"

fun run_updaters :: "list_props \<Rightarrow> (string \<Rightarrow> bool) \<Rightarrow> updater list \<Rightarrow> list_state \<Rightarrow> js_exn + list_state" where
  "run_updaters p childHasMore [] st = Inr st"
| "run_updaters p childHasMore (u # us) st =
     (case run_updater p childHasMore u st of Inl e \<Rightarrow> Inl e | Inr st' \<Rightarrow> run_updaters p childHasMore us st')"

definition getDerivedStateFromProps :: "list_props \<Rightarrow> list_state \<Rightarrow> list_state" where
  "getDerivedStateFromProps p st =
     st\<lparr>window := \<lparr>first = max 0 (min (first (window st)) (int (itemCount p) - 1 - maxToRenderPerBatch p)),
                   last = max 0 (min (last (window st)) (int (itemCount p) - 1))\<rparr>,
        selectedRowIndex := max 0 (min (selectedRowIndex st) (int (itemCount p)))\<rparr>"

section \<open>Rendering\<close>

datatype list_cell = HeaderCell | ItemCell int | Spacer real | EmptyCell | FooterCell

text \<open>The cells so far, the positions of sticky headers among them, and the state, whose map of keys is filled.\<close>

type_synonym rendering = "list_cell list \<times> nat list \<times> list_state"

definition stickyOffset :: "list_props \<Rightarrow> int" where
  "stickyOffset p = (if listHeader p then 1 else 0)"

definition push_cell :: "list_props \<Rightarrow> int \<Rightarrow> rendering \<Rightarrow> rendering" where
  "push_cell p i r =
     (case r of (cells, sticky, st) \<Rightarrow>
        (cells @ [ItemCell i],
         if i + stickyOffset p \<in> set (stickyHeaderIndices p) then sticky @ [length cells] else sticky,
         st\<lparr>indicesToKeys := AList.update i (keyExtractor p (getItem p i) i) (indicesToKeys st)\<rparr>))"

definition pushCells :: "list_props \<Rightarrow> int \<Rightarrow> int \<Rightarrow> rendering \<Rightarrow> rendering" where
  "pushCells p f l r = fold (push_cell p) [f..min (int (itemCount p) - 1) l] r"

definition push :: "list_cell \<Rightarrow> rendering \<Rightarrow> rendering" where
  "push c r = (case r of (cells, sticky, st) \<Rightarrow> (cells @ [c], sticky, st))"

definition lastInitialIndex :: "list_props \<Rightarrow> int" where
  "lastInitialIndex p = (if initialScrollIndex p \<noteq> 0 then -1 else int (initialNumToRender p) - 1)"

text \<open>
  The space between the initial cells and the window, with the last sticky header in it.  The frames are
  read through \<open>frame_at\<close>: every index is below the first cell of the window.
\<close>

definition render_lead :: "list_props \<Rightarrow> list_state \<Rightarrow> rendering \<Rightarrow> rendering" where
  "render_lead p st r =
     (let f = first (window st); li = lastInitialIndex p; initBlock = frame_at p st li
      in case find (\<lambda>i. i + stickyOffset p \<in> set (stickyHeaderIndices p)) (rev [li + 1..max (li + 1) f - 1]) of
           Some i \<Rightarrow>
             let stickyBlock = frame_at p st i;
                 leadSpace = frame_offset stickyBlock - frame_offset initBlock -
                   (if initialScrollIndex p \<noteq> 0 then 0 else frame_length initBlock);
                 trailSpace = frame_offset (frame_at p st f) - (frame_offset stickyBlock + frame_length stickyBlock)
             in push (Spacer trailSpace) (pushCells p i i (push (Spacer leadSpace) r))
         | None \<Rightarrow> push (Spacer (frame_offset (frame_at p st f) - (frame_offset initBlock + frame_length initBlock))) r)"

definition render_tail :: "list_props \<Rightarrow> list_state \<Rightarrow> rendering \<Rightarrow> rendering" where
  "render_tail p st r =
     (let lastFrame = frame_at p st (last (window st));
          e = (if getItemLayout p \<noteq> None then int (itemCount p) - 1 else min (int (itemCount p) - 1) (highestMeasuredFrameIndex st));
          endFrame = frame_at p st e
      in push (Spacer (frame_offset endFrame + frame_length endFrame - (frame_offset lastFrame + frame_length lastFrame))) r)"

definition render_items :: "list_props \<Rightarrow> list_state \<Rightarrow> rendering \<Rightarrow> rendering" where
  "render_items p st r0 =
     (let li = lastInitialIndex p; f = first (window st); l = last (window st);
          r1 = pushCells p 0 li r0;
          r2 = (if \<not> disableVirtualization p \<and> f > li + 1 then render_lead p st r1 else r1);
          r3 = pushCells p (max (li + 1) f) l r2
      in if \<not> disableVirtualization p \<and> l < int (itemCount p) - 1 then render_tail p st r3 else r3)"

definition render :: "list_props \<Rightarrow> list_state \<Rightarrow> rendering" where
  "render p st =
     (let r0 = (if listHeader p then ([HeaderCell], if 0 \<in> set (stickyHeaderIndices p) then [0] else [], st) else ([], [], st));
          r1 = (if itemCount p > 0 then render_items p st r0 else if listEmpty p then push EmptyCell r0 else r0)
      in case (if listFooter p then push FooterCell r1 else r1) of
           (cells, sticky, st1) \<Rightarrow> (cells, sticky, st1\<lparr>hasMore := last (window st) < int (itemCount p) - 1\<rparr>))"

text \<open>A rendering with new properties: updaters, derived state, cells, \<open>componentDidUpdate\<close>.\<close>

definition componentDidUpdate :: "list_props \<Rightarrow> list_state \<Rightarrow> unit list_result" where
  "componentDidUpdate p st =
     and_then (scheduleCellsToRenderUpdate p st)
       (\<lambda>u st1. Ret () (if hiPriInProgress st then st1\<lparr>hiPriInProgress := False\<rparr> else st1))"

definition update_component :: "list_props \<Rightarrow> (string \<Rightarrow> bool) \<Rightarrow> list_state \<Rightarrow> unit list_result" where
  "update_component p childHasMore st =
     (case run_updaters p childHasMore (updaters st) (st\<lparr>updaters := []\<rparr>) of
        Inl e \<Rightarrow> Throw e st
      | Inr st1 \<Rightarrow> componentDidUpdate p (snd (snd (render p (getDerivedStateFromProps p st1)))))"

section \<open>Layouts\<close>

definition onCellLayout :: "list_props \<Rightarrow> layout \<Rightarrow> string \<Rightarrow> int \<Rightarrow> list_state \<Rightarrow> unit list_result" where
  "onCellLayout p lay cellKey index st =
     (let next = \<lparr>frame_offset = selectOffset p lay, frame_length = selectLength p lay, fr_index = index, inLayout = True\<rparr>;
          curr = map_of (frames st) cellKey
      in and_then
           (if curr = None \<or> (\<exists>c. curr = Some c \<and>
                (frame_offset next \<noteq> frame_offset c \<or> frame_length next \<noteq> frame_length c \<or> index \<noteq> fr_index c))
            then let total = totalCellLength st + (frame_length next - (case curr of None \<Rightarrow> 0 | Some c \<Rightarrow> frame_length c));
                     n = totalCellsMeasured st + (if curr = None then 1 else 0)
                 in scheduleCellsToRenderUpdate p
                      (st\<lparr>totalCellLength := total, totalCellsMeasured := n, averageCellLength := total / real n,
                          frames := AList.update cellKey next (frames st),
                          highestMeasuredFrameIndex := max (highestMeasuredFrameIndex st) index\<rparr>)
            else Ret () (st\<lparr>frames := AList.update cellKey ((the curr)\<lparr>inLayout := True\<rparr>) (frames st)\<rparr>))
           (\<lambda>u st1. Ret () (updateViewableItems p st1)))"

definition onCellUnmount :: "string \<Rightarrow> list_state \<Rightarrow> list_state" where
  "onCellUnmount cellKey st =
     (case map_of (frames st) cellKey of
        None \<Rightarrow> st
      | Some c \<Rightarrow> st\<lparr>frames := AList.update cellKey (c\<lparr>inLayout := False\<rparr>) (frames st)\<rparr>)"

definition maybeCallOnEndReached :: "list_props \<Rightarrow> list_state \<Rightarrow> list_state" where
  "maybeCallOnEndReached p st =
     (let sm = scrollMetrics st;
          distanceFromEnd = contentLength sm - visibleLength sm - offset sm;
          threshold = onEndReachedThreshold p * visibleLength sm
      in if onEndReached p \<and> last (window st) = int (itemCount p) - 1 \<and> distanceFromEnd < threshold \<and>
            contentLength sm \<noteq> sentEndForContentLength st
         then log_call (EndReached (contentLength sm) distanceFromEnd) (st\<lparr>sentEndForContentLength := contentLength sm\<rparr>)
         else if distanceFromEnd > threshold then log_call AwayFromEnd (st\<lparr>sentEndForContentLength := 0\<rparr>)
         else st)"

definition set_metrics :: "(list_metrics \<Rightarrow> list_metrics) \<Rightarrow> list_state \<Rightarrow> list_state" where
  "set_metrics f st = st\<lparr>scrollMetrics := f (scrollMetrics st)\<rparr>"

definition onLayout :: "list_props \<Rightarrow> layout \<Rightarrow> list_state \<Rightarrow> unit list_result" where
  "onLayout p lay st =
     (let st1 = (if nested p then log_call MeasureLayout st else set_metrics (\<lambda>m. m\<lparr>visibleLength := selectLength p lay\<rparr>) st)
      in and_then (scheduleCellsToRenderUpdate p st1) (\<lambda>u st2. Ret () (maybeCallOnEndReached p st2)))"

text \<open>The position in an enclosing list, as it is measured, with the metrics of that list.\<close>

definition convertParentScrollMetrics :: "list_state \<Rightarrow> real \<Rightarrow> real \<Rightarrow> real \<times> real \<times> real \<times> real" where
  "convertParentScrollMetrics st parentVisible parentOffset =
     (let off = parentOffset - offsetFromParentVirtualizedList st
      in (parentVisible, contentLength (scrollMetrics st), off, off - offset (scrollMetrics st)))"

definition measured_in_parent :: "list_props \<Rightarrow> layout \<Rightarrow> real \<Rightarrow> real \<Rightarrow> list_state \<Rightarrow> list_state" where
  "measured_in_parent p lay parentVisible parentOffset st =
     (let st1 = set_metrics (\<lambda>m. m\<lparr>contentLength := selectLength p lay\<rparr>) (st\<lparr>offsetFromParentVirtualizedList := selectOffset p lay\<rparr>)
      in case convertParentScrollMetrics st1 parentVisible parentOffset of
           (vis, len, off, d) \<Rightarrow> set_metrics (\<lambda>m. m\<lparr>visibleLength := vis, offset := off\<rparr>) st1)"

section \<open>Scrolling\<close>

definition scrollToOffset :: "real \<Rightarrow> list_state \<Rightarrow> list_state" where
  "scrollToOffset off st = log_call (ScrollTo off) st"

definition scrollToEnd :: "list_props \<Rightarrow> list_state \<Rightarrow> unit list_result" where
  "scrollToEnd p st =
     with_frame p st (int (itemCount p) - 1)
       (\<lambda>fr. Ret () (log_call (ScrollTo (max 0 (frame_offset fr + frame_length fr + footerLength st - visibleLength (scrollMetrics st)))) st))"

definition scrollToIndex :: "list_props \<Rightarrow> int \<Rightarrow> real \<Rightarrow> real \<Rightarrow> list_state \<Rightarrow> unit list_result" where
  "scrollToIndex p index viewOffset viewPosition st =
     (if \<not> (index \<ge> 0 \<and> index < int (itemCount p)) then Throw (InvariantViolation ''scrollToIndex out of range'') st
      else if getItemLayout p = None \<and> index > highestMeasuredFrameIndex st
      then if \<not> onScrollToIndexFailed p
           then Throw (InvariantViolation ''scrollToIndex should be used in conjunction with getItemLayout or onScrollToIndexFailed'') st
           else Ret () (log_call (ScrollToIndexFailed index) st)
      else with_frame p st index (\<lambda>fr.
        Ret () (log_call (ScrollTo (max 0 (frame_offset fr - viewPosition * (visibleLength (scrollMetrics st) - frame_length fr)) - viewOffset)) st)))"

definition scrollToItem :: "list_props \<Rightarrow> nat \<Rightarrow> real \<Rightarrow> real \<Rightarrow> list_state \<Rightarrow> unit list_result" where
  "scrollToItem p item viewOffset viewPosition st =
     (case find (\<lambda>i. getItem p i = Some item) [0..int (itemCount p) - 1] of
        None \<Rightarrow> Ret () st
      | Some i \<Rightarrow> scrollToIndex p i viewOffset viewPosition st)"

definition onContentSizeChange :: "list_props \<Rightarrow> real \<Rightarrow> real \<Rightarrow> list_state \<Rightarrow> unit list_result" where
  "onContentSizeChange p width height st =
     and_then
       (if width > 0 \<and> height > 0 \<and> initialScrollIndex p > 0 \<and> \<not> hasDoneInitialScroll st
        then and_then (scrollToIndex p (int (initialScrollIndex p)) 0 0 st) (\<lambda>u st1. Ret () (st1\<lparr>hasDoneInitialScroll := True\<rparr>))
        else Ret () st)
       (\<lambda>u st1.
         and_then (scheduleCellsToRenderUpdate p
             (set_metrics (\<lambda>m. m\<lparr>contentLength := selectLength p \<lparr>l_x = 0, l_y = 0, l_width = width, l_height = height\<rparr>\<rparr>) st1))
           (\<lambda>u st2. Ret () (maybeCallOnEndReached p st2)))"

record scroll_event =
  timeStamp :: real
  layoutMeasurement :: layout
  contentSize :: layout
  contentOffset :: layout

definition onScroll :: "list_props \<Rightarrow> scroll_event \<Rightarrow> list_state \<Rightarrow> unit list_result" where
  "onScroll p e st =
     (let sm = scrollMetrics st;
          vis0 = selectLength p (layoutMeasurement e);
          off0 = selectOffset p (contentOffset e);
          values = (if nested p then convertParentScrollMetrics st vis0 off0
                    else (vis0, selectLength p (contentSize e), off0, off0 - offset sm))
      in if nested p \<and> contentLength sm = 0 then Ret () st
         else case values of (vis, len, off, d) \<Rightarrow>
           let dt' = (if timestamp sm \<noteq> 0 then max 1 (timeStamp e - timestamp sm) else 1);
               st1 = st\<lparr>scrollMetrics := \<lparr>contentLength = len, dOffset = d, dt = dt', offset = off, timestamp = timeStamp e,
                          velocity = d / dt', visibleLength = vis\<rparr>\<rparr>
           in scheduleCellsToRenderUpdate p (maybeCallOnEndReached p (updateViewableItems p st1)))"

section \<open>Selection by keys\<close>

definition ensureItemAtIndexIsVisible :: "list_props \<Rightarrow> int \<Rightarrow> list_state \<Rightarrow> unit list_result" where
  "ensureItemAtIndexIsVisible p rowIndex st =
     with_frame p st rowIndex (\<lambda>fr.
       let sm = scrollMetrics st; visTop = offset sm; visEnd = visTop + visibleLength sm; frameEnd = frame_offset fr + frame_length fr
       in if frameEnd > visEnd then Ret () (scrollToOffset (min (contentLength sm) (visTop + (frameEnd - visEnd))) st)
          else if frame_offset fr < visTop then Ret () (scrollToOffset (max 0 (visTop - frame_length fr)) st)
          else Ret () st)"

datatype key_press = UpArrow | DownArrow | Enter | OtherKey

definition row_above :: "int \<Rightarrow> int" where
  "row_above i = (if i > 0 then i - 1 else i)"

definition row_below :: "list_props \<Rightarrow> int \<Rightarrow> int" where
  "row_below p i = (if i < int (itemCount p) - 1 then i + 1 else i)"

definition select_row :: "list_props \<Rightarrow> int \<Rightarrow> list_state \<Rightarrow> unit list_result" where
  "select_row p newIndex st =
     and_then (ensureItemAtIndexIsVisible p newIndex (setState (SelectRow newIndex) st))
       (\<lambda>u st1. Ret () (if selectedRowIndex st \<noteq> newIndex
                         then log_call (SelectionChanged (selectedRowIndex st) newIndex (getItem p newIndex)) st1 else st1))"

definition handleKeyDown :: "list_props \<Rightarrow> key_press \<Rightarrow> list_state \<Rightarrow> unit list_result" where
  "handleKeyDown p key st =
     (case key of
        DownArrow \<Rightarrow> select_row p (row_below p (selectedRowIndex st)) st
      | UpArrow \<Rightarrow> select_row p (row_above (selectedRowIndex st)) st
      | Enter \<Rightarrow> Ret () (log_call (SelectionEntered (getItem p (selectedRowIndex st))) st)
      | OtherKey \<Rightarrow> Ret () st)"

section \<open>Nested lists, construction and events\<close>

definition registerAsNestedChild :: "string \<Rightarrow> string \<Rightarrow> list_state \<Rightarrow> list_state" where
  "registerAsNestedChild cellKey key st =
     (let ks = (case map_of (cellKeysToChildListKeys st) cellKey of None \<Rightarrow> [] | Some ks \<Rightarrow> ks)
      in st\<lparr>cellKeysToChildListKeys := AList.update cellKey (List.insert key ks) (cellKeysToChildListKeys st),
            nestedChildLists := AList.update key True (nestedChildLists st)\<rparr>)"

definition unregisterAsNestedChild :: "string \<Rightarrow> list_state \<Rightarrow> list_state" where
  "unregisterAsNestedChild key st = st\<lparr>nestedChildLists := AList.update key False (nestedChildLists st)\<rparr>"

definition new_VirtualizedList :: "list_props \<Rightarrow> js_exn + list_state" where
  "new_VirtualizedList p =
     (if \<not> windowSize p > 0 then Inl (InvariantViolation ''VirtualizedList: The windowSize prop must be present and set to a value greater than 0.'')
      else Inr
        \<lparr>window = \<lparr>first = int (initialScrollIndex p),
                   last = min (int (itemCount p)) (int (initialScrollIndex p) + int (initialNumToRender p)) - 1\<rparr>,
         selectedRowIndex = 0, updaters = [], frames = [], averageCellLength = 0, totalCellLength = 0, totalCellsMeasured = 0,
         highestMeasuredFrameIndex = 0, footerLength = 0, headerLength = 0, hasDoneInitialScroll = False, hasInteracted = False,
         hasMore = False, hiPriInProgress = False, indicesToKeys = [], cellKeysToChildListKeys = [], nestedChildLists = [],
         offsetFromParentVirtualizedList = 0,
         scrollMetrics = \<lparr>contentLength = 0, dOffset = 0, dt = 10, offset = 0, timestamp = 0, velocity = 0, visibleLength = 0\<rparr>,
         sentEndForContentLength = 0, calls = []\<rparr>)"

text \<open>The first rendering.\<close>

definition mount :: "list_props \<Rightarrow> js_exn + list_state" where
  "mount p = map_sum id (\<lambda>st. snd (snd (render p (getDerivedStateFromProps p st)))) (new_VirtualizedList p)"

datatype list_event =
    CellLayout layout string int
  | CellUnmount string
  | Layout layout
  | Measured layout real real
  | ContentSizeChange real real
  | Scroll scroll_event
  | ScrollBeginDrag
  | ScrollEndDrag "layout option"
  | MomentumScrollEnd
  | LayoutHeader layout
  | LayoutFooter layout
  | RunBatch
  | KeyDown key_press
  | RegisterChild string string
  | UnregisterChild string

fun list_step :: "list_props \<Rightarrow> list_state \<Rightarrow> list_event \<Rightarrow> unit list_result" where
  "list_step p st (CellLayout lay key i) = onCellLayout p lay key i st"
| "list_step p st (CellUnmount key) = Ret () (onCellUnmount key st)"
| "list_step p st (Layout lay) = onLayout p lay st"
| "list_step p st (Measured lay v off) = Ret () (measured_in_parent p lay v off st)"
| "list_step p st (ContentSizeChange w h) = onContentSizeChange p w h st"
| "list_step p st (Scroll e) = onScroll p e st"
| "list_step p st ScrollBeginDrag = Ret () (st\<lparr>hasInteracted := True\<rparr>)"
| "list_step p st (ScrollEndDrag v) =
     Ret () (case v of None \<Rightarrow> st | Some lay \<Rightarrow> set_metrics (\<lambda>m. m\<lparr>velocity := selectOffset p lay\<rparr>) st)"
| "list_step p st MomentumScrollEnd = Ret () (set_metrics (\<lambda>m. m\<lparr>velocity := 0\<rparr>) st)"
| "list_step p st (LayoutHeader lay) = Ret () (st\<lparr>headerLength := selectLength p lay\<rparr>)"
| "list_step p st (LayoutFooter lay) = Ret () (st\<lparr>footerLength := selectLength p lay\<rparr>)"
| "list_step p st RunBatch = Ret () (updateCellsToRender p st)"
| "list_step p st (KeyDown k) = handleKeyDown p k st"
| "list_step p st (RegisterChild cell key) = Ret () (registerAsNestedChild cell key st)"
| "list_step p st (UnregisterChild key) = Ret () (unregisterAsNestedChild key st)"

text \<open>A run: events under the properties of the last rendering, and renderings with new ones.\<close>

datatype list_action = Event list_event | Update list_props "string \<Rightarrow> bool"

fun list_run :: "list_props \<Rightarrow> list_action list \<Rightarrow> list_state \<Rightarrow> list_props list_result" where
  "list_run p [] st = Ret p st"
| "list_run p (Event e # as) st = and_then (list_step p st e) (\<lambda>u st1. list_run p as st1)"
| "list_run p (Update p' childHasMore # as) st = and_then (update_component p' childHasMore st) (\<lambda>u st1. list_run p' as st1)"

section \<open>The window stays in the data\<close>

definition props_ok :: "list_props \<Rightarrow> bool" where
  "props_ok p \<longleftrightarrow> 1 \<le> maxToRenderPerBatch p \<and> 1 \<le> windowSize p \<and> 1 \<le> initialNumToRender p \<and>
     (initialScrollIndex p = 0 \<or> initialScrollIndex p < itemCount p \<and> getItemLayout p \<noteq> None)"

definition window_ok :: "list_props \<Rightarrow> range \<Rightarrow> bool" where
  "window_ok p w \<longleftrightarrow> 0 \<le> first w \<and> (first w = 0 \<or> first w < int (itemCount p)) \<and> first w \<le> last w \<and> (last w = 0 \<or> last w < int (itemCount p))"

definition list_ok :: "list_props \<Rightarrow> list_state \<Rightarrow> bool" where
  "list_ok p st \<longleftrightarrow> window_ok p (window st) \<and> 0 \<le> visibleLength (scrollMetrics st)"

text \<open>Sizes that native reports are not negative; key presses are treated separately.\<close>

fun event_ok :: "list_props \<Rightarrow> list_event \<Rightarrow> bool" where
  "event_ok p (Layout lay) \<longleftrightarrow> 0 \<le> selectLength p lay"
| "event_ok p (Measured lay v off) \<longleftrightarrow> 0 \<le> v"
| "event_ok p (Scroll e) \<longleftrightarrow> 0 \<le> selectLength p (layoutMeasurement e)"
| "event_ok p (KeyDown k) \<longleftrightarrow> False"
| "event_ok p _ \<longleftrightarrow> True"

fun run_ok :: "list_props \<Rightarrow> list_action list \<Rightarrow> bool" where
  "run_ok p [] \<longleftrightarrow> True"
| "run_ok p (Event e # as) \<longleftrightarrow> event_ok p e \<and> run_ok p as"
| "run_ok p (Update p' childHasMore # as) \<longleftrightarrow> props_ok p' \<and> run_ok p' as"

lemma frame_in_range: "i < int (itemCount p) \<Longrightarrow> getFrameMetricsApprox p st i = Inr (frame_at p st i)"
  by (auto simp: frame_at_def getFrameMetricsApprox_def getFrameMetrics_def Let_def split: option.splits)

lemma with_frame_in_range: "i < int (itemCount p) \<Longrightarrow> with_frame p st i f = f (frame_at p st i)"
  by (simp add: with_frame_def frame_in_range)

lemma log_call_fields [simp]:
  "window (log_call c st) = window st" "scrollMetrics (log_call c st) = scrollMetrics st" "calls (log_call c st) = calls st @ [c]"
  "sentEndForContentLength (log_call c st) = sentEndForContentLength st"
  by (simp_all add: log_call_def)

lemma updateViewable_fields [simp]:
  "window (updateViewableItems p st) = window st" "scrollMetrics (updateViewableItems p st) = scrollMetrics st"
  "sentEndForContentLength (updateViewableItems p st) = sentEndForContentLength st"
  by (simp_all add: updateViewableItems_def)

lemma updateCells_fields [simp]:
  "window (updateCellsToRender p st) = window st" "scrollMetrics (updateCellsToRender p st) = scrollMetrics st"
  "sentEndForContentLength (updateCellsToRender p st) = sentEndForContentLength st"
  by (simp_all add: updateCellsToRender_def setState_def Let_def)

text \<open>Scheduling returns, and it either queues an update of the window or asks the batcher.\<close>

definition scheduled :: "list_props \<Rightarrow> list_state \<Rightarrow> list_state \<Rightarrow> bool" where
  "scheduled p st st' \<longleftrightarrow>
     st' = updateCellsToRender p (log_call BatcherDispose (st\<lparr>hiPriInProgress := True\<rparr>)) \<or> st' = log_call BatcherSchedule st"

lemma schedule_returns:
  assumes "window_ok p (window st)"
  obtains st' where "scheduleCellsToRenderUpdate p st = Ret () st'" "scheduled p st st'"
proof -
  have "\<exists>st'. scheduleCellsToRenderUpdate p st = Ret () st' \<and> scheduled p st st'"
    using assms by (auto simp: scheduleCellsToRenderUpdate_def Let_def window_ok_def with_frame_in_range scheduled_def)
  then show ?thesis using that by blast
qed

lemma scheduled_fields:
  "scheduled p st st' \<Longrightarrow> window st' = window st \<and> scrollMetrics st' = scrollMetrics st \<and> sentEndForContentLength st' = sentEndForContentLength st"
  by (auto simp: scheduled_def)

text \<open>
  The calls of \<open>onEndReached\<close> in a log: \<open>None\<close> if the same content length is reported twice without moving
  away from the end or reporting another one in between, else the last length that counts as reported.
\<close>

fun end_trace :: "real \<Rightarrow> list_call list \<Rightarrow> real option" where
  "end_trace s [] = Some s"
| "end_trace s (EndReached c d # l) = (if c = s then None else end_trace c l)"
| "end_trace s (AwayFromEnd # l) = end_trace 0 l"
| "end_trace s (c # l) = end_trace s l"

lemma end_trace_append: "end_trace s (l @ l') = (case end_trace s l of None \<Rightarrow> None | Some s' \<Rightarrow> end_trace s' l')"
  by (induction s l rule: end_trace.induct) simp_all

definition list_inv :: "list_props \<Rightarrow> list_state \<Rightarrow> bool" where
  "list_inv p st \<longleftrightarrow> list_ok p st \<and> end_trace 0 (calls st) = Some (sentEndForContentLength st)"

definition other_call :: "list_call \<Rightarrow> bool" where
  "other_call c \<longleftrightarrow> (\<forall>s l. end_trace s (c # l) = end_trace s l)"

lemma other_calls [simp]:
  "other_call (ScrollTo x)" "other_call (ScrollToIndexFailed i)" "other_call BatcherSchedule" "other_call BatcherDispose"
  "other_call (UpdateViewable n a b f l)" "other_call (SelectionChanged i j v)" "other_call (SelectionEntered v)" "other_call MeasureLayout"
  by (simp_all add: other_call_def)

lemma list_inv_log [simp]: "other_call c \<Longrightarrow> list_inv p (log_call c st) = list_inv p st"
  by (auto simp: list_inv_def list_ok_def end_trace_append other_call_def split: option.splits)

lemma list_inv_cong:
  "list_inv p st \<Longrightarrow> window st' = window st \<Longrightarrow> visibleLength (scrollMetrics st') = visibleLength (scrollMetrics st) \<Longrightarrow>
   calls st' = calls st \<Longrightarrow> sentEndForContentLength st' = sentEndForContentLength st \<Longrightarrow> list_inv p st'"
  by (simp add: list_inv_def list_ok_def)

lemma list_inv_viewable [simp]: "list_inv p (updateViewableItems q st) = list_inv p st"
  by (simp add: updateViewableItems_def)

lemma list_inv_updateCells: "list_inv p st \<Longrightarrow> list_inv p (updateCellsToRender q st)"
proof -
  assume "list_inv p st"
  then have "list_inv p (updateViewableItems q st)" by simp
  then show ?thesis by (auto simp: updateCellsToRender_def setState_def Let_def list_inv_def list_ok_def)
qed

lemma schedule_inv:
  assumes "list_inv p st"
  obtains st' where "scheduleCellsToRenderUpdate p st = Ret () st'" "list_inv p st'"
proof -
  obtain st' where s: "scheduleCellsToRenderUpdate p st = Ret () st'" "scheduled p st st'"
    by (rule schedule_returns [of p st]) (use assms in \<open>auto simp: list_inv_def list_ok_def\<close>)
  have h: "list_inv p (st\<lparr>hiPriInProgress := True\<rparr>)" by (rule list_inv_cong [OF assms]) simp_all
  have "list_inv p st'" using s(2) assms list_inv_updateCells [of p "log_call BatcherDispose (st\<lparr>hiPriInProgress := True\<rparr>)" p] h
    by (auto simp: scheduled_def)
  then show ?thesis using that s(1) by blast
qed

lemma maybeEnd_inv:
  assumes "list_inv p st" shows "list_inv p (maybeCallOnEndReached p st)"
proof -
  have "end_trace 0 (calls st) = Some (sentEndForContentLength st)" "list_ok p st" using assms by (simp_all add: list_inv_def)
  then show ?thesis by (auto simp: maybeCallOnEndReached_def Let_def list_inv_def list_ok_def end_trace_append)
qed

text \<open>Every event is handled without an exception and keeps the invariant.\<close>

lemma onCellLayout_inv:
  assumes "list_inv p st"
  shows "\<exists>st'. onCellLayout p lay key i st = Ret () st' \<and> list_inv p st'"
proof -
  let ?next = "\<lparr>frame_offset = selectOffset p lay, frame_length = selectLength p lay, fr_index = i, inLayout = True\<rparr>"
  let ?curr = "map_of (frames st) key"
  let ?change = "?curr = None \<or> (\<exists>c. ?curr = Some c \<and>
                (frame_offset ?next \<noteq> frame_offset c \<or> frame_length ?next \<noteq> frame_length c \<or> i \<noteq> fr_index c))"
  show ?thesis
  proof (cases ?change)
    case True
    let ?total = "totalCellLength st + (frame_length ?next - (case ?curr of None \<Rightarrow> 0 | Some c \<Rightarrow> frame_length c))"
    let ?n = "totalCellsMeasured st + (if ?curr = None then 1 else 0)"
    let ?st1 = "st\<lparr>totalCellLength := ?total, totalCellsMeasured := ?n, averageCellLength := ?total / real ?n,
        frames := AList.update key ?next (frames st), highestMeasuredFrameIndex := max (highestMeasuredFrameIndex st) i\<rparr>"
    have "list_inv p ?st1" by (rule list_inv_cong [OF assms]) simp_all
    then obtain st' where "scheduleCellsToRenderUpdate p ?st1 = Ret () st'" "list_inv p st'" by (rule schedule_inv)
    then show ?thesis unfolding onCellLayout_def Let_def if_P [OF True] by simp
  next
    case False
    have "list_inv p (st\<lparr>frames := AList.update key ((the ?curr)\<lparr>inLayout := True\<rparr>) (frames st)\<rparr>)" by (rule list_inv_cong [OF assms]) simp_all
    then show ?thesis unfolding onCellLayout_def Let_def if_not_P [OF False] by simp
  qed
qed

lemma list_inv_metrics: "list_inv p st \<Longrightarrow> 0 \<le> visibleLength (f (scrollMetrics st)) \<Longrightarrow> list_inv p (set_metrics f st)"
  by (simp add: list_inv_def list_ok_def set_metrics_def)

lemma schedule_then_end:
  assumes "list_inv p st"
  shows "\<exists>st'. and_then (scheduleCellsToRenderUpdate p st) (\<lambda>u st2. Ret () (maybeCallOnEndReached p st2)) = Ret () st' \<and> list_inv p st'"
  by (rule schedule_inv [OF assms]) (simp add: maybeEnd_inv)

lemma onContentSizeChange_inv:
  assumes inv: "list_inv p st" and p: "props_ok p"
  shows "\<exists>st'. onContentSizeChange p w h st = Ret () st' \<and> list_inv p st'"
proof -
  let ?m = "\<lambda>st1. set_metrics (\<lambda>m. m\<lparr>contentLength := selectLength p \<lparr>l_x = 0, l_y = 0, l_width = w, l_height = h\<rparr>\<rparr>) st1"
  have m: "list_inv p (?m st1)" if "list_inv p st1" for st1
    by (rule list_inv_metrics [OF that]) (use that in \<open>simp add: list_inv_def list_ok_def\<close>)
  show ?thesis
  proof (cases "w > 0 \<and> h > 0 \<and> initialScrollIndex p > 0 \<and> \<not> hasDoneInitialScroll st")
    case True
    then have i: "int (initialScrollIndex p) < int (itemCount p)" "getItemLayout p \<noteq> None" using p by (auto simp: props_ok_def)
    then obtain x where x: "scrollToIndex p (int (initialScrollIndex p)) 0 0 st = Ret () (log_call (ScrollTo x) st)"
      by (simp add: scrollToIndex_def with_frame_in_range)
    have "list_inv p (log_call (ScrollTo x) st)" using inv by simp
    then have "list_inv p ((log_call (ScrollTo x) st)\<lparr>hasDoneInitialScroll := True\<rparr>)" by (rule list_inv_cong) simp_all
    from schedule_then_end [OF m [OF this]] show ?thesis unfolding onContentSizeChange_def if_P [OF True] x by simp
  next
    case False
    show ?thesis using schedule_then_end [OF m [OF inv]] unfolding onContentSizeChange_def if_not_P [OF False] by simp
  qed
qed

lemma onScroll_inv:
  assumes inv: "list_inv p st" and e: "0 \<le> selectLength p (layoutMeasurement e)"
  shows "\<exists>st'. onScroll p e st = Ret () st' \<and> list_inv p st'"
proof (cases "nested p \<and> contentLength (scrollMetrics st) = 0")
  case True
  then show ?thesis using inv by (simp add: onScroll_def Let_def)
next
  case False
  define vals where "vals = (if nested p then convertParentScrollMetrics st (selectLength p (layoutMeasurement e)) (selectOffset p (contentOffset e))
      else (selectLength p (layoutMeasurement e), selectLength p (contentSize e), selectOffset p (contentOffset e),
        selectOffset p (contentOffset e) - offset (scrollMetrics st)))"
  obtain vis len off d where v: "vals = (vis, len, off, d)" by (cases vals)
  have vis: "0 \<le> vis" using v e by (auto simp: vals_def convertParentScrollMetrics_def Let_def split: if_splits)
  define dt' where "dt' = (if timestamp (scrollMetrics st) \<noteq> 0 then max 1 (timeStamp e - timestamp (scrollMetrics st)) else 1)"
  let ?m = "\<lparr>contentLength = len, dOffset = d, dt = dt', offset = off, timestamp = timeStamp e, velocity = d / dt', visibleLength = vis\<rparr>"
  have "list_inv p (st\<lparr>scrollMetrics := ?m\<rparr>)" using list_inv_metrics [OF inv, of "\<lambda>_. ?m"] vis by (simp add: set_metrics_def)
  then have "list_inv p (maybeCallOnEndReached p (updateViewableItems p (st\<lparr>scrollMetrics := ?m\<rparr>)))" by (intro maybeEnd_inv) simp
  then obtain st' where "scheduleCellsToRenderUpdate p (maybeCallOnEndReached p (updateViewableItems p (st\<lparr>scrollMetrics := ?m\<rparr>))) = Ret () st'"
    "list_inv p st'" by (rule schedule_inv)
  moreover have "onScroll p e st = scheduleCellsToRenderUpdate p (maybeCallOnEndReached p (updateViewableItems p (st\<lparr>scrollMetrics := ?m\<rparr>)))"
    unfolding onScroll_def Let_def if_not_P [OF False] vals_def [symmetric] v dt'_def [symmetric] by simp
  ultimately show ?thesis by auto
qed

lemma list_step_inv:
  assumes inv: "list_inv p st" and p: "props_ok p" and e: "event_ok p e"
  shows "\<exists>st'. list_step p st e = Ret () st' \<and> list_inv p st'"
proof (cases e)
  case (Layout lay)
  have "list_inv p (set_metrics (\<lambda>m. m\<lparr>visibleLength := selectLength p lay\<rparr>) st)" using list_inv_metrics [OF inv] e Layout by simp
  then show ?thesis using Layout schedule_then_end inv by (simp add: onLayout_def Let_def)
next
  case (Measured lay v off)
  let ?st = "st\<lparr>offsetFromParentVirtualizedList := selectOffset p lay\<rparr>"
  have "list_inv p ?st" by (rule list_inv_cong [OF inv]) simp_all
  then show ?thesis using Measured e
    by (auto simp: measured_in_parent_def Let_def convertParentScrollMetrics_def set_metrics_def list_inv_def list_ok_def)
next
  case (CellLayout lay key i)
  then show ?thesis using onCellLayout_inv [OF inv] by simp
next
  case (ContentSizeChange w h)
  then show ?thesis using onContentSizeChange_inv [OF inv p] by simp
next
  case (Scroll ev)
  then show ?thesis using onScroll_inv [OF inv] e by simp
next
  case RunBatch
  then show ?thesis using list_inv_updateCells [OF inv] by simp
qed (use inv e in \<open>auto simp: onCellUnmount_def registerAsNestedChild_def unregisterAsNestedChild_def Let_def set_metrics_def
    list_inv_def list_ok_def split: option.splits\<close>)

text \<open>A rendering with any properties that are in order leaves the window in the data of the new ones.\<close>

lemma derived_window:
  "1 \<le> maxToRenderPerBatch p \<Longrightarrow> first (window st) \<le> max 0 (last (window st)) \<Longrightarrow> window_ok p (window (getDerivedStateFromProps p st))"
  by (auto simp: getDerivedStateFromProps_def window_ok_def)

definition keys_only :: "list_state \<Rightarrow> list_state \<Rightarrow> bool" where
  "keys_only st st' \<longleftrightarrow> (\<exists>ks. st' = st\<lparr>indicesToKeys := ks\<rparr>)"

lemma keys_only_step: "keys_only st (snd (snd r)) \<Longrightarrow> keys_only st (snd (snd (push_cell p i r)))"
  by (cases r) (auto simp: keys_only_def push_cell_def)

lemma keys_only_ops:
  "keys_only st st"
  "keys_only st (snd (snd r)) \<Longrightarrow> keys_only st (snd (snd (push c r)))"
  "keys_only st (snd (snd r)) \<Longrightarrow> keys_only st (snd (snd (pushCells p f l r)))"
proof -
  show "keys_only st st" by (auto simp: keys_only_def intro: exI [of _ "indicesToKeys st"])
  show "keys_only st (snd (snd r)) \<Longrightarrow> keys_only st (snd (snd (push c r)))" by (cases r) (simp add: push_def)
  have "keys_only st (snd (snd r)) \<Longrightarrow> keys_only st (snd (snd (fold (push_cell p) is' r)))" for is'
    by (induction is' arbitrary: r) (simp_all add: keys_only_step)
  then show "keys_only st (snd (snd r)) \<Longrightarrow> keys_only st (snd (snd (pushCells p f l r)))" by (simp add: pushCells_def)
qed

lemma render_items_keys: "keys_only st (snd (snd r)) \<Longrightarrow> keys_only st (snd (snd (render_items p st1 r)))"
  by (simp add: render_items_def render_lead_def render_tail_def Let_def keys_only_ops(2,3) split: option.split)

lemma render_state:
  obtains ks h where "snd (snd (render p st)) = st\<lparr>indicesToKeys := ks, hasMore := h\<rparr>"
proof -
  define r0 :: rendering where "r0 = (if listHeader p then ([HeaderCell], if 0 \<in> set (stickyHeaderIndices p) then [0] else [], st) else ([], [], st))"
  define r1 where "r1 = (if itemCount p > 0 then render_items p st r0 else if listEmpty p then push EmptyCell r0 else r0)"
  define r2 where "r2 = (if listFooter p then push FooterCell r1 else r1)"
  have "keys_only st (snd (snd r0))" by (simp add: keys_only_ops(1) r0_def)
  then have "keys_only st (snd (snd r1))" by (auto simp: r1_def intro: render_items_keys keys_only_ops(2))
  then have "keys_only st (snd (snd r2))" by (auto simp: r2_def keys_only_ops(2))
  then obtain ks where ks: "snd (snd r2) = st\<lparr>indicesToKeys := ks\<rparr>" by (auto simp: keys_only_def)
  have "render p st = (case r2 of (cells, sticky, st1) \<Rightarrow> (cells, sticky, st1\<lparr>hasMore := last (window st) < int (itemCount p) - 1\<rparr>))"
    unfolding render_def Let_def r0_def [symmetric] r1_def [symmetric] r2_def [symmetric] ..
  then show ?thesis using that ks by (cases r2) auto
qed

lemma new_window_ok:
  assumes "1 \<le> maxToRenderPerBatch p" and "1 \<le> windowSize p" and "0 \<le> visibleLength (scrollMetrics st)"
    and "first (window st) \<le> max 0 (last (window st))"
  shows "\<exists>r. new_window p st = Inr r \<and> (\<forall>w. r = Some w \<longrightarrow> first w \<le> max 0 (last w))"
proof (cases "itemCount p = 0")
  case True
  then show ?thesis using assms(4) by (simp add: new_window_def Let_def computeWindowedRenderLimits_def window_props.defs)
next
  case False
  then show ?thesis using assms
      windowed_limits_in_range [of "window_props.truncate p" "\<lparr>sm_offset = offset (scrollMetrics st), sm_velocity = velocity (scrollMetrics st),
        sm_visibleLength = visibleLength (scrollMetrics st)\<rparr>" "window st" "\<lambda>i. frame_at p st (int i)"]
    by (auto simp: new_window_def Let_def window_props.defs)
qed

lemma limit_ok: "first w \<le> max 0 (last w) \<Longrightarrow> first (limit_to_child_lists st hm w) \<le> max 0 (last (limit_to_child_lists st hm w))"
  by (auto simp: limit_to_child_lists_def find_Some_iff split: option.split)

lemma run_updaters_ok:
  assumes "1 \<le> maxToRenderPerBatch p" and "1 \<le> windowSize p" and "0 \<le> visibleLength (scrollMetrics st)"
    and "first (window st) \<le> max 0 (last (window st))"
  shows "\<exists>st'. run_updaters p hm us st = Inr st' \<and> scrollMetrics st' = scrollMetrics st \<and> calls st' = calls st \<and>
    sentEndForContentLength st' = sentEndForContentLength st \<and> first (window st') \<le> max 0 (last (window st'))"
  using assms(3,4)
proof (induction us arbitrary: st)
  case (Cons u us)
  obtain r where r: "new_window p st = Inr r" "\<forall>w. r = Some w \<longrightarrow> first w \<le> max 0 (last w)"
    using new_window_ok [OF assms(1,2) Cons.prems] by blast
  obtain st1 where st1: "run_updater p hm u st = Inr st1" "scrollMetrics st1 = scrollMetrics st" "calls st1 = calls st"
    "sentEndForContentLength st1 = sentEndForContentLength st" "first (window st1) \<le> max 0 (last (window st1))"
  proof (cases u)
    case UpdateCells
    show ?thesis using that UpdateCells r limit_ok Cons.prems(2) by (cases r) (simp_all add: run_updater_def)
  qed (use that Cons.prems(2) in \<open>simp add: run_updater_def\<close>)
  then show ?case using Cons.IH [of st1] Cons.prems by simp
qed simp

lemma update_component_inv:
  assumes p: "props_ok p" and v: "0 \<le> visibleLength (scrollMetrics st)" and t: "end_trace 0 (calls st) = Some (sentEndForContentLength st)"
    and w: "first (window st) \<le> max 0 (last (window st))"
  shows "\<exists>st'. update_component p childHasMore st = Ret () st' \<and> list_inv p st'"
proof -
  obtain st1 where st1: "run_updaters p childHasMore (updaters st) (st\<lparr>updaters := []\<rparr>) = Inr st1"
    "scrollMetrics st1 = scrollMetrics st" "calls st1 = calls st" "sentEndForContentLength st1 = sentEndForContentLength st"
    "first (window st1) \<le> max 0 (last (window st1))"
    using run_updaters_ok [of p "st\<lparr>updaters := []\<rparr>" childHasMore "updaters st"] p v w by (auto simp: props_ok_def)
  let ?d = "getDerivedStateFromProps p st1"
  obtain ks h where r: "snd (snd (render p ?d)) = ?d\<lparr>indicesToKeys := ks, hasMore := h\<rparr>" by (rule render_state)
  have "list_inv p (?d\<lparr>indicesToKeys := ks, hasMore := h\<rparr>)"
    using derived_window [of p st1] p v t st1 by (simp add: list_inv_def list_ok_def props_ok_def getDerivedStateFromProps_def)
  then obtain st2 where st2: "scheduleCellsToRenderUpdate p (?d\<lparr>indicesToKeys := ks, hasMore := h\<rparr>) = Ret () st2" "list_inv p st2" by (rule schedule_inv)
  have "list_inv p (st2\<lparr>hiPriInProgress := False\<rparr>)" by (rule list_inv_cong [OF st2(2)]) simp_all
  then show ?thesis using st1(1) st2 by (simp add: update_component_def r componentDidUpdate_def)
qed

lemma list_run_inv:
  "list_inv p st \<Longrightarrow> props_ok p \<Longrightarrow> run_ok p as \<Longrightarrow> \<exists>p' st'. list_run p as st = Ret p' st' \<and> list_inv p' st'"
proof (induction p as st rule: list_run.induct)
  case (2 p e as st)
  then show ?case using list_step_inv [of p st e] by auto
next
  case (3 p p' hm as st)
  then have "props_ok p'" "run_ok p' as" "0 \<le> visibleLength (scrollMetrics st)" "end_trace 0 (calls st) = Some (sentEndForContentLength st)"
    "first (window st) \<le> max 0 (last (window st))" by (auto simp: list_inv_def list_ok_def window_ok_def)
  then show ?case using update_component_inv [of p' st hm] "3.IH" by auto
qed auto

lemma mount_inv: "props_ok p \<Longrightarrow> mount p = Inr st \<Longrightarrow> list_inv p st"
proof -
  assume p: "props_ok p" and m: "mount p = Inr st"
  obtain st0 where st0: "new_VirtualizedList p = Inr st0" "st = snd (snd (render p (getDerivedStateFromProps p st0)))"
    using m by (cases "new_VirtualizedList p") (auto simp: mount_def)
  obtain ks h where "st = (getDerivedStateFromProps p st0)\<lparr>indicesToKeys := ks, hasMore := h\<rparr>" using st0(2) render_state by metis
  then show ?thesis using st0(1) derived_window [of p st0] p
    by (auto simp: list_inv_def list_ok_def props_ok_def new_VirtualizedList_def getDerivedStateFromProps_def split: if_splits)
qed


text \<open>
  C19: the end of the list is reported once.  In every run, \<open>onEndReached\<close> is called twice for the same
  content length only if in between another length was reported or the list was away from its end.
\<close>

theorem end_reported_once:
  assumes "props_ok p" and "mount p = Inr st" and "run_ok p as" and "list_run p as st = Ret p' st'"
  shows "end_trace 0 (calls st') \<noteq> None"
  using list_run_inv [OF mount_inv [OF assms(1,2)] assms(1,3)] assms(4) by (auto simp: list_inv_def)

section \<open>Where the cells are\<close>

text \<open>
  The offsets of the item cells, when every item cell has the length of its frame and the first one after a
  header starts at \<open>x\<close>; and where the last cell or spacer ends.
\<close>

fun cell_length :: "list_props \<Rightarrow> list_state \<Rightarrow> list_cell \<Rightarrow> real" where
  "cell_length p st (ItemCell i) = frame_length (frame_at p st i)"
| "cell_length p st (Spacer l) = l"
| "cell_length p st _ = 0"

fun item_offsets :: "list_props \<Rightarrow> list_state \<Rightarrow> real \<Rightarrow> list_cell list \<Rightarrow> (int \<times> real) list" where
  "item_offsets p st x [] = []"
| "item_offsets p st x (ItemCell i # cs) = (i, x) # item_offsets p st (x + cell_length p st (ItemCell i)) cs"
| "item_offsets p st x (c # cs) = item_offsets p st (x + cell_length p st c) cs"

definition end_offset :: "list_props \<Rightarrow> list_state \<Rightarrow> real \<Rightarrow> list_cell list \<Rightarrow> real" where
  "end_offset p st x cs = x + sum_list (map (cell_length p st) cs)"

lemma item_offsets_append:
  "item_offsets p st x (cs @ cs') = item_offsets p st x cs @ item_offsets p st (end_offset p st x cs) cs'"
  by (induction p st x cs rule: item_offsets.induct) (simp_all add: end_offset_def add.assoc)

lemma end_offset_append: "end_offset p st x (cs @ cs') = end_offset p st (end_offset p st x cs) cs'"
  by (simp add: end_offset_def)

text \<open>Frames follow one another without gaps.\<close>

definition contiguous :: "list_props \<Rightarrow> list_state \<Rightarrow> bool" where
  "contiguous p st \<longleftrightarrow> (\<forall>i. 0 \<le> i \<and> i + 1 < int (itemCount p) \<longrightarrow>
     frame_offset (frame_at p st (i + 1)) = frame_offset (frame_at p st i) + frame_length (frame_at p st i))"

definition frame_end :: "list_props \<Rightarrow> list_state \<Rightarrow> int \<Rightarrow> real" where
  "frame_end p st i = frame_offset (frame_at p st i) + frame_length (frame_at p st i)"

text \<open>A rendering is in place up to an index: its items are at their offsets, and it ends with that item.\<close>

definition in_place :: "list_props \<Rightarrow> list_state \<Rightarrow> rendering \<Rightarrow> real \<Rightarrow> bool" where
  "in_place p st r e \<longleftrightarrow>
     (\<forall>(i, x) \<in> set (item_offsets p st (frame_offset (frame_at p st 0)) (fst r)). x = frame_offset (frame_at p st i)) \<and>
     end_offset p st (frame_offset (frame_at p st 0)) (fst r) = e"

lemma in_place_push: "in_place p st r e \<Longrightarrow> in_place p st (push (Spacer l) r) (e + l)"
  by (cases r) (auto simp: in_place_def push_def item_offsets_append end_offset_append end_offset_def)

lemma in_place_cell: "in_place p st r (frame_offset (frame_at p st i)) \<Longrightarrow> in_place p st (push_cell p i r) (frame_end p st i)"
  by (cases r) (auto simp: in_place_def push_cell_def item_offsets_append end_offset_append frame_end_def end_offset_def)

lemma in_place_cells:
  assumes "contiguous p st" and "0 \<le> f" and "f \<le> l" and "l < int (itemCount p)" and "in_place p st r (frame_offset (frame_at p st f))"
  shows "in_place p st (fold (push_cell p) [f..l] r) (frame_end p st l)"
  using assms(2-5)
proof (induction "nat (l - f)" arbitrary: f r)
  case 0
  then have "l = f" by simp
  then show ?case using in_place_cell 0 by simp
next
  case (Suc n)
  then have lt: "f < l" by simp
  have "frame_end p st f = frame_offset (frame_at p st (f + 1))" using assms(1) Suc.prems lt by (simp add: contiguous_def frame_end_def)
  then have "in_place p st (push_cell p f r) (frame_offset (frame_at p st (f + 1)))" using in_place_cell [OF Suc.prems(4)] by simp
  then have "in_place p st (fold (push_cell p) [f + 1..l] (push_cell p f r)) (frame_end p st l)"
    using Suc.hyps(1) [of "f + 1" "push_cell p f r"] Suc.hyps(2) Suc.prems lt by simp
  then show ?case using lt by (simp add: upto_rec1)
qed

lemma in_place_pushCells:
  assumes "contiguous p st" and "0 \<le> f" and "f \<le> l" and "f < int (itemCount p)" and "in_place p st r (frame_offset (frame_at p st f))"
  shows "in_place p st (pushCells p f l r) (frame_end p st (min (int (itemCount p) - 1) l))"
  unfolding pushCells_def by (rule in_place_cells) (use assms in auto)

lemma render_lead_place:
  assumes c: "contiguous p st" and s: "initialScrollIndex p = 0" and li: "0 \<le> lastInitialIndex p"
    and f: "lastInitialIndex p + 1 < first (window st)" "first (window st) < int (itemCount p)"
    and r: "in_place p st r (frame_end p st (lastInitialIndex p))"
  shows "in_place p st (render_lead p st r) (frame_offset (frame_at p st (first (window st))))"
proof -
  let ?f = "first (window st)" and ?li = "lastInitialIndex p"
  let ?find = "find (\<lambda>i. i + stickyOffset p \<in> set (stickyHeaderIndices p)) (rev [?li + 1..max (?li + 1) ?f - 1])"
  show ?thesis
  proof (cases ?find)
    case None
    then show ?thesis using in_place_push [OF r, of "frame_offset (frame_at p st ?f) - frame_end p st ?li"]
      by (simp add: render_lead_def Let_def frame_end_def)
  next
    case (Some i)
    then have "i \<in> set (rev [?li + 1..max (?li + 1) ?f - 1])" by (metis find_Some_iff nth_mem)
    then have i: "?li < i" "i < ?f" using f(1) by auto
    let ?lead = "frame_offset (frame_at p st i) - frame_offset (frame_at p st ?li) - frame_length (frame_at p st ?li)"
    let ?trail = "frame_offset (frame_at p st ?f) - frame_end p st i"
    have "in_place p st (push (Spacer ?lead) r) (frame_offset (frame_at p st i))"
      using in_place_push [OF r, of ?lead] by (simp add: frame_end_def)
    then have "in_place p st (pushCells p i i (push (Spacer ?lead) r)) (frame_end p st i)"
      using in_place_pushCells [OF c, of i i "push (Spacer ?lead) r"] i li f(2) by (simp add: min_def)
    then have "in_place p st (push (Spacer ?trail) (pushCells p i i (push (Spacer ?lead) r))) (frame_offset (frame_at p st ?f))"
      using in_place_push [of p st "pushCells p i i (push (Spacer ?lead) r)" "frame_end p st i" ?trail] by simp
    then show ?thesis using Some s by (simp add: render_lead_def Let_def frame_end_def)
  qed
qed

definition tail_index :: "list_props \<Rightarrow> list_state \<Rightarrow> int" where
  "tail_index p st =
     (if getItemLayout p \<noteq> None \<or> last (window st) = int (itemCount p) - 1 then int (itemCount p) - 1
      else min (int (itemCount p) - 1) (highestMeasuredFrameIndex st))"

lemma render_items_place:
  assumes c: "contiguous p st" and s: "initialScrollIndex p = 0" "1 \<le> initialNumToRender p" "\<not> disableVirtualization p" "0 < itemCount p"
    and w: "window_ok p (window st)" and li: "min (int (itemCount p) - 1) (lastInitialIndex p) \<le> last (window st)"
    and r: "in_place p st r (frame_offset (frame_at p st 0))"
  shows "in_place p st (render_items p st r) (frame_end p st (tail_index p st))"
proof -
  let ?n = "int (itemCount p)" and ?li = "lastInitialIndex p" and ?f = "first (window st)" and ?l = "last (window st)"
  have li0: "0 \<le> ?li" using s(1,2) by (simp add: lastInitialIndex_def)
  have w': "0 \<le> ?f" "?f \<le> ?l" "?l < ?n" using w s(4) by (auto simp: window_ok_def)
  have ml: "min (?n - 1) ?l = ?l" using w'(3) by simp
  have r1: "in_place p st (pushCells p 0 ?li r) (frame_end p st (min (?n - 1) ?li))"
    using in_place_pushCells [OF c _ li0 _ r] s(4) by simp
  define r2 where "r2 = (if \<not> disableVirtualization p \<and> ?f > ?li + 1 then render_lead p st (pushCells p 0 ?li r) else pushCells p 0 ?li r)"
  have r3: "in_place p st (pushCells p (max (?li + 1) ?f) ?l r2) (frame_end p st ?l)"
  proof (cases "?f > ?li + 1")
    case True
    then have "in_place p st r2 (frame_offset (frame_at p st ?f))"
      using render_lead_place [OF c s(1) li0 True] r1 w' s(3) by (simp add: r2_def min_def)
    then show ?thesis using in_place_pushCells [OF c w'(1,2), of r2] w' True by (simp add: max_def ml)
  next
    case False
    then have r2: "in_place p st r2 (frame_end p st (min (?n - 1) ?li))" using r1 by (simp add: r2_def)
    show ?thesis
    proof (cases "?li < ?l")
      case True
      then have "frame_end p st ?li = frame_offset (frame_at p st (?li + 1))" using c li0 w' by (simp add: contiguous_def frame_end_def)
      then have "in_place p st r2 (frame_offset (frame_at p st (?li + 1)))" using r2 True w' by (simp add: min_def)
      then show ?thesis using in_place_pushCells [OF c, of "?li + 1" ?l r2] True w' li0 False by (simp add: max_def ml)
    next
      case nlt: False
      then have "min (?n - 1) ?li = ?l" using li w' by auto
      moreover have "pushCells p (max (?li + 1) ?f) ?l r2 = r2" using nlt by (simp add: pushCells_def)
      ultimately show ?thesis using r2 by simp
    qed
  qed
  have "render_items p st r = (if ?l < ?n - 1 then render_tail p st (pushCells p (max (?li + 1) ?f) ?l r2) else pushCells p (max (?li + 1) ?f) ?l r2)"
    using s(3) by (simp add: render_items_def Let_def r2_def)
  moreover have "in_place p st (render_tail p st (pushCells p (max (?li + 1) ?f) ?l r2)) (frame_end p st (tail_index p st))" if "?l < ?n - 1"
    using in_place_push [OF r3, of "frame_end p st (tail_index p st) - frame_end p st ?l"] that
    by (simp add: render_tail_def Let_def tail_index_def frame_end_def)
  moreover have "tail_index p st = ?l" if "\<not> ?l < ?n - 1" using that w' by (simp add: tail_index_def)
  ultimately show ?thesis using r3 by auto
qed

lemma pushCells_set: "i \<in> {f..min (int (itemCount p) - 1) l} \<or> ItemCell i \<in> set (fst r) \<Longrightarrow> ItemCell i \<in> set (fst (pushCells p f l r))"
proof -
  have "i \<in> set is' \<or> ItemCell i \<in> set (fst r) \<Longrightarrow> ItemCell i \<in> set (fst (fold (push_cell p) is' r))" for is'
    by (induction is' arbitrary: r) (auto simp: push_cell_def split: prod.splits)
  then show "i \<in> {f..min (int (itemCount p) - 1) l} \<or> ItemCell i \<in> set (fst r) \<Longrightarrow> ItemCell i \<in> set (fst (pushCells p f l r))"
    by (simp add: pushCells_def)
qed

lemma push_set: "ItemCell i \<in> set (fst r) \<Longrightarrow> ItemCell i \<in> set (fst (push c r))"
  by (cases r) (simp add: push_def)

lemma render_items_cover:
  assumes "window_ok p (window st)" and "first (window st) \<le> i" and "i \<le> last (window st)" and "0 < itemCount p"
  shows "ItemCell i \<in> set (fst (render_items p st r))"
proof -
  let ?li = "lastInitialIndex p" and ?r1 = "pushCells p 0 (lastInitialIndex p) r"
  have i: "0 \<le> i" "i < int (itemCount p)" using assms by (auto simp: window_ok_def)
  have lead: "ItemCell i \<in> set (fst (render_lead p st q))" if "ItemCell i \<in> set (fst q)" for q
    using that by (auto simp: render_lead_def Let_def intro!: push_set pushCells_set split: option.split)
  define r2 where "r2 = (if \<not> disableVirtualization p \<and> first (window st) > ?li + 1 then render_lead p st ?r1 else ?r1)"
  have "ItemCell i \<in> set (fst (pushCells p (max (?li + 1) (first (window st))) (last (window st)) r2))"
  proof (cases "i \<le> ?li")
    case True
    then have "ItemCell i \<in> set (fst ?r1)" using i by (intro pushCells_set) auto
    then show ?thesis using lead by (intro pushCells_set) (simp add: r2_def)
  next
    case False
    then show ?thesis using assms(2,3) i by (intro pushCells_set) auto
  qed
  then show ?thesis by (auto simp: render_items_def Let_def r2_def render_tail_def intro!: push_set)
qed


section \<open>Examples\<close>

definition ex_list :: list_props where
  "ex_list = \<lparr>itemCount = 100, maxToRenderPerBatch = 10, windowSize = 21, hasData = True,
     getItem = (\<lambda>i. if 0 \<le> i \<and> i < 100 then Some (nat i) else None), keyExtractor = (\<lambda>x i. replicate (nat i) CHR ''k''),
     getItemLayout = Some (\<lambda>i. \<lparr>frame_offset = 20 * of_int i, frame_length = 20\<rparr>), horizontal = False, initialScrollIndex = 0,
     initialNumToRender = 10, onEndReached = True, onEndReachedThreshold = 2, disableVirtualization = False, stickyHeaderIndices = [],
     listHeader = False, listFooter = False, listEmpty = False, onScrollToIndexFailed = False, nested = False\<rparr>"

definition ex_layout :: "real \<Rightarrow> real \<Rightarrow> layout" where
  "ex_layout y h = \<lparr>l_x = 0, l_y = y, l_width = 320, l_height = h\<rparr>"

definition ex_actions :: "list_action list" where
  "ex_actions = [Event (Layout (ex_layout 0 200)), Event (ContentSizeChange 320 2000),
     Event (Scroll \<lparr>timeStamp = 16, layoutMeasurement = ex_layout 0 200, contentSize = ex_layout 0 2000, contentOffset = ex_layout 900 0\<rparr>),
     Event RunBatch, Update (ex_list\<lparr>itemCount := 3\<rparr>) (\<lambda>k. False), Update (ex_list\<lparr>itemCount := 0\<rparr>) (\<lambda>k. False)]"

lemma ex_list_ok: "props_ok ex_list" "run_ok ex_list ex_actions"
  by (simp_all add: props_ok_def ex_list_def ex_actions_def selectLength_def ex_layout_def)

lemma ex_mount: "\<exists>st. mount ex_list = Inr st"
  by (simp add: mount_def new_VirtualizedList_def ex_list_def)


theorem end_reported_once_witness:
  "\<exists>st p' st'. mount ex_list = Inr st \<and> list_run ex_list ex_actions st = Ret p' st' \<and> end_trace 0 (calls st') \<noteq> None"
proof -
  obtain st where m: "mount ex_list = Inr st" using ex_mount by blast
  obtain p' st' where r: "list_run ex_list ex_actions st = Ret p' st'"
    using list_run_inv [OF mount_inv [OF ex_list_ok(1) m] ex_list_ok] by blast
  show ?thesis using m r end_reported_once [OF ex_list_ok(1) m ex_list_ok(2) r] by blast
qed

definition ex_scrolled :: list_state where
  "ex_scrolled = (case new_VirtualizedList ex_list of Inl e \<Rightarrow> undefined | Inr st \<Rightarrow> st\<lparr>window := \<lparr>first = 30, last = 49\<rparr>\<rparr>)"

lemma ex_frame: "frames st = [] \<Longrightarrow> i < 100 \<Longrightarrow> frame_at ex_list st i = \<lparr>frame_offset = 20 * of_int i, frame_length = 20\<rparr>"
  by (simp add: frame_at_def getFrameMetricsApprox_def getFrameMetrics_def measured_frame_def Let_def ex_list_def split: option.split)

lemma ex_scrolled_simps: "frames ex_scrolled = []" "window ex_scrolled = \<lparr>first = 30, last = 49\<rparr>"
  by (simp_all add: ex_scrolled_def new_VirtualizedList_def ex_list_def)


section \<open>Where the code goes wrong\<close>

text \<open>
  The selected row is limited to the number of items instead of the last item: after the list has become
  shorter, or when it is empty, an arrow key asks for a frame out of range and throws.
\<close>

lemma selection_beyond_the_end:
  "int (itemCount p) \<le> selectedRowIndex st \<Longrightarrow> selectedRowIndex (getDerivedStateFromProps p st) = int (itemCount p)"
  by (simp add: getDerivedStateFromProps_def)

lemma arrow_key_throws:
  assumes "selectedRowIndex st = int (itemCount p)"
  shows "\<exists>e st'. handleKeyDown p DownArrow st = Throw e st'"
  using assms by (simp add: handleKeyDown_def select_row_def row_below_def ensureItemAtIndexIsVisible_def with_frame_def
      getFrameMetricsApprox_def getFrameMetrics_def)

text \<open>An item that is more than its own length above the visible part stays out of sight.\<close>

lemma item_above_stays_hidden:
  assumes "i < int (itemCount p)" and "frame_at p st i = \<lparr>frame_offset = 0, frame_length = 20\<rparr>"
    and "offset (scrollMetrics st) = 100" and "visibleLength (scrollMetrics st) = 50"
  shows "ensureItemAtIndexIsVisible p i st = Ret () (log_call (ScrollTo 80) st)"
  using assms by (simp add: ensureItemAtIndexIsVisible_def with_frame_in_range Let_def scrollToOffset_def)

text \<open>
  The tail spacer is measured from the last cell of the window even when the initial cells reach further:
  the content is then too long by the cells in between.
\<close>

lemma tail_spacer_too_long:
  assumes c: "contiguous p st" and s: "initialScrollIndex p = 0" "\<not> disableVirtualization p" "0 < itemCount p"
    and w: "window_ok p (window st)" and li: "last (window st) < min (int (itemCount p) - 1) (lastInitialIndex p)"
    and r: "in_place p st r (frame_offset (frame_at p st 0))"
  shows "in_place p st (render_items p st r)
    (frame_end p st (tail_index p st) + (frame_end p st (min (int (itemCount p) - 1) (lastInitialIndex p)) - frame_end p st (last (window st))))"
proof -
  let ?n = "int (itemCount p)" and ?li = "lastInitialIndex p" and ?l = "last (window st)"
  have w': "0 \<le> first (window st)" "first (window st) \<le> ?l" using w by (auto simp: window_ok_def)
  have r1: "in_place p st (pushCells p 0 ?li r) (frame_end p st (min (?n - 1) ?li))"
    using in_place_pushCells [OF c _ _ _ r, of ?li] s(3) li w' by simp
  have "pushCells p (max (?li + 1) (first (window st))) ?l (pushCells p 0 ?li r) = pushCells p 0 ?li r"
  proof -
    have "min (?n - 1) ?l < max (?li + 1) (first (window st))" using li by auto
    then show ?thesis by (simp only: pushCells_def upto_empty fold_simps id_apply)
  qed
  then have "render_items p st r = render_tail p st (pushCells p 0 ?li r)"
    using li w' s(2) by (simp add: render_items_def Let_def)
  then show ?thesis
    using in_place_push [OF r1, of "frame_end p st (tail_index p st) - frame_end p st ?l"] li
    by (simp add: render_tail_def Let_def tail_index_def frame_end_def algebra_simps)
qed

text \<open>With an initial index, the space before a sticky header is too long by one item.\<close>

lemma sticky_header_misplaced:
  assumes "p = ex_list\<lparr>initialScrollIndex := 3, stickyHeaderIndices := [1]\<rparr>" and "window st = \<lparr>first = 3, last = 5\<rparr>" and "frames st = []"
  shows "fst (render_lead p st ([], [], st)) = [Spacer 40, ItemCell 1, Spacer 20] \<and> frame_offset (frame_at p st 1) = 20"
proof -
  have f: "frame_at p st i = \<lparr>frame_offset = 20 * of_int i, frame_length = 20\<rparr>" if "i < 100" for i
    using that assms by (simp add: frame_at_def getFrameMetricsApprox_def getFrameMetrics_def measured_frame_def Let_def ex_list_def split: option.split)
  have "[0..2] = [0, 1, 2 :: int]" by (simp add: upto_rec1)
  then show ?thesis using f assms
    by (simp add: render_lead_def Let_def lastInitialIndex_def stickyOffset_def push_def pushCells_def push_cell_def ex_list_def)
qed

end
