(* ===== verification/SectionList.thy ===== *)
theory SectionList
  imports Prelude Complex_Main
begin

text \<open>
  \<open>Libraries/Lists/VirtualizedSectionList.js\<close>: how a list of sections is flattened into one virtualized list,
  with a header and a footer around the items of every section, and how rows are selected by keys.

  The data of a section is an array, as \<open>SectionList\<close> passes it.  A read out of range is \<open>None\<close>.
  Selections, scrolls and calls of the user are logged.
\<close>

section \<open>Sections\<close>

record section_data =
  s_key :: "string option"
  s_data :: "nat list"
  s_keyExtractor :: "(nat option \<Rightarrow> nat \<Rightarrow> string) option"
  s_separator :: bool

record section_props =
  sections :: "section_data list"
  p_keyExtractor :: "nat option \<Rightarrow> nat \<Rightarrow> string"
  p_listHeader :: bool
  stickySectionHeadersEnabled :: bool
  itemSeparator :: bool
  sectionSeparator :: bool
  onSelectionChanged :: bool
  onSelectionEntered :: bool

text \<open>\<open>String(i)\<close> of an index.\<close>

fun digits :: "nat \<Rightarrow> string" where
  "digits n = (if n < 10 then [char_of (48 + n)] else digits (n div 10) @ [char_of (48 + n mod 10)])"

declare digits.simps [simp del]

definition section_key :: "section_data \<Rightarrow> nat \<Rightarrow> string" where
  "section_key s i = (case s_key s of Some k \<Rightarrow> if k \<noteq> [] then k else digits i | None \<Rightarrow> digits i)"

text \<open>\<open>_computeState\<close>: the number of rows and the rows of the headers.\<close>

fun sticky_loop :: "nat \<Rightarrow> section_data list \<Rightarrow> nat \<Rightarrow> nat list \<Rightarrow> nat \<times> nat list" where
  "sticky_loop off [] v sticky = (v, sticky)"
| "sticky_loop off (s # ss) v sticky = sticky_loop off ss (v + length (s_data s) + 2) (sticky @ [v + off])"

definition computeState :: "section_props \<Rightarrow> nat \<times> nat list" where
  "computeState p = sticky_loop (if p_listHeader p then 1 else 0) (sections p) 0 []"

definition section_itemCount :: "section_props \<Rightarrow> nat" where
  "section_itemCount p = fst (computeState p)"

definition sticky_indices :: "section_props \<Rightarrow> nat list option" where
  "sticky_indices p = (if stickySectionHeadersEnabled p then Some (snd (computeState p)) else None)"

section \<open>From rows to items\<close>

datatype list_item = SectionItem section_data | DataItem "nat option"

fun getItem_loop :: "section_data list \<Rightarrow> int \<Rightarrow> list_item option" where
  "getItem_loop [] itemIdx = None"
| "getItem_loop (s # ss) itemIdx =
     (let n = int (length (s_data s))
      in if itemIdx = -1 \<or> itemIdx = n then Some (SectionItem s)
         else if itemIdx < n then Some (DataItem (if 0 \<le> itemIdx then array_get (s_data s) (nat itemIdx) else None))
         else getItem_loop ss (itemIdx - (n + 2)))"

definition section_getItem :: "section_props \<Rightarrow> int \<Rightarrow> list_item option" where
  "section_getItem p index = getItem_loop (sections p) (index - 1)"

record sub_info =
  i_section :: nat
  i_key :: string
  i_index :: "nat option"
  i_header :: "bool option"
  leadingItem :: "nat option"
  leadingSection :: "nat option"
  trailingItem :: "nat option"
  trailingSection :: "nat option"

text \<open>The section at a position, if there is one.\<close>

definition section_at :: "section_props \<Rightarrow> int \<Rightarrow> nat option" where
  "section_at p i = (if 0 \<le> i \<and> i < int (length (sections p)) then Some (nat i) else None)"

definition js_get :: "nat list \<Rightarrow> int \<Rightarrow> nat option" where
  "js_get xs i = (if 0 \<le> i then array_get xs (nat i) else None)"

fun subExtractor_loop :: "section_props \<Rightarrow> section_data list \<Rightarrow> nat \<Rightarrow> int \<Rightarrow> sub_info option" where
  "subExtractor_loop p [] i itemIndex0 = None"
| "subExtractor_loop p (s # ss) i itemIndex0 =
     (let itemIndex = itemIndex0 - 1; n = int (length (s_data s)); key = section_key s i
      in if itemIndex \<ge> n + 1 then subExtractor_loop p ss (Suc i) (itemIndex - (n + 1))
         else if itemIndex = -1
         then Some \<lparr>i_section = i, i_key = key @ '':header'', i_index = None, i_header = Some True, leadingItem = None,
                leadingSection = None, trailingItem = None, trailingSection = section_at p (int i + 1)\<rparr>
         else if itemIndex = n
         then Some \<lparr>i_section = i, i_key = key @ '':footer'', i_index = None, i_header = Some False, leadingItem = None,
                leadingSection = None, trailingItem = None, trailingSection = section_at p (int i + 1)\<rparr>
         else let extractor = (case s_keyExtractor s of Some k \<Rightarrow> k | None \<Rightarrow> p_keyExtractor p)
              in Some \<lparr>i_section = i, i_key = key @ '':'' @ extractor (js_get (s_data s) itemIndex) (nat itemIndex),
                i_index = Some (nat itemIndex), i_header = None,
                leadingItem = js_get (s_data s) (itemIndex - 1), leadingSection = section_at p (int i - 1),
                trailingItem = js_get (s_data s) (itemIndex + 1), trailingSection = section_at p (int i + 1)\<rparr>)"

definition subExtractor :: "section_props \<Rightarrow> int \<Rightarrow> sub_info option" where
  "subExtractor p index = subExtractor_loop p (sections p) 0 index"

definition section_keyExtractor :: "section_props \<Rightarrow> nat \<Rightarrow> string" where
  "section_keyExtractor p index =
     (case subExtractor p (int index) of Some info \<Rightarrow> if i_key info \<noteq> [] then i_key info else digits index | None \<Rightarrow> digits index)"

text \<open>The separator below a row: \<open>Some True\<close> is the one between sections, \<open>Some False\<close> the one between items.\<close>

definition getSeparatorComponent :: "section_props \<Rightarrow> nat \<Rightarrow> bool option" where
  "getSeparatorComponent p index =
     (case subExtractor p (int index) of
        None \<Rightarrow> None
      | Some info \<Rightarrow>
          let s = sections p ! i_section info;
              itemSep = (s_separator s \<or> itemSeparator p);
              isLastItemInList = (int index = int (section_itemCount p) - 1);
              isLastItemInSection = (case i_index info of None \<Rightarrow> False | Some i \<Rightarrow> int i = int (length (s_data s)) - 1)
          in if sectionSeparator p \<and> isLastItemInSection then Some True
             else if itemSep \<and> \<not> isLastItemInSection \<and> \<not> isLastItemInList then Some False
             else None)"

section \<open>Locations\<close>

text \<open>The row \<open>scrollToLocation\<close> goes to, and the row whose length it adds for sticky headers.\<close>

definition rows_before :: "section_props \<Rightarrow> nat \<Rightarrow> nat" where
  "rows_before p sectionIndex = sum_list (map (\<lambda>s. length (s_data s) + 2) (take sectionIndex (sections p)))"

definition location_index :: "section_props \<Rightarrow> nat \<Rightarrow> nat \<Rightarrow> nat" where
  "location_index p sectionIndex itemIndex = itemIndex + rows_before p sectionIndex"

datatype section_call =
    ScrollToIndex nat real
  | EnsureVisible int
  | SelectionChange "nat \<times> int" "nat \<times> int" "nat option"
  | SelectionEnter "nat option"

definition scrollToLocation :: "section_props \<Rightarrow> (nat \<Rightarrow> real) \<Rightarrow> nat \<Rightarrow> nat \<Rightarrow> real \<Rightarrow> js_exn + section_call" where
  "scrollToLocation p frameLength sectionIndex itemIndex viewOffset =
     (if sectionIndex > length (sections p) then Inl (TypeError ''Cannot read property data of undefined'')
      else let index = location_index p sectionIndex itemIndex
           in Inr (ScrollToIndex index
                (viewOffset + (if itemIndex > 0 \<and> stickySectionHeadersEnabled p then frameLength (index - itemIndex) else 0))))"

section \<open>Selection by keys\<close>

type_synonym index_path = "nat \<times> int"

definition selectRowAboveIndexPath :: "section_props \<Rightarrow> index_path \<Rightarrow> index_path" where
  "selectRowAboveIndexPath p path =
     (case path of (sectionIndex, row) \<Rightarrow>
        if sectionIndex \<ge> length (sections p) then path
        else if row - 1 < 0
        then if sectionIndex > 0 then (sectionIndex - 1, max 0 (int (length (s_data (sections p ! (sectionIndex - 1)))) - 1))
             else (sectionIndex, row)
        else (sectionIndex, row - 1))"

definition selectRowBelowIndexPath :: "section_props \<Rightarrow> index_path \<Rightarrow> index_path" where
  "selectRowBelowIndexPath p path =
     (case path of (sectionIndex, row) \<Rightarrow>
        if sectionIndex \<ge> length (sections p) then path
        else if row + 1 > int (length (s_data (sections p ! sectionIndex))) - 1
        then if sectionIndex < length (sections p) - 1 then (sectionIndex + 1, 0) else (sectionIndex, row)
        else (sectionIndex, row + 1))"

definition ensure_index :: "section_props \<Rightarrow> index_path \<Rightarrow> int" where
  "ensure_index p path = snd path + 1 + int (rows_before p (fst path))"

text \<open>The item at a path: reading a section that does not exist throws.\<close>

definition item_at :: "section_props \<Rightarrow> index_path \<Rightarrow> js_exn + nat option" where
  "item_at p path =
     (if fst path < length (sections p) then Inr (js_get (s_data (sections p ! fst path)) (snd path))
      else Inl (TypeError ''Cannot read property data of undefined''))"

record selection_state =
  selectedRowIndexPath :: index_path
  section_calls :: "section_call list"

datatype section_key_press = SectionUp | SectionDown | SectionEnter | SectionOther

definition move_selection :: "section_props \<Rightarrow> index_path \<Rightarrow> selection_state \<Rightarrow> (js_exn, selection_state, unit) outcome" where
  "move_selection p next st =
     (let prev = selectedRowIndexPath st;
          st1 = st\<lparr>selectedRowIndexPath := (if fst prev < length (sections p) then next else prev),
                   section_calls := section_calls st @ [EnsureVisible (ensure_index p next)]\<rparr>
      in if fst next > length (sections p) then Throw (TypeError ''Cannot read property data of undefined'') st
         else if \<not> onSelectionChanged p then Ret () st1
         else case item_at p prev of
                Inl e \<Rightarrow> Throw e st1
              | Inr item \<Rightarrow> Ret () (st1\<lparr>section_calls := section_calls st1 @ [SelectionChange prev next item]\<rparr>))"

definition section_handleKeyDown :: "section_props \<Rightarrow> section_key_press \<Rightarrow> selection_state \<Rightarrow> (js_exn, selection_state, unit) outcome" where
  "section_handleKeyDown p key st =
     (case key of
        SectionDown \<Rightarrow> move_selection p (selectRowBelowIndexPath p (selectedRowIndexPath st)) st
      | SectionUp \<Rightarrow> move_selection p (selectRowAboveIndexPath p (selectedRowIndexPath st)) st
      | SectionEnter \<Rightarrow>
          if \<not> onSelectionEntered p then Ret () st
          else (case item_at p (selectedRowIndexPath st) of
                  Inl e \<Rightarrow> Throw e st
                | Inr item \<Rightarrow> Ret () (st\<lparr>section_calls := section_calls st @ [SelectionEnter item]\<rparr>))
      | SectionOther \<Rightarrow> Ret () st)"

definition isItemSelected :: "section_props \<Rightarrow> selection_state \<Rightarrow> nat \<Rightarrow> bool" where
  "isItemSelected p st item =
     (case selectedRowIndexPath st of (s, r) \<Rightarrow>
        s < length (sections p) \<and> r < int (length (s_data (sections p ! s))) \<and> js_get (s_data (sections p ! s)) r = Some item)"

section \<open>Rows\<close>

text \<open>The specification: what the rows of the flat list are, and where each is.\<close>

datatype row = HeaderRow nat | ItemRow nat nat | FooterRow nat

fun row_section :: "row \<Rightarrow> nat" where
  "row_section (HeaderRow s) = s"
| "row_section (ItemRow s i) = s"
| "row_section (FooterRow s) = s"

definition valid_row :: "section_data list \<Rightarrow> row \<Rightarrow> bool" where
  "valid_row ss r \<longleftrightarrow> row_section r < length ss \<and> (\<forall>s i. r = ItemRow s i \<longrightarrow> i < length (s_data (ss ! s)))"

definition start_of :: "section_data list \<Rightarrow> nat \<Rightarrow> nat" where
  "start_of ss s = sum_list (map (\<lambda>s. length (s_data s) + 2) (take s ss))"

fun row_index :: "section_data list \<Rightarrow> row \<Rightarrow> nat" where
  "row_index ss (HeaderRow s) = start_of ss s"
| "row_index ss (ItemRow s i) = start_of ss s + 1 + i"
| "row_index ss (FooterRow s) = start_of ss s + 1 + length (s_data (ss ! s))"

fun row_item :: "section_data list \<Rightarrow> row \<Rightarrow> list_item" where
  "row_item ss (HeaderRow s) = SectionItem (ss ! s)"
| "row_item ss (ItemRow s i) = DataItem (Some (s_data (ss ! s) ! i))"
| "row_item ss (FooterRow s) = SectionItem (ss ! s)"

text \<open>The row a description stands for.\<close>

definition info_row :: "sub_info \<Rightarrow> row" where
  "info_row info =
     (case i_index info of
        Some i \<Rightarrow> ItemRow (i_section info) i
      | None \<Rightarrow> if i_header info = Some True then HeaderRow (i_section info) else FooterRow (i_section info))"

fun shift_row :: "nat \<Rightarrow> row \<Rightarrow> row" where
  "shift_row k (HeaderRow s) = HeaderRow (k + s)"
| "shift_row k (ItemRow s i) = ItemRow (k + s) i"
| "shift_row k (FooterRow s) = FooterRow (k + s)"

lemma start_of_simps [simp]: "start_of ss 0 = 0" "start_of (s # ss) (Suc k) = length (s_data s) + 2 + start_of ss k"
  by (simp_all add: start_of_def)

lemma shift_row_0 [simp]: "shift_row 0 r = r"
  by (cases r) simp_all

text \<open>A row of a later section, seen from the list without the first one.\<close>

lemma row_cases:
  assumes "valid_row (s # ss) r"
  obtains (head) "row_section r = 0" | (later) r' where "r = shift_row 1 r'" "valid_row ss r'" "row_index (s # ss) r = length (s_data s) + 2 + row_index ss r'"
    "row_item (s # ss) r = row_item ss r'"
proof (cases "row_section r")
  case (Suc k)
  define r' where "r' = (case r of HeaderRow _ \<Rightarrow> HeaderRow k | ItemRow _ i \<Rightarrow> ItemRow k i | FooterRow _ \<Rightarrow> FooterRow k)"
  show ?thesis
    by (rule later [of r']) (use assms Suc in \<open>cases r; simp add: r'_def valid_row_def\<close>)+
qed (use head in simp)

lemma sub_loop_row:
  "valid_row ss r \<Longrightarrow> \<exists>info. subExtractor_loop p ss k (int (row_index ss r)) = Some info \<and> info_row info = shift_row k r"
proof (induction ss arbitrary: r k)
  case (Cons s ss)
  show ?case
  proof (rule row_cases [OF Cons.prems])
    assume "row_section r = 0"
    then show ?thesis using Cons.prems by (cases r) (auto simp: Let_def info_row_def valid_row_def)
  next
    fix r' assume r': "r = shift_row 1 r'" "valid_row ss r'" "row_index (s # ss) r = length (s_data s) + 2 + row_index ss r'"
    have "shift_row (Suc k) r' = shift_row k r" using r'(1) by (cases r') simp_all
    then show ?thesis using Cons.IH [OF r'(2), of "Suc k"] r'(3) by (simp add: Let_def)
  qed
qed (simp add: valid_row_def)

lemma getItem_loop_row: "valid_row ss r \<Longrightarrow> getItem_loop ss (int (row_index ss r) - 1) = Some (row_item ss r)"
proof (induction ss arbitrary: r)
  case (Cons s ss)
  show ?case
  proof (rule row_cases [OF Cons.prems])
    assume "row_section r = 0"
    then show ?thesis using Cons.prems by (cases r) (auto simp: Let_def valid_row_def array_get_def)
  next
    fix r' assume r': "valid_row ss r'" "row_index (s # ss) r = length (s_data s) + 2 + row_index ss r'" "row_item (s # ss) r = row_item ss r'"
    then show ?thesis using Cons.IH [OF r'(1)] by (simp add: Let_def)
  qed
qed (simp add: valid_row_def)

lemma sticky_loop_eq:
  "sticky_loop off ss v st = (v + start_of ss (length ss), st @ map (\<lambda>k. v + off + start_of ss k) [0..<length ss])"
proof (induction ss arbitrary: v st)
  case (Cons s ss)
  have "[0..<length (s # ss)] = 0 # map Suc [0..<length ss]" by (metis length_Cons map_Suc_upt upt_conv_Cons zero_less_Suc)
  then show ?case by (simp add: Cons comp_def ac_simps)
qed simp

lemma row_exists: "i < start_of ss (length ss) \<Longrightarrow> \<exists>r. valid_row ss r \<and> row_index ss r = i"
proof (induction ss arbitrary: i)
  case (Cons s ss)
  let ?n = "length (s_data s)"
  consider "i = 0" | "0 < i" "i \<le> ?n" | "i = ?n + 1" | "?n + 2 \<le> i" by linarith
  then show ?case
  proof cases
    case 1
    then show ?thesis by (intro exI [of _ "HeaderRow 0"]) (simp add: valid_row_def)
  next
    case 2
    then show ?thesis by (intro exI [of _ "ItemRow 0 (i - 1)"]) (auto simp: valid_row_def)
  next
    case 3
    then show ?thesis by (intro exI [of _ "FooterRow 0"]) (simp add: valid_row_def)
  next
    case 4
    have "i < ?n + 2 + start_of ss (length ss)" using Cons.prems by simp
    then have "i - (?n + 2) < start_of ss (length ss)" using 4 by linarith
    then obtain r where "valid_row ss r" "row_index ss r = i - (?n + 2)" using Cons.IH by blast
    then show ?thesis using 4 by (intro exI [of _ "shift_row 1 r"]) (cases r; auto simp: valid_row_def)
  qed
qed simp

lemma rows_before_start: "rows_before p s = start_of (sections p) s"
  by (simp add: rows_before_def start_of_def)

text \<open>
  C18: flattening a list of sections is undone by the lookups.  Each header, item and footer has a row of
  its own below the number of rows, each row below that number is one of them, and at that row the item
  and the description of the row, which are found by two different loops, are those of the header, item
  or footer.
\<close>

theorem section_rows_roundtrip:
  shows "(\<forall>r. valid_row (sections p) r \<longrightarrow>
      section_getItem p (int (row_index (sections p) r)) = Some (row_item (sections p) r) \<and>
      (\<exists>info. subExtractor p (int (row_index (sections p) r)) = Some info \<and> info_row info = r)) \<and>
    (\<forall>i < section_itemCount p. \<exists>!r. valid_row (sections p) r \<and> row_index (sections p) r = i)"
proof (intro conjI allI impI)
  fix r assume v: "valid_row (sections p) r"
  show "section_getItem p (int (row_index (sections p) r)) = Some (row_item (sections p) r)"
    by (simp add: section_getItem_def getItem_loop_row [OF v])
  show "\<exists>info. subExtractor p (int (row_index (sections p) r)) = Some info \<and> info_row info = r"
    using sub_loop_row [OF v, of p 0] by (simp add: subExtractor_def)
next
  fix i assume "i < section_itemCount p"
  then have "i < start_of (sections p) (length (sections p))" by (simp add: section_itemCount_def computeState_def sticky_loop_eq)
  then obtain r where r: "valid_row (sections p) r" "row_index (sections p) r = i" using row_exists by blast
  have "r' = r" if "valid_row (sections p) r'" "row_index (sections p) r' = i" for r'
    using sub_loop_row [OF r(1), of p 0] sub_loop_row [OF that(1), of p 0] r(2) that(2) by auto
  then show "\<exists>!r. valid_row (sections p) r \<and> row_index (sections p) r = i" using r by blast
qed

text \<open>
  Sticky headers are the headers: the rows that are made sticky are the rows of the section headers,
  counted with the header of the list.
\<close>

theorem sticky_indices_are_headers:
  "sticky_indices p = (if stickySectionHeadersEnabled p
     then Some (map (\<lambda>s. row_index (sections p) (HeaderRow s) + (if p_listHeader p then 1 else 0)) [0..<length (sections p)]) else None)"
  by (simp add: sticky_indices_def computeState_def sticky_loop_eq)

section \<open>Arrow keys\<close>

text \<open>The number of items before a path in all sections.\<close>

definition items_before :: "section_props \<Rightarrow> nat \<Rightarrow> int" where
  "items_before p s = int (sum_list (map (\<lambda>s. length (s_data s)) (take s (sections p))))"

definition item_position :: "section_props \<Rightarrow> index_path \<Rightarrow> int" where
  "item_position p path = items_before p (fst path) + snd path"

definition total_items :: "section_props \<Rightarrow> int" where
  "total_items p = items_before p (length (sections p))"

definition path_ok :: "section_props \<Rightarrow> index_path \<Rightarrow> bool" where
  "path_ok p path \<longleftrightarrow> fst path < length (sections p) \<and> snd path < int (length (s_data (sections p ! fst path))) \<and>
     (0 \<le> snd path \<or> path = (0, -1))"

lemma items_before_Suc: "s < length (sections p) \<Longrightarrow> items_before p (Suc s) = items_before p s + int (length (s_data (sections p ! s)))"
  by (simp add: items_before_def take_Suc_conv_app_nth)

lemma items_before_mono: "s \<le> t \<Longrightarrow> t \<le> length (sections p) \<Longrightarrow> items_before p s \<le> items_before p t"
proof (induction t)
  case (Suc t)
  then show ?case using items_before_Suc [of t p] by (cases "s = Suc t") auto
qed simp

lemma below_position:
  assumes "\<forall>s\<in>set (sections p). s_data s \<noteq> []" and "path_ok p path"
  shows "path_ok p (selectRowBelowIndexPath p path) \<and> 0 \<le> snd (selectRowBelowIndexPath p path) \<and>
    item_position p (selectRowBelowIndexPath p path) = min (item_position p path + 1) (total_items p - 1)"
proof -
  obtain s r where path: "path = (s, r)" by (cases path)
  have s: "s < length (sections p)" "r < int (length (s_data (sections p ! s)))" "0 \<le> r \<or> s = 0 \<and> r = -1"
    using assms(2) path by (auto simp: path_ok_def)
  have ne: "0 < length (s_data (sections p ! k))" if "k < length (sections p)" for k using assms(1) that by auto
  have b: "items_before p (Suc s) = items_before p s + int (length (s_data (sections p ! s)))" by (rule items_before_Suc [OF s(1)])
  show ?thesis
  proof (cases "r + 1 > int (length (s_data (sections p ! s))) - 1")
    case True
    then have r: "r = int (length (s_data (sections p ! s))) - 1" "0 \<le> r" using s(2) ne [OF s(1)] by linarith+
    show ?thesis
    proof (cases "s < length (sections p) - 1")
      case lt: True
      then have "items_before p (Suc (Suc s)) \<le> total_items p" unfolding total_items_def by (intro items_before_mono) auto
      moreover have "items_before p (Suc (Suc s)) = items_before p (Suc s) + int (length (s_data (sections p ! Suc s)))"
        using lt by (intro items_before_Suc) simp
      moreover have len: "0 < length (s_data (sections p ! Suc s))" using ne lt by simp
      ultimately have "items_before p (Suc s) \<le> total_items p - 1" by linarith
      then show ?thesis using True s r b lt len path
        by (auto simp: selectRowBelowIndexPath_def path_ok_def item_position_def)
    next
      case False
      then have "Suc s = length (sections p)" using s(1) by simp
      then have "total_items p = items_before p (Suc s)" by (simp add: total_items_def)
      then show ?thesis using True False s r b path by (auto simp: selectRowBelowIndexPath_def path_ok_def item_position_def)
    qed
  next
    case False
    have "items_before p (Suc s) \<le> total_items p" unfolding total_items_def using s(1) by (intro items_before_mono) auto
    then show ?thesis using False s b path by (auto simp: selectRowBelowIndexPath_def path_ok_def item_position_def)
  qed
qed

lemma above_position:
  assumes "\<forall>s\<in>set (sections p). s_data s \<noteq> []" and "path_ok p path" and "0 \<le> snd path"
  shows "path_ok p (selectRowAboveIndexPath p path) \<and> 0 \<le> snd (selectRowAboveIndexPath p path) \<and>
    item_position p (selectRowAboveIndexPath p path) = max 0 (item_position p path - 1)"
proof -
  obtain s r where path: "path = (s, r)" by (cases path)
  have s: "s < length (sections p)" "r < int (length (s_data (sections p ! s)))" "0 \<le> r" using assms(2,3) path by (auto simp: path_ok_def)
  have b0: "items_before p 0 = 0" by (simp add: items_before_def)
  have bs: "0 \<le> items_before p s" by (simp add: items_before_def)
  show ?thesis
  proof (cases "r - 1 < 0 \<and> s > 0")
    case True
    then obtain k where k: "s = Suc k" by (cases s) auto
    have "items_before p s = items_before p k + int (length (s_data (sections p ! k)))" using s(1) k items_before_Suc [of k p] by simp
    moreover have len: "0 < length (s_data (sections p ! k))" using assms(1) s(1) k by auto
    moreover have "0 \<le> items_before p k" "r = 0" using True s(3) by (simp_all add: items_before_def)
    ultimately have "0 \<le> items_before p s - 1" "items_before p k + (int (length (s_data (sections p ! k))) - 1) = items_before p s - 1" by linarith+
    then show ?thesis using True s k path len \<open>r = 0\<close> by (auto simp: selectRowAboveIndexPath_def path_ok_def item_position_def max_def)
  next
    case False
    then show ?thesis using s path b0 bs by (auto simp: selectRowAboveIndexPath_def path_ok_def item_position_def)
  qed
qed

text \<open>
  The arrow keys walk through the items of all sections.  When no section is empty, the down key moves
  the selection to the next item, across the borders of sections, and the up key to the one before, and
  both stop at the ends; the row that is scrolled into view is the row of the selected item.
\<close>

theorem arrow_keys_walk_items:
  assumes "\<forall>s\<in>set (sections p). s_data s \<noteq> []" and "path_ok p path"
  shows "path_ok p (selectRowBelowIndexPath p path) \<and>
    item_position p (selectRowBelowIndexPath p path) = min (item_position p path + 1) (total_items p - 1) \<and>
    (0 \<le> snd path \<longrightarrow> path_ok p (selectRowAboveIndexPath p path) \<and>
       item_position p (selectRowAboveIndexPath p path) = max 0 (item_position p path - 1) \<and>
       ensure_index p path = int (row_index (sections p) (ItemRow (fst path) (nat (snd path)))))"
  using below_position [OF assms] above_position [OF assms] by (auto simp: ensure_index_def rows_before_start)

section \<open>Examples\<close>

definition ex_sections :: section_props where
  "ex_sections = \<lparr>sections = [\<lparr>s_key = Some ''a'', s_data = [11, 12], s_keyExtractor = None, s_separator = False\<rparr>,
       \<lparr>s_key = None, s_data = [21], s_keyExtractor = None, s_separator = False\<rparr>],
     p_keyExtractor = (\<lambda>x i. ''header''), p_listHeader = True, stickySectionHeadersEnabled = True, itemSeparator = True,
     sectionSeparator = False, onSelectionChanged = True, onSelectionEntered = True\<rparr>"

theorem section_rows_roundtrip_witness:
  "section_getItem ex_sections 5 = Some (DataItem (Some 21)) \<and> (\<exists>info. subExtractor ex_sections 5 = Some info \<and> info_row info = ItemRow 1 0)"
proof -
  have "valid_row (sections ex_sections) (ItemRow 1 0)" by (simp add: valid_row_def ex_sections_def)
  moreover have "row_index (sections ex_sections) (ItemRow 1 0) = 5" "row_item (sections ex_sections) (ItemRow 1 0) = DataItem (Some 21)"
    by (simp_all add: ex_sections_def start_of_def)
  ultimately show ?thesis using section_rows_roundtrip [of ex_sections] by (metis of_nat_numeral)
qed

theorem arrow_keys_walk_items_witness:
  "item_position ex_sections (selectRowBelowIndexPath ex_sections (0, 1)) = 2"
proof -
  have "path_ok ex_sections (0, 1)" "\<forall>s\<in>set (sections ex_sections). s_data s \<noteq> []" by (simp_all add: path_ok_def ex_sections_def)
  then show ?thesis using arrow_keys_walk_items [of ex_sections "(0, 1)"]
    by (simp add: item_position_def items_before_def total_items_def ex_sections_def)
qed

section \<open>Where the code goes wrong\<close>

text \<open>An item whose key is \<open>header\<close> has the key of the header of its section.\<close>

lemma item_key_clashes_with_header: "section_keyExtractor ex_sections 0 = section_keyExtractor ex_sections 1"
  by (simp add: section_keyExtractor_def subExtractor_def ex_sections_def Let_def section_key_def)

text \<open>\<open>onSelectionChanged\<close> is given the item that was selected before, here none at all for the first key press.\<close>

lemma selection_reports_previous_item:
  "section_handleKeyDown ex_sections SectionDown \<lparr>selectedRowIndexPath = (0, -1), section_calls = []\<rparr> =
   Ret () \<lparr>selectedRowIndexPath = (0, 0), section_calls = [EnsureVisible 1, SelectionChange (0, -1) (0, 0) None]\<rparr>"
  by (simp add: section_handleKeyDown_def move_selection_def selectRowBelowIndexPath_def ensure_index_def rows_before_def item_at_def
      js_get_def ex_sections_def Let_def)

text \<open>Without sections a key press throws when there is a handler.\<close>

lemma key_throws_without_sections:
  "\<exists>e st'. section_handleKeyDown (ex_sections\<lparr>sections := []\<rparr>) SectionDown \<lparr>selectedRowIndexPath = (0, -1), section_calls = []\<rparr> = Throw e st'"
  by (simp add: section_handleKeyDown_def move_selection_def selectRowBelowIndexPath_def item_at_def ex_sections_def Let_def)

text \<open>The selection enters an empty section at a row that does not exist.\<close>

lemma empty_section_is_selected:
  assumes "sections p = [s, t]" and "s_data s = [x]" and "s_data t = []"
  shows "selectRowBelowIndexPath p (0, 0) = (1, 0) \<and> item_at p (1, 0) = Inr None"
  using assms by (simp add: selectRowBelowIndexPath_def item_at_def js_get_def array_get_def)

text \<open>\<open>scrollToLocation\<close> with the index of an item goes to the row before it.\<close>

lemma scroll_goes_to_row_before:
  "scrollToLocation p len s i off = Inr (ScrollToIndex n off') \<Longrightarrow> n + 1 = row_index (sections p) (ItemRow s i)"
  by (auto simp: scrollToLocation_def location_index_def rows_before_start Let_def split: if_splits)

end
