(* ===== verification/Spec2Isabelle.thy ===== *)
theory Spec2Isabelle
  imports EventEmitter MessageQueue JSTimers TaskQueue InteractionManager Batchinator
    VirtualizeUtils ViewabilityHelper Pressability Touchable Differ WebSocket XMLHttpRequest
    NativeModules Responder PanResponder PerformanceLogger AsyncStorage
    AnimatedInterpolation AnimatedValue AnimatedGraph CompositeAnimations
    AttributePayload HostConfig UpdateQueue ChildReconciler
    VirtualizedList SectionList
begin

text \<open>
  A verification development for the JavaScript core of React Native for macOS, the code under
  \<open>src/Libraries\<close>.


  The program.  An application runs in one JavaScript thread.  It reaches the platform through
  the batched bridge (\<open>MessageQueue\<close>): calls to native modules are queued in three parallel
  arrays and handed over in batches, callbacks are held in two tables until native invokes
  them, and native calls registered modules and the timer module in the same way.  Time comes
  from native too: \<open>JSTimers\<close> keeps the table of timers, immediates, animation frames and
  idle callbacks, and tells native what to wait for.  Events of native modules are delivered by
  the emitters (\<open>EventEmitter\<close>, \<open>RCTDeviceEventEmitter\<close>, \<open>NativeEventEmitter\<close>).  On top of
  these, \<open>InteractionManager\<close> delays tasks (\<open>TaskQueue\<close>) until no animation or gesture is
  running, \<open>Batchinator\<close> delays batches of work by a timer and by such a task, the lists
  compute what to render (\<open>VirtualizeUtils\<close>) and what the user can see
  (\<open>ViewabilityHelper\<close>), \<open>Pressability\<close> and \<open>Touchable\<close> turn responder events into
  presses, the differs decide which native properties changed, and \<open>WebSocket\<close>,
  \<open>XMLHttpRequest\<close> and \<open>AsyncStorage\<close> are objects driven by their user and by events of native
  modules.  \<open>Animated\<close> keeps a graph of values, interpolations and properties, moved by animations
  and composed animations.  The renderer turns React elements into native views: the child
  reconciler decides which fibers are reused, placed and deleted, the update queues compute the
  state of components, the attribute payload computes what changed in the properties of a view,
  the host configuration performs the changes through the UI manager, and the responder system
  sends touches to the views.

  How the model is written.  One theory models one source file or a few files that belong
  together, in the order of the code.  The variables of a module or the fields of a class are a
  record, and every operation is a function on the record that carries the name of the source.
  What a computation does to its state before it throws stays done: the type \<open>outcome\<close> of
  \<open>Prelude\<close> has the results \<open>Ret\<close> and \<open>Throw\<close>, both with a state.  User code (listeners,
  timer callbacks, tasks) is a parameter that maps the state of the component to an outcome, so
  it may call the component again; where a component only notifies its user, the calls are
  logged in the state.  Native modules are logs of the calls made to them, and their answers are
  events that may arrive at any time.  Time and geometry are reals or integers; the rounding of
  floating point numbers is not modelled.


  \<^item> \<open>Prelude\<close>: outcomes, JavaScript arrays (\<open>indexOf\<close>, \<open>splice\<close>, reads out of range,
    holes), and the locale \<open>event_machine\<close> of the components that are driven by events: an
    invariant kept by every step is kept by every run.

  \<^item> \<open>JSValue\<close>: the values that cross the bridge or are compared by the differs.

  \<^item> \<open>EventEmitter\<close>: \<open>Libraries/vendor/emitter\<close> and \<open>Libraries/EventEmitter\<close>.  The vendor
    keeps arrays with holes per event type.  The locale \<open>subscription_registry\<close> says what the
    emitters rely on, a list of live subscriptions per type; it is interpreted on the vendor as
    \<open>esv\<close>.  Shown: an emit delivers to the listeners that are still subscribed, in the order
    of their registration; adding and removing are inverse; a second remove of a stale
    subscription can drop another one; \<open>once\<close> of a native emitter throws.

  \<^item> \<open>MessageQueue\<close>: \<open>Libraries/BatchedBridge/MessageQueue.js\<close>.  Identifiers of calls are
    32 bit words where the code shifts them.  Shown: calls reach native in the order they were
    made, with their own parameters, across flushes; a callback runs at most once and takes its
    twin with it; the encoding of callback identifiers is a round trip; a call that the
    development check rejects leaves the three arrays misaligned.

  \<^item> \<open>JSTimers\<close>: \<open>Libraries/Core/Timers/JSTimers.js\<close>.  The locale \<open>timer_table\<close> (a finite
    map whose identifiers are never reused) is interpreted on the three arrays as \<open>jst\<close>.
    Shown: a timer that was cleared or has fired never fires again, whatever user code does; an
    exception of one callback does not keep the others from running, and none is lost;
    immediates run in order.  \<open>callTimers\<close> re-enters itself through the timeout of an idle
    callback at most once, so the call depth \<open>IDLE_DEPTH\<close> is enough
    (\<open>runCallback_depth_enough\<close>).  The loop of \<open>callImmediates\<close> may run for ever and is a
    partial function; that it returns is part of what is shown for callbacks that queue no
    further immediates.

  \<^item> \<open>TaskQueue\<close> and \<open>InteractionManager\<close>: \<open>Libraries/Interaction\<close>.  Tasks run in order;
    an unresolved promise blocks the queues below its own; at most one update is pending; no
    task runs while an interaction is active.  \<open>process_loop\<close> is a partial function, since
    tasks may queue tasks.  Two theorems show how the code loses what is queued: cancelling
    drops the queue of a pending promise, and handles created by a task are forgotten.

  \<^item> \<open>Batchinator\<close>: \<open>Libraries/Interaction/Batchinator.js\<close>, interpreted as \<open>bat\<close>.  A batch
    runs the callback once, and after a disposal nothing runs unless it is scheduled again.

  \<^item> \<open>VirtualizeUtils\<close> and \<open>ViewabilityHelper\<close>: \<open>Libraries/Lists\<close>.  The window is inside
    the list, has at most the items a batch allows beyond those already rendered, and the search
    for offsets finds the first items that reach them.  The viewable items are exactly those that
    satisfy the criterion, and the notifications, replayed, always give the set of items that
    the helper considers viewable (\<open>vhm\<close>).

  \<^item> \<open>Pressability\<close>: \<open>Libraries/Pressability/Pressability.js\<close>.  The protocol of responder
    events, moves, measurements and timers never reaches the error state and never throws; a
    release is a press exactly when it is inside the region and no long press took it; leaving
    before the delay disarms the press.  A timer of \<open>onHoverOut\<close> is kept in the wrong field.

  \<^item> \<open>Touchable\<close>: \<open>Libraries/Components/Touchable/Touchable.js\<close>, on the geometry of
    \<open>Pressability\<close>, interpreted as \<open>tbm\<close>.  No sequence of events throws, and every highlight
    is undone when the gesture is over.

  \<^item> \<open>Differ\<close>: \<open>Libraries/Utilities/differ\<close>.  \<open>deepDiffer\<close> is symmetric, and a smaller
    depth limit only ever reports more differences.

  \<^item> \<open>WebSocket\<close> and \<open>XMLHttpRequest\<close>, interpreted as \<open>wsm\<close> and \<open>xhrm\<close>.  A socket reports
    its end once; every request ends once, with a single loadend.  Theorems show that an open
    event reopens a closing socket, that a remote close leaks the handler of the blob manager, and
    that the answer to an aborted request can be taken for the answer to the next one.

  \<^item> \<open>NativeModules\<close>: \<open>Libraries/BatchedBridge/NativeModules.js\<close> and
    \<open>Utilities/defineLazyObjectProperty.js\<close>, on top of the queue of \<open>MessageQueue\<close>.  The promise
    of an asynchronous method is settled by the answer of native to its own call, and once.

  \<^item> \<open>Responder\<close>: the responder system, the two-phase dispatch and the touch history of
    \<open>Renderer/implementations/ReactNativeRenderer-dev.js\<close>, interpreted as \<open>rsm\<close>.  The calls a
    view receives are bookended by a grant and a release or termination; the responder is handed
    over only to ancestors; native is told of every change of the responder; the lock is released
    when the last touch ends.  The walk to the root is bounded by the height of the tree.

  \<^item> \<open>PanResponder\<close>: \<open>Libraries/Interaction/PanResponder.js\<close> and \<open>TouchHistoryMath.js\<close>,
    interpreted as \<open>pan\<close>.  Moves add up to the mean displacement of the touches, and the
    interaction handle is created and cleared in turn.

  \<^item> \<open>PerformanceLogger\<close> and \<open>AsyncStorage\<close>, interpreted as \<open>plm\<close> and \<open>asm\<close>.  Timespans are
    consistent; every request to the storage is answered once, and batched reads agree with
    separate ones.

  \<^item> \<open>AnimatedInterpolation\<close>, \<open>SpringMotion\<close>, \<open>AnimatedValue\<close>, \<open>AnimatedGraph\<close> and
    \<open>CompositeAnimations\<close>: \<open>Libraries/Animated/src\<close>.  Interpolations meet their knots and are
    bounded when clamped; springs solve the differential equation of the damped oscillator; every
    animation ends once and at most one drives a value (\<open>avm\<close>, \<open>avs\<close>); a node is attached to its
    inputs while a view needs it, and a change reaches every dependent view (\<open>agm\<close>); composed
    animations start in order and call back once (\<open>pam\<close>).  The walk through the graph is bounded
    by the number of nodes, which no path without a cycle exceeds; the mutual stopping of parallel
    animations by the number of animations.

  \<^item> \<open>AttributePayload\<close>: the attribute payload of \<open>ReactNativeRenderer-dev.js\<close> and
    \<open>StyleSheet/flattenStyle.js\<close>.  Applying the payloads of any sequence of renders leaves native
    with the values of the last one.

  \<^item> \<open>HostConfig\<close>: the host configuration of the same file and the view registry of
    \<open>React/Modules/RCTUIManager.m\<close>, interpreted as \<open>hcm\<close>.  The native tree mirrors the children
    the renderer keeps, its attributes are those last committed, and hiding is undone by showing.
    Purging and uncaching recurse to the depth of the number of views.

  \<^item> \<open>UpdateQueue\<close>: the update queues of the same file, with their circular lists in a store.  No
    update is lost or reordered by priorities, interrupted renders or rebasing, and the loop over
    a queue ends: its fuel is the number of updates in the store, which bounds every ring.  Lemmas
    show that the callback of a rebased update is called twice and that captured updates go first.

  \<^item> \<open>ChildReconciler\<close>: the child reconciler of the same file.  Children get fibers of their own
    key, type and properties in their order; current fibers are reused or deleted once; keyed
    children keep their fiber; the placements lead to the new order; the copy of the algorithm for
    iterators agrees with the one for arrays.

  \<^item> \<open>VirtualizedList\<close>: \<open>Libraries/Lists/VirtualizedList.js\<close>, on top of \<open>VirtualizeUtils\<close>: the
    window of rendered rows, the frames measured, the spacers, the scroll metrics, the end
    reached and the selection by keys.  No sequence of events makes the list throw and the window
    stays within the data; the end is reported once per length of content; cells are laid out at
    the offsets the list believes they have.  Lemmas show a selection beyond the end, an exception
    of the arrow keys, a spacer that is too long and a misplaced sticky header.

  \<^item> \<open>SectionList\<close>: \<open>Libraries/Lists/VirtualizedSectionList.js\<close>.  The rows of the flat list
    stand one to one for the headers, items and footers of the sections; the arrow keys walk
    through the items in order; the sticky rows are the section headers.

  What is not modelled.  The rest of React: hooks, context, suspense, the scheduler and the commit
  of effects other than those above, and the other bundles of the renderer, which are built from
  the same sources.  Components that only render and thin wrappers of native modules.  Easings,
  animated events and native animation nodes, LogBox, \<open>AppRegistry\<close>, colours, transforms and
  matrices, the error guards and exception reports, and \<open>FlatList\<close>, which wraps
  the list above.  The native halves of the modules except for the view registry, the code
  generator, the command line and the tests.  Systrace, the inspector hooks and the text of
  warnings; reentrant event handlers of \<open>WebSocket\<close> and \<open>XMLHttpRequest\<close>, whose user acts between
  events instead.  Regular expressions, JSON and base64 are parameters where they are used.
\<close>

section \<open>The responder system drives Pressability\<close>

text \<open>The responder events among the inputs of a pressable view, and the calls it gets.\<close>

fun press_kind :: "press_input \<Rightarrow> registration option" where
  "press_kind (Grant t e) = Some ResponderGrant"
| "press_kind (Move e) = Some ResponderMove"
| "press_kind (Release e) = Some ResponderRelease"
| "press_kind (Terminate e) = Some ResponderTerminate"
| "press_kind _ = None"

fun press_kinds :: "press_input list \<Rightarrow> registration list" where
  "press_kinds [] = []"
| "press_kinds (i # is') = (case press_kind i of None \<Rightarrow> [] | Some r \<Rightarrow> [r]) @ press_kinds is'"

definition press_calls :: "fiber \<Rightarrow> (registration \<times> fiber) list \<Rightarrow> registration list" where
  "press_calls f es = map fst (filter (\<lambda>(r, g). g = f \<and>
     r \<in> {ResponderGrant, ResponderMove, ResponderRelease, ResponderTerminate}) es)"

fun granted_first :: "bool \<Rightarrow> registration list \<Rightarrow> bool" where
  "granted_first g [] = True"
| "granted_first g (r # rs) =
     (if r = ResponderGrant then granted_first True rs
      else g \<and> granted_first (r = ResponderMove) rs)"

lemma obeys_kinds: "obeys_protocol g is' = granted_first g (press_kinds is')"
  by (induction g is' rule: obeys_protocol.induct) simp_all

lemma monitored_calls:
  "monitor False f h es \<noteq> None \<Longrightarrow> h \<longrightarrow> g \<Longrightarrow> granted_first g (press_calls f es)"
  by (induction "False" f h es arbitrary: g rule: monitor.induct)
    (auto simp: press_calls_def split: registration.splits if_splits)

text \<open>
  C26: a view with the handlers of \<open>Pressability\<close> never makes them throw.  Whatever touches
  native code reports and whatever the other views of the tree answer, the responder system
  calls the view in an order the press state machine accepts, with timers, measurements,
  hovers and reconfigurations arriving at any moment in between.
\<close>

theorem pressable_view_never_throws:
  assumes "\<forall>i \<in> set ins. listens False f (input_env i)"
    and "press_kinds (map snd evs) = press_calls f (rs_log (foldl responder_step new_responder_system ins))"
  shows "\<exists>st. press_run evs (new_Pressability config) = Ret () st"
proof -
  have "monitor False f False (rs_log (foldl responder_step new_responder_system ins)) \<noteq> None"
    using lock_run [OF assms(1)] by (auto simp: lock_ok_def)
  from monitored_calls [OF this] assms(2) have "obeys_protocol False (map snd evs)"
    by (simp add: obeys_kinds)
  then show ?thesis
    using press_run_ok [of "new_Pressability config" evs] new_Pressability_ok [of config] by auto
qed

lemma ex_start_calls:
  "press_calls ex_view (rs_log (foldl responder_step new_responder_system
     [RootEvent ex_responder_env (Some 5) TopTouchStart ex_no_touches])) = [ResponderGrant]"
proof -
  have ans: "answers ex_responder_env ex_view (ShouldSet StartShouldSet False)"
    by (simp add: ex_responder_env_def ex_view_def)
  have ne: "ex_root \<noteq> ex_view" by (simp add: ex_view_def ex_root_def)
  show ?thesis
    using ans ne
    by (simp add: receiveRootNodeIDEvent_def extractEvents_def track_touch_count_def isStartish_def isEndish_def
        isMoveish_def recordTouchTrack_def ex_no_touches_def canTriggerTransfer_def setResponderAndExtractTransfer_def
        should_set_kind_def should_set_dispatches_def bubble_start_def two_phase_dispatches_def negotiate_def
        executeDirectDispatch_def responder_events_def incremental_touch_def final_touch_def after_start_def
        count_touches_def new_responder_system_def press_calls_def Let_def)
qed

theorem pressable_view_never_throws_witness:
  "\<exists>st. press_run [(Pressability.ex_env, Grant 7 (Pressability.ex_touch 5)), (Pressability.ex_env, Fire 0)]
     (new_Pressability Pressability.ex_config) = Ret () st"
  by (rule pressable_view_never_throws [where f = ex_view and
        ins = "[RootEvent ex_responder_env (Some 5) TopTouchStart ex_no_touches]"])
    (use ex_start_calls in \<open>auto simp: listens_def\<close>)

end
